(* ===== verification/Prelude.thy ===== *)
theory Prelude
  imports Main
begin

text \<open>
  Shared vocabulary of the development: the collections of simplification facts, the names of the
  types the components share, and generic lemmas on lists and association lists that more than one
  component uses.
\<close>

named_theorems machine_simps \<open>evaluation of the scanner statechart's declarations\<close>
named_theorems flow_simps \<open>evaluation of the submit flow's page operations\<close>
named_theorems push_simps \<open>evaluation of the push handler's steps\<close>
named_theorems merge_simps \<open>evaluation of the three-way merge\<close>

text \<open>Epoch milliseconds and durations: JavaScript numbers that the code keeps integral.\<close>

type_synonym ms = int

section \<open>Folds and invariants\<close>

lemma foldl_invariant:
  assumes "P s" and "\<And>s x. x \<in> set xs \<Longrightarrow> P s \<Longrightarrow> P (f s x)"
  shows "P (foldl f s xs)"
  using assms by (induction xs arbitrary: s) auto

lemma fold_invariant:
  assumes "P s" and "\<And>x s. x \<in> set xs \<Longrightarrow> P s \<Longrightarrow> P (f x s)"
  shows "P (fold f xs s)"
  using assms by (induction xs arbitrary: s) auto

lemma foldl_simulation:
  assumes "R s t" and "\<And>s t x. x \<in> set xs \<Longrightarrow> R s t \<Longrightarrow> R (f s x) (g t x)"
  shows "R (foldl f s xs) (foldl g t xs)"
  using assms by (induction xs arbitrary: s t) auto

section \<open>Association lists\<close>

lemma map_of_map_snd: "map_of (map (\<lambda>(k, v). (k, f v)) xs) k = map_option f (map_of xs k)"
  by (induction xs) auto

lemma map_of_map_snd_key: "map_of (map (\<lambda>(k, v). (k, f k v)) xs) k = map_option (f k) (map_of xs k)"
  by (induction xs) auto

end
