(* ===== verification/SubmitMachine.thy ===== *)
theory SubmitMachine
  imports Prelude
begin

text \<open>
  The strict scanner statechart of \<^verbatim>\<open>marketing/submit-machine.js\<close>: its event alphabet, its context,
  the compiler from declared transitions and declared ignores to an \<open>on\<close> map (\<open>buildOn\<close>,
  \<open>scanState\<close>, \<open>plainState\<close>), the three parallel regions, and the macrostep that the statechart
  engine runs for one event (selection against the pre-event context, transition actions in region
  order, entry actions, then the raised internal events).
\<close>

section \<open>Events, states and context\<close>

datatype etype =
    SCAN | QR_DECODED | RESOLVED | ORDER_OK | SUBMIT
  | OVERRIDE_REQUEST | OVERRIDE_CONFIRM | OVERRIDE_CANCEL
  | DISMISS | RETRY | NEXT_CUSTOMER
  | SRV_REDEEMED | SRV_ALREADY_USED | SRV_EXPIRED | SRV_NOT_FOUND | SRV_ERROR
  | CONN_DOWN | CONN_UP | PROBE_TIMEOUT | RESUBSCRIBED
  | UNEXPECTED   \<comment> \<open>internal: raised by the model-mode wildcard\<close>
  | OTHER string \<comment> \<open>any event name outside the alphabet\<close>

text \<open>An event object: its type and the payload fields the machine reads.\<close>

record event =
  ev_type :: etype
  ev_code :: string
  ev_kind :: string
  ev_requiresOnline :: bool

definition SCAN_EVENTS :: "etype list" where
  "SCAN_EVENTS =
     [SCAN, QR_DECODED, RESOLVED, ORDER_OK, SUBMIT,
      OVERRIDE_REQUEST, OVERRIDE_CONFIRM, OVERRIDE_CANCEL,
      DISMISS, RETRY, NEXT_CUSTOMER,
      SRV_REDEEMED, SRV_ALREADY_USED, SRV_EXPIRED, SRV_NOT_FOUND, SRV_ERROR]"

definition CONN_EVENTS :: "etype list" where
  "CONN_EVENTS = [CONN_DOWN, CONN_UP, PROBE_TIMEOUT, RESUBSCRIBED]"

definition EVENT_ALPHABET :: "etype list" where
  "EVENT_ALPHABET = SCAN_EVENTS @ CONN_EVENTS"

definition SRV_VERDICTS :: "etype list" where
  "SRV_VERDICTS = [SRV_REDEEMED, SRV_ALREADY_USED, SRV_EXPIRED, SRV_NOT_FOUND, SRV_ERROR]"

definition OVERRIDE_EVENTS :: "etype list" where
  "OVERRIDE_EVENTS = [OVERRIDE_REQUEST, OVERRIDE_CONFIRM, OVERRIDE_CANCEL]"

datatype scan_state =
    Idle | Scanning | Resolving | OfferReady | ReadyToSubmit | UnknownCode
  | BlockedOffline | OverrideConfirm | OverridePending | Submitting
  | Redeemed | AlreadyUsed | SpentLocally | ExpiredLocally | Expired
  | NotFound | ErrorState | UnexpectedEvent

datatype conn_state = Online | Offline | Stale

datatype ov_state = NoOverlay | Prompt

definition SCAN_STATE_NAMES :: "scan_state list" where
  "SCAN_STATE_NAMES =
     [Idle, Scanning, Resolving, OfferReady, ReadyToSubmit, UnknownCode,
      BlockedOffline, OverrideConfirm, OverridePending, Submitting,
      Redeemed, AlreadyUsed, SpentLocally, ExpiredLocally, Expired,
      NotFound, ErrorState, UnexpectedEvent]"

text \<open>The states a different-code scan may interrupt with the finish-first prompt.\<close>

definition INTERRUPTIBLE :: "scan_state list" where
  "INTERRUPTIBLE =
     [Resolving, OfferReady, ReadyToSubmit, UnknownCode, SpentLocally,
      ExpiredLocally, BlockedOffline, OverridePending, Redeemed,
      AlreadyUsed, Expired, NotFound, ErrorState, UnexpectedEvent]"

record trip_info =
  ti_event :: etype
  ti_scan :: scan_state
  ti_conn :: conn_state
  ti_overlay :: ov_state

record ctx =
  canOverride :: bool
  c_conn :: conn_state
  c_ov :: ov_state
  c_sc :: scan_state
  sessionCode :: "string option"
  resolutionKind :: "string option"
  requiresOnline :: bool
  overrideAvailable :: bool
  unverifiedWarning :: bool
  gateReturn :: "scan_state option"
  unexpectedInfo :: "trip_info option"
  unexpectedReturn :: "scan_state option"

text \<open>\<open>assign(RESET_CTX)\<close>: the session fields go back to their initial values.\<close>

definition RESET_CTX :: "ctx \<Rightarrow> ctx" where
  "RESET_CTX c = c\<lparr>sessionCode := None, resolutionKind := None, requiresOnline := False,
     overrideAvailable := False, unverifiedWarning := False, gateReturn := None,
     unexpectedInfo := None, unexpectedReturn := None\<rparr>"

definition init_ctx :: "bool \<Rightarrow> ctx" where
  "init_ctx co = \<lparr>canOverride = co, c_conn = Online, c_ov = NoOverlay, c_sc = Idle,
     sessionCode = None, resolutionKind = None, requiresOnline = False,
     overrideAvailable = False, unverifiedWarning = False, gateReturn = None,
     unexpectedInfo = None, unexpectedReturn = None\<rparr>"

section \<open>Transitions and the compiler\<close>

text \<open>The effects pushed to the sink the page supplies.\<close>

datatype effect = SubmitToServer | WriteAttempt (offline_override: bool) (unverified_code: bool)

text \<open>The action kinds the machine uses: \<open>assign\<close>, the effect push, the trip report, \<open>raise\<close> and
  the throw of the strict build.\<close>

datatype action =
    Assign "ctx \<Rightarrow> event \<Rightarrow> ctx"
  | Emit "ctx \<Rightarrow> effect"
  | OnTrip
  | Raise etype
  | Throw

record 'st trans =
  t_guard :: "(ctx \<Rightarrow> event \<Rightarrow> bool) option"
  t_target :: "'st option"
  t_actions :: "action list"

definition noop :: "'st trans" where
  "noop = \<lparr>t_guard = None, t_target = None, t_actions = []\<rparr>"

definition goto :: "'st \<Rightarrow> 'st trans" where
  "goto s = \<lparr>t_guard = None, t_target = Some s, t_actions = []\<rparr>"

type_synonym 'st on_map = "(etype \<times> 'st trans list) list"

text \<open>\<open>buildOn\<close>: an event declared both as a transition and as an ignore is a design error and
  throws (\<open>Inl\<close> the event); otherwise every ignore becomes the explicit no-op \<open>[{}]\<close>.\<close>

fun add_ignores :: "'st on_map \<Rightarrow> etype list \<Rightarrow> etype + 'st on_map" where
  "add_ignores out [] = Inr out"
| "add_ignores out (ev # evs) =
     (if map_of out ev \<noteq> None then Inl ev else add_ignores (out @ [(ev, [noop])]) evs)"

definition buildOn :: "'st on_map \<Rightarrow> etype list \<Rightarrow> etype + 'st on_map" where
  "buildOn on ignores = add_ignores on ignores"

definition declaredAlphabetPairs :: "'st on_map \<Rightarrow> nat" where
  "declaredAlphabetPairs on = length (filter (\<lambda>ev. ev \<in> set EVENT_ALPHABET) (map fst on))"

definition GATE_BYPASS :: "etype list" where
  "GATE_BYPASS = [NEXT_CUSTOMER, RESUBSCRIBED, UNEXPECTED]"

text \<open>The overlay gate put on one transition: a modal blocks the controls beneath it. A declared
  no-op stays unguarded.\<close>

definition gate_trans :: "'st trans \<Rightarrow> 'st trans" where
  "gate_trans d =
     (if t_target d = None \<and> t_actions d = [] \<and> t_guard d = None then d
      else d\<lparr>t_guard := Some (case t_guard d of
               Some g \<Rightarrow> (\<lambda>c e. c_ov c = NoOverlay \<and> g c e)
             | None \<Rightarrow> (\<lambda>c e. c_ov c = NoOverlay))\<rparr>)"

text \<open>A guard chain whose last entry is guarded gets a declared no-op tail.\<close>

definition add_tail :: "'st trans list \<Rightarrow> 'st trans list" where
  "add_tail ts = (if ts \<noteq> [] \<and> t_guard (last ts) \<noteq> None then ts @ [noop] else ts)"

definition wrap_entry :: "etype \<Rightarrow> 'st trans list \<Rightarrow> 'st trans list" where
  "wrap_entry ev ts = add_tail (if ev \<in> set GATE_BYPASS then ts else map gate_trans ts)"

text \<open>\<open>scanState\<close>: \<open>buildOn\<close>, the UNEXPECTED handler (every state but the error state itself), the
  overlay gate and the no-op tails.\<close>

definition scanState :: "scan_state \<Rightarrow> scan_state on_map \<Rightarrow> etype list \<Rightarrow> etype + scan_state on_map" where
  "scanState name on ignores =
     (case buildOn on ignores of
        Inl e \<Rightarrow> Inl e
      | Inr merged \<Rightarrow>
          Inr (map (\<lambda>(ev, ts). (ev, wrap_entry ev ts))
                 (if name \<noteq> UnexpectedEvent then merged @ [(UNEXPECTED, [goto UnexpectedEvent])]
                  else merged)))"

text \<open>\<open>plainState\<close>: the connectivity and overlay regions carry no gate and no tails.\<close>

definition plainState :: "'st on_map \<Rightarrow> etype list \<Rightarrow> etype + 'st on_map" where
  "plainState on ignores = buildOn on ignores"

section \<open>The three regions\<close>

subsection \<open>Connectivity\<close>

fun conn_decl :: "conn_state \<Rightarrow> conn_state on_map \<times> etype list" where
  "conn_decl Online =
     ([(CONN_DOWN, [goto Offline]), (PROBE_TIMEOUT, [goto Offline])],
      [CONN_UP, RESUBSCRIBED, UNEXPECTED] @ SCAN_EVENTS)"
| "conn_decl Offline =
     ([(CONN_UP, [goto Stale])],
      [CONN_DOWN, PROBE_TIMEOUT, RESUBSCRIBED, UNEXPECTED] @ SCAN_EVENTS)"
| "conn_decl Stale =
     ([(RESUBSCRIBED, [goto Online]), (CONN_DOWN, [goto Offline]), (PROBE_TIMEOUT, [goto Offline])],
      [CONN_UP, UNEXPECTED] @ SCAN_EVENTS)"

definition conn_on :: "conn_state \<Rightarrow> etype + conn_state on_map" where
  "conn_on s = (case conn_decl s of (on, ignores) \<Rightarrow> plainState on ignores)"

subsection \<open>Overlay: the finish-first prompt\<close>

fun ov_decl :: "ov_state \<Rightarrow> ov_state on_map \<times> etype list" where
  "ov_decl NoOverlay =
     ([(QR_DECODED,
         [noop\<lparr>t_guard := Some (\<lambda>c e. sessionCode c \<noteq> None \<and> Some (ev_code e) = sessionCode c)\<rparr>,
          (goto Prompt)\<lparr>t_guard := Some (\<lambda>c e. sessionCode c \<noteq> None \<and> c_sc c \<in> set INTERRUPTIBLE)\<rparr>,
          noop]),
       (UNEXPECTED, [noop])],
      filter (\<lambda>e. e \<noteq> QR_DECODED) SCAN_EVENTS @ CONN_EVENTS)"
| "ov_decl Prompt =
     ([(DISMISS, [goto NoOverlay]),
       (NEXT_CUSTOMER, [goto NoOverlay]),
       (QR_DECODED, [noop\<lparr>t_guard := Some (\<lambda>c e. Some (ev_code e) = sessionCode c)\<rparr>, noop]),
       (UNEXPECTED, [goto NoOverlay])],
      filter (\<lambda>e. e \<notin> set [DISMISS, NEXT_CUSTOMER, QR_DECODED]) SCAN_EVENTS @ CONN_EVENTS)"

definition ov_on :: "ov_state \<Rightarrow> etype + ov_state on_map" where
  "ov_on s = (case ov_decl s of (on, ignores) \<Rightarrow> plainState on ignores)"

subsection \<open>Scan: the redemption flow\<close>

definition resettable :: "scan_state on_map" where
  "resettable = [(NEXT_CUSTOMER, [(goto Idle)\<lparr>t_actions := [Assign (\<lambda>c e. RESET_CTX c)]\<rparr>])]"

definition resolvedKind :: action where
  "resolvedKind = Assign (\<lambda>c e. c\<lparr>resolutionKind := Some (ev_kind e), requiresOnline := ev_requiresOnline e\<rparr>)"

definition on_kind :: "string \<Rightarrow> bool \<Rightarrow> scan_state \<Rightarrow> scan_state trans" where
  "on_kind k needOnline s =
     \<lparr>t_guard = Some (\<lambda>c e. ev_kind e = k \<and> (needOnline \<longrightarrow> c_conn c = Online)),
      t_target = Some s, t_actions = [resolvedKind]\<rparr>"

definition submitOrGate :: "scan_state \<Rightarrow> scan_state on_map" where
  "submitOrGate self =
     [(SUBMIT,
        [\<lparr>t_guard = Some (\<lambda>c e. c_conn c = Online), t_target = Some Submitting,
          t_actions = [Emit (\<lambda>c. SubmitToServer)]\<rparr>,
         (goto BlockedOffline)\<lparr>t_actions :=
            [Assign (\<lambda>c e. c\<lparr>overrideAvailable := canOverride c \<and> \<not> requiresOnline c,
                             gateReturn := Some self\<rparr>)]\<rparr>])]"

definition resume_to :: "scan_state \<Rightarrow> scan_state trans" where
  "resume_to s = (goto s)\<lparr>t_guard := Some (\<lambda>c e. c_conn c = Stale \<and> gateReturn c = Some s)\<rparr>"

fun scan_decl :: "scan_state \<Rightarrow> scan_state on_map \<times> etype list" where
  "scan_decl Idle =
     ([(SCAN, [goto Scanning])],
      [QR_DECODED, RESOLVED, ORDER_OK, SUBMIT] @ OVERRIDE_EVENTS @ [DISMISS, RETRY, NEXT_CUSTOMER]
       @ SRV_VERDICTS @ CONN_EVENTS)"
| "scan_decl Scanning =
     ([(QR_DECODED, [(goto Resolving)\<lparr>t_actions := [Assign (\<lambda>c e. c\<lparr>sessionCode := Some (ev_code e)\<rparr>)]\<rparr>])],
      [SCAN, RESOLVED, ORDER_OK, SUBMIT] @ OVERRIDE_EVENTS @ [DISMISS, RETRY, NEXT_CUSTOMER]
       @ SRV_VERDICTS @ CONN_EVENTS)"
| "scan_decl Resolving =
     ((RESOLVED,
        [on_kind ''offerReady'' False OfferReady,
         on_kind ''unknownCode'' False UnknownCode,
         on_kind ''spentLocally'' True OfferReady,
         on_kind ''spentLocally'' False SpentLocally,
         on_kind ''expiredLocally'' False ExpiredLocally]) # resettable,
      [SCAN, QR_DECODED, ORDER_OK, SUBMIT] @ OVERRIDE_EVENTS @ [DISMISS, RETRY]
       @ SRV_VERDICTS @ CONN_EVENTS)"
| "scan_decl OfferReady =
     ((ORDER_OK, [goto ReadyToSubmit]) # resettable,
      [SCAN, QR_DECODED, RESOLVED, SUBMIT] @ OVERRIDE_EVENTS @ [DISMISS, RETRY]
       @ SRV_VERDICTS @ CONN_EVENTS)"
| "scan_decl ReadyToSubmit =
     (submitOrGate ReadyToSubmit @ resettable,
      [SCAN, QR_DECODED, RESOLVED, ORDER_OK] @ OVERRIDE_EVENTS @ [DISMISS, RETRY]
       @ SRV_VERDICTS @ CONN_EVENTS)"
| "scan_decl UnknownCode =
     (submitOrGate UnknownCode @ resettable,
      [SCAN, QR_DECODED, RESOLVED, ORDER_OK] @ OVERRIDE_EVENTS @ [DISMISS, RETRY]
       @ SRV_VERDICTS @ CONN_EVENTS)"
| "scan_decl BlockedOffline =
     ([(OVERRIDE_REQUEST,
         [\<lparr>t_guard = Some (\<lambda>c e. overrideAvailable c), t_target = Some OverrideConfirm,
           t_actions = [Assign (\<lambda>c e. c\<lparr>unverifiedWarning := resolutionKind c = Some ''unknownCode''\<rparr>)]\<rparr>]),
       (RESUBSCRIBED, [resume_to ReadyToSubmit, resume_to UnknownCode])] @ resettable,
      [SCAN, QR_DECODED, RESOLVED, ORDER_OK, SUBMIT, OVERRIDE_CONFIRM, OVERRIDE_CANCEL, DISMISS, RETRY]
       @ SRV_VERDICTS @ [CONN_DOWN, CONN_UP, PROBE_TIMEOUT])"
| "scan_decl OverrideConfirm =
     ([(OVERRIDE_CONFIRM,
         [(goto OverridePending)\<lparr>t_actions :=
            [Emit (\<lambda>c. WriteAttempt True (resolutionKind c = Some ''unknownCode''))]\<rparr>]),
       (OVERRIDE_CANCEL, [goto BlockedOffline])],
      [SCAN, QR_DECODED, RESOLVED, ORDER_OK, SUBMIT, OVERRIDE_REQUEST, DISMISS, RETRY, NEXT_CUSTOMER]
       @ SRV_VERDICTS @ CONN_EVENTS)"
| "scan_decl OverridePending =
     (resettable,
      [SCAN, QR_DECODED, RESOLVED, ORDER_OK, SUBMIT] @ OVERRIDE_EVENTS @ [DISMISS, RETRY]
       @ SRV_VERDICTS @ CONN_EVENTS)"
| "scan_decl Submitting =
     ([(SRV_REDEEMED, [goto Redeemed]), (SRV_ALREADY_USED, [goto AlreadyUsed]),
       (SRV_EXPIRED, [goto Expired]), (SRV_NOT_FOUND, [goto NotFound]), (SRV_ERROR, [goto ErrorState])],
      [SCAN, QR_DECODED, RESOLVED, ORDER_OK, SUBMIT] @ OVERRIDE_EVENTS @ [DISMISS, RETRY, NEXT_CUSTOMER]
       @ CONN_EVENTS)"
| "scan_decl ErrorState =
     ((RETRY, [goto ReadyToSubmit]) # resettable,
      [SCAN, QR_DECODED, RESOLVED, ORDER_OK, SUBMIT] @ OVERRIDE_EVENTS @ [DISMISS]
       @ SRV_VERDICTS @ CONN_EVENTS)"
| "scan_decl UnexpectedEvent =
     ((RETRY,
        map (\<lambda>n. (goto n)\<lparr>t_guard := Some (\<lambda>c e. unexpectedReturn c = Some n)\<rparr>)
            (filter (\<lambda>n. n \<noteq> UnexpectedEvent) SCAN_STATE_NAMES)
        @ [(goto Idle)\<lparr>t_actions := [Assign (\<lambda>c e. RESET_CTX c)]\<rparr>]) # resettable,
      [SCAN, QR_DECODED, RESOLVED, ORDER_OK, SUBMIT] @ OVERRIDE_EVENTS @ [DISMISS]
       @ SRV_VERDICTS @ CONN_EVENTS @ [UNEXPECTED])"
| "scan_decl _ = \<comment> \<open>Redeemed, AlreadyUsed, SpentLocally, ExpiredLocally, Expired, NotFound\<close>
     (resettable,
      [SCAN, QR_DECODED, RESOLVED, ORDER_OK, SUBMIT] @ OVERRIDE_EVENTS @ [DISMISS, RETRY]
       @ SRV_VERDICTS @ CONN_EVENTS)"

definition scan_on :: "scan_state \<Rightarrow> etype + scan_state on_map" where
  "scan_on s = (case scan_decl s of (on, ignores) \<Rightarrow> scanState s on ignores)"

section \<open>Running the chart\<close>

datatype mode = ModelMode | ThrowMode

text \<open>The snapshot: the active state of each region, the context, the effects pushed so far, the
  reported trips, and whether an action has thrown (the actor then stays in its last snapshot).\<close>

record snap =
  v_conn :: conn_state
  v_ov :: ov_state
  v_scan :: scan_state
  s_ctx :: ctx
  s_effects :: "effect list"
  s_trips :: "trip_info list"
  s_dead :: bool

definition init_snap :: "bool \<Rightarrow> snap" where
  "init_snap co = \<lparr>v_conn = Online, v_ov = NoOverlay, v_scan = Idle, s_ctx = init_ctx co,
     s_effects = [], s_trips = [], s_dead = False\<rparr>"

definition tripInfo :: "ctx \<Rightarrow> event \<Rightarrow> trip_info" where
  "tripInfo c e = \<lparr>ti_event = ev_type e, ti_scan = c_sc c, ti_conn = c_conn c, ti_overlay = c_ov c\<rparr>"

text \<open>The wildcard tripwire each region carries.\<close>

fun wildcard :: "mode \<Rightarrow> 'st trans" where
  "wildcard ThrowMode = noop\<lparr>t_actions := [OnTrip, Throw]\<rparr>"
| "wildcard ModelMode = noop\<lparr>t_actions :=
     [OnTrip,
      Assign (\<lambda>c e. c\<lparr>unexpectedInfo := Some (tripInfo c e), unexpectedReturn := Some (c_sc c)\<rparr>),
      Raise UNEXPECTED]\<rparr>"

definition enabled :: "ctx \<Rightarrow> event \<Rightarrow> 'st trans \<Rightarrow> bool" where
  "enabled c e t = (case t_guard t of None \<Rightarrow> True | Some g \<Rightarrow> g c e)"

text \<open>Selection in one region: the active state's first enabled candidate for the event; with no
  candidate the region's wildcard.\<close>

definition select_trans :: "mode \<Rightarrow> (etype + 'st on_map) \<Rightarrow> ctx \<Rightarrow> event \<Rightarrow> 'st trans" where
  "select_trans m on c e =
     (case on of
        Inl _ \<Rightarrow> wildcard m
      | Inr on' \<Rightarrow>
          (case map_of on' (ev_type e) of
             None \<Rightarrow> wildcard m
           | Some ts \<Rightarrow> (case find (enabled c e) ts of None \<Rightarrow> wildcard m | Some t \<Rightarrow> t)))"

record run =
  r_ctx :: ctx
  r_effects :: "effect list"
  r_trips :: "trip_info list"
  r_raised :: "etype list"
  r_dead :: bool

fun run_action :: "event \<Rightarrow> action \<Rightarrow> run \<Rightarrow> run" where
  "run_action e a r =
     (if r_dead r then r else
      case a of
        Assign f \<Rightarrow> r\<lparr>r_ctx := f (r_ctx r) e\<rparr>
      | Emit f \<Rightarrow> r\<lparr>r_effects := r_effects r @ [f (r_ctx r)]\<rparr>
      | OnTrip \<Rightarrow> r\<lparr>r_trips := r_trips r @ [tripInfo (r_ctx r) e]\<rparr>
      | Raise t \<Rightarrow> r\<lparr>r_raised := r_raised r @ [t]\<rparr>
      | Throw \<Rightarrow> r\<lparr>r_dead := True\<rparr>)"

definition entered :: "'st trans \<Rightarrow> 'st \<Rightarrow> 'st" where
  "entered t old = (case t_target t of None \<Rightarrow> old | Some s \<Rightarrow> s)"

text \<open>One microstep: all regions select against the same context, then the transition actions run
  in region order, then the entry actions stamp the mirrors of the regions that moved.\<close>

definition microstep :: "mode \<Rightarrow> event \<Rightarrow> snap \<Rightarrow> snap \<times> etype list" where
  "microstep m e s =
     (let c = s_ctx s;
          tc = select_trans m (conn_on (v_conn s)) c e;
          tov = select_trans m (ov_on (v_ov s)) c e;
          ts = select_trans m (scan_on (v_scan s)) c e;
          r = fold (run_action e) (t_actions tc @ t_actions tov @ t_actions ts)
                \<lparr>r_ctx = c, r_effects = s_effects s, r_trips = s_trips s, r_raised = [], r_dead = False\<rparr>
      in if r_dead r then (s\<lparr>s_effects := r_effects r, s_trips := r_trips r, s_dead := True\<rparr>, [])
         else (\<lparr>v_conn = entered tc (v_conn s), v_ov = entered tov (v_ov s), v_scan = entered ts (v_scan s),
                s_ctx = (r_ctx r)\<lparr>c_conn := entered tc (c_conn (r_ctx r)),
                                 c_ov := entered tov (c_ov (r_ctx r)),
                                 c_sc := entered ts (c_sc (r_ctx r))\<rparr>,
                s_effects = r_effects r, s_trips = r_trips r, s_dead = False\<rparr>,
               r_raised r))"

definition internal :: "etype \<Rightarrow> event" where
  "internal t = \<lparr>ev_type = t, ev_code = [], ev_kind = [], ev_requiresOnline = False\<rparr>"

text \<open>The macrostep drains the internal queue. Each wildcard raises at most one event and a raised
  event raises none, so four rounds always suffice (\<open>send_total\<close>).\<close>

fun macrostep :: "nat \<Rightarrow> mode \<Rightarrow> event list \<Rightarrow> snap \<Rightarrow> snap option" where
  "macrostep _ m [] s = Some s"
| "macrostep 0 m (e # q) s = None"
| "macrostep (Suc n) m (e # q) s =
     (let (s', raised) = microstep m e s
      in if s_dead s' then Some s' else macrostep n m (q @ map internal raised) s')"

text \<open>\<open>send\<close>: a dead actor ignores events.\<close>

definition send :: "mode \<Rightarrow> event \<Rightarrow> snap \<Rightarrow> snap option" where
  "send m e s = (if s_dead s then Some s else macrostep 4 m [e] s)"

fun send_all :: "mode \<Rightarrow> event list \<Rightarrow> snap \<Rightarrow> snap option" where
  "send_all m [] s = Some s"
| "send_all m (e # es) s = (case send m e s of None \<Rightarrow> None | Some s' \<Rightarrow> send_all m es s')"

text \<open>What the page reads: \<open>conn()\<close>, \<open>scan()\<close> (the prompt hides the scan region), \<open>flags()\<close>, \<open>alive()\<close>.\<close>

datatype shown = ShowsPrompt | Shows scan_state

definition scan_shown :: "snap \<Rightarrow> shown" where
  "scan_shown s = (if v_ov s = Prompt then ShowsPrompt else Shows (v_scan s))"

definition flags :: "snap \<Rightarrow> bool \<times> bool" where
  "flags s = (overrideAvailable (s_ctx s), unverifiedWarning (s_ctx s))"

definition alive :: "snap \<Rightarrow> bool" where
  "alive s \<longleftrightarrow> \<not> s_dead s"

end
