(* ===== verification/SubmitMachineFacts.thy ===== *)
theory SubmitMachineFacts
  imports SubmitMachine
begin

text \<open>
  What the compiled declarations of \<open>SubmitMachine\<close> amount to: a flat table of the transition each
  region selects, proved equal to selection in the compiled \<open>on\<close> maps; the totality of the declared
  pairs over the alphabet; one \<open>send\<close> as a single flat step.
\<close>

lemmas alphabet_defs =
  SCAN_EVENTS_def CONN_EVENTS_def EVENT_ALPHABET_def SRV_VERDICTS_def OVERRIDE_EVENTS_def

lemmas compile_defs =
  buildOn_def plainState_def scanState_def wrap_entry_def add_tail_def gate_trans_def GATE_BYPASS_def
  noop_def goto_def resettable_def resolvedKind_def on_kind_def submitOrGate_def resume_to_def
  SCAN_STATE_NAMES_def INTERRUPTIBLE_def

declare alphabet_defs [machine_simps] compile_defs [machine_simps]

section \<open>The flat table\<close>

definition conn_next :: "conn_state \<Rightarrow> etype \<Rightarrow> conn_state option" where
  "conn_next s t =
     (case s of
        Online \<Rightarrow> if t = CONN_DOWN \<or> t = PROBE_TIMEOUT then Some Offline else None
      | Offline \<Rightarrow> if t = CONN_UP then Some Stale else None
      | Stale \<Rightarrow> if t = RESUBSCRIBED then Some Online
                 else if t = CONN_DOWN \<or> t = PROBE_TIMEOUT then Some Offline else None)"

definition ov_next :: "ov_state \<Rightarrow> ctx \<Rightarrow> event \<Rightarrow> ov_state option" where
  "ov_next s c e =
     (case s of
        NoOverlay \<Rightarrow>
          if ev_type e = QR_DECODED \<and> sessionCode c \<noteq> None \<and> Some (ev_code e) \<noteq> sessionCode c
             \<and> c_sc c \<in> set INTERRUPTIBLE then Some Prompt else None
      | Prompt \<Rightarrow>
          if ev_type e \<in> {DISMISS, NEXT_CUSTOMER, UNEXPECTED} then Some NoOverlay else None)"

definition flat :: "scan_state \<Rightarrow> action list \<Rightarrow> (scan_state option \<times> action list)" where
  "flat s as = (Some s, as)"

definition stay :: "scan_state option \<times> action list" where
  "stay = (None, [])"

definition reset_to_idle :: "scan_state option \<times> action list" where
  "reset_to_idle = flat Idle [Assign (\<lambda>c e. RESET_CTX c)]"

definition park_resets :: "scan_state \<Rightarrow> bool" where
  "park_resets s = (s \<notin> {Idle, Scanning, OverrideConfirm, Submitting})"

definition scan_next :: "scan_state \<Rightarrow> ctx \<Rightarrow> event \<Rightarrow> scan_state option \<times> action list" where
  "scan_next s c e =
     (let t = ev_type e; open = (c_ov c = NoOverlay) in
      if t = UNEXPECTED then (if s = UnexpectedEvent then stay else flat UnexpectedEvent [])
      else if t = NEXT_CUSTOMER then (if park_resets s then reset_to_idle else stay)
      else if t = RESUBSCRIBED then
        (if s = BlockedOffline \<and> c_conn c = Stale \<and> gateReturn c = Some ReadyToSubmit then flat ReadyToSubmit []
         else if s = BlockedOffline \<and> c_conn c = Stale \<and> gateReturn c = Some UnknownCode then flat UnknownCode []
         else stay)
      else if \<not> open then stay
      else case s of
        Idle \<Rightarrow> if t = SCAN then flat Scanning [] else stay
      | Scanning \<Rightarrow> if t = QR_DECODED then flat Resolving [Assign (\<lambda>c e. c\<lparr>sessionCode := Some (ev_code e)\<rparr>)] else stay
      | Resolving \<Rightarrow>
          if t \<noteq> RESOLVED then stay
          else if ev_kind e = ''offerReady'' then flat OfferReady [resolvedKind]
          else if ev_kind e = ''unknownCode'' then flat UnknownCode [resolvedKind]
          else if ev_kind e = ''spentLocally'' then
            (if c_conn c = Online then flat OfferReady [resolvedKind] else flat SpentLocally [resolvedKind])
          else if ev_kind e = ''expiredLocally'' then flat ExpiredLocally [resolvedKind]
          else stay
      | OfferReady \<Rightarrow> if t = ORDER_OK then flat ReadyToSubmit [] else stay
      | BlockedOffline \<Rightarrow>
          if t = OVERRIDE_REQUEST \<and> overrideAvailable c then
            flat OverrideConfirm [Assign (\<lambda>c e. c\<lparr>unverifiedWarning := resolutionKind c = Some ''unknownCode''\<rparr>)]
          else stay
      | OverrideConfirm \<Rightarrow>
          if t = OVERRIDE_CONFIRM then
            flat OverridePending [Emit (\<lambda>c. WriteAttempt True (resolutionKind c = Some ''unknownCode''))]
          else if t = OVERRIDE_CANCEL then flat BlockedOffline [] else stay
      | Submitting \<Rightarrow>
          if t = SRV_REDEEMED then flat Redeemed []
          else if t = SRV_ALREADY_USED then flat AlreadyUsed []
          else if t = SRV_EXPIRED then flat Expired []
          else if t = SRV_NOT_FOUND then flat NotFound []
          else if t = SRV_ERROR then flat ErrorState [] else stay
      | ErrorState \<Rightarrow> if t = RETRY then flat ReadyToSubmit [] else stay
      | UnexpectedEvent \<Rightarrow>
          if t \<noteq> RETRY then stay
          else (case unexpectedReturn c of
                  None \<Rightarrow> reset_to_idle
                | Some n \<Rightarrow> if n = UnexpectedEvent then reset_to_idle else flat n [])
      | s' \<Rightarrow>
          if (s' = ReadyToSubmit \<or> s' = UnknownCode) \<and> t = SUBMIT then
            (if c_conn c = Online then flat Submitting [Emit (\<lambda>c. SubmitToServer)]
             else flat BlockedOffline
               [Assign (\<lambda>c e. c\<lparr>overrideAvailable := canOverride c \<and> \<not> requiresOnline c,
                                gateReturn := Some s'\<rparr>)])
          else stay)"

definition declared :: "etype \<Rightarrow> bool" where
  "declared t = (case t of OTHER _ \<Rightarrow> False | _ \<Rightarrow> True)"

lemmas flat_defs = flat_def stay_def reset_to_idle_def park_resets_def

lemma conn_select:
  assumes "declared (ev_type e)"
  shows "t_target (select_trans m (conn_on s) c e) = conn_next s (ev_type e)
       \<and> t_actions (select_trans m (conn_on s) c e) = []"
  using assms
  by (cases s; cases "ev_type e")
     (simp_all add: machine_simps conn_on_def select_trans_def enabled_def conn_next_def declared_def)

lemma ov_select:
  assumes "declared (ev_type e)"
  shows "t_target (select_trans m (ov_on s) c e) = ov_next s c e
       \<and> t_actions (select_trans m (ov_on s) c e) = []"
  using assms
  by (cases s; cases "ev_type e")
     (auto simp add: machine_simps ov_on_def select_trans_def enabled_def ov_next_def declared_def)

section \<open>Compiled declarations\<close>

lemma add_ignores_Inr:
  assumes "distinct ign" and "set ign \<inter> fst ` set out = {}"
  shows "add_ignores out ign = Inr (out @ map (\<lambda>e. (e, [noop])) ign)"
  using assms
proof (induction ign arbitrary: out)
  case (Cons e es)
  then have "map_of out e = None" by (auto simp: map_of_eq_None_iff)
  moreover from Cons have "add_ignores (out @ [(e, [noop])]) es = Inr ((out @ [(e, [noop])]) @ map (\<lambda>e. (e, [noop])) es)"
    by (intro Cons.IH) auto
  ultimately show ?case by simp
qed simp

definition decl_ok :: "'st on_map \<Rightarrow> etype list \<Rightarrow> bool" where
  "decl_ok on ign = (distinct ign \<and> list_all (\<lambda>p. fst p \<notin> set ign) on)"

lemma decl_ok_build: "decl_ok on ign \<Longrightarrow> buildOn on ign = Inr (on @ map (\<lambda>e. (e, [noop])) ign)"
  unfolding buildOn_def decl_ok_def by (rule add_ignores_Inr) (auto simp: list_all_iff)

lemma scan_decl_ok: "decl_ok (fst (scan_decl s)) (snd (scan_decl s)) \<and> UNEXPECTED \<notin> fst ` set (fst (scan_decl s))
   \<and> (s \<noteq> UnexpectedEvent \<longrightarrow> UNEXPECTED \<notin> set (snd (scan_decl s)))"
  by (cases s) (simp_all add: decl_ok_def alphabet_defs resettable_def submitOrGate_def)

lemma map_of_noops: "map_of (map (\<lambda>e. (e, [noop])) ign) t = (if t \<in> set ign then Some [noop] else None)"
  by (induction ign) auto

lemma wrap_noop: "wrap_entry t [noop] = [noop]"
  by (simp add: wrap_entry_def add_tail_def gate_trans_def noop_def)
lemma wrap_unexpected: "wrap_entry UNEXPECTED [goto s] = [goto s]"
  by (simp add: wrap_entry_def add_tail_def goto_def GATE_BYPASS_def)

definition scan_lookup :: "scan_state \<Rightarrow> etype \<Rightarrow> scan_state trans list option" where
  "scan_lookup s t = (if t = UNEXPECTED then Some [if s = UnexpectedEvent then noop else goto UnexpectedEvent]
     else if t \<in> set (snd (scan_decl s)) then Some [noop]
     else map_option (wrap_entry t) (map_of (fst (scan_decl s)) t))"

lemma scan_on_lookup: "\<exists>m. scan_on s = Inr m \<and> map_of m t = scan_lookup s t"
proof -
  obtain on ign where d: "scan_decl s = (on, ign)" by fastforce
  let ?b = "on @ map (\<lambda>e. (e, [noop])) ign"
  let ?m = "if s \<noteq> UnexpectedEvent then ?b @ [(UNEXPECTED, [goto UnexpectedEvent])] else ?b"
  have ok: "decl_ok on ign" "UNEXPECTED \<notin> fst ` set on" "s \<noteq> UnexpectedEvent \<Longrightarrow> UNEXPECTED \<notin> set ign"
    using scan_decl_ok [of s] d by auto
  have u: "map_of on UNEXPECTED = None" using ok(2) by (simp add: map_of_eq_None_iff)
  have disj: "t \<in> set ign \<Longrightarrow> map_of on t = None"
    using ok(1) by (auto simp: decl_ok_def list_all_iff map_of_eq_None_iff)
  have ue: "s = UnexpectedEvent \<Longrightarrow> UNEXPECTED \<in> set ign" using d by (auto simp: alphabet_defs)
  have "scan_on s = Inr (map (\<lambda>(ev, ts). (ev, wrap_entry ev ts)) ?m)"
    by (simp add: scan_on_def d scanState_def decl_ok_build [OF ok(1)])
  moreover have "map_of (map (\<lambda>(ev, ts). (ev, wrap_entry ev ts)) ?m) t = scan_lookup s t"
    unfolding map_of_map_snd_key
    using u ok(3) disj ue
    by (auto simp: scan_lookup_def d map_add_def map_of_noops wrap_noop wrap_unexpected split: option.splits)
  ultimately show ?thesis by blast
qed

lemma scan_select_lookup:
  "select_trans m (scan_on s) c e =
     (case scan_lookup s (ev_type e) of None \<Rightarrow> wildcard m
      | Some ts \<Rightarrow> (case find (enabled c e) ts of None \<Rightarrow> wildcard m | Some t \<Rightarrow> t))"
  using scan_on_lookup [of s "ev_type e"] by (auto simp: select_trans_def)


lemma scan_select:
  assumes "declared (ev_type e)"
  shows "(t_target (select_trans m (scan_on s) c e), t_actions (select_trans m (scan_on s) c e)) = scan_next s c e"
  using assms unfolding scan_select_lookup
  apply (cases s; cases "ev_type e")
  apply (simp_all add: machine_simps scan_lookup_def enabled_def scan_next_def flat_defs declared_def Let_def split: option.split)
  apply (intro allI impI, rename_tac x, case_tac x, simp_all)
  done

section \<open>One event as a flat step\<close>

definition start_run :: "snap \<Rightarrow> run" where
  "start_run s = \<lparr>r_ctx = s_ctx s, r_effects = s_effects s, r_trips = s_trips s, r_raised = [], r_dead = False\<rparr>"

definition or_else :: "'a option \<Rightarrow> 'a \<Rightarrow> 'a" where
  "or_else x d = (case x of None \<Rightarrow> d | Some y \<Rightarrow> y)"

lemma or_else_simps [simp]: "or_else None d = d" "or_else (Some y) d = y"
  by (simp_all add: or_else_def)

definition flat_step :: "event \<Rightarrow> snap \<Rightarrow> snap" where
  "flat_step e s =
     (let c = s_ctx s;
          tc = conn_next (v_conn s) (ev_type e);
          tov = ov_next (v_ov s) c e;
          ts = fst (scan_next (v_scan s) c e);
          r = fold (run_action e) (snd (scan_next (v_scan s) c e)) (start_run s)
      in \<lparr>v_conn = or_else tc (v_conn s), v_ov = or_else tov (v_ov s), v_scan = or_else ts (v_scan s),
          s_ctx = (r_ctx r)\<lparr>c_conn := or_else tc (c_conn (r_ctx r)),
                           c_ov := or_else tov (c_ov (r_ctx r)),
                           c_sc := or_else ts (c_sc (r_ctx r))\<rparr>,
          s_effects = r_effects r, s_trips = s_trips s, s_dead = False\<rparr>)"

definition quiet :: "action \<Rightarrow> bool" where
  "quiet a = (case a of Assign _ \<Rightarrow> True | Emit _ \<Rightarrow> True | _ \<Rightarrow> False)"

lemma quiet_run:
  assumes "list_all quiet as" and "\<not> r_dead r"
  shows "\<not> r_dead (fold (run_action e) as r) \<and> r_raised (fold (run_action e) as r) = r_raised r
       \<and> r_trips (fold (run_action e) as r) = r_trips r"
  using assms
proof (induction as arbitrary: r)
  case (Cons a as)
  then show ?case by (cases a) (simp_all add: quiet_def)
qed simp

lemma scan_next_quiet: "list_all quiet (snd (scan_next s c e))"
  by (cases s) (auto simp: scan_next_def flat_defs quiet_def resolvedKind_def Let_def split: option.splits)

lemma entered_or_else: "entered t old = or_else (t_target t) old"
  by (simp add: entered_def or_else_def)

lemma microstep_flat:
  assumes "declared (ev_type e)"
  shows "microstep m e s = (flat_step e s, [])"
proof -
  let ?ts = "select_trans m (scan_on (v_scan s)) (s_ctx s) e"
  have c: "t_target (select_trans m (conn_on (v_conn s)) (s_ctx s) e) = conn_next (v_conn s) (ev_type e)"
    "t_actions (select_trans m (conn_on (v_conn s)) (s_ctx s) e) = []"
    using conn_select [OF assms] by auto
  have o: "t_target (select_trans m (ov_on (v_ov s)) (s_ctx s) e) = ov_next (v_ov s) (s_ctx s) e"
    "t_actions (select_trans m (ov_on (v_ov s)) (s_ctx s) e) = []"
    using ov_select [OF assms] by auto
  have t: "t_target ?ts = fst (scan_next (v_scan s) (s_ctx s) e)"
    "t_actions ?ts = snd (scan_next (v_scan s) (s_ctx s) e)"
    using scan_select [OF assms, of m "v_scan s" "s_ctx s"] by (simp_all add: prod_eq_iff)
  let ?r = "fold (run_action e) (snd (scan_next (v_scan s) (s_ctx s) e)) (start_run s)"
  have q: "\<not> r_dead ?r" "r_raised ?r = []" "r_trips ?r = s_trips s"
    using quiet_run [OF scan_next_quiet, of "start_run s" e "v_scan s" "s_ctx s"]
    by (auto simp: start_run_def)
  show ?thesis
    using q by (simp add: microstep_def c o t entered_or_else flat_step_def start_run_def Let_def)
qed

theorem send_flat:
  assumes "declared (ev_type e)" and "alive s"
  shows "send m e s = Some (flat_step e s)"
  using assms by (simp add: send_def alive_def numeral_eq_Suc microstep_flat flat_step_def Let_def)

lemma alphabet_declared: "t \<in> set EVENT_ALPHABET \<Longrightarrow> declared t"
  by (auto simp: alphabet_defs declared_def)

lemma flat_step_alive [simp]: "alive (flat_step e s)"
  by (simp add: flat_step_def alive_def Let_def)

end
