(* ===== verification/ScannerInvariants.thy ===== *)
theory ScannerInvariants
  imports SubmitMachineFacts
begin

section \<open>Undeclared events\<close>

text \<open>What model mode makes of an event outside the alphabet: the three regions' wildcards report the
  trip, capture it, and raise UNEXPECTED, which closes the prompt and shows the error card.\<close>

definition unexpected_step :: "event \<Rightarrow> snap \<Rightarrow> snap" where
  "unexpected_step e s =
     (let c = s_ctx s; i = tripInfo c e in
      s\<lparr>v_ov := NoOverlay, v_scan := UnexpectedEvent,
        s_ctx := c\<lparr>unexpectedInfo := Some i, unexpectedReturn := Some (c_sc c),
                    c_ov := NoOverlay, c_sc := UnexpectedEvent\<rparr>,
        s_trips := s_trips s @ [i, i, i]\<rparr>)"

lemma undeclared_select:
  assumes "\<not> declared (ev_type e)"
  shows "select_trans m (conn_on s1) c e = wildcard m"
    and "select_trans m (ov_on s2) c e = wildcard m"
    and "select_trans m (scan_on s3) c e = wildcard m"
proof -
  obtain n where n: "ev_type e = OTHER n" using assms by (auto simp: declared_def split: etype.splits)
  show "select_trans m (conn_on s1) c e = wildcard m"
    by (cases s1) (simp_all add: machine_simps conn_on_def select_trans_def n)
  show "select_trans m (ov_on s2) c e = wildcard m"
    by (cases s2) (simp_all add: machine_simps ov_on_def select_trans_def n)
  have "scan_lookup s3 (OTHER n) = None"
    by (cases s3) (simp_all add: machine_simps scan_lookup_def)
  then show "select_trans m (scan_on s3) c e = wildcard m"
    by (simp add: scan_select_lookup n)
qed

definition mirrors :: "snap \<Rightarrow> bool" where
  "mirrors s = (c_conn (s_ctx s) = v_conn s \<and> c_ov (s_ctx s) = v_ov s \<and> c_sc (s_ctx s) = v_scan s)"

lemma flat_step_unexpected:
  assumes "mirrors s"
  shows "flat_step (internal UNEXPECTED) s =
    s\<lparr>v_ov := NoOverlay, v_scan := UnexpectedEvent,
      s_ctx := (s_ctx s)\<lparr>c_ov := NoOverlay, c_sc := UnexpectedEvent\<rparr>, s_dead := False\<rparr>"
  using assms
  by (cases "v_ov s"; cases "v_scan s"; cases "v_conn s")
     (simp_all add: flat_step_def internal_def conn_next_def ov_next_def scan_next_def flat_defs
        start_run_def mirrors_def)

lemma send_undeclared_model:
  assumes "\<not> declared (ev_type e)" and "alive s" and "mirrors s"
  shows "send ModelMode e s = Some (unexpected_step e s)"
proof -
  let ?c = "s_ctx s" and ?i = "tripInfo (s_ctx s) e"
  let ?s1 = "s\<lparr>s_ctx := ?c\<lparr>unexpectedInfo := Some ?i, unexpectedReturn := Some (c_sc ?c)\<rparr>,
      s_trips := s_trips s @ [?i, ?i, ?i]\<rparr>"
  have m1: "microstep ModelMode e s = (?s1, [UNEXPECTED, UNEXPECTED, UNEXPECTED])"
    using assms(2,3)
    by (simp add: microstep_def undeclared_select [OF assms(1)] noop_def entered_def tripInfo_def
        mirrors_def alive_def)
  have d: "declared (ev_type (internal UNEXPECTED))" by (simp add: declared_def internal_def)
  have s1: "mirrors ?s1" "alive ?s1" using assms by (simp_all add: mirrors_def alive_def)
  show ?thesis
    using assms(2) s1
    apply (simp add: send_def alive_def numeral_eq_Suc m1 microstep_flat [OF d])
    apply (simp add: flat_step_unexpected mirrors_def unexpected_step_def Let_def alive_def)
    done
qed

lemma send_undeclared_throw:
  assumes "\<not> declared (ev_type e)" and "alive s"
  shows "send ThrowMode e s = Some (s\<lparr>s_trips := s_trips s @ [tripInfo (s_ctx s) e], s_dead := True\<rparr>)"
  using assms
  by (simp add: send_def alive_def numeral_eq_Suc microstep_def undeclared_select [OF assms(1)] noop_def)

section \<open>The scan region's moves\<close>

fun verdict_state :: "etype \<Rightarrow> scan_state option" where
  "verdict_state SRV_REDEEMED = Some Redeemed"
| "verdict_state SRV_ALREADY_USED = Some AlreadyUsed"
| "verdict_state SRV_EXPIRED = Some Expired"
| "verdict_state SRV_NOT_FOUND = Some NotFound"
| "verdict_state SRV_ERROR = Some ErrorState"
| "verdict_state _ = None"

definition with_kind :: "ctx \<Rightarrow> event \<Rightarrow> ctx" where
  "with_kind c e = c\<lparr>resolutionKind := Some (ev_kind e), requiresOnline := ev_requiresOnline e\<rparr>"

text \<open>The moves of the scan region as a relation: one rule per transition of the chart, its guard (the
  overlay gate included) as premises, the context after its actions and the effects it pushes.\<close>

inductive scan_move :: "event \<Rightarrow> ctx \<Rightarrow> scan_state \<Rightarrow> scan_state \<Rightarrow> ctx \<Rightarrow> effect list \<Rightarrow> bool"
  for e :: event and c :: ctx where
  scan: "ev_type e = SCAN \<Longrightarrow> c_ov c = NoOverlay \<Longrightarrow> scan_move e c Idle Scanning c []"
| decode: "ev_type e = QR_DECODED \<Longrightarrow> c_ov c = NoOverlay \<Longrightarrow>
    scan_move e c Scanning Resolving (c\<lparr>sessionCode := Some (ev_code e)\<rparr>) []"
| resolved_offer: "ev_type e = RESOLVED \<Longrightarrow> c_ov c = NoOverlay \<Longrightarrow> ev_kind e = ''offerReady'' \<Longrightarrow>
    scan_move e c Resolving OfferReady (with_kind c e) []"
| resolved_unknown: "ev_type e = RESOLVED \<Longrightarrow> c_ov c = NoOverlay \<Longrightarrow> ev_kind e = ''unknownCode'' \<Longrightarrow>
    scan_move e c Resolving UnknownCode (with_kind c e) []"
| resolved_spent_online: "ev_type e = RESOLVED \<Longrightarrow> c_ov c = NoOverlay \<Longrightarrow> ev_kind e = ''spentLocally'' \<Longrightarrow>
    c_conn c = Online \<Longrightarrow> scan_move e c Resolving OfferReady (with_kind c e) []"
| resolved_spent: "ev_type e = RESOLVED \<Longrightarrow> c_ov c = NoOverlay \<Longrightarrow> ev_kind e = ''spentLocally'' \<Longrightarrow>
    c_conn c \<noteq> Online \<Longrightarrow> scan_move e c Resolving SpentLocally (with_kind c e) []"
| resolved_expired: "ev_type e = RESOLVED \<Longrightarrow> c_ov c = NoOverlay \<Longrightarrow> ev_kind e = ''expiredLocally'' \<Longrightarrow>
    scan_move e c Resolving ExpiredLocally (with_kind c e) []"
| order_ok: "ev_type e = ORDER_OK \<Longrightarrow> c_ov c = NoOverlay \<Longrightarrow> scan_move e c OfferReady ReadyToSubmit c []"
| submit: "ev_type e = SUBMIT \<Longrightarrow> c_ov c = NoOverlay \<Longrightarrow> s = ReadyToSubmit \<or> s = UnknownCode \<Longrightarrow>
    c_conn c = Online \<Longrightarrow> scan_move e c s Submitting c [SubmitToServer]"
| gated: "ev_type e = SUBMIT \<Longrightarrow> c_ov c = NoOverlay \<Longrightarrow> s = ReadyToSubmit \<or> s = UnknownCode \<Longrightarrow>
    c_conn c \<noteq> Online \<Longrightarrow>
    scan_move e c s BlockedOffline
      (c\<lparr>overrideAvailable := canOverride c \<and> \<not> requiresOnline c, gateReturn := Some s\<rparr>) []"
| override_request: "ev_type e = OVERRIDE_REQUEST \<Longrightarrow> c_ov c = NoOverlay \<Longrightarrow> overrideAvailable c \<Longrightarrow>
    scan_move e c BlockedOffline OverrideConfirm
      (c\<lparr>unverifiedWarning := resolutionKind c = Some ''unknownCode''\<rparr>) []"
| override_confirm: "ev_type e = OVERRIDE_CONFIRM \<Longrightarrow> c_ov c = NoOverlay \<Longrightarrow>
    scan_move e c OverrideConfirm OverridePending c [WriteAttempt True (resolutionKind c = Some ''unknownCode'')]"
| override_cancel: "ev_type e = OVERRIDE_CANCEL \<Longrightarrow> c_ov c = NoOverlay \<Longrightarrow>
    scan_move e c OverrideConfirm BlockedOffline c []"
| resume: "ev_type e = RESUBSCRIBED \<Longrightarrow> c_conn c = Stale \<Longrightarrow> gateReturn c = Some g \<Longrightarrow>
    g = ReadyToSubmit \<or> g = UnknownCode \<Longrightarrow> scan_move e c BlockedOffline g c []"
| verdict: "verdict_state (ev_type e) = Some v \<Longrightarrow> c_ov c = NoOverlay \<Longrightarrow> scan_move e c Submitting v c []"
| retry_error: "ev_type e = RETRY \<Longrightarrow> c_ov c = NoOverlay \<Longrightarrow> scan_move e c ErrorState ReadyToSubmit c []"
| retry_unexpected: "ev_type e = RETRY \<Longrightarrow> c_ov c = NoOverlay \<Longrightarrow> unexpectedReturn c = Some n \<Longrightarrow>
    n \<noteq> UnexpectedEvent \<Longrightarrow> scan_move e c UnexpectedEvent n c []"
| retry_reset: "ev_type e = RETRY \<Longrightarrow> c_ov c = NoOverlay \<Longrightarrow>
    unexpectedReturn c = None \<or> unexpectedReturn c = Some UnexpectedEvent \<Longrightarrow>
    scan_move e c UnexpectedEvent Idle (RESET_CTX c) []"
| next_customer: "ev_type e = NEXT_CUSTOMER \<Longrightarrow> park_resets s \<Longrightarrow> scan_move e c s Idle (RESET_CTX c) []"
| unexpected: "ev_type e = UNEXPECTED \<Longrightarrow> s \<noteq> UnexpectedEvent \<Longrightarrow> scan_move e c s UnexpectedEvent c []"

text \<open>Running the quiet actions of one transition.\<close>

definition act_ctx :: "event \<Rightarrow> action list \<Rightarrow> ctx \<Rightarrow> ctx" where
  "act_ctx e as c = fold (\<lambda>a c. case a of Assign f \<Rightarrow> f c e | _ \<Rightarrow> c) as c"

definition act_fx :: "action list \<Rightarrow> ctx \<Rightarrow> effect list" where
  "act_fx as c = concat (map (\<lambda>a. case a of Emit f \<Rightarrow> [f c] | _ \<Rightarrow> []) as)"

lemma scan_next_run:
  "r_ctx (fold (run_action e) (snd (scan_next s c e)) (start_run sn)) = act_ctx e (snd (scan_next s c e)) (s_ctx sn)
 \<and> r_effects (fold (run_action e) (snd (scan_next s c e)) (start_run sn))
     = s_effects sn @ act_fx (snd (scan_next s c e)) (s_ctx sn)"
  by (cases s) (auto simp: scan_next_def flat_defs start_run_def act_ctx_def act_fx_def resolvedKind_def Let_def
      split: option.split)

lemma scan_next_moves:
  "case fst (scan_next s c e) of
     None \<Rightarrow> snd (scan_next s c e) = []
   | Some s' \<Rightarrow> scan_move e c s s' (act_ctx e (snd (scan_next s c e)) c) (act_fx (snd (scan_next s c e)) c)"
  by (cases s)
     (auto simp: scan_next_def flat_defs act_ctx_def act_fx_def resolvedKind_def Let_def with_kind_def [symmetric]
      intro: scan_move.intros split: option.split)

lemma scan_move_next:
  assumes "scan_move e c s s' c' fx"
  shows "fst (scan_next s c e) = Some s' \<and> act_ctx e (snd (scan_next s c e)) c = c' \<and> act_fx (snd (scan_next s c e)) c = fx"
  using assms
proof cases
  case verdict
  then show ?thesis
    by (cases "ev_type e") (simp_all add: scan_next_def flat_defs act_ctx_def act_fx_def)
next
  case next_customer
  then show ?thesis by (simp add: scan_next_def flat_defs act_ctx_def act_fx_def)
qed (auto simp: scan_next_def flat_defs act_ctx_def act_fx_def resolvedKind_def with_kind_def)

lemma flat_step_cases:
  obtains (stay) "\<nexists>s' c' fx. scan_move e (s_ctx s) (v_scan s) s' c' fx"
      "flat_step e s =
         s\<lparr>v_conn := or_else (conn_next (v_conn s) (ev_type e)) (v_conn s),
           v_ov := or_else (ov_next (v_ov s) (s_ctx s) e) (v_ov s),
           s_ctx := (s_ctx s)\<lparr>c_conn := or_else (conn_next (v_conn s) (ev_type e)) (c_conn (s_ctx s)),
                              c_ov := or_else (ov_next (v_ov s) (s_ctx s) e) (c_ov (s_ctx s))\<rparr>,
           s_dead := False\<rparr>"
  | (move) s' c' fx where "scan_move e (s_ctx s) (v_scan s) s' c' fx"
      "flat_step e s =
         s\<lparr>v_conn := or_else (conn_next (v_conn s) (ev_type e)) (v_conn s),
           v_ov := or_else (ov_next (v_ov s) (s_ctx s) e) (v_ov s),
           v_scan := s',
           s_ctx := c'\<lparr>c_conn := or_else (conn_next (v_conn s) (ev_type e)) (c_conn c'),
                        c_ov := or_else (ov_next (v_ov s) (s_ctx s) e) (c_ov c'), c_sc := s'\<rparr>,
           s_effects := s_effects s @ fx, s_dead := False\<rparr>"
proof (cases "fst (scan_next (v_scan s) (s_ctx s) e)")
  case None
  with scan_next_moves [of "v_scan s" "s_ctx s" e] have "snd (scan_next (v_scan s) (s_ctx s) e) = []" by simp
  with None show ?thesis
    by (intro stay) (auto simp: flat_step_def start_run_def Let_def dest: scan_move_next)
next
  case (Some s')
  with scan_next_moves [of "v_scan s" "s_ctx s" e] show ?thesis
    by (intro move) (auto simp: flat_step_def scan_next_run Let_def)
qed

text \<open>What every move keeps of the context.\<close>

lemma move_frame:
  assumes "scan_move e c s s' c' fx"
  shows "c_conn c' = c_conn c \<and> c_ov c' = c_ov c \<and> canOverride c' = canOverride c"
  using assms by cases (simp_all add: with_kind_def RESET_CTX_def)

lemma step_mirrors: "mirrors s \<Longrightarrow> mirrors (flat_step e s)"
  by (rule flat_step_cases [of e s]) (auto simp: mirrors_def dest: move_frame)

text \<open>The state the customer is really in: the error card stands for the state it interrupted.\<close>

definition eff :: "scan_state \<Rightarrow> ctx \<Rightarrow> scan_state" where
  "eff s c = (if s = UnexpectedEvent then or_else (unexpectedReturn c) UnexpectedEvent else s)"

definition ctx_inv :: "scan_state \<Rightarrow> ctx \<Rightarrow> bool" where
  "ctx_inv s c =
     ((overrideAvailable c \<longrightarrow> canOverride c \<and> \<not> requiresOnline c) \<and>
      (eff s c = OverrideConfirm \<longrightarrow> overrideAvailable c) \<and>
      (eff s c \<in> {Idle, Scanning, Resolving} \<longrightarrow> \<not> overrideAvailable c) \<and>
      (eff s c \<in> {Idle, Scanning} \<longrightarrow> sessionCode c = None) \<and>
      (eff s c \<notin> {Idle, Scanning, UnexpectedEvent} \<longrightarrow> sessionCode c \<noteq> None) \<and>
      (eff s c \<in> {BlockedOffline, OverrideConfirm} \<longrightarrow>
         gateReturn c = Some ReadyToSubmit \<or> gateReturn c = Some UnknownCode))"

lemma verdict_parked: "verdict_state t = Some v \<Longrightarrow> v \<in> {Redeemed, AlreadyUsed, Expired, NotFound, ErrorState}"
  by (cases t) auto

lemma eff_simps [simp]:
  "s \<noteq> UnexpectedEvent \<Longrightarrow> eff s c = s"
  "unexpectedReturn c = Some n \<Longrightarrow> eff UnexpectedEvent c = n"
  by (simp_all add: eff_def)

lemma reset_inv: "ctx_inv Idle (RESET_CTX c)"
  by (simp add: ctx_inv_def RESET_CTX_def)

lemma move_inv:
  assumes "scan_move e c s s' c' fx" and "ctx_inv s c" and "ev_type e \<noteq> UNEXPECTED"
  shows "ctx_inv s' c'"
  using assms(1)
proof cases
  case verdict
  with assms(2) verdict_parked [OF verdict(4)] show ?thesis by (auto simp: ctx_inv_def)
next
  case next_customer
  then show ?thesis by (simp add: reset_inv)
next
  case retry_reset
  then show ?thesis by (simp add: reset_inv)
next
  case unexpected
  with assms(3) show ?thesis by simp
next
  case submit
  with assms(2) show ?thesis by (elim disjE) (simp_all add: ctx_inv_def)
next
  case gated
  with assms(2) show ?thesis by (elim disjE) (simp_all add: ctx_inv_def)
next
  case resume
  with assms(2) show ?thesis by (elim disjE) (simp_all add: ctx_inv_def)
qed (use assms(2) in \<open>simp_all add: ctx_inv_def with_kind_def\<close>)

lemma move_target_sound:
  assumes "scan_move e c s s' c' fx" and "ctx_inv s c"
  shows "(fx = [SubmitToServer] \<longrightarrow> c_conn c = Online \<and> c_ov c = NoOverlay \<and> s' = Submitting)
       \<and> (\<forall>b u. WriteAttempt b u \<in> set fx \<longrightarrow>
            fx = [WriteAttempt b u] \<and> b \<and> canOverride c \<and> \<not> requiresOnline c \<and> c_ov c = NoOverlay
            \<and> (u \<longleftrightarrow> resolutionKind c = Some ''unknownCode'') \<and> s' = OverridePending)"
  using assms(1)
proof cases
  case (unexpected)
  then show ?thesis by simp
qed (use assms(2) in \<open>simp_all add: ctx_inv_def\<close>)

section \<open>The invariant of reachable snapshots\<close>

definition snap_inv :: "bool \<Rightarrow> snap \<Rightarrow> bool" where
  "snap_inv co s =
     (mirrors s \<and> canOverride (s_ctx s) = co \<and> ctx_inv (v_scan s) (s_ctx s) \<and>
      (v_ov s = Prompt \<longrightarrow> v_scan s \<in> set INTERRUPTIBLE))"

lemma ctx_inv_mirrors [simp]:
  "ctx_inv s (c\<lparr>c_conn := x\<rparr>) = ctx_inv s c"
  "ctx_inv s (c\<lparr>c_ov := y\<rparr>) = ctx_inv s c"
  "ctx_inv s (c\<lparr>c_sc := z\<rparr>) = ctx_inv s c"
  by (simp_all add: ctx_inv_def eff_def)

lemma init_inv: "snap_inv co (init_snap co)"
  by (simp add: snap_inv_def init_snap_def init_ctx_def mirrors_def ctx_inv_def)

lemma move_under_prompt:
  assumes "scan_move e c s s' c' fx" and "c_ov c = Prompt"
  shows "(ev_type e = RESUBSCRIBED \<and> s = BlockedOffline \<and> gateReturn c = Some s'
           \<and> s' \<in> {ReadyToSubmit, UnknownCode} \<and> c' = c \<and> fx = [])
       \<or> ev_type e \<in> {NEXT_CUSTOMER, UNEXPECTED}"
  using assms by cases auto

lemma flat_step_inv:
  assumes "snap_inv co s" and "ev_type e \<noteq> UNEXPECTED"
  shows "snap_inv co (flat_step e s)"
proof (rule flat_step_cases [of e s])
  assume st: "flat_step e s =
         s\<lparr>v_conn := or_else (conn_next (v_conn s) (ev_type e)) (v_conn s),
           v_ov := or_else (ov_next (v_ov s) (s_ctx s) e) (v_ov s),
           s_ctx := (s_ctx s)\<lparr>c_conn := or_else (conn_next (v_conn s) (ev_type e)) (c_conn (s_ctx s)),
                              c_ov := or_else (ov_next (v_ov s) (s_ctx s) e) (c_ov (s_ctx s))\<rparr>,
           s_dead := False\<rparr>"
  show ?thesis
    using assms step_mirrors [of s e] unfolding st
    by (cases "v_ov s") (auto simp: snap_inv_def mirrors_def ov_next_def split: if_splits)
next
  fix s' c' fx
  assume mv: "scan_move e (s_ctx s) (v_scan s) s' c' fx"
    and st: "flat_step e s =
         s\<lparr>v_conn := or_else (conn_next (v_conn s) (ev_type e)) (v_conn s),
           v_ov := or_else (ov_next (v_ov s) (s_ctx s) e) (v_ov s),
           v_scan := s',
           s_ctx := c'\<lparr>c_conn := or_else (conn_next (v_conn s) (ev_type e)) (c_conn c'),
                        c_ov := or_else (ov_next (v_ov s) (s_ctx s) e) (c_ov c'), c_sc := s'\<rparr>,
           s_effects := s_effects s @ fx, s_dead := False\<rparr>"
  have inv: "ctx_inv s' c'" using move_inv [OF mv _ assms(2)] assms(1) by (simp add: snap_inv_def)
  have co: "canOverride c' = co" using move_frame [OF mv] assms(1) by (simp add: snap_inv_def)
  have pr: "s' \<in> set INTERRUPTIBLE" if "or_else (ov_next (v_ov s) (s_ctx s) e) (v_ov s) = Prompt"
  proof (cases "v_ov s")
    case NoOverlay
    with that have "ev_type e = QR_DECODED" "c_sc (s_ctx s) \<in> set INTERRUPTIBLE"
      by (auto simp: ov_next_def split: if_splits)
    with mv assms(1) show ?thesis
      by cases (auto simp: snap_inv_def mirrors_def INTERRUPTIBLE_def)
  next
    case Prompt
    with that have "ev_type e \<notin> {DISMISS, NEXT_CUSTOMER, UNEXPECTED}"
      by (auto simp: ov_next_def split: if_splits)
    with Prompt move_under_prompt [OF mv] assms(1) show ?thesis
      by (auto simp: snap_inv_def mirrors_def INTERRUPTIBLE_def)
  qed
  show ?thesis
    using assms(1) step_mirrors [of s e] inv co pr unfolding st
    by (auto simp: snap_inv_def)
qed

lemma unexpected_step_inv:
  assumes "snap_inv co s"
  shows "snap_inv co (unexpected_step e s)"
proof -
  have "eff UnexpectedEvent (c\<lparr>unexpectedInfo := i, unexpectedReturn := Some n\<rparr>) = n" for c i n by simp
  with assms show ?thesis
    by (cases "v_scan s = UnexpectedEvent")
       (auto simp: snap_inv_def unexpected_step_def mirrors_def ctx_inv_def Let_def)
qed

text \<open>The events the outside sends: every name but the internal one.\<close>

definition external :: "event \<Rightarrow> bool" where
  "external e = (ev_type e \<noteq> UNEXPECTED)"

inductive reach :: "mode \<Rightarrow> bool \<Rightarrow> snap \<Rightarrow> bool" for m co where
  start: "reach m co (init_snap co)"
| step: "reach m co s \<Longrightarrow> external e \<Longrightarrow> send m e s = Some s' \<Longrightarrow> reach m co s'"

lemma send_cases:
  assumes "send m e s = Some s'" and "mirrors s"
  obtains (dead) "s_dead s" "s' = s"
  | (flat) "alive s" "declared (ev_type e)" "s' = flat_step e s"
  | (tripped) "alive s" "\<not> declared (ev_type e)" "m = ModelMode" "s' = unexpected_step e s"
  | (thrown) "alive s" "\<not> declared (ev_type e)" "m = ThrowMode"
      "s' = s\<lparr>s_trips := s_trips s @ [tripInfo (s_ctx s) e], s_dead := True\<rparr>"
  using assms send_flat [of e s m] send_undeclared_model [of e s] send_undeclared_throw [of e s]
  by (cases m; cases "s_dead s"; cases "declared (ev_type e)") (auto simp: send_def alive_def)

lemma send_inv:
  assumes "send m e s = Some s'" and "snap_inv co s" and "external e"
  shows "snap_inv co s'"
proof -
  have "mirrors s" using assms(2) by (simp add: snap_inv_def)
  then show ?thesis
    using assms
    by (auto elim!: send_cases simp: flat_step_inv unexpected_step_inv external_def)
       (simp_all add: snap_inv_def mirrors_def)
qed

lemma reach_inv: "reach m co s \<Longrightarrow> snap_inv co s"
  by (induction rule: reach.induct) (auto intro: init_inv send_inv)

end
