(* ===== verification/ScannerProps.thy ===== *)
theory ScannerProps
  imports ScannerInvariants
begin

text \<open>The properties of the scanner statechart.\<close>

section \<open>Totality and strictness\<close>

lemma undeclared_microstep:
  assumes "\<not> declared (ev_type e)"
  shows "\<exists>s'. microstep ModelMode e s = (s', [UNEXPECTED, UNEXPECTED, UNEXPECTED]) \<and> \<not> s_dead s'"
  by (simp add: microstep_def undeclared_select [OF assms] noop_def Let_def)

text \<open>every event, declared or not, is processed to completion in every snapshot and in both builds:
  the internal queue drains within the four rounds the model allots.\<close>

theorem send_total: "\<exists>s'. send m e s = Some s'"
proof (cases "s_dead s \<or> declared (ev_type e)")
  case True
  then show ?thesis using send_flat [of e s m] by (auto simp: send_def alive_def)
next
  case False
  then have nd: "\<not> s_dead s" "\<not> declared (ev_type e)" by auto
  have d: "declared (ev_type (internal UNEXPECTED))" by (simp add: declared_def internal_def)
  show ?thesis
  proof (cases m)
    case ThrowMode
    with nd show ?thesis using send_undeclared_throw [of e s] by (simp add: alive_def)
  next
    case ModelMode
    obtain s1 where "microstep ModelMode e s = (s1, [UNEXPECTED, UNEXPECTED, UNEXPECTED])" "\<not> s_dead s1"
      using undeclared_microstep [OF nd(2)] by blast
    moreover have "\<not> s_dead (flat_step e' x)" for e' x using flat_step_alive by (simp add: alive_def)
    ultimately show ?thesis
      using nd ModelMode by (simp add: send_def numeral_eq_Suc microstep_flat [OF d])
  qed
qed

definition chart_pairs :: nat where
  "chart_pairs =
     sum_list (map (\<lambda>s. case scan_on s of Inl _ \<Rightarrow> 0 | Inr on \<Rightarrow> declaredAlphabetPairs on) SCAN_STATE_NAMES)
     + sum_list (map (\<lambda>s. case conn_on s of Inl _ \<Rightarrow> 0 | Inr on \<Rightarrow> declaredAlphabetPairs on) [Online, Offline, Stale])
     + sum_list (map (\<lambda>s. case ov_on s of Inl _ \<Rightarrow> 0 | Inr on \<Rightarrow> declaredAlphabetPairs on) [NoOverlay, Prompt])"

lemma scan_pairs: "(case scan_on s of Inl _ \<Rightarrow> 0 | Inr on \<Rightarrow> declaredAlphabetPairs on) = 20"
  by (cases s) (simp_all add: scan_on_def machine_simps declaredAlphabetPairs_def)

lemma plain_pairs:
  "(case conn_on x of Inl _ \<Rightarrow> 0 | Inr on \<Rightarrow> declaredAlphabetPairs on) = 20"
  "(case ov_on y of Inl _ \<Rightarrow> 0 | Inr on \<Rightarrow> declaredAlphabetPairs on) = 20"
  by (cases x; simp add: conn_on_def machine_simps declaredAlphabetPairs_def)
     (cases y; simp add: ov_on_def machine_simps declaredAlphabetPairs_def)

definition alphabet_event :: "event \<Rightarrow> bool" where
  "alphabet_event e = (ev_type e \<in> set EVENT_ALPHABET)"

lemma alphabet_send:
  assumes "alphabet_event e" and "alive s"
  shows "send m e s = Some (flat_step e s)"
  using assms by (auto simp: alphabet_event_def intro: send_flat alphabet_declared)

lemma alphabet_external: "alphabet_event e \<Longrightarrow> external e"
  by (auto simp: alphabet_event_def external_def alphabet_defs)

lemma flat_step_trips [simp]: "s_trips (flat_step e s) = s_trips s"
  by (simp add: flat_step_def Let_def)

lemma alphabet_send_all:
  assumes "list_all alphabet_event es" and "alive s"
  shows "send_all m es s = Some (fold flat_step es s)"
  using assms by (induction es arbitrary: s) (simp_all add: alphabet_send)

lemma fold_flat_alive: "alive s \<Longrightarrow> alive (fold flat_step es s) \<and> s_trips (fold flat_step es s) = s_trips s"
  by (induction es arbitrary: s) simp_all

text \<open>strictness.\<close>

theorem strict_over_alphabet:
  assumes "list_all alphabet_event es"
  shows "chart_pairs = 23 * length EVENT_ALPHABET
     \<and> (\<exists>s. send_all ThrowMode es (init_snap co) = Some s \<and> send_all ModelMode es (init_snap co) = Some s
           \<and> alive s \<and> s_trips s = [])"
proof
  show "chart_pairs = 23 * length EVENT_ALPHABET"
    by (simp add: chart_pairs_def scan_pairs plain_pairs SCAN_STATE_NAMES_def alphabet_defs)
  have "alive (init_snap co)" by (simp add: alive_def init_snap_def)
  with assms show "\<exists>s. send_all ThrowMode es (init_snap co) = Some s \<and> send_all ModelMode es (init_snap co) = Some s
           \<and> alive s \<and> s_trips s = []"
    using fold_flat_alive [of "init_snap co" es] by (simp add: alphabet_send_all init_snap_def)
qed

definition ev :: "etype \<Rightarrow> event" where
  "ev t = internal t"

definition decoded :: "string \<Rightarrow> event" where
  "decoded code = (internal QR_DECODED)\<lparr>ev_code := code\<rparr>"

definition resolved :: "string \<Rightarrow> bool \<Rightarrow> event" where
  "resolved kind req = (internal RESOLVED)\<lparr>ev_kind := kind, ev_requiresOnline := req\<rparr>"

lemmas event_simps = ev_def decoded_def resolved_def internal_def

theorem strict_over_alphabet_witness:
  "\<exists>s. send_all ThrowMode [ev SCAN, decoded ''X'', ev PROBE_TIMEOUT] (init_snap True) = Some s
     \<and> alive s \<and> s_trips s = []"
  using strict_over_alphabet [of "[ev SCAN, decoded ''X'', ev PROBE_TIMEOUT]" True]
  by (auto simp: alphabet_event_def event_simps alphabet_defs)

section \<open>What may be submitted, and when\<close>

lemma send_effects:
  assumes "reach m co s" and "external e" and "send m e s = Some s'"
  shows "(s_effects s' = s_effects s \<and> (s_dead s' \<or> \<not> declared (ev_type e) \<or> s' = flat_step e s))
    \<or> (\<exists>c' fx. alive s \<and> scan_move e (s_ctx s) (v_scan s) (v_scan s') c' fx \<and> s_effects s' = s_effects s @ fx
         \<and> s' = flat_step e s)"
proof -
  have inv: "snap_inv co s" using assms(1) by (rule reach_inv)
  then have "mirrors s" by (simp add: snap_inv_def)
  with assms(3) show ?thesis
  proof (rule send_cases)
    assume f: "alive s" "s' = flat_step e s"
    show ?thesis
      by (rule flat_step_cases [of e s]) (use f in auto)
  qed (auto simp: unexpected_step_def Let_def)
qed

text \<open>C7: submission safety.\<close>

theorem effects_gated:
  assumes "reach m co s" and "external e" and "send m e s = Some s'"
  shows "\<exists>fx. s_effects s' = s_effects s @ fx
     \<and> (SubmitToServer \<in> set fx \<longrightarrow> fx = [SubmitToServer] \<and> v_conn s = Online \<and> v_ov s = NoOverlay
          \<and> v_scan s \<in> {ReadyToSubmit, UnknownCode} \<and> ev_type e = SUBMIT \<and> v_scan s' = Submitting)
     \<and> (\<forall>b u. WriteAttempt b u \<in> set fx \<longrightarrow> fx = [WriteAttempt b u] \<and> b \<and> co \<and> \<not> requiresOnline (s_ctx s)
          \<and> v_ov s = NoOverlay \<and> v_scan s = OverrideConfirm \<and> ev_type e = OVERRIDE_CONFIRM
          \<and> (u \<longleftrightarrow> resolutionKind (s_ctx s) = Some ''unknownCode'') \<and> v_scan s' = OverridePending)"
  using send_effects [OF assms]
proof (elim disjE exE conjE)
  fix c' fx
  assume mv: "scan_move e (s_ctx s) (v_scan s) (v_scan s') c' fx" and fx: "s_effects s' = s_effects s @ fx"
  have inv: "snap_inv co s" using assms(1) by (rule reach_inv)
  then have ov: "v_scan s = OverrideConfirm \<Longrightarrow> co \<and> \<not> requiresOnline (s_ctx s)"
    by (auto simp: snap_inv_def ctx_inv_def)
  show ?thesis
    using mv inv ov fx by cases (auto simp: snap_inv_def mirrors_def)
qed auto


section \<open>The in-flight verdict\<close>




section \<open>The finish-first prompt\<close>

lemma ctx_mirror_ext:
  "c\<lparr>c_conn := a, c_ov := b\<rparr> = c \<longleftrightarrow> c_conn c = a \<and> c_ov c = b" for c :: ctx
  by (cases c) auto

definition frozen_but_conn :: "snap \<Rightarrow> snap \<Rightarrow> ov_state \<Rightarrow> bool" where
  "frozen_but_conn s s' w = (v_scan s' = v_scan s \<and> v_ov s' = w \<and> s_effects s' = s_effects s
     \<and> s_ctx s' = (s_ctx s)\<lparr>c_conn := v_conn s', c_ov := w\<rparr>)"

lemma prompt_opens:
  assumes "snap_inv co s" and "v_ov s = NoOverlay" and "v_scan s \<in> set INTERRUPTIBLE"
    and "sessionCode (s_ctx s) \<noteq> None" and "sessionCode (s_ctx s) \<noteq> Some code"
  shows "frozen_but_conn s (flat_step (decoded code) s) Prompt"
proof (rule flat_step_cases [of "decoded code" s])
  fix s' c' fx
  assume "scan_move (decoded code) (s_ctx s) (v_scan s) s' c' fx"
  then have False by cases (use assms(3) in \<open>auto simp: event_simps INTERRUPTIBLE_def\<close>)
  then show ?thesis ..
next
  assume st: "flat_step (decoded code) s =
         s\<lparr>v_conn := or_else (conn_next (v_conn s) (ev_type (decoded code))) (v_conn s),
           v_ov := or_else (ov_next (v_ov s) (s_ctx s) (decoded code)) (v_ov s),
           s_ctx := (s_ctx s)\<lparr>c_conn := or_else (conn_next (v_conn s) (ev_type (decoded code))) (c_conn (s_ctx s)),
                              c_ov := or_else (ov_next (v_ov s) (s_ctx s) (decoded code)) (c_ov (s_ctx s))\<rparr>,
           s_dead := False\<rparr>"
  have "conn_next (v_conn s) QR_DECODED = None" by (cases "v_conn s") (simp_all add: conn_next_def)
  with assms show ?thesis
    unfolding st frozen_but_conn_def
    by (auto simp: ov_next_def event_simps snap_inv_def mirrors_def)
qed

lemma prompt_holds:
  assumes "mirrors s" and "v_ov s = Prompt" and "ev_type e \<notin> {DISMISS, NEXT_CUSTOMER, RESUBSCRIBED, UNEXPECTED}"
  shows "frozen_but_conn s (flat_step e s) Prompt"
proof (rule flat_step_cases [of e s])
  fix s' c' fx
  assume "scan_move e (s_ctx s) (v_scan s) s' c' fx"
  from move_under_prompt [OF this] assms have False by (auto simp: mirrors_def)
  then show ?thesis ..
qed (use assms in \<open>auto simp: frozen_but_conn_def mirrors_def ov_next_def\<close>)

lemma prompt_dismissed:
  assumes "mirrors s" and "v_ov s = Prompt"
  shows "frozen_but_conn s (flat_step (ev DISMISS) s) NoOverlay"
proof (rule flat_step_cases [of "ev DISMISS" s])
  fix s' c' fx
  assume "scan_move (ev DISMISS) (s_ctx s) (v_scan s) s' c' fx"
  from move_under_prompt [OF this] assms have False by (auto simp: mirrors_def event_simps)
  then show ?thesis ..
qed (use assms in \<open>cases "v_conn s"; auto simp: frozen_but_conn_def mirrors_def ov_next_def event_simps conn_next_def\<close>)

lemma frozen_trans:
  "frozen_but_conn s t o1 \<Longrightarrow> frozen_but_conn t u o2 \<Longrightarrow> frozen_but_conn s u o2"
  by (simp add: frozen_but_conn_def)

lemma prompt_run:
  assumes "mirrors s" and "v_ov s = Prompt"
    and "list_all (\<lambda>e. ev_type e \<notin> {DISMISS, NEXT_CUSTOMER, RESUBSCRIBED, UNEXPECTED}) es"
  shows "frozen_but_conn s (fold flat_step es s) Prompt \<and> mirrors (fold flat_step es s)"
  using assms
proof (induction es arbitrary: s)
  case Nil
  then show ?case by (simp add: frozen_but_conn_def mirrors_def ctx_mirror_ext)
next
  case (Cons e es)
  then have h: "frozen_but_conn s (flat_step e s) Prompt" by (intro prompt_holds) auto
  have m: "mirrors (flat_step e s)" using Cons.prems(1) by (rule step_mirrors)
  have "frozen_but_conn (flat_step e s) (fold flat_step es (flat_step e s)) Prompt
      \<and> mirrors (fold flat_step es (flat_step e s))"
    using Cons.prems h m by (intro Cons.IH) (auto simp: frozen_but_conn_def)
  with h show ?case by (auto intro: frozen_trans)
qed

text \<open>the prompt preserves the interrupted customer's progress.\<close>

theorem prompt_preserves_progress:
  assumes "reach m co s" and "alive s" and "v_ov s = NoOverlay" and "v_scan s \<in> set INTERRUPTIBLE"
    and "sessionCode (s_ctx s) \<noteq> None" and "sessionCode (s_ctx s) \<noteq> Some code"
    and "list_all (\<lambda>e. alphabet_event e \<and> ev_type e \<notin> {DISMISS, NEXT_CUSTOMER, RESUBSCRIBED}) es"
  shows "\<exists>s1 s2. send m (decoded code) s = Some s1 \<and> scan_shown s1 = ShowsPrompt
     \<and> send_all m (es @ [ev DISMISS]) s1 = Some s2 \<and> frozen_but_conn s s2 NoOverlay"
proof -
  have inv: "snap_inv co s" using assms(1) by (rule reach_inv)
  let ?s1 = "flat_step (decoded code) s"
  let ?t = "fold flat_step es ?s1"
  have op: "frozen_but_conn s ?s1 Prompt" using prompt_opens [OF inv assms(3-6)] .
  have m1: "mirrors ?s1" using inv by (simp add: step_mirrors snap_inv_def)
  have al: "list_all alphabet_event (es @ [ev DISMISS])"
    using assms(7) by (auto simp: list_all_iff alphabet_event_def event_simps alphabet_defs)
  have es: "list_all (\<lambda>e. ev_type e \<notin> {DISMISS, NEXT_CUSTOMER, RESUBSCRIBED, UNEXPECTED}) es"
    using assms(7) by (auto simp: list_all_iff alphabet_event_def alphabet_defs)
  have t: "frozen_but_conn ?s1 ?t Prompt" "mirrors ?t"
    using prompt_run [OF m1 _ es] op by (auto simp: frozen_but_conn_def)
  have d: "frozen_but_conn ?t (flat_step (ev DISMISS) ?t) NoOverlay"
    using prompt_dismissed [OF t(2)] t(1) by (auto simp: frozen_but_conn_def)
  have "send m (decoded code) s = Some ?s1"
    using assms(2) by (intro alphabet_send) (auto simp: alphabet_event_def event_simps alphabet_defs)
  moreover have "scan_shown ?s1 = ShowsPrompt" using op by (simp add: scan_shown_def frozen_but_conn_def)
  moreover have "send_all m (es @ [ev DISMISS]) ?s1 = Some (flat_step (ev DISMISS) ?t)"
    using alphabet_send_all [OF al flat_step_alive] by simp
  ultimately show ?thesis using frozen_trans [OF op frozen_trans [OF t(1) d]] by blast
qed


section \<open>Concrete runs\<close>

lemma reach_step_flat: "reach m co s \<Longrightarrow> alive s \<Longrightarrow> alphabet_event e \<Longrightarrow> reach m co (flat_step e s)"
  by (rule reach.step [of m co s e]) (simp_all add: alphabet_external alphabet_send)

lemma reach_fold:
  assumes "reach m co s" and "alive s" and "list_all alphabet_event es"
  shows "reach m co (fold flat_step es s)"
  using assms by (induction es arbitrary: s) (simp_all add: reach_step_flat)

lemma alive_init [simp]: "alive (init_snap co)"
  by (simp add: alive_def init_snap_def)

definition up_to_gate :: "event list" where
  "up_to_gate = [ev SCAN, decoded ''X'', resolved ''offerReady'' False, ev ORDER_OK, ev CONN_DOWN, ev SUBMIT]"

lemmas run_simps = flat_step_def scan_next_def conn_next_def ov_next_def flat_defs start_run_def
  init_snap_def init_ctx_def RESET_CTX_def INTERRUPTIBLE_def resolvedKind_def event_simps Let_def

lemma up_to_gate_alphabet: "list_all alphabet_event up_to_gate"
  by (simp add: up_to_gate_def alphabet_event_def event_simps alphabet_defs)

lemma at_gate:
  "fold flat_step up_to_gate (init_snap True) =
     \<lparr>v_conn = Offline, v_ov = NoOverlay, v_scan = BlockedOffline,
      s_ctx = \<lparr>canOverride = True, c_conn = Offline, c_ov = NoOverlay, c_sc = BlockedOffline,
        sessionCode = Some ''X'', resolutionKind = Some ''offerReady'', requiresOnline = False,
        overrideAvailable = True, unverifiedWarning = False, gateReturn = Some ReadyToSubmit,
        unexpectedInfo = None, unexpectedReturn = None\<rparr>,
      s_effects = [], s_trips = [], s_dead = False\<rparr>"
  unfolding up_to_gate_def by (simp add: run_simps)

definition at_gate_snap :: snap where
  "at_gate_snap = fold flat_step up_to_gate (init_snap True)"

lemma at_gate_reach: "reach m True at_gate_snap"
  unfolding at_gate_snap_def by (intro reach_fold reach.start up_to_gate_alphabet) simp

lemmas at_gate_snap_eq = at_gate_snap_def [unfolded at_gate]

theorem prompt_preserves_progress_witness:
  "\<exists>s1 s2. send ModelMode (decoded ''Y'') at_gate_snap = Some s1 \<and> scan_shown s1 = ShowsPrompt
     \<and> send_all ModelMode ([ev CONN_UP, ev SUBMIT] @ [ev DISMISS]) s1 = Some s2
     \<and> frozen_but_conn at_gate_snap s2 NoOverlay"
  by (rule prompt_preserves_progress [OF at_gate_reach])
     (simp_all add: at_gate_snap_eq alive_def INTERRUPTIBLE_def alphabet_event_def event_simps alphabet_defs)

lemma confirm_reach:
  "reach ModelMode True (flat_step (ev OVERRIDE_REQUEST) at_gate_snap)"
  by (rule reach_step_flat [OF at_gate_reach])
     (simp_all add: at_gate_snap_eq alive_def alphabet_event_def event_simps alphabet_defs)

theorem effects_gated_witness:
  "\<exists>s s' fx. reach ModelMode True s \<and> send ModelMode (ev OVERRIDE_CONFIRM) s = Some s'
     \<and> s_effects s' = s_effects s @ fx \<and> WriteAttempt True False \<in> set fx \<and> v_scan s' = OverridePending"
proof -
  let ?s = "flat_step (ev OVERRIDE_REQUEST) at_gate_snap"
  have sd: "send ModelMode (ev OVERRIDE_CONFIRM) ?s = Some (flat_step (ev OVERRIDE_CONFIRM) ?s)"
    by (rule alphabet_send) (simp_all add: alphabet_event_def event_simps alphabet_defs)
  have fx: "s_effects (flat_step (ev OVERRIDE_CONFIRM) ?s) = s_effects ?s @ [WriteAttempt True False]"
    by (simp add: at_gate_snap_eq run_simps)
  have ex: "external (ev OVERRIDE_CONFIRM)" by (simp add: external_def event_simps)
  from effects_gated [OF confirm_reach ex sd] fx
  have "v_scan (flat_step (ev OVERRIDE_CONFIRM) ?s) = OverridePending" by auto
  with confirm_reach sd fx show ?thesis by (metis list.set_intros(1))
qed


section \<open>The offline gate\<close>

text \<open>when reachability returns at the gate, the flow resumes where the gate interrupted it.\<close>

theorem gate_resumes:
  assumes "reach m co s" and "alive s" and "v_scan s = BlockedOffline" and "v_conn s = Stale"
  shows "\<exists>s'. send m (ev RESUBSCRIBED) s = Some s' \<and> v_conn s' = Online \<and> gateReturn (s_ctx s) = Some (v_scan s')
      \<and> v_scan s' \<in> {ReadyToSubmit, UnknownCode} \<and> v_ov s' = v_ov s \<and> s_effects s' = s_effects s"
proof -
  have inv: "snap_inv co s" using assms(1) by (rule reach_inv)
  then have "gateReturn (s_ctx s) = Some ReadyToSubmit \<or> gateReturn (s_ctx s) = Some UnknownCode"
    using assms(3) by (simp add: snap_inv_def ctx_inv_def)
  then show ?thesis
    using inv assms(3,4) alphabet_send [of "ev RESUBSCRIBED" s m, OF _ assms(2)]
    by (cases "v_ov s")
       (auto simp: run_simps snap_inv_def mirrors_def alphabet_event_def alphabet_defs)
qed

theorem gate_resumes_witness:
  "\<exists>s'. send ModelMode (ev RESUBSCRIBED) (flat_step (ev CONN_UP) at_gate_snap) = Some s'
      \<and> v_conn s' = Online \<and> v_scan s' = ReadyToSubmit"
proof -
  have r: "reach ModelMode True (flat_step (ev CONN_UP) at_gate_snap)"
    by (rule reach_step_flat [OF at_gate_reach])
       (simp_all add: at_gate_snap_eq alive_def alphabet_event_def event_simps alphabet_defs)
  have "v_scan (flat_step (ev CONN_UP) at_gate_snap) = BlockedOffline"
    "v_conn (flat_step (ev CONN_UP) at_gate_snap) = Stale"
    "gateReturn (s_ctx (flat_step (ev CONN_UP) at_gate_snap)) = Some ReadyToSubmit"
    by (simp_all add: at_gate_snap_eq run_simps)
  with gate_resumes [OF r flat_step_alive] show ?thesis by auto
qed

definition cancel_after_return :: "event list" where
  "cancel_after_return =
     up_to_gate @ [ev OVERRIDE_REQUEST, ev CONN_UP, ev RESUBSCRIBED, ev OVERRIDE_CANCEL]"

lemma gate_stuck_step:
  assumes "v_scan s = BlockedOffline" and "v_conn s = Online" and "v_ov s = NoOverlay" and "mirrors s"
    and "alphabet_event e" and "ev_type e \<notin> {NEXT_CUSTOMER, OVERRIDE_REQUEST, CONN_DOWN, PROBE_TIMEOUT, QR_DECODED}"
  shows "v_scan (flat_step e s) = BlockedOffline \<and> v_conn (flat_step e s) = Online \<and> v_ov (flat_step e s) = NoOverlay"
  using assms by (auto simp: run_simps mirrors_def alphabet_event_def alphabet_defs)

lemma gate_stuck_run:
  assumes "v_scan s = BlockedOffline" and "v_conn s = Online" and "v_ov s = NoOverlay" and "mirrors s"
    and "list_all (\<lambda>e. alphabet_event e
          \<and> ev_type e \<notin> {NEXT_CUSTOMER, OVERRIDE_REQUEST, CONN_DOWN, PROBE_TIMEOUT, QR_DECODED}) es"
  shows "v_scan (fold flat_step es s) = BlockedOffline \<and> v_conn (fold flat_step es s) = Online"
  using assms
proof (induction es arbitrary: s)
  case (Cons e es)
  then show ?case using gate_stuck_step [of s e] step_mirrors [of s e] by simp
qed simp

text \<open>a reachability return during the override confirmation is lost: after the cancel the gate stays closed
  although the device is online, whatever submits and resubscriptions follow.\<close>

theorem gate_stuck_online:
  assumes "list_all (\<lambda>e. alphabet_event e
      \<and> ev_type e \<notin> {NEXT_CUSTOMER, OVERRIDE_REQUEST, CONN_DOWN, PROBE_TIMEOUT, QR_DECODED}) es"
  shows "\<exists>s. send_all m (cancel_after_return @ es) (init_snap True) = Some s
      \<and> v_scan s = BlockedOffline \<and> v_conn s = Online"
proof -
  let ?s = "fold flat_step [ev OVERRIDE_REQUEST, ev CONN_UP, ev RESUBSCRIBED, ev OVERRIDE_CANCEL] at_gate_snap"
  have s: "fold flat_step cancel_after_return (init_snap True) = ?s"
    by (simp add: cancel_after_return_def at_gate_snap_def)
  have "v_scan ?s = BlockedOffline" "v_conn ?s = Online" "v_ov ?s = NoOverlay" "mirrors ?s"
    by (simp_all add: at_gate_snap_eq run_simps mirrors_def)
  from gate_stuck_run [OF this assms] have "v_scan (fold flat_step es ?s) = BlockedOffline
    \<and> v_conn (fold flat_step es ?s) = Online" .
  moreover have "list_all alphabet_event (cancel_after_return @ es)"
    using assms up_to_gate_alphabet
    by (auto simp: cancel_after_return_def list_all_iff alphabet_event_def event_simps alphabet_defs)
  ultimately show ?thesis using alphabet_send_all [OF _ alive_init] s by fastforce
qed

theorem gate_stuck_online_witness:
  "\<exists>s. send_all ModelMode (cancel_after_return @ [ev SUBMIT, ev RESUBSCRIBED, ev SUBMIT]) (init_snap True) = Some s
      \<and> v_scan s = BlockedOffline \<and> v_conn s = Online"
  by (rule gate_stuck_online) (simp add: alphabet_event_def event_simps alphabet_defs)


section \<open>Undeclared events in the production build\<close>

lemma retry_returns:
  assumes "mirrors s" and "v_scan s = UnexpectedEvent" and "v_ov s = NoOverlay"
    and "unexpectedReturn (s_ctx s) = Some n" and "n \<noteq> UnexpectedEvent"
  shows "flat_step (ev RETRY) s = s\<lparr>v_scan := n, s_ctx := (s_ctx s)\<lparr>c_sc := n\<rparr>, s_dead := False\<rparr>"
  using assms by (cases "v_conn s") (simp_all add: run_simps mirrors_def)

lemma retry_resets:
  assumes "mirrors s" and "v_scan s = UnexpectedEvent" and "v_ov s = NoOverlay"
    and "unexpectedReturn (s_ctx s) = Some UnexpectedEvent"
  shows "v_scan (flat_step (ev RETRY) s) = Idle \<and> sessionCode (s_ctx (flat_step (ev RETRY) s)) = None"
  using assms by (cases "v_conn s") (simp_all add: run_simps mirrors_def)

text \<open>an event outside the alphabet, met in any state but the error card, keeps the actor alive, shows the
  error card with what was captured, and RETRY returns to the interrupted state with the customer's context
  intact; a second one on the error card makes RETRY reset the customer instead.\<close>

theorem undeclared_retry:
  assumes "reach ModelMode co s" and "alive s" and "\<not> declared (ev_type e)" and "\<not> declared (ev_type e')"
    and "v_scan s \<noteq> UnexpectedEvent"
  shows "\<exists>s1 s2. send ModelMode e s = Some s1 \<and> alive s1 \<and> scan_shown s1 = Shows UnexpectedEvent
       \<and> unexpectedInfo (s_ctx s1) = Some (tripInfo (s_ctx s) e)
       \<and> send ModelMode (ev RETRY) s1 = Some s2 \<and> v_scan s2 = v_scan s \<and> v_conn s2 = v_conn s
       \<and> s_effects s2 = s_effects s \<and> sessionCode (s_ctx s2) = sessionCode (s_ctx s)
       \<and> overrideAvailable (s_ctx s2) = overrideAvailable (s_ctx s) \<and> gateReturn (s_ctx s2) = gateReturn (s_ctx s)
       \<and> (\<exists>s3. send_all ModelMode [e', ev RETRY] s1 = Some s3 \<and> v_scan s3 = Idle \<and> sessionCode (s_ctx s3) = None)"
proof -
  have mir: "mirrors s" using reach_inv [OF assms(1)] by (simp add: snap_inv_def)
  let ?s1 = "unexpected_step e s" and ?s1' = "unexpected_step e' (unexpected_step e s)"
  have m1: "mirrors ?s1" "alive ?s1" "mirrors ?s1'" "alive ?s1'"
    using mir assms(2) by (simp_all add: unexpected_step_def mirrors_def alive_def Let_def)
  have r: "alphabet_event (ev RETRY)" by (simp add: alphabet_event_def event_simps alphabet_defs)
  have e1: "send ModelMode e s = Some ?s1" using send_undeclared_model [OF assms(3,2) mir] .
  have e2: "send ModelMode (ev RETRY) ?s1 = Some (flat_step (ev RETRY) ?s1)" using alphabet_send [OF r m1(2)] .
  have e3: "send_all ModelMode [e', ev RETRY] ?s1 = Some (flat_step (ev RETRY) ?s1')"
    using send_undeclared_model [OF assms(4) m1(2) m1(1)] alphabet_send [OF r m1(4)] by simp
  let ?s2 = "flat_step (ev RETRY) ?s1" and ?s3 = "flat_step (ev RETRY) ?s1'"
  have eq2: "?s2 = ?s1\<lparr>v_scan := v_scan s, s_ctx := (s_ctx ?s1)\<lparr>c_sc := v_scan s\<rparr>, s_dead := False\<rparr>"
    using mir assms(5) by (intro retry_returns m1) (simp_all add: unexpected_step_def mirrors_def Let_def)
  have f1: "scan_shown ?s1 = Shows UnexpectedEvent" "unexpectedInfo (s_ctx ?s1) = Some (tripInfo (s_ctx s) e)"
    by (simp_all add: scan_shown_def unexpected_step_def Let_def)
  have f2: "v_scan ?s2 = v_scan s" "v_conn ?s2 = v_conn s" "s_effects ?s2 = s_effects s"
    "sessionCode (s_ctx ?s2) = sessionCode (s_ctx s)" "overrideAvailable (s_ctx ?s2) = overrideAvailable (s_ctx s)"
    "gateReturn (s_ctx ?s2) = gateReturn (s_ctx s)"
    unfolding eq2 by (simp_all add: unexpected_step_def Let_def)
  have f3: "v_scan ?s3 = Idle \<and> sessionCode (s_ctx ?s3) = None"
    by (intro retry_resets m1) (simp_all add: unexpected_step_def Let_def)
  from e1 e2 e3 m1(2) f1 f2 f3 show ?thesis by blast
qed

theorem undeclared_retry_witness:
  "\<exists>s1 s2. send ModelMode (ev (OTHER ''FOO'')) at_gate_snap = Some s1 \<and> scan_shown s1 = Shows UnexpectedEvent
     \<and> send ModelMode (ev RETRY) s1 = Some s2 \<and> v_scan s2 = BlockedOffline"
proof -
  have "alive at_gate_snap" "v_scan at_gate_snap = BlockedOffline" by (simp_all add: at_gate_snap_eq alive_def)
  moreover have "\<not> declared (ev_type (ev (OTHER ''FOO'')))" by (simp add: event_simps declared_def)
  ultimately show ?thesis
    using undeclared_retry [OF at_gate_reach, of "ev (OTHER ''FOO'')" "ev (OTHER ''FOO'')"] by (auto simp del: send_all.simps)
qed

end
