(* ===== verification/ReferenceMachine.thy ===== *)
theory ReferenceMachine
  imports ScannerProps
begin

text \<open>
  The hand-rolled reference machine (\<^verbatim>\<open>machine-handrolled.mjs\<close>, copied verbatim into the lockstep gate as
  \<^verbatim>\<open>tests/machine/reference-machine.mjs\<close>), and the lockstep comparison of the strict statechart with it:
  a simulation for every run that stays out of two windows, and the two runs in which the machines differ.
\<close>

section \<open>The reference machine\<close>

record rctx =
  rc_canOverride :: bool
  rc_resolutionKind :: "string option"
  rc_requiresOnline :: bool
  rc_sessionCode :: "string option"
  rc_overrideAvailable :: bool
  rc_unverifiedWarning :: bool
  rc_gateReturn :: "scan_state option"
  rc_promptReturn :: "scan_state option"

record refm =
  rf_conn :: conn_state
  rf_scan :: shown
  rf_ctx :: rctx
  rf_effects :: "effect list"

definition ref_init :: "bool \<Rightarrow> refm" where
  "ref_init co = \<lparr>rf_conn = Online, rf_scan = Shows Idle,
     rf_ctx = \<lparr>rc_canOverride = co, rc_resolutionKind = None, rc_requiresOnline = False, rc_sessionCode = None,
       rc_overrideAvailable = False, rc_unverifiedWarning = False, rc_gateReturn = None, rc_promptReturn = None\<rparr>,
     rf_effects = []\<rparr>"

definition REF_INTERRUPTIBLE :: "scan_state list" where
  "REF_INTERRUPTIBLE =
     [Resolving, OfferReady, ReadyToSubmit, UnknownCode, SpentLocally,
      ExpiredLocally, BlockedOffline, OverridePending, Redeemed,
      AlreadyUsed, Expired, NotFound, ErrorState]"

definition resettable_ref :: "shown \<Rightarrow> bool" where
  "resettable_ref s = (case s of ShowsPrompt \<Rightarrow> True | Shows x \<Rightarrow> x \<in> set REF_INTERRUPTIBLE)"

definition resetSession :: "refm \<Rightarrow> refm" where
  "resetSession r = r\<lparr>rf_ctx := (rf_ctx r)\<lparr>rc_sessionCode := None, rc_resolutionKind := None,
     rc_requiresOnline := False, rc_overrideAvailable := False, rc_unverifiedWarning := False,
     rc_gateReturn := None, rc_promptReturn := None\<rparr>, rf_scan := Shows Idle\<rparr>"

definition connectivity :: "etype \<Rightarrow> refm \<Rightarrow> refm" where
  "connectivity t r =
     (if t = CONN_DOWN \<or> t = PROBE_TIMEOUT then r\<lparr>rf_conn := Offline\<rparr>
      else if t = CONN_UP \<and> rf_conn r = Offline then r\<lparr>rf_conn := Stale\<rparr>
      else if t = RESUBSCRIBED \<and> rf_conn r = Stale then r\<lparr>rf_conn := Online\<rparr> else r)"

text \<open>\<open>state.scan = ctx.gateReturn\<close> and \<open>= ctx.promptReturn\<close>: both are set whenever they are read.\<close>

definition back_to :: "scan_state option \<Rightarrow> refm \<Rightarrow> refm" where
  "back_to g r = (case g of None \<Rightarrow> r | Some s \<Rightarrow> r\<lparr>rf_scan := Shows s\<rparr>)"

definition move_to :: "scan_state \<Rightarrow> refm \<Rightarrow> refm" where
  "move_to s r = r\<lparr>rf_scan := Shows s\<rparr>"

definition ref_scan_in :: "scan_state \<Rightarrow> event \<Rightarrow> refm \<Rightarrow> refm" where
  "ref_scan_in s e r =
     (let t = ev_type e; c = rf_ctx r; online = (rf_conn r = Online) in
      case s of
        Idle \<Rightarrow> if t = SCAN then move_to Scanning r else r
      | Scanning \<Rightarrow>
          if t = QR_DECODED then move_to Resolving (r\<lparr>rf_ctx := c\<lparr>rc_sessionCode := Some (ev_code e)\<rparr>\<rparr>) else r
      | Resolving \<Rightarrow>
          if t = RESOLVED then
            (let r' = r\<lparr>rf_ctx := c\<lparr>rc_resolutionKind := Some (ev_kind e), rc_requiresOnline := ev_requiresOnline e\<rparr>\<rparr>
             in if ev_kind e = ''offerReady'' then move_to OfferReady r'
                else if ev_kind e = ''unknownCode'' then move_to UnknownCode r'
                else if ev_kind e = ''spentLocally'' then move_to (if online then OfferReady else SpentLocally) r'
                else if ev_kind e = ''expiredLocally'' then move_to ExpiredLocally r'
                else r')
          else r
      | OfferReady \<Rightarrow> if t = ORDER_OK then move_to ReadyToSubmit r else r
      | BlockedOffline \<Rightarrow>
          if t = OVERRIDE_REQUEST \<and> rc_overrideAvailable c then
            move_to OverrideConfirm
              (r\<lparr>rf_ctx := c\<lparr>rc_unverifiedWarning := rc_resolutionKind c = Some ''unknownCode''\<rparr>\<rparr>)
          else if t = RESUBSCRIBED \<and> online then back_to (rc_gateReturn c) r
          else r
      | OverrideConfirm \<Rightarrow>
          if t = OVERRIDE_CONFIRM then
            move_to OverridePending
              (r\<lparr>rf_effects := rf_effects r @ [WriteAttempt True (rc_resolutionKind c = Some ''unknownCode'')]\<rparr>)
          else if t = OVERRIDE_CANCEL then move_to BlockedOffline r else r
      | Submitting \<Rightarrow>
          if t = SRV_REDEEMED then move_to Redeemed r
          else if t = SRV_ALREADY_USED then move_to AlreadyUsed r
          else if t = SRV_EXPIRED then move_to Expired r
          else if t = SRV_NOT_FOUND then move_to NotFound r
          else if t = SRV_ERROR then move_to ErrorState r else r
      | ErrorState \<Rightarrow> if t = RETRY then move_to ReadyToSubmit r else r
      | s' \<Rightarrow>
          if (s' = ReadyToSubmit \<or> s' = UnknownCode) \<and> t = SUBMIT then
            (if online then move_to Submitting (r\<lparr>rf_effects := rf_effects r @ [SubmitToServer]\<rparr>)
             else move_to BlockedOffline
               (r\<lparr>rf_ctx := c\<lparr>rc_overrideAvailable := rc_canOverride c \<and> \<not> rc_requiresOnline c,
                              rc_gateReturn := Some s'\<rparr>\<rparr>))
          else r)"

definition ref_scan :: "event \<Rightarrow> refm \<Rightarrow> refm" where
  "ref_scan e r =
     (let t = ev_type e; c = rf_ctx r; s = rf_scan r in
      if t = NEXT_CUSTOMER \<and> resettable_ref s then resetSession r
      else if t = QR_DECODED \<and> rc_sessionCode c \<noteq> None \<and> s \<noteq> Shows Scanning then
        (if Some (ev_code e) = rc_sessionCode c then r
         else case s of
                ShowsPrompt \<Rightarrow> r
              | Shows x \<Rightarrow>
                  if x \<notin> set REF_INTERRUPTIBLE then r
                  else r\<lparr>rf_ctx := c\<lparr>rc_promptReturn := Some x\<rparr>, rf_scan := ShowsPrompt\<rparr>)
      else case s of
             ShowsPrompt \<Rightarrow>
               if t = DISMISS then
                 (if rc_promptReturn c = Some BlockedOffline \<and> rf_conn r = Online
                  then back_to (rc_gateReturn c) r else back_to (rc_promptReturn c) r)
               else r
           | Shows x \<Rightarrow> ref_scan_in x e r)"

definition ref_send :: "event \<Rightarrow> refm \<Rightarrow> refm" where
  "ref_send e r = ref_scan e (connectivity (ev_type e) r)"

section \<open>Lockstep\<close>

text \<open>What the lockstep gate compares after every event: connectivity, the shown state, the gate flags and the
  effects.\<close>

definition observe_strict :: "snap \<Rightarrow> conn_state \<times> shown \<times> (bool \<times> bool) \<times> effect list" where
  "observe_strict s = (v_conn s, scan_shown s, flags s, s_effects s)"

definition observe_ref :: "refm \<Rightarrow> conn_state \<times> shown \<times> (bool \<times> bool) \<times> effect list" where
  "observe_ref r = (rf_conn r, rf_scan r, (rc_overrideAvailable (rf_ctx r), rc_unverifiedWarning (rf_ctx r)), rf_effects r)"

definition ctx_sim :: "ctx \<Rightarrow> rctx \<Rightarrow> bool" where
  "ctx_sim c d =
     (canOverride c = rc_canOverride d \<and> resolutionKind c = rc_resolutionKind d \<and>
      requiresOnline c = rc_requiresOnline d \<and> sessionCode c = rc_sessionCode d \<and>
      overrideAvailable c = rc_overrideAvailable d \<and> unverifiedWarning c = rc_unverifiedWarning d \<and>
      gateReturn c = rc_gateReturn d)"

text \<open>The gate was resumed beneath the open prompt.\<close>

definition resumed_beneath :: "snap \<Rightarrow> refm \<Rightarrow> bool" where
  "resumed_beneath s r =
     (rc_promptReturn (rf_ctx r) = Some BlockedOffline \<and> v_scan s \<noteq> BlockedOffline \<and> v_conn s = Online
      \<and> gateReturn (s_ctx s) = Some (v_scan s))"

definition sim :: "snap \<Rightarrow> refm \<Rightarrow> bool" where
  "sim s r =
     (mirrors s \<and> v_conn s = rf_conn r \<and> ctx_sim (s_ctx s) (rf_ctx r) \<and> s_effects s = rf_effects r
      \<and> v_scan s \<noteq> UnexpectedEvent
      \<and> (v_scan s \<in> {BlockedOffline, OverrideConfirm} \<longrightarrow> v_conn s \<noteq> Online)
      \<and> (case v_ov s of
           NoOverlay \<Rightarrow> rf_scan r = Shows (v_scan s)
         | Prompt \<Rightarrow> rf_scan r = ShowsPrompt \<and> v_scan s \<in> set REF_INTERRUPTIBLE
             \<and> (rc_promptReturn (rf_ctx r) = Some (v_scan s) \<or> resumed_beneath s r)))"

text \<open>The two windows: reachability returns during the override confirmation; reachability is lost again
  beneath a prompt whose gate has been resumed.\<close>

definition window :: "event \<Rightarrow> snap \<Rightarrow> refm \<Rightarrow> bool" where
  "window e s r =
     ((v_scan s = OverrideConfirm \<and> v_conn s = Stale \<and> ev_type e = RESUBSCRIBED)
      \<or> (v_ov s = Prompt \<and> resumed_beneath s r \<and> ev_type e \<in> {CONN_DOWN, PROBE_TIMEOUT}))"

lemma conn_sim: "rf_conn (connectivity t r) = or_else (conn_next (rf_conn r) t) (rf_conn r)"
  by (cases "rf_conn r") (auto simp: connectivity_def conn_next_def)

definition lockstep_event :: "event \<Rightarrow> bool" where
  "lockstep_event e = (alphabet_event e \<and>
     (ev_type e = RESOLVED \<longrightarrow>
        ev_kind e \<in> {''offerReady'', ''unknownCode'', ''spentLocally'', ''expiredLocally''}))"

lemmas ref_defs = ref_send_def ref_scan_def ref_scan_in_def connectivity_def resettable_ref_def
  resetSession_def back_to_def move_to_def REF_INTERRUPTIBLE_def

lemma flat_conn: "v_conn (flat_step e s) = or_else (conn_next (v_conn s) (ev_type e)) (v_conn s)"
  by (simp add: flat_step_def Let_def)

lemma flat_ov: "v_ov (flat_step e s) = or_else (ov_next (v_ov s) (s_ctx s) e) (v_ov s)"
  by (simp add: flat_step_def Let_def)

lemma connectivity_frame [simp]:
  "rf_scan (connectivity t r) = rf_scan r" "rf_ctx (connectivity t r) = rf_ctx r"
  "rf_effects (connectivity t r) = rf_effects r"
  by (simp_all add: connectivity_def)

lemma ctx_sim_mirrors [simp]:
  "ctx_sim (c\<lparr>c_conn := x\<rparr>) d = ctx_sim c d" "ctx_sim (c\<lparr>c_ov := y\<rparr>) d = ctx_sim c d"
  "ctx_sim (c\<lparr>c_sc := z\<rparr>) d = ctx_sim c d" "ctx_sim c (d\<lparr>rc_promptReturn := q\<rparr>) = ctx_sim c d"
  by (simp_all add: ctx_sim_def)

subsection \<open>Under the prompt\<close>

lemma ref_prompt_other:
  assumes "rf_scan r = ShowsPrompt" and "ev_type e \<notin> {DISMISS, NEXT_CUSTOMER}"
  shows "ref_send e r = connectivity (ev_type e) r"
  using assms by (simp add: ref_send_def ref_scan_def Let_def)

lemma resume_beneath_step:
  assumes "mirrors s" and "v_ov s = Prompt" and "ev_type e = RESUBSCRIBED"
    and "v_scan s = BlockedOffline \<longrightarrow> gateReturn (s_ctx s) = Some ReadyToSubmit \<or> gateReturn (s_ctx s) = Some UnknownCode"
  shows "(frozen_but_conn s (flat_step e s) Prompt \<and> \<not> (v_scan s = BlockedOffline \<and> v_conn s = Stale))
    \<or> (v_scan s = BlockedOffline \<and> v_conn s = Stale \<and> v_conn (flat_step e s) = Online
       \<and> v_ov (flat_step e s) = Prompt \<and> s_effects (flat_step e s) = s_effects s
       \<and> v_scan (flat_step e s) \<in> {ReadyToSubmit, UnknownCode}
       \<and> gateReturn (s_ctx s) = Some (v_scan (flat_step e s))
       \<and> s_ctx (flat_step e s) = (s_ctx s)\<lparr>c_conn := Online, c_sc := v_scan (flat_step e s)\<rparr>)"
proof (rule flat_step_cases [of e s])
  fix s' c' fx
  assume mv: "scan_move e (s_ctx s) (v_scan s) s' c' fx" and st: "flat_step e s =
         s\<lparr>v_conn := or_else (conn_next (v_conn s) (ev_type e)) (v_conn s),
           v_ov := or_else (ov_next (v_ov s) (s_ctx s) e) (v_ov s),
           v_scan := s',
           s_ctx := c'\<lparr>c_conn := or_else (conn_next (v_conn s) (ev_type e)) (c_conn c'),
                        c_ov := or_else (ov_next (v_ov s) (s_ctx s) e) (c_ov c'), c_sc := s'\<rparr>,
           s_effects := s_effects s @ fx, s_dead := False\<rparr>"
  have ov: "ov_next (v_ov s) (s_ctx s) e = None" using assms by (simp add: ov_next_def)
  from mv have "v_scan s = BlockedOffline \<and> c_conn (s_ctx s) = Stale \<and> gateReturn (s_ctx s) = Some s'
      \<and> s' \<in> {ReadyToSubmit, UnknownCode} \<and> c' = s_ctx s \<and> fx = []"
    by cases (use assms in \<open>auto simp: mirrors_def\<close>)
  then have "v_scan s = BlockedOffline" "v_conn s = Stale" "gateReturn (s_ctx s) = Some s'"
    "s' \<in> {ReadyToSubmit, UnknownCode}" "c' = s_ctx s" "fx = []"
    using assms(1) by (auto simp: mirrors_def)
  with assms(2,3) show ?thesis unfolding st ov by (simp add: conn_next_def)
next
  assume no: "\<nexists>s' c' fx. scan_move e (s_ctx s) (v_scan s) s' c' fx" and st: "flat_step e s =
         s\<lparr>v_conn := or_else (conn_next (v_conn s) (ev_type e)) (v_conn s),
           v_ov := or_else (ov_next (v_ov s) (s_ctx s) e) (v_ov s),
           s_ctx := (s_ctx s)\<lparr>c_conn := or_else (conn_next (v_conn s) (ev_type e)) (c_conn (s_ctx s)),
                              c_ov := or_else (ov_next (v_ov s) (s_ctx s) e) (c_ov (s_ctx s))\<rparr>,
           s_dead := False\<rparr>"
  have ov: "ov_next (v_ov s) (s_ctx s) e = None" using assms by (simp add: ov_next_def)
  have "\<not> (v_scan s = BlockedOffline \<and> v_conn s = Stale)"
  proof
    assume b: "v_scan s = BlockedOffline \<and> v_conn s = Stale"
    then have "\<exists>g. scan_move e (s_ctx s) BlockedOffline g (s_ctx s) []"
      using assms by (auto simp: mirrors_def intro: scan_move.resume)
    with b no show False by auto
  qed
  then show ?thesis unfolding st ov using assms(1,2) by (simp add: frozen_but_conn_def mirrors_def)
qed

lemma next_customer_step:
  assumes "mirrors s" and "park_resets (v_scan s)" and "ev_type e = NEXT_CUSTOMER"
  shows "v_scan (flat_step e s) = Idle \<and> v_ov (flat_step e s) = NoOverlay \<and> v_conn (flat_step e s) = v_conn s
     \<and> s_effects (flat_step e s) = s_effects s
     \<and> s_ctx (flat_step e s) = (RESET_CTX (s_ctx s))\<lparr>c_ov := NoOverlay, c_sc := Idle\<rparr>"
  using assms by (cases "v_conn s"; cases "v_ov s") (simp_all add: run_simps mirrors_def)

lemma ctx_sim_reset: "ctx_sim c d \<Longrightarrow> ctx_sim (RESET_CTX c) (rf_ctx (resetSession (r\<lparr>rf_ctx := d\<rparr>)))"
  by (simp add: ctx_sim_def RESET_CTX_def resetSession_def)

lemma interruptible_ref: "s \<in> set REF_INTERRUPTIBLE \<longleftrightarrow> s \<in> set INTERRUPTIBLE \<and> s \<noteq> UnexpectedEvent"
  by (cases s) (simp_all add: REF_INTERRUPTIBLE_def INTERRUPTIBLE_def)

lemma parks: "s \<in> set REF_INTERRUPTIBLE \<Longrightarrow> park_resets s"
  by (auto simp: REF_INTERRUPTIBLE_def park_resets_def)

lemma sim_next_customer:
  assumes "sim s r" and "ev_type e = NEXT_CUSTOMER" and "park_resets (v_scan s)" and "resettable_ref (rf_scan r)"
  shows "sim (flat_step e s) (ref_send e r)"
proof -
  have m: "mirrors s" "ctx_sim (s_ctx s) (rf_ctx r)" using assms(1) by (auto simp: sim_def)
  have ref: "ref_send e r = resetSession r" using assms(2,4) by (simp add: ref_send_def ref_scan_def connectivity_def)
  have "ctx_sim (RESET_CTX (s_ctx s)) (rf_ctx (resetSession r))"
    using ctx_sim_reset [OF m(2), of r] by simp
  with next_customer_step [OF m(1) assms(3,2)] step_mirrors [OF m(1), of e] assms(1)
  show ?thesis unfolding ref by (simp add: sim_def resetSession_def)
qed

lemma sim_frozen:
  assumes "sim s r" and "v_ov s = Prompt" and "frozen_but_conn s s' Prompt" and "mirrors s'"
    and "v_conn s' = rf_conn r'" and "rf_ctx r' = rf_ctx r" and "rf_scan r' = rf_scan r" and "rf_effects r' = rf_effects r"
    and "v_scan s = BlockedOffline \<Longrightarrow> v_conn s' \<noteq> Online" and "resumed_beneath s r \<Longrightarrow> v_conn s' = Online"
  shows "sim s' r'"
proof -
  have s: "v_scan s \<in> set REF_INTERRUPTIBLE" "rf_scan r = ShowsPrompt" "v_scan s \<noteq> UnexpectedEvent"
    "rc_promptReturn (rf_ctx r) = Some (v_scan s) \<or> resumed_beneath s r" "ctx_sim (s_ctx s) (rf_ctx r)"
    "s_effects s = rf_effects r"
    using assms(1,2) by (auto simp: sim_def)
  have "v_scan s \<noteq> OverrideConfirm" using s(1) by (auto simp: REF_INTERRUPTIBLE_def)
  with s assms(3-10) show ?thesis
    by (auto simp: sim_def frozen_but_conn_def resumed_beneath_def)
qed

lemma sim_dismiss:
  assumes "sim s r" and "v_ov s = Prompt" and "ev_type e = DISMISS"
  shows "sim (flat_step e s) (ref_send e r)"
proof -
  have m: "mirrors s" "v_conn s = rf_conn r" "ctx_sim (s_ctx s) (rf_ctx r)" "s_effects s = rf_effects r"
    "rf_scan r = ShowsPrompt" "rc_promptReturn (rf_ctx r) = Some (v_scan s) \<or> resumed_beneath s r"
    "v_scan s \<noteq> UnexpectedEvent" "v_scan s \<in> {BlockedOffline, OverrideConfirm} \<longrightarrow> v_conn s \<noteq> Online"
    using assms(1,2) by (auto simp: sim_def)
  have cn: "conn_next (v_conn s) DISMISS = None" by (cases "v_conn s") (simp_all add: conn_next_def)
  have g: "flat_step e s = s\<lparr>v_ov := NoOverlay, s_ctx := (s_ctx s)\<lparr>c_ov := NoOverlay\<rparr>, s_dead := False\<rparr>"
  proof (rule flat_step_cases [of e s])
    fix s' c' fx
    assume "scan_move e (s_ctx s) (v_scan s) s' c' fx"
    from move_under_prompt [OF this] assms(2,3) m(1) show ?thesis by (auto simp: mirrors_def)
  qed (use assms m(1) cn in \<open>simp add: ov_next_def\<close>)
  have ref: "ref_send e r = back_to (if rc_promptReturn (rf_ctx r) = Some BlockedOffline \<and> rf_conn r = Online
      then rc_gateReturn (rf_ctx r) else rc_promptReturn (rf_ctx r)) r"
    using assms(3) m(5) by (simp add: ref_send_def ref_scan_def connectivity_def Let_def)
  have "ref_send e r = r\<lparr>rf_scan := Shows (v_scan s)\<rparr>"
    using m(6)
  proof
    assume "rc_promptReturn (rf_ctx r) = Some (v_scan s)"
    then show ?thesis using m(2,8) by (auto simp: ref back_to_def)
  next
    assume rb: "resumed_beneath s r"
    then have "rc_gateReturn (rf_ctx r) = Some (v_scan s)" using m(3) by (simp add: resumed_beneath_def ctx_sim_def)
    with rb show ?thesis using m(2) by (simp add: ref back_to_def resumed_beneath_def)
  qed
  with g m show ?thesis by (simp add: sim_def mirrors_def)
qed

lemma conn_next_online: "conn_next x t = Some Online \<Longrightarrow> t = RESUBSCRIBED \<and> x = Stale"
  by (cases x) (auto simp: conn_next_def split: if_splits)

lemma conn_next_from_online: "conn_next Online t = (if t \<in> {CONN_DOWN, PROBE_TIMEOUT} then Some Offline else None)"
  by (auto simp: conn_next_def)

lemma sim_prompt:
  assumes "sim s r" and "snap_inv co s" and "lockstep_event e" and "\<not> window e s r" and "v_ov s = Prompt"
  shows "sim (flat_step e s) (ref_send e r)"
proof -
  have m: "mirrors s" "v_conn s = rf_conn r" "ctx_sim (s_ctx s) (rf_ctx r)" "s_effects s = rf_effects r"
    "rf_scan r = ShowsPrompt" "v_scan s \<in> set REF_INTERRUPTIBLE"
    using assms(1,5) by (auto simp: sim_def)
  have gr: "v_scan s = BlockedOffline \<longrightarrow> gateReturn (s_ctx s) = Some ReadyToSubmit \<or> gateReturn (s_ctx s) = Some UnknownCode"
    using assms(2) by (simp add: snap_inv_def ctx_inv_def)
  have nb: "v_scan s = BlockedOffline \<Longrightarrow> v_conn s \<noteq> Online" using assms(1) by (auto simp: sim_def)
  have nu: "ev_type e \<noteq> UNEXPECTED" using assms(3) by (auto simp: lockstep_event_def alphabet_event_def alphabet_defs)
  have m': "mirrors (flat_step e s)" using m(1) by (rule step_mirrors)
  have c: "v_conn (flat_step e s) = rf_conn (connectivity (ev_type e) r)" using m(2) by (simp add: flat_conn conn_sim)
  have res: "resumed_beneath s r \<Longrightarrow> v_conn (flat_step e s) = Online"
    using assms(4,5) by (auto simp: window_def resumed_beneath_def flat_conn conn_next_from_online)
  consider (nextc) "ev_type e = NEXT_CUSTOMER" | (dismiss) "ev_type e = DISMISS" | (resub) "ev_type e = RESUBSCRIBED"
    | (other) "ev_type e \<notin> {DISMISS, NEXT_CUSTOMER, RESUBSCRIBED, UNEXPECTED}" using nu by auto
  then show ?thesis
  proof cases
    case nextc
    then show ?thesis using assms(1) m by (intro sim_next_customer) (auto simp: parks resettable_ref_def)
  next
    case dismiss
    then show ?thesis using assms by (intro sim_dismiss) auto
  next
    case resub
    have ref: "ref_send e r = connectivity (ev_type e) r" using ref_prompt_other [OF m(5)] resub by auto
    from resume_beneath_step [OF m(1) assms(5) resub gr] show ?thesis
    proof (elim disjE)
      assume f: "frozen_but_conn s (flat_step e s) Prompt \<and> \<not> (v_scan s = BlockedOffline \<and> v_conn s = Stale)"
      have off: "v_conn (flat_step e s) \<noteq> Online" if "v_scan s = BlockedOffline"
      proof -
        have "v_conn s = Offline" using nb [OF that] f that by (cases "v_conn s") auto
        then show ?thesis using resub by (simp add: flat_conn conn_next_def)
      qed
      show ?thesis unfolding ref
        by (rule sim_frozen [OF assms(1,5) conjunct1 [OF f] m' c _ _ _ off res]) simp_all
    next
      assume f: "v_scan s = BlockedOffline \<and> v_conn s = Stale \<and> v_conn (flat_step e s) = Online
       \<and> v_ov (flat_step e s) = Prompt \<and> s_effects (flat_step e s) = s_effects s
       \<and> v_scan (flat_step e s) \<in> {ReadyToSubmit, UnknownCode}
       \<and> gateReturn (s_ctx s) = Some (v_scan (flat_step e s))
       \<and> s_ctx (flat_step e s) = (s_ctx s)\<lparr>c_conn := Online, c_sc := v_scan (flat_step e s)\<rparr>"
      have pr: "rc_promptReturn (rf_ctx r) = Some BlockedOffline"
        using assms(1,5) f by (auto simp: sim_def resumed_beneath_def)
      have cx: "ctx_sim (s_ctx (flat_step e s)) (rf_ctx r)" "gateReturn (s_ctx (flat_step e s)) = Some (v_scan (flat_step e s))"
        using f m(3) by (simp_all add: ctx_sim_def)
      have v: "v_scan (flat_step e s) = ReadyToSubmit \<or> v_scan (flat_step e s) = UnknownCode" using f by simp
      have w: "v_ov (flat_step e s) = Prompt" "s_effects (flat_step e s) = rf_effects r" "v_conn (flat_step e s) = Online"
        using f m(4) by simp_all
      have on: "rf_conn (connectivity (ev_type e) r) = Online" using c w(3) by simp
      show ?thesis
        unfolding ref using v
        by (elim disjE) (simp_all add: sim_def resumed_beneath_def REF_INTERRUPTIBLE_def m' w cx pr on m(5))
    qed
  next
    case other
    have ref: "ref_send e r = connectivity (ev_type e) r" using ref_prompt_other [OF m(5)] other by auto
    have f: "frozen_but_conn s (flat_step e s) Prompt" using prompt_holds [OF m(1) assms(5) other] .
    have off: "v_conn (flat_step e s) \<noteq> Online" if "v_scan s = BlockedOffline"
      using nb [OF that] other conn_next_online [of "v_conn s" "ev_type e"]
      by (cases "conn_next (v_conn s) (ev_type e)") (auto simp: flat_conn)
    show ?thesis unfolding ref
      by (rule sim_frozen [OF assms(1,5) f m' c _ _ _ off res]) simp_all
  qed
qed


subsection \<open>With no prompt\<close>

lemma connectivity_scan_event:
  "t \<notin> {CONN_DOWN, PROBE_TIMEOUT, CONN_UP, RESUBSCRIBED} \<Longrightarrow> connectivity t r = r"
  by (simp add: connectivity_def)

lemma conn_next_scan_event:
  "t \<notin> {CONN_DOWN, PROBE_TIMEOUT, CONN_UP, RESUBSCRIBED} \<Longrightarrow> conn_next c t = None"
  by (cases c) (auto simp: conn_next_def)

lemma sim_intro:
  assumes "mirrors s'" and "v_ov s' = NoOverlay" and "v_conn s' = rf_conn r'" and "ctx_sim (s_ctx s') (rf_ctx r')"
    and "s_effects s' = rf_effects r'" and "rf_scan r' = Shows (v_scan s')" and "v_scan s' \<noteq> UnexpectedEvent"
    and "v_scan s' \<in> {BlockedOffline, OverrideConfirm} \<longrightarrow> v_conn s' \<noteq> Online"
  shows "sim s' r'"
  using assms by (simp add: sim_def)

text \<open>A move of the scan region and the reference's answer to the same event.\<close>

lemma ref_follows_move:
  assumes "scan_move e c s s' c' fx" and "c_ov c = NoOverlay" and "ev_type e \<noteq> UNEXPECTED" and "s \<noteq> UnexpectedEvent"
    and "rf_conn r = c_conn c" and "ctx_sim c (rf_ctx r)" and "rf_scan r = Shows s"
    and "s \<in> {Idle, Scanning} \<Longrightarrow> sessionCode c = None"
  shows "rf_scan (ref_send e r) = Shows s' \<and> ctx_sim c' (rf_ctx (ref_send e r))
       \<and> rf_effects (ref_send e r) = rf_effects r @ fx
       \<and> rf_conn (ref_send e r) = or_else (conn_next (c_conn c) (ev_type e)) (c_conn c) \<and> s' \<noteq> UnexpectedEvent"
  using assms(1)
proof cases
  case next_customer
  then have "s \<in> set REF_INTERRUPTIBLE" using assms(4) by (cases s) (auto simp: park_resets_def REF_INTERRUPTIBLE_def)
  with next_customer assms show ?thesis
    by (simp add: ref_send_def ref_scan_def resettable_ref_def connectivity_scan_event conn_next_scan_event
        resetSession_def ctx_sim_def RESET_CTX_def)
next
  case verdict
  with assms show ?thesis
    by (cases "ev_type e")
       (simp_all add: ref_send_def ref_scan_def ref_scan_in_def move_to_def connectivity_scan_event conn_next_scan_event)
next
  case submit
  with assms(2-8) show ?thesis
    by (elim disjE) (simp_all add: ref_send_def ref_scan_def ref_scan_in_def move_to_def connectivity_scan_event
        conn_next_scan_event ctx_sim_def Let_def)
next
  case gated
  with assms(2-8) show ?thesis
    by (elim disjE) (simp_all add: ref_send_def ref_scan_def ref_scan_in_def move_to_def connectivity_scan_event
        conn_next_scan_event ctx_sim_def Let_def)
next
  case resume
  moreover have "rc_gateReturn (rf_ctx r) = Some s'" using resume assms(6) by (simp add: ctx_sim_def)
  ultimately show ?thesis using assms(5,6,7)
    by (elim disjE) (simp_all add: ref_send_def ref_scan_def ref_scan_in_def back_to_def connectivity_def
        conn_next_def Let_def)
qed (use assms(2-7) in \<open>simp_all add: ref_send_def ref_scan_def ref_scan_in_def move_to_def connectivity_scan_event
        conn_next_scan_event ctx_sim_def with_kind_def Let_def\<close>)


lemma ref_stays:
  assumes "\<nexists>s' c' fx. scan_move e c s s' c' fx" and "c_ov c = NoOverlay" and "s \<noteq> UnexpectedEvent"
    and "rf_conn r = c_conn c" and "ctx_sim c (rf_ctx r)" and "rf_scan r = Shows s" and "lockstep_event e"
    and "s = BlockedOffline \<longrightarrow> c_conn c \<noteq> Online \<and> (gateReturn c = Some ReadyToSubmit \<or> gateReturn c = Some UnknownCode)"
    and "\<not> (ev_type e = QR_DECODED \<and> sessionCode c \<noteq> None \<and> Some (ev_code e) \<noteq> sessionCode c \<and> s \<in> set INTERRUPTIBLE)"
  shows "ref_send e r = connectivity (ev_type e) r"
proof -
  let ?r = "connectivity (ev_type e) r"
  have nr: "\<not> (ev_type e = NEXT_CUSTOMER \<and> resettable_ref (Shows s))"
    using assms(1) parks [of s] by (auto simp: resettable_ref_def intro: scan_move.next_customer)
  have sess: "rc_sessionCode (rf_ctx r) = sessionCode c" using assms(5) by (simp add: ctx_sim_def)
  have nm: "s = Idle \<Longrightarrow> ev_type e \<noteq> SCAN" "s = Scanning \<Longrightarrow> ev_type e \<noteq> QR_DECODED"
    "s = OfferReady \<Longrightarrow> ev_type e \<noteq> ORDER_OK" "s = ErrorState \<Longrightarrow> ev_type e \<noteq> RETRY"
    "s = OverrideConfirm \<Longrightarrow> ev_type e \<noteq> OVERRIDE_CONFIRM" "s = OverrideConfirm \<Longrightarrow> ev_type e \<noteq> OVERRIDE_CANCEL"
    using assms(1) scan_move.scan [OF _ assms(2)] scan_move.decode [OF _ assms(2)] scan_move.order_ok [OF _ assms(2)]
      scan_move.retry_error [OF _ assms(2)] scan_move.override_confirm [OF _ assms(2)]
      scan_move.override_cancel [OF _ assms(2)] by blast+
  have inn: "ref_scan_in s e ?r = ?r"
  proof (cases s)
    case BlockedOffline
    have no: "\<not> (ev_type e = RESUBSCRIBED \<and> c_conn c = Stale)"
      using assms(1,8) BlockedOffline by (auto intro: scan_move.resume)
    have "\<not> (ev_type e = RESUBSCRIBED \<and> rf_conn ?r = Online)"
      using no assms(4,8) BlockedOffline by (auto simp: connectivity_def)
    moreover have "\<not> (ev_type e = OVERRIDE_REQUEST \<and> rc_overrideAvailable (rf_ctx r))"
      using assms(1,2,5) BlockedOffline by (auto simp: ctx_sim_def intro: scan_move.override_request)
    ultimately show ?thesis using BlockedOffline by (auto simp: ref_scan_in_def Let_def)
  next
    case Resolving
    have k: "ev_kind e \<in> {''offerReady'', ''unknownCode'', ''spentLocally'', ''expiredLocally''}" if "ev_type e = RESOLVED"
      using assms(7) that by (simp add: lockstep_event_def)
    have "\<exists>s' c' fx. scan_move e c Resolving s' c' fx" if r: "ev_type e = RESOLVED"
      using k [OF r] scan_move.resolved_offer [OF r assms(2)] scan_move.resolved_unknown [OF r assms(2)]
        scan_move.resolved_spent_online [OF r assms(2)] scan_move.resolved_spent [OF r assms(2)]
        scan_move.resolved_expired [OF r assms(2)]
      by blast
    then have "ev_type e \<noteq> RESOLVED" using assms(1) Resolving by blast
    with Resolving show ?thesis by (simp add: ref_scan_in_def)
  next
    case ReadyToSubmit
    have "ev_type e \<noteq> SUBMIT" using assms(1,2) ReadyToSubmit
      by (cases "c_conn c = Online") (auto intro: scan_move.submit scan_move.gated)
    with ReadyToSubmit show ?thesis by (simp add: ref_scan_in_def)
  next
    case UnknownCode
    have "ev_type e \<noteq> SUBMIT" using assms(1,2) UnknownCode
      by (cases "c_conn c = Online") (auto intro: scan_move.submit scan_move.gated)
    with UnknownCode show ?thesis by (simp add: ref_scan_in_def)
  next
    case Submitting
    have "verdict_state (ev_type e) = None"
      using assms(1,2) Submitting by (cases "verdict_state (ev_type e)") (auto intro: scan_move.verdict)
    with Submitting show ?thesis by (cases "ev_type e") (simp_all add: ref_scan_in_def)
  qed (use nm assms(3) in \<open>simp_all add: ref_scan_in_def\<close>)
  have "s = Scanning \<Longrightarrow> ev_type e \<noteq> QR_DECODED" using assms(1,2) by (auto intro: scan_move.decode)
  then show ?thesis
    using nr inn assms(6,9) sess assms(3)
    by (auto simp: ref_send_def ref_scan_def Let_def interruptible_ref)
qed

lemma sim_open:
  assumes "sim s r" and "snap_inv co s" and "lockstep_event e" and "\<not> window e s r" and "v_ov s = NoOverlay"
  shows "sim (flat_step e s) (ref_send e r)"
proof -
  have m: "mirrors s" "v_conn s = rf_conn r" "ctx_sim (s_ctx s) (rf_ctx r)" "s_effects s = rf_effects r"
    "rf_scan r = Shows (v_scan s)" "v_scan s \<noteq> UnexpectedEvent"
    "v_scan s \<in> {BlockedOffline, OverrideConfirm} \<longrightarrow> v_conn s \<noteq> Online"
    using assms(1,5) by (auto simp: sim_def)
  have mc: "c_conn (s_ctx s) = v_conn s" "c_ov (s_ctx s) = NoOverlay" "c_sc (s_ctx s) = v_scan s"
    using m(1) assms(5) by (auto simp: mirrors_def)
  have gr: "v_scan s = BlockedOffline \<longrightarrow> gateReturn (s_ctx s) = Some ReadyToSubmit \<or> gateReturn (s_ctx s) = Some UnknownCode"
    using assms(2) by (simp add: snap_inv_def ctx_inv_def)
  have ns: "v_scan s \<in> {Idle, Scanning} \<Longrightarrow> sessionCode (s_ctx s) = None"
    using assms(2) m(6) by (simp add: snap_inv_def ctx_inv_def)
  have nu: "ev_type e \<noteq> UNEXPECTED" using assms(3) by (auto simp: lockstep_event_def alphabet_event_def alphabet_defs)
  have m': "mirrors (flat_step e s)" using m(1) by (rule step_mirrors)
  have c: "v_conn (flat_step e s) = rf_conn (connectivity (ev_type e) r)" using m(2) by (simp add: flat_conn conn_sim)
  show ?thesis
  proof (rule flat_step_cases [of e s])
    fix s' c' fx
    assume mv: "scan_move e (s_ctx s) (v_scan s) s' c' fx" and st: "flat_step e s =
         s\<lparr>v_conn := or_else (conn_next (v_conn s) (ev_type e)) (v_conn s),
           v_ov := or_else (ov_next (v_ov s) (s_ctx s) e) (v_ov s),
           v_scan := s',
           s_ctx := c'\<lparr>c_conn := or_else (conn_next (v_conn s) (ev_type e)) (c_conn c'),
                        c_ov := or_else (ov_next (v_ov s) (s_ctx s) e) (c_ov c'), c_sc := s'\<rparr>,
           s_effects := s_effects s @ fx, s_dead := False\<rparr>"
    have ov: "ov_next (v_ov s) (s_ctx s) e = None"
      using mv by cases (use mc assms(5) in \<open>auto simp: ov_next_def INTERRUPTIBLE_def\<close>)
    have nb: "s' \<in> {BlockedOffline, OverrideConfirm} \<longrightarrow> v_conn (flat_step e s) \<noteq> Online"
      using mv by cases (use mc m(6,7) nu verdict_parked in \<open>auto simp: flat_conn conn_next_scan_event\<close>)
    from ref_follows_move [OF mv mc(2) nu m(6) _ m(3) m(5) ns] m(2) mc(1)
    have "rf_scan (ref_send e r) = Shows s'" "ctx_sim c' (rf_ctx (ref_send e r))"
      "rf_effects (ref_send e r) = rf_effects r @ fx" "s' \<noteq> UnexpectedEvent"
      "rf_conn (ref_send e r) = or_else (conn_next (v_conn s) (ev_type e)) (v_conn s)" by auto
    with m' nb ov assms(5) m(4) show ?thesis
      by (intro sim_intro) (simp_all add: st)
  next
    assume no: "\<nexists>s' c' fx. scan_move e (s_ctx s) (v_scan s) s' c' fx" and st: "flat_step e s =
         s\<lparr>v_conn := or_else (conn_next (v_conn s) (ev_type e)) (v_conn s),
           v_ov := or_else (ov_next (v_ov s) (s_ctx s) e) (v_ov s),
           s_ctx := (s_ctx s)\<lparr>c_conn := or_else (conn_next (v_conn s) (ev_type e)) (c_conn (s_ctx s)),
                              c_ov := or_else (ov_next (v_ov s) (s_ctx s) e) (c_ov (s_ctx s))\<rparr>,
           s_dead := False\<rparr>"
    show ?thesis
    proof (cases "ev_type e = QR_DECODED \<and> sessionCode (s_ctx s) \<noteq> None \<and> Some (ev_code e) \<noteq> sessionCode (s_ctx s)
        \<and> v_scan s \<in> set INTERRUPTIBLE")
      case True
      then have i: "v_scan s \<in> set REF_INTERRUPTIBLE" "v_scan s \<noteq> Scanning"
        using m(6) by (auto simp: interruptible_ref INTERRUPTIBLE_def)
      have "ref_send e r = r\<lparr>rf_ctx := (rf_ctx r)\<lparr>rc_promptReturn := Some (v_scan s)\<rparr>, rf_scan := ShowsPrompt\<rparr>"
        using True i m(3,5) by (simp add: ref_send_def ref_scan_def connectivity_scan_event ctx_sim_def Let_def)
      moreover have "ov_next (v_ov s) (s_ctx s) e = Some Prompt" using True assms(5) mc(3) by (simp add: ov_next_def)
      ultimately show ?thesis
        using m m' i True unfolding st by (simp add: sim_def conn_next_scan_event)
    next
      case False
      have ref: "ref_send e r = connectivity (ev_type e) r"
        by (rule ref_stays [OF no mc(2) m(6) _ m(3) m(5) assms(3)]) (use m mc gr False in auto)
      have ov: "ov_next (v_ov s) (s_ctx s) e = None" using False assms(5) mc(3) by (auto simp: ov_next_def)
      have nb: "v_scan s \<in> {BlockedOffline, OverrideConfirm} \<longrightarrow> v_conn (flat_step e s) \<noteq> Online"
      proof (intro impI notI)
        assume v: "v_scan s \<in> {BlockedOffline, OverrideConfirm}" and on: "v_conn (flat_step e s) = Online"
        then have "ev_type e = RESUBSCRIBED" "v_conn s = Stale"
          using m(7) conn_next_online [of "v_conn s" "ev_type e"]
          by (cases "conn_next (v_conn s) (ev_type e)"; auto simp: flat_conn)+
        with v assms(4) no gr mc show False
          by (auto simp: window_def intro: scan_move.resume)
      qed
      show ?thesis
        using m m' c nb ov assms(5) unfolding ref by (intro sim_intro) (simp_all add: st)
    qed
  qed
qed


subsection \<open>Whole runs\<close>

text \<open>A run stays clear of both windows.\<close>

fun clear_of_windows :: "event list \<Rightarrow> snap \<Rightarrow> refm \<Rightarrow> bool" where
  "clear_of_windows [] s r = True"
| "clear_of_windows (e # es) s r =
     (lockstep_event e \<and> \<not> window e s r \<and> clear_of_windows es (flat_step e s) (ref_send e r))"

lemma sim_step:
  assumes "sim s r" and "snap_inv co s" and "lockstep_event e" and "\<not> window e s r"
  shows "sim (flat_step e s) (ref_send e r)"
  using sim_prompt [OF assms] sim_open [OF assms] by (cases "v_ov s") auto

lemma sim_observe: "sim s r \<Longrightarrow> observe_strict s = observe_ref r"
  by (cases "v_ov s") (auto simp: sim_def observe_strict_def observe_ref_def scan_shown_def flags_def ctx_sim_def)

lemma init_sim: "sim (init_snap co) (ref_init co)"
  by (simp add: sim_def init_snap_def init_ctx_def ref_init_def mirrors_def ctx_sim_def)

lemma lockstep_run:
  assumes "sim s r" and "snap_inv co s" and "alive s" and "clear_of_windows es s r"
  shows "\<exists>s'. send_all m es s = Some s' \<and> alive s' \<and> observe_strict s' = observe_ref (fold ref_send es r)"
  using assms
proof (induction es arbitrary: s r)
  case Nil
  then show ?case by (simp add: sim_observe)
next
  case (Cons e es)
  then have e: "lockstep_event e" "\<not> window e s r" "alphabet_event e" by (auto simp: lockstep_event_def)
  have "snap_inv co (flat_step e s)"
    using Cons.prems(2) e(3) by (intro flat_step_inv) (auto simp: alphabet_event_def alphabet_defs)
  with Cons e sim_step [OF Cons.prems(1,2) e(1,2)] show ?case
    using Cons.IH [of "flat_step e s" "ref_send e r"] by (simp add: alphabet_send)
qed

text \<open>C2: lockstep with the reference machine.\<close>

theorem lockstep:
  assumes "clear_of_windows es (init_snap co) (ref_init co)" and "n \<le> length es"
  shows "\<exists>s. send_all m (take n es) (init_snap co) = Some s \<and> alive s
      \<and> observe_strict s = observe_ref (fold ref_send (take n es) (ref_init co))"
proof -
  have "clear_of_windows (take k xs) s r" if "clear_of_windows xs s r" for k xs s r
    using that by (induction xs arbitrary: k s r) (auto simp: take_Cons split: nat.splits)
  then show ?thesis
    using lockstep_run [OF init_sim init_inv alive_init] assms(1) by blast
qed

theorem lockstep_witness:
  "\<exists>s. send_all ThrowMode (take 7 (up_to_gate @ [decoded ''Y'', ev CONN_UP, ev RESUBSCRIBED, ev DISMISS])) (init_snap True) = Some s
     \<and> observe_strict s = observe_ref (fold ref_send
          (take 7 (up_to_gate @ [decoded ''Y'', ev CONN_UP, ev RESUBSCRIBED, ev DISMISS])) (ref_init True))"
proof -
  have "clear_of_windows (up_to_gate @ [decoded ''Y'', ev CONN_UP, ev RESUBSCRIBED, ev DISMISS]) (init_snap True) (ref_init True)"
    by (simp add: up_to_gate_def lockstep_event_def alphabet_event_def window_def resumed_beneath_def ref_init_def
        ref_defs run_simps alphabet_defs)
  from lockstep [OF this, of 7 ThrowMode] show ?thesis by (auto simp: up_to_gate_def)
qed

text \<open>The two runs that part them.\<close>

definition lost_beneath_prompt :: "event list" where
  "lost_beneath_prompt =
     up_to_gate @ [decoded ''Y'', ev CONN_UP, ev RESUBSCRIBED, ev CONN_DOWN, ev DISMISS]"

text \<open>the strict chart is not the reference in the two windows.\<close>

theorem lockstep_windows_diverge:
  "(\<exists>s. send_all m (cancel_after_return @ [ev RESUBSCRIBED]) (init_snap True) = Some s
        \<and> scan_shown s = Shows BlockedOffline
        \<and> rf_scan (fold ref_send (cancel_after_return @ [ev RESUBSCRIBED]) (ref_init True)) = Shows ReadyToSubmit)
 \<and> (\<exists>s. send_all m lost_beneath_prompt (init_snap True) = Some s
        \<and> scan_shown s = Shows ReadyToSubmit \<and> v_conn s = Offline
        \<and> rf_scan (fold ref_send lost_beneath_prompt (ref_init True)) = Shows BlockedOffline)"
proof
  have r: "rf_scan (fold ref_send (cancel_after_return @ [ev RESUBSCRIBED]) (ref_init True)) = Shows ReadyToSubmit"
    by (simp add: cancel_after_return_def up_to_gate_def ref_init_def ref_defs event_simps)
  have l: "list_all alphabet_event (cancel_after_return @ [ev RESUBSCRIBED])"
    by (simp add: cancel_after_return_def up_to_gate_def alphabet_event_def event_simps alphabet_defs)
  have "fold flat_step (cancel_after_return @ [ev RESUBSCRIBED]) (init_snap True) =
      fold flat_step [ev OVERRIDE_REQUEST, ev CONN_UP, ev RESUBSCRIBED, ev OVERRIDE_CANCEL, ev RESUBSCRIBED] at_gate_snap"
    by (simp add: cancel_after_return_def at_gate_snap_def)
  then have "scan_shown (fold flat_step (cancel_after_return @ [ev RESUBSCRIBED]) (init_snap True)) = Shows BlockedOffline"
    by (simp add: at_gate_snap_eq run_simps scan_shown_def)
  with r alphabet_send_all [OF l alive_init]
  show "\<exists>s. send_all m (cancel_after_return @ [ev RESUBSCRIBED]) (init_snap True) = Some s
        \<and> scan_shown s = Shows BlockedOffline
        \<and> rf_scan (fold ref_send (cancel_after_return @ [ev RESUBSCRIBED]) (ref_init True)) = Shows ReadyToSubmit"
    by blast
next
  have r: "rf_scan (fold ref_send lost_beneath_prompt (ref_init True)) = Shows BlockedOffline"
    by (simp add: lost_beneath_prompt_def up_to_gate_def ref_init_def ref_defs event_simps)
  have l: "list_all alphabet_event lost_beneath_prompt"
    by (simp add: lost_beneath_prompt_def up_to_gate_def alphabet_event_def event_simps alphabet_defs)
  have "fold flat_step lost_beneath_prompt (init_snap True) =
      fold flat_step [decoded ''Y'', ev CONN_UP, ev RESUBSCRIBED, ev CONN_DOWN, ev DISMISS] at_gate_snap"
    by (simp add: lost_beneath_prompt_def at_gate_snap_def)
  then have "scan_shown (fold flat_step lost_beneath_prompt (init_snap True)) = Shows ReadyToSubmit
      \<and> v_conn (fold flat_step lost_beneath_prompt (init_snap True)) = Offline"
    by (simp add: at_gate_snap_eq run_simps scan_shown_def)
  with r alphabet_send_all [OF l alive_init]
  show "\<exists>s. send_all m lost_beneath_prompt (init_snap True) = Some s
        \<and> scan_shown s = Shows ReadyToSubmit \<and> v_conn s = Offline
        \<and> rf_scan (fold ref_send lost_beneath_prompt (ref_init True)) = Shows BlockedOffline"
    by blast
qed

end
