(* ===== verification/JsonValues.thy ===== *)
theory JsonValues
  imports Complex_Main Prelude
begin

text \<open>
  JSON-shaped JavaScript values, the documents the replicated collections hold, and the structural
  equality \<open>valuesEqual\<close> of \<^verbatim>\<open>sync-rxdb/conflict-handler.js\<close>.
  Numbers are finite doubles, hence rationals; an absent field reads as \<open>JUndef\<close>, as in JavaScript.
\<close>

datatype json =
    JUndef | JNull | JBool bool | JNum rat | JStr string
  | JArr "json list" | JObj "(string \<times> json) list"

type_synonym doc = "(string \<times> json) list"

text \<open>\<open>d[k]\<close>, \<open>hasOwnProperty\<close>, \<open>d[k] = v\<close> and \<open>Object.keys\<close> on the insertion-ordered fields.\<close>

definition field :: "doc \<Rightarrow> string \<Rightarrow> json" where
  "field d k = (case map_of d k of None \<Rightarrow> JUndef | Some v \<Rightarrow> v)"

definition has_field :: "doc \<Rightarrow> string \<Rightarrow> bool" where
  "has_field d k = (k \<in> fst ` set d)"

fun set_field :: "doc \<Rightarrow> string \<Rightarrow> json \<Rightarrow> doc" where
  "set_field [] k v = [(k, v)]"
| "set_field ((j, w) # d) k v = (if j = k then (j, v) # d else (j, w) # set_field d k v)"

lemma field_set_field [simp]: "field (set_field d k v) j = (if j = k then v else field d j)"
  by (induction d k v rule: set_field.induct) (auto simp: field_def)

lemma keys_set_field: "fst ` set (set_field d k v) = insert k (fst ` set d)"
  by (induction d k v rule: set_field.induct) auto

lemma distinct_set_field: "distinct (map fst d) \<Longrightarrow> distinct (map fst (set_field d k v))"
proof (induction d k v rule: set_field.induct)
  case (2 j w d k v)
  then show ?case using keys_set_field [of d k v] by auto
qed simp

lemma field_absent: "\<not> has_field d k \<Longrightarrow> field d k = JUndef"
  by (simp add: field_def has_field_def map_of_eq_None_iff split: option.split) (metis domI dom_map_of_conv_image_fst)

section \<open>Structural equality\<close>

text \<open>\<open>a === b\<close> decides the primitives; two arrays compare by position, two objects by key. Identity of
  objects is a shortcut for a comparison that would succeed anyway.\<close>

function (sequential) valuesEqual :: "json \<Rightarrow> json \<Rightarrow> bool" where
  "valuesEqual (JArr xs) (JArr ys) =
     (length xs = length ys \<and> list_all (\<lambda>(x, y). valuesEqual x y) (zip xs ys))"
| "valuesEqual (JObj xs) (JObj ys) =
     (length xs = length ys \<and>
      list_all (\<lambda>(k, v). case map_of ys k of None \<Rightarrow> False | Some w \<Rightarrow> valuesEqual v w) xs)"
| "valuesEqual a b = (a = b)"
  by pat_completeness auto

lemma size_member: "x \<in> set xs \<Longrightarrow> size x < Suc (size_list size xs)"
  by (induction xs) auto

lemma size_value: "(k, v) \<in> set xs \<Longrightarrow> size v < Suc (size_list (size_prod (\<lambda>x. 0) size) xs)"
  by (induction xs) auto

termination valuesEqual
proof (relation "measure (\<lambda>(a, b). size a)", goal_cases)
  case 1
  show ?case by simp
next
  case (2 xs ys z x y)
  then show ?case using size_member [of x xs] by (auto dest: set_zip_leftD)
next
  case (3 xs ys z k v w)
  then show ?case using size_value [of k v xs] by auto
qed

text \<open>What \<open>JSON.parse\<close> and a document store produce: objects with distinct keys.\<close>

fun wf_json :: "json \<Rightarrow> bool" where
  "wf_json (JArr xs) = list_all wf_json xs"
| "wf_json (JObj xs) = (distinct (map fst xs) \<and> list_all (\<lambda>(k, v). wf_json v) xs)"
| "wf_json _ = True"

definition wf_doc :: "doc \<Rightarrow> bool" where
  "wf_doc d = wf_json (JObj d)"

lemma wf_field: "wf_doc d \<Longrightarrow> wf_json (field d k)"
  by (auto simp: wf_doc_def field_def list_all_iff split: option.split dest!: map_of_SomeD)

lemma valuesEqual_refl: "wf_json a \<Longrightarrow> valuesEqual a a"
proof (induction a rule: wf_json.induct)
  case (1 xs)
  then show ?case by (simp add: list_all_length)
next
  case (2 xs)
  have "case map_of xs k of None \<Rightarrow> False | Some w \<Rightarrow> valuesEqual v w" if "(k, v) \<in> set xs" for k v
    using 2 that by (auto simp: list_all_iff)
  then show ?case by (auto simp: list_all_iff)
qed auto

lemma arr_eq_iff:
  "valuesEqual (JArr xs) (JArr ys) \<longleftrightarrow> length xs = length ys \<and> (\<forall>i < length xs. valuesEqual (xs ! i) (ys ! i))"
  by (auto simp: list_all_length)

declare valuesEqual.simps(1) [simp del]

lemma obj_eq_iff:
  assumes "distinct (map fst xs)" and "distinct (map fst ys)"
  shows "valuesEqual (JObj xs) (JObj ys) \<longleftrightarrow>
    fst ` set xs = fst ` set ys \<and> (\<forall>k v w. (k, v) \<in> set xs \<longrightarrow> (k, w) \<in> set ys \<longrightarrow> valuesEqual v w)"
    (is "?L \<longleftrightarrow> ?R")
proof
  assume l: ?L
  have sub: "fst ` set xs \<subseteq> fst ` set ys"
  proof
    fix k assume "k \<in> fst ` set xs"
    then obtain v where "(k, v) \<in> set xs" by auto
    with l have "case map_of ys k of None \<Rightarrow> False | Some w \<Rightarrow> valuesEqual v w" by (auto simp: list_all_iff)
    then have "map_of ys k \<noteq> None" by (auto split: option.splits)
    then show "k \<in> fst ` set ys" by (simp add: map_of_eq_None_iff)
  qed
  have len: "card (fst ` set xs) = card (fst ` set ys)"
    using l assms distinct_card [of "map fst xs"] distinct_card [of "map fst ys"] by simp
  have "fst ` set xs = fst ` set ys" using sub len by (intro card_subset_eq) auto
  moreover have "\<forall>k v w. (k, v) \<in> set xs \<longrightarrow> (k, w) \<in> set ys \<longrightarrow> valuesEqual v w"
    using l assms(2) by (fastforce simp: list_all_iff split: option.splits)
  ultimately show ?R by blast
next
  assume r: ?R
  then have "length xs = length ys"
    using assms distinct_card [of "map fst xs"] distinct_card [of "map fst ys"] by simp
  moreover have "case map_of ys k of None \<Rightarrow> False | Some w \<Rightarrow> valuesEqual v w" if "(k, v) \<in> set xs" for k v
  proof -
    have "k \<in> fst ` set ys" using r that by (metis fst_conv image_eqI)
    then obtain w where "(k, w) \<in> set ys" by auto
    then show ?thesis using r that assms(2) by simp
  qed
  ultimately show ?L by (auto simp: list_all_iff)
qed


lemma obj_eq_sym:
  assumes "distinct (map fst xs)" and "distinct (map fst ys)"
    and "\<And>k v w. (k, v) \<in> set xs \<Longrightarrow> (k, w) \<in> set ys \<Longrightarrow> valuesEqual v w \<Longrightarrow> valuesEqual w v"
    and "valuesEqual (JObj xs) (JObj ys)"
  shows "valuesEqual (JObj ys) (JObj xs)"
  using assms(4) unfolding obj_eq_iff [OF assms(1,2)] obj_eq_iff [OF assms(2,1)] by (blast intro: assms(3))

lemma valuesEqual_sym: "wf_json a \<Longrightarrow> wf_json b \<Longrightarrow> valuesEqual a b \<Longrightarrow> valuesEqual b a"
proof (induction a arbitrary: b rule: wf_json.induct)
  case (1 xs)
  then obtain ys where b: "b = JArr ys" by (cases b) auto
  show ?case
    using "1.prems" "1.IH" unfolding b by (simp add: arr_eq_iff list_all_length)
next
  case (2 xs)
  then obtain ys where b: "b = JObj ys" by (cases b) auto
  have d: "distinct (map fst xs)" "distinct (map fst ys)" using "2.prems" b by auto
  have "valuesEqual w v" if "(k, v) \<in> set xs" "(k, w) \<in> set ys" "valuesEqual v w" for k v w
  proof -
    have "wf_json v" "wf_json w" using "2.prems"(1,2) that(1,2) by (auto simp: b list_all_iff)
    then show ?thesis using "2.IH" [OF that(1) refl] that(3) by blast
  qed
  with "2.prems"(3) show ?case unfolding b by (intro obj_eq_sym [OF d]) auto
next
  case "3_1" then show ?case by (cases b) simp_all
next
  case "3_2" then show ?case by (cases b) simp_all
next
  case "3_3" then show ?case by (cases b) simp_all
next
  case "3_4" then show ?case by (cases b) simp_all
next
  case "3_5" then show ?case by (cases b) simp_all
qed

lemma valuesEqual_trans:
  "wf_json a \<Longrightarrow> wf_json b \<Longrightarrow> wf_json c \<Longrightarrow> valuesEqual a b \<Longrightarrow> valuesEqual b c \<Longrightarrow> valuesEqual a c"
proof (induction a arbitrary: b c rule: wf_json.induct)
  case (1 xs)
  then obtain ys where b: "b = JArr ys" by (cases b) auto
  with 1 obtain zs where c: "c = JArr zs" by (cases c) auto
  have "valuesEqual (xs ! i) (zs ! i)" if "i < length xs" for i
  proof -
    have "wf_json (xs ! i)" "wf_json (ys ! i)" "wf_json (zs ! i)"
      "valuesEqual (xs ! i) (ys ! i)" "valuesEqual (ys ! i) (zs ! i)" "xs ! i \<in> set xs"
      using "1.prems" that unfolding b c by (simp_all add: arr_eq_iff list_all_length)
    then show ?thesis using "1.IH" by blast
  qed
  then show ?case using "1.prems" unfolding b c by (simp add: arr_eq_iff)
next
  case (2 xs)
  then obtain ys where b: "b = JObj ys" by (cases b) auto
  with 2 obtain zs where c: "c = JObj zs" by (cases c) auto
  have d: "distinct (map fst xs)" "distinct (map fst ys)" "distinct (map fst zs)" using "2.prems" b c by auto
  have xy: "fst ` set xs = fst ` set ys" "\<And>k v w. (k, v) \<in> set xs \<Longrightarrow> (k, w) \<in> set ys \<Longrightarrow> valuesEqual v w"
    using "2.prems"(4) unfolding b obj_eq_iff [OF d(1,2)] by auto
  have yz: "fst ` set ys = fst ` set zs" "\<And>k v w. (k, v) \<in> set ys \<Longrightarrow> (k, w) \<in> set zs \<Longrightarrow> valuesEqual v w"
    using "2.prems"(5) unfolding b c obj_eq_iff [OF d(2,3)] by auto
  have "valuesEqual v w" if "(k, v) \<in> set xs" "(k, w) \<in> set zs" for k v w
  proof -
    have "k \<in> fst ` set ys" using xy(1) that(1) by (metis fst_conv image_eqI)
    then obtain u where u: "(k, u) \<in> set ys" by auto
    have "wf_json v" "wf_json u" "wf_json w" using "2.prems"(1-3) that u b c by (auto simp: list_all_iff)
    then show ?thesis by (rule "2.IH" [OF that(1) refl _ _ _ xy(2) [OF that(1) u] yz(2) [OF u that(2)]])
  qed
  then have "\<forall>k v w. (k, v) \<in> set xs \<longrightarrow> (k, w) \<in> set zs \<longrightarrow> valuesEqual v w" by simp
  then show ?case unfolding c obj_eq_iff [OF d(1,3)] by (rule conjI [OF trans [OF xy(1) yz(1)]])
next
  case "3_1" then show ?case by (cases b; cases c) simp_all
next
  case "3_2" then show ?case by (cases b; cases c) simp_all
next
  case "3_3" then show ?case by (cases b; cases c) simp_all
next
  case "3_4" then show ?case by (cases b; cases c) simp_all
next
  case "3_5" then show ?case by (cases b; cases c) simp_all
qed

end
