(* ===== verification/ConflictHandler.thy ===== *)
theory ConflictHandler
  imports Complex_Main JsonValues
begin

text \<open>
  \<^verbatim>\<open>sync-rxdb/conflict-handler.js\<close>: the field-level three-way merge. A document is the insertion-ordered
  list of its fields, a thrown \<open>Error\<close> the left side of a sum. The options object keeps JavaScript's
  "left out" as \<open>None\<close>; a state of the input that is missing is \<open>None\<close> too.
\<close>

section \<open>Data\<close>

definition RESERVED_FIELDS :: "string list" where
  "RESERVED_FIELDS = [''_rev'', ''_meta'', ''_attachments'', ''_modified'']"

definition PROVENANCE_FIELDS :: "string list" where
  "PROVENANCE_FIELDS =
     [''updated_by'', ''updated_at'', ''answered_by'', ''answered_at'', ''rejected_by'', ''rejected_at'']"

definition PROVENANCE_PAIRS :: "(string \<times> string) list" where
  "PROVENANCE_PAIRS =
     [(''answered_by'', ''answered_at''), (''rejected_by'', ''rejected_at''), (''updated_by'', ''updated_at'')]"

record merge_opts =
  reservedFields :: "string list option"
  provenanceFields :: "string list option"
  isValueEqual :: "(json \<Rightarrow> json \<Rightarrow> bool) option"
  primaryPath :: "string option"

definition no_opts :: merge_opts where
  "no_opts = \<lparr>reservedFields = None, provenanceFields = None, isValueEqual = None, primaryPath = None\<rparr>"

text \<open>The destructuring defaults of \<open>resolveConflict\<close>.\<close>

definition reserved_of :: "merge_opts \<Rightarrow> string list" where
  "reserved_of opts = (case reservedFields opts of None \<Rightarrow> RESERVED_FIELDS | Some r \<Rightarrow> r)"

definition provenance_of :: "merge_opts \<Rightarrow> string list" where
  "provenance_of opts = (case provenanceFields opts of None \<Rightarrow> PROVENANCE_FIELDS | Some p \<Rightarrow> p)"

definition equality_of :: "merge_opts \<Rightarrow> json \<Rightarrow> json \<Rightarrow> bool" where
  "equality_of opts = (case isValueEqual opts of None \<Rightarrow> valuesEqual | Some e \<Rightarrow> e)"

record conflict_input =
  assumedMasterState :: "doc option"
  newDocumentState :: "doc option"
  realMasterState :: "doc option"

datatype baseline = Assumed_Master | Absent

record clash =
  clash_field :: string
  discarded :: json
  winner :: json

record resolution =
  document :: doc
  clashes :: "clash list"
  baseline :: baseline

datatype handler_error = RealMasterState_Required

section \<open>The merge\<close>

text \<open>The keys of a JavaScript \<open>Set\<close> stay in the order they were first added.\<close>

definition add_key :: "string list \<Rightarrow> string list \<Rightarrow> string \<Rightarrow> string list" where
  "add_key reserved keys k = (if k \<in> set reserved \<or> k \<in> set keys then keys else keys @ [k])"

definition mergeableFields :: "doc option list \<Rightarrow> string list \<Rightarrow> string list" where
  "mergeableFields states reserved =
     foldl (\<lambda>keys s. case s of None \<Rightarrow> keys | Some d \<Rightarrow> foldl (add_key reserved) keys (map fst d)) [] states"

text \<open>One turn of the loop over the mergeable fields.\<close>

definition mergeField ::
  "merge_opts \<Rightarrow> doc option \<Rightarrow> doc \<Rightarrow> doc \<Rightarrow> doc \<times> clash list \<Rightarrow> string \<Rightarrow> doc \<times> clash list" where
  "mergeField opts assumed fork master st k =
     (let f = field fork k; m = field master k; eq = equality_of opts; (dc, cs) = st;
          recorded = (if k \<in> set (provenance_of opts) then cs
                      else cs @ [\<lparr>clash_field = k, discarded = f, winner = m\<rparr>])
      in if eq f m then (dc, cs)
         else case assumed of
           None \<Rightarrow> (dc, recorded)
         | Some ad \<Rightarrow>
             (let a = field ad k; forkChanged = (\<not> eq f a); masterChanged = (\<not> eq m a)
              in if forkChanged \<and> \<not> masterChanged then (set_field dc k f, cs)
                 else if \<not> forkChanged \<and> masterChanged then (dc, cs)
                 else if forkChanged \<and> masterChanged then (dc, recorded)
                 else (dc, cs)))"

definition resolveConflict :: "conflict_input \<Rightarrow> merge_opts \<Rightarrow> handler_error + resolution" where
  "resolveConflict inp opts =
     (let assumed = assumedMasterState inp;
          fork = (case newDocumentState inp of None \<Rightarrow> [] | Some d \<Rightarrow> d)
      in case realMasterState inp of
           None \<Rightarrow> Inl RealMasterState_Required
         | Some master \<Rightarrow>
             (let (dc, cs) = foldl (mergeField opts assumed fork master) (master, [])
                               (mergeableFields [assumed, Some fork, Some master] (reserved_of opts))
              in Inr \<lparr>document = dc, clashes = cs,
                      baseline = (if assumed = None then Absent else Assumed_Master)\<rparr>))"

section \<open>The adapter handed to \<open>addCollections\<close>\<close>

text \<open>\<open>onClash\<close> is any callback: it acts on a state of its own and may throw (the flag).\<close>

record notice =
  notice_id :: json
  notice_baseline :: baseline
  notice_clash :: clash

type_synonym 's on_clash = "'s \<Rightarrow> notice \<Rightarrow> 's \<times> bool"

definition path_of :: "merge_opts \<Rightarrow> string" where
  "path_of opts = (case primaryPath opts of None \<Rightarrow> ''id'' | Some p \<Rightarrow> if p = [] then ''id'' else p)"

definition documentId :: "doc option \<Rightarrow> merge_opts \<Rightarrow> json" where
  "documentId d opts = (case d of None \<Rightarrow> JUndef | Some dc \<Rightarrow> field dc (path_of opts))"

text \<open>The \<open>try\<close>/\<open>catch\<close> around each call: a throwing callback costs one console warning.\<close>

definition call_onClash :: "'s on_clash \<Rightarrow> 's \<times> notice list \<Rightarrow> notice \<Rightarrow> 's \<times> notice list" where
  "call_onClash onClash sw n =
     (let (s, warned) = sw; (s', threw) = onClash s n in (s', if threw then warned @ [n] else warned))"

definition notices :: "merge_opts \<Rightarrow> conflict_input \<Rightarrow> resolution \<Rightarrow> notice list" where
  "notices opts inp r =
     map (\<lambda>c. \<lparr>notice_id = documentId (newDocumentState inp) opts, notice_baseline = baseline r, notice_clash = c\<rparr>)
       (clashes r)"

definition handler_resolve ::
  "'s on_clash option \<Rightarrow> merge_opts \<Rightarrow> conflict_input \<Rightarrow> 's \<Rightarrow> handler_error + (doc \<times> 's \<times> notice list)" where
  "handler_resolve onClash mergeOpts inp s =
     (case resolveConflict inp mergeOpts of
        Inl e \<Rightarrow> Inl e
      | Inr r \<Rightarrow>
          (case onClash of
             None \<Rightarrow> Inr (document r, s, [])
           | Some cb \<Rightarrow>
               if clashes r = [] then Inr (document r, s, [])
               else Inr (document r, foldl (call_onClash cb) (s, []) (notices mergeOpts inp r))))"

record 's hq_handler =
  mergeOpts :: merge_opts
  isEqual :: "doc \<Rightarrow> doc \<Rightarrow> bool"
  resolve :: "conflict_input \<Rightarrow> 's \<Rightarrow> handler_error + (doc \<times> 's \<times> notice list)"

definition createHQConflictHandler ::
  "(doc \<Rightarrow> doc \<Rightarrow> bool) option \<Rightarrow> 's on_clash option \<Rightarrow> merge_opts \<Rightarrow> 's hq_handler" where
  "createHQConflictHandler eq onClash opts =
     \<lparr>mergeOpts = opts,
      isEqual = (case eq of None \<Rightarrow> (\<lambda>a b. valuesEqual (JObj a) (JObj b)) | Some e \<Rightarrow> e),
      resolve = handler_resolve onClash opts\<rparr>"

definition conflictOptsOf :: "'s hq_handler option \<Rightarrow> merge_opts" where
  "conflictOptsOf h = (case h of None \<Rightarrow> no_opts | Some hh \<Rightarrow> mergeOpts hh)"

section \<open>One \<open>conflict$\<close> emission as a row set\<close>

fun truthy :: "json \<Rightarrow> bool" where
  "truthy JUndef = False"
| "truthy JNull = False"
| "truthy (JBool b) = b"
| "truthy (JNum x) = (x \<noteq> 0)"
| "truthy (JStr s) = (s \<noteq> [])"
| "truthy (JArr _) = True"
| "truthy (JObj _) = True"

definition js_or :: "json \<Rightarrow> json \<Rightarrow> json" where
  "js_or a b = (if truthy a then a else b)"

definition or_null :: "json \<Rightarrow> json" where
  "or_null v = (if v = JUndef then JNull else v)"

fun winner_of :: "doc \<Rightarrow> (string \<times> string) list \<Rightarrow> json \<times> json" where
  "winner_of master [] = (JNull, JNull)"
| "winner_of master ((actorKey, atKey) # ps) =
     (if has_field master actorKey then (or_null (field master actorKey), or_null (field master atKey))
      else winner_of master ps)"

record conflict_row =
  row_id :: json
  row_baseline :: baseline
  row_clashes :: "clash list"
  winnerActor :: json
  winnerAt :: json
  row_assumed :: "doc option"
  row_fork :: "doc option"
  row_master :: doc

definition describeConflict :: "conflict_input option \<Rightarrow> merge_opts \<Rightarrow> handler_error + conflict_row" where
  "describeConflict emission opts =
     (let inp = (case emission of
                   None \<Rightarrow> \<lparr>assumedMasterState = None, newDocumentState = None, realMasterState = None\<rparr>
                 | Some i \<Rightarrow> i);
          master = (case realMasterState inp of None \<Rightarrow> [] | Some m \<Rightarrow> m)
      in case resolveConflict inp opts of
           Inl e \<Rightarrow> Inl e
         | Inr r \<Rightarrow>
             (let (actor, time) = winner_of master PROVENANCE_PAIRS
              in Inr \<lparr>row_id = js_or (documentId (newDocumentState inp) opts) (documentId (Some master) opts),
                      row_baseline = baseline r, row_clashes = clashes r,
                      winnerActor = actor, winnerAt = time,
                      row_assumed = assumedMasterState inp, row_fork = newDocumentState inp, row_master = master\<rparr>))"

end
