(* ===== verification/ConflictSpec.thy ===== *)
theory ConflictSpec
  imports Complex_Main ConflictHandler
begin

text \<open>
  What the merge promises, field by field (the table in the header of the file), and the refinement: the
  loop of \<open>resolveConflict\<close> computes exactly that table. The laws a value equality must obey are a locale,
  discharged for \<open>valuesEqual\<close> on well-formed JSON.
\<close>

section \<open>The table of the header\<close>

datatype verdict = Master_Stands | Fork_Survives | Same_Field_Clash

definition verdict_of :: "(json \<Rightarrow> json \<Rightarrow> bool) \<Rightarrow> json option \<Rightarrow> json \<Rightarrow> json \<Rightarrow> verdict" where
  "verdict_of eq base f m =
     (if eq f m then Master_Stands
      else case base of
        None \<Rightarrow> Same_Field_Clash
      | Some a \<Rightarrow> if eq f a then Master_Stands else if eq m a then Fork_Survives else Same_Field_Clash)"

definition field_verdict :: "merge_opts \<Rightarrow> doc option \<Rightarrow> doc \<Rightarrow> doc \<Rightarrow> string \<Rightarrow> verdict" where
  "field_verdict opts assumed fork master k =
     verdict_of (equality_of opts) (map_option (\<lambda>a. field a k) assumed) (field fork k) (field master k)"

definition reported :: "merge_opts \<Rightarrow> doc option \<Rightarrow> doc \<Rightarrow> doc \<Rightarrow> string \<Rightarrow> bool" where
  "reported opts assumed fork master k =
     (field_verdict opts assumed fork master k = Same_Field_Clash \<and> k \<notin> set (provenance_of opts))"

section \<open>The fields the loop visits\<close>

lemma add_keys_set: "set (foldl (add_key res) ks ds) = set ks \<union> (set ds - set res)"
  by (induction ds arbitrary: ks) (auto simp: add_key_def)

lemma add_keys_distinct: "distinct ks \<Longrightarrow> distinct (foldl (add_key res) ks ds)"
  by (induction ds arbitrary: ks) (auto simp: add_key_def)

lemma mergeable_fold_set:
  "set (foldl (\<lambda>ks s. case s of None \<Rightarrow> ks | Some d \<Rightarrow> foldl (add_key res) ks (map fst d)) ks states) =
     set ks \<union> ((\<Union>d\<in>{d. Some d \<in> set states}. fst ` set d) - set res)"
proof (induction states arbitrary: ks)
  case (Cons s states)
  show ?case
  proof (cases s)
    case (Some d)
    have "{e. Some e \<in> set (s # states)} = insert d {e. Some e \<in> set states}" using Some by auto
    then show ?thesis using Some by (simp only: foldl_Cons Cons.IH) (auto simp: add_keys_set)
  qed (use Cons.IH in auto)
qed simp

lemma mergeable_set:
  "k \<in> set (mergeableFields states res) \<longleftrightarrow> k \<notin> set res \<and> (\<exists>d. Some d \<in> set states \<and> has_field d k)"
  unfolding mergeableFields_def mergeable_fold_set has_field_def by auto

lemma mergeable_distinct: "distinct (mergeableFields states res)"
proof -
  have "distinct ks \<Longrightarrow>
      distinct (foldl (\<lambda>ks s. case s of None \<Rightarrow> ks | Some d \<Rightarrow> foldl (add_key res) ks (map fst d)) ks states)" for ks
    by (induction states arbitrary: ks) (auto simp: add_keys_distinct split: option.split)
  then show ?thesis unfolding mergeableFields_def by simp
qed

section \<open>The loop computes the table\<close>

lemma mergeField_eq:
  "mergeField opts assumed fork master (dc, cs) k =
     (if field_verdict opts assumed fork master k = Fork_Survives then set_field dc k (field fork k) else dc,
      if reported opts assumed fork master k
      then cs @ [\<lparr>clash_field = k, discarded = field fork k, winner = field master k\<rparr>] else cs)"
  by (auto simp: mergeField_def reported_def field_verdict_def verdict_of_def Let_def split: option.split)

definition resolved_fields :: "merge_opts \<Rightarrow> doc option \<Rightarrow> doc \<Rightarrow> doc \<Rightarrow> string list \<Rightarrow> string set" where
  "resolved_fields opts assumed fork master ks =
     {k \<in> set ks. field_verdict opts assumed fork master k = Fork_Survives}"

lemma merge_fold:
  "field (fst (foldl (mergeField opts assumed fork master) (dc, cs) ks)) j =
     (if j \<in> resolved_fields opts assumed fork master ks then field fork j else field dc j)"
  "snd (foldl (mergeField opts assumed fork master) (dc, cs) ks) =
     cs @ map (\<lambda>k. \<lparr>clash_field = k, discarded = field fork k, winner = field master k\<rparr>)
            (filter (reported opts assumed fork master) ks)"
  by (induction ks arbitrary: dc cs) (auto simp: mergeField_eq resolved_fields_def)

abbreviation fork_doc :: "conflict_input \<Rightarrow> doc" where
  "fork_doc inp \<equiv> (case newDocumentState inp of None \<Rightarrow> [] | Some d \<Rightarrow> d)"

definition merge_fields :: "conflict_input \<Rightarrow> merge_opts \<Rightarrow> doc \<Rightarrow> string list" where
  "merge_fields inp opts master =
     mergeableFields [assumedMasterState inp, Some (fork_doc inp), Some master] (reserved_of opts)"

lemma merge_fields_set:
  "k \<in> set (merge_fields inp opts master) \<longleftrightarrow> k \<notin> set (reserved_of opts) \<and>
     ((\<exists>a. assumedMasterState inp = Some a \<and> has_field a k) \<or> has_field (fork_doc inp) k \<or> has_field master k)"
proof -
  have "(\<exists>d. Some d \<in> {a, Some f, Some m} \<and> P d) \<longleftrightarrow> (\<exists>d. a = Some d \<and> P d) \<or> P f \<or> P m"
    for a and f m :: doc and P by auto
  then show ?thesis by (simp add: merge_fields_def mergeable_set)
qed

lemma resolve_fold:
  assumes "realMasterState inp = Some master"
  shows "resolveConflict inp opts =
    Inr (let st = foldl (mergeField opts (assumedMasterState inp) (fork_doc inp) master) (master, [])
                    (merge_fields inp opts master)
         in \<lparr>document = fst st, clashes = snd st,
             baseline = (if assumedMasterState inp = None then Absent else Assumed_Master)\<rparr>)"
  using assms by (simp add: resolveConflict_def merge_fields_def Let_def case_prod_beta)

lemma resolve_document:
  assumes "realMasterState inp = Some master" and "resolveConflict inp opts = Inr r"
  shows "field (document r) k =
    (if k \<notin> set (reserved_of opts) \<and>
        field_verdict opts (assumedMasterState inp) (fork_doc inp) master k = Fork_Survives
     then field (fork_doc inp) k else field master k)"
proof -
  have "field (fork_doc inp) k = field master k" if "k \<notin> set (merge_fields inp opts master)" "k \<notin> set (reserved_of opts)"
    using that by (simp add: merge_fields_set field_absent)
  then show ?thesis
    using assms(2) unfolding resolve_fold [OF assms(1)]
    by (auto simp: Let_def merge_fold(1) [where cs = "[]"] resolved_fields_def merge_fields_set)
qed

lemma resolve_clashes:
  assumes "realMasterState inp = Some master" and "resolveConflict inp opts = Inr r"
  shows "clashes r =
      map (\<lambda>k. \<lparr>clash_field = k, discarded = field (fork_doc inp) k, winner = field master k\<rparr>)
        (filter (reported opts (assumedMasterState inp) (fork_doc inp) master) (merge_fields inp opts master))"
  using assms(2) unfolding resolve_fold [OF assms(1)] by (auto simp: Let_def merge_fold(2))

lemma resolve_baseline:
  assumes "resolveConflict inp opts = Inr r"
  shows "baseline r = (if assumedMasterState inp = None then Absent else Assumed_Master)"
  using assms by (cases "realMasterState inp") (auto simp: resolveConflict_def case_prod_beta Let_def)

lemma resolve_total: "resolveConflict inp opts = Inl RealMasterState_Required \<longleftrightarrow> realMasterState inp = None"
  by (cases "realMasterState inp") (auto simp: resolveConflict_def case_prod_beta Let_def)

section \<open>The laws of a value equality\<close>

locale value_equality =
  fixes eq :: "json \<Rightarrow> json \<Rightarrow> bool" and carrier :: "json \<Rightarrow> bool"
  assumes refl: "carrier a \<Longrightarrow> eq a a"
    and sym: "carrier a \<Longrightarrow> carrier b \<Longrightarrow> eq a b \<Longrightarrow> eq b a"
    and trans: "carrier a \<Longrightarrow> carrier b \<Longrightarrow> carrier c \<Longrightarrow> eq a b \<Longrightarrow> eq b c \<Longrightarrow> eq a c"
begin

text \<open>The comment at the end of the loop: "neither changed" cannot be reached past the first guard.\<close>

lemma no_third_case:
  "carrier a \<Longrightarrow> carrier f \<Longrightarrow> carrier m \<Longrightarrow> \<not> eq f m \<Longrightarrow> \<not> eq f a \<or> \<not> eq m a"
  using sym trans by blast

lemma fork_survives_iff:
  "carrier a \<Longrightarrow> carrier f \<Longrightarrow> carrier m \<Longrightarrow>
     verdict_of eq (Some a) f m = Fork_Survives \<longleftrightarrow> \<not> eq f a \<and> eq m a"
  by (auto simp: verdict_of_def dest: trans sym)

lemma clash_iff:
  "verdict_of eq (Some a) f m = Same_Field_Clash \<longleftrightarrow> \<not> eq f a \<and> \<not> eq m a \<and> \<not> eq f m"
  by (auto simp: verdict_of_def)

text \<open>Judged again against the master it was merged with, no field moves.\<close>

lemma settled:
  "carrier f \<Longrightarrow> carrier m \<Longrightarrow>
     verdict_of eq (Some m) f m = (if eq f m then Master_Stands else Fork_Survives)"
  by (simp add: verdict_of_def refl)

end

interpretation json_eq: value_equality valuesEqual wf_json
  by unfold_locales (auto intro: valuesEqual_refl valuesEqual_sym valuesEqual_trans)

end
