(* ===== verification/ConflictProps.thy ===== *)
theory ConflictProps
  imports Complex_Main ConflictSpec
begin

text \<open>
  The properties of the conflict handler: the field rule, what may and may not be lost, the fallback without a
  baseline, stability under re-resolution, isolation of the notice callback, and the agreement of the row set
  with the handler. A running example (the input of \<open>demo\<close>) serves the witnesses.
\<close>

section \<open>The example\<close>

definition demo_assumed :: doc where
  "demo_assumed = [(''id'', JStr ''r1''), (''name'', JStr ''Fryer''), (''note'', JStr ''ok''), (''_deleted'', JBool False)]"

definition demo_fork :: doc where
  "demo_fork = [(''id'', JStr ''r1''), (''name'', JStr ''Fryer 2''), (''note'', JStr ''dirty''), (''_deleted'', JBool False)]"

definition demo_master :: doc where
  "demo_master = [(''id'', JStr ''r1''), (''name'', JStr ''Fryer''), (''note'', JStr ''clean''), (''_deleted'', JBool False),
     (''updated_by'', JStr ''dana'')]"

definition demo :: conflict_input where
  "demo = \<lparr>assumedMasterState = Some demo_assumed, newDocumentState = Some demo_fork, realMasterState = Some demo_master\<rparr>"

definition note_clash :: clash where
  "note_clash = \<lparr>clash_field = ''note'', discarded = JStr ''dirty'', winner = JStr ''clean''\<rparr>"

definition demo_result :: resolution where
  "demo_result =
     \<lparr>document = [(''id'', JStr ''r1''), (''name'', JStr ''Fryer 2''), (''note'', JStr ''clean''), (''_deleted'', JBool False),
        (''updated_by'', JStr ''dana'')],
      clashes = [note_clash], baseline = Assumed_Master\<rparr>"

lemmas demo_docs = demo_assumed_def demo_fork_def demo_master_def

lemmas demo_eval = demo_def demo_docs demo_result_def note_clash_def resolveConflict_def mergeField_def
  mergeableFields_def add_key_def reserved_of_def provenance_of_def equality_of_def no_opts_def
  RESERVED_FIELDS_def PROVENANCE_FIELDS_def set_field.simps field_def Let_def

lemma demo_wf: "wf_doc demo_assumed" "wf_doc demo_fork" "wf_doc demo_master"
  by (simp_all add: demo_docs wf_doc_def)

lemma demo_resolves: "resolveConflict demo no_opts = Inr demo_result"
  by (simp add: demo_eval)

lemma demo_parts:
  "assumedMasterState demo = Some demo_assumed" "newDocumentState demo = Some demo_fork" "realMasterState demo = Some demo_master"
  by (simp_all add: demo_def)

section \<open>With a baseline\<close>

lemma no_opts_simps [simp]:
  "reserved_of no_opts = RESERVED_FIELDS" "provenance_of no_opts = PROVENANCE_FIELDS" "equality_of no_opts = valuesEqual"
  by (simp_all add: reserved_of_def provenance_of_def equality_of_def no_opts_def)

lemma verdict_baseline:
  assumes "wf_doc a" "wf_doc f" "wf_doc m"
  shows "field_verdict no_opts (Some a) f m k = Fork_Survives \<longleftrightarrow>
    \<not> valuesEqual (field f k) (field a k) \<and> valuesEqual (field m k) (field a k)"
  unfolding field_verdict_def using assms by (simp add: json_eq.fork_survives_iff wf_field)

text \<open>C25: with a baseline, a field the reserved list does not name holds the fork's value exactly when the fork alone changed it, and master's value in every other case.\<close>
theorem merge_field_rule:
  assumes "inp = \<lparr>assumedMasterState = Some a, newDocumentState = Some f, realMasterState = Some m\<rparr>"
    and "wf_doc a" "wf_doc f" "wf_doc m" and "resolveConflict inp no_opts = Inr r"
  shows "field (document r) k =
    (if k \<notin> set RESERVED_FIELDS \<and> \<not> valuesEqual (field f k) (field a k) \<and> valuesEqual (field m k) (field a k)
     then field f k else field m k)"
  using resolve_document [OF _ assms(5)] verdict_baseline [OF assms(2-4)] by (simp add: assms(1))

theorem merge_field_rule_witness:
  "field (document demo_result) ''name'' = JStr ''Fryer 2'' \<and> field (document demo_result) ''note'' = JStr ''clean''"
  using merge_field_rule [OF demo_def demo_wf demo_resolves, of "''name''"]
    merge_field_rule [OF demo_def demo_wf demo_resolves, of "''note''"]
  by (simp add: demo_docs field_def RESERVED_FIELDS_def)

text \<open>The two ways a fork's edit ends.\<close>

lemma fork_edit_kept_or_reported:
  assumes "inp = \<lparr>assumedMasterState = Some a, newDocumentState = Some f, realMasterState = Some m\<rparr>"
    and "wf_doc a" "wf_doc f" "wf_doc m" and "resolveConflict inp no_opts = Inr r"
    and "\<not> valuesEqual (field f k) (field a k)" and "k \<notin> set RESERVED_FIELDS" and "k \<notin> set PROVENANCE_FIELDS"
  shows "valuesEqual (field (document r) k) (field f k) \<or>
    \<lparr>clash_field = k, discarded = field f k, winner = field (document r) k\<rparr> \<in> set (clashes r)"
proof -
  let ?v = "field_verdict no_opts (Some a) f m k"
  have wf: "wf_json (field f k)" "wf_json (field m k)" "wf_json (field a k)" using assms(2-4) by (simp_all add: wf_field)
  have d: "field (document r) k = (if ?v = Fork_Survives then field f k else field m k)"
    using resolve_document [OF _ assms(5)] assms(7) by (simp add: assms(1))
  have "valuesEqual (field f k) (field m k) \<or> ?v = Fork_Survives \<or> ?v = Same_Field_Clash"
    using assms(6) by (simp add: field_verdict_def verdict_of_def)
  then consider "valuesEqual (field f k) (field m k)" | "?v = Fork_Survives" | "?v = Same_Field_Clash" by blast
  then show ?thesis
  proof cases
    case 1
    then show ?thesis unfolding d using wf by (auto intro: json_eq.sym json_eq.refl)
  next
    case 2
    then show ?thesis unfolding d using wf by (auto intro: json_eq.refl)
  next
    case 3
    have "k \<in> set (merge_fields inp no_opts m)"
    proof (rule ccontr)
      assume "k \<notin> set (merge_fields inp no_opts m)"
      then have "field f k = field a k" using assms(7) by (simp add: merge_fields_set assms(1) field_absent)
      then show False using assms(6) wf by (simp add: json_eq.refl)
    qed
    then show ?thesis
      unfolding d using 3 assms(8) resolve_clashes [OF _ assms(5), of m] by (simp add: assms(1) reported_def)
  qed
qed

text \<open>no fork edit is lost silently. A field the fork changed, outside the reserved and the provenance lists, reads in the resolved document as the fork wrote it, or the fork's value is in the clash list beside the value that won.\<close>
theorem no_silent_loss:
  assumes "inp = \<lparr>assumedMasterState = Some a, newDocumentState = Some f, realMasterState = Some m\<rparr>"
    and "wf_doc a" "wf_doc f" "wf_doc m" and "resolveConflict inp no_opts = Inr r"
    and "\<not> valuesEqual (field f k) (field a k)" and "k \<notin> set RESERVED_FIELDS" and "k \<notin> set PROVENANCE_FIELDS"
  shows "valuesEqual (field (document r) k) (field f k) \<or>
    \<lparr>clash_field = k, discarded = field f k, winner = field (document r) k\<rparr> \<in> set (clashes r)"
  by (rule fork_edit_kept_or_reported [OF assms])

theorem no_silent_loss_witness: "note_clash \<in> set (clashes demo_result)"
  using no_silent_loss [OF demo_def demo_wf demo_resolves, of "''note''"]
  by (simp add: demo_docs field_def RESERVED_FIELDS_def PROVENANCE_FIELDS_def demo_result_def note_clash_def)

text \<open>the note on deletes. With a baseline a boolean field never clashes, so _deleted is reported only without one.\<close>
theorem boolean_never_clashes:
  assumes "inp = \<lparr>assumedMasterState = Some a, newDocumentState = Some f, realMasterState = Some m\<rparr>"
    and "resolveConflict inp no_opts = Inr r"
    and "field a k = JBool x" "field f k = JBool y" "field m k = JBool z"
  shows "k \<notin> clash_field ` set (clashes r)"
  using resolve_clashes [OF _ assms(2), of m] assms(3-5)
  by (auto simp: assms(1) reported_def field_verdict_def verdict_of_def split: if_splits)

theorem boolean_never_clashes_witness: "''_deleted'' \<notin> clash_field ` set (clashes demo_result)"
  by (rule boolean_never_clashes [OF demo_def demo_resolves, where x = False and y = False and z = False])
    (simp_all add: demo_docs field_def)

text \<open>the documented open question. When the fork deletes the row and changes nothing else, and master changed only other fields, the resolved document is deleted and no clash is reported, so master's edits end on a tombstone.\<close>
theorem uncontested_delete_is_silent:
  assumes "inp = \<lparr>assumedMasterState = Some a, newDocumentState = Some f, realMasterState = Some m\<rparr>"
    and "wf_doc a" "wf_doc f" "wf_doc m" and "resolveConflict inp no_opts = Inr r"
    and "field a ''_deleted'' = JBool False" "field m ''_deleted'' = JBool False" "field f ''_deleted'' = JBool True"
    and "\<And>k. k \<noteq> ''_deleted'' \<Longrightarrow> field f k = field a k"
  shows "field (document r) ''_deleted'' = JBool True \<and> clashes r = []"
proof -
  have refl: "valuesEqual (field f k) (field f k)" for k using assms(3) by (simp add: json_eq.refl wf_field)
  have "\<not> reported no_opts (Some a) f m k" for k
    using assms(6-8) assms(9) [of k] refl [of k]
    by (cases "k = ''_deleted''") (auto simp: reported_def field_verdict_def verdict_of_def)
  then have "clashes r = []" using resolve_clashes [OF _ assms(5), of m] by (simp add: assms(1))
  moreover have "field (document r) ''_deleted'' = JBool True"
    using resolve_document [OF _ assms(5), of m "''_deleted''"] assms(6-8)
    by (simp add: assms(1) verdict_baseline [OF assms(2-4)] RESERVED_FIELDS_def)
  ultimately show ?thesis by simp
qed


definition deleting_fork :: doc where
  "deleting_fork = [(''id'', JStr ''r1''), (''name'', JStr ''Fryer''), (''note'', JStr ''ok''), (''_deleted'', JBool True)]"

definition delete_input :: conflict_input where
  "delete_input =
     \<lparr>assumedMasterState = Some demo_assumed, newDocumentState = Some deleting_fork, realMasterState = Some demo_master\<rparr>"

definition delete_result :: resolution where
  "delete_result =
     \<lparr>document = [(''id'', JStr ''r1''), (''name'', JStr ''Fryer''), (''note'', JStr ''clean''), (''_deleted'', JBool True),
        (''updated_by'', JStr ''dana'')],
      clashes = [], baseline = Assumed_Master\<rparr>"

lemma delete_resolves: "resolveConflict delete_input no_opts = Inr delete_result"
  by (simp add: demo_eval delete_input_def delete_result_def deleting_fork_def)

theorem uncontested_delete_is_silent_witness:
  "field (document delete_result) ''_deleted'' = JBool True \<and> clashes delete_result = []"
proof (rule uncontested_delete_is_silent [OF delete_input_def demo_wf(1) _ demo_wf(3) delete_resolves])
  show "field deleting_fork k = field demo_assumed k" if "k \<noteq> ''_deleted''" for k
    using that by (simp add: deleting_fork_def demo_docs field_def)
qed (simp_all add: deleting_fork_def demo_docs field_def wf_doc_def)

section \<open>Without a baseline\<close>

lemma fold_no_survivor:
  assumes "\<And>k. field_verdict opts assumed fork master k \<noteq> Fork_Survives"
  shows "fst (foldl (mergeField opts assumed fork master) (dc, cs) ks) = dc"
  using assms by (induction ks arbitrary: cs) (simp_all add: mergeField_eq)

text \<open>the fallback. With no baseline the resolved document is master's, field for field and in master's order, and the clash list holds exactly the fields, outside the reserved and the provenance lists, on which the two sides differ.\<close>
theorem no_baseline_master_wins:
  assumes "inp = \<lparr>assumedMasterState = None, newDocumentState = Some f, realMasterState = Some m\<rparr>"
    and "resolveConflict inp opts = Inr r"
  shows "document r = m \<and> baseline r = Absent \<and>
    (c \<in> set (clashes r) \<longleftrightarrow>
       (let k = clash_field c
        in k \<notin> set (reserved_of opts) \<and> k \<notin> set (provenance_of opts) \<and> (has_field f k \<or> has_field m k) \<and>
           \<not> equality_of opts (field f k) (field m k) \<and> discarded c = field f k \<and> winner c = field m k))"
proof -
  have v: "field_verdict opts None f m k = (if equality_of opts (field f k) (field m k) then Master_Stands else Same_Field_Clash)"
    for k by (simp add: field_verdict_def verdict_of_def)
  have "document r = m \<and> baseline r = Absent"
    using assms(2) resolve_fold [of inp m opts] fold_no_survivor [of opts None f m] by (auto simp: assms(1) v Let_def)
  moreover have "c \<in> set (clashes r) \<longleftrightarrow> clash_field c \<in> set (merge_fields inp opts m) \<and>
      reported opts None f m (clash_field c) \<and> discarded c = field f (clash_field c) \<and> winner c = field m (clash_field c)"
    unfolding resolve_clashes [OF _ assms(2), of m, simplified assms(1), simplified] assms(1)
    by (cases c) (auto simp: image_iff)
  ultimately show ?thesis by (auto simp: assms(1) merge_fields_set reported_def v Let_def)
qed

definition blind_result :: resolution where
  "blind_result = \<lparr>document = demo_master,
     clashes = [\<lparr>clash_field = ''name'', discarded = JStr ''Fryer 2'', winner = JStr ''Fryer''\<rparr>, note_clash], baseline = Absent\<rparr>"

lemma blind_resolves:
  "resolveConflict \<lparr>assumedMasterState = None, newDocumentState = Some demo_fork, realMasterState = Some demo_master\<rparr> no_opts =
     Inr blind_result"
  by (simp add: demo_eval blind_result_def)

theorem no_baseline_master_wins_witness: "document blind_result = demo_master \<and> note_clash \<in> set (clashes blind_result)"
  using no_baseline_master_wins [OF refl blind_resolves, of note_clash]
  by (simp add: note_clash_def demo_docs field_def has_field_def RESERVED_FIELDS_def PROVENANCE_FIELDS_def)

section \<open>Resolving again\<close>

text \<open>a resolution is settled. Pushed again with the same master as its baseline, the resolved document comes back field for field and nothing is reported.\<close>
theorem resolution_is_settled:
  assumes "wf_doc f" "wf_doc m"
    and "resolveConflict \<lparr>assumedMasterState = assumed, newDocumentState = Some f, realMasterState = Some m\<rparr> no_opts = Inr r"
    and "resolveConflict \<lparr>assumedMasterState = Some m, newDocumentState = Some (document r), realMasterState = Some m\<rparr>
           no_opts = Inr r'"
  shows "field (document r') k = field (document r) k \<and> clashes r' = []"
proof -
  let ?d = "document r"
  have d: "field ?d k = (if k \<notin> set RESERVED_FIELDS \<and> field_verdict no_opts assumed f m k = Fork_Survives
      then field f k else field m k)" for k
    using resolve_document [OF _ assms(3), of m k] by simp
  have wf: "wf_json (field ?d k)" "wf_json (field m k)" for k using assms(1,2) by (simp_all add: d wf_field)
  have v: "field_verdict no_opts (Some m) ?d m k =
      (if valuesEqual (field ?d k) (field m k) then Master_Stands else Fork_Survives)" for k
    using json_eq.settled [OF wf(1) wf(2), of k k] by (simp add: field_verdict_def)
  have same: "field ?d k = field m k" if "valuesEqual (field ?d k) (field m k) \<or> k \<in> set RESERVED_FIELDS" for k
    using that by (auto simp: d field_verdict_def verdict_of_def split: if_splits)
  have "field (document r') k = field ?d k"
    using resolve_document [OF _ assms(4), of m k] same [of k] by (simp add: v split: if_splits)
  moreover have "clashes r' = []"
    using resolve_clashes [OF _ assms(4), of m] by (simp add: reported_def v)
  ultimately show ?thesis by simp
qed

lemma settled_again:
  "resolveConflict \<lparr>assumedMasterState = Some demo_master, newDocumentState = Some (document demo_result),
     realMasterState = Some demo_master\<rparr> no_opts = Inr (demo_result\<lparr>clashes := []\<rparr>)"
  by (simp add: demo_eval)

theorem resolution_is_settled_witness: "field (document demo_result) ''name'' = JStr ''Fryer 2''"
  using resolution_is_settled [OF demo_wf(2,3) demo_resolves [unfolded demo_def] settled_again, of "''name''"]
  by (simp add: demo_result_def field_def)

section \<open>The callback and the row set\<close>

lemma calls_fold: "fst (foldl (call_onClash cb) (s, w) ns) = foldl (\<lambda>s n. fst (cb s n)) s ns"
  by (induction ns arbitrary: s w) (simp_all add: call_onClash_def case_prod_beta Let_def)

lemma handler_resolve_eq:
  "handler_resolve (Some cb) opts inp s =
     (case resolveConflict inp opts of
        Inl e \<Rightarrow> Inl e
      | Inr r \<Rightarrow> Inr (document r, foldl (call_onClash cb) (s, []) (notices opts inp r)))"
  by (simp add: handler_resolve_def notices_def split: sum.split)

text \<open>the notice is a courtesy. Whatever the callback does, throwing included, the handler returns the document of resolveConflict, and the callback has been called on every notice, in order.\<close>
theorem callback_is_isolated:
  assumes "resolveConflict inp opts = Inr r"
  shows "\<exists>warned. resolve (createHQConflictHandler eqf (Some cb) opts) inp s =
    Inr (document r, foldl (\<lambda>s n. fst (cb s n)) s (notices opts inp r), warned)"
  using assms calls_fold [of cb s "[]" "notices opts inp r"]
  by (cases "foldl (call_onClash cb) (s, []) (notices opts inp r)")
    (simp add: createHQConflictHandler_def handler_resolve_eq)

theorem callback_is_isolated_witness:
  "\<exists>warned. resolve (createHQConflictHandler None (Some (\<lambda>c n. (Suc c, True))) no_opts) demo 0 =
    Inr (document demo_result, Suc 0, warned)"
  using callback_is_isolated [OF demo_resolves, of None "\<lambda>c n. (Suc c, True)" 0]
  by (simp add: notices_def demo_result_def)

definition logging :: "(notice \<Rightarrow> bool) \<Rightarrow> notice list on_clash" where
  "logging threw s n = (s @ [n], threw n)"

lemma logging_fold: "foldl (\<lambda>s n. fst (logging threw s n)) s ns = s @ ns"
  by (induction ns arbitrary: s) (simp_all add: logging_def)

text \<open>the row set agrees with the handler. For any options, the clashes describeConflict derives with the options read off the handler are the clashes the handler passed to its callback, under the same baseline; when one raises for want of a master state, so does the other.\<close>
theorem describe_agrees_with_handler:
  "case (resolve (createHQConflictHandler eqf (Some (logging threw)) opts) inp [],
         describeConflict (Some inp) (conflictOptsOf (Some (createHQConflictHandler eqf (Some (logging threw)) opts)))) of
     (Inr (dc, told, warned), Inr row) \<Rightarrow>
       map notice_clash told = row_clashes row \<and> list_all (\<lambda>n. notice_baseline n = row_baseline row) told
   | (Inl e, Inl e') \<Rightarrow> e = e' \<and> realMasterState inp = None
   | _ \<Rightarrow> False"
proof (cases "resolveConflict inp opts")
  case (Inl e)
  moreover have "e = RealMasterState_Required" by (cases e) simp
  ultimately show ?thesis
    using resolve_total [of inp opts]
    by (simp add: createHQConflictHandler_def conflictOptsOf_def describeConflict_def handler_resolve_eq Let_def)
next
  case (Inr r)
  have "foldl (call_onClash (logging threw)) ([], []) (notices opts inp r) =
      (notices opts inp r, snd (foldl (call_onClash (logging threw)) ([], []) (notices opts inp r)))"
    using calls_fold [of "logging threw" "[]" "[]"] by (simp add: logging_fold prod_eq_iff)
  then obtain warned where "foldl (call_onClash (logging threw)) ([], []) (notices opts inp r) = (notices opts inp r, warned)"
    by blast
  then show ?thesis
    using Inr
    by (simp add: createHQConflictHandler_def conflictOptsOf_def describeConflict_def handler_resolve_eq notices_def
        case_prod_beta Let_def list_all_iff comp_def)
qed

end
