(* ===== verification/RxCollection.thy ===== *)
theory RxCollection
  imports Complex_Main Prelude
begin

text \<open>
  The document store the sync modules are handed. RxDB is not code of this repository: a collection is
  whatever value \<open>'c\<close> the engine keeps, and the four calls the modules make are a record of operations.
  The locale states what the engine documents about them; the list store discharges it and serves the
  concrete runs.
\<close>

record ('c, 'd) rx_ops =
  rx_key :: "'d \<Rightarrow> string"
  rx_find :: "'c \<Rightarrow> ('d \<Rightarrow> bool) \<Rightarrow> 'd list"
  rx_findOne :: "'c \<Rightarrow> string \<Rightarrow> 'd option"
  rx_insert :: "'c \<Rightarrow> 'd \<Rightarrow> 'c option"
  rx_patch :: "'c \<Rightarrow> string \<Rightarrow> ('d \<Rightarrow> 'd) \<Rightarrow> 'c"

locale rx_collection =
  fixes ops :: "('c, 'd) rx_ops"
  assumes findOne_key: "rx_findOne ops c k = Some d \<Longrightarrow> rx_key ops d = k"
    and find_set: "set (rx_find ops c P) = {d. P d \<and> rx_findOne ops c (rx_key ops d) = Some d}"
    and insert_taken: "rx_insert ops c d = None \<longleftrightarrow> rx_findOne ops c (rx_key ops d) \<noteq> None"
    and insert_findOne: "rx_insert ops c d = Some c' \<Longrightarrow>
      rx_findOne ops c' k = (if k = rx_key ops d then Some d else rx_findOne ops c k)"
    and patch_findOne: "(\<And>d. rx_key ops (f d) = rx_key ops d) \<Longrightarrow>
      rx_findOne ops (rx_patch ops c k f) j = (if j = k then map_option f (rx_findOne ops c j) else rx_findOne ops c j)"
begin

lemma find_Nil: "rx_find ops c P = [] \<longleftrightarrow> (\<forall>k d. rx_findOne ops c k = Some d \<longrightarrow> \<not> P d)"
  unfolding set_empty [symmetric] find_set using findOne_key by blast

lemma find_first:
  assumes "rx_find ops c P = d # ds"
  shows "P d" and "rx_findOne ops c (rx_key ops d) = Some d"
  using find_set [of c P] unfolding assms by auto

lemma patch_same:
  "(\<And>d. rx_key ops (f d) = rx_key ops d) \<Longrightarrow> rx_findOne ops c k = Some d \<Longrightarrow>
     rx_findOne ops (rx_patch ops c k f) k = Some (f d)"
  by (simp add: patch_findOne)

lemma patch_other:
  "(\<And>d. rx_key ops (f d) = rx_key ops d) \<Longrightarrow> j \<noteq> k \<Longrightarrow> rx_findOne ops (rx_patch ops c k f) j = rx_findOne ops c j"
  by (simp add: patch_findOne)

end

section \<open>The list store\<close>

definition list_findOne :: "('d \<Rightarrow> string) \<Rightarrow> 'd list \<Rightarrow> string \<Rightarrow> 'd option" where
  "list_findOne key c k = List.find (\<lambda>d. key d = k) c"

definition list_store :: "('d \<Rightarrow> string) \<Rightarrow> ('d list, 'd) rx_ops" where
  "list_store key =
     \<lparr>rx_key = key,
      rx_find = (\<lambda>c P. filter (\<lambda>d. P d \<and> (case list_findOne key c (key d) of None \<Rightarrow> False | Some e \<Rightarrow> e = d)) c),
      rx_findOne = list_findOne key,
      rx_insert = (\<lambda>c d. case list_findOne key c (key d) of None \<Rightarrow> Some (d # c) | Some _ \<Rightarrow> None),
      rx_patch = (\<lambda>c k f. map (\<lambda>d. if key d = k then f d else d) c)\<rparr>"

lemma list_findOne_Some: "list_findOne key c k = Some d \<Longrightarrow> key d = k \<and> d \<in> set c"
  by (induction c) (auto simp: list_findOne_def split: if_splits)

lemma list_findOne_patch:
  assumes "\<And>d. key (f d) = key d"
  shows "list_findOne key (map (\<lambda>d. if key d = k then f d else d) c) j =
    (if j = k then map_option f (list_findOne key c j) else list_findOne key c j)"
  using assms by (induction c) (auto simp: list_findOne_def)

interpretation list_rx: rx_collection "list_store key" for key :: "'d \<Rightarrow> string"
proof unfold_locales
  fix c :: "'d list" and k j d c' f P
  show "rx_findOne (list_store key) c k = Some d \<Longrightarrow> rx_key (list_store key) d = k"
    using list_findOne_Some [of key c k d] by (simp add: list_store_def)
  show "set (rx_find (list_store key) c P) =
      {d. P d \<and> rx_findOne (list_store key) c (rx_key (list_store key) d) = Some d}"
    using list_findOne_Some by (force simp: list_store_def split: option.splits)
  show "(rx_insert (list_store key) c d = None) = (rx_findOne (list_store key) c (rx_key (list_store key) d) \<noteq> None)"
    by (simp add: list_store_def split: option.splits)
  show "rx_insert (list_store key) c d = Some c' \<Longrightarrow> rx_findOne (list_store key) c' k =
      (if k = rx_key (list_store key) d then Some d else rx_findOne (list_store key) c k)"
    by (auto simp: list_store_def list_findOne_def split: option.splits)
  show "(\<And>d. rx_key (list_store key) (f d) = rx_key (list_store key) d) \<Longrightarrow>
      rx_findOne (list_store key) (rx_patch (list_store key) c k f) j =
        (if j = k then map_option f (rx_findOne (list_store key) c j) else rx_findOne (list_store key) c j)"
    using list_findOne_patch [of key f k c j] by (simp add: list_store_def)
qed

end
