(* ===== verification/MarketingServer.thy ===== *)
theory MarketingServer
  imports Complex_Main Prelude
begin

text \<open>
  The server side the scanner talks to, from \<^verbatim>\<open>supabase/migrations/\<close>: the \<open>codes\<close> table, the
  \<open>redeem\<close> procedure that burns a code, and the \<open>scan_attempts\<close> table devices may only insert into.
\<close>

record code_row =
  redeemed_by :: "string option"
  redeemed_at :: "ms option"
  expires_at :: ms
  updated_at :: ms

datatype reason = Already_Used | Expired | Not_Found

record verdict =
  ok :: bool
  why :: "reason option"

datatype attempt_status = Pending | Accepted | Rejected

text \<open>The body of a landing insert: the columns of \<open>scan_attempts\<close>.\<close>

record landing =
  l_id :: string
  l_code_id :: "string option"
  l_token_hash :: "string option"
  l_device_id :: string
  l_scanned_at :: ms
  l_status :: attempt_status
  l_reason :: "reason option"
  l_offline_override :: bool
  l_override_by :: "string option"
  l_unverified_code :: bool
  l_policy_unresolved :: bool
  l_pos_order_number :: "string option"
  l_pos_business_date :: string
  l_redeemed_value :: "rat option"

record server =
  codes :: "string \<Rightarrow> code_row option"
  scan_attempts :: "string \<Rightarrow> landing option"

text \<open>\<open>redeem(p_code, p_device)\<close>: one conditional update, and a reason when it found no row to update.\<close>

definition redeem :: "string \<Rightarrow> string \<Rightarrow> ms \<Rightarrow> server \<Rightarrow> server \<times> verdict" where
  "redeem p_code p_device now s =
     (let burnable = (case codes s p_code of None \<Rightarrow> None
                      | Some c \<Rightarrow> if redeemed_by c = None \<and> expires_at c > now then Some c else None)
      in case burnable of
           Some c \<Rightarrow>
             (s\<lparr>codes := (codes s)(p_code \<mapsto>
                 c\<lparr>redeemed_by := Some p_device, redeemed_at := Some now, updated_at := now\<rparr>)\<rparr>,
              \<lparr>ok = True, why = None\<rparr>)
         | None \<Rightarrow>
             (s, \<lparr>ok = False,
                why = Some (case codes s p_code of
                  None \<Rightarrow> Not_Found
                | Some c \<Rightarrow> if redeemed_by c \<noteq> None then Already_Used
                            else if expires_at c \<le> now then Expired else Not_Found)\<rparr>))"

text \<open>The insert: the row-level-security check, the constraint \<open>scan_attempts_names_a_code\<close>, then the primary
  key. The statuses are PostgREST's for the four outcomes.\<close>

definition names_a_code :: "landing \<Rightarrow> bool" where
  "names_a_code r \<longleftrightarrow>
     l_code_id r \<noteq> None \<or> (l_unverified_code r \<and> l_offline_override r \<and> l_token_hash r \<noteq> None)"

definition insert_attempt :: "string \<Rightarrow> landing \<Rightarrow> server \<Rightarrow> server \<times> nat" where
  "insert_attempt jwt_sub r s =
     (if l_device_id r \<noteq> jwt_sub then (s, 403)
      else if \<not> names_a_code r then (s, 400)
      else if scan_attempts s (l_id r) \<noteq> None then (s, 409)
      else (s\<lparr>scan_attempts := (scan_attempts s)(l_id r \<mapsto> r)\<rparr>, 201))"

section \<open>Single use\<close>

definition burned_by :: "server \<Rightarrow> string \<Rightarrow> string option" where
  "burned_by s c = (case codes s c of None \<Rightarrow> None | Some r \<Rightarrow> redeemed_by r)"

lemma redeem_ok: "ok (snd (redeem c d now s)) \<Longrightarrow> burned_by (fst (redeem c d now s)) c = Some d"
  by (auto simp: redeem_def burned_by_def Let_def split: option.splits if_splits)

lemma redeem_ok_unburned: "ok (snd (redeem c d now s)) \<Longrightarrow> burned_by s c = None"
  by (auto simp: redeem_def burned_by_def Let_def split: option.splits if_splits)

lemma redeem_already_used: "why (snd (redeem c d now s)) = Some Already_Used \<Longrightarrow>
    \<not> ok (snd (redeem c d now s)) \<and> (\<exists>w. burned_by s c = Some w) \<and> fst (redeem c d now s) = s"
  by (auto simp: redeem_def burned_by_def Let_def split: option.splits if_splits)

lemma redeem_final: "burned_by s j = Some w \<Longrightarrow> burned_by (fst (redeem c d now s)) j = Some w"
  by (auto simp: redeem_def burned_by_def Let_def split: option.splits if_splits)

lemma redeem_scan_attempts [simp]: "scan_attempts (fst (redeem c d now s)) = scan_attempts s"
  by (auto simp: redeem_def Let_def split: option.splits if_splits)

lemma insert_codes [simp]: "codes (fst (insert_attempt sub r s)) = codes s"
  by (simp add: insert_attempt_def)

lemma insert_burned [simp]: "burned_by (fst (insert_attempt sub r s)) c = burned_by s c"
  by (simp add: burned_by_def)

lemma insert_scan_attempts: "scan_attempts (fst (insert_attempt sub r s)) i =
    (if i = l_id r \<and> l_device_id r = sub \<and> names_a_code r \<and> scan_attempts s i = None then Some r else scan_attempts s i)"
  by (auto simp: insert_attempt_def)

lemma insert_landed: "snd (insert_attempt sub r s) \<in> {201, 409} \<Longrightarrow> scan_attempts (fst (insert_attempt sub r s)) (l_id r) \<noteq> None"
  by (auto simp: insert_attempt_def split: if_splits)

end
