(* ===== verification/PushReplication.thy ===== *)
theory PushReplication
  imports Complex_Main RxCollection MarketingServer
begin

text \<open>
  \<^verbatim>\<open>marketing/sync/push-replication.js\<close>: the device's queue of scan attempts, its migration, \<open>enqueueAttempt\<close>,
  and the push handler that burns a code and lands the attempt. Everything the handler awaits is an exchange
  with a schedule: before each one the world moves (other devices redeem, the codes replica pulls, time passes)
  and a fate decides whether the request and its answer arrive or the device dies.
\<close>

section \<open>The local queue\<close>

record attempt =
  a_id :: string
  code_id :: string
  device_id :: string
  scanned_at :: ms
  status :: attempt_status
  reason :: "reason option"
  offline_override :: bool
  override_by :: "string option"
  unverified_code :: bool
  policy_unresolved :: bool
  pos_order_number :: "string option"
  pos_business_date :: string
  redeemed_value :: "rat option"
  burn_ok :: "bool option"
  burn_reason :: "reason option"
  landed :: bool
  winner_device :: "string option"
  winner_at :: "ms option"

type_synonym 'c queue = "('c, attempt) rx_ops"

record enqueue_fields =
  f_code_id :: string
  f_device_id :: string
  f_offline_override :: "bool option"
  f_override_by :: "string option"
  f_unverified_code :: "bool option"
  f_policy_unresolved :: "bool option"
  f_pos_order_number :: "string option"
  f_redeemed_value :: "rat option"
  f_pos_business_date :: "string option"

definition or_false :: "bool option \<Rightarrow> bool" where
  "or_false b = (case b of None \<Rightarrow> False | Some v \<Rightarrow> v)"

text \<open>\<open>pos_business_date || scannedIso.slice(0, 10)\<close>; \<open>iso_date\<close> is the UTC date of an instant.\<close>

definition business_date :: "(ms \<Rightarrow> string) \<Rightarrow> string option \<Rightarrow> ms \<Rightarrow> string" where
  "business_date iso_date d t = (case d of None \<Rightarrow> iso_date t | Some s \<Rightarrow> if s = [] then iso_date t else s)"

definition new_attempt :: "(ms \<Rightarrow> string) \<Rightarrow> ms \<Rightarrow> string \<Rightarrow> enqueue_fields \<Rightarrow> attempt" where
  "new_attempt iso_date t i f =
     \<lparr>a_id = i, code_id = f_code_id f, device_id = f_device_id f, scanned_at = t, status = Pending, reason = None,
      offline_override = or_false (f_offline_override f), override_by = f_override_by f,
      unverified_code = or_false (f_unverified_code f), policy_unresolved = or_false (f_policy_unresolved f),
      pos_order_number = f_pos_order_number f, pos_business_date = business_date iso_date (f_pos_business_date f) t,
      redeemed_value = f_redeemed_value f, burn_ok = None, burn_reason = None, landed = False,
      winner_device = None, winner_at = None\<rparr>"

datatype enqueue_result = Enqueued attempt | Deduped attempt | Insert_Threw

definition enqueueAttempt ::
  "'c queue \<Rightarrow> (ms \<Rightarrow> string) \<Rightarrow> ms \<Rightarrow> string \<Rightarrow> enqueue_fields \<Rightarrow> 'c \<Rightarrow> 'c \<times> enqueue_result" where
  "enqueueAttempt rx iso_date t i f q =
     (let existing = rx_find rx q (\<lambda>d. code_id d = f_code_id f)
      in case List.find (\<lambda>d. status d \<noteq> Rejected) existing of
           Some live \<Rightarrow> (q, Deduped live)
         | None \<Rightarrow>
             (let doc = new_attempt iso_date t i f
              in case rx_insert rx q doc of None \<Rightarrow> (q, Insert_Threw) | Some q' \<Rightarrow> (q', Enqueued doc)))"

section \<open>The world around the handler\<close>

text \<open>One row of the local codes replica, as far as the handler reads it.\<close>

record replica_row =
  r_redeemed_by :: "string option"
  r_redeemed_at :: "ms option"

datatype request_kind = Redeem_Request | Land_Request | Land_Unverified_Request

record request =
  kind :: request_kind
  attempt_id :: string
  req_code_id :: string

record 'c world =
  queue :: 'c
  replica :: "string \<Rightarrow> replica_row option"
  srv :: server
  clock :: ms
  requestLog :: "request list"

record push_cfg =
  deviceId :: string
  winnerWaitMs :: ms
  winnerPollMs :: ms
  pull_window :: ms
  is_uuid :: "string \<Rightarrow> bool"
  iso_date :: "ms \<Rightarrow> string"

text \<open>Another client burns a code; the codes replica pulls a row, which its window must still admit; time passes;
  the page records a scan, under a uuid that no landed attempt carries.\<close>

datatype env = Remote_Redeem string string | Pull_Code string | Tick nat | Scan string enqueue_fields

definition run_env1 :: "'c queue \<Rightarrow> push_cfg \<Rightarrow> 'c world \<Rightarrow> env \<Rightarrow> 'c world" where
  "run_env1 rx cfg w e = (case e of
     Remote_Redeem c d \<Rightarrow> w\<lparr>srv := fst (redeem c d (clock w) (srv w))\<rparr>
   | Pull_Code c \<Rightarrow>
       (case codes (srv w) c of
          None \<Rightarrow> w
        | Some r \<Rightarrow>
            if expires_at r > clock w - pull_window cfg
            then w\<lparr>replica := (replica w)(c \<mapsto> \<lparr>r_redeemed_by = redeemed_by r, r_redeemed_at = redeemed_at r\<rparr>)\<rparr>
            else w)
   | Tick n \<Rightarrow> w\<lparr>clock := clock w + int n\<rparr>
   | Scan i f \<Rightarrow>
       (if scan_attempts (srv w) i = None
        then w\<lparr>queue := fst (enqueueAttempt rx (iso_date cfg) (clock w) i f (queue w))\<rparr> else w))"

definition run_env :: "'c queue \<Rightarrow> push_cfg \<Rightarrow> env list \<Rightarrow> 'c world \<Rightarrow> 'c world" where
  "run_env rx cfg es w = foldl (run_env1 rx cfg) w es"

datatype fate = Delivered | Request_Lost | Response_Lost | Unavailable | Dies_Before | Dies_After

record interlude =
  before :: "env list"
  fate :: fate

type_synonym schedule = "interlude list"

text \<open>What an await yields: a value, a rejected promise, HTTP 503 from something in between, or nothing more.\<close>

datatype 'a reply = Reply 'a | Net_Error | Http_503 | Dead

definition exchange ::
  "'c queue \<Rightarrow> push_cfg \<Rightarrow> ('c world \<Rightarrow> 'c world \<times> 'a) \<Rightarrow> 'c world \<times> schedule \<Rightarrow> ('c world \<times> schedule) \<times> 'a reply" where
  "exchange rx cfg act ws = (case ws of
     (w, []) \<Rightarrow> ((w, []), Dead)
   | (w, i # is) \<Rightarrow>
       (let w1 = run_env rx cfg (before i) w; (w2, v) = act w1
        in case fate i of
             Delivered \<Rightarrow> ((w2, is), Reply v)
           | Request_Lost \<Rightarrow> ((w1, is), Net_Error)
           | Response_Lost \<Rightarrow> ((w2, is), Net_Error)
           | Unavailable \<Rightarrow> ((w1, is), Http_503)
           | Dies_Before \<Rightarrow> ((w1, []), Dead)
           | Dies_After \<Rightarrow> ((w2, []), Dead)))"

text \<open>\<open>requestLog.push\<close> before the request is sent.\<close>

definition logged :: "request_kind \<Rightarrow> attempt \<Rightarrow> 'c world \<times> schedule \<Rightarrow> 'c world \<times> schedule" where
  "logged k a ws = (case ws of (w, is) \<Rightarrow>
     (w\<lparr>requestLog := requestLog w @ [\<lparr>kind = k, attempt_id = a_id a, req_code_id = code_id a\<rparr>]\<rparr>, is))"

text \<open>The two server calls and the local patch. A code that is no uuid literal draws HTTP 400 before the procedure runs.\<close>

definition act_redeem :: "push_cfg \<Rightarrow> attempt \<Rightarrow> 'c world \<Rightarrow> 'c world \<times> (nat + verdict)" where
  "act_redeem cfg a w =
     (if is_uuid cfg (code_id a)
      then (let (s, v) = redeem (code_id a) (deviceId cfg) (clock w) (srv w) in (w\<lparr>srv := s\<rparr>, Inr v))
      else (w, Inl 400))"

definition act_land :: "push_cfg \<Rightarrow> landing \<Rightarrow> 'c world \<Rightarrow> 'c world \<times> nat" where
  "act_land cfg r w = (let (s, st) = insert_attempt (deviceId cfg) r (srv w) in (w\<lparr>srv := s\<rparr>, st))"

definition act_patch :: "'c queue \<Rightarrow> string \<Rightarrow> (attempt \<Rightarrow> attempt) \<Rightarrow> 'c world \<Rightarrow> 'c world \<times> unit" where
  "act_patch rx i f w = (w\<lparr>queue := rx_patch rx (queue w) i f\<rparr>, ())"

section \<open>The push handler\<close>

datatype push_error = Redeem_Http nat | Landing_Http nat | Unverified_Http nat | No_Winner_Yet | Network_Failure

datatype outcome = Completed | Threw push_error | Died

text \<open>A string that is missing or empty is falsy.\<close>

definition non_empty :: "string option \<Rightarrow> string option" where
  "non_empty s = (if s = Some [] then None else s)"

text \<open>\<open>awaitWinner\<close>: the bounded poll of the local replica. Each turn waits \<open>winnerPollMs\<close>, during which the world
  moves.\<close>

fun awaitWinner ::
  "'c queue \<Rightarrow> push_cfg \<Rightarrow> ms \<Rightarrow> string \<Rightarrow> 'c world \<Rightarrow> schedule \<Rightarrow> ('c world \<times> schedule) \<times> (string \<times> ms option) option reply" where
  "awaitWinner rx cfg deadline c w is =
     (case (case replica w c of None \<Rightarrow> None | Some r \<Rightarrow> map_option (\<lambda>d. (d, r_redeemed_at r)) (non_empty (r_redeemed_by r))) of
        Some win \<Rightarrow> ((w, is), Reply (Some win))
      | None \<Rightarrow>
          if clock w \<ge> deadline then ((w, is), Reply None)
          else (case is of
                  [] \<Rightarrow> ((w, []), Dead)
                | i # js \<Rightarrow>
                    (let w1 = run_env rx cfg (before i) (w\<lparr>clock := clock w + winnerPollMs cfg\<rparr>)
                     in if fate i = Dies_Before \<or> fate i = Dies_After then ((w1, []), Dead)
                        else awaitWinner rx cfg deadline c w1 js)))"


text \<open>What follows an await: its value, or the throw an answer other than the expected one leads to.\<close>

definition andThen ::
  "push_error \<Rightarrow> ('c world \<times> schedule) \<times> 'a reply \<Rightarrow> ('a \<Rightarrow> 'c world \<times> schedule \<Rightarrow> ('c world \<times> schedule) \<times> outcome) \<Rightarrow>
     ('c world \<times> schedule) \<times> outcome" where
  "andThen http_error r cont = (case r of
     (ws, Reply v) \<Rightarrow> cont v ws
   | (ws, Net_Error) \<Rightarrow> (ws, Threw Network_Failure)
   | (ws, Http_503) \<Rightarrow> (ws, Threw http_error)
   | (ws, Dead) \<Rightarrow> (ws, Died))"

definition land_body :: "push_cfg \<Rightarrow> attempt \<Rightarrow> attempt_status \<Rightarrow> reason option \<Rightarrow> landing" where
  "land_body cfg d st rs =
     \<lparr>l_id = a_id d, l_code_id = Some (code_id d), l_token_hash = None, l_device_id = deviceId cfg,
      l_scanned_at = scanned_at d, l_status = st, l_reason = rs, l_offline_override = offline_override d,
      l_override_by = override_by d, l_unverified_code = unverified_code d, l_policy_unresolved = policy_unresolved d,
      l_pos_order_number = pos_order_number d, l_pos_business_date = pos_business_date d,
      l_redeemed_value = redeemed_value d\<rparr>"

definition unverified_body :: "push_cfg \<Rightarrow> attempt \<Rightarrow> landing" where
  "unverified_body cfg d =
     (land_body cfg d Accepted None)\<lparr>l_code_id := None, l_token_hash := Some (code_id d), l_unverified_code := True\<rparr>"

definition resolve_row :: "'c queue \<Rightarrow> push_cfg \<Rightarrow> attempt \<Rightarrow> attempt_status \<Rightarrow> reason option \<Rightarrow>
    'c world \<times> schedule \<Rightarrow> ('c world \<times> schedule) \<times> outcome" where
  "resolve_row rx cfg doc st rs ws =
     andThen Network_Failure
       (exchange rx cfg (act_patch rx (a_id doc) (\<lambda>d. d\<lparr>status := st, reason := rs, landed := True\<rparr>)) ws)
       (\<lambda>_ ws. (ws, Completed))"

definition push_unverified :: "'c queue \<Rightarrow> push_cfg \<Rightarrow> attempt \<Rightarrow> 'c world \<times> schedule \<Rightarrow> ('c world \<times> schedule) \<times> outcome" where
  "push_unverified rx cfg doc ws =
     andThen (Unverified_Http 503)
       (exchange rx cfg (act_land cfg (unverified_body cfg doc)) (logged Land_Unverified_Request doc ws))
       (\<lambda>st ws. if st \<noteq> 201 \<and> st \<noteq> 409 then (ws, Threw (Unverified_Http st))
               else resolve_row rx cfg doc Accepted None ws)"

definition push_landing :: "'c queue \<Rightarrow> push_cfg \<Rightarrow> attempt \<Rightarrow> bool \<Rightarrow> reason option \<Rightarrow>
    'c world \<times> schedule \<Rightarrow> ('c world \<times> schedule) \<times> outcome" where
  "push_landing rx cfg doc burnOk burnReason ws =
     (let st = (if burnOk then Accepted else Rejected); rs = (if burnOk then None else burnReason)
      in andThen (Landing_Http 503)
           (exchange rx cfg (act_land cfg (land_body cfg doc st rs)) (logged Land_Request doc ws))
           (\<lambda>http ws. if http \<noteq> 201 \<and> http \<noteq> 409 then (ws, Threw (Landing_Http http))
                     else resolve_row rx cfg doc st rs ws))"

text \<open>Belt 1: the outcome of the burn is on the local row before the landing is tried.\<close>

definition persist_burn :: "'c queue \<Rightarrow> push_cfg \<Rightarrow> attempt \<Rightarrow> bool \<Rightarrow> reason option \<Rightarrow> (string \<times> ms option) option \<Rightarrow>
    'c world \<times> schedule \<Rightarrow> ('c world \<times> schedule) \<times> outcome" where
  "persist_burn rx cfg doc burnOk burnReason win ws =
     andThen Network_Failure
       (exchange rx cfg
          (act_patch rx (a_id doc)
             (\<lambda>d. d\<lparr>burn_ok := Some burnOk, burn_reason := burnReason, winner_device := map_option fst win,
                     winner_at := Option.bind win snd\<rparr>)) ws)
       (\<lambda>_. push_landing rx cfg doc burnOk burnReason)"

text \<open>The winner a row already carries.\<close>

definition kept_winner :: "attempt \<Rightarrow> (string \<times> ms option) option" where
  "kept_winner doc = map_option (\<lambda>d. (d, winner_at doc)) (non_empty (winner_device doc))"

text \<open>Belt 2: an \<open>already_used\<close> that names this device is its own burn.\<close>

definition judge :: "'c queue \<Rightarrow> push_cfg \<Rightarrow> attempt \<Rightarrow> verdict \<Rightarrow>
    'c world \<times> schedule \<Rightarrow> ('c world \<times> schedule) \<times> outcome" where
  "judge rx cfg doc v ws =
     (let burnReason = (if ok v then None else why v)
      in if \<not> ok v \<and> burnReason = Some Already_Used
         then andThen Network_Failure
                (awaitWinner rx cfg (clock (fst ws) + winnerWaitMs cfg) (code_id doc) (fst ws) (snd ws))
                (\<lambda>win ws. case win of
                   None \<Rightarrow> (ws, Threw No_Winner_Yet)
                 | Some (dev, at_ms) \<Rightarrow>
                     if dev = deviceId cfg then persist_burn rx cfg doc True None (kept_winner doc) ws
                     else persist_burn rx cfg doc False burnReason (Some (dev, at_ms)) ws)
         else persist_burn rx cfg doc (ok v) burnReason (kept_winner doc) ws)"

definition push_verified :: "'c queue \<Rightarrow> push_cfg \<Rightarrow> attempt \<Rightarrow> 'c world \<times> schedule \<Rightarrow> ('c world \<times> schedule) \<times> outcome" where
  "push_verified rx cfg doc ws = (case burn_ok doc of
     Some b \<Rightarrow> push_landing rx cfg doc b (burn_reason doc) ws
   | None \<Rightarrow>
       andThen (Redeem_Http 503) (exchange rx cfg (act_redeem cfg doc) (logged Redeem_Request doc ws))
         (\<lambda>answer ws. case answer of
            Inl http \<Rightarrow> (ws, Threw (Redeem_Http http))
          | Inr v \<Rightarrow> judge rx cfg doc v ws))"

text \<open>One pushed row, as the engine handed it over (its key and the status of the snapshot), then the loop.\<close>

definition pushRow :: "'c queue \<Rightarrow> push_cfg \<Rightarrow> string \<times> attempt_status \<Rightarrow>
    'c world \<times> schedule \<Rightarrow> ('c world \<times> schedule) \<times> outcome" where
  "pushRow rx cfg row ws =
     (if snd row \<noteq> Pending then (ws, Completed)
      else case rx_findOne rx (queue (fst ws)) (fst row) of
             None \<Rightarrow> (ws, Completed)
           | Some doc \<Rightarrow>
               if status doc \<noteq> Pending then (ws, Completed)
               else if unverified_code doc then push_unverified rx cfg doc ws
               else push_verified rx cfg doc ws)"

fun pushHandler :: "'c queue \<Rightarrow> push_cfg \<Rightarrow> (string \<times> attempt_status) list \<Rightarrow>
    'c world \<times> schedule \<Rightarrow> ('c world \<times> schedule) \<times> outcome" where
  "pushHandler rx cfg [] ws = (ws, Completed)"
| "pushHandler rx cfg (row # rows) ws =
     (case pushRow rx cfg row ws of
        (ws', Completed) \<Rightarrow> pushHandler rx cfg rows ws'
      | (ws', stop) \<Rightarrow> (ws', stop))"

section \<open>The migration\<close>

text \<open>A row of schema version 0 lacks \<open>policy_unresolved\<close>; the strategy adds it and drops nothing.\<close>

record attempt_v0 =
  v0_id :: string
  v0_code_id :: string
  v0_device_id :: string
  v0_scanned_at :: ms
  v0_status :: attempt_status
  v0_reason :: "reason option"
  v0_offline_override :: bool
  v0_override_by :: "string option"
  v0_unverified_code :: bool
  v0_pos_order_number :: "string option"
  v0_pos_business_date :: string
  v0_redeemed_value :: "rat option"
  v0_burn_ok :: "bool option"
  v0_burn_reason :: "reason option"
  v0_landed :: bool
  v0_winner_device :: "string option"
  v0_winner_at :: "ms option"

definition migrate_v1 :: "attempt_v0 \<Rightarrow> attempt" where
  "migrate_v1 d =
     \<lparr>a_id = v0_id d, code_id = v0_code_id d, device_id = v0_device_id d, scanned_at = v0_scanned_at d,
      status = v0_status d, reason = v0_reason d, offline_override = v0_offline_override d,
      override_by = v0_override_by d, unverified_code = v0_unverified_code d, policy_unresolved = False,
      pos_order_number = v0_pos_order_number d, pos_business_date = v0_pos_business_date d,
      redeemed_value = v0_redeemed_value d, burn_ok = v0_burn_ok d, burn_reason = v0_burn_reason d,
      landed = v0_landed d, winner_device = v0_winner_device d, winner_at = v0_winner_at d\<rparr>"

end
