(* ===== verification/PushProtocol.thy ===== *)
theory PushProtocol
  imports Complex_Main PushReplication
begin

text \<open>
  The protocol the push handler implements for one row \<open>i\<close>, as guarded atomic steps over the queue, the server and the replica,
  and the refinement: whatever the schedule does to a run of the handler, the world moves only by protocol
  steps. The properties of the queue are then invariants of this small relation.
\<close>

section \<open>The protocol\<close>

inductive proto :: "'c queue \<Rightarrow> push_cfg \<Rightarrow> string \<Rightarrow> 'c world \<Rightarrow> 'c world \<Rightarrow> bool" for rx cfg i where
  Env: "proto rx cfg i w (run_env1 rx cfg w e)"
| Wait: "proto rx cfg i w (w\<lparr>clock := clock w + winnerPollMs cfg\<rparr>)"
| Log: "rx_findOne rx (queue w) i = Some a \<Longrightarrow> status a = Pending \<Longrightarrow>
    (k = Redeem_Request \<longleftrightarrow> \<not> unverified_code a \<and> burn_ok a = None) \<Longrightarrow>
    proto rx cfg i w (fst (logged k a (w, is)))"
| Burn: "rx_findOne rx (queue w) i = Some a \<Longrightarrow> status a = Pending \<Longrightarrow> \<not> unverified_code a \<Longrightarrow> burn_ok a = None \<Longrightarrow>
    proto rx cfg i w (fst (act_redeem cfg a w))"
| Persist: "rx_findOne rx (queue w) i = Some a \<Longrightarrow> status a = Pending \<Longrightarrow> \<not> unverified_code a \<Longrightarrow> burn_ok a = None \<Longrightarrow>
    (b \<Longrightarrow> burned_by (srv w) (code_id a) = Some (deviceId cfg)) \<Longrightarrow>
    (\<not> b \<Longrightarrow> rs = Some Already_Used \<Longrightarrow> \<exists>d. d \<noteq> deviceId cfg \<and> burned_by (srv w) (code_id a) = Some d) \<Longrightarrow>
    proto rx cfg i w (fst (act_patch rx i
      (\<lambda>d. d\<lparr>burn_ok := Some b, burn_reason := rs, winner_device := map_option fst win, winner_at := Option.bind win snd\<rparr>) w))"
| Land: "rx_findOne rx (queue w) i = Some a \<Longrightarrow> status a = Pending \<Longrightarrow> \<not> unverified_code a \<Longrightarrow> burn_ok a = Some b \<Longrightarrow>
    proto rx cfg i w (fst (act_land cfg
      (land_body cfg a (if b then Accepted else Rejected) (if b then None else burn_reason a)) w))"
| Land_Unverified: "rx_findOne rx (queue w) i = Some a \<Longrightarrow> status a = Pending \<Longrightarrow> unverified_code a \<Longrightarrow>
    proto rx cfg i w (fst (act_land cfg (unverified_body cfg a) w))"
| Resolve: "rx_findOne rx (queue w) i = Some a \<Longrightarrow> status a = Pending \<Longrightarrow> scan_attempts (srv w) i \<noteq> None \<Longrightarrow>
    (if unverified_code a then st = Accepted \<and> rs = None
     else \<exists>b. burn_ok a = Some b \<and> st = (if b then Accepted else Rejected) \<and> rs = (if b then None else burn_reason a)) \<Longrightarrow>
    proto rx cfg i w (fst (act_patch rx i (\<lambda>d. d\<lparr>status := st, reason := rs, landed := True\<rparr>) w))"

abbreviation protos :: "'c queue \<Rightarrow> push_cfg \<Rightarrow> string \<Rightarrow> 'c world \<Rightarrow> 'c world \<Rightarrow> bool" where
  "protos rx cfg i \<equiv> (proto rx cfg i)\<^sup>*\<^sup>*"

text \<open>A run of the handler works on one row after the other.\<close>

definition queue_step :: "'c queue \<Rightarrow> push_cfg \<Rightarrow> 'c world \<Rightarrow> 'c world \<Rightarrow> bool" where
  "queue_step rx cfg w w' \<longleftrightarrow> (\<exists>i. proto rx cfg i w w')"

text \<open>What the replica says about a burn, the server said first.\<close>

definition replica_sound :: "'c world \<Rightarrow> bool" where
  "replica_sound w \<longleftrightarrow>
     (\<forall>c r d. replica w c = Some r \<longrightarrow> r_redeemed_by r = Some d \<longrightarrow> burned_by (srv w) c = Some d)"

section \<open>What each step leaves alone\<close>

lemma act_redeem_frame [simp]:
  "queue (fst (act_redeem cfg a w)) = queue w" "replica (fst (act_redeem cfg a w)) = replica w"
  "clock (fst (act_redeem cfg a w)) = clock w" "requestLog (fst (act_redeem cfg a w)) = requestLog w"
  "scan_attempts (srv (fst (act_redeem cfg a w))) = scan_attempts (srv w)"
  by (simp_all add: act_redeem_def case_prod_beta Let_def)

lemma act_redeem_final: "burned_by (srv w) j = Some d \<Longrightarrow> burned_by (srv (fst (act_redeem cfg a w))) j = Some d"
  by (simp add: act_redeem_def case_prod_beta Let_def redeem_final)

lemma act_land_frame [simp]:
  "queue (fst (act_land cfg r w)) = queue w" "replica (fst (act_land cfg r w)) = replica w"
  "clock (fst (act_land cfg r w)) = clock w" "requestLog (fst (act_land cfg r w)) = requestLog w"
  "codes (srv (fst (act_land cfg r w))) = codes (srv w)" "burned_by (srv (fst (act_land cfg r w))) c = burned_by (srv w) c"
  by (simp_all add: act_land_def case_prod_beta Let_def)

lemma act_patch_frame [simp]:
  "replica (fst (act_patch rx i f w)) = replica w" "srv (fst (act_patch rx i f w)) = srv w"
  "clock (fst (act_patch rx i f w)) = clock w" "requestLog (fst (act_patch rx i f w)) = requestLog w"
  "queue (fst (act_patch rx i f w)) = rx_patch rx (queue w) i f"
  by (simp_all add: act_patch_def)

lemma logged_frame [simp]:
  "queue (fst (logged k a ws)) = queue (fst ws)" "replica (fst (logged k a ws)) = replica (fst ws)"
  "srv (fst (logged k a ws)) = srv (fst ws)" "clock (fst (logged k a ws)) = clock (fst ws)"
  "snd (logged k a ws) = snd ws"
  "requestLog (fst (logged k a ws)) = requestLog (fst ws) @ [\<lparr>kind = k, attempt_id = a_id a, req_code_id = code_id a\<rparr>]"
  by (simp_all add: logged_def case_prod_beta)

lemma env_frame [simp]:
  "requestLog (run_env1 rx cfg w e) = requestLog w" "scan_attempts (srv (run_env1 rx cfg w e)) = scan_attempts (srv w)"
  by (simp_all add: run_env1_def split: env.split option.split)

lemma env_clock: "clock w \<le> clock (run_env1 rx cfg w e)"
  by (simp add: run_env1_def split: env.split option.split)

lemma env_final: "burned_by (srv w) j = Some d \<Longrightarrow> burned_by (srv (run_env1 rx cfg w e)) j = Some d"
  by (auto simp: run_env1_def redeem_final split: env.split option.split)

lemma proto_final: "proto rx cfg i w w' \<Longrightarrow> burned_by (srv w) j = Some d \<Longrightarrow> burned_by (srv w') j = Some d"
  by (induction rule: proto.induct) (simp_all add: env_final act_redeem_final)

lemma env_replica_sound:
  assumes "replica_sound w"
  shows "replica_sound (run_env1 rx cfg w e)"
proof (cases e)
  case (Remote_Redeem c d)
  then show ?thesis using assms by (auto simp: replica_sound_def run_env1_def redeem_final)
next
  case (Pull_Code c)
  have "burned_by (srv w) c = Some d" if "codes (srv w) c = Some r" "redeemed_by r = Some d" for r d
    using that by (simp add: burned_by_def)
  then show ?thesis using assms Pull_Code by (auto simp: replica_sound_def run_env1_def split: option.split)
qed (use assms in \<open>simp_all add: replica_sound_def run_env1_def\<close>)

lemma proto_replica_sound: "proto rx cfg i w w' \<Longrightarrow> replica_sound w \<Longrightarrow> replica_sound w'"
  by (induction rule: proto.induct) (auto simp: env_replica_sound, auto simp: replica_sound_def act_redeem_final)

lemma protos_replica_sound: "protos rx cfg i w w' \<Longrightarrow> replica_sound w \<Longrightarrow> replica_sound w'"
  by (induction rule: rtranclp_induct) (auto intro: proto_replica_sound)

section \<open>The queue as the protocol sees it\<close>

locale attempt_queue = rx_collection rx for rx :: "('c, attempt) rx_ops" +
  assumes key_a_id: "rx_key rx = a_id"
begin

lemma found_id: "rx_findOne rx q i = Some a \<Longrightarrow> a_id a = i"
  using findOne_key [of q i a] by (simp add: key_a_id)

lemma patched:
  "(\<And>d. a_id (f d) = a_id d) \<Longrightarrow>
     rx_findOne rx (rx_patch rx q i f) j = (if j = i then map_option f (rx_findOne rx q j) else rx_findOne rx q j)"
  by (rule patch_findOne) (simp add: key_a_id)

lemma first_live:
  "List.find (\<lambda>d. status d \<noteq> Rejected) (rx_find rx q (\<lambda>d. code_id d = c)) = None \<longleftrightarrow>
     (\<forall>j a. rx_findOne rx q j = Some a \<longrightarrow> code_id a = c \<longrightarrow> status a = Rejected)"
  unfolding find_None_iff find_set using found_id by (auto simp: key_a_id)

text \<open>A scan adds one fresh row, when no live attempt holds the code, or changes nothing.\<close>

lemma enqueue_cases:
  obtains "fst (enqueueAttempt rx day t i f q) = q"
  | q' where "fst (enqueueAttempt rx day t i f q) = q'" and "rx_findOne rx q i = None"
    and "\<And>j. rx_findOne rx q' j = (if j = i then Some (new_attempt day t i f) else rx_findOne rx q j)"
    and "\<And>j a. rx_findOne rx q j = Some a \<Longrightarrow> code_id a = f_code_id f \<Longrightarrow> status a = Rejected"
proof (cases "List.find (\<lambda>d. status d \<noteq> Rejected) (rx_find rx q (\<lambda>d. code_id d = f_code_id f))")
  case None
  note dead = first_live [THEN iffD1, OF None]
  show ?thesis
  proof (cases "rx_insert rx q (new_attempt day t i f)")
    case None': None
    show ?thesis by (rule that(1)) (simp add: enqueueAttempt_def Let_def None None')
  next
    case (Some q')
    have id: "rx_key rx (new_attempt day t i f) = i" by (simp add: key_a_id new_attempt_def)
    show ?thesis
    proof (rule that(2))
      show "fst (enqueueAttempt rx day t i f q) = q'" by (simp add: enqueueAttempt_def Let_def None Some)
      show "rx_findOne rx q i = None" using insert_taken [of q "new_attempt day t i f"] Some id by auto
      show "rx_findOne rx q' j = (if j = i then Some (new_attempt day t i f) else rx_findOne rx q j)" for j
        using insert_findOne [OF Some, of j] id by simp
    qed (use dead in blast)
  qed
qed (auto simp: enqueueAttempt_def intro: that(1))

lemma env_found: "rx_findOne rx (queue w) i = Some a \<Longrightarrow> rx_findOne rx (queue (run_env1 rx cfg w e)) i = Some a"
proof (cases e)
  case (Scan j f)
  assume a: "rx_findOne rx (queue w) i = Some a"
  show ?thesis
    by (rule enqueue_cases [of "iso_date cfg" "clock w" j f "queue w"]) (use a Scan in \<open>auto simp: run_env1_def\<close>)
qed (auto simp: run_env1_def split: option.split)

end

interpretation attempt_store: attempt_queue "list_store a_id"
  by unfold_locales (simp add: list_store_def)

end
