(* ===== verification/PushRefinement.thy ===== *)
theory PushRefinement
  imports Complex_Main PushProtocol
begin

text \<open>
  The handler refines the protocol. A stage predicate (the world was reached by protocol steps, the replica is
  sound, the row at hand reads as \<open>a\<close>) is carried from await to await by one rule for \<open>exchange\<close> and one for
  the poll.
\<close>

section \<open>Rules for the awaits\<close>

lemma run_env_keeps:
  assumes "\<And>w e. P w \<Longrightarrow> P (run_env1 rx cfg w e)" and "P w"
  shows "P (run_env rx cfg es w)"
  using assms unfolding run_env_def by (induction es arbitrary: w) auto

declare awaitWinner.simps [simp del]

text \<open>\<open>R\<close> speaks of the world and the outcome: an await that yields no value ends the run short of \<open>Completed\<close>.\<close>

lemma await_outcome_rule:
  assumes "P (fst ws)" and env: "\<And>w e. P w \<Longrightarrow> P (run_env1 rx cfg w e)"
    and act: "\<And>w. P w \<Longrightarrow> Q (snd (act w)) (fst (act w))"
    and P_R: "\<And>w out. P w \<Longrightarrow> out \<noteq> Completed \<Longrightarrow> R w out" and Q_R: "\<And>v w out. Q v w \<Longrightarrow> out \<noteq> Completed \<Longrightarrow> R w out"
    and cont: "\<And>v ws. Q v (fst ws) \<Longrightarrow> R (fst (fst (cont v ws))) (snd (cont v ws))"
  shows "R (fst (fst (andThen er (exchange rx cfg act ws) cont))) (snd (andThen er (exchange rx cfg act ws) cont))"
proof -
  obtain w sch where ws: "ws = (w, sch)" by fastforce
  show ?thesis
  proof (cases sch)
    case Nil
    then show ?thesis using assms(1) P_R by (simp add: ws exchange_def andThen_def)
  next
    case (Cons i js)
    let ?w1 = "run_env rx cfg (before i) w"
    have w1: "P ?w1" using run_env_keeps [of P rx cfg, OF env] assms(1) ws by simp
    obtain w2 v where act2: "act ?w1 = (w2, v)" by fastforce
    have w2: "Q v w2" using act [OF w1] by (simp add: act2)
    have "R (fst (fst (cont v (w2, js)))) (snd (cont v (w2, js)))" by (rule cont) (simp add: w2)
    then show ?thesis
      using P_R [OF w1] Q_R [OF w2] by (cases "fate i") (simp_all add: ws Cons exchange_def act2 andThen_def)
  qed
qed

lemma await_rule:
  assumes "P (fst ws)" and "\<And>w e. P w \<Longrightarrow> P (run_env1 rx cfg w e)"
    and "\<And>w. P w \<Longrightarrow> Q (snd (act w)) (fst (act w))"
    and "\<And>w. P w \<Longrightarrow> I w" and "\<And>v w. Q v w \<Longrightarrow> I w"
    and "\<And>v ws. Q v (fst ws) \<Longrightarrow> I (fst (fst (cont v ws)))"
  shows "I (fst (fst (andThen er (exchange rx cfg act ws) cont)))"
  by (rule await_outcome_rule [where P = P and Q = Q and R = "\<lambda>w out. I w"]) (use assms in auto)

lemma awaitWinner_rule:
  assumes "P w" and env: "\<And>w e. P w \<Longrightarrow> P (run_env1 rx cfg w e)"
    and wait: "\<And>w. P w \<Longrightarrow> P (w\<lparr>clock := clock w + winnerPollMs cfg\<rparr>)"
    and "awaitWinner rx cfg dl c w sch = ((w', js), r)"
  shows "P w'" and "r = Reply (Some (d, t)) \<Longrightarrow> \<exists>row. replica w' c = Some row \<and> r_redeemed_by row = Some d"
proof -
  have "P w' \<and> (r = Reply (Some (d, t)) \<longrightarrow> (\<exists>row. replica w' c = Some row \<and> r_redeemed_by row = Some d))"
    using assms(1,4)
  proof (induction sch arbitrary: w)
    case Nil
    then show ?case by (auto simp: awaitWinner.simps [of _ _ _ _ _ "[]"] non_empty_def split: option.splits if_splits)
  next
    case (Cons i sch)
    have "P (run_env rx cfg (before i) (w\<lparr>clock := clock w + winnerPollMs cfg\<rparr>))"
      by (rule run_env_keeps [of P, OF env wait [OF Cons.prems(1)]])
    from Cons.IH [OF this] this Cons.prems show ?case
      by (subst (asm) awaitWinner.simps) (auto simp: non_empty_def Let_def split: option.splits if_splits)
  qed
  then show "P w'" and "r = Reply (Some (d, t)) \<Longrightarrow> \<exists>row. replica w' c = Some row \<and> r_redeemed_by row = Some d" by auto
qed

lemma poll_outcome_rule:
  assumes "P (fst ws)" and env: "\<And>w e. P w \<Longrightarrow> P (run_env1 rx cfg w e)"
    and wait: "\<And>w. P w \<Longrightarrow> P (w\<lparr>clock := clock w + winnerPollMs cfg\<rparr>)"
    and P_R: "\<And>w out. P w \<Longrightarrow> out \<noteq> Completed \<Longrightarrow> R w out"
    and none: "\<And>ws. P (fst ws) \<Longrightarrow> R (fst (fst (cont None ws))) (snd (cont None ws))"
    and some: "\<And>ws d t row. P (fst ws) \<Longrightarrow> replica (fst ws) c = Some row \<Longrightarrow> r_redeemed_by row = Some d \<Longrightarrow>
      R (fst (fst (cont (Some (d, t)) ws))) (snd (cont (Some (d, t)) ws))"
  shows "R (fst (fst (andThen er (awaitWinner rx cfg dl c (fst ws) (snd ws)) cont)))
    (snd (andThen er (awaitWinner rx cfg dl c (fst ws) (snd ws)) cont))"
proof -
  obtain w' js r where a: "awaitWinner rx cfg dl c (fst ws) (snd ws) = ((w', js), r)" by (metis prod.exhaust)
  note facts = awaitWinner_rule [of P, OF assms(1) env wait a]
  show ?thesis
  proof (cases r)
    case (Reply win)
    then show ?thesis using facts none some by (cases win) (fastforce simp: a andThen_def)+
  qed (use facts(1) P_R in \<open>simp_all add: a andThen_def\<close>)
qed

lemma poll_rule:
  assumes "P (fst ws)" and "\<And>w e. P w \<Longrightarrow> P (run_env1 rx cfg w e)"
    and "\<And>w. P w \<Longrightarrow> P (w\<lparr>clock := clock w + winnerPollMs cfg\<rparr>)"
    and "\<And>w. P w \<Longrightarrow> I w" and "\<And>ws. P (fst ws) \<Longrightarrow> I (fst (fst (cont None ws)))"
    and "\<And>ws d t row. P (fst ws) \<Longrightarrow> replica (fst ws) c = Some row \<Longrightarrow> r_redeemed_by row = Some d \<Longrightarrow>
      I (fst (fst (cont (Some (d, t)) ws)))"
  shows "I (fst (fst (andThen er (awaitWinner rx cfg dl c (fst ws) (snd ws)) cont)))"
  by (rule poll_outcome_rule [where P = P and R = "\<lambda>w out. I w"]) (use assms in auto)

section \<open>Stages\<close>

definition at_row :: "'c queue \<Rightarrow> push_cfg \<Rightarrow> 'c world \<Rightarrow> attempt \<Rightarrow> 'c world \<Rightarrow> bool" where
  "at_row rx cfg w0 a w \<longleftrightarrow> protos rx cfg (a_id a) w0 w \<and> replica_sound w \<and> rx_findOne rx (queue w) (a_id a) = Some a"

lemma at_row_protos: "at_row rx cfg w0 a w \<Longrightarrow> protos rx cfg (a_id a) w0 w"
  by (simp add: at_row_def)

lemma at_row_step:
  assumes "at_row rx cfg w0 a w" and "proto rx cfg (a_id a) w w'" and "a_id b = a_id a" and "rx_findOne rx (queue w') (a_id b) = Some b"
  shows "at_row rx cfg w0 b w'"
  using assms proto_replica_sound [of rx cfg "a_id a" w w'] by (auto simp: at_row_def)

context attempt_queue
begin

lemma at_row_env: "at_row rx cfg w0 a w \<Longrightarrow> at_row rx cfg w0 a (run_env1 rx cfg w e)"
  by (rule at_row_step [OF _ proto.Env refl]) (auto simp: at_row_def env_found)

lemma at_row_wait: "at_row rx cfg w0 a w \<Longrightarrow> at_row rx cfg w0 a (w\<lparr>clock := clock w + winnerPollMs cfg\<rparr>)"
  by (rule at_row_step [OF _ proto.Wait refl]) (auto simp: at_row_def)

lemma at_row_logged:
  assumes "at_row rx cfg w0 a (fst ws)" and "status a = Pending"
    and "k = Redeem_Request \<longleftrightarrow> \<not> unverified_code a \<and> burn_ok a = None" and "a_id d = a_id a" "code_id d = code_id a"
  shows "at_row rx cfg w0 a (fst (logged k d ws))"
proof (rule at_row_step [OF assms(1) _ refl])
  have "logged k d ws = logged k a (fst ws, snd ws)" using assms(4,5) by (simp add: logged_def case_prod_beta)
  then show "proto rx cfg (a_id a) (fst ws) (fst (logged k d ws))"
    using proto.Log [of rx "fst ws" "a_id a" a k cfg "snd ws"] assms(1-3) by (simp add: at_row_def)
qed (use assms(1) in \<open>simp add: at_row_def\<close>)

lemma resolve_row_refines:
  assumes "at_row rx cfg w0 a (fst ws)" and "status a = Pending" and "scan_attempts (srv (fst ws)) (a_id a) \<noteq> None"
    and "a_id doc = a_id a"
    and "if unverified_code a then st = Accepted \<and> rs = None
      else \<exists>b. burn_ok a = Some b \<and> st = (if b then Accepted else Rejected) \<and> rs = (if b then None else burn_reason a)"
  shows "protos rx cfg (a_id a) w0 (fst (fst (resolve_row rx cfg doc st rs ws)))"
  unfolding resolve_row_def
proof (rule await_rule [where P = "\<lambda>w. at_row rx cfg w0 a w \<and> scan_attempts (srv w) (a_id a) \<noteq> None"
      and Q = "\<lambda>_. protos rx cfg (a_id a) w0"])
  fix w
  assume w: "at_row rx cfg w0 a w \<and> scan_attempts (srv w) (a_id a) \<noteq> None"
  have "proto rx cfg (a_id a) w (fst (act_patch rx (a_id a) (\<lambda>d. d\<lparr>status := st, reason := rs, landed := True\<rparr>) w))"
    by (rule proto.Resolve [of _ _ _ a]) (use w assms(2,5) in \<open>simp_all add: at_row_def\<close>)
  then show "protos rx cfg (a_id a) w0 (fst (act_patch rx (a_id doc) (\<lambda>d. d\<lparr>status := st, reason := rs, landed := True\<rparr>) w))"
    unfolding assms(4) using w by (auto simp: at_row_def)
qed (use assms in \<open>auto simp: at_row_env at_row_protos\<close>)

lemma unverified_refines:
  assumes "at_row rx cfg w0 doc (fst ws)" and "status doc = Pending" and "unverified_code doc"
  shows "protos rx cfg (a_id doc) w0 (fst (fst (push_unverified rx cfg doc ws)))"
  unfolding push_unverified_def
proof (rule await_rule [where P = "at_row rx cfg w0 doc"
      and Q = "\<lambda>http w. at_row rx cfg w0 doc w \<and> (http = 201 \<or> http = 409 \<longrightarrow> scan_attempts (srv w) (a_id doc) \<noteq> None)"])
  show "at_row rx cfg w0 doc (fst (logged Land_Unverified_Request doc ws))"
    by (rule at_row_logged [OF assms(1,2)]) (simp_all add: assms)
next
  fix w
  assume w: "at_row rx cfg w0 doc w"
  then have "at_row rx cfg w0 doc (fst (act_land cfg (unverified_body cfg doc) w))"
    by (rule at_row_step [OF _ proto.Land_Unverified refl]) (use w assms in \<open>auto simp: at_row_def\<close>)
  moreover have "snd (act_land cfg (unverified_body cfg doc) w) = 201 \<or> snd (act_land cfg (unverified_body cfg doc) w) = 409 \<longrightarrow>
      scan_attempts (srv (fst (act_land cfg (unverified_body cfg doc) w))) (a_id doc) \<noteq> None"
    using insert_landed [of "deviceId cfg" "unverified_body cfg doc" "srv w"]
    by (simp add: act_land_def case_prod_beta Let_def unverified_body_def land_body_def)
  ultimately show "at_row rx cfg w0 doc (fst (act_land cfg (unverified_body cfg doc) w)) \<and>
      (snd (act_land cfg (unverified_body cfg doc) w) = 201 \<or> snd (act_land cfg (unverified_body cfg doc) w) = 409 \<longrightarrow>
        scan_attempts (srv (fst (act_land cfg (unverified_body cfg doc) w))) (a_id doc) \<noteq> None)" by blast
qed (use assms resolve_row_refines [of cfg w0 doc _ doc Accepted None] in \<open>auto simp: at_row_env at_row_protos\<close>)

lemma landing_refines:
  assumes "at_row rx cfg w0 a (fst ws)" and "status a = Pending" and "\<not> unverified_code a"
    and "burn_ok a = Some b" and "burn_reason a = rs" and "\<And>st r. land_body cfg doc st r = land_body cfg a st r"
    and "a_id doc = a_id a" "code_id doc = code_id a"
  shows "protos rx cfg (a_id a) w0 (fst (fst (push_landing rx cfg doc b rs ws)))"
  unfolding push_landing_def Let_def
proof (rule await_rule [where P = "at_row rx cfg w0 a"
      and Q = "\<lambda>http w. at_row rx cfg w0 a w \<and> (http = 201 \<or> http = 409 \<longrightarrow> scan_attempts (srv w) (a_id a) \<noteq> None)"])
  show "at_row rx cfg w0 a (fst (logged Land_Request doc ws))"
    by (rule at_row_logged [OF assms(1,2)]) (simp_all add: assms)
next
  fix w
  assume w: "at_row rx cfg w0 a w"
  let ?body = "land_body cfg doc (if b then Accepted else Rejected) (if b then None else rs)"
  have "at_row rx cfg w0 a (fst (act_land cfg ?body w))"
    unfolding assms(6) using w
    by (rule at_row_step [OF _ proto.Land [of _ _ "a_id a" a b cfg, unfolded assms(5)] refl])
      (use w assms(2-4) in \<open>auto simp: at_row_def\<close>)
  moreover have "snd (act_land cfg ?body w) = 201 \<or> snd (act_land cfg ?body w) = 409 \<longrightarrow>
      scan_attempts (srv (fst (act_land cfg ?body w))) (a_id a) \<noteq> None"
    unfolding assms(6)
    using insert_landed [of "deviceId cfg" "land_body cfg a (if b then Accepted else Rejected) (if b then None else rs)" "srv w"]
    by (simp add: act_land_def case_prod_beta Let_def land_body_def)
  ultimately show "at_row rx cfg w0 a (fst (act_land cfg ?body w)) \<and>
      (snd (act_land cfg ?body w) = 201 \<or> snd (act_land cfg ?body w) = 409 \<longrightarrow>
        scan_attempts (srv (fst (act_land cfg ?body w))) (a_id a) \<noteq> None)" by blast
next
  fix http :: nat and ws' :: "'c world \<times> schedule"
  assume "at_row rx cfg w0 a (fst ws') \<and> (http = 201 \<or> http = 409 \<longrightarrow> scan_attempts (srv (fst ws')) (a_id a) \<noteq> None)"
  then show "protos rx cfg (a_id a) w0 (fst (fst (if http \<noteq> 201 \<and> http \<noteq> 409 then (ws', Threw (Landing_Http http))
      else resolve_row rx cfg doc (if b then Accepted else Rejected) (if b then None else rs) ws')))"
    using resolve_row_refines [of cfg w0 a ws' doc "if b then Accepted else Rejected" "if b then None else rs"] assms(2-5,7)
    by (auto simp: at_row_protos)
qed (auto simp: at_row_env at_row_protos)

lemma persist_refines:
  assumes "at_row rx cfg w0 doc (fst ws)" and "status doc = Pending" and "\<not> unverified_code doc" and "burn_ok doc = None"
    and "b \<Longrightarrow> burned_by (srv (fst ws)) (code_id doc) = Some (deviceId cfg)"
    and "\<not> b \<Longrightarrow> rs = Some Already_Used \<Longrightarrow> \<exists>d. d \<noteq> deviceId cfg \<and> burned_by (srv (fst ws)) (code_id doc) = Some d"
  shows "protos rx cfg (a_id doc) w0 (fst (fst (persist_burn rx cfg doc b rs win ws)))"
  unfolding persist_burn_def
proof (rule await_rule [where
      P = "\<lambda>w. at_row rx cfg w0 doc w \<and> (b \<longrightarrow> burned_by (srv w) (code_id doc) = Some (deviceId cfg)) \<and>
        (\<not> b \<and> rs = Some Already_Used \<longrightarrow> (\<exists>d. d \<noteq> deviceId cfg \<and> burned_by (srv w) (code_id doc) = Some d))"
      and Q = "\<lambda>_. at_row rx cfg w0 (doc\<lparr>burn_ok := Some b, burn_reason := rs, winner_device := map_option fst win,
        winner_at := Option.bind win snd\<rparr>)"])
  fix w
  let ?f = "\<lambda>d. d\<lparr>burn_ok := Some b, burn_reason := rs, winner_device := map_option fst win, winner_at := Option.bind win snd\<rparr>"
  assume w: "at_row rx cfg w0 doc w \<and> (b \<longrightarrow> burned_by (srv w) (code_id doc) = Some (deviceId cfg)) \<and>
        (\<not> b \<and> rs = Some Already_Used \<longrightarrow> (\<exists>d. d \<noteq> deviceId cfg \<and> burned_by (srv w) (code_id doc) = Some d))"
  show "at_row rx cfg w0 (?f doc) (fst (act_patch rx (a_id doc) ?f w))"
    by (rule at_row_step [OF conjunct1 [OF w] proto.Persist [of _ _ _ doc]])
      (use w assms(2-4) in \<open>auto simp: at_row_def patched\<close>)
next
  fix w e
  assume "at_row rx cfg w0 doc w \<and> (b \<longrightarrow> burned_by (srv w) (code_id doc) = Some (deviceId cfg)) \<and>
        (\<not> b \<and> rs = Some Already_Used \<longrightarrow> (\<exists>d. d \<noteq> deviceId cfg \<and> burned_by (srv w) (code_id doc) = Some d))"
  then show "at_row rx cfg w0 doc (run_env1 rx cfg w e) \<and>
        (b \<longrightarrow> burned_by (srv (run_env1 rx cfg w e)) (code_id doc) = Some (deviceId cfg)) \<and>
        (\<not> b \<and> rs = Some Already_Used \<longrightarrow>
          (\<exists>d. d \<noteq> deviceId cfg \<and> burned_by (srv (run_env1 rx cfg w e)) (code_id doc) = Some d))"
    by (auto simp: at_row_env env_final)
next
  fix v :: unit and ws' :: "'c world \<times> schedule"
  assume "at_row rx cfg w0 (doc\<lparr>burn_ok := Some b, burn_reason := rs, winner_device := map_option fst win,
        winner_at := Option.bind win snd\<rparr>) (fst ws')"
  then have "protos rx cfg (a_id (doc\<lparr>burn_ok := Some b, burn_reason := rs, winner_device := map_option fst win,
        winner_at := Option.bind win snd\<rparr>)) w0 (fst (fst (push_landing rx cfg doc b rs ws')))"
    by (rule landing_refines) (simp_all add: assms land_body_def)
  then show "protos rx cfg (a_id doc) w0 (fst (fst (push_landing rx cfg doc b rs ws')))" by simp
qed (use assms in \<open>auto simp: at_row_protos dest: at_row_protos\<close>)

lemma judge_refines:
  assumes "at_row rx cfg w0 doc (fst ws)" and "status doc = Pending" and "\<not> unverified_code doc" and "burn_ok doc = None"
    and "ok v \<Longrightarrow> burned_by (srv (fst ws)) (code_id doc) = Some (deviceId cfg)"
  shows "protos rx cfg (a_id doc) w0 (fst (fst (judge rx cfg doc v ws)))"
proof (cases "\<not> ok v \<and> why v = Some Already_Used")
  case True
  then have "judge rx cfg doc v ws =
      andThen Network_Failure (awaitWinner rx cfg (clock (fst ws) + winnerWaitMs cfg) (code_id doc) (fst ws) (snd ws))
        (\<lambda>win ws. case win of None \<Rightarrow> (ws, Threw No_Winner_Yet)
           | Some (dev, at_ms) \<Rightarrow> if dev = deviceId cfg then persist_burn rx cfg doc True None (kept_winner doc) ws
               else persist_burn rx cfg doc False (Some Already_Used) (Some (dev, at_ms)) ws)"
    by (simp add: judge_def)
  also have "protos rx cfg (a_id doc) w0 (fst (fst \<dots>))"
  proof (rule poll_rule [where P = "at_row rx cfg w0 doc"])
    fix ws' :: "'c world \<times> schedule" and d t row
    assume a: "at_row rx cfg w0 doc (fst ws')" and r: "replica (fst ws') (code_id doc) = Some row" "r_redeemed_by row = Some d"
    have "burned_by (srv (fst ws')) (code_id doc) = Some d" using a r by (auto simp: at_row_def replica_sound_def)
    then show "protos rx cfg (a_id doc) w0 (fst (fst (case Some (d, t) of None \<Rightarrow> (ws', Threw No_Winner_Yet)
           | Some (dev, at_ms) \<Rightarrow> if dev = deviceId cfg then persist_burn rx cfg doc True None (kept_winner doc) ws'
               else persist_burn rx cfg doc False (Some Already_Used) (Some (dev, at_ms)) ws')))"
      using persist_refines [OF a assms(2-4)] by auto
  qed (use assms(1) in \<open>auto simp: at_row_env at_row_wait at_row_protos\<close>)
  finally show ?thesis .
next
  case False
  then have "judge rx cfg doc v ws = persist_burn rx cfg doc (ok v) (if ok v then None else why v) (kept_winner doc) ws"
    by (auto simp: judge_def Let_def)
  then show ?thesis using persist_refines [OF assms(1-4), of "ok v" "if ok v then None else why v" "kept_winner doc"] assms(5) False
    by (cases "ok v") simp_all
qed

lemma verified_refines:
  assumes "at_row rx cfg w0 doc (fst ws)" and "status doc = Pending" and "\<not> unverified_code doc"
  shows "protos rx cfg (a_id doc) w0 (fst (fst (push_verified rx cfg doc ws)))"
proof (cases "burn_ok doc")
  case (Some b)
  then show ?thesis using landing_refines [OF assms, of b "burn_reason doc" doc] by (simp add: push_verified_def)
next
  case None
  show ?thesis
    unfolding push_verified_def None option.case
  proof (rule await_rule [where P = "at_row rx cfg w0 doc"
        and Q = "\<lambda>ans w. at_row rx cfg w0 doc w \<and>
          (\<forall>v. ans = Inr v \<longrightarrow> ok v \<longrightarrow> burned_by (srv w) (code_id doc) = Some (deviceId cfg))"])
    show "at_row rx cfg w0 doc (fst (logged Redeem_Request doc ws))"
      by (rule at_row_logged [OF assms(1,2)]) (simp_all add: assms None)
  next
    fix w
    assume w: "at_row rx cfg w0 doc w"
    then have "at_row rx cfg w0 doc (fst (act_redeem cfg doc w))"
      by (rule at_row_step [OF _ proto.Burn refl]) (use w assms None in \<open>auto simp: at_row_def\<close>)
    moreover have "burned_by (srv (fst (act_redeem cfg doc w))) (code_id doc) = Some (deviceId cfg)"
      if "snd (act_redeem cfg doc w) = Inr v" "ok v" for v
      using that redeem_ok [of "code_id doc" "deviceId cfg" "clock w" "srv w"]
      by (auto simp: act_redeem_def case_prod_beta Let_def split: if_splits)
    ultimately show "at_row rx cfg w0 doc (fst (act_redeem cfg doc w)) \<and>
        (\<forall>v. snd (act_redeem cfg doc w) = Inr v \<longrightarrow> ok v \<longrightarrow>
          burned_by (srv (fst (act_redeem cfg doc w))) (code_id doc) = Some (deviceId cfg))" by blast
  next
    fix ans :: "nat + verdict" and ws' :: "'c world \<times> schedule"
    assume "at_row rx cfg w0 doc (fst ws') \<and>
        (\<forall>v. ans = Inr v \<longrightarrow> ok v \<longrightarrow> burned_by (srv (fst ws')) (code_id doc) = Some (deviceId cfg))"
    then show "protos rx cfg (a_id doc) w0 (fst (fst (case ans of Inl http \<Rightarrow> (ws', Threw (Redeem_Http http))
        | Inr v \<Rightarrow> judge rx cfg doc v ws')))"
      using judge_refines [of cfg w0 doc ws'] assms(2,3) None by (cases ans) (auto simp: at_row_protos)
  qed (auto simp: at_row_env at_row_protos)
qed

lemma pushRow_refines:
  assumes "replica_sound (fst ws)"
  shows "protos rx cfg (fst row) (fst ws) (fst (fst (pushRow rx cfg row ws)))"
proof (cases "snd row = Pending \<and> (\<exists>doc. rx_findOne rx (queue (fst ws)) (fst row) = Some doc \<and> status doc = Pending)")
  case True
  then obtain doc where doc: "rx_findOne rx (queue (fst ws)) (fst row) = Some doc" "status doc = Pending" by blast
  have "at_row rx cfg (fst ws) doc (fst ws)" using doc assms found_id by (auto simp: at_row_def)
  then show ?thesis
    using unverified_refines [of cfg "fst ws" doc ws] verified_refines [of cfg "fst ws" doc ws] doc True found_id [OF doc(1)]
    by (simp add: pushRow_def)
next
  case False
  then show ?thesis by (auto simp: pushRow_def split: option.split)
qed

lemma protos_queue_steps: "protos rx cfg i w w' \<Longrightarrow> (queue_step rx cfg)\<^sup>*\<^sup>* w w'"
  by (induction rule: rtranclp_induct) (auto simp: queue_step_def intro: rtranclp.rtrancl_into_rtrancl)

lemma pushHandler_refines:
  assumes "replica_sound (fst ws)"
  shows "(queue_step rx cfg)\<^sup>*\<^sup>* (fst ws) (fst (fst (pushHandler rx cfg rows ws)))"
  using assms
proof (induction rows arbitrary: ws)
  case (Cons row rows)
  obtain ws' out where r: "pushRow rx cfg row ws = (ws', out)" by fastforce
  have step: "protos rx cfg (fst row) (fst ws) (fst ws')" using pushRow_refines [OF Cons.prems, of cfg row] by (simp add: r)
  then have "replica_sound (fst ws')" using Cons.prems by (rule protos_replica_sound)
  from Cons.IH [OF this] protos_queue_steps [OF step] show ?case by (cases out) (auto simp: r)
qed simp

end

end
