(* ===== verification/PushInvariants.thy ===== *)
theory PushInvariants
  imports Complex_Main PushRefinement
begin

text \<open>
  Invariants of the protocol and their passage to every history of a device: a row tells the truth, one live
  attempt per code, resolved rows and persisted burns stay as they are.
\<close>

section \<open>The truth of a row\<close>

definition settled_as :: "bool \<Rightarrow> reason option \<Rightarrow> attempt_status \<Rightarrow> reason option \<Rightarrow> bool" where
  "settled_as b br st rs \<longleftrightarrow> st = (if b then Accepted else Rejected) \<and> rs = (if b then None else br)"

definition truthful :: "push_cfg \<Rightarrow> server \<Rightarrow> attempt \<Rightarrow> bool" where
  "truthful cfg s a \<longleftrightarrow>
     (status a \<noteq> Pending \<longrightarrow> scan_attempts s (a_id a) \<noteq> None) \<and>
     (if unverified_code a
      then (\<forall>r. scan_attempts s (a_id a) = Some r \<longrightarrow> settled_as True None (l_status r) (l_reason r)) \<and>
           (status a \<noteq> Pending \<longrightarrow> settled_as True None (status a) (reason a))
      else (\<forall>r. scan_attempts s (a_id a) = Some r \<longrightarrow>
                (\<exists>b. burn_ok a = Some b \<and> settled_as b (burn_reason a) (l_status r) (l_reason r))) \<and>
           (status a \<noteq> Pending \<longrightarrow> (\<exists>b. burn_ok a = Some b \<and> settled_as b (burn_reason a) (status a) (reason a))) \<and>
           (burn_ok a = Some True \<longrightarrow> burned_by s (code_id a) = Some (deviceId cfg)) \<and>
           (burn_ok a = Some False \<longrightarrow> burn_reason a = Some Already_Used \<longrightarrow>
              (\<exists>d. d \<noteq> deviceId cfg \<and> burned_by s (code_id a) = Some d)))"

lemma truthful_mono:
  assumes "truthful cfg s a" and "scan_attempts s' (a_id a) = scan_attempts s (a_id a)"
    and "\<And>d. burned_by s (code_id a) = Some d \<Longrightarrow> burned_by s' (code_id a) = Some d"
  shows "truthful cfg s' a"
  using assms by (cases "unverified_code a") (auto simp: truthful_def)

definition all_truthful :: "'c queue \<Rightarrow> push_cfg \<Rightarrow> 'c world \<Rightarrow> bool" where
  "all_truthful rx cfg w \<longleftrightarrow> (\<forall>i a. rx_findOne rx (queue w) i = Some a \<longrightarrow> truthful cfg (srv w) a)"

definition one_live :: "'c queue \<Rightarrow> 'c world \<Rightarrow> bool" where
  "one_live rx w \<longleftrightarrow>
     (\<forall>i j a b. rx_findOne rx (queue w) i = Some a \<longrightarrow> rx_findOne rx (queue w) j = Some b \<longrightarrow>
        code_id a = code_id b \<longrightarrow> status a \<noteq> Rejected \<longrightarrow> status b \<noteq> Rejected \<longrightarrow> i = j)"

text \<open>The row a scan adds: under a fresh id, for a code no live attempt holds.\<close>

definition scanned :: "'c queue \<Rightarrow> push_cfg \<Rightarrow> 'c world \<Rightarrow> env \<Rightarrow> string \<Rightarrow> attempt \<Rightarrow> bool" where
  "scanned rx cfg w e i a \<longleftrightarrow>
     (\<exists>f. e = Scan i f \<and> scan_attempts (srv w) i = None \<and> a = new_attempt (iso_date cfg) (clock w) i f \<and>
        (\<forall>j b. rx_findOne rx (queue w) j = Some b \<longrightarrow> code_id b = f_code_id f \<longrightarrow> status b = Rejected))"

context attempt_queue
begin

lemma env_row:
  assumes "rx_findOne rx (queue (run_env1 rx cfg w e)) i = Some a"
  shows "rx_findOne rx (queue w) i = Some a \<or> scanned rx cfg w e i a"
proof (cases e)
  case (Scan j f)
  show ?thesis
    by (rule enqueue_cases [of "iso_date cfg" "clock w" j f "queue w"])
      (use assms Scan in \<open>auto simp: run_env1_def scanned_def split: if_splits\<close>)
qed (use assms in \<open>auto simp: run_env1_def split: option.splits if_splits\<close>)

lemma env_truthful:
  assumes "all_truthful rx cfg w"
  shows "all_truthful rx cfg (run_env1 rx cfg w e)"
  unfolding all_truthful_def
proof (intro allI impI)
  fix i a
  assume "rx_findOne rx (queue (run_env1 rx cfg w e)) i = Some a"
  from env_row [OF this] show "truthful cfg (srv (run_env1 rx cfg w e)) a"
  proof
    assume "rx_findOne rx (queue w) i = Some a"
    then have "truthful cfg (srv w) a" using assms by (simp add: all_truthful_def)
    then show ?thesis by (rule truthful_mono) (simp_all add: env_final)
  next
    assume "scanned rx cfg w e i a"
    then show ?thesis by (auto simp: scanned_def truthful_def new_attempt_def)
  qed
qed

lemma land_truthful:
  assumes "all_truthful rx cfg w" and "rx_findOne rx (queue w) i = Some a" and "l_id r = i"
    and "if unverified_code a then settled_as True None (l_status r) (l_reason r)
      else \<exists>b. burn_ok a = Some b \<and> settled_as b (burn_reason a) (l_status r) (l_reason r)"
  shows "all_truthful rx cfg (fst (act_land cfg r w))"
  unfolding all_truthful_def
proof (intro allI impI)
  fix j b
  assume "rx_findOne rx (queue (fst (act_land cfg r w))) j = Some b"
  then have b: "rx_findOne rx (queue w) j = Some b" by simp
  then have t: "truthful cfg (srv w) b" using assms(1) by (simp add: all_truthful_def)
  have srv: "scan_attempts (srv (fst (act_land cfg r w))) (a_id b) =
      (if a_id b = i \<and> l_device_id r = deviceId cfg \<and> names_a_code r \<and> scan_attempts (srv w) (a_id b) = None then Some r
       else scan_attempts (srv w) (a_id b))"
    using assms(3) by (simp add: act_land_def case_prod_beta Let_def insert_scan_attempts)
  show "truthful cfg (srv (fst (act_land cfg r w))) b"
  proof (cases "a_id b = i \<and> scan_attempts (srv w) i = None")
    case True
    then have "b = a" using b assms(2) found_id by force
    then show ?thesis using t assms(4) srv True by (cases "unverified_code a") (auto simp: truthful_def)
  next
    case False
    then show ?thesis using srv by (intro truthful_mono [OF t]) auto
  qed
qed

lemma patch_truthful:
  assumes "all_truthful rx cfg w" and "rx_findOne rx (queue w) i = Some a" and "\<And>d. a_id (f d) = a_id d"
    and "truthful cfg (srv w) (f a)"
  shows "all_truthful rx cfg (fst (act_patch rx i f w))"
  using assms by (auto simp: all_truthful_def patched)

lemma proto_truthful: "proto rx cfg i w w' \<Longrightarrow> all_truthful rx cfg w \<Longrightarrow> all_truthful rx cfg w'"
proof (induction rule: proto.induct)
  case (Env w e)
  then show ?case by (rule env_truthful)
next
  case (Burn w a)
  show ?case
    unfolding all_truthful_def
  proof (intro allI impI)
    fix j b
    assume "rx_findOne rx (queue (fst (act_redeem cfg a w))) j = Some b"
    then have "truthful cfg (srv w) b" using Burn.prems by (simp add: all_truthful_def)
    then show "truthful cfg (srv (fst (act_redeem cfg a w))) b" by (rule truthful_mono) (simp_all add: act_redeem_final)
  qed
next
  case (Persist w a b rs win)
  have "truthful cfg (srv w) a" using Persist by (simp add: all_truthful_def)
  with Persist show ?case by (intro patch_truthful [OF Persist.prems Persist.hyps(1)]) (auto simp: truthful_def)
next
  case (Land w a b)
  then show ?case by (intro land_truthful [of cfg w i a]) (auto simp: land_body_def settled_as_def found_id)
next
  case (Land_Unverified w a)
  then show ?case
    by (intro land_truthful [of cfg w i a]) (auto simp: unverified_body_def land_body_def settled_as_def found_id)
next
  case (Resolve w a st rs)
  have "truthful cfg (srv w) a" using Resolve by (simp add: all_truthful_def)
  with Resolve show ?case
    by (intro patch_truthful [OF Resolve.prems Resolve.hyps(1)])
      (auto simp: truthful_def settled_as_def found_id split: if_splits)
qed (simp_all add: all_truthful_def)

lemma patch_one_live:
  assumes "one_live rx w" and "rx_findOne rx (queue w) i = Some a" and "status a = Pending"
    and "\<And>d. a_id (f d) = a_id d" and "\<And>d. code_id (f d) = code_id d"
  shows "one_live rx (fst (act_patch rx i f w))"
  unfolding one_live_def
proof (intro allI impI)
  fix j k b c
  assume r: "rx_findOne rx (queue (fst (act_patch rx i f w))) j = Some b"
    "rx_findOne rx (queue (fst (act_patch rx i f w))) k = Some c" "code_id b = code_id c"
    "status b \<noteq> Rejected" "status c \<noteq> Rejected"
  have old: "\<exists>d. rx_findOne rx (queue w) l = Some d \<and> code_id d = code_id e \<and> status d \<noteq> Rejected"
    if "rx_findOne rx (queue (fst (act_patch rx i f w))) l = Some e" "status e \<noteq> Rejected" for l e
    using that assms(2-5) by (cases "l = i") (auto simp: patched)
  from old [OF r(1,4)] old [OF r(2,5)] r(3) assms(1) show "j = k" unfolding one_live_def by metis
qed

lemma proto_one_live: "proto rx cfg i w w' \<Longrightarrow> one_live rx w \<Longrightarrow> one_live rx w'"
proof (induction rule: proto.induct)
  case (Env w e)
  show ?case
    unfolding one_live_def
  proof (intro allI impI)
    fix i j a b
    assume a: "rx_findOne rx (queue (run_env1 rx cfg w e)) i = Some a"
      and b: "rx_findOne rx (queue (run_env1 rx cfg w e)) j = Some b"
      and live: "code_id a = code_id b" "status a \<noteq> Rejected" "status b \<noteq> Rejected"
    have clash: "\<not> scanned rx cfg w e l d" if "rx_findOne rx (queue w) k = Some c" "status c \<noteq> Rejected" "code_id c = code_id d"
      for k c l d using that by (auto simp: scanned_def new_attempt_def)
    show "i = j"
    proof (rule disjE [OF env_row [OF a]]; rule disjE [OF env_row [OF b]])
      assume "rx_findOne rx (queue w) i = Some a" "rx_findOne rx (queue w) j = Some b"
      then show ?thesis using Env live unfolding one_live_def by blast
    next
      assume "rx_findOne rx (queue w) i = Some a" "scanned rx cfg w e j b"
      then show ?thesis using clash live by metis
    next
      assume "scanned rx cfg w e i a" "rx_findOne rx (queue w) j = Some b"
      then show ?thesis using clash live by metis
    next
      assume "scanned rx cfg w e i a" "scanned rx cfg w e j b"
      then show ?thesis by (auto simp: scanned_def)
    qed
  qed
next
  case (Persist w a b rs win)
  then show ?case by (intro patch_one_live [of w i a]) simp_all
next
  case (Resolve w a st rs)
  then show ?case by (intro patch_one_live [of w i a]) simp_all
qed (simp_all add: one_live_def)

end

section \<open>Histories of a device\<close>

inductive device_step :: "'c queue \<Rightarrow> push_cfg \<Rightarrow> 'c world \<Rightarrow> 'c world \<Rightarrow> bool" for rx cfg where
  World: "device_step rx cfg w (run_env1 rx cfg w e)"
| Push: "device_step rx cfg w (fst (fst (pushHandler rx cfg rows (w, sch))))"

abbreviation history :: "'c queue \<Rightarrow> push_cfg \<Rightarrow> 'c world \<Rightarrow> 'c world \<Rightarrow> bool" where
  "history rx cfg \<equiv> (device_step rx cfg)\<^sup>*\<^sup>*"

definition fresh_device :: "'c queue \<Rightarrow> 'c world \<Rightarrow> bool" where
  "fresh_device rx w \<longleftrightarrow> replica_sound w \<and> (\<forall>i. rx_findOne rx (queue w) i = None)"

context attempt_queue
begin

lemma queue_steps_replica_sound: "(queue_step rx cfg)\<^sup>*\<^sup>* w w' \<Longrightarrow> replica_sound w \<Longrightarrow> replica_sound w'"
  by (induction rule: rtranclp_induct) (auto simp: queue_step_def intro: proto_replica_sound)

lemma history_steps: "history rx cfg w w' \<Longrightarrow> replica_sound w \<Longrightarrow> (queue_step rx cfg)\<^sup>*\<^sup>* w w'"
proof (induction rule: rtranclp_induct)
  case (step u v)
  have s: "replica_sound u" using queue_steps_replica_sound step.IH step.prems by blast
  have "(queue_step rx cfg)\<^sup>*\<^sup>* u v"
    using step.hyps(2)
  proof cases
    case (World e)
    then show ?thesis by (metis queue_step_def proto.Env r_into_rtranclp)
  next
    case (Push rows sch)
    then show ?thesis using pushHandler_refines [of "(u, sch)" cfg rows] s by simp
  qed
  with step.IH [OF step.prems] show ?case by (rule rtranclp_trans)
qed simp

lemma history_truthful:
  assumes "fresh_device rx w" and "history rx cfg w w'"
  shows "all_truthful rx cfg w'" and "one_live rx w'"
proof -
  have p: "(queue_step rx cfg)\<^sup>*\<^sup>* w w'" using assms history_steps by (auto simp: fresh_device_def)
  have "all_truthful rx cfg w" "one_live rx w" using assms(1) by (simp_all add: fresh_device_def all_truthful_def one_live_def)
  with p show "all_truthful rx cfg w'" and "one_live rx w'"
    by (induction rule: rtranclp_induct) (auto simp: queue_step_def intro: proto_truthful proto_one_live)
qed

end

section \<open>Frames along a history\<close>

definition redeems :: "string \<Rightarrow> request list \<Rightarrow> nat" where
  "redeems i rs = length (filter (\<lambda>r. kind r = Redeem_Request \<and> attempt_id r = i) rs)"

definition burn_done :: "attempt \<Rightarrow> bool" where
  "burn_done a \<longleftrightarrow> unverified_code a \<or> burn_ok a \<noteq> None \<or> status a \<noteq> Pending"

context attempt_queue
begin

lemma proto_resolved:
  "proto rx cfg i w w' \<Longrightarrow> rx_findOne rx (queue w) j = Some a \<Longrightarrow> status a \<noteq> Pending \<Longrightarrow>
     rx_findOne rx (queue w') j = Some a"
  by (induction rule: proto.induct) (auto simp: env_found patched)

lemma proto_burn_done:
  "proto rx cfg i w w' \<Longrightarrow> rx_findOne rx (queue w) j = Some a \<Longrightarrow> burn_done a \<Longrightarrow>
     \<exists>b. rx_findOne rx (queue w') j = Some b \<and> burn_done b \<and> redeems j (requestLog w') = redeems j (requestLog w)"
proof (induction rule: proto.induct)
  case (Log w b k sch)
  then show ?case by (auto simp: redeems_def burn_done_def found_id)
next
  case (Persist w b c rs win)
  then show ?case by (auto simp: patched burn_done_def)
next
  case (Resolve w b st rs)
  then show ?case by (auto simp: patched burn_done_def)
qed (auto simp: env_found)

lemma history_resolved:
  assumes "history rx cfg w w'" and "replica_sound w" and "rx_findOne rx (queue w) j = Some a" and "status a \<noteq> Pending"
  shows "rx_findOne rx (queue w') j = Some a"
  using history_steps [OF assms(1,2)] assms(3,4)
  by (induction rule: rtranclp_induct) (auto simp: queue_step_def intro: proto_resolved)

lemma history_burn_done:
  assumes "history rx cfg w w'" and "replica_sound w" and "rx_findOne rx (queue w) j = Some a" and "burn_done a"
  shows "redeems j (requestLog w') = redeems j (requestLog w)"
proof -
  have "\<exists>b. rx_findOne rx (queue w') j = Some b \<and> burn_done b \<and> redeems j (requestLog w') = redeems j (requestLog w)"
    using history_steps [OF assms(1,2)]
  proof (induction rule: rtranclp_induct)
    case (step u v)
    then show ?case unfolding queue_step_def using proto_burn_done by metis
  qed (use assms in auto)
  then show ?thesis by blast
qed

end

end
