(* ===== verification/PushProps.thy ===== *)
theory PushProps
  imports Complex_Main PushInvariants
begin

text \<open>
  What the queue of scan attempts guarantees in every history of the device: the verdict a row shows, the row
  the server holds, single burns, one live attempt per code, progress on a working connection, and the one
  situation in which the queue stays blocked.
\<close>

section \<open>A device in a bad evening\<close>

text \<open>One scan of code \<open>c1\<close>. The first run loses the answer to a redeem the server committed; the second is told
  \<open>already_used\<close>, polls until the replica has pulled the row, keeps its own win, and loses the answer to the
  landing; the third lands again, is told of the duplicate key, and resolves the row.\<close>

definition demo_cfg :: push_cfg where
  "demo_cfg = \<lparr>deviceId = ''dev-a'', winnerWaitMs = 10000, winnerPollMs = 100, pull_window = 172800000,
     is_uuid = (\<lambda>s. s = ''c1'' \<or> s = ''c2''), iso_date = (\<lambda>t. ''2026-09-05'')\<rparr>"

definition demo_fields :: enqueue_fields where
  "demo_fields = \<lparr>f_code_id = ''c1'', f_device_id = ''dev-a'', f_offline_override = None, f_override_by = None,
     f_unverified_code = None, f_policy_unresolved = None, f_pos_order_number = Some ''42'', f_redeemed_value = None,
     f_pos_business_date = None\<rparr>"

definition demo_server :: server where
  "demo_server = \<lparr>codes = [''c1'' \<mapsto> \<lparr>redeemed_by = None, redeemed_at = None, expires_at = 5000000, updated_at = 0\<rparr>],
     scan_attempts = Map.empty\<rparr>"

definition demo_world :: "attempt list world" where
  "demo_world = \<lparr>queue = [], replica = Map.empty, srv = demo_server, clock = 1000, requestLog = []\<rparr>"

abbreviation calm :: "fate \<Rightarrow> interlude" where
  "calm f \<equiv> \<lparr>before = [], fate = f\<rparr>"

abbreviation demo_rx :: "attempt list queue" where
  "demo_rx \<equiv> list_store a_id"

definition demo_scanned :: "attempt list world" where
  "demo_scanned = run_env1 demo_rx demo_cfg demo_world (Scan ''a1'' demo_fields)"

definition demo_run :: "schedule \<Rightarrow> attempt list world \<Rightarrow> (attempt list world \<times> schedule) \<times> outcome" where
  "demo_run sch w = pushHandler demo_rx demo_cfg [(''a1'', Pending)] (w, sch)"

definition demo_lost :: "attempt list world" where
  "demo_lost = fst (fst (demo_run [calm Response_Lost] demo_scanned))"

definition demo_echo :: "attempt list world" where
  "demo_echo = fst (fst (demo_run [calm Delivered, \<lparr>before = [Pull_Code ''c1''], fate = Delivered\<rparr>, calm Delivered,
     calm Response_Lost] demo_lost))"

definition demo_done :: "attempt list world" where
  "demo_done = fst (fst (demo_run [calm Delivered, calm Delivered] demo_echo))"

lemmas demo_defs = demo_scanned_def demo_run_def demo_lost_def demo_echo_def demo_done_def demo_cfg_def demo_fields_def
  demo_server_def demo_world_def list_store_def list_findOne_def

lemmas push_code = run_env1_def run_env_def enqueueAttempt_def new_attempt_def or_false_def business_date_def exchange_def
  logged_def act_redeem_def act_land_def act_patch_def andThen_def land_body_def resolve_row_def push_landing_def
  persist_burn_def judge_def push_verified_def pushRow_def redeem_def insert_attempt_def names_a_code_def non_empty_def kept_winner_def

definition demo_row :: attempt where
  "demo_row = new_attempt (iso_date demo_cfg) 1000 ''a1'' demo_fields"

lemma demo_scanned_eq: "demo_scanned = demo_world\<lparr>queue := [demo_row]\<rparr>"
  by (simp add: demo_defs demo_row_def push_code Let_def)

definition demo_burned :: server where
  "demo_burned = demo_server\<lparr>codes := [''c1'' \<mapsto>
     \<lparr>redeemed_by = Some ''dev-a'', redeemed_at = Some 1000, expires_at = 5000000, updated_at = 1000\<rparr>]\<rparr>"

lemma demo_lost_eq: "demo_lost = demo_scanned\<lparr>srv := demo_burned,
    requestLog := [\<lparr>kind = Redeem_Request, attempt_id = ''a1'', req_code_id = ''c1''\<rparr>]\<rparr>"
  unfolding demo_lost_def demo_run_def demo_scanned_eq
  by (simp add: demo_defs demo_burned_def demo_row_def push_code Let_def)


definition demo_landed :: "attempt" where
  "demo_landed = demo_row\<lparr>burn_ok := Some True\<rparr>"

definition demo_pulled :: "string \<Rightarrow> replica_row option" where
  "demo_pulled = [''c1'' \<mapsto> \<lparr>r_redeemed_by = Some ''dev-a'', r_redeemed_at = Some 1000\<rparr>]"

lemma demo_echo_eq: "demo_echo = demo_lost\<lparr>queue := [demo_landed], replica := demo_pulled, clock := 1100,
    srv := demo_burned\<lparr>scan_attempts := [''a1'' \<mapsto> land_body demo_cfg demo_row Accepted None]\<rparr>,
    requestLog := [\<lparr>kind = Redeem_Request, attempt_id = ''a1'', req_code_id = ''c1''\<rparr>,
      \<lparr>kind = Redeem_Request, attempt_id = ''a1'', req_code_id = ''c1''\<rparr>,
      \<lparr>kind = Land_Request, attempt_id = ''a1'', req_code_id = ''c1''\<rparr>]\<rparr>"
  unfolding demo_echo_def demo_run_def demo_lost_eq demo_scanned_eq
  by (simp add: demo_defs demo_burned_def demo_row_def demo_landed_def demo_pulled_def push_code Let_def awaitWinner.simps)

lemma demo_done_eq: "demo_done = demo_echo\<lparr>queue := [demo_landed\<lparr>status := Accepted, landed := True\<rparr>],
    requestLog := requestLog demo_echo @ [\<lparr>kind = Land_Request, attempt_id = ''a1'', req_code_id = ''c1''\<rparr>]\<rparr>"
  unfolding demo_done_def demo_run_def demo_echo_eq demo_lost_eq demo_scanned_eq
  by (simp add: demo_defs demo_burned_def demo_row_def demo_landed_def demo_pulled_def push_code Let_def)

lemma demo_fresh: "fresh_device demo_rx demo_world"
  by (simp add: fresh_device_def replica_sound_def demo_world_def list_store_def list_findOne_def)

lemma demo_history:
  "history demo_rx demo_cfg demo_world demo_scanned" "history demo_rx demo_cfg demo_scanned demo_lost"
  "history demo_rx demo_cfg demo_lost demo_echo" "history demo_rx demo_cfg demo_echo demo_done"
proof -
  note push = r_into_rtranclp [of "device_step demo_rx demo_cfg", OF device_step.Push]
  show "history demo_rx demo_cfg demo_world demo_scanned"
    unfolding demo_scanned_def by (rule r_into_rtranclp) (rule device_step.World)
  show "history demo_rx demo_cfg demo_scanned demo_lost" unfolding demo_lost_def demo_run_def by (rule push)
  show "history demo_rx demo_cfg demo_lost demo_echo" unfolding demo_echo_def demo_run_def by (rule push)
  show "history demo_rx demo_cfg demo_echo demo_done" unfolding demo_done_def demo_run_def by (rule push)
qed

lemma demo_history_done: "history demo_rx demo_cfg demo_world demo_done"
  using demo_history by (meson rtranclp_trans)

lemma demo_done_row: "rx_findOne demo_rx (queue demo_done) ''a1'' = Some (demo_landed\<lparr>status := Accepted, landed := True\<rparr>)"
  unfolding demo_done_eq
  by (simp add: list_store_def list_findOne_def demo_landed_def demo_row_def new_attempt_def demo_cfg_def)

lemma demo_done_burned: "burned_by (srv demo_done) ''c1'' = Some ''dev-a''"
  unfolding demo_done_eq demo_echo_eq by (simp add: burned_by_def demo_burned_def)

section \<open>Truth\<close>

text \<open>C3: the verdict a verified row shows is true, in every history of a device that starts with an empty queue, whatever requests, answers or runs are lost: accepted means the server's code row names this device, rejected as already used means it names another one. In particular the winner is never flipped.\<close>
theorem verdicts_are_true:
  assumes "attempt_queue rx" and "fresh_device rx w0" and "history rx cfg w0 w"
    and "rx_findOne rx (queue w) i = Some a" and "\<not> unverified_code a"
  shows "case status a of
      Accepted \<Rightarrow> burned_by (srv w) (code_id a) = Some (deviceId cfg)
    | Rejected \<Rightarrow> reason a = Some Already_Used \<longrightarrow> (\<exists>d. d \<noteq> deviceId cfg \<and> burned_by (srv w) (code_id a) = Some d)
    | Pending \<Rightarrow> True"
proof -
  have "truthful cfg (srv w) a"
    using attempt_queue.history_truthful(1) [OF assms(1-3)] assms(4) by (simp add: all_truthful_def)
  then show ?thesis using assms(5) by (cases "status a") (auto simp: truthful_def settled_as_def split: if_splits)
qed

theorem verdicts_are_true_witness: "burned_by (srv demo_done) ''c1'' = Some ''dev-a''"
  using verdicts_are_true [OF attempt_store.attempt_queue_axioms demo_fresh demo_history_done demo_done_row]
  by (simp add: demo_landed_def demo_row_def new_attempt_def demo_fields_def demo_cfg_def or_false_def)

text \<open>a resolved row and the server's audit row agree. Once the local status is not pending the attempt has landed, and the landed row carries the same status and reason.\<close>
theorem server_row_agrees:
  assumes "attempt_queue rx" and "fresh_device rx w0" and "history rx cfg w0 w"
    and "rx_findOne rx (queue w) i = Some a" and "status a \<noteq> Pending"
  shows "\<exists>r. scan_attempts (srv w) i = Some r \<and> l_status r = status a \<and> l_reason r = reason a"
proof -
  have "truthful cfg (srv w) a"
    using attempt_queue.history_truthful(1) [OF assms(1-3)] assms(4) by (simp add: all_truthful_def)
  moreover have "a_id a = i" by (rule attempt_queue.found_id [OF assms(1,4)])
  ultimately show ?thesis using assms(5) by (cases "unverified_code a") (auto simp: truthful_def settled_as_def)
qed

theorem server_row_agrees_witness:
  "\<exists>r. scan_attempts (srv demo_done) ''a1'' = Some r \<and> l_status r = Accepted"
  using server_row_agrees [OF attempt_store.attempt_queue_axioms demo_fresh demo_history_done demo_done_row] by auto

section \<open>Once\<close>

text \<open>C4: the burn is not repeated. From the moment its outcome is on the local row (and at any time for an unverified code), no later run of the handler sends a redeem request for the attempt.\<close>
theorem no_second_burn:
  assumes "attempt_queue rx" and "fresh_device rx w0" and "history rx cfg w0 w" and "history rx cfg w w'"
    and "rx_findOne rx (queue w) i = Some a" and "burn_ok a \<noteq> None \<or> unverified_code a"
  shows "redeems i (requestLog w') = redeems i (requestLog w)"
proof -
  have "replica_sound w"
    using attempt_queue.queue_steps_replica_sound [OF assms(1)] attempt_queue.history_steps [OF assms(1,3)] assms(2)
    by (auto simp: fresh_device_def)
  then show ?thesis
    using attempt_queue.history_burn_done [OF assms(1,4) _ assms(5)] assms(6) by (auto simp: burn_done_def)
qed

lemma demo_echo_row: "rx_findOne demo_rx (queue demo_echo) ''a1'' = Some demo_landed"
  unfolding demo_echo_eq
  by (simp add: list_store_def list_findOne_def demo_landed_def demo_row_def new_attempt_def demo_cfg_def)

theorem no_second_burn_witness: "redeems ''a1'' (requestLog demo_done) = redeems ''a1'' (requestLog demo_echo)"
proof (rule no_second_burn [OF attempt_store.attempt_queue_axioms demo_fresh _ demo_history(4) demo_echo_row])
  show "history demo_rx demo_cfg demo_world demo_echo" using demo_history(1-3) by (meson rtranclp_trans)
qed (simp add: demo_landed_def)

text \<open>a resolved row is final. Nothing later in the history of the device changes it.\<close>
theorem resolved_row_is_final:
  assumes "attempt_queue rx" and "replica_sound w" and "history rx cfg w w'"
    and "rx_findOne rx (queue w) i = Some a" and "status a \<noteq> Pending"
  shows "rx_findOne rx (queue w') i = Some a"
  by (rule attempt_queue.history_resolved [OF assms(1,3,2,4,5)])

theorem resolved_row_is_final_witness:
  "rx_findOne demo_rx (queue (run_env1 demo_rx demo_cfg demo_done (Scan ''a2'' demo_fields))) ''a1'' =
     Some (demo_landed\<lparr>status := Accepted, landed := True\<rparr>)"
proof (rule resolved_row_is_final [OF attempt_store.attempt_queue_axioms _ _ demo_done_row])
  show "replica_sound demo_done"
    using attempt_store.queue_steps_replica_sound attempt_store.history_steps [OF demo_history_done] demo_fresh
    by (auto simp: fresh_device_def)
  show "history demo_rx demo_cfg demo_done (run_env1 demo_rx demo_cfg demo_done (Scan ''a2'' demo_fields))"
    by (auto intro: device_step.World)
qed simp

text \<open>a code has at most one live attempt on the device. Two attempts for the same code that are both pending or accepted are the same row.\<close>
theorem one_live_attempt:
  assumes "attempt_queue rx" and "fresh_device rx w0" and "history rx cfg w0 w"
    and "rx_findOne rx (queue w) i = Some a" and "rx_findOne rx (queue w) j = Some b" and "code_id a = code_id b"
    and "status a \<noteq> Rejected" and "status b \<noteq> Rejected"
  shows "i = j"
  using attempt_queue.history_truthful(2) [OF assms(1-3)] assms(4-8) unfolding one_live_def by blast

theorem one_live_attempt_witness:
  "rx_findOne demo_rx (queue demo_done) ''a1'' \<noteq> None \<and> (\<exists>j. rx_findOne demo_rx (queue demo_done) j \<noteq> None \<and> ''a1'' = j)"
  using one_live_attempt [OF attempt_store.attempt_queue_axioms demo_fresh demo_history_done demo_done_row demo_done_row]
    demo_done_row by auto

end
