(* ===== verification/PushLiveness.thy ===== *)
theory PushLiveness
  imports Complex_Main PushProps
begin

text \<open>
  Progress of the queue: a run whose exchanges all arrive resolves its row, and the one state of affairs in
  which no run ever does (a lost race whose code has left the window of the codes replica).
\<close>

section \<open>Runs whose exchanges all arrive\<close>

lemma exchange_calm [simp]:
  "exchange rx cfg act (w, calm Delivered # sch) = ((fst (act w), sch), Reply (snd (act w)))"
  by (simp add: exchange_def run_env_def case_prod_beta Let_def)

lemma andThen_Reply [simp]: "andThen e (ws, Reply v) cont = cont v ws"
  by (simp add: andThen_def)

lemma land_status:
  "names_a_code r \<Longrightarrow> l_device_id r = deviceId cfg \<Longrightarrow> snd (act_land cfg r w) = 201 \<or> snd (act_land cfg r w) = 409"
  by (simp add: act_land_def case_prod_beta Let_def insert_attempt_def)

definition resolved_by :: "'c queue \<Rightarrow> string \<Rightarrow> ('c world \<times> schedule) \<times> outcome \<Rightarrow> bool" where
  "resolved_by rx i r \<longleftrightarrow> snd r = Completed \<and>
     (\<exists>a. rx_findOne rx (queue (fst (fst r))) i = Some a \<and> status a \<noteq> Pending \<and> landed a)"

context attempt_queue
begin

lemma resolve_calm:
  assumes "rx_findOne rx (queue w) (a_id doc) = Some a" and "st \<noteq> Pending"
  shows "resolved_by rx (a_id doc) (resolve_row rx cfg doc st rs (w, calm Delivered # sch))"
  using assms by (simp add: resolve_row_def resolved_by_def patched)

lemma landing_calm:
  assumes "rx_findOne rx (queue w) (a_id doc) = Some a"
  shows "resolved_by rx (a_id doc) (push_landing rx cfg doc b rs (w, calm Delivered # calm Delivered # sch))"
proof -
  let ?r = "land_body cfg doc (if b then Accepted else Rejected) (if b then None else rs)"
  have st: "(snd (act_land cfg ?r v) \<noteq> 201 \<and> snd (act_land cfg ?r v) \<noteq> 409) = False" for v :: "'c world"
    using land_status [of ?r cfg v] by (auto simp: land_body_def names_a_code_def)
  show ?thesis
    using assms by (simp only: push_landing_def logged_def Let_def exchange_calm andThen_Reply prod.case st if_False) (simp add: resolve_calm)
qed

lemma persist_calm:
  assumes "rx_findOne rx (queue w) (a_id doc) = Some a"
  shows "resolved_by rx (a_id doc)
    (persist_burn rx cfg doc b rs win (w, calm Delivered # calm Delivered # calm Delivered # sch))"
  using assms by (simp add: persist_burn_def) (rule landing_calm, simp add: patched)

lemma unverified_calm:
  assumes "rx_findOne rx (queue w) (a_id doc) = Some a" and "offline_override doc"
  shows "resolved_by rx (a_id doc) (push_unverified rx cfg doc (w, calm Delivered # calm Delivered # sch))"
proof -
  have st: "(snd (act_land cfg (unverified_body cfg doc) v) \<noteq> 201 \<and> snd (act_land cfg (unverified_body cfg doc) v) \<noteq> 409) = False"
    for v :: "'c world"
    using land_status [of "unverified_body cfg doc" cfg v] assms(2) by (auto simp: unverified_body_def land_body_def names_a_code_def)
  show ?thesis
    using assms(1) by (simp only: push_unverified_def logged_def exchange_calm andThen_Reply prod.case st if_False) (simp add: resolve_calm)
qed

lemma verified_calm:
  assumes "rx_findOne rx (queue w) (a_id doc) = Some doc" and "is_uuid cfg (code_id doc)"
    and "\<And>d. burned_by (srv w) (code_id doc) = Some d \<Longrightarrow>
      d \<noteq> [] \<and> (\<exists>r. replica w (code_id doc) = Some r \<and> r_redeemed_by r = Some d)"
  shows "resolved_by rx (a_id doc)
    (push_verified rx cfg doc (w, calm Delivered # calm Delivered # calm Delivered # calm Delivered # sch))"
proof (cases "burn_ok doc")
  case (Some b)
  then show ?thesis using landing_calm [OF assms(1)] by (simp add: push_verified_def)
next
  case None
  let ?w = "w\<lparr>requestLog := requestLog w @ [\<lparr>kind = Redeem_Request, attempt_id = a_id doc, req_code_id = code_id doc\<rparr>],
    srv := fst (redeem (code_id doc) (deviceId cfg) (clock w) (srv w))\<rparr>"
  let ?v = "snd (redeem (code_id doc) (deviceId cfg) (clock w) (srv w))"
  let ?sch = "calm Delivered # calm Delivered # calm Delivered # sch"
  have run: "push_verified rx cfg doc (w, calm Delivered # ?sch) = judge rx cfg doc ?v (?w, ?sch)"
    using assms(2) None by (simp add: push_verified_def logged_def act_redeem_def case_prod_beta Let_def)
  have found: "rx_findOne rx (queue ?w) (a_id doc) = Some doc" using assms(1) by simp
  show ?thesis
  proof (cases "\<not> ok ?v \<and> why ?v = Some Already_Used")
    case True
    then obtain d where "burned_by (srv w) (code_id doc) = Some d" using redeem_already_used by blast
    with assms(3) obtain r where r: "replica w (code_id doc) = Some r" "r_redeemed_by r = Some d" "d \<noteq> []" by blast
    have poll: "awaitWinner rx cfg dl (code_id doc) ?w ?sch = ((?w, ?sch), Reply (Some (d, r_redeemed_at r)))" for dl
      using r by (subst awaitWinner.simps) (simp add: non_empty_def)
    show ?thesis
      using True persist_calm [OF found] unfolding run judge_def Let_def fst_conv snd_conv poll by simp
  next
    case False
    then have "judge rx cfg doc ?v (?w, ?sch) = persist_burn rx cfg doc (ok ?v) (if ok ?v then None else why ?v) (kept_winner doc) (?w, ?sch)"
      by (auto simp: judge_def Let_def)
    then show ?thesis unfolding run using persist_calm [OF found] by simp
  qed
qed

lemma pushRow_calm:
  assumes "rx_findOne rx (queue w) i = Some a" and "status a = Pending"
    and "if unverified_code a then offline_override a else is_uuid cfg (code_id a)"
    and "\<And>d. burned_by (srv w) (code_id a) = Some d \<Longrightarrow>
      d \<noteq> [] \<and> (\<exists>r. replica w (code_id a) = Some r \<and> r_redeemed_by r = Some d)"
  shows "resolved_by rx i (pushRow rx cfg (i, Pending) (w, calm Delivered # calm Delivered # calm Delivered # calm Delivered # sch))"
proof -
  have id: "a_id a = i" using assms(1) by (rule found_id)
  show ?thesis
    using unverified_calm [of w a a cfg] verified_calm [of w a cfg] assms id by (simp add: pushRow_def split: if_splits)
qed

end

text \<open>C38: progress. On a connection that delivers, one run of the handler resolves its pending row: the code is a uuid (or the attempt an authorised override of an unverified code), and a burn the server already holds has reached the replica.\<close>
theorem clean_run_resolves:
  assumes "attempt_queue rx" and "rx_findOne rx (queue w) i = Some a" and "status a = Pending"
    and "if unverified_code a then offline_override a else is_uuid cfg (code_id a)"
    and "\<And>d. burned_by (srv w) (code_id a) = Some d \<Longrightarrow>
      d \<noteq> [] \<and> (\<exists>r. replica w (code_id a) = Some r \<and> r_redeemed_by r = Some d)"
  shows "resolved_by rx i (pushRow rx cfg (i, Pending) (w, calm Delivered # calm Delivered # calm Delivered # calm Delivered # sch))"
  using attempt_queue.pushRow_calm [OF assms(1-4)] assms(5) by blast

lemma demo_scanned_row: "rx_findOne demo_rx (queue demo_scanned) ''a1'' = Some demo_row"
  unfolding demo_scanned_eq
  by (simp add: list_store_def list_findOne_def demo_row_def new_attempt_def)

theorem clean_run_resolves_witness:
  "resolved_by demo_rx ''a1'' (pushRow demo_rx demo_cfg (''a1'', Pending)
     (demo_scanned, calm Delivered # calm Delivered # calm Delivered # calm Delivered # []))"
  by (rule clean_run_resolves [OF attempt_store.attempt_queue_axioms demo_scanned_row])
    (simp_all add: demo_row_def new_attempt_def demo_fields_def demo_cfg_def or_false_def demo_scanned_eq demo_world_def
      demo_server_def burned_by_def)

section \<open>A lost race outside the window\<close>

definition stuck :: "'c queue \<Rightarrow> push_cfg \<Rightarrow> string \<Rightarrow> attempt \<Rightarrow> 'c world \<Rightarrow> bool" where
  "stuck rx cfg i a w \<longleftrightarrow>
     rx_findOne rx (queue w) i = Some a \<and> replica_sound w \<and>
     (\<forall>r. replica w (code_id a) = Some r \<longrightarrow> r_redeemed_by r = None) \<and>
     (\<exists>r. codes (srv w) (code_id a) = Some r \<and> redeemed_by r \<noteq> None \<and> expires_at r \<le> clock w - pull_window cfg)"

lemma redeem_burned: "codes s c = Some r \<Longrightarrow> redeemed_by r \<noteq> None \<Longrightarrow> codes (fst (redeem d dev now s)) c = Some r"
  by (auto simp: redeem_def Let_def split: option.splits)

context attempt_queue
begin

lemma stuck_env:
  assumes "stuck rx cfg i a w"
  shows "stuck rx cfg i a (run_env1 rx cfg w e)"
proof -
  obtain r where r: "codes (srv w) (code_id a) = Some r" "redeemed_by r \<noteq> None" "expires_at r \<le> clock w - pull_window cfg"
    using assms by (auto simp: stuck_def)
  have "codes (srv (run_env1 rx cfg w e)) (code_id a) = Some r"
    using redeem_burned [OF r(1,2)] r(1) by (simp add: run_env1_def split: env.split option.split)
  moreover have "expires_at r \<le> clock (run_env1 rx cfg w e) - pull_window cfg" using r(3) env_clock [of w rx cfg e] by simp
  moreover have "replica (run_env1 rx cfg w e) (code_id a) = replica w (code_id a)"
    using r by (auto simp: run_env1_def split: env.split option.split)
  ultimately show ?thesis using assms r(2) env_found env_replica_sound by (auto simp: stuck_def)
qed

lemma stuck_wait: "0 \<le> winnerPollMs cfg \<Longrightarrow> stuck rx cfg i a w \<Longrightarrow> stuck rx cfg i a (w\<lparr>clock := clock w + winnerPollMs cfg\<rparr>)"
  by (auto simp: stuck_def replica_sound_def)

lemma stuck_redeem: "stuck rx cfg i a w \<Longrightarrow> stuck rx cfg i a (fst (act_redeem cfg b w))"
  using redeem_burned [of "srv w" "code_id a" _ "code_id b" "deviceId cfg" "clock w"]
  by (auto simp: stuck_def replica_sound_def act_redeem_final) (auto simp: act_redeem_def case_prod_beta Let_def)

lemma stuck_logged: "stuck rx cfg i a (fst ws) \<Longrightarrow> stuck rx cfg i a (fst (logged k b ws))"
  by (simp add: stuck_def replica_sound_def)

lemma stuck_proto:
  assumes "proto rx cfg j w w'" and "j \<noteq> i" and "0 \<le> winnerPollMs cfg" and "stuck rx cfg i a w"
  shows "stuck rx cfg i a w'"
  using assms(1)
proof cases
  case (Env e)
  then show ?thesis using assms(4) stuck_env by simp
next
  case Wait
  then show ?thesis using assms(3,4) stuck_wait by simp
next
  case (Burn b)
  then show ?thesis using assms(4) stuck_redeem by simp
next
  case (Persist b c rs win)
  then show ?thesis using assms(2,4) by (simp add: stuck_def replica_sound_def patched)
next
  case (Resolve b st rs)
  then show ?thesis using assms(2,4) by (simp add: stuck_def replica_sound_def patched)
qed (use assms(4) in \<open>simp_all add: stuck_def replica_sound_def\<close>)

text \<open>A run over the row itself: the redeem answers \<open>already_used\<close>, and the poll finds no winner.\<close>

lemma stuck_row:
  assumes "stuck rx cfg i a (fst ws)" and "status a = Pending" and "\<not> unverified_code a" and "burn_ok a = None"
    and "0 \<le> winnerPollMs cfg"
  shows "stuck rx cfg i a (fst (fst (pushRow rx cfg (i, Pending) ws))) \<and> snd (pushRow rx cfg (i, Pending) ws) \<noteq> Completed"
proof -
  let ?R = "\<lambda>w out. stuck rx cfg i a w \<and> out \<noteq> Completed"
  have found: "rx_findOne rx (queue (fst ws)) i = Some a" using assms(1) by (simp add: stuck_def)
  have "?R (fst (fst (push_verified rx cfg a ws))) (snd (push_verified rx cfg a ws))"
    unfolding push_verified_def assms(4) option.case
  proof (rule await_outcome_rule [where P = "stuck rx cfg i a" and R = ?R
        and Q = "\<lambda>ans w. stuck rx cfg i a w \<and> (\<forall>v. ans = Inr v \<longrightarrow> \<not> ok v \<and> why v = Some Already_Used)"])
    fix w
    assume w: "stuck rx cfg i a w"
    have "\<not> ok v \<and> why v = Some Already_Used" if "snd (act_redeem cfg a w) = Inr v" for v
      using w that by (auto simp: stuck_def act_redeem_def redeem_def Let_def split: if_splits)
    then show "stuck rx cfg i a (fst (act_redeem cfg a w)) \<and>
        (\<forall>v. snd (act_redeem cfg a w) = Inr v \<longrightarrow> \<not> ok v \<and> why v = Some Already_Used)"
      using stuck_redeem [OF w] by blast
  next
    fix ans :: "nat + verdict" and ws' :: "'c world \<times> schedule"
    assume ans: "stuck rx cfg i a (fst ws') \<and> (\<forall>v. ans = Inr v \<longrightarrow> \<not> ok v \<and> why v = Some Already_Used)"
    let ?k = "case ans of Inl http \<Rightarrow> (ws', Threw (Redeem_Http http)) | Inr v \<Rightarrow> judge rx cfg a v ws'"
    show "?R (fst (fst ?k)) (snd ?k)"
    proof (cases ans)
      case (Inr v)
      have "?R (fst (fst (judge rx cfg a v ws'))) (snd (judge rx cfg a v ws'))"
        using ans Inr unfolding judge_def Let_def
        by (simp, intro poll_outcome_rule [where P = "stuck rx cfg i a" and R = ?R])
          (auto simp: stuck_env stuck_wait assms(5), auto simp: stuck_def)
      then show ?thesis using Inr by simp
    qed (use ans in simp)
  qed (use assms(1) in \<open>auto intro: stuck_env stuck_logged\<close>)
  then show ?thesis using found assms(2,3) by (simp add: pushRow_def)
qed

lemma stuck_handler:
  assumes "stuck rx cfg i a (fst ws)" and "status a = Pending" and "\<not> unverified_code a" and "burn_ok a = None"
    and "0 \<le> winnerPollMs cfg"
  shows "stuck rx cfg i a (fst (fst (pushHandler rx cfg rows ws)))"
  using assms(1)
proof (induction rows arbitrary: ws)
  case (Cons row rows)
  have "stuck rx cfg i a (fst (fst (pushRow rx cfg row ws)))"
  proof (cases "fst row = i")
    case True
    then show ?thesis
      using stuck_row [OF Cons.prems assms(2-5)] Cons.prems by (cases "snd row"; cases row) (auto simp: pushRow_def)
  next
    case False
    have "protos rx cfg (fst row) (fst ws) (fst (fst (pushRow rx cfg row ws)))"
      using Cons.prems by (intro pushRow_refines) (simp add: stuck_def)
    then show ?thesis using Cons.prems
      by (induction rule: rtranclp_induct) (auto intro: stuck_proto [OF _ False assms(5)])
  qed
  then show ?case
    using Cons.IH by (cases "pushRow rx cfg row ws"; cases "snd (pushRow rx cfg row ws)") auto
qed simp

lemma stuck_history:
  assumes "history rx cfg w w'" and "stuck rx cfg i a w" and "status a = Pending" and "\<not> unverified_code a"
    and "burn_ok a = None" and "0 \<le> winnerPollMs cfg"
  shows "stuck rx cfg i a w'"
  using assms(1,2)
proof (induction rule: rtranclp_induct)
  case (step u v)
  from step.hyps(2) show ?case
  proof cases
    case (World e)
    then show ?thesis using step stuck_env by simp
  next
    case (Push rows sch)
    then show ?thesis using stuck_handler [of cfg i a "(u, sch)" rows] step assms(3-6) by simp
  qed
qed simp

end

text \<open>the queue can stay blocked for good. When another burn of a pending attempt's code is on the server, the code has expired by more than the pull window, and the replica never named the winner, then at every later point of the device's history the row is still pending, and a batch that starts with it ends there, with no row behind it pushed.\<close>
theorem stale_race_blocks_queue:
  assumes "attempt_queue rx" and "stuck rx cfg i a w" and "history rx cfg w w'"
    and "status a = Pending" and "\<not> unverified_code a" and "burn_ok a = None" and "0 \<le> winnerPollMs cfg"
  shows "rx_findOne rx (queue w') i = Some a \<and>
    pushHandler rx cfg ((i, Pending) # rows) (w', sch) = pushRow rx cfg (i, Pending) (w', sch) \<and>
    snd (pushRow rx cfg (i, Pending) (w', sch)) \<noteq> Completed"
proof -
  have s: "stuck rx cfg i a w'" using attempt_queue.stuck_history [OF assms(1,3,2,4-7)] .
  have "snd (pushRow rx cfg (i, Pending) (w', sch)) \<noteq> Completed"
    using attempt_queue.stuck_row [OF assms(1) _ assms(4-7), of i "(w', sch)"] s by simp
  then show ?thesis
    using s by (cases "pushRow rx cfg (i, Pending) (w', sch)"; cases "snd (pushRow rx cfg (i, Pending) (w', sch))")
      (auto simp: stuck_def)
qed

definition stale_world :: "attempt list world" where
  "stale_world = demo_scanned\<lparr>clock := 200000000,
     srv := demo_server\<lparr>codes := [''c1'' \<mapsto>
       \<lparr>redeemed_by = Some ''dev-b'', redeemed_at = Some 900, expires_at = 5000000, updated_at = 900\<rparr>]\<rparr>\<rparr>"

theorem stale_race_blocks_queue_witness:
  "snd (pushRow demo_rx demo_cfg (''a1'', Pending) (stale_world, [calm Delivered])) \<noteq> Completed"
proof -
  have "stuck demo_rx demo_cfg ''a1'' demo_row stale_world"
    by (simp add: stuck_def stale_world_def demo_scanned_eq demo_world_def replica_sound_def list_store_def list_findOne_def
        demo_row_def new_attempt_def demo_fields_def demo_cfg_def)
  from stale_race_blocks_queue [OF attempt_store.attempt_queue_axioms this, of stale_world "[]" "[calm Delivered]"]
  show ?thesis by (simp add: demo_row_def new_attempt_def demo_fields_def demo_cfg_def or_false_def)
qed

end
