(* ===== verification/SyncClock.thy ===== *)
theory SyncClock
  imports Complex_Main Prelude
begin

text \<open>
  \<^verbatim>\<open>marketing/sync/clock.js\<close>: the sync clock. The device clock is read through \<open>deviceNow\<close>, which each
  operation receives as the reading it made; \<open>Date.parse\<close> is the argument \<open>parse\<close> (\<open>None\<close> for NaN).
\<close>

section \<open>The clock\<close>

record clock_state =
  offset_ms :: ms
  captured_at_device :: "ms option"
  captured_at_server :: "ms option"

record sync_clock =
  c_state :: "clock_state option"
  captures :: nat
  persisted :: "clock_state list"

text \<open>A stored state counts only with a finite \<open>offset_ms\<close>; the stored object is the record with that field
  possibly missing.\<close>

record stored_state =
  st_offset_ms :: "ms option"
  st_captured_at_device :: "ms option"
  st_captured_at_server :: "ms option"

definition createSyncClock :: "stored_state option \<Rightarrow> sync_clock" where
  "createSyncClock initial =
     \<lparr>c_state = (case initial of
        None \<Rightarrow> None
      | Some s \<Rightarrow> (case st_offset_ms s of
          None \<Rightarrow> None
        | Some off \<Rightarrow> Some \<lparr>offset_ms = off, captured_at_device = st_captured_at_device s,
                           captured_at_server = st_captured_at_server s\<rparr>)),
      captures = 0, persisted = []\<rparr>"

definition offsetMs :: "sync_clock \<Rightarrow> ms" where
  "offsetMs c = (case c_state c of None \<Rightarrow> 0 | Some s \<Rightarrow> offset_ms s)"

definition clock_now :: "sync_clock \<Rightarrow> ms \<Rightarrow> ms" where
  "clock_now c deviceNow = deviceNow + offsetMs c"

text \<open>The \<open>Date\<close> header of a response; a missing or empty one is falsy.\<close>

definition captureFromResponse ::
  "(string \<Rightarrow> ms option) \<Rightarrow> string option \<Rightarrow> ms \<Rightarrow> sync_clock \<Rightarrow> sync_clock \<times> ms option" where
  "captureFromResponse parse header deviceNow c =
     (case header of
        None \<Rightarrow> (c, None)
      | Some h \<Rightarrow>
          if h = [] then (c, None)
          else case parse h of
            None \<Rightarrow> (c, None)
          | Some serverNow \<Rightarrow>
              (let s = \<lparr>offset_ms = serverNow - deviceNow, captured_at_device = Some deviceNow,
                        captured_at_server = Some serverNow\<rparr>
               in (\<lparr>c_state = Some s, captures = captures c + 1, persisted = persisted c @ [s]\<rparr>, Some (offset_ms s))))"

text \<open>\<open>isExpired(expiresAt, at)\<close>: a number is an instant, a string is parsed, an unreadable one is expired.\<close>

datatype instant = Instant ms | Iso string

definition isExpired :: "(string \<Rightarrow> ms option) \<Rightarrow> instant \<Rightarrow> ms \<Rightarrow> bool" where
  "isExpired parse expiresAt at_ms =
     (case (case expiresAt of Instant t \<Rightarrow> Some t | Iso s \<Rightarrow> parse s) of
        None \<Rightarrow> True
      | Some t \<Rightarrow> at_ms \<ge> t)"

section \<open>Pulls along the way\<close>

text \<open>A pull response and the device reading at which it arrived; a device's pulls, latest last.\<close>

definition after_pulls :: "(string \<Rightarrow> ms option) \<Rightarrow> (string option \<times> ms) list \<Rightarrow> sync_clock \<Rightarrow> sync_clock" where
  "after_pulls parse ps c = foldl (\<lambda>c (h, d). fst (captureFromResponse parse h d c)) c ps"

definition readable :: "(string \<Rightarrow> ms option) \<Rightarrow> string option \<Rightarrow> bool" where
  "readable parse h \<longleftrightarrow> (\<exists>s. h = Some s \<and> s \<noteq> [] \<and> parse s \<noteq> None)"

lemma unreadable_keeps: "\<not> readable parse h \<Longrightarrow> fst (captureFromResponse parse h d c) = c"
  by (auto simp: captureFromResponse_def readable_def split: option.split)

lemma unreadable_pulls: "list_all (\<lambda>(h, d). \<not> readable parse h) ps \<Longrightarrow> after_pulls parse ps c = c"
  by (induction ps arbitrary: c) (auto simp: after_pulls_def unreadable_keeps)

lemma capture_now:
  "h \<noteq> [] \<Longrightarrow> parse h = Some t \<Longrightarrow> clock_now (fst (captureFromResponse parse (Some h) d c)) d' = t + (d' - d)"
  by (simp add: captureFromResponse_def clock_now_def offsetMs_def Let_def)

text \<open>offline expiry does not depend on the device clock. Whatever constant amount the device clock is wrong by, and whatever pulls came before, once a pull has delivered a readable Date header the expiry check at a later moment gives the verdict a clock that ran with the server from that header on would give; responses without a readable header in between change nothing.\<close>
theorem expiry_is_skew_free:
  assumes "h \<noteq> []" and "parse h = Some served" and "list_all (\<lambda>(h, d). \<not> readable parse h) later"
    and "0 \<le> elapsed"
  shows "isExpired parse e (clock_now
      (after_pulls parse (earlier @ [(Some h, true_time + skew)] @ later) (createSyncClock initial))
      (true_time + elapsed + skew)) = isExpired parse e (served + elapsed)"
proof -
  have "after_pulls parse (earlier @ [(Some h, true_time + skew)] @ later) (createSyncClock initial) =
      fst (captureFromResponse parse (Some h) (true_time + skew) (after_pulls parse earlier (createSyncClock initial)))"
    using unreadable_pulls [OF assms(3)] by (simp add: after_pulls_def)
  then show ?thesis using capture_now [of h parse served, OF assms(1,2)] by simp
qed

definition demo_parse :: "string \<Rightarrow> ms option" where
  "demo_parse s = (if s = ''t1000'' then Some 1000 else if s = ''t5000'' then Some 5000 else None)"

theorem expiry_is_skew_free_witness:
  "isExpired demo_parse (Iso ''t5000'') (clock_now
     (after_pulls demo_parse ([] @ [(Some ''t1000'', 1000 + (- 172800000))] @ [(Some ''bad'', 0)]) (createSyncClock None))
     (1000 + 4500 + (- 172800000)))"
  using expiry_is_skew_free [of "''t1000''" demo_parse 1000 "[(Some ''bad'', 0)]" 4500 "Iso ''t5000''" "[]" 1000 "- 172800000" None]
  by (simp add: demo_parse_def readable_def isExpired_def)

lemma unreadable_is_expired: "parse s = None \<Longrightarrow> isExpired parse (Iso s) at_ms"
  by (simp add: isExpired_def)

end
