(* ===== verification/PullReplication.thy ===== *)
theory PullReplication
  imports Complex_Main SyncClock
begin

text \<open>
  \<^verbatim>\<open>marketing/sync/pull-replication.js\<close>: the bounded, checkpointed pull. Timestamps are instants, uuids the
  numbers their sixteen bytes spell (the order Postgres gives them); \<open>encodeURIComponent\<close> and the printing of
  the two are arguments of the URL builder.
\<close>

section \<open>Checkpoints\<close>

datatype checkpoint = Checkpoint (cp_updated_at: ms) (cp_id: nat)

text \<open>The keyset order: \<open>updated_at\<close> first, \<open>id\<close> within a tie group.\<close>

instantiation checkpoint :: linorder
begin

definition less_checkpoint :: "checkpoint \<Rightarrow> checkpoint \<Rightarrow> bool" where
  "less_checkpoint a b \<longleftrightarrow>
     cp_updated_at a < cp_updated_at b \<or> (cp_updated_at a = cp_updated_at b \<and> cp_id a < cp_id b)"

definition less_eq_checkpoint :: "checkpoint \<Rightarrow> checkpoint \<Rightarrow> bool" where
  "less_eq_checkpoint a b \<longleftrightarrow> (a :: checkpoint) < b \<or> a = b"

instance
proof
  fix x y :: checkpoint
  have eq: "x = y" if "cp_updated_at x = cp_updated_at y" "cp_id x = cp_id y" using that by (rule checkpoint.expand [OF conjI])
  show "x \<le> y \<or> y \<le> x"
    using eq by (auto simp: less_eq_checkpoint_def less_checkpoint_def not_less order.order_iff_strict)
qed (auto simp: less_eq_checkpoint_def less_checkpoint_def)

end

definition EPOCH_CHECKPOINT :: checkpoint where
  "EPOCH_CHECKPOINT = Checkpoint 0 0"

text \<open>What RxDB hands back: nothing, the spike's \<open>{updated_at}\<close>, or the pair.\<close>

record raw_checkpoint =
  raw_updated_at :: "ms option"
  raw_id :: "nat option"

definition normalizeCheckpoint :: "raw_checkpoint option \<Rightarrow> checkpoint" where
  "normalizeCheckpoint c =
     (case c of
        None \<Rightarrow> EPOCH_CHECKPOINT
      | Some r \<Rightarrow> (case raw_updated_at r of
          None \<Rightarrow> EPOCH_CHECKPOINT
        | Some t \<Rightarrow> Checkpoint t (case raw_id r of None \<Rightarrow> cp_id EPOCH_CHECKPOINT | Some i \<Rightarrow> i)))"

definition raw_of :: "checkpoint \<Rightarrow> raw_checkpoint" where
  "raw_of c = \<lparr>raw_updated_at = Some (cp_updated_at c), raw_id = Some (cp_id c)\<rparr>"

lemma normalize_raw [simp]: "normalizeCheckpoint (Some (raw_of c)) = c"
  by (simp add: normalizeCheckpoint_def raw_of_def)

section \<open>The request\<close>

record pull_cfg =
  restUrl :: string
  table :: string
  select :: string
  windowBound :: "(ms \<Rightarrow> ms) option"

record pull_query =
  q_table :: string
  q_select :: string
  q_after :: checkpoint
  q_window :: "ms option"
  q_limit :: nat

text \<open>The same request as the text that is sent.\<close>

definition treeValue :: "(string \<Rightarrow> string) \<Rightarrow> string \<Rightarrow> string" where
  "treeValue enc v = enc (''\"'' @ filter (\<lambda>c. c \<noteq> CHR 0x22) v @ ''\"'')"

definition keysetPredicate :: "(string \<Rightarrow> string) \<Rightarrow> (ms \<Rightarrow> string) \<Rightarrow> (nat \<Rightarrow> string) \<Rightarrow> checkpoint \<Rightarrow> string" where
  "keysetPredicate enc stamp uuid cp =
     (let ts = treeValue enc (stamp (cp_updated_at cp)); i = treeValue enc (uuid (cp_id cp))
      in ''or=(updated_at.gt.'' @ ts @ '',and(updated_at.eq.'' @ ts @ '',id.gt.'' @ i @ ''))'')"

definition buildPullUrl ::
  "(string \<Rightarrow> string) \<Rightarrow> (ms \<Rightarrow> string) \<Rightarrow> (nat \<Rightarrow> string) \<Rightarrow> (nat \<Rightarrow> string) \<Rightarrow> string \<Rightarrow> pull_query \<Rightarrow> string" where
  "buildPullUrl enc stamp uuid dec origin q =
     origin @ ''/'' @ q_table q @ ''?select='' @ enc (q_select q) @
     ''&'' @ keysetPredicate enc stamp uuid (q_after q) @
     (case q_window q of None \<Rightarrow> [] | Some t \<Rightarrow> ''&expires_at=gt.'' @ enc (stamp t)) @
     ''&order=updated_at.asc,id.asc'' @ ''&limit='' @ dec (q_limit q)"

section \<open>The pull handler\<close>

record server_row =
  p_updated_at :: ms
  p_id :: nat
  p_expires_at :: ms
  p_payload :: string

definition row_key :: "server_row \<Rightarrow> checkpoint" where
  "row_key r = Checkpoint (p_updated_at r) (p_id r)"

datatype pull_response = Pull_Threw | Pull_Http nat | Pull_Rows "string option" "server_row list"

record pull_state =
  pull_log :: "(checkpoint \<times> pull_query) list"
  pull_clock :: "sync_clock option"
  successes :: nat

datatype pull_error = Pull_Network | Pull_Status nat

text \<open>\<open>deviceNow\<close> is the device reading of this call; the window bound and the clock capture use it. \<open>onSuccess\<close>
  observers are counted: what they throw is swallowed.\<close>

definition state_now :: "pull_state \<Rightarrow> ms \<Rightarrow> ms" where
  "state_now st deviceNow = (case pull_clock st of None \<Rightarrow> deviceNow | Some c \<Rightarrow> clock_now c deviceNow)"

definition pullHandler ::
  "pull_cfg \<Rightarrow> (string \<Rightarrow> ms option) \<Rightarrow> (pull_query \<Rightarrow> pull_response) \<Rightarrow> ms \<Rightarrow> raw_checkpoint option \<Rightarrow> nat \<Rightarrow>
     pull_state \<Rightarrow> pull_state \<times> (pull_error + server_row list \<times> checkpoint)" where
  "pullHandler cfg parse fetch deviceNow checkpoint batchSize st =
     (let cp = normalizeCheckpoint checkpoint;
          q = \<lparr>q_table = table cfg, q_select = select cfg, q_after = cp,
               q_window = map_option (\<lambda>b. b (state_now st deviceNow)) (windowBound cfg), q_limit = batchSize\<rparr>;
          st1 = st\<lparr>pull_log := pull_log st @ [(cp, q)]\<rparr>
      in case fetch q of
           Pull_Threw \<Rightarrow> (st1, Inl Pull_Network)
         | Pull_Http n \<Rightarrow> (st1, Inl (Pull_Status n))
         | Pull_Rows date rows \<Rightarrow>
             (st1\<lparr>pull_clock := map_option (\<lambda>c. fst (captureFromResponse parse date deviceNow c)) (pull_clock st1),
                 successes := successes st1 + 1\<rparr>,
              Inr (rows, if rows = [] then cp else row_key (last rows))))"

section \<open>The server's answer and the engine's walk\<close>

text \<open>What the URL asks of PostgREST: the keyset predicate, the window, the order, the limit.\<close>

definition after_keyset :: "checkpoint \<Rightarrow> server_row \<Rightarrow> bool" where
  "after_keyset cp r \<longleftrightarrow>
     p_updated_at r > cp_updated_at cp \<or> (p_updated_at r = cp_updated_at cp \<and> p_id r > cp_id cp)"

definition in_window :: "ms option \<Rightarrow> server_row \<Rightarrow> bool" where
  "in_window w r \<longleftrightarrow> (case w of None \<Rightarrow> True | Some t \<Rightarrow> p_expires_at r > t)"

definition postgrest :: "server_row list \<Rightarrow> pull_query \<Rightarrow> server_row list" where
  "postgrest rows q =
     take (q_limit q) (sort_key row_key (filter (\<lambda>r. in_window (q_window q) r \<and> after_keyset (q_after q) r) rows))"

text \<open>RxDB calls the handler again with the checkpoint it got until a batch comes back short; \<open>fuel\<close> bounds the
  calls.\<close>

fun walk :: "nat \<Rightarrow> pull_cfg \<Rightarrow> (string \<Rightarrow> ms option) \<Rightarrow> (pull_query \<Rightarrow> pull_response) \<Rightarrow> ms \<Rightarrow> raw_checkpoint option \<Rightarrow> nat \<Rightarrow>
    pull_state \<Rightarrow> (server_row list \<times> checkpoint) option" where
  "walk 0 cfg parse fetch now cp n st = None"
| "walk (Suc fuel) cfg parse fetch now cp n st =
     (case pullHandler cfg parse fetch now cp n st of
        (st', Inl e) \<Rightarrow> None
      | (st', Inr (rows, cp')) \<Rightarrow>
          if length rows < n then Some (rows, cp')
          else map_option (\<lambda>(more, last). (rows @ more, last)) (walk fuel cfg parse fetch now (Some (raw_of cp')) n st'))"

section \<open>The walk misses nothing\<close>

lemma after_keyset_less: "after_keyset cp r \<longleftrightarrow> cp < row_key r"
  by (auto simp: after_keyset_def less_checkpoint_def row_key_def)

lemma sorted_after:
  assumes "sorted (map f xs)" and "distinct (map f xs)" and "n < length xs"
  shows "filter (\<lambda>x. f (xs ! n) < (f x :: 'k :: linorder)) xs = drop (Suc n) xs"
  using assms
proof (induction xs arbitrary: n)
  case (Cons y ys)
  show ?case
  proof (cases n)
    case 0
    have "\<forall>x\<in>set ys. f y < f x" using Cons.prems by (auto simp: order.strict_iff_order image_iff)
    then show ?thesis using 0 by (simp add: filter_id_conv)
  next
    case (Suc m)
    have "f y \<le> f (ys ! m)" using Cons.prems Suc by simp
    then show ?thesis using Cons.IH [of m] Cons.prems Suc by (simp add: not_less)
  qed
qed simp

lemma filter_after_drop:
  assumes "sorted (map f xs)" and "distinct (map f xs)" and "filter (\<lambda>x. c < (f x :: 'k :: linorder)) xs = rest"
    and "n < length rest"
  shows "filter (\<lambda>x. f (rest ! n) < f x) xs = drop (Suc n) rest"
proof -
  have s: "sorted (map f rest)" "distinct (map f rest)"
    using assms(1-3) by (auto simp: sorted_filter distinct_map_filter)
  have "c < f (rest ! n)" using assms(3,4) by (metis (mono_tags, lifting) mem_Collect_eq nth_mem set_filter)
  then have "filter (\<lambda>x. f (rest ! n) < f x) xs = filter (\<lambda>x. f (rest ! n) < f x) rest"
    unfolding assms(3) [symmetric] by (auto intro!: filter_cong)
  then show ?thesis using sorted_after [OF s assms(4)] by simp
qed


text \<open>The admissible rows in keyset order, and a server that answers from them.\<close>

definition admissible :: "pull_cfg \<Rightarrow> ms \<Rightarrow> server_row list \<Rightarrow> server_row list" where
  "admissible cfg now rows =
     sort_key row_key (filter (in_window (map_option (\<lambda>b. b now) (windowBound cfg))) rows)"

lemma postgrest_page:
  "postgrest rows \<lparr>q_table = tb, q_select = sl, q_after = cp, q_window = map_option (\<lambda>b. b now) (windowBound cfg), q_limit = n\<rparr> =
     take n (filter (\<lambda>r. cp < row_key r) (admissible cfg now rows))"
  by (simp add: postgrest_def admissible_def filter_sort after_keyset_less conj_commute)

lemma walk_delivers:
  assumes "\<And>q. fetch q = Pull_Rows None (postgrest rows q)" and "distinct (map row_key rows)"
    and "0 < n" and "pull_clock st = None"
    and "filter (\<lambda>r. normalizeCheckpoint cp < row_key r) (admissible cfg now rows) = rest" and "length rest < fuel"
  shows "\<exists>last. walk fuel cfg parse fetch now cp n st = Some (rest, last) \<and>
    (\<forall>r\<in>set (admissible cfg now rows). row_key r \<le> last \<or> rest = [] \<and> row_key r \<le> normalizeCheckpoint cp)"
  using assms(4-6)
proof (induction fuel arbitrary: cp st rest)
  case (Suc fuel)
  let ?S = "admissible cfg now rows" and ?cp = "normalizeCheckpoint cp"
  have sorted: "sorted (map row_key ?S)" and dist: "distinct (map row_key ?S)"
    using assms(2) by (auto simp: admissible_def distinct_map intro: inj_on_subset)
  have in_S: "row_key r \<le> c" if "r \<in> set ?S" "filter (\<lambda>r. c < row_key r) ?S = []" for r c
    using that by (force simp: filter_empty_conv not_less)
  obtain st' where h: "pullHandler cfg parse fetch now cp n st =
      (st', Inr (take n rest, if take n rest = [] then ?cp else row_key (last (take n rest))))" and c: "pull_clock st' = None"
    using Suc.prems(1,2) by (auto simp: pullHandler_def assms(1) state_now_def postgrest_page Let_def)
  show ?case
  proof (cases "length rest < n")
    case True
    show ?thesis
    proof (cases "rest = []")
      case True
      then show ?thesis using h assms(3) in_S Suc.prems(2) by simp
    next
      case False
      let ?m = "length rest - 1"
      have m: "?m < length rest" "last rest = rest ! ?m" using False by (simp_all add: last_conv_nth)
      have "filter (\<lambda>r. row_key (last rest) < row_key r) ?S = []"
        using filter_after_drop [OF sorted dist Suc.prems(2) m(1)] m by simp
      then show ?thesis using h True False in_S by simp
    qed
  next
    case False
    let ?m = "n - 1"
    have ne: "rest \<noteq> []" "?m < length rest" using False assms(3) by auto
    have last: "last (take n rest) = rest ! ?m" using False assms(3) ne by (simp add: last_conv_nth min_def)
    have "filter (\<lambda>r. row_key (last (take n rest)) < row_key r) ?S = drop n rest"
      using filter_after_drop [OF sorted dist Suc.prems(2) ne(2)] last assms(3) by simp
    moreover have "length (drop n rest) < fuel" using Suc.prems(3) False assms(3) by simp
    ultimately obtain l where l: "walk fuel cfg parse fetch now (Some (raw_of (row_key (last (take n rest))))) n st' =
        Some (drop n rest, l)"
      "\<forall>r\<in>set ?S. row_key r \<le> l \<or> drop n rest = [] \<and> row_key r \<le> row_key (last (take n rest))"
      using Suc.IH [OF c, of "Some (raw_of (row_key (last (take n rest))))" "drop n rest"] by auto
    have "\<forall>r\<in>set ?S. row_key r \<le> l"
    proof (cases "drop n rest = []")
      case True
      then have "walk fuel cfg parse fetch now (Some (raw_of (row_key (last (take n rest))))) n st' =
          Some ([], row_key (last (take n rest)))"
        using l(1) assms(3) by (cases fuel) (auto simp: pullHandler_def assms(1) state_now_def postgrest_page c Let_def split: if_splits)
      then show ?thesis using l by auto
    qed (use l(2) in auto)
    then show ?thesis using h l(1) ne False assms(3) by simp
  qed
qed simp


definition tie_rows :: "server_row list" where
  "tie_rows = [\<lparr>p_updated_at = 5, p_id = 3, p_expires_at = 100, p_payload = ''c''\<rparr>,
     \<lparr>p_updated_at = 5, p_id = 1, p_expires_at = 100, p_payload = ''a''\<rparr>,
     \<lparr>p_updated_at = 5, p_id = 2, p_expires_at = 7, p_payload = ''b''\<rparr>]"

definition tie_cfg :: pull_cfg where
  "tie_cfg = \<lparr>restUrl = ''https://x'', table = ''codes'', select = ''id'', windowBound = Some (\<lambda>t. t - 2)\<rparr>"

definition tie_state :: pull_state where
  "tie_state = \<lparr>pull_log = [], pull_clock = None, successes = 0\<rparr>"


text \<open>the checkpoint has a blind spot. A row that becomes visible only after the walk has passed its timestamp (a transaction that began earlier and committed later stamps it with its own start) is delivered by no later walk from that checkpoint, as long as nothing touches it again.\<close>
theorem late_commit_is_missed:
  assumes "\<And>q. fetch q = Pull_Rows None (postgrest rows q)" and "distinct (map row_key rows)" and "0 < n"
    and "pull_clock st = None" and "row_key late \<le> normalizeCheckpoint (Some cp)"
    and "walk fuel cfg parse fetch now (Some cp) n st = Some (delivered, final)" and "length rows < fuel"
  shows "late \<notin> set delivered"
proof -
  let ?rest = "filter (\<lambda>r. normalizeCheckpoint (Some cp) < row_key r) (admissible cfg now rows)"
  have "length ?rest \<le> length (admissible cfg now rows)" by (rule length_filter_le)
  also have "\<dots> \<le> length rows" by (simp add: admissible_def)
  finally have "delivered = ?rest"
    using walk_delivers [OF assms(1-4) refl, of "Some cp" cfg now fuel parse] assms(6,7) by auto
  then show ?thesis using assms(5) by auto
qed

theorem late_commit_is_missed_witness:
  "hd tie_rows \<notin> set (fst (the (walk 4 tie_cfg (\<lambda>s. None) (\<lambda>q. Pull_Rows None (postgrest tie_rows q)) 10
     (Some (raw_of (Checkpoint 6 0))) 1 tie_state)))"
proof -
  obtain d l where w: "walk 4 tie_cfg (\<lambda>s. None) (\<lambda>q. Pull_Rows None (postgrest tie_rows q)) 10
     (Some (raw_of (Checkpoint 6 0))) 1 tie_state = Some (d, l)"
    by (simp add: eval_nat_numeral pullHandler_def tie_state_def tie_rows_def tie_cfg_def state_now_def postgrest_def
        after_keyset_def Let_def raw_of_def normalizeCheckpoint_def)
  have "hd tie_rows \<notin> set d"
    by (rule late_commit_is_missed [OF refl _ _ _ _ w])
      (auto simp: tie_rows_def tie_state_def row_key_def less_checkpoint_def less_eq_checkpoint_def)
  then show ?thesis using w by simp
qed

end
