(* ===== verification/Replicas.thy ===== *)
theory Replicas
  imports Complex_Main PullReplication
begin

text \<open>
  \<^verbatim>\<open>marketing/sync/replicas.js\<close>: the windows of the two code replicas, the campaign policy source that mirrors the
  campaigns replica, and the offline offer lookup.
\<close>

section \<open>Windows\<close>

definition CODES_WINDOW_MS :: ms where
  "CODES_WINDOW_MS = 2 * 24 * 3600 * 1000"

definition codesWindowBound :: "ms \<Rightarrow> ms" where
  "codesWindowBound now = now - CODES_WINDOW_MS"

definition offersWindowBound :: "ms \<Rightarrow> ms" where
  "offersWindowBound now = now"

definition codes_cfg :: "string \<Rightarrow> string \<Rightarrow> pull_cfg" where
  "codes_cfg url sel = \<lparr>restUrl = url, table = ''codes'', select = sel, windowBound = Some codesWindowBound\<rparr>"

definition offers_cfg :: "string \<Rightarrow> string \<Rightarrow> pull_cfg" where
  "offers_cfg url sel = \<lparr>restUrl = url, table = ''codes'', select = sel, windowBound = Some offersWindowBound\<rparr>"

definition CAMPAIGNS_SELECT :: string where
  "CAMPAIGNS_SELECT = ''id,requires_online,updated_at''"

definition campaigns_cfg :: "string \<Rightarrow> pull_cfg" where
  "campaigns_cfg url = \<lparr>restUrl = url, table = ''campaigns'', select = CAMPAIGNS_SELECT, windowBound = None\<rparr>"

section \<open>The campaign policy source\<close>

text \<open>A campaign as the local collection holds it; the subscription delivers the whole list each time.\<close>

type_synonym campaign = "string \<times> bool"

record policy_answer =
  requires :: bool
  unresolved_answer :: bool

record policy_source =
  byId :: "(string \<times> bool) list"
  attached :: bool
  hears_success :: bool
  ready :: bool
  lastError :: "string option"

definition createCampaignPolicySource :: policy_source where
  "createCampaignPolicySource =
     \<lparr>byId = [], attached = False, hears_success = False, ready = False, lastError = None\<rparr>"

text \<open>What reaches the source: a query result, a replication handle (with or without \<open>onPullSuccess\<close>), an
  \<open>error$\<close> emission, the successful-pull edge, and the end of the initial replication plus its settle tick.\<close>

datatype policy_event =
    Docs "campaign list" | Attach bool | Error_Emitted string | Pull_Succeeded | Initial_Replicated | Initial_Failed

definition attach :: "bool \<Rightarrow> policy_source \<Rightarrow> policy_source" where
  "attach has_success s = (if attached s then s else s\<lparr>attached := True, hears_success := has_success\<rparr>)"

definition policy_step :: "policy_source \<Rightarrow> policy_event \<Rightarrow> policy_source" where
  "policy_step s e = (case e of
     Docs ds \<Rightarrow> s\<lparr>byId := ds\<rparr>
   | Attach b \<Rightarrow> attach b s
   | Error_Emitted m \<Rightarrow> if attached s then s\<lparr>lastError := Some m\<rparr> else s
   | Pull_Succeeded \<Rightarrow> if attached s \<and> hears_success s then s\<lparr>lastError := None\<rparr> else s
   | Initial_Replicated \<Rightarrow> if attached s then s\<lparr>ready := True, lastError := None\<rparr> else s
   | Initial_Failed \<Rightarrow> s)"

text \<open>\<open>byId.set\<close> in document order: the last document of an id counts. The ids of a collection are distinct.\<close>

definition by_id :: "policy_source \<Rightarrow> string \<Rightarrow> bool option" where
  "by_id s i = map_of (rev (byId s)) i"

definition policyFor :: "policy_source \<Rightarrow> string option \<Rightarrow> policy_answer option" where
  "policyFor s campaignId =
     (case campaignId of
        None \<Rightarrow> None
      | Some i \<Rightarrow>
          if i = [] then None
          else case by_id s i of
            Some flag \<Rightarrow> Some \<lparr>requires = flag, unresolved_answer = False\<rparr>
          | None \<Rightarrow> Some \<lparr>requires = True, unresolved_answer = True\<rparr>)"

definition unresolved :: "policy_source \<Rightarrow> bool" where
  "unresolved s = (if attached s then \<not> ready s \<or> lastError s \<noteq> None else False)"

definition run_policy :: "policy_event list \<Rightarrow> policy_source" where
  "run_policy es = foldl policy_step createCampaignPolicySource es"

text \<open>The campaigns the last delivery held.\<close>

definition last_docs :: "policy_event list \<Rightarrow> campaign list" where
  "last_docs es = foldl (\<lambda>ds e. case e of Docs d \<Rightarrow> d | _ \<Rightarrow> ds) [] es"

lemma run_policy_snoc: "run_policy (es @ [e]) = policy_step (run_policy es) e"
  by (simp add: run_policy_def)

lemma run_policy_byId: "byId (run_policy es) = last_docs es"
proof (induction es rule: rev_induct)
  case (snoc e es)
  then show ?case by (simp add: run_policy_snoc last_docs_def policy_step_def attach_def split: policy_event.split)
qed (simp add: run_policy_def createCampaignPolicySource_def last_docs_def)

text \<open>the policy fails closed. After any sequence of deliveries, errors and recoveries, a code that names a campaign is told that online verification is not required only if the last delivery of the campaigns collection held that campaign with the flag off; in every other case the answer requires it, and says unresolved exactly when the campaign is missing. Only a code that names no campaign gets no answer.\<close>
theorem policy_fails_closed:
  assumes "distinct (map fst (last_docs es))"
  shows "case policyFor (run_policy es) (Some i) of
      None \<Rightarrow> i = []
    | Some p \<Rightarrow> i \<noteq> [] \<and> (requires p \<longleftrightarrow> (i, False) \<notin> set (last_docs es)) \<and>
        (unresolved_answer p \<longleftrightarrow> i \<notin> fst ` set (last_docs es))"
proof -
  have d: "distinct (map fst (rev (last_docs es)))" using assms by (simp add: rev_map [symmetric])
  have look: "by_id (run_policy es) i = map_of (rev (last_docs es)) i" by (simp add: by_id_def run_policy_byId)
  show ?thesis
  proof (cases "map_of (rev (last_docs es)) i")
    case None
    then have "i \<notin> fst ` set (last_docs es)" by (simp add: map_of_eq_None_iff)
    then show ?thesis using None look by (force simp: policyFor_def)
  next
    case (Some b)
    then have m: "(i, c) \<in> set (last_docs es) \<longleftrightarrow> c = b" for c
      using map_of_eq_Some_iff [OF d, of i c] Some by auto
    have "(i, b) \<in> set (last_docs es)" by (simp add: m)
    then have "i \<in> fst ` set (last_docs es)" by (rule image_eqI [rotated]) simp
    then show ?thesis using Some look m [of False] by (cases "i = []") (simp_all add: policyFor_def)
  qed
qed

theorem policy_fails_closed_witness:
  "policyFor (run_policy [Docs [(''c1'', False)], Docs [(''c2'', True)]]) (Some ''c1'') =
     Some \<lparr>requires = True, unresolved_answer = True\<rparr>"
  using policy_fails_closed [of "[Docs [(''c1'', False)], Docs [(''c2'', True)]]" "''c1''"]
  by (auto simp: last_docs_def split: option.splits)

text \<open>The error latch. Once the initial replication is in, the source is unresolved exactly when an error has been
  emitted since the last successful pull.\<close>

fun error_open :: "bool \<Rightarrow> policy_event list \<Rightarrow> bool" where
  "error_open b [] = b"
| "error_open b (Error_Emitted m # es) = error_open True es"
| "error_open b (Pull_Succeeded # es) = error_open False es"
| "error_open b (Initial_Replicated # es) = error_open False es"
| "error_open b (_ # es) = error_open b es"

lemma latch_run:
  "attached s \<Longrightarrow> hears_success s \<Longrightarrow> ready s \<Longrightarrow>
     unresolved (foldl policy_step s es) = error_open (lastError s \<noteq> None) es"
proof (induction es arbitrary: s)
  case (Cons e es)
  then show ?case by (cases e) (auto simp: policy_step_def attach_def)
qed (simp add: unresolved_def)

text \<open>the error latch follows the recovery edge. After the handle with the successful-pull seam is attached and the initial replication has been delivered, the source reports itself unresolved exactly when an error was emitted since the last successful pull; one blip does not stick.\<close>
theorem error_latch_recovers:
  assumes "list_all (\<lambda>e. \<forall>b. e \<noteq> Attach b) before"
  shows "unresolved (run_policy (before @ Attach True # during @ Initial_Replicated # after)) = error_open False after"
proof -
  have unattached: "\<not> attached (foldl policy_step s before)" if "\<not> attached s" for s
    using that assms by (induction before arbitrary: s) (auto simp: policy_step_def split: policy_event.split)
  have kept: "attached (foldl policy_step s es) \<and> hears_success (foldl policy_step s es)"
    if "attached s" "hears_success s" for s es
    using that by (induction es arbitrary: s) (auto simp: policy_step_def attach_def split: policy_event.split)
  let ?s = "foldl policy_step (policy_step (foldl policy_step createCampaignPolicySource before) (Attach True)) during"
  have s: "attached ?s \<and> hears_success ?s"
    by (rule kept) (use unattached [of createCampaignPolicySource] in
        \<open>simp_all add: createCampaignPolicySource_def policy_step_def attach_def\<close>)
  then show ?thesis
    using latch_run [of "policy_step ?s Initial_Replicated" "after"] by (simp add: run_policy_def policy_step_def)
qed

theorem error_latch_recovers_witness:
  "unresolved (run_policy ([] @ Attach True # [Error_Emitted ''503''] @ Initial_Replicated #
     [Error_Emitted ''503'', Pull_Succeeded])) = False"
  using error_latch_recovers [of "[]" "[Error_Emitted ''503'']" "[Error_Emitted ''503'', Pull_Succeeded]"] by simp

section \<open>Offline offers\<close>

record offer_doc =
  d_id :: string
  d_token_hash :: string
  d_campaign_id :: "string option"
  d_expires_at :: string
  d_redeemed_at :: "string option"
  d_redeemed_by :: "string option"

record offer =
  offer_code_id :: string
  offer_campaign_id :: "string option"
  offer_expires_at :: string

definition live_doc :: "(string \<Rightarrow> ms option) \<Rightarrow> ms \<Rightarrow> offer_doc \<Rightarrow> bool" where
  "live_doc parse nowMs d \<longleftrightarrow>
     (d_redeemed_at d = None \<or> d_redeemed_at d = Some []) \<and>
     (case parse (d_expires_at d) of None \<Rightarrow> False | Some t \<Rightarrow> t > nowMs)"

text \<open>The comparator of \<open>sort\<close> subtracts parsed instants; every document that reaches it parses.\<close>

definition resolveOffers :: "(string \<Rightarrow> ms option) \<Rightarrow> offer_doc list \<Rightarrow> string \<Rightarrow> ms \<Rightarrow> offer list" where
  "resolveOffers parse docs tokenHash nowMs =
     sort_key (\<lambda>off. the (parse (offer_expires_at off)))
       (map (\<lambda>d. \<lparr>offer_code_id = d_id d, offer_campaign_id = d_campaign_id d, offer_expires_at = d_expires_at d\<rparr>)
         (filter (live_doc parse nowMs) (filter (\<lambda>d. d_token_hash d = tokenHash) docs)))"

lemma resolveOffers_live:
  "off \<in> set (resolveOffers parse docs h now) \<Longrightarrow> (case parse (offer_expires_at off) of None \<Rightarrow> False | Some t \<Rightarrow> t > now)"
  by (auto simp: resolveOffers_def live_doc_def)

end
