(* ===== verification/SubmitSupport.thy ===== *)
theory SubmitSupport
  imports Complex_Main Prelude
begin

text \<open>
  \<^verbatim>\<open>marketing/submit-support.js\<close>: the order-number rule, the Toast business date, the reachability probe and the
  device id. The host's calendar (\<open>Intl.DateTimeFormat\<close>) is the pair of a UTC-offset function for the time zone
  and a printer of day numbers.
\<close>

section \<open>The order number\<close>

definition is_space :: "char \<Rightarrow> bool" where
  "is_space c \<longleftrightarrow> (let n = (of_char c :: nat) in (9 \<le> n \<and> n \<le> 13) \<or> n = 32 \<or> n = 160)"

definition is_digit :: "char \<Rightarrow> bool" where
  "is_digit c \<longleftrightarrow> (let n = (of_char c :: nat) in 48 \<le> n \<and> n \<le> 57)"

definition trim :: "string \<Rightarrow> string" where
  "trim s = rev (dropWhile is_space (rev (dropWhile is_space s)))"

text \<open>\<open>/^\d{1,6}$/\<close>.\<close>

definition TOAST_ORDER_NUMBER_PLACEHOLDER_PATTERN :: "string \<Rightarrow> bool" where
  "TOAST_ORDER_NUMBER_PLACEHOLDER_PATTERN s \<longleftrightarrow> list_all is_digit s \<and> 1 \<le> length s \<and> length s \<le> 6"

text \<open>A value that is not a string validates as the empty one.\<close>

definition validateOrderNumber :: "string option \<Rightarrow> bool \<times> string" where
  "validateOrderNumber raw =
     (let value = (case raw of None \<Rightarrow> [] | Some s \<Rightarrow> trim s)
      in (TOAST_ORDER_NUMBER_PLACEHOLDER_PATTERN value, value))"

lemma digit_not_space: "is_digit c \<Longrightarrow> \<not> is_space c"
  by (auto simp: is_digit_def is_space_def Let_def)

lemma trim_digits: "list_all is_digit s \<Longrightarrow> trim s = s"
proof -
  assume s: "list_all is_digit s"
  have keep: "dropWhile is_space t = t" if "list_all is_digit t" for t
    using that by (cases t) (auto simp: digit_not_space)
  have "list_all is_digit (rev s)" using s by (simp add: list_all_iff)
  then show "trim s = s" using keep s by (simp add: trim_def)
qed

lemma validated_fixed: "validateOrderNumber raw = (True, v) \<Longrightarrow> validateOrderNumber (Some v) = (True, v)"
  by (auto simp: validateOrderNumber_def TOAST_ORDER_NUMBER_PLACEHOLDER_PATTERN_def trim_digits Let_def)

section \<open>The business date\<close>

definition TOAST_BUSINESS_DATE_CUTOFF_HOUR :: int where
  "TOAST_BUSINESS_DATE_CUTOFF_HOUR = 4"

definition DAY_MS :: ms where
  "DAY_MS = 86400000"

text \<open>The calendar day, in the zone, of an instant.\<close>

definition zone_day :: "(ms \<Rightarrow> ms) \<Rightarrow> ms \<Rightarrow> int" where
  "zone_day utc_offset t = (t + utc_offset t) div DAY_MS"

definition toastBusinessDate :: "(int \<Rightarrow> string) \<Rightarrow> (ms \<Rightarrow> ms) \<Rightarrow> int \<Rightarrow> ms \<Rightarrow> string" where
  "toastBusinessDate print_day utc_offset cutoffHour nowMs =
     (let shifted = nowMs - cutoffHour * 3600 * 1000 in print_day (zone_day utc_offset shifted))"

text \<open>The rule of the header: the date rolls when the wall clock reads the cutoff hour.\<close>

definition wall_business_day :: "(ms \<Rightarrow> ms) \<Rightarrow> int \<Rightarrow> ms \<Rightarrow> int" where
  "wall_business_day utc_offset cutoffHour t = (t + utc_offset t - cutoffHour * 3600 * 1000) div DAY_MS"

lemma business_date_wall_clock:
  "utc_offset (t - h * 3600 * 1000) = utc_offset t \<Longrightarrow>
     toastBusinessDate print_day utc_offset h t = print_day (wall_business_day utc_offset h t)"
  by (simp add: toastBusinessDate_def zone_day_def wall_business_day_def Let_def algebra_simps)

text \<open>the business date misses the cutoff on the morning the clocks go forward. The cutoff is subtracted from the instant and not from the wall clock, so for the hour that follows 4 o'clock on that morning the date is still the day before, where the wall-clock rule says the new day.\<close>
theorem spring_forward_business_date:
  assumes "\<And>u. utc_offset u = (if u < change then off else off + 3600 * 1000)"
    and "change + off = day * DAY_MS + 2 * 3600 * 1000"
    and "change + 3600 * 1000 \<le> t" and "t < change + 2 * 3600 * 1000"
  shows "toastBusinessDate print_day utc_offset TOAST_BUSINESS_DATE_CUTOFF_HOUR t = print_day (day - 1) \<and>
    wall_business_day utc_offset TOAST_BUSINESS_DATE_CUTOFF_HOUR t = day"
proof -
  define x where "x = t - change - 3600 * 1000"
  have x: "0 \<le> x" "x < 3600 * 1000" using assms(3,4) by (simp_all add: x_def)
  have before: "utc_offset (t - 4 * 3600 * 1000) = off" and after: "utc_offset t = off + 3600 * 1000"
    using assms(1,3,4) by simp_all
  have "t - 4 * 3600 * 1000 + off = day * DAY_MS + (x - 3600 * 1000)" using assms(2) by (simp add: x_def)
  then have "zone_day utc_offset (t - 4 * 3600 * 1000) = (day * DAY_MS + (x - 3600 * 1000)) div DAY_MS"
    by (simp only: zone_day_def before)
  also have "\<dots> = day - 1" using x by (simp add: DAY_MS_def)
  finally have "zone_day utc_offset (t - 4 * 3600 * 1000) = day - 1" .
  moreover have "t + (off + 3600 * 1000) - 4 * 3600 * 1000 = day * DAY_MS + x" using assms(2) by (simp add: x_def)
  then have "wall_business_day utc_offset 4 t = (day * DAY_MS + x) div DAY_MS"
    by (simp only: wall_business_day_def after)
  moreover have "(day * DAY_MS + x) div DAY_MS = day" using x by (simp add: DAY_MS_def)
  ultimately show ?thesis by (simp add: toastBusinessDate_def TOAST_BUSINESS_DATE_CUTOFF_HOUR_def Let_def)
qed

text \<open>Chicago around 2026-03-08, day 20520 of the epoch.\<close>

definition chicago :: "ms \<Rightarrow> ms" where
  "chicago u = (if u < 20520 * 86400000 + 8 * 3600 * 1000 then - 21600000 else - 21600000 + 3600 * 1000)"

theorem spring_forward_business_date_witness:
  "toastBusinessDate (\<lambda>d. if d = 20519 then ''2026-03-07'' else ''2026-03-08'') chicago TOAST_BUSINESS_DATE_CUTOFF_HOUR
     (20520 * 86400000 + 34200000) = ''2026-03-07''"
  using spring_forward_business_date [of chicago "20520 * 86400000 + 8 * 3600 * 1000" "- 21600000" 20520
      "20520 * 86400000 + 34200000" "\<lambda>d. if d = 20519 then ''2026-03-07'' else ''2026-03-08''"]
  by (simp add: chicago_def DAY_MS_def)

section \<open>The reachability probe\<close>

text \<open>What the fetch came to: a response with its \<open>ok\<close>, a falsy value, or a rejection (network error, abort).\<close>

datatype probe_fetch = Answered bool | No_Response | Fetch_Threw

definition probeNow :: "probe_fetch \<Rightarrow> ('s \<Rightarrow> bool \<Rightarrow> 's \<times> bool) \<Rightarrow> 's \<Rightarrow> 's \<times> bool" where
  "probeNow f onResult s =
     (let ok = (case f of Answered b \<Rightarrow> b | No_Response \<Rightarrow> False | Fetch_Threw \<Rightarrow> False);
          (s', threw) = onResult s ok
      in (s', ok))"

section \<open>The device id\<close>

text \<open>\<open>localStorage\<close> at one key: blocked (every access throws), or its value; a write may be refused.\<close>

record storage =
  blocked :: bool
  write_refused :: bool
  item :: "string option"

definition getDeviceId :: "string \<Rightarrow> string \<Rightarrow> storage \<Rightarrow> storage \<times> string" where
  "getDeviceId fresh session_id st =
     (if blocked st then (st, session_id)
      else case item st of
        Some i \<Rightarrow> if i \<noteq> [] then (st, i)
                  else if write_refused st then (st, session_id) else (st\<lparr>item := Some fresh\<rparr>, fresh)
      | None \<Rightarrow> if write_refused st then (st, session_id) else (st\<lparr>item := Some fresh\<rparr>, fresh))"

lemma getDeviceId_stable:
  "\<not> blocked st \<Longrightarrow> \<not> write_refused st \<Longrightarrow> f1 \<noteq> [] \<Longrightarrow>
     snd (getDeviceId f2 s2 (fst (getDeviceId f1 s1 st))) = snd (getDeviceId f1 s1 st)"
  by (auto simp: getDeviceId_def split: option.splits)

end
