(* ===== verification/Scanner.thy ===== *)
theory Scanner
  imports Complex_Main JsonValues Replicas SubmitSupport
begin

text \<open>
  \<^verbatim>\<open>marketing/scanner.js\<close>: what a scanned QR payload names, the memoized token hasher, and the resolver that
  decides what the counter sees. Regular expressions are written out as the searches they perform; the digest,
  \<open>JSON.parse\<close> of the base64url text and \<open>Date.parse\<close> are arguments.
\<close>

section \<open>The payload\<close>

definition token_char :: "char \<Rightarrow> bool" where
  "token_char c \<longleftrightarrow> c \<noteq> CHR ''/'' \<and> c \<noteq> CHR ''?'' \<and> c \<noteq> CHR ''#''"

text \<open>\<open>/\/r\/([^/?#]+)(?=[?#]|$)/\<close>: leftmost match, greedy token, which must run up to \<open>?\<close>, \<open>#\<close> or the end.\<close>

definition token_at :: "string \<Rightarrow> string option" where
  "token_at t =
     (if take 3 t = ''/r/''
      then (let tok = takeWhile token_char (drop 3 t); after = dropWhile token_char (drop 3 t)
            in if tok \<noteq> [] \<and> (after = [] \<or> hd after \<noteq> CHR ''/'') then Some tok else None)
      else None)"

fun extractToken :: "string \<Rightarrow> string option" where
  "extractToken [] = None"
| "extractToken (c # cs) = (case token_at (c # cs) of Some t \<Rightarrow> Some t | None \<Rightarrow> extractToken cs)"

definition word_char :: "char \<Rightarrow> bool" where
  "word_char c \<longleftrightarrow> is_digit c \<or> (let n = (of_char c :: nat) in (65 \<le> n \<and> n \<le> 90) \<or> (97 \<le> n \<and> n \<le> 122) \<or> n = 95 \<or> n = 45)"

text \<open>\<open>/[#?](?:[^#]*&)?o=([A-Za-z0-9_-]+)/\<close>: the optional group is greedy, so the last usable \<open>&\<close> before a \<open>#\<close> wins.\<close>

definition value_at :: "string \<Rightarrow> string option" where
  "value_at t =
     (if take 2 t = ''o='' \<and> takeWhile word_char (drop 2 t) \<noteq> [] then Some (takeWhile word_char (drop 2 t)) else None)"

fun after_amp :: "string \<Rightarrow> string option" where
  "after_amp [] = None"
| "after_amp (c # cs) =
     (if c = CHR ''#'' then None
      else case after_amp cs of
        Some v \<Rightarrow> Some v
      | None \<Rightarrow> if c = CHR ''&'' then value_at cs else None)"

fun descriptor_text :: "string \<Rightarrow> string option" where
  "descriptor_text [] = None"
| "descriptor_text (c # cs) =
     (if c = CHR ''#'' \<or> c = CHR ''?''
      then (case after_amp cs of
              Some v \<Rightarrow> Some v
            | None \<Rightarrow> (case value_at cs of Some v \<Rightarrow> Some v | None \<Rightarrow> descriptor_text cs))
      else descriptor_text cs)"

record embedded_offer =
  e_label :: string
  e_campaign_id :: "string option"
  e_expires_at :: "string option"
  e_face_value :: "rat option"

definition str_of :: "json \<Rightarrow> string option" where
  "str_of v = (case v of JStr s \<Rightarrow> Some s | _ \<Rightarrow> None)"

text \<open>\<open>decode\<close> is base64url to UTF-8 to \<open>JSON.parse\<close>; \<open>None\<close> stands for any of them throwing.\<close>

definition parseEmbeddedOffer :: "(string \<Rightarrow> json option) \<Rightarrow> string \<Rightarrow> embedded_offer option" where
  "parseEmbeddedOffer decode payload =
     (case descriptor_text payload of
        None \<Rightarrow> None
      | Some m \<Rightarrow>
          (case decode m of
             Some (JObj d) \<Rightarrow>
               (case field d ''label'' of
                  JStr l \<Rightarrow>
                    if trim l = [] then None
                    else Some \<lparr>e_label = l, e_campaign_id = str_of (field d ''campaign_id''),
                               e_expires_at = str_of (field d ''expires_at''),
                               e_face_value = (case field d ''face_value'' of JNum x \<Rightarrow> Some x | _ \<Rightarrow> None)\<rparr>
                | _ \<Rightarrow> None)
           | _ \<Rightarrow> None))"

section \<open>The token hasher\<close>

text \<open>The cache holds the promise of a digest; a digest that fails is dropped again. \<open>digest\<close> answers \<open>None\<close> when it
  rejects.\<close>

record hasher =
  cache :: "(string \<times> string) list"
  hits :: nat
  misses :: nat

definition createTokenHasher :: hasher where
  "createTokenHasher = \<lparr>cache = [], hits = 0, misses = 0\<rparr>"

definition hashToken :: "(string \<Rightarrow> string option) \<Rightarrow> nat \<Rightarrow> string \<Rightarrow> hasher \<Rightarrow> hasher \<times> string option" where
  "hashToken digest maxEntries token h =
     (case map_of (cache h) token of
        Some x \<Rightarrow> (h\<lparr>hits := hits h + 1\<rparr>, Some x)
      | None \<Rightarrow>
          (let kept = (if length (cache h) \<ge> maxEntries then [] else cache h)
           in case digest token of
                None \<Rightarrow> (h\<lparr>misses := misses h + 1, cache := kept\<rparr>, None)
              | Some x \<Rightarrow> (h\<lparr>misses := misses h + 1, cache := (token, x) # kept\<rparr>, Some x)))"

definition hasher_ok :: "(string \<Rightarrow> string option) \<Rightarrow> hasher \<Rightarrow> bool" where
  "hasher_ok digest h \<longleftrightarrow> list_all (\<lambda>(t, x). digest t = Some x) (cache h)"

lemma hashToken_digest:
  assumes ok: "hasher_ok digest h"
  shows "snd (hashToken digest n t h) = digest t \<and> hasher_ok digest (fst (hashToken digest n t h))"
proof (cases "map_of (cache h) t")
  case None
  then show ?thesis
    using ok by (auto simp: hashToken_def hasher_ok_def Let_def split: option.split)
next
  case (Some x)
  have "digest t = Some x" using map_of_SomeD [OF Some] ok by (auto simp: hasher_ok_def list_all_iff)
  then show ?thesis using ok Some by (simp add: hashToken_def hasher_ok_def)
qed

lemma hashToken_bounded:
  "0 < n \<Longrightarrow> length (cache h) \<le> n \<Longrightarrow> length (cache (fst (hashToken digest n t h))) \<le> n"
  by (auto simp: hashToken_def Let_def split: option.split)

section \<open>The resolver\<close>

datatype scan_result =
    InvalidPayload
  | OfferReadyResult string "offer list"
  | SpentLocallyResult string string "string option"
  | DeferToServer string string "string option" "embedded_offer option"
  | ExpiredLocallyResult string string
  | EmbeddedOffer string embedded_offer bool
  | UnknownCodeResult string

definition result_hash :: "scan_result \<Rightarrow> string option" where
  "result_hash r = (case r of
     InvalidPayload \<Rightarrow> None
   | OfferReadyResult h _ \<Rightarrow> Some h
   | SpentLocallyResult h _ _ \<Rightarrow> Some h
   | DeferToServer h _ _ _ \<Rightarrow> Some h
   | ExpiredLocallyResult h _ \<Rightarrow> Some h
   | EmbeddedOffer h _ _ \<Rightarrow> Some h
   | UnknownCodeResult h \<Rightarrow> Some h)"

definition present :: "string option \<Rightarrow> bool" where
  "present s \<longleftrightarrow> s \<noteq> None \<and> s \<noteq> Some []"

definition or_none :: "string option \<Rightarrow> string option" where
  "or_none s = (if present s then s else None)"

definition stamp :: "(string \<Rightarrow> ms option) \<Rightarrow> string option \<Rightarrow> ms" where
  "stamp parse s = (case s of None \<Rightarrow> 0 | Some t \<Rightarrow> (case parse t of None \<Rightarrow> 0 | Some n \<Rightarrow> n))"

definition offerShape :: "offer_doc \<Rightarrow> offer" where
  "offerShape d = \<lparr>offer_code_id = d_id d, offer_campaign_id = or_none (d_campaign_id d), offer_expires_at = d_expires_at d\<rparr>"

definition by_hash :: "offer_doc list \<Rightarrow> string \<Rightarrow> offer_doc list" where
  "by_hash docs h = filter (\<lambda>d. d_token_hash d = h) docs"

text \<open>\<open>now\<close> is the reading of the sync clock; \<open>codes\<close> and \<open>offers\<close> are the two local replicas. Timestamps that do
  not parse do not occur in replica rows; they would sort as the epoch here.\<close>

definition resolve_hash ::
  "(string \<Rightarrow> ms option) \<Rightarrow> offer_doc list \<Rightarrow> offer_doc list \<Rightarrow> ms \<Rightarrow> bool \<Rightarrow> embedded_offer option \<Rightarrow> string \<Rightarrow> scan_result" where
  "resolve_hash parse codes_docs offers_docs now online embedded h =
     (let fresh = resolveOffers parse offers_docs h now;
          codeDocs = by_hash codes_docs h;
          offers = (if fresh = []
                    then map offerShape (filter (\<lambda>d. \<not> present (d_redeemed_at d) \<and> \<not> isExpired parse (Iso (d_expires_at d)) now) codeDocs)
                    else fresh)
      in if offers \<noteq> [] then OfferReadyResult h (sort_key (\<lambda>off. stamp parse (Some (offer_expires_at off))) offers)
         else if codeDocs \<noteq> [] then
           (let redeemed = sort_key (\<lambda>d. - stamp parse (d_redeemed_at d)) (filter (\<lambda>d. present (d_redeemed_at d)) codeDocs)
            in case redeemed of
                 r # _ \<Rightarrow>
                   if \<not> online then SpentLocallyResult h (the (d_redeemed_at r)) (or_none (d_redeemed_by r))
                   else DeferToServer h (the (d_redeemed_at r)) (or_none (d_redeemed_by r)) embedded
               | [] \<Rightarrow> ExpiredLocallyResult h
                   (d_expires_at (hd (sort_key (\<lambda>d. - stamp parse (Some (d_expires_at d))) codeDocs))))
         else case embedded of
           Some eo \<Rightarrow> EmbeddedOffer h eo
             (case e_expires_at eo of None \<Rightarrow> False | Some s \<Rightarrow> s \<noteq> [] \<and> isExpired parse (Iso s) now)
         | None \<Rightarrow> UnknownCodeResult h)"

definition scan_resolve ::
  "(string \<Rightarrow> ms option) \<Rightarrow> (string \<Rightarrow> json option) \<Rightarrow> (string \<Rightarrow> string) \<Rightarrow> offer_doc list \<Rightarrow> offer_doc list \<Rightarrow> ms \<Rightarrow> bool \<Rightarrow>
     string \<Rightarrow> scan_result" where
  "scan_resolve parse decode hash codes_docs offers_docs now online payload =
     (case extractToken payload of
        None \<Rightarrow> InvalidPayload
      | Some token \<Rightarrow>
          resolve_hash parse codes_docs offers_docs now online (parseEmbeddedOffer decode payload) (hash token))"

section \<open>What a verdict rests on\<close>

definition live_row :: "(string \<Rightarrow> ms option) \<Rightarrow> ms \<Rightarrow> string \<Rightarrow> offer_doc list \<Rightarrow> offer \<Rightarrow> bool" where
  "live_row parse now h docs off \<longleftrightarrow>
     list_ex (\<lambda>d. d_token_hash d = h \<and> d_id d = offer_code_id off \<and> \<not> present (d_redeemed_at d) \<and>
       d_expires_at d = offer_expires_at off \<and> \<not> isExpired parse (Iso (d_expires_at d)) now) docs"

lemma resolveOffers_live_row:
  "off \<in> set (resolveOffers parse docs h now) \<Longrightarrow> live_row parse now h docs off"
  by (fastforce simp: resolveOffers_def live_doc_def live_row_def list_ex_iff present_def isExpired_def split: option.splits)

text \<open>what the counter is shown rests on the replicas. An offered code is a row of a local replica for the scanned customer, not redeemed and not expired by the sync clock, and the list runs by expiry; a code is called spent only offline, and only when its rows include a redeemed one; online the local flag never refuses; a code is called expired only when none of its rows is redeemed or live.\<close>
theorem resolve_verdict_sound:
  "case resolve_hash parse codes_docs offers_docs now online embedded h of
      OfferReadyResult k offers \<Rightarrow> k = h \<and> offers \<noteq> [] \<and> sorted (map (\<lambda>off. stamp parse (Some (offer_expires_at off))) offers) \<and>
        list_all (live_row parse now h (codes_docs @ offers_docs)) offers
    | SpentLocallyResult k t b \<Rightarrow> k = h \<and> \<not> online \<and> list_ex (\<lambda>d. d_redeemed_at d = Some t \<and> t \<noteq> []) (by_hash codes_docs h)
    | DeferToServer k t b e \<Rightarrow> k = h \<and> online \<and> list_ex (\<lambda>d. d_redeemed_at d = Some t \<and> t \<noteq> []) (by_hash codes_docs h)
    | ExpiredLocallyResult k t \<Rightarrow> k = h \<and>
        list_all (\<lambda>d. \<not> present (d_redeemed_at d) \<and> isExpired parse (Iso (d_expires_at d)) now) (by_hash codes_docs h)
    | EmbeddedOffer k eo x \<Rightarrow> k = h \<and> embedded = Some eo \<and> by_hash codes_docs h = []
    | UnknownCodeResult k \<Rightarrow> k = h \<and> embedded = None \<and> by_hash codes_docs h = []
    | InvalidPayload \<Rightarrow> False"
proof -
  let ?fresh = "resolveOffers parse offers_docs h now" and ?codes = "by_hash codes_docs h"
  let ?live = "filter (\<lambda>d. \<not> present (d_redeemed_at d) \<and> \<not> isExpired parse (Iso (d_expires_at d)) now) ?codes"
  let ?offers = "if ?fresh = [] then map offerShape ?live else ?fresh"
  let ?red = "sort_key (\<lambda>d. - stamp parse (d_redeemed_at d)) (filter (\<lambda>d. present (d_redeemed_at d)) ?codes)"
  have live: "live_row parse now h (codes_docs @ offers_docs) off" if "off \<in> set ?offers" for off
  proof (cases "?fresh = []")
    case True
    then show ?thesis using that by (force simp: live_row_def list_ex_iff by_hash_def offerShape_def)
  next
    case False
    then show ?thesis using that resolveOffers_live_row [of off parse offers_docs h now] by (simp add: live_row_def)
  qed
  show ?thesis
  proof (cases "?offers = []")
    case False
    define os where "os = ?offers"
    have "resolve_hash parse codes_docs offers_docs now online embedded h =
        OfferReadyResult h (sort_key (\<lambda>off. stamp parse (Some (offer_expires_at off))) os)"
      using False by (simp add: resolve_hash_def Let_def os_def)
    moreover have "os \<noteq> []" and "\<forall>off\<in>set os. live_row parse now h (codes_docs @ offers_docs) off"
      using False live unfolding os_def by blast+
    moreover have "sort_key k xs = [] \<longleftrightarrow> xs = []" for k :: "offer \<Rightarrow> ms" and xs by (metis set_empty set_sort)
    ultimately show ?thesis by (simp add: list_all_iff)
  next
    case True
    then have none: "?live = []" "?fresh = []" by (simp_all split: if_splits)
    show ?thesis
    proof (cases "?codes = []")
      case True
      then show ?thesis using none by (simp add: resolve_hash_def Let_def split: option.split)
    next
      case False
      show ?thesis
      proof (cases ?red)
        case Nil
        then have "\<forall>d\<in>set ?codes. \<not> present (d_redeemed_at d)"
          by (metis (mono_tags, lifting) empty_filter_conv set_empty set_sort)
        then show ?thesis
          using none False Nil by (auto simp: resolve_hash_def Let_def list_all_iff filter_empty_conv)
      next
        case (Cons r rs)
        then have "r \<in> set ?codes \<and> present (d_redeemed_at r)"
          using set_sort [of "\<lambda>d. - stamp parse (d_redeemed_at d)" "filter (\<lambda>d. present (d_redeemed_at d)) ?codes"] by auto
        then show ?thesis
          using none False Cons by (auto simp: resolve_hash_def Let_def list_ex_iff present_def)
      qed
    qed
  qed
qed

end
