(* ===== verification/SubmitFlow.thy ===== *)
theory SubmitFlow
  imports Complex_Main ScannerProps Scanner PushReplication
begin

text \<open>
  \<^verbatim>\<open>marketing/submit-flow.js\<close>: the page around the statechart. The page record holds the machine's snapshot, the
  session stashes and what has left the page (posted redeem bodies, enqueued override attempts). Every handler is
  a function on the page; the effects a handler's events push run right after it, as queued microtasks do.
\<close>

section \<open>The page\<close>

record submit_ctx =
  sx_token_hash :: string
  sx_code_id :: "string option"
  sx_value :: "rat option"
  sx_winner :: "(string \<times> string option) option"
  sx_policy_unresolved :: bool

record order_entry =
  o_raw :: string
  o_ok :: bool
  o_value :: string

record redeem_body =
  rb_token_hash :: string
  rb_device_id :: string
  rb_order_number :: "string option"
  rb_scanned_at :: ms
  rb_value :: "rat option"

record page =
  machine :: snap
  SUBMIT_CTX :: "submit_ctx option"
  ORDER_STATE :: order_entry
  WINNER :: "(string \<times> string option) option"
  SUBMIT_ERROR :: "string option"
  OVERRIDE_WRITE_ERROR :: "string option"
  lastSc :: scan_state
  handled :: nat
  in_flight :: nat
  posted :: "redeem_body list"
  enqueued :: "enqueue_fields list"

text \<open>What the page is given: ids, the sync clock's reading, the business date, the policy source (\<open>None\<close> inside an
  answer stands for a throw), and whether the local write of an override fails.\<close>

record page_env =
  DEVICE_ID :: string
  overrider :: "string option"
  clock_reading :: ms
  business_day :: "ms \<Rightarrow> string"
  CAMPAIGN_POLICY :: "(string option \<Rightarrow> policy_answer option option) option"
  source_unresolved :: "bool option"
  enqueue_error :: "string option"

definition no_order :: order_entry where
  "no_order = \<lparr>o_raw = [], o_ok = False, o_value = []\<rparr>"

definition clearSession :: "page \<Rightarrow> page" where
  "clearSession p = p\<lparr>SUBMIT_CTX := None, ORDER_STATE := no_order, WINNER := None, SUBMIT_ERROR := None,
     OVERRIDE_WRITE_ERROR := None\<rparr>"

definition init_page :: "bool \<Rightarrow> page" where
  "init_page co =
     \<lparr>machine = init_snap co, SUBMIT_CTX = None, ORDER_STATE = no_order, WINNER = None, SUBMIT_ERROR = None,
      OVERRIDE_WRITE_ERROR = None, lastSc = Idle, handled = 0, in_flight = 0, posted = [], enqueued = []\<rparr>"

abbreviation sc :: "page \<Rightarrow> scan_state" where
  "sc p \<equiv> c_sc (s_ctx (machine p))"

text \<open>\<open>machine.send\<close> with the page's \<open>onChange\<close> listener.\<close>

definition machine_send :: "event \<Rightarrow> page \<Rightarrow> page" where
  "machine_send e p =
     (case send ModelMode e (machine p) of
        None \<Rightarrow> p
      | Some s \<Rightarrow>
          (let p1 = p\<lparr>machine := s\<rparr>;
               p2 = (if sc p1 = Idle \<and> lastSc p1 \<noteq> Idle then clearSession p1 else p1)
           in p2\<lparr>lastSc := sc p1\<rparr>))"

definition or_null_str :: "string \<Rightarrow> string option" where
  "or_null_str s = (if s = [] then None else Some s)"

section \<open>Campaign policy\<close>

definition flow_policyFor :: "page_env \<Rightarrow> string option \<Rightarrow> bool" where
  "flow_policyFor env campaignId =
     (case CAMPAIGN_POLICY env of
        None \<Rightarrow> False
      | Some f \<Rightarrow> (case f campaignId of
          None \<Rightarrow> False
        | Some p \<Rightarrow> (case p of None \<Rightarrow> False | Some a \<Rightarrow> requires a)))"

definition policyUnresolvedFor :: "page_env \<Rightarrow> string option \<Rightarrow> bool" where
  "policyUnresolvedFor env campaignId =
     (case CAMPAIGN_POLICY env of
        None \<Rightarrow> True
      | Some f \<Rightarrow>
          if \<not> present campaignId then (case source_unresolved env of None \<Rightarrow> True | Some b \<Rightarrow> b)
          else (case f campaignId of
            None \<Rightarrow> True
          | Some p \<Rightarrow> (case p of None \<Rightarrow> True | Some a \<Rightarrow> unresolved_answer a)))"

section \<open>Effects\<close>

definition redeem_request :: "page_env \<Rightarrow> page \<Rightarrow> submit_ctx \<Rightarrow> redeem_body" where
  "redeem_request env p c =
     \<lparr>rb_token_hash = sx_token_hash c, rb_device_id = DEVICE_ID env, rb_order_number = or_null_str (o_value (ORDER_STATE p)),
      rb_scanned_at = clock_reading env, rb_value = sx_value c\<rparr>"

definition doOnlineSubmit :: "page_env \<Rightarrow> page \<Rightarrow> page" where
  "doOnlineSubmit env p =
     (case SUBMIT_CTX p of
        None \<Rightarrow> machine_send (ev SRV_ERROR) (p\<lparr>SUBMIT_ERROR := Some ''no session''\<rparr>)
      | Some c \<Rightarrow> p\<lparr>posted := posted p @ [redeem_request env p c], in_flight := in_flight p + 1\<rparr>)"

definition override_fields :: "page_env \<Rightarrow> page \<Rightarrow> submit_ctx \<Rightarrow> bool \<Rightarrow> enqueue_fields" where
  "override_fields env p c unverified =
     \<lparr>f_code_id = (case sx_code_id c of Some i \<Rightarrow> if i \<noteq> [] then i else sx_token_hash c | None \<Rightarrow> sx_token_hash c),
      f_device_id = DEVICE_ID env, f_offline_override = Some True, f_override_by = overrider env,
      f_unverified_code = Some unverified, f_policy_unresolved = Some (sx_policy_unresolved c),
      f_pos_order_number = or_null_str (o_value (ORDER_STATE p)), f_redeemed_value = sx_value c,
      f_pos_business_date = Some (business_day env (clock_reading env))\<rparr>"

definition doOverrideWrite :: "page_env \<Rightarrow> bool \<Rightarrow> page \<Rightarrow> page" where
  "doOverrideWrite env unverified p =
     (case SUBMIT_CTX p of
        None \<Rightarrow> p
      | Some c \<Rightarrow>
          (case enqueue_error env of
             Some msg \<Rightarrow> p\<lparr>OVERRIDE_WRITE_ERROR := Some msg\<rparr>
           | None \<Rightarrow> p\<lparr>enqueued := enqueued p @ [override_fields env p c unverified], OVERRIDE_WRITE_ERROR := None\<rparr>))"

definition handleEffect :: "page_env \<Rightarrow> effect \<Rightarrow> page \<Rightarrow> page" where
  "handleEffect env e p =
     (case e of SubmitToServer \<Rightarrow> doOnlineSubmit env p | WriteAttempt b u \<Rightarrow> doOverrideWrite env u p)"

text \<open>The microtasks a handler queued, in order.\<close>

definition microtasks :: "page_env \<Rightarrow> page \<Rightarrow> page" where
  "microtasks env p =
     fold (handleEffect env) (drop (handled p) (s_effects (machine p))) (p\<lparr>handled := length (s_effects (machine p))\<rparr>)"

text \<open>The answer to a posted redeem: a decoded HTTP 200, another status with the body's error, an abort, a failure of
  the network or of the decoding.\<close>

datatype server_reply = Reply_200 string "string option" | Reply_Http nat "string option" | Timed_Out | Network_Gone

definition verdict_event :: "string \<Rightarrow> etype" where
  "verdict_event r =
     (if r = ''redeemed'' then SRV_REDEEMED else if r = ''already_used'' then SRV_ALREADY_USED
      else if r = ''expired'' then SRV_EXPIRED else if r = ''not_found'' then SRV_NOT_FOUND else SRV_ERROR)"

definition reply_event :: "server_reply \<Rightarrow> etype" where
  "reply_event r = (case r of Reply_200 res _ \<Rightarrow> verdict_event res | _ \<Rightarrow> SRV_ERROR)"

definition reply_error :: "(nat \<Rightarrow> string) \<Rightarrow> server_reply \<Rightarrow> string option \<Rightarrow> string option" where
  "reply_error dec r old = (case r of
     Reply_200 res err \<Rightarrow>
       if verdict_event res = SRV_ERROR
       then Some (case err of Some e \<Rightarrow> if e \<noteq> [] then e else ''server reported an error'' | None \<Rightarrow> ''server reported an error'')
       else old
   | Reply_Http n err \<Rightarrow>
       Some (case err of Some e \<Rightarrow> if e \<noteq> [] then e @ '' (HTTP '' @ dec n @ '')'' else ''HTTP '' @ dec n | None \<Rightarrow> ''HTTP '' @ dec n)
   | Timed_Out \<Rightarrow> Some ''timed out - the server did not answer''
   | Network_Gone \<Rightarrow> Some ''network failure - the request never completed'')"

text \<open>\<open>docs\<close> is the codes replica; \<open>None\<close> when reading it throws.\<close>

definition lookupWinner :: "(string \<Rightarrow> ms option) \<Rightarrow> offer_doc list option \<Rightarrow> string \<Rightarrow> page \<Rightarrow> (string \<times> string option) option" where
  "lookupWinner parse docs tokenHash p =
     (let redeemed = (case docs of None \<Rightarrow> []
          | Some ds \<Rightarrow> sort_key (\<lambda>d. - stamp parse (d_redeemed_at d)) (filter (\<lambda>d. present (d_redeemed_at d)) (by_hash ds tokenHash)))
      in case redeemed of
           r # _ \<Rightarrow> Some (the (d_redeemed_at r), or_none (d_redeemed_by r))
         | [] \<Rightarrow> (case SUBMIT_CTX p of None \<Rightarrow> None | Some c \<Rightarrow> sx_winner c))"

text \<open>What follows the answer. Without a session the \<open>already_used\<close> branch dereferences \<open>null\<close> and stops.\<close>

definition submitAnswered ::
  "(nat \<Rightarrow> string) \<Rightarrow> (string \<Rightarrow> ms option) \<Rightarrow> server_reply \<Rightarrow> offer_doc list option \<Rightarrow> page \<Rightarrow> page" where
  "submitAnswered dec parse r docs p =
     (let p1 = p\<lparr>in_flight := in_flight p - 1, SUBMIT_ERROR := reply_error dec r (SUBMIT_ERROR p)\<rparr>; e = reply_event r
      in if e = SRV_ALREADY_USED
         then (case SUBMIT_CTX p1 of
                 None \<Rightarrow> p1
               | Some c \<Rightarrow> machine_send (ev e) (p1\<lparr>WINNER := lookupWinner parse docs (sx_token_hash c) p1\<rparr>))
         else machine_send (ev e) p1)"

section \<open>Scans\<close>

text \<open>The gate, once the token is hashed (\<open>None\<close>: no token in the payload), and whether the page goes on to resolve.\<close>

definition gate :: "string option \<Rightarrow> page \<Rightarrow> page \<times> bool" where
  "gate token_hash p =
     (case token_hash of
        None \<Rightarrow> (p, sessionCode (s_ctx (machine p)) = None)
      | Some h \<Rightarrow>
          (let p1 = (if sc p = Idle then machine_send (ev SCAN) p else p);
               p2 = machine_send (decoded h) p1
           in (p2, sc p2 = Resolving \<and> sessionCode (s_ctx (machine p2)) = Some h)))"

definition stash_for :: "page_env \<Rightarrow> string \<Rightarrow> submit_ctx" where
  "stash_for env h =
     \<lparr>sx_token_hash = h, sx_code_id = None, sx_value = None, sx_winner = None,
      sx_policy_unresolved = policyUnresolvedFor env None\<rparr>"

text \<open>The stash, the kind and the policy flag a result maps to; \<open>docs\<close> is the codes replica the spent kinds read.\<close>

definition map_result ::
  "page_env \<Rightarrow> offer_doc list option \<Rightarrow> scan_result \<Rightarrow> (submit_ctx \<times> string \<times> bool) option" where
  "map_result env docs r =
     (let spent = (\<lambda>h t b.
            (let s = (stash_for env h)\<lparr>sx_winner := Some (t, or_none b)\<rparr>
             in case docs of
                  Some ds \<Rightarrow>
                    (case by_hash ds h of
                       d # _ \<Rightarrow> Some (s\<lparr>sx_code_id := Some (d_id d),
                                       sx_policy_unresolved := policyUnresolvedFor env (or_none (d_campaign_id d))\<rparr>,
                                     ''spentLocally'', flow_policyFor env (or_none (d_campaign_id d)))
                     | [] \<Rightarrow> Some (s, ''spentLocally'', False))
                | None \<Rightarrow> Some (s, ''spentLocally'', False)))
      in case r of
           InvalidPayload \<Rightarrow> None
         | OfferReadyResult h offers \<Rightarrow>
             (case offers of
                [] \<Rightarrow> None
              | off # _ \<Rightarrow> Some ((stash_for env h)\<lparr>sx_code_id := Some (offer_code_id off),
                    sx_policy_unresolved := policyUnresolvedFor env (or_none (offer_campaign_id off))\<rparr>,
                  ''offerReady'', flow_policyFor env (or_none (offer_campaign_id off))))
         | DeferToServer h t b e \<Rightarrow> spent h t b
         | SpentLocallyResult h t b \<Rightarrow> spent h t b
         | EmbeddedOffer h eo x \<Rightarrow> Some ((stash_for env h)\<lparr>sx_value := e_face_value eo\<rparr>, ''unknownCode'', False)
         | UnknownCodeResult h \<Rightarrow> Some (stash_for env h, ''unknownCode'', False)
         | ExpiredLocallyResult h t \<Rightarrow> Some (stash_for env h, ''expiredLocally'', False))"

definition onResult :: "page_env \<Rightarrow> offer_doc list option \<Rightarrow> scan_result \<Rightarrow> page \<Rightarrow> page" where
  "onResult env docs r p =
     (if \<not> present (result_hash r) \<or> sc p \<noteq> Resolving then p
      else case map_result env docs r of
        None \<Rightarrow> p
      | Some (stash, k, ro) \<Rightarrow>
          machine_send (resolved k ro)
            (p\<lparr>SUBMIT_CTX := Some stash, ORDER_STATE := no_order, WINNER := None, SUBMIT_ERROR := None,
               OVERRIDE_WRITE_ERROR := None\<rparr>))"

section \<open>Reachability\<close>

definition afterReachable :: "page \<Rightarrow> page" where
  "afterReachable p = machine_send (ev RESUBSCRIBED) p"

definition handleProbe :: "bool \<Rightarrow> page \<Rightarrow> page" where
  "handleProbe probe_ok p =
     (if probe_ok
      then (case v_conn (machine p) of
              Offline \<Rightarrow> afterReachable (machine_send (ev CONN_UP) p)
            | Stale \<Rightarrow> afterReachable p
            | Online \<Rightarrow> p)
      else machine_send (ev PROBE_TIMEOUT) p)"

datatype channel_status = SUBSCRIBED | CHANNEL_ERROR | TIMED_OUT | CLOSED | Other_Status

definition reportChannelStatus :: "channel_status \<Rightarrow> page \<Rightarrow> page" where
  "reportChannelStatus st p =
     (if st = SUBSCRIBED then (if v_conn (machine p) = Stale then machine_send (ev RESUBSCRIBED) p else p)
      else if st = CHANNEL_ERROR \<or> st = TIMED_OUT \<or> st = CLOSED then machine_send (ev PROBE_TIMEOUT) p
      else p)"

section \<open>The crew's input\<close>

definition dispatchOrValidate :: "etype \<Rightarrow> page \<Rightarrow> page" where
  "dispatchOrValidate e p =
     (let (ok, value) = validateOrderNumber (Some (o_raw (ORDER_STATE p)))
      in if \<not> ok then p\<lparr>ORDER_STATE := (ORDER_STATE p)\<lparr>o_ok := False\<rparr>\<rparr>
         else machine_send (ev e) (p\<lparr>ORDER_STATE := (ORDER_STATE p)\<lparr>o_ok := True, o_value := value\<rparr>\<rparr>))"

definition onInput :: "string \<Rightarrow> page \<Rightarrow> page" where
  "onInput text p =
     (let (ok, value) = validateOrderNumber (Some text);
          p1 = p\<lparr>ORDER_STATE := \<lparr>o_raw = text, o_ok = ok, o_value = (if ok then value else [])\<rparr>\<rparr>
      in if ok \<and> sc p1 = OfferReady then machine_send (ev ORDER_OK) p1 else p1)"

definition onScanAgain :: "page \<Rightarrow> page" where
  "onScanAgain p = (if sc p \<noteq> Idle then machine_send (ev NEXT_CUSTOMER) p else p)"

datatype button = Ms_Submit | Ms_Override | Ms_Confirm_Override | Ms_Cancel_Override | Ms_Retry | Ms_Dismiss | Ms_Next | Ms_Prompt_Next

fun actions :: "button \<Rightarrow> page \<Rightarrow> page" where
  "actions Ms_Submit p = dispatchOrValidate SUBMIT p"
| "actions Ms_Override p = machine_send (ev OVERRIDE_REQUEST) p"
| "actions Ms_Confirm_Override p = dispatchOrValidate OVERRIDE_CONFIRM p"
| "actions Ms_Cancel_Override p = machine_send (ev OVERRIDE_CANCEL) p"
| "actions Ms_Retry p = machine_send (ev RETRY) p"
| "actions Ms_Dismiss p = machine_send (ev DISMISS) p"
| "actions Ms_Next p = onScanAgain (machine_send (ev NEXT_CUSTOMER) p)"
| "actions Ms_Prompt_Next p = onScanAgain (machine_send (ev NEXT_CUSTOMER) p)"

section \<open>Boot\<close>

text \<open>The entitlement: the server's list of app slugs (\<open>None\<close>: no usable answer), else what was cached.\<close>

definition boot_entitlement :: "string list option \<Rightarrow> bool option \<Rightarrow> bool \<times> bool option" where
  "boot_entitlement apps cached =
     (case apps of
        Some slugs \<Rightarrow> (let can = ''marketing-offline-override'' \<in> set slugs in (can, Some can))
      | None \<Rightarrow> (case cached of None \<Rightarrow> (False, None) | Some c \<Rightarrow> (c, Some c)))"

definition boot_page :: "bool \<Rightarrow> bool \<Rightarrow> page" where
  "boot_page co first_probe = handleProbe first_probe (machine_send (ev PROBE_TIMEOUT) (init_page co))"

section \<open>Any interleaving\<close>

text \<open>With \<open>ordered\<close>, a result that reaches the page is the one of the session the machine holds; without it, the
  result of any earlier scan may arrive.\<close>

inductive page_step :: "bool \<Rightarrow> page \<Rightarrow> page \<Rightarrow> bool" for ordered where
  Gate: "page_step ordered p (microtasks env (fst (gate h p)))"
| Result: "(ordered \<Longrightarrow> result_hash r = sessionCode (s_ctx (machine p))) \<Longrightarrow>
    page_step ordered p (microtasks env (onResult env docs r p))"
| Input: "page_step ordered p (microtasks env (onInput text p))"
| Action: "page_step ordered p (microtasks env (actions b p))"
| Scan_Again: "page_step ordered p (microtasks env (onScanAgain p))"
| Probe: "page_step ordered p (microtasks env (handleProbe b p))"
| Channel: "page_step ordered p (microtasks env (reportChannelStatus st p))"
| Reply: "0 < in_flight p \<Longrightarrow> page_step ordered p (microtasks env (submitAnswered dec parse r docs p))"

inductive_cases page_stepE: "page_step ordered p p'"

end
