(* ===== verification/SubmitFlowProps.thy ===== *)
theory SubmitFlowProps
  imports Complex_Main SubmitFlow
begin

text \<open>
  What the page guarantees under any interleaving of its handlers: what leaves it carries a valid order number,
  and belongs to the session on screen when results arrive in order; and the run that shows the order is needed.
\<close>

section \<open>The machine beneath the page\<close>

definition machine_ok :: "bool \<Rightarrow> snap \<Rightarrow> bool" where
  "machine_ok co s \<longleftrightarrow> snap_inv co s \<and> alive s \<and> v_scan s \<noteq> UnexpectedEvent"

lemma machine_ok_init: "machine_ok co (init_snap co)"
  using reach_inv [OF reach.start [of ModelMode co]] by (simp add: machine_ok_def alive_def init_snap_def)

lemma page_events [simp]:
  "alphabet_event (decoded h)" "alphabet_event (resolved k ro)"
  "t \<noteq> UNEXPECTED \<Longrightarrow> t \<in> set EVENT_ALPHABET \<Longrightarrow> alphabet_event (ev t)"
  by (simp_all add: alphabet_event_def event_simps alphabet_defs)

lemma send_dead: "send m e s = Some s' \<Longrightarrow> s_dead s \<Longrightarrow> s' = s"
  by (simp add: send_def)

definition early :: "scan_state \<Rightarrow> bool" where
  "early s \<longleftrightarrow> s = Idle \<or> s = Scanning \<or> s = Resolving"

text \<open>The scan region's moves as the page sees them.\<close>

lemma move_rows:
  assumes "scan_move e c s s' c' fx" and "s \<noteq> UnexpectedEvent" and "ev_type e \<noteq> UNEXPECTED"
  shows "(s' = Idle \<and> s \<noteq> Submitting \<and> fx = []) \<or> (s = Idle \<and> s' = Scanning \<and> fx = []) \<or> (s = Scanning \<and> s' = Resolving \<and> fx = [])
    \<or> (s = Resolving \<and> ev_type e = RESOLVED \<and> s' \<notin> {Idle, Scanning, Resolving, Submitting, UnexpectedEvent}
        \<and> sessionCode c' = sessionCode c \<and> fx = [])
    \<or> (s \<notin> {Idle, Scanning, Resolving, Submitting} \<and> ev_type e = SUBMIT \<and> s' = Submitting \<and> c' = c \<and> fx = [SubmitToServer]
        \<and> c_conn c = Online)
    \<or> (s = OverrideConfirm \<and> ev_type e = OVERRIDE_CONFIRM \<and> s' = OverridePending \<and> c' = c \<and> (\<exists>u. fx = [WriteAttempt True u]))
    \<or> (s = Submitting \<and> ev_type e \<in> set SRV_VERDICTS \<and> s' \<notin> {Idle, Scanning, Resolving, Submitting, UnexpectedEvent}
        \<and> c' = c \<and> fx = [])
    \<or> (s \<notin> {Idle, Scanning, Resolving, Submitting} \<and> s' \<notin> {Idle, Scanning, Resolving, Submitting, UnexpectedEvent}
        \<and> sessionCode c' = sessionCode c \<and> fx = [])"
  using assms(1)
proof cases
  case verdict
  then show ?thesis using verdict_parked [OF verdict(4)] by (cases "ev_type e") (simp_all add: SRV_VERDICTS_def)
next
  case (unexpected)
  with assms(3) show ?thesis by simp
next
  case next_customer
  then show ?thesis by (simp add: park_resets_def)
next
  case submit
  then show ?thesis by (elim disjE) simp_all
next
  case gated
  then show ?thesis by (elim disjE) simp_all
next
  case resume
  then show ?thesis by (elim disjE) simp_all
qed (use assms(2) in \<open>simp_all add: with_kind_def\<close>)

lemma move_page:
  assumes "scan_move e c s s' c' fx" and "s \<noteq> UnexpectedEvent" and "ev_type e \<noteq> UNEXPECTED"
  obtains (reset) "s' = Idle" "s \<noteq> Submitting" "fx = []"
  | (scan) "s = Idle" "s' = Scanning" "fx = []"
  | (decode) "s = Scanning" "s' = Resolving" "fx = []"
  | (result) "s = Resolving" "ev_type e = RESOLVED" "\<not> early s'" "s' \<noteq> Submitting" "s' \<noteq> UnexpectedEvent"
      "sessionCode c' = sessionCode c" "fx = []"
  | (submit) "\<not> early s" "s \<noteq> Submitting" "ev_type e = SUBMIT" "s' = Submitting" "c' = c" "fx = [SubmitToServer]"
      "c_conn c = Online"
  | (override) u where "s = OverrideConfirm" "ev_type e = OVERRIDE_CONFIRM" "s' = OverridePending" "c' = c"
      "fx = [WriteAttempt True u]"
  | (answer) "s = Submitting" "ev_type e \<in> set SRV_VERDICTS" "\<not> early s'" "s' \<noteq> Submitting" "s' \<noteq> UnexpectedEvent"
      "c' = c" "fx = []"
  | (inside) "\<not> early s" "s \<noteq> Submitting" "\<not> early s'" "s' \<noteq> Submitting" "s' \<noteq> UnexpectedEvent"
      "sessionCode c' = sessionCode c" "fx = []"
proof -
  note rows = move_rows [OF assms] and ed = early_def
  show thesis using rows
    by (elim disjE conjE exE) (rule reset scan decode result submit override answer inside; simp add: ed; fail)+
qed

lemma machine_ok_step:
  assumes "machine_ok co s" and "alphabet_event e"
  shows "send ModelMode e s = Some (flat_step e s)" and "machine_ok co (flat_step e s)"
proof -
  show snd: "send ModelMode e s = Some (flat_step e s)"
    using assms by (simp add: machine_ok_def alphabet_send)
  have "snap_inv co (flat_step e s)"
    using send_inv [OF snd] assms alphabet_external by (simp add: machine_ok_def)
  moreover have nu: "ev_type e \<noteq> UNEXPECTED" using alphabet_external [OF assms(2)] by (simp add: external_def)
  have "v_scan (flat_step e s) \<noteq> UnexpectedEvent"
  proof (rule flat_step_cases [of e s])
    fix s' c' fx
    assume mv: "scan_move e (s_ctx s) (v_scan s) s' c' fx"
    have "s' \<noteq> UnexpectedEvent"
      by (rule move_page [OF mv _ nu]) (use assms(1) in \<open>auto simp: machine_ok_def\<close>)
    then show "flat_step e s = s
       \<lparr>v_conn := or_else (conn_next (v_conn s) (ev_type e)) (v_conn s), v_ov := or_else (ov_next (v_ov s) (s_ctx s) e) (v_ov s),
        v_scan := s',
        s_ctx := c'\<lparr>c_conn := or_else (conn_next (v_conn s) (ev_type e)) (c_conn c'),
          c_ov := or_else (ov_next (v_ov s) (s_ctx s) e) (c_ov c'), c_sc := s'\<rparr>,
        s_effects := s_effects s @ fx, s_dead := False\<rparr> \<Longrightarrow> v_scan (flat_step e s) \<noteq> UnexpectedEvent" by simp
  qed (use assms(1) in \<open>simp add: machine_ok_def\<close>)
  ultimately show "machine_ok co (flat_step e s)" by (simp add: machine_ok_def)
qed

text \<open>One alphabet event beneath the page, in the page's terms.\<close>

lemma machine_moves:
  assumes "machine_ok co s" and "alphabet_event e"
  obtains (stays) "v_scan (flat_step e s) = v_scan s" "s_effects (flat_step e s) = s_effects s"
      "sessionCode (s_ctx (flat_step e s)) = sessionCode (s_ctx s)" "v_scan s = Submitting \<longrightarrow> ev_type e \<notin> set SRV_VERDICTS"
  | (moves) c' fx where "scan_move e (s_ctx s) (v_scan s) (v_scan (flat_step e s)) c' fx"
      "s_effects (flat_step e s) = s_effects s @ fx" "sessionCode (s_ctx (flat_step e s)) = sessionCode c'"
      "v_scan s \<noteq> UnexpectedEvent" "ev_type e \<noteq> UNEXPECTED"
proof -
  have nu: "ev_type e \<noteq> UNEXPECTED" using alphabet_external [OF assms(2)] by (simp add: external_def)
  show thesis
  proof (rule flat_step_cases [of e s])
    assume no: "\<nexists>s' c' fx. scan_move e (s_ctx s) (v_scan s) s' c' fx"
    have "ev_type e \<notin> set SRV_VERDICTS" if v: "v_scan s = Submitting"
    proof
      assume "ev_type e \<in> set SRV_VERDICTS"
      then obtain w where "verdict_state (ev_type e) = Some w" by (auto simp: SRV_VERDICTS_def)
      moreover have "c_ov (s_ctx s) = NoOverlay"
        using assms(1) v by (cases "v_ov s") (auto simp: machine_ok_def snap_inv_def mirrors_def INTERRUPTIBLE_def)
      ultimately show False using no v by (auto intro: scan_move.verdict)
    qed
    then show "flat_step e s =
         s\<lparr>v_conn := or_else (conn_next (v_conn s) (ev_type e)) (v_conn s),
           v_ov := or_else (ov_next (v_ov s) (s_ctx s) e) (v_ov s),
           s_ctx := (s_ctx s)\<lparr>c_conn := or_else (conn_next (v_conn s) (ev_type e)) (c_conn (s_ctx s)),
                              c_ov := or_else (ov_next (v_ov s) (s_ctx s) e) (c_ov (s_ctx s))\<rparr>,
           s_dead := False\<rparr> \<Longrightarrow> thesis" by (intro stays) auto
  next
    fix s' c' fx
    assume "scan_move e (s_ctx s) (v_scan s) s' c' fx"
    then show "flat_step e s =
         s\<lparr>v_conn := or_else (conn_next (v_conn s) (ev_type e)) (v_conn s),
           v_ov := or_else (ov_next (v_ov s) (s_ctx s) e) (v_ov s),
           v_scan := s',
           s_ctx := c'\<lparr>c_conn := or_else (conn_next (v_conn s) (ev_type e)) (c_conn c'),
                        c_ov := or_else (ov_next (v_ov s) (s_ctx s) e) (c_ov c'), c_sc := s'\<rparr>,
           s_effects := s_effects s @ fx, s_dead := False\<rparr> \<Longrightarrow> thesis"
      using assms(1) nu by (intro moves [of c' fx]) (auto simp: machine_ok_def)
  qed
qed

section \<open>The page's invariant\<close>

definition order_number_ok :: "string option \<Rightarrow> bool" where
  "order_number_ok n \<longleftrightarrow> (\<exists>s. n = Some s \<and> TOAST_ORDER_NUMBER_PLACEHOLDER_PATTERN s)"

definition outbox_ok :: "bool \<Rightarrow> page \<Rightarrow> bool" where
  "outbox_ok co p \<longleftrightarrow>
     list_all (\<lambda>b. order_number_ok (rb_order_number b)) (posted p) \<and>
     list_all (\<lambda>f. order_number_ok (f_pos_order_number f) \<and> f_offline_override f = Some True) (enqueued p) \<and>
     (enqueued p \<noteq> [] \<longrightarrow> co)"

text \<open>The stash belongs to the session, once the session is past its resolution.\<close>

definition stash_ok :: "bool \<Rightarrow> page \<Rightarrow> bool" where
  "stash_ok ordered p \<longleftrightarrow>
     (\<not> early (v_scan (machine p)) \<longrightarrow>
        (\<exists>c. SUBMIT_CTX p = Some c \<and> (ordered \<longrightarrow> sessionCode (s_ctx (machine p)) = Some (sx_token_hash c))))"

definition page_core :: "bool \<Rightarrow> bool \<Rightarrow> page \<Rightarrow> bool" where
  "page_core ordered co p \<longleftrightarrow>
     machine_ok co (machine p) \<and> lastSc p = v_scan (machine p) \<and> outbox_ok co p \<and> stash_ok ordered p"

definition settled :: "page \<Rightarrow> bool" where
  "settled p \<longleftrightarrow> handled p = length (s_effects (machine p)) \<and> in_flight p = (if v_scan (machine p) = Submitting then 1 else 0)"

lemma machine_ok_sc [simp]: "machine_ok co s \<Longrightarrow> c_sc (s_ctx s) = v_scan s"
  by (simp add: machine_ok_def snap_inv_def mirrors_def)

lemma posted_send [simp]: "posted (machine_send e p) = posted p"
  by (simp add: machine_send_def Let_def clearSession_def split: option.split)

lemma send_page_eq:
  assumes "machine_ok co (machine p)" and "lastSc p = v_scan (machine p)" and "alphabet_event e"
  shows "machine_send e p =
    (let s = flat_step e (machine p); p1 = p\<lparr>machine := s\<rparr>
     in (if v_scan s = Idle \<and> v_scan (machine p) \<noteq> Idle then clearSession p1 else p1)\<lparr>lastSc := v_scan s\<rparr>)"
  using machine_ok_step [OF assms(1,3)] assms(2) by (simp add: machine_send_def Let_def clearSession_def)

lemma send_page_fields:
  assumes "machine_ok co (machine p)" and "lastSc p = v_scan (machine p)" and "alphabet_event e"
  shows "machine (machine_send e p) = flat_step e (machine p)"
    and "lastSc (machine_send e p) = v_scan (flat_step e (machine p))"
    and "handled (machine_send e p) = handled p" and "in_flight (machine_send e p) = in_flight p"
    and "posted (machine_send e p) = posted p" and "enqueued (machine_send e p) = enqueued p"
    and "v_scan (flat_step e (machine p)) \<noteq> Idle \<Longrightarrow> SUBMIT_CTX (machine_send e p) = SUBMIT_CTX p"
    and "v_scan (flat_step e (machine p)) \<noteq> Idle \<Longrightarrow> ORDER_STATE (machine_send e p) = ORDER_STATE p"
  unfolding send_page_eq [OF assms] by (simp_all add: Let_def clearSession_def)

text \<open>What a \<open>RESOLVED\<close> needs of the page: the stash of the session it resolves.\<close>

definition resolves :: "bool \<Rightarrow> event \<Rightarrow> page \<Rightarrow> bool" where
  "resolves ordered e p \<longleftrightarrow>
     (ev_type e = RESOLVED \<longrightarrow> (\<exists>c. SUBMIT_CTX p = Some c \<and> (ordered \<longrightarrow> sessionCode (s_ctx (machine p)) = Some (sx_token_hash c))))"

lemma send_page:
  assumes "page_core ordered co p" and "alphabet_event e" and "resolves ordered e p"
  obtains (quiet) "page_core ordered co (machine_send e p)" "s_effects (machine (machine_send e p)) = s_effects (machine p)"
      "v_scan (machine (machine_send e p)) = Submitting \<longleftrightarrow> v_scan (machine p) = Submitting \<and> ev_type e \<notin> set SRV_VERDICTS"
  | (submit) "page_core ordered co (machine_send e p)" "ev_type e = SUBMIT" "v_scan (machine p) \<noteq> Submitting"
      "s_effects (machine (machine_send e p)) = s_effects (machine p) @ [SubmitToServer]"
      "v_scan (machine (machine_send e p)) = Submitting" "v_conn (machine p) = Online"
  | (override) u where "page_core ordered co (machine_send e p)" "ev_type e = OVERRIDE_CONFIRM" "v_scan (machine p) \<noteq> Submitting"
      "s_effects (machine (machine_send e p)) = s_effects (machine p) @ [WriteAttempt True u]"
      "v_scan (machine (machine_send e p)) = OverridePending" "co"
proof -
  have mok: "machine_ok co (machine p)" "lastSc p = v_scan (machine p)" using assms(1) by (simp_all add: page_core_def)
  note f = send_page_fields [OF mok assms(2)]
  let ?s = "machine p" and ?p' = "machine_send e p"
  let ?s' = "flat_step e ?s"
  have ob: "outbox_ok co ?p'" using assms(1) f by (simp add: outbox_ok_def page_core_def)
  have m': "machine_ok co ?s'" using machine_ok_step [OF mok(1) assms(2)] by simp
  have core: "page_core ordered co ?p'" if "stash_ok ordered ?p'"
    using that ob m' f by (simp add: page_core_def)
  have kept: "stash_ok ordered ?p'"
    if "\<not> early (v_scan ?s)" "sessionCode (s_ctx ?s') = sessionCode (s_ctx ?s)"
    using assms(1) that f by (auto simp: stash_ok_def page_core_def early_def)
  have off: "stash_ok ordered ?p'" if "early (v_scan ?s')"
    using that f by (simp add: stash_ok_def)
  show thesis
  proof (rule machine_moves [OF mok(1) assms(2)])
    assume st: "v_scan ?s' = v_scan ?s" "s_effects ?s' = s_effects ?s" "sessionCode (s_ctx ?s') = sessionCode (s_ctx ?s)"
      "v_scan ?s = Submitting \<longrightarrow> ev_type e \<notin> set SRV_VERDICTS"
    have "stash_ok ordered ?p'" using kept off st by (cases "early (v_scan ?s)") simp_all
    with st f show thesis by (intro quiet core) auto
  next
    fix c' fx
    assume mv: "scan_move e (s_ctx ?s) (v_scan ?s) (v_scan ?s') c' fx" and fx: "s_effects ?s' = s_effects ?s @ fx"
      and sess: "sessionCode (s_ctx ?s') = sessionCode c'"
      and ne: "v_scan ?s \<noteq> UnexpectedEvent" "ev_type e \<noteq> UNEXPECTED"
    have conn: "c_conn (s_ctx ?s) = v_conn ?s" using mok(1) by (simp add: machine_ok_def snap_inv_def mirrors_def)
    have may: "v_scan ?s = OverrideConfirm \<Longrightarrow> co"
      using mok(1) by (auto simp: machine_ok_def snap_inv_def ctx_inv_def)
    show thesis using mv ne
    proof (rule move_page)
      assume "v_scan ?s' = Idle" "v_scan ?s \<noteq> Submitting" "fx = []"
      then show thesis using f fx by (intro quiet core off) (auto simp: early_def)
    next
      assume "v_scan ?s = Idle" "v_scan ?s' = Scanning" "fx = []"
      then show thesis using f fx by (intro quiet core off) (auto simp: early_def)
    next
      assume "v_scan ?s = Scanning" "v_scan ?s' = Resolving" "fx = []"
      then show thesis using f fx by (intro quiet core off) (auto simp: early_def)
    next
      assume r: "v_scan ?s = Resolving" "ev_type e = RESOLVED" "\<not> early (v_scan ?s')" "v_scan ?s' \<noteq> Submitting"
        "sessionCode c' = sessionCode (s_ctx ?s)" "fx = []"
      then have "stash_ok ordered ?p'"
        using assms(3) f sess by (auto simp: stash_ok_def resolves_def early_def)
      with r f fx show thesis by (intro quiet core) auto
    next
      assume r: "\<not> early (v_scan ?s)" "v_scan ?s \<noteq> Submitting" "ev_type e = SUBMIT" "v_scan ?s' = Submitting"
        "c' = s_ctx ?s" "fx = [SubmitToServer]" "c_conn (s_ctx ?s) = Online"
      with f fx sess conn show thesis by (intro submit core kept) auto
    next
      fix u
      assume r: "v_scan ?s = OverrideConfirm" "ev_type e = OVERRIDE_CONFIRM" "v_scan ?s' = OverridePending"
        "c' = s_ctx ?s" "fx = [WriteAttempt True u]"
      with f fx sess may show thesis by (intro override core kept) (auto simp: early_def)
    next
      assume r: "v_scan ?s = Submitting" "ev_type e \<in> set SRV_VERDICTS" "v_scan ?s' \<noteq> Submitting" "c' = s_ctx ?s" "fx = []"
      with f fx sess show thesis by (intro quiet core kept) (auto simp: early_def)
    next
      assume r: "\<not> early (v_scan ?s)" "v_scan ?s \<noteq> Submitting" "v_scan ?s' \<noteq> Submitting"
        "sessionCode c' = sessionCode (s_ctx ?s)" "fx = []"
      with f fx sess show thesis by (intro quiet core kept) auto
    qed
  qed
qed

definition page_inv :: "bool \<Rightarrow> bool \<Rightarrow> page \<Rightarrow> bool" where
  "page_inv ordered co p \<longleftrightarrow> page_core ordered co p \<and> settled p"

lemma microtasks_none: "settled p \<Longrightarrow> microtasks env p = p"
  by (simp add: microtasks_def settled_def)

definition quiet_event :: "event \<Rightarrow> bool" where
  "quiet_event e \<longleftrightarrow> alphabet_event e \<and> ev_type e \<notin> {SUBMIT, OVERRIDE_CONFIRM} \<and> ev_type e \<notin> set SRV_VERDICTS"

text \<open>A send that answers nothing and pushes no effect leaves the invariant and the outbox alone.\<close>

lemma quiet_send:
  assumes "page_inv ordered co p" and "quiet_event e" and "resolves ordered e p"
  shows "page_inv ordered co (machine_send e p) \<and> posted (machine_send e p) = posted p"
proof -
  have a: "page_core ordered co p" "alphabet_event e" "settled p" using assms by (simp_all add: page_inv_def quiet_event_def)
  then have mok: "machine_ok co (machine p)" "lastSc p = v_scan (machine p)" by (simp_all add: page_core_def)
  note f = send_page_fields [OF mok a(2)]
  show ?thesis
    by (rule send_page [OF a(1,2) assms(3)]) (use a(3) assms(2) f in \<open>auto simp: page_inv_def settled_def quiet_event_def\<close>)
qed

lemma quiet_evs [simp]:
  "t \<in> {SCAN, ORDER_OK, OVERRIDE_REQUEST, OVERRIDE_CANCEL, DISMISS, RETRY, NEXT_CUSTOMER, CONN_DOWN, CONN_UP,
        PROBE_TIMEOUT, RESUBSCRIBED} \<Longrightarrow> quiet_event (ev t)"
  "quiet_event (decoded h)" "quiet_event (resolved k ro)"
  by (auto simp: quiet_event_def alphabet_event_def event_simps alphabet_defs)

lemma resolves_other [simp]: "t \<noteq> RESOLVED \<Longrightarrow> resolves ordered (ev t) p" "resolves ordered (decoded h) p"
  by (simp_all add: resolves_def event_simps)

lemma inv_sc: "page_inv ordered co p \<Longrightarrow> sc p = v_scan (machine p)"
  by (auto simp: page_inv_def page_core_def dest: machine_ok_sc)

text \<open>The fields of the page the invariant does not read.\<close>

lemma page_inv_fields [simp]:
  "page_inv ordered co (p\<lparr>ORDER_STATE := x\<rparr>) = page_inv ordered co p"
  "page_inv ordered co (p\<lparr>WINNER := w\<rparr>) = page_inv ordered co p"
  "page_inv ordered co (p\<lparr>SUBMIT_ERROR := y\<rparr>) = page_inv ordered co p"
  "page_inv ordered co (p\<lparr>OVERRIDE_WRITE_ERROR := y\<rparr>) = page_inv ordered co p"
  by (simp_all add: page_inv_def page_core_def outbox_ok_def stash_ok_def settled_def)

text \<open>The handlers that neither submit nor confirm nor answer.\<close>

abbreviation (input) calm :: "bool \<Rightarrow> bool \<Rightarrow> page \<Rightarrow> page \<Rightarrow> bool" where
  "calm ordered co p p' \<equiv> page_inv ordered co p' \<and> posted p' = posted p"

lemma send_calm: "page_inv ordered co p \<Longrightarrow> quiet_event (ev t) \<Longrightarrow> t \<noteq> RESOLVED \<Longrightarrow> calm ordered co p (machine_send (ev t) p)"
  by (simp add: quiet_send)

lemma gate_calm: "page_inv ordered co p \<Longrightarrow> calm ordered co p (fst (gate h p))"
  by (auto simp: gate_def Let_def quiet_send split: option.split)

lemma posted_scan_again [simp]: "posted (onScanAgain p) = posted p"
  by (simp add: onScanAgain_def)

lemma onScanAgain_calm: "page_inv ordered co p \<Longrightarrow> calm ordered co p (onScanAgain p)"
  by (simp add: onScanAgain_def quiet_send)

lemma handleProbe_calm: "page_inv ordered co p \<Longrightarrow> calm ordered co p (handleProbe b p)"
  by (cases "v_conn (machine p)") (simp_all add: handleProbe_def afterReachable_def quiet_send)

lemma channel_calm: "page_inv ordered co p \<Longrightarrow> calm ordered co p (reportChannelStatus st p)"
  by (simp add: reportChannelStatus_def quiet_send)

lemma onInput_calm: "page_inv ordered co p \<Longrightarrow> calm ordered co p (onInput text p)"
  by (auto simp: onInput_def Let_def quiet_send split: prod.split)

lemma map_result_hash: "map_result env docs r = Some (st, k, ro) \<Longrightarrow> Some (sx_token_hash st) = result_hash r"
  by (auto simp: map_result_def Let_def stash_for_def result_hash_def split: scan_result.splits list.splits option.splits)

lemma onResult_calm:
  assumes inv: "page_inv ordered co p" and ord: "ordered \<Longrightarrow> result_hash r = sessionCode (s_ctx (machine p))"
  shows "calm ordered co p (onResult env docs r p)"
proof (cases "present (result_hash r) \<and> sc p = Resolving")
  case False
  with inv show ?thesis by (auto simp: onResult_def)
next
  case True
  show ?thesis
  proof (cases "map_result env docs r")
    case None
    with True inv show ?thesis by (simp add: onResult_def)
  next
    case (Some x)
    obtain st k ro where x: "x = (st, k, ro)" by (cases x)
    let ?p1 = "p\<lparr>SUBMIT_CTX := Some st, ORDER_STATE := no_order, WINNER := None, SUBMIT_ERROR := None,
               OVERRIDE_WRITE_ERROR := None\<rparr>"
    have "v_scan (machine p) = Resolving" using True inv inv_sc by metis
    then have i: "page_inv ordered co ?p1"
      using inv by (auto simp: page_inv_def page_core_def outbox_ok_def stash_ok_def settled_def early_def)
    have "Some (sx_token_hash st) = result_hash r" using Some x map_result_hash by blast
    then have "resolves ordered (resolved k ro) ?p1" using ord by (simp add: resolves_def)
    then show ?thesis using quiet_send [OF i] True Some x by (simp add: onResult_def)
  qed
qed

section \<open>Submitting, confirming, answering\<close>

lemma or_null_order: "TOAST_ORDER_NUMBER_PLACEHOLDER_PATTERN v \<Longrightarrow> order_number_ok (or_null_str v)"
  by (auto simp: order_number_ok_def or_null_str_def TOAST_ORDER_NUMBER_PLACEHOLDER_PATTERN_def)

text \<open>A redeem leaves the page: from which state, on which code.\<close>

definition posts :: "bool \<Rightarrow> page \<Rightarrow> page \<Rightarrow> bool" where
  "posts ordered p p' \<longleftrightarrow>
     (\<exists>b. posted p' = posted p @ [b] \<and> v_scan (machine p) \<noteq> Submitting \<and> v_scan (machine p') = Submitting \<and> v_conn (machine p) = Online
        \<and> (ordered \<longrightarrow> sessionCode (s_ctx (machine p')) = Some (rb_token_hash b)))"

lemma microtask_submit:
  assumes "page_core ordered co q" and "handled q = n" and "s_effects (machine q) = es @ [SubmitToServer]" and "length es = n"
    and "v_scan (machine q) = Submitting" and "in_flight q = 0"
    and "TOAST_ORDER_NUMBER_PLACEHOLDER_PATTERN (o_value (ORDER_STATE q))"
  shows "page_inv ordered co (microtasks env q) \<and> machine (microtasks env q) = machine q
    \<and> (\<exists>b. posted (microtasks env q) = posted q @ [b] \<and> (ordered \<longrightarrow> sessionCode (s_ctx (machine q)) = Some (rb_token_hash b)))"
proof -
  obtain c where c: "SUBMIT_CTX q = Some c" "ordered \<longrightarrow> sessionCode (s_ctx (machine q)) = Some (sx_token_hash c)"
    using assms(1,5) by (auto simp: page_core_def stash_ok_def early_def)
  let ?b = "redeem_request env q c"
  have ok: "order_number_ok (rb_order_number ?b)" "rb_token_hash ?b = sx_token_hash c"
    using assms(7) by (simp_all add: redeem_request_def or_null_order)
  have q: "microtasks env q = q\<lparr>handled := n + 1, posted := posted q @ [?b], in_flight := 1\<rparr>"
    using assms(2,3,4,6) c(1) by (simp add: microtasks_def handleEffect_def doOnlineSubmit_def redeem_request_def)
  show ?thesis
    unfolding q using assms ok c
    by (auto simp: page_inv_def page_core_def outbox_ok_def stash_ok_def settled_def)
qed

lemma microtask_override:
  assumes "page_core ordered co q" and "handled q = n" and "s_effects (machine q) = es @ [WriteAttempt True u]" and "length es = n"
    and "v_scan (machine q) = OverridePending" and "in_flight q = 0" and "co"
    and "TOAST_ORDER_NUMBER_PLACEHOLDER_PATTERN (o_value (ORDER_STATE q))"
  shows "calm ordered co q (microtasks env q)"
proof -
  obtain c where c: "SUBMIT_CTX q = Some c" using assms(1,5) by (auto simp: page_core_def stash_ok_def early_def)
  have q: "microtasks env q = doOverrideWrite env u (q\<lparr>handled := n + 1\<rparr>)"
    using assms(2,3,4) by (simp add: microtasks_def handleEffect_def)
  show ?thesis
    unfolding q using assms c
    by (auto simp: page_inv_def page_core_def outbox_ok_def stash_ok_def settled_def doOverrideWrite_def override_fields_def
        or_null_order split: option.split)
qed

lemma dispatch_step:
  assumes inv: "page_inv ordered co p" and t: "t = SUBMIT \<or> t = OVERRIDE_CONFIRM"
  shows "page_inv ordered co (microtasks env (dispatchOrValidate t p))
    \<and> (posted (microtasks env (dispatchOrValidate t p)) = posted p \<or> posts ordered p (microtasks env (dispatchOrValidate t p)))"
proof (cases "fst (validateOrderNumber (Some (o_raw (ORDER_STATE p))))")
  case False
  then have "dispatchOrValidate t p = p\<lparr>ORDER_STATE := (ORDER_STATE p)\<lparr>o_ok := False\<rparr>\<rparr>"
    by (cases "validateOrderNumber (Some (o_raw (ORDER_STATE p)))") (simp add: dispatchOrValidate_def)
  moreover have "page_inv ordered co (p\<lparr>ORDER_STATE := (ORDER_STATE p)\<lparr>o_ok := False\<rparr>\<rparr>)" using inv by simp
  ultimately show ?thesis using microtasks_none by (simp add: page_inv_def)
next
  case True
  then obtain v where v: "validateOrderNumber (Some (o_raw (ORDER_STATE p))) = (True, v)" by (metis prod.collapse)
  then have pat: "TOAST_ORDER_NUMBER_PLACEHOLDER_PATTERN v" by (auto simp: validateOrderNumber_def Let_def)
  let ?p1 = "p\<lparr>ORDER_STATE := (ORDER_STATE p)\<lparr>o_ok := True, o_value := v\<rparr>\<rparr>"
  let ?q = "machine_send (ev t) ?p1"
  have d: "dispatchOrValidate t p = ?q" using v by (simp add: dispatchOrValidate_def)
  have i1: "page_inv ordered co ?p1" using inv by simp
  then have c1: "page_core ordered co ?p1" "settled ?p1" by (simp_all add: page_inv_def)
  have al: "alphabet_event (ev t)" using t by (auto simp: alphabet_event_def event_simps alphabet_defs)
  have rs: "resolves ordered (ev t) ?p1" using t by auto
  have mok: "machine_ok co (machine ?p1)" "lastSc ?p1 = v_scan (machine ?p1)" using c1 by (simp_all add: page_core_def)
  note f = send_page_fields [OF mok al]
  have ns: "ev_type (ev t) \<notin> set SRV_VERDICTS" using t by (auto simp: event_simps SRV_VERDICTS_def)
  show ?thesis
  proof (rule send_page [OF c1(1) al rs])
    assume q: "page_core ordered co ?q" "s_effects (machine ?q) = s_effects (machine ?p1)"
      "v_scan (machine ?q) = Submitting \<longleftrightarrow> v_scan (machine ?p1) = Submitting \<and> ev_type (ev t) \<notin> set SRV_VERDICTS"
    then have "settled ?q" using c1(2) f ns by (simp add: settled_def)
    with q show ?thesis unfolding d by (simp add: microtasks_none page_inv_def)
  next
    assume q: "page_core ordered co ?q" "v_scan (machine ?p1) \<noteq> Submitting"
      "s_effects (machine ?q) = s_effects (machine ?p1) @ [SubmitToServer]" "v_scan (machine ?q) = Submitting"
      "v_conn (machine ?p1) = Online"
    have o: "o_value (ORDER_STATE ?q) = v" using f(8) q(4) f(1) by simp
    have z: "handled ?q = length (s_effects (machine ?p1))" "in_flight ?q = 0"
      using c1(2) q(2) f(3,4) by (simp_all add: settled_def)
    from microtask_submit [OF q(1) z(1) q(3) refl q(4) z(2)] o pat show ?thesis
      unfolding d posts_def using q by auto
  next
    fix u
    assume q: "page_core ordered co ?q" "v_scan (machine ?p1) \<noteq> Submitting"
      "s_effects (machine ?q) = s_effects (machine ?p1) @ [WriteAttempt True u]" "v_scan (machine ?q) = OverridePending" "co"
    have o: "o_value (ORDER_STATE ?q) = v" using f(8) q(4) f(1) by simp
    have z: "handled ?q = length (s_effects (machine ?p1))" "in_flight ?q = 0"
      using c1(2) q(2) f(3,4) by (simp_all add: settled_def)
    from microtask_override [OF q(1) z(1) q(3) refl q(4) z(2) q(5)] o pat show ?thesis
      unfolding d by auto
  qed
qed

lemma answered_calm:
  assumes inv: "page_inv ordered co p" and fl: "0 < in_flight p"
  shows "calm ordered co p (submitAnswered dec parse r docs p)"
proof -
  have core: "page_core ordered co p" and st: "settled p" using inv by (simp_all add: page_inv_def)
  have sub: "v_scan (machine p) = Submitting" and one: "in_flight p = 1"
    using st fl by (auto simp: settled_def split: if_splits)
  obtain c where c: "SUBMIT_CTX p = Some c" using core sub by (auto simp: page_core_def stash_ok_def early_def)
  have sv: "reply_event r \<in> set SRV_VERDICTS"
    by (auto simp: reply_event_def verdict_event_def SRV_VERDICTS_def split: server_reply.split)
  have send: "calm ordered co q (machine_send (ev t) q)"
    if q: "page_core ordered co q" "handled q = handled p" "in_flight q = 0" "machine q = machine p" and t: "t \<in> set SRV_VERDICTS" for q t
  proof -
    have al: "alphabet_event (ev t)" using t by (auto simp: alphabet_event_def event_simps alphabet_defs)
    have rs: "resolves ordered (ev t) q" using t by (auto simp: SRV_VERDICTS_def)
    have mok: "machine_ok co (machine q)" "lastSc q = v_scan (machine q)" using q(1) by (simp_all add: page_core_def)
    note f = send_page_fields [OF mok al]
    show ?thesis
    proof (rule send_page [OF q(1) al rs])
      assume "page_core ordered co (machine_send (ev t) q)" "s_effects (machine (machine_send (ev t) q)) = s_effects (machine q)"
        "v_scan (machine (machine_send (ev t) q)) = Submitting \<longleftrightarrow> v_scan (machine q) = Submitting \<and> ev_type (ev t) \<notin> set SRV_VERDICTS"
      then show ?thesis using st q t f by (simp add: page_inv_def settled_def event_simps)
    qed (use q(4) sub in simp_all)
  qed
  let ?p1 = "p\<lparr>in_flight := in_flight p - 1, SUBMIT_ERROR := reply_error dec r (SUBMIT_ERROR p)\<rparr>"
  have c1: "page_core ordered co ?p1" "page_core ordered co (?p1\<lparr>WINNER := w\<rparr>)" for w
    using core by (simp_all add: page_core_def outbox_ok_def stash_ok_def)
  show ?thesis
  proof (cases "reply_event r = SRV_ALREADY_USED")
    case True
    let ?q = "?p1\<lparr>WINNER := lookupWinner parse docs (sx_token_hash c) ?p1\<rparr>"
    have "calm ordered co ?q (machine_send (ev SRV_ALREADY_USED) ?q)"
      by (rule send [OF c1(2)]) (simp_all add: one SRV_VERDICTS_def)
    with True c show ?thesis by (simp add: submitAnswered_def Let_def)
  next
    case False
    have "calm ordered co ?p1 (machine_send (ev (reply_event r)) ?p1)"
      by (rule send [OF c1(1)]) (simp_all add: one sv)
    with False show ?thesis by (simp add: submitAnswered_def Let_def)
  qed
qed

section \<open>Every step\<close>

lemma calm_step: "calm ordered co p q \<Longrightarrow> page_inv ordered co (microtasks env q) \<and> posted (microtasks env q) = posted p"
  by (simp add: microtasks_none page_inv_def)

lemma actions_step:
  assumes "page_inv ordered co p"
  shows "page_inv ordered co (microtasks env (actions b p))
    \<and> (posted (microtasks env (actions b p)) = posted p \<or> posts ordered p (microtasks env (actions b p)))"
proof (cases b)
  case Ms_Next
  have "calm ordered co p (onScanAgain (machine_send (ev NEXT_CUSTOMER) p))"
    using onScanAgain_calm send_calm [OF assms] by simp
  with Ms_Next show ?thesis using calm_step [of ordered co _ p] by simp
next
  case Ms_Prompt_Next
  have "calm ordered co p (onScanAgain (machine_send (ev NEXT_CUSTOMER) p))"
    using onScanAgain_calm send_calm [OF assms] by simp
  with Ms_Prompt_Next show ?thesis using calm_step [of ordered co _ p] by simp
qed (use dispatch_step [OF assms] calm_step [OF send_calm [OF assms]] in simp_all)

lemma step_inv:
  assumes "page_step ordered p p'" and "page_inv ordered co p"
  shows "page_inv ordered co p' \<and> (posted p' = posted p \<or> posts ordered p p')"
  using assms(1)
proof cases
  case (Gate env h)
  then show ?thesis using calm_step [OF gate_calm [OF assms(2)]] by simp
next
  case (Result r env docs)
  then show ?thesis using calm_step [OF onResult_calm [OF assms(2)]] by simp
next
  case (Input env tx)
  then show ?thesis using calm_step [OF onInput_calm [OF assms(2)]] by simp
next
  case (Action env b)
  then show ?thesis using actions_step [OF assms(2)] by simp
next
  case (Scan_Again env)
  then show ?thesis using calm_step [OF onScanAgain_calm [OF assms(2)]] by simp
next
  case (Probe env b)
  then show ?thesis using calm_step [OF handleProbe_calm [OF assms(2)]] by simp
next
  case (Channel env st)
  then show ?thesis using calm_step [OF channel_calm [OF assms(2)]] by simp
next
  case (Reply env dec parse r docs)
  then show ?thesis using calm_step [OF answered_calm [OF assms(2)]] by simp
qed

lemma init_page_inv: "page_inv ordered co (init_page co)"
  using machine_ok_init [of co]
  by (simp add: page_inv_def page_core_def outbox_ok_def stash_ok_def settled_def init_page_def)
     (simp add: init_snap_def early_def)

lemma boot_page_inv: "page_inv ordered co (boot_page co b)"
  unfolding boot_page_def using handleProbe_calm send_calm [OF init_page_inv] by simp

definition page_reach :: "bool \<Rightarrow> bool \<Rightarrow> page \<Rightarrow> bool" where
  "page_reach ordered co p \<longleftrightarrow> (\<exists>b. (page_step ordered)\<^sup>*\<^sup>* (boot_page co b) p)"

lemma page_reach_inv: "page_reach ordered co p \<Longrightarrow> page_inv ordered co p"
proof -
  assume "page_reach ordered co p"
  then obtain b where "(page_step ordered)\<^sup>*\<^sup>* (boot_page co b) p" by (auto simp: page_reach_def)
  then show ?thesis by induction (use boot_page_inv step_inv in blast)+
qed

section \<open>Properties\<close>

text \<open>C5: nothing leaves the page without an order number. Whatever the interleaving of scans, results (in any order),
  typing, buttons, probes and answers, every redeem body posted and every override enqueued carries an order number
  of 1 to 6 digits; overrides are flagged as such and leave only a device whose user holds the entitlement.\<close>
theorem order_number_required:
  assumes "page_reach ordered co p"
  shows "list_all (\<lambda>b. order_number_ok (rb_order_number b)) (posted p) \<and>
    list_all (\<lambda>f. order_number_ok (f_pos_order_number f) \<and> f_offline_override f = Some True) (enqueued p) \<and>
    (enqueued p \<noteq> [] \<longrightarrow> co)"
  using page_reach_inv [OF assms] by (simp add: page_inv_def page_core_def outbox_ok_def)

text \<open>C11: one redeem in flight. A request is in flight exactly while the machine is submitting, never two; it then
  has a session stash, so the answer's handler finds one; a redeem is posted only while online, one per step, when
  none is in flight.\<close>
theorem one_redeem_in_flight:
  assumes "page_reach ordered co p" and "page_step ordered p p'"
  shows "in_flight p = (if sc p = Submitting then 1 else 0) \<and> (0 < in_flight p \<longrightarrow> SUBMIT_CTX p \<noteq> None) \<and>
    (posted p' = posted p \<or>
      (\<exists>b. posted p' = posted p @ [b] \<and> in_flight p = 0 \<and> in_flight p' = 1 \<and> v_conn (machine p) = Online))"
proof -
  have i: "page_inv ordered co p" using page_reach_inv [OF assms(1)] .
  have i': "page_inv ordered co p'" and s: "posted p' = posted p \<or> posts ordered p p'" using step_inv [OF assms(2) i] by auto
  have "0 < in_flight p \<longrightarrow> SUBMIT_CTX p \<noteq> None"
    using i by (auto simp: page_inv_def settled_def page_core_def stash_ok_def early_def)
  moreover have "in_flight p = (if sc p = Submitting then 1 else 0)" using i inv_sc [OF i] by (simp add: page_inv_def settled_def)
  ultimately show ?thesis using s i i' by (auto simp: posts_def page_inv_def settled_def)
qed


section \<open>Runs\<close>

lemma machine_send_flat:
  "alphabet_event e \<Longrightarrow> \<not> s_dead (machine p) \<Longrightarrow>
    machine_send e p = (let p1 = p\<lparr>machine := flat_step e (machine p)\<rparr>;
      p2 = (if sc p1 = Idle \<and> lastSc p1 \<noteq> Idle then clearSession p1 else p1) in p2\<lparr>lastSc := sc p1\<rparr>)"
  by (simp add: machine_send_def alphabet_send alive_def)

lemma run_alphabet:
  "t \<in> set EVENT_ALPHABET \<Longrightarrow> alphabet_event \<lparr>ev_type = t, ev_code = a, ev_kind = b, ev_requiresOnline = d\<rparr>"
  by (simp add: alphabet_event_def)

lemmas page_run = machine_send_flat run_alphabet alphabet_defs run_simps clearSession_def

definition online_page :: "string \<Rightarrow> scan_state \<Rightarrow> page" where
  "online_page code s = (init_page False)\<lparr>lastSc := s, machine := (init_snap False)\<lparr>v_scan := s,
     s_ctx := (init_ctx False)\<lparr>c_sc := s, sessionCode := if s = Idle then None else Some code\<rparr>\<rparr>\<rparr>"

lemma boot_online: "boot_page False True = online_page [] Idle"
  by (simp add: boot_page_def handleProbe_def afterReachable_def init_page_def online_page_def page_run)

lemma gate_fresh: "gate (Some h) (online_page c Idle) = (online_page h Resolving, True)"
  by (simp add: gate_def init_page_def online_page_def page_run)

lemma next_resets: "onScanAgain (machine_send (ev NEXT_CUSTOMER) (online_page c Resolving)) = online_page [] Idle"
  by (simp add: onScanAgain_def init_page_def online_page_def page_run no_order_def)

text \<open>Handlers on reachable pages: the microtasks of a calm one are none.\<close>

lemma reach_step: "page_reach ordered co p \<Longrightarrow> page_step ordered p p' \<Longrightarrow> page_reach ordered co p'"
  unfolding page_reach_def by (blast intro: rtranclp.rtrancl_into_rtrancl)

lemma calm_settled: "calm ordered co p q \<Longrightarrow> microtasks env q = q"
  by (simp add: microtasks_none page_inv_def)

lemma reach_gate: "page_reach ordered co p \<Longrightarrow> page_reach ordered co (fst (gate h p))"
  using reach_step page_step.Gate calm_settled [OF gate_calm [OF page_reach_inv]] by metis

lemma reach_input: "page_reach ordered co p \<Longrightarrow> page_reach ordered co (onInput tx p)"
  using reach_step page_step.Input calm_settled [OF onInput_calm [OF page_reach_inv]] by metis

lemma reach_next: "page_reach ordered co p \<Longrightarrow> page_reach ordered co (onScanAgain (machine_send (ev NEXT_CUSTOMER) p))"
proof -
  assume r: "page_reach ordered co p"
  have c: "calm ordered co p (machine_send (ev NEXT_CUSTOMER) p)" using send_calm [OF page_reach_inv [OF r]] by simp
  have "calm ordered co p (onScanAgain (machine_send (ev NEXT_CUSTOMER) p))" using onScanAgain_calm [OF conjunct1 [OF c]] by simp
  then have "microtasks env (actions Ms_Next p) = onScanAgain (machine_send (ev NEXT_CUSTOMER) p)" for env
    using calm_settled [of ordered co _ p] by simp
  then show ?thesis using reach_step [OF r] page_step.Action by metis
qed

lemma reach_dismiss: "page_reach ordered co p \<Longrightarrow> page_reach ordered co (machine_send (ev DISMISS) p)"
proof -
  assume r: "page_reach ordered co p"
  have "calm ordered co p (machine_send (ev DISMISS) p)" using send_calm [OF page_reach_inv [OF r]] by simp
  then have "microtasks env (actions Ms_Dismiss p) = machine_send (ev DISMISS) p" for env
    using calm_settled [of ordered co _ p] by simp
  then show ?thesis using reach_step [OF r] page_step.Action by metis
qed

lemma reach_result:
  "page_reach ordered co p \<Longrightarrow> (ordered \<Longrightarrow> result_hash r = sessionCode (s_ctx (machine p))) \<Longrightarrow>
    page_reach ordered co (onResult env docs r p)"
  using reach_step page_step.Result calm_settled [OF onResult_calm [OF page_reach_inv]] by metis

lemma reach_boot: "page_reach ordered False (online_page [] Idle)"
  unfolding page_reach_def by (rule exI [of _ True]) (simp add: boot_online)

text \<open>Two overlapping scans: the first session is closed while its result is still being resolved, and the second
  session takes that result.\<close>

definition late_result_page :: "page_env \<Rightarrow> page" where
  "late_result_page env = onInput ''42'' (onResult env None (UnknownCodeResult ''A'') (online_page ''B'' Resolving))"

lemma late_result_reach: "page_reach False False (late_result_page env)"
proof -
  have "page_reach False False (online_page ''A'' Resolving)" using reach_gate [OF reach_boot, of False "Some ''A''"] by (simp add: gate_fresh)
  then have "page_reach False False (online_page [] Idle)" using reach_next [of False False] by (metis next_resets)
  then have "page_reach False False (online_page ''B'' Resolving)" using reach_gate [of False False _ "Some ''B''"] by (metis fst_conv gate_fresh)
  then show ?thesis unfolding late_result_page_def by (intro reach_input reach_result) simp_all
qed

lemma late_result_submits:
  "map rb_token_hash (posted (microtasks env (actions Ms_Submit (late_result_page env)))) = [''A''] \<and>
   sessionCode (s_ctx (machine (microtasks env (actions Ms_Submit (late_result_page env))))) = Some ''B'' \<and>
   sc (microtasks env (actions Ms_Submit (late_result_page env))) = Submitting"
proof -
  have v: "validateOrderNumber (Some ''42'') = (True, ''42'')" by code_simp
  have q: "late_result_page env =
    (online_page ''B'' UnknownCode)\<lparr>SUBMIT_CTX := Some (stash_for env ''A''), ORDER_STATE := \<lparr>o_raw = ''42'', o_ok = True, o_value = ''42''\<rparr>,
      machine := (machine (online_page ''B'' UnknownCode))\<lparr>s_ctx := (s_ctx (machine (online_page ''B'' UnknownCode)))
        \<lparr>resolutionKind := Some ''unknownCode'', requiresOnline := False\<rparr>\<rparr>\<rparr>"
    by (simp add: late_result_page_def onInput_def v onResult_def map_result_def result_hash_def present_def init_page_def
        online_page_def page_run)
  show ?thesis
    unfolding q by (simp add: dispatchOrValidate_def v microtasks_def handleEffect_def doOnlineSubmit_def redeem_request_def
        stash_for_def init_page_def online_page_def page_run)
qed

text \<open>a result that arrives late is taken by the next session. The guard of the result handler checks only that
  the machine is resolving, not that the result names the session's code: with two scans overlapping, the page posts
  the first customer's code while the session on screen is the second's.\<close>
theorem stale_result_hijacks_session:
  "\<exists>p p'. page_reach False False p \<and> page_step False p p' \<and> map rb_token_hash (posted p') = [''A''] \<and>
     sessionCode (s_ctx (machine p')) = Some ''B'' \<and> sc p' = Submitting"
proof -
  let ?env = "undefined :: page_env"
  let ?p = "late_result_page ?env" and ?p' = "microtasks ?env (actions Ms_Submit (late_result_page ?env))"
  have st: "page_step False ?p ?p'" by (rule page_step.Action)
  show ?thesis using late_result_reach st late_result_submits by blast
qed

text \<open>a result that arrives while the finish-first prompt is open is lost. The prompt may open over a session still
  resolving, its overlay blocks the result, and after the dismissal the page stays in the resolving state, which offers
  no submit, under every button but the next customer's; scanning the same code again resolves it afresh.\<close>
theorem result_lost_under_prompt:
  "\<exists>p. page_reach True False p \<and> sc p = Resolving \<and> v_ov (machine p) = NoOverlay \<and> SUBMIT_CTX p \<noteq> None \<and>
     list_all (\<lambda>b. sc (actions b p) = Resolving) [Ms_Submit, Ms_Override, Ms_Confirm_Override, Ms_Cancel_Override, Ms_Retry, Ms_Dismiss] \<and>
     snd (gate (Some ''A'') p) \<and> sc (onResult env None (UnknownCodeResult ''A'') (fst (gate (Some ''A'') p))) = UnknownCode"
proof -
  let ?p1 = "online_page ''A'' Resolving"
  let ?p2 = "fst (gate (Some ''B'') ?p1)"
  let ?p3 = "onResult env None (UnknownCodeResult ''A'') ?p2"
  let ?p = "machine_send (ev DISMISS) ?p3"
  let ?q = "?p1\<lparr>SUBMIT_CTX := Some (stash_for env ''A'')\<rparr>"
  have r1: "page_reach True False ?p1" using reach_gate [OF reach_boot, of True "Some ''A''"] by (simp add: gate_fresh)
  have s2: "sessionCode (s_ctx (machine ?p2)) = Some ''A''" by (simp add: gate_def init_page_def online_page_def page_run)
  have r: "page_reach True False ?p"
    by (intro reach_dismiss reach_result reach_gate r1) (simp add: s2 result_hash_def)
  have q: "?p = ?q"
    by (simp add: gate_def onResult_def map_result_def result_hash_def present_def init_page_def online_page_def no_order_def page_run)
  have stays: "list_all (\<lambda>b. sc (actions b ?q) = Resolving) [Ms_Submit, Ms_Override, Ms_Confirm_Override, Ms_Cancel_Override, Ms_Retry, Ms_Dismiss]"
    by (simp add: dispatchOrValidate_def init_page_def online_page_def page_run split: prod.split)
  have again: "gate (Some ''A'') ?q = (?q, True)" by (simp add: gate_def init_page_def online_page_def page_run)
  have then_ok: "sc (onResult env None (UnknownCodeResult ''A'') ?q) = UnknownCode"
    by (simp add: onResult_def map_result_def result_hash_def present_def init_page_def online_page_def page_run)
  have "sc ?q = Resolving" "v_ov (machine ?q) = NoOverlay" by (simp_all add: online_page_def init_page_def init_snap_def)
  then show ?thesis using r stays again then_ok unfolding q by (intro exI [of _ ?q]) simp
qed

section \<open>Witnesses\<close>

definition witness_env :: page_env where
  "witness_env = \<lparr>DEVICE_ID = ''D'', overrider = None, clock_reading = 0, business_day = (\<lambda>_. []), CAMPAIGN_POLICY = None,
     source_unresolved = None, enqueue_error = None\<rparr>"

definition in_order_page :: page where
  "in_order_page = onInput ''42'' (onResult witness_env None (UnknownCodeResult ''A'') (online_page ''A'' Resolving))"

lemma in_order_reach: "page_reach True False in_order_page"
proof -
  have "page_reach True False (online_page ''A'' Resolving)" using reach_gate [OF reach_boot, of True "Some ''A''"] by (simp add: gate_fresh)
  then show ?thesis unfolding in_order_page_def
    by (intro reach_input reach_result) (simp_all add: result_hash_def online_page_def)
qed

lemma in_order_submits: "length (posted (microtasks witness_env (actions Ms_Submit in_order_page))) = 1"
proof -
  have v: "validateOrderNumber (Some ''42'') = (True, ''42'')" by code_simp
  have q: "in_order_page =
    (online_page ''A'' UnknownCode)\<lparr>SUBMIT_CTX := Some (stash_for witness_env ''A''), ORDER_STATE := \<lparr>o_raw = ''42'', o_ok = True, o_value = ''42''\<rparr>,
      machine := (machine (online_page ''A'' UnknownCode))\<lparr>s_ctx := (s_ctx (machine (online_page ''A'' UnknownCode)))
        \<lparr>resolutionKind := Some ''unknownCode'', requiresOnline := False\<rparr>\<rparr>\<rparr>"
    by (simp add: in_order_page_def onInput_def v onResult_def map_result_def result_hash_def present_def init_page_def
        online_page_def page_run)
  show ?thesis
    unfolding q by (simp add: dispatchOrValidate_def v microtasks_def handleEffect_def doOnlineSubmit_def redeem_request_def
        stash_for_def init_page_def online_page_def page_run)
qed

definition submitted_page :: page where
  "submitted_page = microtasks witness_env (actions Ms_Submit in_order_page)"

lemma submit_step: "page_step ordered in_order_page submitted_page"
  unfolding submitted_page_def by (rule page_step.Action)

lemma in_order_posted: "posted in_order_page = []" "length (posted submitted_page) = 1"
  using in_order_submits
  by (simp_all add: in_order_page_def submitted_page_def onInput_def onResult_def online_page_def init_page_def Let_def
      split: prod.split option.split)

theorem order_number_required_witness:
  "page_reach True False submitted_page \<and> posted submitted_page \<noteq> [] \<and>
     list_all (\<lambda>b. order_number_ok (rb_order_number b)) (posted submitted_page)"
  using order_number_required [OF reach_step [OF in_order_reach submit_step]] reach_step [OF in_order_reach submit_step]
    in_order_posted by auto

theorem one_redeem_in_flight_witness: "in_flight in_order_page = 0 \<and> in_flight submitted_page = 1"
  using one_redeem_in_flight [OF in_order_reach submit_step] in_order_posted by (auto simp: submit_step)


end
