(* ===== verification/SubmitView.thy ===== *)
theory SubmitView
  imports Complex_Main SubmitFlowProps
begin

text \<open>
  The rendering half of \<^verbatim>\<open>marketing/submit-flow.js\<close>. A slot's HTML is a value: the order field, the messages with
  the text interpolated into them (escaped where the code escapes it), and the buttons with whether they are enabled.
\<close>

section \<open>Escaping\<close>

definition esc_char :: "char \<Rightarrow> string" where
  "esc_char c =
     (if c = CHR ''&'' then ''&amp;'' else if c = CHR ''<'' then ''&lt;'' else if c = CHR ''>'' then ''&gt;''
      else if c = CHR 0x22 then ''&quot;'' else if c = CHR 0x27 then ''&#39;'' else [c])"

definition esc :: "string \<Rightarrow> string" where
  "esc s = concat (map esc_char s)"

text \<open>How a browser reads escaped text back.\<close>

definition entities :: "(string \<times> char) list" where
  "entities = [(''&amp;'', CHR ''&''), (''&lt;'', CHR ''<''), (''&gt;'', CHR ''>''), (''&quot;'', CHR 0x22), (''&#39;'', CHR 0x27)]"

definition entity_at :: "string \<Rightarrow> (string \<times> char) option" where
  "entity_at s = find (\<lambda>(e, c). take (length e) s = e) entities"

fun unesc :: "nat \<Rightarrow> string \<Rightarrow> string" where
  "unesc 0 s = s"
| "unesc (Suc n) [] = []"
| "unesc (Suc n) (c # cs) = (case entity_at (c # cs) of Some (e, x) \<Rightarrow> x # unesc n (drop (length e) (c # cs)) | None \<Rightarrow> c # unesc n cs)"

lemma entity_at_esc: "entity_at (esc_char c @ t) = (if esc_char c = [c] then None else Some (esc_char c, c))"
  if "c \<noteq> CHR ''&''"
  using that by (simp add: entity_at_def entities_def esc_char_def)

lemma esc_char_step: "unesc (Suc n) (esc_char c @ t) = c # unesc n t"
  by (simp add: esc_char_def entity_at_def entities_def)

lemma esc_round_trip: "length s \<le> n \<Longrightarrow> unesc n (esc s) = s"
proof (induction s arbitrary: n)
  case Nil
  then show ?case by (cases n) (simp_all add: esc_def)
next
  case (Cons c s)
  then obtain m where m: "n = Suc m" "length s \<le> m" by (cases n) auto
  have "unesc (Suc m) (esc_char c @ esc s) = c # unesc m (esc s)" by (rule esc_char_step)
  with Cons.IH [OF m(2)] m(1) show ?case by (simp add: esc_def)
qed

definition markup_char :: "char \<Rightarrow> bool" where
  "markup_char c \<longleftrightarrow> c = CHR ''<'' \<or> c = CHR ''>'' \<or> c = CHR 0x22 \<or> c = CHR 0x27"

lemma esc_no_markup: "list_all (\<lambda>c. \<not> markup_char c) (esc s)"
  by (induction s) (auto simp: esc_def esc_char_def markup_char_def)

section \<open>The slot\<close>

datatype gate_branch = Branch_Override | Branch_Requires_Online_Unresolved | Branch_Requires_Online | Branch_No_Permission

definition gateBranch :: "page \<Rightarrow> gate_branch" where
  "gateBranch p =
     (if overrideAvailable (s_ctx (machine p)) then Branch_Override
      else if requiresOnline (s_ctx (machine p)) then
        (if (case SUBMIT_CTX p of None \<Rightarrow> False | Some c \<Rightarrow> sx_policy_unresolved c) then Branch_Requires_Online_Unresolved
         else Branch_Requires_Online)
      else Branch_No_Permission)"

datatype message =
    Apply_Discount_Then_Enter_Order | Server_Has_Final_Say
  | Cant_Verify_Offline_You_Hold_Override | Cant_Verify_Campaign_Unsynced | Cant_Verify_High_Value | Cant_Verify_Connect
  | Submit_Reenables_Itself | Are_You_Sure | Neither_Verified | Double_Redemption_Risk
  | Queued_Will_Verify string "string option" | Submitting_Now | Redeemed_Order string
  | Already_Used_At string "string option" | Already_Used_By_Another_Device | Server_Says_Expired | Server_Says_Not_Found
  | Submit_Failed string | Unexpected_Scanner_Event "(etype \<times> scan_state) option" | Connection_Dropped_Spent

record order_field =
  of_value :: string
  of_error_shown :: bool

record view =
  w_order :: "order_field option"
  w_messages :: "message list"
  w_buttons :: "(button \<times> bool) list"

definition order_error_shown :: "page \<Rightarrow> bool" where
  "order_error_shown p \<longleftrightarrow> trim (o_raw (ORDER_STATE p)) \<noteq> [] \<and> \<not> o_ok (ORDER_STATE p)"

definition orderFieldHtml :: "page \<Rightarrow> order_field" where
  "orderFieldHtml p = \<lparr>of_value = esc (o_raw (ORDER_STATE p)), of_error_shown = order_error_shown p\<rparr>"

text \<open>The placeholder for a missing number, an em dash on screen.\<close>

definition or_dash :: "string \<Rightarrow> string" where
  "or_dash s = (if s = [] then ''-'' else s)"

definition blank_view :: view where
  "blank_view = \<lparr>w_order = None, w_messages = [], w_buttons = []\<rparr>"

definition card :: "message list \<Rightarrow> (button \<times> bool) list \<Rightarrow> view" where
  "card ms bs = \<lparr>w_order = None, w_messages = ms, w_buttons = bs\<rparr>"

definition entry :: "page \<Rightarrow> message list \<Rightarrow> (button \<times> bool) list \<Rightarrow> view" where
  "entry p ms bs = \<lparr>w_order = Some (orderFieldHtml p), w_messages = ms, w_buttons = bs\<rparr>"

definition gate_view :: "gate_branch \<Rightarrow> message list \<times> (button \<times> bool) list" where
  "gate_view b = (case b of
     Branch_Requires_Online \<Rightarrow> ([Cant_Verify_High_Value], [])
   | Branch_Requires_Online_Unresolved \<Rightarrow> ([Cant_Verify_Campaign_Unsynced], [])
   | Branch_Override \<Rightarrow> ([Cant_Verify_Offline_You_Hold_Override], [(Ms_Override, True)])
   | Branch_No_Permission \<Rightarrow> ([Cant_Verify_Connect], []))"

text \<open>The local write's error shows as a suffix of the queued card.\<close>

definition flowHtml :: "(string \<Rightarrow> string) \<Rightarrow> page \<Rightarrow> view" where
  "flowHtml fmtWhen p =
     (let ok = o_ok (ORDER_STATE p); nxt = (Ms_Next, True)
      in case sc p of
           OfferReady \<Rightarrow> entry p [Apply_Discount_Then_Enter_Order] [(Ms_Submit, False)]
         | ReadyToSubmit \<Rightarrow> entry p [Apply_Discount_Then_Enter_Order] [(Ms_Submit, ok)]
         | UnknownCode \<Rightarrow> entry p [Server_Has_Final_Say] [(Ms_Submit, ok)]
         | BlockedOffline \<Rightarrow> (case gate_view (gateBranch p) of (ms, bs) \<Rightarrow> entry p (ms @ [Submit_Reenables_Itself]) bs)
         | OverrideConfirm \<Rightarrow>
             entry p (Are_You_Sure # (if unverifiedWarning (s_ctx (machine p)) then [Neither_Verified] else []) @ [Double_Redemption_Risk])
               [(Ms_Confirm_Override, ok), (Ms_Cancel_Override, True)]
         | OverridePending \<Rightarrow>
             card [Queued_Will_Verify (esc (or_dash (o_value (ORDER_STATE p)))) (map_option esc (OVERRIDE_WRITE_ERROR p))] [nxt]
         | Submitting \<Rightarrow> entry p [Submitting_Now] []
         | Redeemed \<Rightarrow> card [Redeemed_Order (esc (or_dash (o_value (ORDER_STATE p))))] [nxt]
         | AlreadyUsed \<Rightarrow>
             card [case (case WINNER p of Some w \<Rightarrow> Some w | None \<Rightarrow> Option.bind (SUBMIT_CTX p) sx_winner) of
                     Some (w_at, by) \<Rightarrow> Already_Used_At (esc (fmtWhen w_at)) (map_option esc (or_none by))
                   | None \<Rightarrow> Already_Used_By_Another_Device] [nxt]
         | scan_state.Expired \<Rightarrow> card [Server_Says_Expired] [nxt]
         | NotFound \<Rightarrow> card [Server_Says_Not_Found] [nxt]
         | ErrorState \<Rightarrow>
             card [Submit_Failed (esc (case SUBMIT_ERROR p of Some m \<Rightarrow> if m \<noteq> [] then m else ''unknown failure'' | None \<Rightarrow> ''unknown failure''))]
               [(Ms_Retry, True), nxt]
         | UnexpectedEvent \<Rightarrow>
             card [Unexpected_Scanner_Event (map_option (\<lambda>i. (ti_event i, ti_scan i)) (unexpectedInfo (s_ctx (machine p))))]
               [(Ms_Retry, True), nxt]
         | SpentLocally \<Rightarrow> card [Connection_Dropped_Spent] [nxt]
         | _ \<Rightarrow> blank_view)"

text \<open>The finish-first sheet: its buttons when it is open.\<close>

definition renderPrompt :: "page \<Rightarrow> button list" where
  "renderPrompt p = (if scan_shown (machine p) = ShowsPrompt then [Ms_Dismiss, Ms_Prompt_Next] else [])"

text \<open>The keystroke path repaints nothing: it sets the error's visibility and the two guarded buttons where they are.\<close>

definition updateOrderUi :: "page \<Rightarrow> view \<Rightarrow> view" where
  "updateOrderUi p w =
     w\<lparr>w_order := map_option (\<lambda>f. f\<lparr>of_error_shown := order_error_shown p\<rparr>) (w_order w),
       w_buttons := map (\<lambda>(b, en). (b,
         if b = Ms_Submit then o_ok (ORDER_STATE p) \<and> (sc p = ReadyToSubmit \<or> sc p = UnknownCode)
         else if b = Ms_Confirm_Override then o_ok (ORDER_STATE p)
         else en)) (w_buttons w)\<rparr>"

section \<open>The order entry and the buttons\<close>

definition entry_ok :: "page \<Rightarrow> bool" where
  "entry_ok p \<longleftrightarrow> (o_ok (ORDER_STATE p) \<longrightarrow> validateOrderNumber (Some (o_raw (ORDER_STATE p))) = (True, o_value (ORDER_STATE p)))"

lemma send_entry: "ORDER_STATE (machine_send e p) = ORDER_STATE p \<or> ORDER_STATE (machine_send e p) = no_order"
  by (simp add: machine_send_def Let_def clearSession_def split: option.split)

lemma entry_no_order: "ORDER_STATE p = no_order \<Longrightarrow> entry_ok p"
  by (simp add: entry_ok_def no_order_def)

lemma entry_send [simp]: "entry_ok p \<Longrightarrow> entry_ok (machine_send e p)"
  using send_entry [of e p] entry_no_order [of "machine_send e p"] by (auto simp: entry_ok_def)

lemma entry_fields [simp]:
  "entry_ok (p\<lparr>machine := a\<rparr>) = entry_ok p" "entry_ok (p\<lparr>WINNER := w\<rparr>) = entry_ok p"
  "entry_ok (p\<lparr>SUBMIT_ERROR := y\<rparr>) = entry_ok p" "entry_ok (p\<lparr>OVERRIDE_WRITE_ERROR := y\<rparr>) = entry_ok p"
  "entry_ok (p\<lparr>in_flight := n\<rparr>) = entry_ok p" "entry_ok (p\<lparr>handled := n\<rparr>) = entry_ok p"
  "entry_ok (p\<lparr>posted := b\<rparr>) = entry_ok p" "entry_ok (p\<lparr>enqueued := f\<rparr>) = entry_ok p"
  by (simp_all add: entry_ok_def)

lemma entry_effect [simp]: "entry_ok p \<Longrightarrow> entry_ok (handleEffect env e p)"
  by (simp add: handleEffect_def doOnlineSubmit_def doOverrideWrite_def split: effect.split option.split)

lemma entry_microtasks [simp]: "entry_ok p \<Longrightarrow> entry_ok (microtasks env p)"
  unfolding microtasks_def by (rule fold_invariant) simp_all

lemma entry_dispatch [simp]: "entry_ok p \<Longrightarrow> entry_ok (dispatchOrValidate t p)"
  by (auto simp: dispatchOrValidate_def split: prod.split intro!: entry_send) (simp_all add: entry_ok_def)

lemma entry_actions [simp]: "entry_ok p \<Longrightarrow> entry_ok (actions b p)"
  by (cases b) (simp_all add: onScanAgain_def)

lemma entry_step: "page_step ordered p p' \<Longrightarrow> entry_ok p \<Longrightarrow> entry_ok p'"
proof (induction rule: page_step.induct)
  case (Gate p env h)
  then show ?case by (simp add: gate_def Let_def split: option.split)
next
  case (Result r p env docs)
  then show ?case by (auto simp: onResult_def entry_no_order split: option.split intro!: entry_microtasks entry_send)
next
  case (Input p env tx)
  have "entry_ok (p\<lparr>ORDER_STATE := \<lparr>o_raw = tx, o_ok = ok, o_value = if ok then v else []\<rparr>\<rparr>)"
    if "validateOrderNumber (Some tx) = (ok, v)" for ok v using that by (simp add: entry_ok_def)
  then show ?case by (auto simp: onInput_def Let_def split: prod.split intro!: entry_microtasks entry_send)
next
  case (Reply p env dec parse r docs)
  then show ?case by (simp add: submitAnswered_def Let_def split: option.split)
qed (simp_all add: onScanAgain_def handleProbe_def afterReachable_def reportChannelStatus_def split: conn_state.split)

lemma reach_entry: "page_reach ordered co p \<Longrightarrow> entry_ok p"
proof -
  assume "page_reach ordered co p"
  then obtain b where "(page_step ordered)\<^sup>*\<^sup>* (boot_page co b) p" by (auto simp: page_reach_def)
  then show ?thesis
  proof induction
    case base
    have "entry_ok (init_page co)" by (rule entry_no_order) (simp add: init_page_def)
    then show ?case by (simp add: boot_page_def handleProbe_def afterReachable_def split: conn_state.split)
  qed (use entry_step in blast)
qed

lemma press:
  assumes "machine_ok co (machine p)" and "lastSc p = v_scan (machine p)" and "alphabet_event e"
    and "scan_move e (s_ctx (machine p)) (v_scan (machine p)) s' c' fx"
  shows "sc (machine_send e p) = s'"
proof -
  have "v_scan (flat_step e (machine p)) = s'"
    using scan_move_next [OF assms(4)] by (simp add: flat_step_def Let_def)
  then show ?thesis
    using send_page_fields(1) [OF assms(1-3)] machine_ok_step(2) [OF assms(1,3)] machine_ok_sc by metis
qed

lemma alphabet_ev [simp]: "t \<in> set EVENT_ALPHABET \<Longrightarrow> alphabet_event (ev t)"
  by (simp add: alphabet_event_def event_simps)

lemma dispatch_ok:
  assumes "entry_ok p" and "o_ok (ORDER_STATE p)"
  shows "dispatchOrValidate t p = machine_send (ev t) p"
proof -
  have same: "p\<lparr>ORDER_STATE := (ORDER_STATE p)\<lparr>o_ok := True\<rparr>\<rparr> = p" using assms(2) by (cases p; cases "ORDER_STATE p") simp
  show ?thesis using assms by (simp add: dispatchOrValidate_def entry_ok_def same)
qed

text \<open>The enabled buttons of each state and the move each one makes.\<close>

lemma press_submit:
  assumes "c_ov c = NoOverlay" and "s = ReadyToSubmit \<or> s = UnknownCode"
  shows "\<exists>s' c' fx. scan_move (ev SUBMIT) c s s' c' fx \<and> s' \<noteq> s"
proof (cases "c_conn c = Online")
  case True
  then show ?thesis using scan_move.submit [OF _ assms(1) assms(2) True, of "ev SUBMIT"] assms(2) by (auto simp: event_simps)
next
  case False
  then show ?thesis using scan_move.gated [OF _ assms(1) assms(2) False, of "ev SUBMIT"] assms(2) by (auto simp: event_simps)
qed

lemma press_next: "park_resets s \<Longrightarrow> scan_move (ev NEXT_CUSTOMER) c s Idle (RESET_CTX c) []"
  by (rule scan_move.next_customer) (simp add: event_simps)

definition shows_button :: "(string \<Rightarrow> string) \<Rightarrow> page \<Rightarrow> button \<Rightarrow> bool" where
  "shows_button fmt p b \<longleftrightarrow> (b, True) \<in> set (w_buttons (flowHtml fmt p))"

lemma button_rows:
  "shows_button fmt p b \<Longrightarrow>
    (b = Ms_Submit \<and> o_ok (ORDER_STATE p) \<and> (sc p = ReadyToSubmit \<or> sc p = UnknownCode))
  \<or> (b = Ms_Override \<and> sc p = BlockedOffline \<and> overrideAvailable (s_ctx (machine p)))
  \<or> (b = Ms_Confirm_Override \<and> o_ok (ORDER_STATE p) \<and> sc p = OverrideConfirm)
  \<or> (b = Ms_Cancel_Override \<and> sc p = OverrideConfirm)
  \<or> (b = Ms_Retry \<and> (sc p = ErrorState \<or> sc p = UnexpectedEvent))
  \<or> (b = Ms_Next \<and> park_resets (sc p))"
  by (cases "sc p") (auto simp: shows_button_def flowHtml_def card_def entry_def blank_view_def Let_def gate_view_def gateBranch_def
      park_resets_def split: gate_branch.splits if_splits)

lemma button_moves:
  assumes reach: "page_reach ordered co p" and ov: "v_ov (machine p) = NoOverlay" and b: "shows_button fmt p b"
  shows "sc (actions b p) \<noteq> sc p"
proof -
  have i: "page_inv ordered co p" using page_reach_inv [OF reach] .
  then have mok: "machine_ok co (machine p)" "lastSc p = v_scan (machine p)" by (simp_all add: page_inv_def page_core_def)
  have sc: "sc p = v_scan (machine p)" and ne: "v_scan (machine p) \<noteq> UnexpectedEvent" and cov: "c_ov (s_ctx (machine p)) = NoOverlay"
    using inv_sc [OF i] mok(1) ov by (simp_all add: machine_ok_def snap_inv_def mirrors_def)
  note go = press [OF mok]
  have d: "dispatchOrValidate t p = machine_send (ev t) p" if "o_ok (ORDER_STATE p)" for t
    using dispatch_ok [OF reach_entry [OF reach] that] .
  have mv: "sc (machine_send (ev t) p) \<noteq> sc p"
    if "scan_move (ev t) (s_ctx (machine p)) (v_scan (machine p)) s' c' fx" "s' \<noteq> v_scan (machine p)" "t \<in> set EVENT_ALPHABET" for t s' c' fx
    using go [OF alphabet_ev [OF that(3)] that(1)] that(2) sc by simp
  show ?thesis using button_rows [OF b]
  proof (elim disjE conjE)
    assume "b = Ms_Submit" "o_ok (ORDER_STATE p)" "sc p = ReadyToSubmit"
    then show ?thesis using press_submit [OF cov, of "v_scan (machine p)"] d mv sc by (auto simp: alphabet_defs)
  next
    assume "b = Ms_Submit" "o_ok (ORDER_STATE p)" "sc p = UnknownCode"
    then show ?thesis using press_submit [OF cov, of "v_scan (machine p)"] d mv sc by (auto simp: alphabet_defs)
  next
    assume h: "b = Ms_Override" "sc p = BlockedOffline" "overrideAvailable (s_ctx (machine p))"
    have "ev_type (ev OVERRIDE_REQUEST) = OVERRIDE_REQUEST" by (simp add: event_simps)
    from scan_move.override_request [OF this cov h(3)] h sc mv show ?thesis by (simp add: alphabet_defs)
  next
    assume h: "b = Ms_Confirm_Override" "o_ok (ORDER_STATE p)" "sc p = OverrideConfirm"
    have "ev_type (ev OVERRIDE_CONFIRM) = OVERRIDE_CONFIRM" by (simp add: event_simps)
    from scan_move.override_confirm [OF this cov] h sc mv d show ?thesis by (simp add: alphabet_defs)
  next
    assume h: "b = Ms_Cancel_Override" "sc p = OverrideConfirm"
    have "ev_type (ev OVERRIDE_CANCEL) = OVERRIDE_CANCEL" by (simp add: event_simps)
    from scan_move.override_cancel [OF this cov] h sc mv show ?thesis by (simp add: alphabet_defs)
  next
    assume h: "b = Ms_Retry" "sc p = ErrorState"
    have "ev_type (ev RETRY) = RETRY" by (simp add: event_simps)
    from scan_move.retry_error [OF this cov] h sc mv show ?thesis by (simp add: alphabet_defs)
  next
    assume "sc p = UnexpectedEvent"
    with ne sc show ?thesis by simp
  next
    assume h: "b = Ms_Next" "park_resets (sc p)"
    then have "sc (machine_send (ev NEXT_CUSTOMER) p) = Idle"
      using go [OF _ press_next] sc by (simp add: alphabet_defs)
    then show ?thesis using h by (auto simp: onScanAgain_def park_resets_def)
  qed
qed

lemma prompt_buttons:
  assumes reach: "page_reach ordered co p" and pr: "renderPrompt p \<noteq> []"
  shows "v_ov (machine (actions Ms_Dismiss p)) = NoOverlay \<and> sc (actions Ms_Dismiss p) = sc p \<and> sc (actions Ms_Prompt_Next p) = Idle"
proof -
  have i: "page_inv ordered co p" using page_reach_inv [OF reach] .
  then have mok: "machine_ok co (machine p)" "lastSc p = v_scan (machine p)" by (simp_all add: page_inv_def page_core_def)
  have ov: "v_ov (machine p) = Prompt" using pr by (cases "v_ov (machine p)") (auto simp: renderPrompt_def scan_shown_def)
  have mir: "mirrors (machine p)" "v_scan (machine p) \<in> set INTERRUPTIBLE" "v_scan (machine p) \<noteq> UnexpectedEvent"
    using mok(1) ov by (simp_all add: machine_ok_def snap_inv_def)
  have fz: "frozen_but_conn (machine p) (machine (machine_send (ev DISMISS) p)) NoOverlay"
    using prompt_dismissed [OF mir(1) ov] send_page_fields(1) [OF mok, of "ev DISMISS"] by (simp add: alphabet_defs)
  have nx: "sc (machine_send (ev NEXT_CUSTOMER) p) = Idle"
    using press [OF mok _ press_next] mir by (simp add: alphabet_defs park_resets_def INTERRUPTIBLE_def) auto
  show ?thesis using fz nx by (simp add: frozen_but_conn_def onScanAgain_def)
qed

text \<open>what is on screen works. In every page the handlers can reach, pressing an enabled button of the submit slot
  with no prompt open changes the state shown; with the prompt open its first button closes it over the same state and
  its second ends the session.\<close>
theorem no_dead_buttons:
  assumes "page_reach ordered co p"
  shows "if renderPrompt p = [] then list_all (\<lambda>(b, enabled). \<not> enabled \<or> sc (actions b p) \<noteq> sc p) (w_buttons (flowHtml fmt p))
     else v_ov (machine (actions Ms_Dismiss p)) = NoOverlay \<and> sc (actions Ms_Dismiss p) = sc p \<and> sc (actions Ms_Prompt_Next p) = Idle"
proof (cases "renderPrompt p = []")
  case True
  then have "v_ov (machine p) = NoOverlay" by (cases "v_ov (machine p)") (auto simp: renderPrompt_def scan_shown_def)
  with button_moves [OF assms] have "\<not> en \<or> sc (actions b p) \<noteq> sc p" if "(b, en) \<in> set (w_buttons (flowHtml fmt p))" for b en
    using that by (cases en) (auto simp: shows_button_def)
  with True show ?thesis by (auto simp: list_all_iff)
next
  case False
  with prompt_buttons [OF assms] show ?thesis by simp
qed

theorem no_dead_buttons_witness:
  "(Ms_Submit, True) \<in> set (w_buttons (flowHtml id in_order_page)) \<and> sc (actions Ms_Submit in_order_page) \<noteq> UnknownCode"
proof -
  have v: "validateOrderNumber (Some ''42'') = (True, ''42'')" by code_simp
  have q: "sc in_order_page = UnknownCode" "o_ok (ORDER_STATE in_order_page)" "renderPrompt in_order_page = []"
    by (simp_all add: in_order_page_def onInput_def v onResult_def map_result_def result_hash_def present_def init_page_def
        online_page_def page_run renderPrompt_def scan_shown_def)
  then have m: "(Ms_Submit, True) \<in> set (w_buttons (flowHtml id in_order_page))" by (simp add: flowHtml_def entry_def Let_def)
  with no_dead_buttons [OF in_order_reach, of id] q show ?thesis by (auto simp: list_all_iff)
qed

text \<open>text from outside cannot become markup, and is shown as it was: an escaped string holds no angle bracket and no
  quote, and a browser that reads its entities gets the original back.\<close>
theorem esc_safe_round_trip:
  "list_all (\<lambda>c. \<not> markup_char c) (esc s) \<and> unesc (length s) (esc s) = s"
  by (simp add: esc_no_markup esc_round_trip)

lemma light_update_agrees:
  "w_buttons (updateOrderUi p (flowHtml fmt p)) = w_buttons (flowHtml fmt p) \<and>
   w_order (updateOrderUi p (flowHtml fmt p)) = w_order (flowHtml fmt p)"
  by (cases "sc p") (simp_all add: updateOrderUi_def flowHtml_def card_def entry_def blank_view_def Let_def gate_view_def
      orderFieldHtml_def split: gate_branch.split)

end
