(* ===== verification/SyncCollections.thy ===== *)
theory SyncCollections
  imports Complex_Main JsonValues
begin

text \<open>
  \<^verbatim>\<open>sync-schema/collections.js\<close>: the four replicated collections, the local conflict record and their schemas as
  data, and what it means for a document to conform to a schema (the JSON Schema keywords the file uses).
\<close>

datatype jtype = T_String | T_Null | T_Boolean | T_Number | T_Object

record field_schema =
  p_types :: "jtype list"
  p_maxLength :: "nat option"
  p_format :: "string option"
  p_enum :: "json list option"

definition typed :: "jtype list \<Rightarrow> field_schema" where
  "typed ts = \<lparr>p_types = ts, p_maxLength = None, p_format = None, p_enum = None\<rparr>"

definition UUID :: field_schema where "UUID = (typed [T_String])\<lparr>p_maxLength := Some 36\<rparr>"
definition NULLABLE_UUID :: field_schema where "NULLABLE_UUID = (typed [T_String, T_Null])\<lparr>p_maxLength := Some 36\<rparr>"
definition TIMESTAMP :: field_schema where "TIMESTAMP = (typed [T_String])\<lparr>p_format := Some ''date-time''\<rparr>"
definition NULLABLE_TIMESTAMP :: field_schema where "NULLABLE_TIMESTAMP = (typed [T_String, T_Null])\<lparr>p_format := Some ''date-time''\<rparr>"
definition JSON_VALUE :: field_schema where "JSON_VALUE = typed [T_Boolean, T_Number, T_String, T_Object, T_Null]"

definition text_upto :: "nat \<Rightarrow> field_schema" where "text_upto n = (typed [T_String])\<lparr>p_maxLength := Some n\<rparr>"
definition nullable_upto :: "nat \<Rightarrow> field_schema" where "nullable_upto n = (typed [T_String, T_Null])\<lparr>p_maxLength := Some n\<rparr>"
definition one_of :: "jtype list \<Rightarrow> json list \<Rightarrow> field_schema" where "one_of ts vs = (typed ts)\<lparr>p_enum := Some vs\<rparr>"

record schema =
  version :: nat
  primaryKey :: string
  properties :: "(string \<times> field_schema) list"
  required :: "string list"

record collection =
  c_name :: string
  c_table :: "string option"
  c_replicated :: bool
  c_schema :: schema

definition table_schema :: "(string \<times> field_schema) list \<Rightarrow> string list \<Rightarrow> schema" where
  "table_schema ps rs = \<lparr>version = 0, primaryKey = ''id'', properties = ps, required = rs\<rparr>"

definition templates :: collection where
  "templates = \<lparr>c_name = ''templates'', c_table = Some ''checklist_templates'', c_replicated = True,
     c_schema = table_schema
       [(''id'', UUID), (''name'', text_upto 200), (''requires_approval'', typed [T_Boolean]), (''created_by'', NULLABLE_UUID),
        (''created_at'', TIMESTAMP), (''updated_by'', NULLABLE_UUID), (''updated_at'', TIMESTAMP), (''archived_at'', NULLABLE_TIMESTAMP)]
       [''id'', ''name'', ''requires_approval'', ''created_at'', ''updated_by'', ''updated_at'']\<rparr>"

definition checklists :: collection where
  "checklists = \<lparr>c_name = ''checklists'', c_table = Some ''checklist_submissions'', c_replicated = True,
     c_schema = table_schema
       [(''id'', UUID), (''template_id'', UUID), (''template_snapshot'', typed [T_Object]), (''submitted_by'', UUID),
        (''submitted_at'', TIMESTAMP),
        (''status'', one_of [T_String] [JStr ''pending'', JStr ''approved'', JStr ''rejected'', JStr ''completed'']),
        (''reviewed_by'', NULLABLE_UUID), (''reviewed_at'', NULLABLE_TIMESTAMP), (''idempotency_key'', NULLABLE_UUID),
        (''updated_by'', NULLABLE_UUID), (''updated_at'', TIMESTAMP)]
       [''id'', ''template_id'', ''template_snapshot'', ''submitted_by'', ''submitted_at'', ''status'', ''updated_by'', ''updated_at'']\<rparr>"

definition responses :: collection where
  "responses = \<lparr>c_name = ''responses'', c_table = Some ''submission_responses'', c_replicated = True,
     c_schema = table_schema
       [(''id'', UUID), (''submission_id'', NULLABLE_UUID), (''field_id'', UUID), (''value'', JSON_VALUE), (''answered_by'', UUID),
        (''answered_at'', TIMESTAMP)]
       [''id'', ''field_id'', ''value'', ''answered_by'', ''answered_at'']\<rparr>"

definition approvals :: collection where
  "approvals = \<lparr>c_name = ''approvals'', c_table = Some ''submission_rejections'', c_replicated = True,
     c_schema = table_schema
       [(''id'', UUID), (''submission_id'', UUID), (''field_id'', UUID), (''comment'', typed [T_String]),
        (''require_photo'', typed [T_Boolean]), (''rejected_by'', UUID), (''rejected_at'', TIMESTAMP)]
       [''id'', ''submission_id'', ''field_id'', ''comment'', ''require_photo'', ''rejected_by'', ''rejected_at'']\<rparr>"

definition REPLICATED_COLLECTIONS :: "(string \<times> collection) list" where
  "REPLICATED_COLLECTIONS = [(''templates'', templates), (''checklists'', checklists), (''responses'', responses), (''approvals'', approvals)]"

definition CONFLICT_RECORD_RETENTION_DAYS :: int where
  "CONFLICT_RECORD_RETENTION_DAYS = 30"

definition conflict_records :: collection where
  "conflict_records = \<lparr>c_name = ''conflict_records'', c_table = None, c_replicated = False,
     c_schema = table_schema
       [(''id'', UUID), (''submission_id'', NULLABLE_UUID), (''field_id'', UUID), (''discarded_value'', JSON_VALUE),
        (''overwritten_by'', NULLABLE_UUID), (''overwritten_at'', TIMESTAMP), (''doc_id'', text_upto 64),
        (''collection'', nullable_upto 40), (''current_value'', JSON_VALUE), (''field_label'', nullable_upto 400),
        (''field_type'', nullable_upto 40), (''display_unit'', nullable_upto 16), (''field_removed'', typed [T_Boolean]),
        (''checklist_name'', nullable_upto 200), (''checklist_date'', nullable_upto 40), (''overwritten_by_name'', nullable_upto 120),
        (''status'', one_of [T_String] [JStr ''open'', JStr ''restoring'', JStr ''restored'', JStr ''failed'', JStr ''kept'']),
        (''undone'', typed [T_Boolean]), (''failure'', one_of [T_String, T_Null] [JStr ''offline'', JStr ''conflict'', JNull])]
       [''id'', ''field_id'', ''discarded_value'', ''overwritten_by'', ''overwritten_at'']\<rparr>"

definition LOCAL_COLLECTIONS :: "(string \<times> collection) list" where
  "LOCAL_COLLECTIONS = [(''conflict_records'', conflict_records)]"

definition RESERVED_UNDECLARED_FIELDS :: "string list" where
  "RESERVED_UNDECLARED_FIELDS = [''_deleted'', ''_modified'']"

lemmas collection_defs = REPLICATED_COLLECTIONS_def LOCAL_COLLECTIONS_def templates_def checklists_def responses_def approvals_def
  conflict_records_def table_schema_def

text \<open>The header's rule: no schema of either kind declares a reserved name, and a local collection has no table.\<close>

lemma reserved_undeclared:
  "list_all (\<lambda>(k, c). list_all (\<lambda>n. n \<notin> fst ` set (properties (c_schema c))) RESERVED_UNDECLARED_FIELDS)
     (REPLICATED_COLLECTIONS @ LOCAL_COLLECTIONS)"
  by (simp add: collection_defs RESERVED_UNDECLARED_FIELDS_def)

section \<open>Conforming documents\<close>

definition has_type :: "json \<Rightarrow> jtype \<Rightarrow> bool" where
  "has_type v t = (case (v, t) of
     (JStr _, T_String) \<Rightarrow> True | (JNull, T_Null) \<Rightarrow> True | (JBool _, T_Boolean) \<Rightarrow> True
   | (JNum _, T_Number) \<Rightarrow> True | (JObj _, T_Object) \<Rightarrow> True | _ \<Rightarrow> False)"

text \<open>\<open>format\<close> is an annotation: the storage does not check it.\<close>

definition prop_ok :: "field_schema \<Rightarrow> json \<Rightarrow> bool" where
  "prop_ok p v \<longleftrightarrow> list_ex (has_type v) (p_types p)
     \<and> (case p_maxLength p of None \<Rightarrow> True | Some n \<Rightarrow> (case v of JStr s \<Rightarrow> length s \<le> n | _ \<Rightarrow> True))
     \<and> (case p_enum p of None \<Rightarrow> True | Some vs \<Rightarrow> v \<in> set vs)"

definition conforms :: "schema \<Rightarrow> doc \<Rightarrow> bool" where
  "conforms s d \<longleftrightarrow> list_all (\<lambda>k. field d k \<noteq> JUndef) (required s)
     \<and> list_all (\<lambda>(k, v). v = JUndef \<or> (case map_of (properties s) k of None \<Rightarrow> False | Some p \<Rightarrow> prop_ok p v)) d"

end
