(* ===== verification/Sha256.thy ===== *)
theory Sha256
  imports "HOL-Library.Word" Prelude
begin

text \<open>
  \<^verbatim>\<open>marketing/sync/sha256.js\<close>: the plain SHA-256 the page falls back to where WebCrypto is withheld. The code half
  follows the file: a padded buffer written through a \<open>DataView\<close>, a schedule array of 64 words filled by index, eight
  working variables. Its 32-bit values are \<open>32 word\<close>: every sum of the file is below \<open>2^53\<close> before \<open>>>> 0\<close> reduces it.
  The second half states the standard's function (FIPS 180-4) and the third proves them equal.
\<close>

unbundle bit_operations_syntax

type_synonym u32 = "32 word"
type_synonym byte = "8 word"

section \<open>The code\<close>

definition K :: "u32 list" where
  "K =
     [0x428a2f98, 0x71374491, 0xb5c0fbcf, 0xe9b5dba5, 0x3956c25b, 0x59f111f1, 0x923f82a4, 0xab1c5ed5]
   @ [0xd807aa98, 0x12835b01, 0x243185be, 0x550c7dc3, 0x72be5d74, 0x80deb1fe, 0x9bdc06a7, 0xc19bf174]
   @ [0xe49b69c1, 0xefbe4786, 0x0fc19dc6, 0x240ca1cc, 0x2de92c6f, 0x4a7484aa, 0x5cb0a9dc, 0x76f988da]
   @ [0x983e5152, 0xa831c66d, 0xb00327c8, 0xbf597fc7, 0xc6e00bf3, 0xd5a79147, 0x06ca6351, 0x14292967]
   @ [0x27b70a85, 0x2e1b2138, 0x4d2c6dfc, 0x53380d13, 0x650a7354, 0x766a0abb, 0x81c2c92e, 0x92722c85]
   @ [0xa2bfe8a1, 0xa81a664b, 0xc24b8b70, 0xc76c51a3, 0xd192e819, 0xd6990624, 0xf40e3585, 0x106aa070]
   @ [0x19a4c116, 0x1e376c08, 0x2748774c, 0x34b0bcb5, 0x391c0cb3, 0x4ed8aa4a, 0x5b9cca4f, 0x682e6ff3]
   @ [0x748f82ee, 0x78a5636f, 0x84c87814, 0x8cc70208, 0x90befffa, 0xa4506ceb, 0xbef9a3f7, 0xc67178f2]"

definition rotr :: "u32 \<Rightarrow> nat \<Rightarrow> u32" where
  "rotr x n = drop_bit n x OR push_bit (32 - n) x"

text \<open>JavaScript's \<open>>>\<close> and \<open><<\<close> first take their operand to a signed 32-bit integer.\<close>

definition toInt32 :: "int \<Rightarrow> int" where
  "toInt32 x = signed_take_bit 31 x"

definition pad_len :: "int \<Rightarrow> int" where
  "pad_len len = toInt32 ((toInt32 (len + 9 + 63) div 64) * 64)"

definition be32 :: "u32 \<Rightarrow> byte list" where
  "be32 x = [ucast (drop_bit 24 x), ucast (drop_bit 16 x), ucast (drop_bit 8 x), ucast x]"

definition setUint32 :: "nat \<Rightarrow> u32 \<Rightarrow> byte list \<Rightarrow> byte list" where
  "setUint32 i x buf = take i buf @ be32 x @ drop (i + 4) buf"

definition getUint32 :: "byte list \<Rightarrow> nat \<Rightarrow> u32" where
  "getUint32 buf i = push_bit 24 (ucast (buf ! i)) OR push_bit 16 (ucast (buf ! (i + 1))) OR push_bit 8 (ucast (buf ! (i + 2)))
     OR ucast (buf ! (i + 3))"

definition padded :: "byte list \<Rightarrow> byte list" where
  "padded bytes =
     (let len = length bytes;
          padLen = nat (pad_len (int len));
          buf = (bytes @ replicate (padLen - len) 0)[len := 0x80];
          buf1 = setUint32 (padLen - 8) (of_nat (len * 8 div 0x100000000)) buf
      in setUint32 (padLen - 4) (of_nat (len * 8)) buf1)"

definition schedule_word :: "u32 list \<Rightarrow> nat \<Rightarrow> u32" where
  "schedule_word w i =
     (let s0 = rotr (w ! (i - 15)) 7 XOR rotr (w ! (i - 15)) 18 XOR drop_bit 3 (w ! (i - 15));
          s1 = rotr (w ! (i - 2)) 17 XOR rotr (w ! (i - 2)) 19 XOR drop_bit 10 (w ! (i - 2))
      in w ! (i - 16) + s0 + w ! (i - 7) + s1)"

definition fill_schedule :: "byte list \<Rightarrow> nat \<Rightarrow> u32 list \<Rightarrow> u32 list" where
  "fill_schedule buf off w =
     (let w16 = foldl (\<lambda>w i. w[i := getUint32 buf (off + i * 4)]) w [0..<16]
      in foldl (\<lambda>w i. w[i := schedule_word w i]) w16 [16..<64])"

type_synonym regs = "u32 \<times> u32 \<times> u32 \<times> u32 \<times> u32 \<times> u32 \<times> u32 \<times> u32"

definition round_step :: "u32 list \<Rightarrow> regs \<Rightarrow> nat \<Rightarrow> regs" where
  "round_step w r i = (case r of (a, b, c, d, e, f, g, h) \<Rightarrow>
     let S1 = rotr e 6 XOR rotr e 11 XOR rotr e 25;
         ch = (e AND f) XOR (NOT e AND g);
         t1 = h + S1 + ch + K ! i + w ! i;
         S0 = rotr a 2 XOR rotr a 13 XOR rotr a 22;
         maj = (a AND b) XOR (a AND c) XOR (b AND c);
         t2 = S0 + maj
     in (t1 + t2, a, b, c, d + t1, e, f, g))"

definition add_regs :: "regs \<Rightarrow> regs \<Rightarrow> regs" where
  "add_regs x y = (case (x, y) of ((a, b, c, d, e, f, g, h), (a', b', c', d', e', f', g', h')) \<Rightarrow>
     (a + a', b + b', c + c', d + d', e + e', f + f', g + g', h + h'))"

definition H0 :: regs where
  "H0 = (0x6a09e667, 0xbb67ae85, 0x3c6ef372, 0xa54ff53a, 0x510e527f, 0x9b05688c, 0x1f83d9ab, 0x5be0cd19)"

text \<open>The schedule array is shared by the blocks, as in the code.\<close>

definition block_step :: "byte list \<Rightarrow> u32 list \<times> regs \<Rightarrow> nat \<Rightarrow> u32 list \<times> regs" where
  "block_step buf s off =
     (let w = fill_schedule buf off (fst s) in (w, add_regs (snd s) (foldl (round_step w) (snd s) [0..<64])))"

definition regs_bytes :: "regs \<Rightarrow> byte list" where
  "regs_bytes r = (case r of (a, b, c, d, e, f, g, h) \<Rightarrow> concat (map be32 [a, b, c, d, e, f, g, h]))"

definition sha256Bytes :: "byte list \<Rightarrow> byte list" where
  "sha256Bytes bytes =
     (let buf = padded bytes
      in regs_bytes (snd (foldl (block_step buf) (replicate 64 0, H0) (map (\<lambda>j. 64 * j) [0..<length buf div 64]))))"

definition hex_digit :: "nat \<Rightarrow> char" where
  "hex_digit n = ''0123456789abcdef'' ! n"

text \<open>\<open>toString(16).padStart(2, '0')\<close> of a byte.\<close>

definition byte_hex :: "byte \<Rightarrow> string" where
  "byte_hex b = [hex_digit (unat b div 16), hex_digit (unat b mod 16)]"

definition bytesToHex :: "byte list \<Rightarrow> string" where
  "bytesToHex bs = concat (map byte_hex bs)"

text \<open>\<open>subtle\<close> is the origin's WebCrypto digest, when it has one.\<close>

definition sha256Hex :: "(byte list \<Rightarrow> byte list) option \<Rightarrow> byte list \<Rightarrow> string" where
  "sha256Hex subtle bytes = (case subtle of Some digest \<Rightarrow> bytesToHex (digest bytes) | None \<Rightarrow> bytesToHex (sha256Bytes bytes))"

section \<open>The standard\<close>

text \<open>FIPS 180-4, section 5.1.1 in bytes: one bit, the fewest zeros that leave room, the bit length in 64 bits.\<close>

definition fips_zeros :: "nat \<Rightarrow> nat" where
  "fips_zeros len = (119 - len mod 64) mod 64"

lemma fips_zeros_least:
  "(len + 1 + fips_zeros len) mod 64 = 56" and "(len + 1 + k) mod 64 = 56 \<Longrightarrow> fips_zeros len \<le> k"
proof -
  obtain q r where l: "len = 64 * q + r" "r < 64" by (rule that [of "len div 64" "len mod 64"]) simp_all
  have z: "fips_zeros len = (if r \<le> 55 then 55 - r else 119 - r)" using l by (auto simp: fips_zeros_def le_mod_geq)
  have m: "(len + 1 + k) mod 64 = (r + 1 + k) mod 64" for k using l(1) by (metis add.assoc mod_mult_self4)
  show "(len + 1 + fips_zeros len) mod 64 = 56" unfolding m z using l(2) by auto
  assume "(len + 1 + k) mod 64 = 56"
  then have k: "(r + 1 + k) mod 64 = 56" by (simp only: m)
  show "fips_zeros len \<le> k"
  proof (rule ccontr)
    assume "\<not> fips_zeros len \<le> k"
    then have lt: "k < (if r \<le> 55 then 55 - r else 119 - r)" by (simp add: z)
    show False
    proof (cases "r + 1 + k < 64")
      case True
      with k lt show False by (auto split: if_splits)
    next
      case False
      with k lt l(2) show False by (simp add: le_mod_geq split: if_splits)
    qed
  qed
qed

definition be64 :: "nat \<Rightarrow> byte list" where
  "be64 n = map (\<lambda>i. of_nat (n div 256 ^ (7 - i))) [0..<8]"

definition fips_pad :: "byte list \<Rightarrow> byte list" where
  "fips_pad m = m @ [0x80] @ replicate (fips_zeros (length m)) 0 @ be64 (8 * length m)"

text \<open>Sections 4.1.2 and 6.2.2.\<close>

definition ROTR :: "nat \<Rightarrow> u32 \<Rightarrow> u32" where "ROTR n x = word_rotr n x"
definition SHR :: "nat \<Rightarrow> u32 \<Rightarrow> u32" where "SHR n x = drop_bit n x"
definition Ch :: "u32 \<Rightarrow> u32 \<Rightarrow> u32 \<Rightarrow> u32" where "Ch x y z = (x AND y) XOR (NOT x AND z)"
definition Maj :: "u32 \<Rightarrow> u32 \<Rightarrow> u32 \<Rightarrow> u32" where "Maj x y z = (x AND y) XOR (x AND z) XOR (y AND z)"
definition Sigma0 :: "u32 \<Rightarrow> u32" where "Sigma0 x = ROTR 2 x XOR ROTR 13 x XOR ROTR 22 x"
definition Sigma1 :: "u32 \<Rightarrow> u32" where "Sigma1 x = ROTR 6 x XOR ROTR 11 x XOR ROTR 25 x"
definition sigma0 :: "u32 \<Rightarrow> u32" where "sigma0 x = ROTR 7 x XOR ROTR 18 x XOR SHR 3 x"
definition sigma1 :: "u32 \<Rightarrow> u32" where "sigma1 x = ROTR 17 x XOR ROTR 19 x XOR SHR 10 x"

fun W :: "byte list \<Rightarrow> nat \<Rightarrow> u32" where
  "W m t = (if t < 16 then getUint32 m (4 * t) else sigma1 (W m (t - 2)) + W m (t - 7) + sigma0 (W m (t - 15)) + W m (t - 16))"

declare W.simps [simp del]

definition fips_round :: "byte list \<Rightarrow> regs \<Rightarrow> nat \<Rightarrow> regs" where
  "fips_round m r t = (case r of (a, b, c, d, e, f, g, h) \<Rightarrow>
     let T1 = h + Sigma1 e + Ch e f g + K ! t + W m t; T2 = Sigma0 a + Maj a b c
     in (T1 + T2, a, b, c, d + T1, e, f, g))"

fun fips_blocks :: "regs \<Rightarrow> byte list \<Rightarrow> regs" where
  "fips_blocks H m =
     (if length m < 64 then H
      else fips_blocks (add_regs H (foldl (fips_round (take 64 m)) H [0..<64])) (drop 64 m))"

declare fips_blocks.simps [simp del]

definition fips_sha256 :: "byte list \<Rightarrow> byte list" where
  "fips_sha256 m = regs_bytes (fips_blocks H0 (fips_pad m))"

section \<open>The code computes the standard's function\<close>

lemma rotr_ROTR: "0 < n \<Longrightarrow> n < 32 \<Longrightarrow> rotr x n = ROTR n x"
proof (rule bit_eqI)
  fix i
  assume n: "0 < n" "n < 32" and i: "possible_bit TYPE(32 word) i"
  then have i32: "i < 32" by simp
  show "bit (rotr x n) i \<longleftrightarrow> bit (ROTR n x) i"
  proof (cases "i + n < 32")
    case True
    then have "\<not> 32 - n \<le> i" using n by arith
    with True n i32 show ?thesis
      by (simp add: rotr_def ROTR_def bit_or_iff bit_drop_bit_eq bit_push_bit_iff bit_word_rotr_iff add.commute)
  next
    case False
    then have m: "(i + n) mod 32 = i - (32 - n)" using n i32 by (simp add: le_mod_geq)
    have "32 - n \<le> i" using False by arith
    moreover have "\<not> bit x (n + i)" using False by (intro notI) (auto dest: bit_imp_le_length)
    ultimately show ?thesis using False n i32 m
      by (simp add: rotr_def ROTR_def bit_or_iff bit_drop_bit_eq bit_push_bit_iff bit_word_rotr_iff)
  qed
qed

lemma be32_length [simp]: "length (be32 x) = 4"
  by (simp add: be32_def)

definition short :: "byte list \<Rightarrow> bool" where
  "short bytes \<longleftrightarrow> length bytes + 72 < 2 ^ 31"

lemma pad_len_short: "n + 72 < 2 ^ 31 \<Longrightarrow> nat (pad_len (int n)) = 64 * ((n + 72) div 64)"
proof -
  assume n: "n + 72 < 2 ^ 31"
  have id: "toInt32 x = x" if "0 \<le> x" "x < 2 ^ 31" for x
    using that by (simp add: toInt32_def signed_take_bit_int_eq_self_iff)
  have a: "toInt32 (int n + 9 + 63) = int n + 72" using id [of "int n + 72"] n by (simp add: add.assoc)
  have "(int n + 72) div 64 * 64 \<le> int n + 72" by simp
  then have "toInt32 ((int n + 72) div 64 * 64) = (int n + 72) div 64 * 64" using n by (intro id) auto
  then have "pad_len (int n) = (int n + 72) div 64 * 64" unfolding pad_len_def a .
  then have "pad_len (int n) = int (64 * ((n + 72) div 64))" by (simp add: zdiv_int)
  then show ?thesis by simp
qed

lemma pad_room: "64 * ((n + 72) div 64) = n + 9 + fips_zeros n"
proof -
  obtain q r where l: "n = 64 * q + r" "r < 64" by (rule that [of "n div 64" "n mod 64"]) simp_all
  have "fips_zeros n = (if r \<le> 55 then 55 - r else 119 - r)" using l by (auto simp: fips_zeros_def le_mod_geq)
  moreover have "(n + 72) div 64 = (if r \<le> 55 then q + 1 else q + 2)"
    using l by (cases "r \<le> 55") (auto intro!: div_nat_eqI)
  ultimately show ?thesis using l by auto
qed

lemma ucast_of_nat: "(ucast (of_nat n :: u32) :: byte) = of_nat n"
  by (rule bit_word_eqI) (simp add: bit_unsigned_iff bit_of_nat_iff)

lemma be64_halves: "be32 (of_nat (n div 0x100000000)) @ be32 (of_nat n) = be64 n"
proof -
  have d: "ucast (drop_bit k (of_nat m :: u32)) = (of_nat (m div 2 ^ k) :: byte)" if "k \<le> 24" for k m
  proof (rule bit_word_eqI)
    fix i
    assume "i < LENGTH(8)"
    then show "bit (ucast (drop_bit k (of_nat m :: u32)) :: byte) i \<longleftrightarrow> bit (of_nat (m div 2 ^ k) :: byte) i"
      using that by (simp add: bit_unsigned_iff bit_of_nat_iff bit_drop_bit_eq flip: drop_bit_eq_div)
  qed
  have b: "be32 (of_nat m) = [of_nat (m div 2 ^ 24), of_nat (m div 2 ^ 16), of_nat (m div 2 ^ 8), of_nat m]" for m
    using d [of 24 m] d [of 16 m] d [of 8 m] d [of 0 m] by (simp add: be32_def)
  have u: "[0..<8] = [0, 1, 2, 3, 4, 5, 6, 7 :: nat]" by code_simp
  have f: "n div 0x100000000 = n div 256 ^ 4"
    "n div 256 ^ 4 div 2 ^ 24 = n div 256 ^ 7" "n div 256 ^ 4 div 2 ^ 16 = n div 256 ^ 6" "n div 256 ^ 4 div 2 ^ 8 = n div 256 ^ 5"
    "n div 2 ^ 24 = n div 256 ^ 3" "n div 2 ^ 16 = n div 256 ^ 2" "n div 2 ^ 8 = n div 256 ^ 1"
    by (simp_all flip: div_mult2_eq)
  have "be64 n = [of_nat (n div 256 ^ 7), of_nat (n div 256 ^ 6), of_nat (n div 256 ^ 5), of_nat (n div 256 ^ 4),
      of_nat (n div 256 ^ 3), of_nat (n div 256 ^ 2), of_nat (n div 256 ^ 1), of_nat n]"
    unfolding be64_def u by simp
  then show ?thesis by (simp only: b f append_Cons append_Nil)
qed

lemma set_at: "length pre = i \<Longrightarrow> setUint32 i x (pre @ xs) = pre @ be32 x @ drop 4 xs"
  by (simp add: setUint32_def)

lemma padded_fips:
  assumes "short m"
  shows "padded m = fips_pad m"
proof -
  let ?n = "length m"
  let ?z = "fips_zeros ?n"
  have p: "nat (pad_len (int ?n)) = ?n + 9 + ?z"
    using assms pad_len_short [of ?n] pad_room [of ?n] by (simp add: short_def)
  have r: "replicate (9 + ?z) 0 = (0 :: byte) # replicate ?z 0 @ replicate 8 0"
  proof -
    have "9 + ?z = Suc (?z + 8)" by simp
    then show ?thesis by (simp only: replicate_Suc replicate_add)
  qed
  have buf: "(m @ replicate (?n + 9 + ?z - ?n) 0)[?n := 0x80] = m @ 0x80 # replicate ?z 0 @ replicate 8 (0 :: byte)"
    using r by (simp add: list_update_append)
  let ?pre = "m @ 0x80 # replicate ?z (0 :: byte)"
  have l: "length ?pre = ?n + 1 + ?z" by simp
  have s1: "setUint32 (length ?pre) x (?pre @ replicate 8 0) = ?pre @ be32 x @ replicate 4 0" for x
    using set_at [OF refl, of ?pre x "replicate 8 0"] by simp
  have s2: "setUint32 (length ?pre + 4) y (?pre @ be32 x @ replicate 4 0) = ?pre @ be32 x @ be32 y" for x y
    using set_at [of "?pre @ be32 x" "length ?pre + 4" y "replicate 4 0"] by simp
  have i: "?n + 9 + ?z - 8 = length ?pre" "?n + 9 + ?z - 4 = length ?pre + 4" by simp_all
  have "padded m = ?pre @ be32 (of_nat (?n * 8 div 0x100000000)) @ be32 (of_nat (?n * 8))"
    unfolding padded_def Let_def p buf i using s1 s2 by simp
  also have "\<dots> = fips_pad m" unfolding fips_pad_def using be64_halves [of "?n * 8"] by (simp only: mult.commute append_Cons append_Nil append_assoc)
  finally show ?thesis .
qed

section \<open>The schedule and the rounds\<close>

lemma schedule_word_W:
  assumes "16 \<le> i" and "\<And>j. j < i \<Longrightarrow> w ! j = W m j"
  shows "schedule_word w i = W m i"
proof -
  have w: "w ! (i - 15) = W m (i - 15)" "w ! (i - 2) = W m (i - 2)" "w ! (i - 16) = W m (i - 16)" "w ! (i - 7) = W m (i - 7)"
    using assms by simp_all
  have "W m i = sigma1 (W m (i - 2)) + W m (i - 7) + sigma0 (W m (i - 15)) + W m (i - 16)"
    using assms(1) by (subst W.simps) simp
  then show ?thesis
    by (simp add: schedule_word_def w sigma0_def sigma1_def rotr_ROTR SHR_def Let_def ac_simps)
qed

lemma get_block:
  assumes "off + 64 \<le> length buf" and "i < 16"
  shows "getUint32 buf (off + i * 4) = getUint32 (take 64 (drop off buf)) (4 * i)"
  using assms by (simp add: getUint32_def mult.commute add.assoc)

lemma fill_first:
  assumes "off + 64 \<le> length buf" and "length w = 64" and "n \<le> 16"
  shows "length (foldl (\<lambda>w i. w[i := getUint32 buf (off + i * 4)]) w [0..<n]) = 64 \<and>
    (\<forall>j < n. foldl (\<lambda>w i. w[i := getUint32 buf (off + i * 4)]) w [0..<n] ! j = W (take 64 (drop off buf)) j)"
  using assms(3)
proof (induction n)
  case (Suc n)
  have "W (take 64 (drop off buf)) n = getUint32 (take 64 (drop off buf)) (4 * n)"
    using Suc.prems by (subst W.simps) simp
  with Suc get_block [OF assms(1), of n] show ?case by (simp add: nth_list_update less_Suc_eq)
qed (simp add: assms(2))

lemma fill_rest:
  assumes "length w = 64" and "\<forall>j < 16. w ! j = W m j" and "n \<le> 48"
  shows "length (foldl (\<lambda>w i. w[i := schedule_word w i]) w [16..<16 + n]) = 64 \<and>
    (\<forall>j < 16 + n. foldl (\<lambda>w i. w[i := schedule_word w i]) w [16..<16 + n] ! j = W m j)"
  using assms(3)
proof (induction n)
  case (Suc n)
  let ?w = "foldl (\<lambda>w i. w[i := schedule_word w i]) w [16..<16 + n]"
  have ih: "length ?w = 64" "\<forall>j < 16 + n. ?w ! j = W m j" using Suc by simp_all
  have "schedule_word ?w (16 + n) = W m (16 + n)" using ih(2) by (intro schedule_word_W) simp_all
  then have "\<forall>j < 16 + Suc n. ?w[16 + n := schedule_word ?w (16 + n)] ! j = W m j"
    using ih Suc.prems by (auto simp: nth_list_update less_Suc_eq)
  moreover have u: "[16..<16 + Suc n] = [16..<16 + n] @ [16 + n]" by (simp only: add_Suc_right upt_Suc le_add1 if_True)
  ultimately show ?case unfolding u using ih(1) by (simp only: foldl_append foldl.simps length_list_update simp_thms)
qed (simp add: assms(1,2))

lemma fill_schedule_W:
  assumes "off + 64 \<le> length buf" and "length w = 64"
  shows "length (fill_schedule buf off w) = 64 \<and> (\<forall>j < 64. fill_schedule buf off w ! j = W (take 64 (drop off buf)) j)"
proof -
  let ?w = "foldl (\<lambda>w i. w[i := getUint32 buf (off + i * 4)]) w [0..<16]"
  have w: "length ?w = 64" "\<forall>j < 16. ?w ! j = W (take 64 (drop off buf)) j" using fill_first [OF assms order_refl] by simp_all
  have e: "16 + 48 = (64 :: nat)" by simp
  show ?thesis using fill_rest [OF w order_refl, unfolded e] unfolding fill_schedule_def Let_def .
qed

lemma round_step_fips:
  assumes "w ! i = W m i"
  shows "round_step w r i = fips_round m r i"
  by (cases r) (simp add: round_step_def fips_round_def Let_def assms rotr_ROTR Sigma0_def Sigma1_def Ch_def Maj_def)

lemma rounds_fips:
  assumes "\<forall>j < 64. w ! j = W m j" and "n \<le> 64"
  shows "foldl (round_step w) r [0..<n] = foldl (fips_round m) r [0..<n]"
  using assms(2)
proof (induction n)
  case (Suc n)
  then show ?case using round_step_fips [of w n m] assms(1) by simp
qed simp

lemma block_step_fips:
  assumes "off + 64 \<le> length buf" and "length w = 64"
  shows "length (fst (block_step buf (w, H) off)) = 64 \<and>
    snd (block_step buf (w, H) off) = add_regs H (foldl (fips_round (take 64 (drop off buf))) H [0..<64])"
  using fill_schedule_W [OF assms] rounds_fips [of "fill_schedule buf off w" "take 64 (drop off buf)" 64]
  by (simp add: block_step_def Let_def)

lemma blocks_fips:
  assumes "length w = 64" and "length buf = 64 * (k + n)"
  shows "snd (foldl (block_step buf) (w, H) (map (\<lambda>j. 64 * j) [k..<k + n])) = fips_blocks H (drop (64 * k) buf)"
  using assms
proof (induction n arbitrary: k w H)
  case 0
  then show ?case by (simp add: fips_blocks.simps)
next
  case (Suc n)
  obtain w' H' where s: "block_step buf (w, H) (64 * k) = (w', H')" by (cases "block_step buf (w, H) (64 * k)")
  have b: "length w' = 64" "H' = add_regs H (foldl (fips_round (take 64 (drop (64 * k) buf))) H [0..<64])"
    using block_step_fips [of "64 * k" buf w H] s Suc.prems by simp_all
  have "[k..<k + Suc n] = k # [Suc k..<Suc k + n]" by (simp add: upt_conv_Cons)
  moreover have "snd (foldl (block_step buf) (w', H') (map (\<lambda>j. 64 * j) [Suc k..<Suc k + n])) = fips_blocks H' (drop (64 * Suc k) buf)"
    using Suc.prems b(1) by (intro Suc.IH) simp_all
  moreover have "fips_blocks H (drop (64 * k) buf) = fips_blocks H' (drop (64 * Suc k) buf)"
    using Suc.prems b(2) by (subst fips_blocks.simps) (simp add: add.commute)
  ultimately show ?case using s by simp
qed

text \<open>C31: the fallback digest is SHA-256. For every message shorter than two gigabytes the code's padding, schedule and
  rounds produce the digest of the standard (FIPS 180-4), so hashes agree with the server's on every origin.\<close>
theorem sha256_is_fips:
  assumes "short m"
  shows "sha256Bytes m = fips_sha256 m \<and> length (sha256Bytes m) = 32"
proof -
  have l: "length (fips_pad m) = 64 * ((length m + 72) div 64)"
    using pad_room [of "length m"] by (simp add: fips_pad_def be64_def)
  have "snd (foldl (block_step (fips_pad m)) (replicate 64 0, H0) (map (\<lambda>j. 64 * j) [0..<0 + length (fips_pad m) div 64]))
      = fips_blocks H0 (drop (64 * 0) (fips_pad m))"
    using l by (intro blocks_fips) simp_all
  then have "sha256Bytes m = fips_sha256 m"
    by (simp add: sha256Bytes_def fips_sha256_def padded_fips [OF assms] Let_def)
  moreover have "length (regs_bytes r) = 32" for r by (simp add: regs_bytes_def split: prod.split)
  ultimately show ?thesis by (simp add: fips_sha256_def)
qed

theorem sha256_is_fips_witness: "sha256Bytes [0x61, 0x62, 0x63] = fips_sha256 [0x61, 0x62, 0x63]"
  using sha256_is_fips [of "[0x61, 0x62, 0x63]"] by (simp add: short_def)

text \<open>The hex text is 64 digits that determine the digest.\<close>

lemma hex_digit_inj: "m < 16 \<Longrightarrow> n < 16 \<Longrightarrow> hex_digit m = hex_digit n \<Longrightarrow> m = n"
proof -
  have d: "distinct ''0123456789abcdef''" "length ''0123456789abcdef'' = 16" by simp_all
  show "m < 16 \<Longrightarrow> n < 16 \<Longrightarrow> hex_digit m = hex_digit n \<Longrightarrow> m = n"
    using nth_eq_iff_index_eq [OF d(1)] d(2) by (simp add: hex_digit_def del: nth_Cons_numeral)
qed

lemma byte_hex_inj: "byte_hex a = byte_hex b \<Longrightarrow> a = b"
proof -
  assume h: "byte_hex a = byte_hex b"
  have lt: "unat x div 16 < 16" for x :: byte 
  proof -
    have "unat x < 2 ^ LENGTH(8)" by (rule unsigned_less)
    then show ?thesis by (simp add: less_mult_imp_div_less)
  qed
  have "unat a div 16 = unat b div 16" "unat a mod 16 = unat b mod 16"
    using h by (auto simp: byte_hex_def intro!: hex_digit_inj lt)
  then have "unat a = unat b" by (metis div_mod_decomp)
  then show "a = b" by (simp add: word_unat_eq_iff)
qed

lemma bytesToHex_inj: "bytesToHex as = bytesToHex bs \<Longrightarrow> as = bs"
proof (induction as arbitrary: bs)
  case Nil
  then show ?case by (cases bs) (simp_all add: bytesToHex_def byte_hex_def)
next
  case (Cons a as)
  then obtain b bs' where bs: "bs = b # bs'" by (cases bs) (simp_all add: bytesToHex_def byte_hex_def)
  have "byte_hex a = byte_hex b" "bytesToHex as = bytesToHex bs'"
    using Cons.prems by (simp_all add: bs bytesToHex_def byte_hex_def)
  then show ?case using Cons.IH byte_hex_inj bs by blast
qed

lemma bytesToHex_length: "length (bytesToHex bs) = 2 * length bs"
  by (induction bs) (simp_all add: bytesToHex_def byte_hex_def)

end
