(* ===== verification/SyncScope.thy ===== *)
theory SyncScope
  imports Complex_Main SyncCollections Scanner Sha256
begin

text \<open>
  The replication scope of \<^verbatim>\<open>sync-rxdb/client.js\<close>: which rows a replication may pull. The scope arrives as a
  JavaScript value, is refused or normalised, becomes a declarative filter per collection, and leaves as PostgREST
  clauses, as one clause for the live subscription, and as part of the replication identifier.
\<close>

section \<open>Normalising a scope\<close>

datatype scope_error =
    Scope_Required | Unknown_Mode json | Id_Required string | Id_Malformed string string | List_User_Required | Fill_User_Required
  | Since_Required json | Template_Ids_Required | Checklist_Required | No_Scope_Filter string | Type_Error

definition bind_err :: "'e + 'a \<Rightarrow> ('a \<Rightarrow> 'e + 'b) \<Rightarrow> 'e + 'b" where
  "bind_err x f = (case x of Inl e \<Rightarrow> Inl e | Inr a \<Rightarrow> f a)"

lemma bind_err_simps [simp]: "bind_err (Inl e) f = Inl e" "bind_err (Inr a) f = f a"
  by (simp_all add: bind_err_def)

lemma bind_err_Inr: "bind_err x f = Inr b \<longleftrightarrow> (\<exists>a. x = Inr a \<and> f a = Inr b)"
  by (simp add: bind_err_def split: sum.split)

definition SCOPE_ID_RE :: "string \<Rightarrow> bool" where
  "SCOPE_ID_RE s \<longleftrightarrow> s \<noteq> [] \<and> list_all word_char s"

definition assertScopeId :: "string \<Rightarrow> json \<Rightarrow> scope_error + string" where
  "assertScopeId label value = (case value of
     JStr s \<Rightarrow> if s = [] then Inl (Id_Required label) else if SCOPE_ID_RE s then Inr s else Inl (Id_Malformed label s)
   | _ \<Rightarrow> Inl (Id_Required label))"

text \<open>\<open>/^\d{4}-\d{2}-\d{2}(T\d{2}:\d{2}:\d{2}(\.\d{1,6})?(Z|[+-]\d{2}:\d{2})?)?$/\<close>, read left to right: each step takes
  what it must and leaves the rest.\<close>

definition digits :: "nat \<Rightarrow> string \<Rightarrow> string option" where
  "digits n s = (if n \<le> length s \<and> list_all is_digit (take n s) then Some (drop n s) else None)"

definition lit :: "char \<Rightarrow> string \<Rightarrow> string option" where
  "lit c s = (case s of x # xs \<Rightarrow> if x = c then Some xs else None | [] \<Rightarrow> None)"

definition date_part :: "string \<Rightarrow> string option" where
  "date_part s = Option.bind (digits 4 s) (\<lambda>s. Option.bind (lit (CHR ''-'') s) (\<lambda>s. Option.bind (digits 2 s)
     (\<lambda>s. Option.bind (lit (CHR ''-'') s) (digits 2))))"

definition clock_part :: "string \<Rightarrow> string option" where
  "clock_part s = Option.bind (lit (CHR ''T'') s) (\<lambda>s. Option.bind (digits 2 s) (\<lambda>s. Option.bind (lit (CHR '':'') s)
     (\<lambda>s. Option.bind (digits 2 s) (\<lambda>s. Option.bind (lit (CHR '':'') s) (digits 2)))))"

definition fraction_part :: "string \<Rightarrow> string option" where
  "fraction_part s = (case lit (CHR ''.'') s of
     None \<Rightarrow> Some s
   | Some r \<Rightarrow> (let n = length (takeWhile is_digit r) in if 1 \<le> n \<and> n \<le> 6 then Some (drop n r) else None))"

definition zone_part :: "string \<Rightarrow> string option" where
  "zone_part s = (case s of
     [] \<Rightarrow> Some []
   | c # r \<Rightarrow> if c = CHR ''Z'' then Some r
             else if c = CHR ''+'' \<or> c = CHR ''-'' then Option.bind (digits 2 r) (\<lambda>s. Option.bind (lit (CHR '':'') s) (digits 2))
             else None)"

definition SCOPE_DATE_RE :: "string \<Rightarrow> bool" where
  "SCOPE_DATE_RE s \<longleftrightarrow> (case date_part s of
     None \<Rightarrow> False
   | Some r \<Rightarrow> r = [] \<or> Option.bind (clock_part r) (\<lambda>r. Option.bind (fraction_part r) zone_part) = Some [])"

definition assertDateFloor :: "(string \<Rightarrow> ms option) \<Rightarrow> json \<Rightarrow> scope_error + string" where
  "assertDateFloor parse value = (case value of
     JStr s \<Rightarrow> if s = [] \<or> \<not> SCOPE_DATE_RE s \<or> parse s = None then Inl (Since_Required value) else Inr s
   | _ \<Rightarrow> Inl (Since_Required value))"

text \<open>\<open>(x || []).filter(t => typeof t === 'string' && t !== '')\<close>.\<close>

definition truthy :: "json \<Rightarrow> bool" where
  "truthy v = (case v of JUndef \<Rightarrow> False | JNull \<Rightarrow> False | JBool b \<Rightarrow> b | JNum n \<Rightarrow> n \<noteq> 0 | JStr s \<Rightarrow> s \<noteq> [] | _ \<Rightarrow> True)"

fun string_items :: "json list \<Rightarrow> string list" where
  "string_items [] = []"
| "string_items (JStr s # vs) = (if s \<noteq> [] then s # string_items vs else string_items vs)"
| "string_items (_ # vs) = string_items vs"

definition string_list :: "json \<Rightarrow> scope_error + string list" where
  "string_list v = (if \<not> truthy v then Inr [] else case v of JArr vs \<Rightarrow> Inr (string_items vs) | _ \<Rightarrow> Inl Type_Error)"

fun assert_ids :: "string \<Rightarrow> string list \<Rightarrow> scope_error + string list" where
  "assert_ids label [] = Inr []"
| "assert_ids label (t # ts) = bind_err (assertScopeId label (JStr t)) (\<lambda>_. bind_err (assert_ids label ts) (\<lambda>ts'. Inr (t # ts')))"

datatype scope =
    List_Scope (scope_user: string) (scope_since: string) (scope_templates: "string list")
  | Fill_Scope (scope_user: string) (scope_checklist: string) (scope_template: string) (scope_fields: "string list")

definition nonempty_string :: "json \<Rightarrow> bool" where
  "nonempty_string v = (case v of JStr s \<Rightarrow> s \<noteq> [] | _ \<Rightarrow> False)"

definition scope_fieldsof :: "json \<Rightarrow> doc option" where
  "scope_fieldsof v = (case v of JObj d \<Rightarrow> Some d | JArr _ \<Rightarrow> Some [] | _ \<Rightarrow> None)"

definition normalizeScope :: "(string \<Rightarrow> ms option) \<Rightarrow> json \<Rightarrow> scope_error + scope" where
  "normalizeScope parse v = (case scope_fieldsof v of
     None \<Rightarrow> Inl Scope_Required
   | Some d \<Rightarrow>
       if field d ''mode'' = JStr ''list'' then
         (if \<not> nonempty_string (field d ''userId'') then Inl List_User_Required
          else bind_err (assertScopeId ''userId'' (field d ''userId'')) (\<lambda>u.
               bind_err (assertDateFloor parse (field d ''since'')) (\<lambda>since.
               bind_err (string_list (field d ''templateIds'')) (\<lambda>ts.
               if ts = [] then Inl Template_Ids_Required
               else bind_err (assert_ids ''templateIds'' ts) (\<lambda>ts. Inr (List_Scope u since ts))))))
       else if field d ''mode'' \<noteq> JUndef \<and> field d ''mode'' \<noteq> JStr ''fill'' then Inl (Unknown_Mode (field d ''mode''))
       else if \<not> nonempty_string (field d ''checklistId'') then Inl Checklist_Required
       else bind_err (assertScopeId ''checklistId'' (field d ''checklistId'')) (\<lambda>c.
            bind_err (assertScopeId ''templateId'' (field d ''templateId'')) (\<lambda>t.
            if \<not> nonempty_string (field d ''userId'') then Inl Fill_User_Required
            else bind_err (assertScopeId ''userId'' (field d ''userId'')) (\<lambda>u.
                 bind_err (string_list (field d ''fieldIds'')) (\<lambda>fs.
                 bind_err (assert_ids ''fieldIds'' fs) (\<lambda>fs. Inr (Fill_Scope u c t fs)))))))"

text \<open>The object \<open>normalizeScope\<close> returns, as its callers pass it on.\<close>

definition scope_value :: "scope \<Rightarrow> json" where
  "scope_value s = (case s of
     List_Scope u since ts \<Rightarrow>
       JObj [(''mode'', JStr ''list''), (''userId'', JStr u), (''since'', JStr since), (''templateIds'', JArr (map JStr ts))]
   | Fill_Scope u c t fs \<Rightarrow>
       JObj [(''mode'', JStr ''fill''), (''userId'', JStr u), (''checklistId'', JStr c), (''templateId'', JStr t),
             (''fieldIds'', JArr (map JStr fs))])"

section \<open>Filters\<close>

datatype filt = Eq string string | Gte string string | Is_Null string | In string "string list" | And "filt list" | Or "filt list"

definition listScopeFilterFor :: "string \<Rightarrow> string \<Rightarrow> string list \<Rightarrow> filt option" where
  "listScopeFilterFor key since ts =
     (if key = ''templates'' then Some (In ''id'' ts)
      else if key = ''checklists'' then Some (And [In ''template_id'' ts, Gte ''submitted_at'' since])
      else if key = ''responses'' then Some (Gte ''answered_at'' since)
      else if key = ''approvals'' then Some (Gte ''rejected_at'' since)
      else None)"

definition filter_for :: "string \<Rightarrow> scope \<Rightarrow> filt option" where
  "filter_for key s = (case s of
     List_Scope u since ts \<Rightarrow> listScopeFilterFor key since ts
   | Fill_Scope u c t fs \<Rightarrow>
       if key = ''templates'' then Some (Eq ''id'' t)
       else if key = ''checklists'' then Some (Eq ''id'' c)
       else if key = ''responses'' then
         Some (if fs \<noteq> [] then Or [Eq ''submission_id'' c, And [Is_Null ''submission_id'', In ''field_id'' fs]]
               else Eq ''submission_id'' c)
       else if key = ''approvals'' then Some (Eq ''submission_id'' c)
       else None)"

definition scopeFilterFor :: "(string \<Rightarrow> ms option) \<Rightarrow> string \<Rightarrow> json \<Rightarrow> scope_error + filt option" where
  "scopeFilterFor parse key v = bind_err (normalizeScope parse v) (\<lambda>s. Inr (filter_for key s))"

fun join :: "string \<Rightarrow> string list \<Rightarrow> string" where
  "join sep [] = []"
| "join sep [x] = x"
| "join sep (x # y # ys) = x @ sep @ join sep (y # ys)"

definition quote_char :: "char \<Rightarrow> string" where
  "quote_char c = (if c = CHR 0x5C then [CHR 0x5C, CHR 0x5C] else if c = CHR 0x22 then [CHR 0x5C, CHR 0x22] else [c])"

definition quoteValue :: "string \<Rightarrow> string" where
  "quoteValue v = [CHR 0x22] @ concat (map quote_char v) @ [CHR 0x22]"

definition quoteColumn :: "string \<Rightarrow> string" where
  "quoteColumn c = [CHR 0x22] @ c @ [CHR 0x22]"

fun serializeFilter :: "filt \<Rightarrow> string" where
  "serializeFilter (Eq c v) = quoteColumn c @ ''.eq.'' @ quoteValue v"
| "serializeFilter (Gte c v) = quoteColumn c @ ''.gte.'' @ quoteValue v"
| "serializeFilter (Is_Null c) = quoteColumn c @ ''.is.null''"
| "serializeFilter (In c vs) = quoteColumn c @ ''.in.('' @ join '','' (map quoteValue vs) @ '')''"
| "serializeFilter (And cs) = ''and('' @ join '','' (map serializeFilter cs) @ '')''"
| "serializeFilter (Or cs) = ''or('' @ join '','' (map serializeFilter cs) @ '')''"

text \<open>The query builder: the clauses on the wire, in order.\<close>

datatype clause = Q_Eq string string | Q_Gte string string | Q_Is_Null string | Q_In string "string list" | Q_Or string

fun apply_node :: "clause list \<Rightarrow> filt \<Rightarrow> clause list" where
  "apply_node q (Eq c v) = q @ [Q_Eq c v]"
| "apply_node q (Gte c v) = q @ [Q_Gte c v]"
| "apply_node q (Is_Null c) = q @ [Q_Is_Null c]"
| "apply_node q (In c vs) = q @ [Q_In c vs]"
| "apply_node q (Or cs) = q @ [Q_Or (join '','' (map serializeFilter cs))]"
| "apply_node q (And cs) = foldl apply_node q cs"

definition applyScope :: "clause list \<Rightarrow> filt option \<Rightarrow> scope_error + clause list" where
  "applyScope q node = (case node of None \<Rightarrow> Inl (No_Scope_Filter []) | Some f \<Rightarrow> Inr (apply_node q f))"

definition realtimeFilterFor :: "(string \<Rightarrow> ms option) \<Rightarrow> string \<Rightarrow> json \<Rightarrow> scope_error + string option" where
  "realtimeFilterFor parse key v = bind_err (normalizeScope parse v) (\<lambda>s. Inr (
     if key = ''responses'' then None
     else case s of
       List_Scope u since ts \<Rightarrow>
         if key = ''templates'' then Some (''id=in.('' @ join '','' ts @ '')'')
         else if key = ''checklists'' then Some (''submitted_at=gte.'' @ since)
         else if key = ''approvals'' then Some (''rejected_at=gte.'' @ since)
         else None
     | Fill_Scope u c t fs \<Rightarrow>
         if key = ''templates'' then Some (''id=eq.'' @ t)
         else if key = ''checklists'' then Some (''id=eq.'' @ c)
         else if key = ''approvals'' then Some (''submission_id=eq.'' @ c)
         else None))"

section \<open>Identity, fingerprint and plan\<close>

definition scopeIdentity :: "scope \<Rightarrow> string" where
  "scopeIdentity s = (case s of List_Scope u since ts \<Rightarrow> ''list:'' @ u | Fill_Scope u c t fs \<Rightarrow> ''fill:'' @ u @ '':'' @ c)"

definition fnv_step :: "u32 \<times> u32 \<Rightarrow> char \<Rightarrow> u32 \<times> u32" where
  "fnv_step h c = (case h of (fnv, djb) \<Rightarrow> ((xor fnv (of_char c)) * 0x01000193, djb * 33 + of_char c))"

fun toString16 :: "nat \<Rightarrow> string" where
  "toString16 n = (if n < 16 then [hex_digit n] else toString16 (n div 16) @ [hex_digit (n mod 16)])"

declare toString16.simps [simp del]

definition padStart :: "nat \<Rightarrow> char \<Rightarrow> string \<Rightarrow> string" where
  "padStart n c s = replicate (n - length s) c @ s"

definition scopeFingerprint :: "string \<Rightarrow> string" where
  "scopeFingerprint serialized =
     (let (fnv, djb) = foldl fnv_step (0x811c9dc5, 5381) serialized
      in padStart 8 (CHR ''0'') (toString16 (unat fnv)) @ padStart 8 (CHR ''0'') (toString16 (unat djb)))"

record scope_plan =
  plan_node :: filt
  plan_serialized :: string
  plan_fingerprint :: string
  plan_realtime :: "string option"

definition fingerprint_input :: "scope \<Rightarrow> filt \<Rightarrow> string" where
  "fingerprint_input s node = scopeIdentity s @ [CHR 0x00] @ serializeFilter node"

definition scopePlanFor :: "(string \<Rightarrow> ms option) \<Rightarrow> string \<Rightarrow> json \<Rightarrow> scope_error + scope_plan" where
  "scopePlanFor parse key v =
     bind_err (normalizeScope parse v) (\<lambda>s.
     bind_err (scopeFilterFor parse key (scope_value s)) (\<lambda>node.
     case node of
       None \<Rightarrow> Inl (No_Scope_Filter key)
     | Some f \<Rightarrow>
         bind_err (realtimeFilterFor parse key (scope_value s)) (\<lambda>rt.
         Inr \<lparr>plan_node = f, plan_serialized = serializeFilter f, plan_fingerprint = scopeFingerprint (fingerprint_input s f),
              plan_realtime = rt\<rparr>)))"

definition makePullQueryBuilder :: "(string \<Rightarrow> ms option) \<Rightarrow> string \<Rightarrow> json \<Rightarrow> scope_error + (clause list \<Rightarrow> clause list)" where
  "makePullQueryBuilder parse key v = bind_err (scopePlanFor parse key v) (\<lambda>p. Inr (\<lambda>q. apply_node q (plan_node p)))"

end
