(* ===== verification/SyncScopeProps.thy ===== *)
theory SyncScopeProps
  imports Complex_Main SyncScope
begin

text \<open>
  What the scope guarantees: an accepted scope holds only whitelisted ids and a date, the text it becomes is read back by
  PostgREST's grammar as exactly the filter that was meant, the live clause never hides a row the pull admits, and two
  scopes share a checkpoint key only if they are the same person's same filter.
\<close>

section \<open>Accepted scopes\<close>

definition scope_ok :: "(string \<Rightarrow> ms option) \<Rightarrow> scope \<Rightarrow> bool" where
  "scope_ok parse s = (case s of
     List_Scope u since ts \<Rightarrow> SCOPE_ID_RE u \<and> SCOPE_DATE_RE since \<and> parse since \<noteq> None \<and> ts \<noteq> [] \<and> list_all SCOPE_ID_RE ts
   | Fill_Scope u c t fs \<Rightarrow> SCOPE_ID_RE u \<and> SCOPE_ID_RE c \<and> SCOPE_ID_RE t \<and> list_all SCOPE_ID_RE fs)"

lemma assertScopeId_Inr: "assertScopeId l v = Inr s \<longleftrightarrow> v = JStr s \<and> SCOPE_ID_RE s"
  by (auto simp: assertScopeId_def SCOPE_ID_RE_def split: json.split if_splits)

lemma assertDateFloor_Inr: "assertDateFloor parse v = Inr s \<longleftrightarrow> v = JStr s \<and> s \<noteq> [] \<and> SCOPE_DATE_RE s \<and> parse s \<noteq> None"
  by (auto simp: assertDateFloor_def split: json.split if_splits)

lemma assert_ids_Inr: "assert_ids l ts = Inr us \<longleftrightarrow> us = ts \<and> list_all SCOPE_ID_RE ts"
  by (induction l ts arbitrary: us rule: assert_ids.induct) (auto simp: bind_err_Inr assertScopeId_Inr)

lemma assert_ids_ok: "list_all SCOPE_ID_RE ts \<Longrightarrow> assert_ids l ts = Inr ts"
  by (simp add: assert_ids_Inr)

lemma normalize_ok: "normalizeScope parse v = Inr s \<Longrightarrow> scope_ok parse s"
  by (auto simp: normalizeScope_def bind_err_Inr assertScopeId_Inr assertDateFloor_Inr assert_ids_Inr scope_ok_def
      split: option.splits if_splits)

lemma id_nonempty: "SCOPE_ID_RE s \<Longrightarrow> s \<noteq> []"
  by (simp add: SCOPE_ID_RE_def)

lemma string_items_strs: "list_all SCOPE_ID_RE ts \<Longrightarrow> string_items (map JStr ts) = ts"
  by (induction ts) (simp_all add: id_nonempty)

lemma string_list_strs: "list_all SCOPE_ID_RE ts \<Longrightarrow> string_list (JArr (map JStr ts)) = Inr ts"
  by (simp add: string_list_def truthy_def string_items_strs)

lemma date_nonempty: "SCOPE_DATE_RE s \<Longrightarrow> s \<noteq> []"
  by (auto simp: SCOPE_DATE_RE_def date_part_def digits_def)

lemma normalize_value: "scope_ok parse s \<Longrightarrow> normalizeScope parse (scope_value s) = Inr s"
  by (cases s)
    (auto simp: scope_ok_def normalizeScope_def scope_value_def scope_fieldsof_def field_def nonempty_string_def id_nonempty
      assertScopeId_def assertDateFloor_def date_nonempty string_list_strs assert_ids_ok)

lemma plan_of:
  assumes "normalizeScope parse v = Inr s"
  shows "scopePlanFor parse key v = (case filter_for key s of
     None \<Rightarrow> Inl (No_Scope_Filter key)
   | Some f \<Rightarrow> bind_err (realtimeFilterFor parse key (scope_value s)) (\<lambda>rt. Inr
       \<lparr>plan_node = f, plan_serialized = serializeFilter f, plan_fingerprint = scopeFingerprint (fingerprint_input s f), plan_realtime = rt\<rparr>))"
  using assms normalize_value [OF normalize_ok [OF assms]] by (simp add: scopePlanFor_def scopeFilterFor_def)

section \<open>Reading a serialized filter\<close>

text \<open>PostgREST's logic trees, as its documentation gives them, for the operators in use: quoted columns and values with
  backslash escapes, lists in parentheses. The first argument bounds the nesting.\<close>

fun strip :: "string \<Rightarrow> string \<Rightarrow> string option" where
  "strip [] s = Some s"
| "strip (p # ps) [] = None"
| "strip (p # ps) (c # cs) = (if p = c then strip ps cs else None)"

fun unquote :: "string \<Rightarrow> (string \<times> string) option" where
  "unquote [] = None"
| "unquote (c # cs) =
     (if c = CHR 0x22 then Some ([], cs)
      else if c = CHR 0x5C then (case cs of [] \<Rightarrow> None | d # ds \<Rightarrow> map_option (\<lambda>(v, r). (d # v, r)) (unquote ds))
      else map_option (\<lambda>(v, r). (c # v, r)) (unquote cs))"

definition quoted :: "string \<Rightarrow> (string \<times> string) option" where
  "quoted s = Option.bind (strip [CHR 0x22] s) unquote"

fun quoted_list :: "nat \<Rightarrow> string \<Rightarrow> (string list \<times> string) option" where
  "quoted_list 0 s = None"
| "quoted_list (Suc n) s = Option.bind (quoted s) (\<lambda>(v, r).
     case strip '','' r of
       Some r' \<Rightarrow> map_option (\<lambda>(vs, q). (v # vs, q)) (quoted_list n r')
     | None \<Rightarrow> map_option (\<lambda>q. ([v], q)) (strip '')'' r))"

definition column_op :: "nat \<Rightarrow> string \<Rightarrow> string \<Rightarrow> (filt \<times> string) option" where
  "column_op n col s =
     (case strip ''.eq.'' s of Some r \<Rightarrow> map_option (\<lambda>(v, q). (Eq col v, q)) (quoted r)
      | None \<Rightarrow> case strip ''.gte.'' s of Some r \<Rightarrow> map_option (\<lambda>(v, q). (Gte col v, q)) (quoted r)
      | None \<Rightarrow> case strip ''.is.null'' s of Some r \<Rightarrow> Some (Is_Null col, r)
      | None \<Rightarrow> case strip ''.in.('' s of Some r \<Rightarrow> map_option (\<lambda>(vs, q). (In col vs, q)) (quoted_list n r)
      | None \<Rightarrow> None)"

fun tree :: "nat \<Rightarrow> string \<Rightarrow> (filt \<times> string) option" and trees :: "nat \<Rightarrow> string \<Rightarrow> (filt list \<times> string) option" where
  "tree 0 s = None"
| "tree (Suc n) s =
     (case strip ''and('' s of Some r \<Rightarrow> map_option (\<lambda>(cs, q). (And cs, q)) (trees n r)
      | None \<Rightarrow> case strip ''or('' s of Some r \<Rightarrow> map_option (\<lambda>(cs, q). (Or cs, q)) (trees n r)
      | None \<Rightarrow> Option.bind (quoted s) (\<lambda>(col, r). column_op n col r))"
| "trees 0 s = None"
| "trees (Suc n) s = Option.bind (tree n s) (\<lambda>(f, r).
     case strip '','' r of
       Some r' \<Rightarrow> map_option (\<lambda>(fs, q). (f # fs, q)) (trees n r')
     | None \<Rightarrow> map_option (\<lambda>q. ([f], q)) (strip '')'' r))"

definition plain :: "string \<Rightarrow> bool" where
  "plain c \<longleftrightarrow> list_all (\<lambda>x. x \<noteq> CHR 0x22 \<and> x \<noteq> CHR 0x5C) c"

fun wf_filt :: "filt \<Rightarrow> bool" where
  "wf_filt (Eq c v) = plain c"
| "wf_filt (Gte c v) = plain c"
| "wf_filt (Is_Null c) = plain c"
| "wf_filt (In c vs) = (plain c \<and> vs \<noteq> [])"
| "wf_filt (And cs) = (cs \<noteq> [] \<and> list_all wf_filt cs)"
| "wf_filt (Or cs) = (cs \<noteq> [] \<and> list_all wf_filt cs)"

fun weight :: "filt \<Rightarrow> nat" where
  "weight (In c vs) = length vs + 1"
| "weight (And cs) = 1 + sum_list (map (\<lambda>c. Suc (weight c)) cs)"
| "weight (Or cs) = 1 + sum_list (map (\<lambda>c. Suc (weight c)) cs)"
| "weight _ = 1"

lemma strip_append [simp]: "strip p (p @ s) = Some s"
  by (induction p) simp_all

lemma unquote_value: "unquote (concat (map quote_char v) @ CHR 0x22 # r) = Some (v, r)"
  by (induction v) (simp_all add: quote_char_def)

lemma unquote_plain: "plain c \<Longrightarrow> unquote (c @ CHR 0x22 # r) = Some (c, r)"
  by (induction c) (simp_all add: plain_def)

lemma quoted_value [simp]: "quoted (quoteValue v @ r) = Some (v, r)"
  using unquote_value [of v r] by (simp add: quoted_def quoteValue_def)

lemma quoted_column: "plain c \<Longrightarrow> quoted (quoteColumn c @ r) = Some (c, r)"
  using unquote_plain [of c r] by (simp add: quoted_def quoteColumn_def)

lemma quoted_list_join:
  assumes "vs \<noteq> []" and "length vs \<le> n"
  shows "quoted_list n (join '','' (map quoteValue vs) @ CHR '')'' # r) = Some (vs, r)"
  using assms
proof (induction vs arbitrary: n)
  case (Cons v vs)
  then obtain m where n: "n = Suc m" by (cases n) auto
  show ?case
  proof (cases vs)
    case Nil
    then show ?thesis using n by simp
  next
    case (Cons w ws)
    then have j: "join '','' (map quoteValue (v # vs)) = quoteValue v @ CHR '','' # join '','' (map quoteValue vs)" by simp
    have "quoted_list m (join '','' (map quoteValue vs) @ CHR '')'' # r) = Some (vs, r)"
      using Cons.IH [of m] Cons.prems n Cons by simp
    then show ?thesis unfolding j n by simp
  qed
qed simp

lemma column_starts: "strip ''and('' (quoteColumn c @ r) = None" "strip ''or('' (quoteColumn c @ r) = None"
  by (simp_all add: quoteColumn_def)

lemma tree_column: "plain c \<Longrightarrow> tree (Suc n) (quoteColumn c @ s) = column_op n c s"
  by (simp add: column_starts quoted_column)

lemma trees_join:
  assumes "cs \<noteq> []" and "sum_list (map (\<lambda>c. Suc (weight c)) cs) \<le> n"
    and "\<And>c m r. c \<in> set cs \<Longrightarrow> weight c \<le> m \<Longrightarrow> tree m (serializeFilter c @ r) = Some (c, r)"
  shows "trees n (join '','' (map serializeFilter cs) @ CHR '')'' # r) = Some (cs, r)"
  using assms
proof (induction cs arbitrary: n)
  case (Cons c cs)
  from Cons.prems(2) obtain m where n: "n = Suc m" by (cases n) auto
  have c: "tree m (serializeFilter c @ s) = Some (c, s)" for s using Cons.prems(2,3) n by simp
  show ?case
  proof (cases cs)
    case Nil
    then show ?thesis using n c by simp
  next
    case (Cons d ds)
    then have j: "join '','' (map serializeFilter (c # cs)) = serializeFilter c @ CHR '','' # join '','' (map serializeFilter cs)" by simp
    have "trees m (join '','' (map serializeFilter cs) @ CHR '')'' # r) = Some (cs, r)"
      using Cons.IH [of m] Cons.prems n Cons by simp
    then show ?thesis unfolding j n using c by simp
  qed
qed simp

lemma tree_serialize: "wf_filt f \<Longrightarrow> weight f \<le> n \<Longrightarrow> tree n (serializeFilter f @ r) = Some (f, r)"
proof (induction f arbitrary: n r rule: wf_filt.induct)
  case (1 c v)
  then obtain m where n: "n = Suc m" by (cases n) auto
  with 1 show ?case using tree_column [of c m] by (simp add: column_op_def del: tree.simps)
next
  case (2 c v)
  then obtain m where n: "n = Suc m" by (cases n) auto
  with 2 show ?case using tree_column [of c m] by (simp add: column_op_def del: tree.simps)
next
  case (3 c)
  then obtain m where n: "n = Suc m" by (cases n) auto
  with 3 show ?case using tree_column [of c m] by (simp add: column_op_def del: tree.simps)
next
  case (4 c vs)
  then obtain m where n: "n = Suc m" "length vs \<le> m" by (cases n) auto
  with 4 show ?case using tree_column [of c m] quoted_list_join [of vs m r] by (simp add: column_op_def del: tree.simps)
next
  case (5 cs)
  then obtain m where n: "n = Suc m" "sum_list (map (\<lambda>c. Suc (weight c)) cs) \<le> m" by (cases n) auto
  have "trees m (join '','' (map serializeFilter cs) @ CHR '')'' # r) = Some (cs, r)"
    using 5 n(2) by (intro trees_join) (auto simp: list_all_iff)
  with n show ?case by simp
next
  case (6 cs)
  then obtain m where n: "n = Suc m" "sum_list (map (\<lambda>c. Suc (weight c)) cs) \<le> m" by (cases n) auto
  have "trees m (join '','' (map serializeFilter cs) @ CHR '')'' # r) = Some (cs, r)"
    using 6 n(2) by (intro trees_join) (auto simp: list_all_iff)
  with n show ?case by simp
qed

lemma serialize_inj:
  assumes "wf_filt f" and "wf_filt g" and "serializeFilter f = serializeFilter g"
  shows "f = g"
  using tree_serialize [OF assms(1), of "weight f + weight g" "[]"] tree_serialize [OF assms(2), of "weight f + weight g" "[]"] assms(3)
  by simp

lemma wf_filter_for: "scope_ok parse s \<Longrightarrow> filter_for key s = Some f \<Longrightarrow> wf_filt f"
  by (auto simp: filter_for_def listScopeFilterFor_def scope_ok_def plain_def split: scope.splits if_splits)

section \<open>What a request admits\<close>

text \<open>A row: its columns as text, \<open>None\<close> for SQL null. \<open>ge x v\<close> is the server's comparison of a column's value with a
  literal; null compares as false.\<close>

type_synonym row = "string \<Rightarrow> string option"

fun admits :: "(string \<Rightarrow> string \<Rightarrow> bool) \<Rightarrow> row \<Rightarrow> filt \<Rightarrow> bool" where
  "admits ge row (Eq c v) = (row c = Some v)"
| "admits ge row (Gte c v) = (case row c of None \<Rightarrow> False | Some x \<Rightarrow> ge x v)"
| "admits ge row (Is_Null c) = (row c = None)"
| "admits ge row (In c vs) = (case row c of None \<Rightarrow> False | Some x \<Rightarrow> x \<in> set vs)"
| "admits ge row (And cs) = list_all (admits ge row) cs"
| "admits ge row (Or cs) = list_ex (admits ge row) cs"

text \<open>A clause on the wire; the text of an \<open>or\<close> parameter is parsed by the server, malformed text admits nothing.\<close>

definition clause_admits :: "(string \<Rightarrow> string \<Rightarrow> bool) \<Rightarrow> row \<Rightarrow> clause \<Rightarrow> bool" where
  "clause_admits ge row q = (case q of
     Q_Eq c v \<Rightarrow> admits ge row (Eq c v) | Q_Gte c v \<Rightarrow> admits ge row (Gte c v) | Q_Is_Null c \<Rightarrow> admits ge row (Is_Null c)
   | Q_In c vs \<Rightarrow> admits ge row (In c vs)
   | Q_Or text \<Rightarrow> (case trees (length text + 1) (text @ '')'') of Some (cs, []) \<Rightarrow> list_ex (admits ge row) cs | _ \<Rightarrow> False))"

definition query_admits :: "(string \<Rightarrow> string \<Rightarrow> bool) \<Rightarrow> row \<Rightarrow> clause list \<Rightarrow> bool" where
  "query_admits ge row q \<longleftrightarrow> list_all (clause_admits ge row) q"

lemma join_length: "sum_list (map length xs) \<le> length (join sep xs)"
  by (induction sep xs rule: join.induct) auto

lemma weight_length: "wf_filt f \<Longrightarrow> Suc (weight f) \<le> length (serializeFilter f)"
proof (induction f rule: wf_filt.induct)
  case (4 c vs)
  have "length vs \<le> sum_list (map length (map quoteValue vs))" by (induction vs) (simp_all add: quoteValue_def)
  with join_length [of "map quoteValue vs" "'',''"] show ?case by (simp add: quoteColumn_def)
next
  case (5 cs)
  have "sum_list (map (\<lambda>c. Suc (weight c)) cs) \<le> sum_list (map (\<lambda>c. length (serializeFilter c)) cs)"
    using 5 by (intro sum_list_mono) (auto simp: list_all_iff)
  with join_length [of "map serializeFilter cs" "'',''"] show ?case by (simp add: comp_def)
next
  case (6 cs)
  have "sum_list (map (\<lambda>c. Suc (weight c)) cs) \<le> sum_list (map (\<lambda>c. length (serializeFilter c)) cs)"
    using 6 by (intro sum_list_mono) (auto simp: list_all_iff)
  with join_length [of "map serializeFilter cs" "'',''"] show ?case by (simp add: comp_def)
qed (simp_all add: quoteColumn_def quoteValue_def)

lemma or_text_read:
  assumes "cs \<noteq> []" and "list_all wf_filt cs"
  shows "clause_admits ge row (Q_Or (join '','' (map serializeFilter cs))) = list_ex (admits ge row) cs"
proof -
  let ?t = "join '','' (map serializeFilter cs)"
  have "sum_list (map (\<lambda>c. Suc (weight c)) cs) \<le> sum_list (map (\<lambda>c. length (serializeFilter c)) cs)"
    using assms(2) by (intro sum_list_mono) (auto simp: list_all_iff weight_length)
  then have n: "sum_list (map (\<lambda>c. Suc (weight c)) cs) \<le> length ?t + 1" using join_length [of "map serializeFilter cs" "'',''"] by (simp add: comp_def)
  have "trees (length ?t + 1) (?t @ CHR '')'' # []) = Some (cs, [])"
    using assms(2) by (intro trees_join [OF assms(1) n] tree_serialize) (auto simp: list_all_iff)
  then show ?thesis by (simp add: clause_admits_def)
qed

lemma apply_node_admits:
  "wf_filt f \<Longrightarrow> query_admits ge row (apply_node q f) \<longleftrightarrow> query_admits ge row q \<and> admits ge row f"
proof (induction f arbitrary: q rule: wf_filt.induct)
  case (5 cs)
  have "query_admits ge row (foldl apply_node q ds) \<longleftrightarrow> query_admits ge row q \<and> list_all (admits ge row) ds"
    if "set ds \<subseteq> set cs" for ds q
    using that 5 by (induction ds arbitrary: q) (auto simp: list_all_iff)
  then show ?case by simp
next
  case (6 cs)
  then show ?case using or_text_read [of cs ge row] by (simp add: query_admits_def)
qed (simp_all add: query_admits_def clause_admits_def)

text \<open>The rule of the recorded decision, per collection: the open checklist for a fill, the assigned templates and the
  date floor for a list.\<close>

definition in_scope :: "(string \<Rightarrow> string \<Rightarrow> bool) \<Rightarrow> string \<Rightarrow> scope \<Rightarrow> row \<Rightarrow> bool" where
  "in_scope ge key s row =
     (case s of
        Fill_Scope u c t fs \<Rightarrow>
          (if key = ''templates'' then row ''id'' = Some t
           else if key = ''checklists'' then row ''id'' = Some c
           else if key = ''responses'' then
             row ''submission_id'' = Some c \<or> (row ''submission_id'' = None \<and> (\<exists>f \<in> set fs. row ''field_id'' = Some f))
           else row ''submission_id'' = Some c)
      | List_Scope u since ts \<Rightarrow>
          (let since_floor = (\<lambda>c. \<exists>x. row c = Some x \<and> ge x since)
           in if key = ''templates'' then \<exists>t \<in> set ts. row ''id'' = Some t
              else if key = ''checklists'' then (\<exists>t \<in> set ts. row ''template_id'' = Some t) \<and> since_floor ''submitted_at''
              else if key = ''responses'' then since_floor ''answered_at''
              else since_floor ''rejected_at''))"

lemma admits_filter_for:
  assumes "filter_for key s = Some f"
  shows "admits ge row f \<longleftrightarrow> in_scope ge key s row"
proof (cases s)
  case (List_Scope u since ts)
  with assms show ?thesis
    by (auto simp: filter_for_def listScopeFilterFor_def in_scope_def Let_def split: if_splits option.splits)
next
  case (Fill_Scope u c t fs)
  with assms show ?thesis
    by (auto simp: filter_for_def in_scope_def split: if_splits option.splits)
qed

lemma filter_for_replicated: "(key, c) \<in> set REPLICATED_COLLECTIONS \<Longrightarrow> \<exists>f. filter_for key s = Some f"
  by (auto simp: REPLICATED_COLLECTIONS_def filter_for_def listScopeFilterFor_def split: scope.split)

text \<open>C21: the pull asks for the scope, no more and no less. For every scope the client accepts and each replicated
  collection, the clauses added to a query, as PostgREST reads them back from the wire, admit exactly the rows the
  query admitted that lie in the scope, whatever characters the scope's values hold.\<close>
theorem pull_scope_exact:
  assumes "normalizeScope parse v = Inr s" and "(key, col) \<in> set REPLICATED_COLLECTIONS"
  shows "\<exists>build. makePullQueryBuilder parse key v = Inr build \<and>
    query_admits ge row (build q) = (query_admits ge row q \<and> in_scope ge key s row)"
proof -
  obtain f where f: "filter_for key s = Some f" using filter_for_replicated [OF assms(2)] by blast
  have ok: "scope_ok parse s" using normalize_ok [OF assms(1)] .
  obtain rt where "realtimeFilterFor parse key (scope_value s) = Inr rt"
    using normalize_value [OF ok] by (simp add: realtimeFilterFor_def)
  then have "makePullQueryBuilder parse key v = Inr (\<lambda>q. apply_node q f)"
    using plan_of [OF assms(1), of key] f by (simp add: makePullQueryBuilder_def)
  then show ?thesis using apply_node_admits [OF wf_filter_for [OF ok f]] admits_filter_for [OF f] by simp
qed

text \<open>C26: serializing loses nothing: the server's grammar reads a serialized filter back as the same filter, with any
  characters in its values, so a value can never become structure.\<close>
theorem filter_round_trip:
  assumes "wf_filt f"
  shows "tree (length (serializeFilter f)) (serializeFilter f @ rest) = Some (f, rest)"
  using tree_serialize [OF assms] weight_length [OF assms] by simp

section \<open>Checkpoint keys\<close>

lemma not_word_chars [simp]: "\<not> word_char (CHR '':'')" "\<not> word_char (CHR '','')" "\<not> word_char (CHR 0x00)"
  by (simp_all add: word_char_def is_digit_def Let_def)

lemma id_chars:
  assumes "SCOPE_ID_RE s"
  shows "CHR '':'' \<notin> set s" "CHR '','' \<notin> set s" "CHR 0x00 \<notin> set s"
proof -
  have "word_char c" if "c \<in> set s" for c using assms that by (simp add: SCOPE_ID_RE_def list_all_iff)
  then show "CHR '':'' \<notin> set s" "CHR '','' \<notin> set s" "CHR 0x00 \<notin> set s" using not_word_chars by blast+
qed

lemma split_at:
  assumes "c \<notin> set x" and "c \<notin> set x'" and "x @ c # y = x' @ c # y'"
  shows "x = x' \<and> y = y'"
proof -
  have "takeWhile (\<lambda>a. a \<noteq> c) (z @ c # w) = z" if "c \<notin> set z" for z w using that by (induction z) auto
  with assms have "x = x'" by metis
  with assms show ?thesis by simp
qed

lemma identity_no_nul: "scope_ok parse s \<Longrightarrow> CHR 0x00 \<notin> set (scopeIdentity s)"
  by (cases s) (simp_all add: scope_ok_def scopeIdentity_def id_chars)

definition same_person_and_view :: "scope \<Rightarrow> scope \<Rightarrow> bool" where
  "same_person_and_view a b \<longleftrightarrow> (case (a, b) of
     (List_Scope u _ _, List_Scope w _ _) \<Rightarrow> u = w
   | (Fill_Scope u c _ _, Fill_Scope w d _ _) \<Rightarrow> u = w \<and> c = d
   | _ \<Rightarrow> False)"

lemma identity_inj:
  assumes "scope_ok parse a" and "scope_ok parse b" and "scopeIdentity a = scopeIdentity b"
  shows "same_person_and_view a b"
proof (cases a)
  case (List_Scope u since ts)
  with assms show ?thesis by (cases b) (simp_all add: scopeIdentity_def same_person_and_view_def)
next
  case (Fill_Scope u c t fs)
  show ?thesis
  proof (cases b)
    case (Fill_Scope w d t' fs')
    have "u @ CHR '':'' # c = w @ CHR '':'' # d" using assms(3) \<open>a = Fill_Scope u c t fs\<close> Fill_Scope by (simp add: scopeIdentity_def)
    moreover have "CHR '':'' \<notin> set u" "CHR '':'' \<notin> set w"
      using assms(1,2) \<open>a = Fill_Scope u c t fs\<close> Fill_Scope by (simp_all add: scope_ok_def id_chars)
    ultimately have "u = w \<and> c = d" by (intro split_at)
    then show ?thesis using \<open>a = Fill_Scope u c t fs\<close> Fill_Scope by (simp add: same_person_and_view_def)
  next
    case (List_Scope w s' ts')
    then show ?thesis using assms(3) \<open>a = Fill_Scope u c t fs\<close> by (simp add: scopeIdentity_def)
  qed
qed

text \<open>a checkpoint is one person's one view. RxDB keys a checkpoint by the replication identifier, a hash of the scope's
  identity and its serialized filter. Two accepted scopes feed the hash the same text only if they are the same user's
  scope of the same shape (the same checklist for a fill) with the same filter, so no user resumes another's cursor.\<close>
theorem checkpoint_key_separates:
  assumes "normalizeScope parse v = Inr a" and "normalizeScope parse w = Inr b"
    and "filter_for key a = Some f" and "filter_for key b = Some g" and "fingerprint_input a f = fingerprint_input b g"
  shows "same_person_and_view a b \<and> f = g"
proof -
  have ok: "scope_ok parse a" "scope_ok parse b" using assms(1,2) normalize_ok by auto
  have "scopeIdentity a = scopeIdentity b \<and> serializeFilter f = serializeFilter g"
    using split_at [OF identity_no_nul [OF ok(1)] identity_no_nul [OF ok(2)]] assms(5) by (simp add: fingerprint_input_def)
  then show ?thesis
    using identity_inj [OF ok] serialize_inj [OF wf_filter_for [OF ok(1) assms(3)] wf_filter_for [OF ok(2) assms(4)]] by simp
qed

section \<open>The live subscription\<close>

text \<open>Realtime's filter: one \<open>column=op.value\<close> clause, a list in parentheses split at its commas.\<close>

fun split_commas :: "string \<Rightarrow> string list" where
  "split_commas [] = [[]]"
| "split_commas (c # cs) = (if c = CHR '','' then [] # split_commas cs
     else case split_commas cs of w # ws \<Rightarrow> (c # w) # ws | [] \<Rightarrow> [[c]])"

definition live_admits :: "(string \<Rightarrow> string \<Rightarrow> bool) \<Rightarrow> row \<Rightarrow> string \<Rightarrow> bool" where
  "live_admits ge row text =
     (let col = takeWhile (\<lambda>c. c \<noteq> CHR ''='') text;
          rest = drop (Suc (length col)) text;
          opr = takeWhile (\<lambda>c. c \<noteq> CHR ''.'') rest;
          val = drop (Suc (length opr)) rest
      in case row col of
           None \<Rightarrow> False
         | Some x \<Rightarrow>
             if opr = ''eq'' then x = val
             else if opr = ''gte'' then ge x val
             else if opr = ''in'' then x \<in> set (split_commas (butlast (tl val)))
             else False)"

lemma split_join:
  assumes "ts \<noteq> []" and "list_all (\<lambda>t. CHR '','' \<notin> set t) ts"
  shows "split_commas (join '','' ts) = ts"
proof -
  have one: "split_commas t = [t]" if "CHR '','' \<notin> set t" for t using that by (induction t) auto
  have step: "split_commas (t @ CHR '','' # r) = t # split_commas r" if "CHR '','' \<notin> set t" for t r
    using that by (induction t) auto
  show ?thesis using assms
  proof (induction "'',''" ts rule: join.induct)
    case (3 x y ys)
    then show ?case using step [of x "join '','' (y # ys)"] by simp
  qed (use one in auto)
qed

lemma ids_no_comma: "list_all SCOPE_ID_RE ts \<Longrightarrow> list_all (\<lambda>t. CHR '','' \<notin> set t) ts"
  by (auto simp: list_all_iff dest: id_chars(2))

lemma live_clause:
  assumes "CHR ''='' \<notin> set col" and "CHR ''.'' \<notin> set opr"
  shows "live_admits ge row (col @ CHR ''='' # opr @ CHR ''.'' # val) =
    (case row col of None \<Rightarrow> False | Some x \<Rightarrow>
       if opr = ''eq'' then x = val else if opr = ''gte'' then ge x val
       else if opr = ''in'' then x \<in> set (split_commas (butlast (tl val))) else False)"
proof -
  have c: "takeWhile (\<lambda>a. a \<noteq> c) (z @ c # w) = z" if "c \<notin> set z" for z w and c :: char using that by (induction z) auto
  have d: "drop (Suc (length z)) (z @ c # w) = w" for z w and c :: char by simp
  show ?thesis by (simp only: live_admits_def Let_def c [OF assms(1)] c [OF assms(2)] d)
qed

lemmas live_eval =
  live_clause [of "''id''" "''eq''", simplified] live_clause [of "''submission_id''" "''eq''", simplified]
  live_clause [of "''submitted_at''" "''gte''", simplified] live_clause [of "''rejected_at''" "''gte''", simplified]
  live_clause [of "''id''" "''in''", simplified]

lemma live_admits_scope:
  assumes "normalizeScope parse v = Inr s" and "realtimeFilterFor parse key v = Inr rt"
    and "(key, col) \<in> set REPLICATED_COLLECTIONS" and "in_scope ge key s row"
  shows "(case rt of None \<Rightarrow> key = ''responses'' | Some text \<Rightarrow> live_admits ge row text)"
proof -
  have ok: "scope_ok parse s" using normalize_ok [OF assms(1)] .
  show ?thesis
  proof (cases s)
    case (List_Scope u since ts)
    then have ts: "split_commas (join '','' ts) = ts" using ok by (simp add: scope_ok_def split_join ids_no_comma)
    have r: "rt = (if key = ''responses'' then None else if key = ''templates'' then Some (''id=in.('' @ join '','' ts @ '')'')
        else if key = ''checklists'' then Some (''submitted_at=gte.'' @ since)
        else if key = ''approvals'' then Some (''rejected_at=gte.'' @ since) else None)"
      using assms(1,2) by (cases "key = ''responses''") (simp_all add: realtimeFilterFor_def List_Scope)
    have e: "live_admits ge row (''id=in.('' @ join '','' ts @ '')'') = (case row ''id'' of None \<Rightarrow> False | Some x \<Rightarrow> x \<in> set ts)"
      by (cases "row ''id''") (simp_all add: live_eval ts butlast_append)
    have k: "key = ''templates'' \<or> key = ''checklists'' \<or> key = ''responses'' \<or> key = ''approvals''"
      using assms(3) by (auto simp: REPLICATED_COLLECTIONS_def)
    then show ?thesis
    proof (elim disjE)
      assume kk: "key = ''templates''"
      then have "\<exists>t \<in> set ts. row ''id'' = Some t" using assms(4) by (simp add: in_scope_def List_Scope)
      moreover have "rt = Some (''id=in.('' @ join '','' ts @ '')'')" by (simp add: r kk)
      ultimately show ?thesis using e by (auto simp del: append_Cons)
    next
      assume kk: "key = ''checklists''"
      with assms(4) have "\<exists>x. row ''submitted_at'' = Some x \<and> ge x since" by (simp add: in_scope_def List_Scope Let_def)
      then show ?thesis by (auto simp: r kk live_eval)
    next
      assume kk: "key = ''approvals''"
      with assms(4) have "\<exists>x. row ''rejected_at'' = Some x \<and> ge x since" by (simp add: in_scope_def List_Scope Let_def)
      then show ?thesis by (auto simp: r kk live_eval)
    qed (simp add: r)
  next
    case (Fill_Scope u c t fs)
    have r: "rt = (if key = ''responses'' then None else if key = ''templates'' then Some (''id=eq.'' @ t)
        else if key = ''checklists'' then Some (''id=eq.'' @ c)
        else if key = ''approvals'' then Some (''submission_id=eq.'' @ c) else None)"
      using assms(1,2) by (cases "key = ''responses''") (simp_all add: realtimeFilterFor_def Fill_Scope)
    have k: "key = ''templates'' \<or> key = ''checklists'' \<or> key = ''responses'' \<or> key = ''approvals''"
      using assms(3) by (auto simp: REPLICATED_COLLECTIONS_def)
    then show ?thesis
      using assms(4) by (elim disjE) (simp_all add: r live_eval in_scope_def Fill_Scope)
  qed
qed

text \<open>the live filter is a superset of the scope. Whatever clause a replication's subscription carries, every row the
  pull admits passes it; the responses' subscription carries none.\<close>
theorem live_filter_admits_pull:
  assumes "normalizeScope parse v = Inr s" and "realtimeFilterFor parse key v = Inr rt"
    and "(key, col) \<in> set REPLICATED_COLLECTIONS" and "in_scope ge key s row"
  shows "(case rt of None \<Rightarrow> key = ''responses'' | Some text \<Rightarrow> live_admits ge row text)"
  using assms by (rule live_admits_scope)

section \<open>The fingerprint\<close>

lemma hex_digit_in: "n < 16 \<Longrightarrow> hex_digit n \<in> set ''0123456789abcdef''"
  unfolding hex_digit_def by (rule nth_mem) simp

lemma toString16_hex: "n < 16 ^ Suc k \<Longrightarrow> length (toString16 n) \<le> Suc k \<and> set (toString16 n) \<subseteq> set ''0123456789abcdef''"
proof (induction k arbitrary: n)
  case 0
  then show ?case using hex_digit_in [of n] by (simp add: toString16.simps [of n])
next
  case (Suc k)
  have "n div 16 < 16 ^ Suc k" using Suc.prems by (simp add: less_mult_imp_div_less mult.commute)
  from Suc.IH [OF this] hex_digit_in [of n] hex_digit_in [of "n mod 16"] show ?case
    by (subst toString16.simps, subst (2) toString16.simps) auto
qed

lemma word_hex8:
  "length (padStart 8 (CHR ''0'') (toString16 (unat (x :: u32)))) = 8 \<and>
   set (padStart 8 (CHR ''0'') (toString16 (unat x))) \<subseteq> set ''0123456789abcdef''"
proof -
  have "unat x < 2 ^ LENGTH(32)" by (rule unsigned_less)
  then have "unat x < 16 ^ Suc 7" by simp
  from toString16_hex [OF this] show ?thesis by (auto simp: padStart_def)
qed

text \<open>every fingerprint is sixteen lowercase hex digits, so identifiers are of one length and one alphabet.\<close>
theorem fingerprint_hex16:
  "length (scopeFingerprint t) = 16 \<and> set (scopeFingerprint t) \<subseteq> set ''0123456789abcdef''"
proof (cases "foldl fnv_step (0x811c9dc5, 5381) t")
  case (Pair a b)
  then have s: "scopeFingerprint t = padStart 8 (CHR ''0'') (toString16 (unat a)) @ padStart 8 (CHR ''0'') (toString16 (unat b))"
    by (simp add: scopeFingerprint_def)
  show ?thesis unfolding s using word_hex8 [of a] word_hex8 [of b] by (simp add: subset_iff)
qed

section \<open>Witnesses\<close>

definition demo_fill :: json where
  "demo_fill = JObj [(''userId'', JStr ''ann''), (''checklistId'', JStr ''c1''), (''templateId'', JStr ''t1''), (''fieldIds'', JArr [JStr ''f1''])]"

definition demo_list :: json where
  "demo_list = JObj [(''mode'', JStr ''list''), (''userId'', JStr ''ann''), (''since'', JStr ''2026-08-01''), (''templateIds'', JArr [JStr ''t1'', JStr ''t2''])]"

lemma demo_fill_scope: "normalizeScope (\<lambda>_. Some 0) demo_fill = Inr (Fill_Scope ''ann'' ''c1'' ''t1'' [''f1''])"
  by code_simp

lemma demo_list_scope: "normalizeScope (\<lambda>_. Some 0) demo_list = Inr (List_Scope ''ann'' ''2026-08-01'' [''t1'', ''t2''])"
  by code_simp

theorem pull_scope_exact_witness:
  "\<exists>build. makePullQueryBuilder (\<lambda>_. Some 0) ''responses'' demo_fill = Inr build \<and>
     query_admits (\<lambda>_ _. True) (\<lambda>c. if c = ''field_id'' then Some ''f1'' else None) (build [])"
  using pull_scope_exact [OF demo_fill_scope, of "''responses''" responses "\<lambda>_ _. True" "\<lambda>c. if c = ''field_id'' then Some ''f1'' else None" "[]"]
  by (auto simp: REPLICATED_COLLECTIONS_def in_scope_def query_admits_def)

theorem filter_round_trip_witness:
  "tree (length (serializeFilter (Eq ''id'' ''x,\"(''))) (serializeFilter (Eq ''id'' ''x,\"('') @ '',rest'') = Some (Eq ''id'' ''x,\"('', '',rest'')"
  by (rule filter_round_trip) (simp add: plain_def)

theorem checkpoint_key_separates_witness:
  "same_person_and_view (Fill_Scope ''ann'' ''c1'' ''t1'' [''f1'']) (Fill_Scope ''ann'' ''c1'' ''t1'' [''f1''])"
  using checkpoint_key_separates [OF demo_fill_scope demo_fill_scope, of "''templates''" "Eq ''id'' ''t1''" "Eq ''id'' ''t1''"]
  by (simp add: filter_for_def)

theorem live_filter_admits_pull_witness:
  "live_admits (\<lambda>_ _. True) (\<lambda>c. Some ''t2'') ''id=in.(t1,t2)''"
proof -
  have "realtimeFilterFor (\<lambda>_. Some 0) ''templates'' demo_list = Inr (Some ''id=in.(t1,t2)'')"
    using demo_list_scope by (simp add: realtimeFilterFor_def)
  from live_filter_admits_pull [OF demo_list_scope this, of templates "\<lambda>_ _. True" "\<lambda>c. Some ''t2''"] show ?thesis
    by (simp add: REPLICATED_COLLECTIONS_def in_scope_def)
qed

end
