(* ===== verification/ConflictNotice.thy ===== *)
theory ConflictNotice
  imports Complex_Main "HOL-Library.Char_ord" "HOL-Library.List_Lexorder" ConflictHandler SyncCollections SubmitSupport
begin

text \<open>
  \<^verbatim>\<open>sync-rxdb/conflict-notice.js\<close>: the model half of the overwritten-answers screen. A durable record is a JSON
  object, a frozen template snapshot a graph of objects that may share, loop and throw; the sheet, its groups, its rows
  and the banner are records. What the browser decides (dates, collation, printing a number) is \<open>env\<close>.
\<close>

section \<open>Constants and the environment\<close>

definition RETENTION_DAYS :: int where "RETENTION_DAYS = CONFLICT_RECORD_RETENTION_DAYS"
definition MAX_GROUPS :: nat where "MAX_GROUPS = 10"
definition COLLAPSE_MAX_ROWS_PER_GROUP :: nat where "COLLAPSE_MAX_ROWS_PER_GROUP = 2"
definition MS_PER_DAY :: ms where "MS_PER_DAY = 86400000"
definition MAX_SNAPSHOT_DEPTH :: nat where "MAX_SNAPSHOT_DEPTH = 8"
definition MAX_SNAPSHOT_NODES :: int where "MAX_SNAPSHOT_NODES = 20000"
definition MAX_VALUE_UNWRAP_DEPTH :: nat where "MAX_VALUE_UNWRAP_DEPTH = 8"

text \<open>\<open>Date.parse\<close>, \<open>toLocaleTimeString\<close> and \<open>toLocaleDateString\<close> in a zone (which may throw), \<open>localeCompare\<close>, and
  \<open>String\<close> of a number, an array or an object.\<close>

record env =
  parse_date :: "string \<Rightarrow> ms option"
  clock_text :: "string \<Rightarrow> ms \<Rightarrow> string option"
  day_text :: "string \<Rightarrow> ms \<Rightarrow> string option"
  localeCompare :: "string \<Rightarrow> string \<Rightarrow> int"
  text_of :: "json \<Rightarrow> string"

definition String_of :: "env \<Rightarrow> json \<Rightarrow> string" where
  "String_of E v = (case v of
     JStr s \<Rightarrow> s | JUndef \<Rightarrow> ''undefined'' | JNull \<Rightarrow> ''null'' | JBool b \<Rightarrow> (if b then ''true'' else ''false'') | _ \<Rightarrow> text_of E v)"

text \<open>\<open>new Date(v).getTime()\<close>; \<open>None\<close> is NaN.\<close>

definition time_of :: "env \<Rightarrow> json \<Rightarrow> ms option" where
  "time_of E v = (case v of
     JUndef \<Rightarrow> None
   | JNull \<Rightarrow> Some 0
   | JBool b \<Rightarrow> Some (if b then 1 else 0)
   | JNum n \<Rightarrow> if \<bar>n\<bar> \<le> 8640000000000000 then Some (if n < 0 then \<lceil>n\<rceil> else \<lfloor>n\<rfloor>) else None
   | JStr s \<Rightarrow> parse_date E s
   | _ \<Rightarrow> parse_date E (text_of E v))"

definition get :: "json \<Rightarrow> string \<Rightarrow> json" where
  "get v k = (case v of JObj d \<Rightarrow> field d k | _ \<Rightarrow> JUndef)"

text \<open>\<open>typeof v === 'string' && v.trim() !== '' ? v.trim() : null\<close>.\<close>

definition trimmed :: "json \<Rightarrow> string option" where
  "trimmed v = (case v of JStr s \<Rightarrow> if trim s \<noteq> [] then Some (trim s) else None | _ \<Rightarrow> None)"

section \<open>The frozen label\<close>

text \<open>A snapshot is whatever was stored: a reference into a heap whose accessors may throw (\<open>None\<close>).\<close>

datatype ref = Prim json | Obj nat | Arr nat

record heap =
  objs :: "nat \<Rightarrow> string \<Rightarrow> ref option"
  arrs :: "nat \<Rightarrow> ref list"

record found_field =
  ff_label :: ref
  ff_type :: ref

record walk =
  budget :: int
  seen :: "nat list"

definition spend :: "walk \<Rightarrow> walk" where "spend w = w\<lparr>budget := budget w - 1\<rparr>"
definition visit :: "nat \<Rightarrow> walk \<Rightarrow> walk" where "visit a w = w\<lparr>seen := a # seen w\<rparr>"

function walkFields :: "heap \<Rightarrow> string \<Rightarrow> nat \<Rightarrow> ref list \<Rightarrow> walk \<Rightarrow> found_field option \<times> walk" where
  "walkFields h fid depth [] w = (None, w)"
| "walkFields h fid depth (f # fs) w =
     (if budget w \<le> 0 then (None, spend w)
      else case f of
        Obj a \<Rightarrow>
          if a \<in> set (seen w) then walkFields h fid depth fs (spend w)
          else (case (objs h a ''id'', objs h a ''label'', objs h a ''type'') of
            (Some i, Some l, Some t) \<Rightarrow>
              if i = Prim (JStr fid) then (Some \<lparr>ff_label = l, ff_type = t\<rparr>, visit a (spend w))
              else (case objs h a ''sub_steps'' of
                Some (Arr b) \<Rightarrow>
                  if depth + 1 > MAX_SNAPSHOT_DEPTH then walkFields h fid depth fs (visit a (spend w))
                  else (case walkFields h fid (depth + 1) (arrs h b) (visit a (spend w)) of
                    (Some hit, w') \<Rightarrow> (Some hit, w')
                  | (None, w') \<Rightarrow> walkFields h fid depth fs w')
              | _ \<Rightarrow> walkFields h fid depth fs (visit a (spend w)))
          | _ \<Rightarrow> walkFields h fid depth fs (visit a (spend w)))
      | _ \<Rightarrow> walkFields h fid depth fs (spend w))"
  by pat_completeness auto

termination walkFields
  by (relation "inv_image (less_than <*lex*> less_than) (\<lambda>(h, fid, depth, fs, w). (MAX_SNAPSHOT_DEPTH - depth, length fs))") auto

text \<open>The loop over the sections; a throwing \<open>fields\<close> ends the whole lookup.\<close>

fun walkSections :: "heap \<Rightarrow> string \<Rightarrow> ref list \<Rightarrow> walk \<Rightarrow> found_field option \<times> walk" where
  "walkSections h fid [] w = (None, w)"
| "walkSections h fid (s # ss) w =
     (if budget w \<le> 0 then (None, spend w)
      else case s of
        Obj a \<Rightarrow>
          if a \<in> set (seen w) then walkSections h fid ss (spend w)
          else (case objs h a ''fields'' of
            None \<Rightarrow> (None, visit a (spend w))
          | Some (Arr b) \<Rightarrow>
              (case walkFields h fid 1 (arrs h b) (visit a (spend w)) of
                (Some hit, w') \<Rightarrow> (Some hit, w')
              | (None, w') \<Rightarrow> walkSections h fid ss w')
          | Some _ \<Rightarrow> walkSections h fid ss (visit a (spend w)))
      | _ \<Rightarrow> walkSections h fid ss (spend w))"

definition start_walk :: walk where "start_walk = \<lparr>budget = MAX_SNAPSHOT_NODES, seen = []\<rparr>"

definition findFieldInSnapshot :: "heap \<Rightarrow> ref \<Rightarrow> json \<Rightarrow> found_field option" where
  "findFieldInSnapshot h snapshot fieldId = (case (fieldId, snapshot) of
     (JStr fid, Obj a) \<Rightarrow>
       if fid = [] then None
       else (case objs h a ''sections'' of Some (Arr b) \<Rightarrow> fst (walkSections h fid (arrs h b) start_walk) | _ \<Rightarrow> None)
   | _ \<Rightarrow> None)"

definition label_text :: "ref \<Rightarrow> string option" where
  "label_text r = (case r of Prim (JStr s) \<Rightarrow> if trim s \<noteq> [] then Some s else None | _ \<Rightarrow> None)"

definition fieldLabelFromSnapshot :: "heap \<Rightarrow> ref \<Rightarrow> json \<Rightarrow> string option" where
  "fieldLabelFromSnapshot h snapshot fieldId =
     (case findFieldInSnapshot h snapshot fieldId of None \<Rightarrow> None | Some f \<Rightarrow> label_text (ff_label f))"

section \<open>Records and rows\<close>

definition recordIdFor :: "env \<Rightarrow> json \<Rightarrow> json \<Rightarrow> string" where
  "recordIdFor E docId fieldId = String_of E (js_or docId (JStr [])) @ ''::'' @ String_of E (js_or fieldId (JStr []))"

datatype kind = KIND_ANSWER | KIND_REMOVED | KIND_UNIDENTIFIED

definition rowKind :: "json \<Rightarrow> kind" where
  "rowKind r = (if \<not> truthy r then KIND_UNIDENTIFIED
     else if get r ''discarded_value'' = JNull \<or> get r ''discarded_value'' = JUndef then KIND_UNIDENTIFIED
     else if truthy (get r ''field_removed'') then KIND_REMOVED else KIND_ANSWER)"

definition isHandled :: "json \<Rightarrow> bool" where
  "isHandled r \<longleftrightarrow> get r ''status'' = JStr ''restored'' \<or> get r ''status'' = JStr ''kept''"

definition isBatchTarget :: "json \<Rightarrow> bool" where
  "isBatchTarget r \<longleftrightarrow> rowKind r = KIND_ANSWER \<and> \<not> isHandled r"

text \<open>A value as shown: the dash, the two words, a figure or words with a unit after a no-break space, words in curly
  quotes, or the JSON text of what is not a bundle. Stored values are finite JSON, on which \<open>JSON.stringify\<close> returns.\<close>

datatype shown = Dash | Yes | No | Figure rat "string option" | Words string "string option" | Curly string | Json_Text json

definition FREE_TEXT_TYPES :: "string list" where
  "FREE_TEXT_TYPES = [''text'', ''textarea'', ''note'', ''longtext'']"

record value_opts =
  vo_type :: json
  vo_unit :: json

definition unit_of :: "value_opts \<Rightarrow> string option" where
  "unit_of vo = (case vo_unit vo of JStr u \<Rightarrow> if u \<noteq> [] then Some u else None | _ \<Rightarrow> None)"

definition lower_char :: "char \<Rightarrow> char" where
  "lower_char c = (if CHR ''A'' \<le> c \<and> c \<le> CHR ''Z'' then char_of ((of_char c :: nat) + 32) else c)"

definition show_string :: "value_opts \<Rightarrow> string \<Rightarrow> shown" where
  "show_string vo s = (let t = trim s in
     if t = [] then Dash
     else if map lower_char t = ''yes'' then Yes
     else if map lower_char t = ''no'' then No
     else if vo_type vo \<in> JStr ` set FREE_TEXT_TYPES then Curly t
     else Words t (unit_of vo))"

function formatValueAt :: "json \<Rightarrow> value_opts \<Rightarrow> nat \<Rightarrow> shown" where
  "formatValueAt v vo depth = (case v of
     JNull \<Rightarrow> Dash
   | JUndef \<Rightarrow> Dash
   | JBool b \<Rightarrow> if b then Yes else No
   | JNum n \<Rightarrow> Figure n (unit_of vo)
   | JStr s \<Rightarrow> if s = [] then Dash else show_string vo s
   | JObj d \<Rightarrow>
       if depth < MAX_VALUE_UNWRAP_DEPTH \<and> has_field d ''_v'' then formatValueAt (field d ''_v'') vo (depth + 1)
       else if depth < MAX_VALUE_UNWRAP_DEPTH \<and> has_field d ''value'' then formatValueAt (field d ''value'') vo (depth + 1)
       else Json_Text v
   | JArr xs \<Rightarrow> Json_Text v)"
  by pat_completeness auto

termination formatValueAt
  by (relation "measure (\<lambda>(v, vo, depth). MAX_VALUE_UNWRAP_DEPTH - depth)") auto

declare formatValueAt.simps [simp del]

definition formatValue :: "json \<Rightarrow> value_opts \<Rightarrow> shown" where
  "formatValue v vo = formatValueAt v vo 0"

section \<open>Attribution and retention\<close>

record sheet_opts =
  so_now :: "ms option"
  so_retentionDays :: "int option"
  so_maxGroups :: "nat option"
  so_timeZone :: "string option"
  so_heap :: heap
  so_snapshots :: "json \<Rightarrow> ref"

definition zone_of :: "sheet_opts \<Rightarrow> string" where
  "zone_of opt = (case so_timeZone opt of None \<Rightarrow> ''America/New_York'' | Some z \<Rightarrow> if z = [] then ''America/New_York'' else z)"

definition when_text :: "(string \<Rightarrow> ms \<Rightarrow> string option) \<Rightarrow> env \<Rightarrow> json \<Rightarrow> sheet_opts \<Rightarrow> string" where
  "when_text f E v opt = (if \<not> truthy v then []
     else case time_of E v of None \<Rightarrow> [] | Some t \<Rightarrow> (case f (zone_of opt) t of None \<Rightarrow> [] | Some s \<Rightarrow> s))"

definition formatClock :: "env \<Rightarrow> json \<Rightarrow> sheet_opts \<Rightarrow> string" where
  "formatClock E v opt = when_text (clock_text E) E v opt"

definition formatDay :: "env \<Rightarrow> json \<Rightarrow> sheet_opts \<Rightarrow> string" where
  "formatDay E v opt = when_text (day_text E) E v opt"

definition formatWho :: "env \<Rightarrow> json \<Rightarrow> json \<Rightarrow> sheet_opts \<Rightarrow> string" where
  "formatWho E nm v opt =
     (let who = (case trimmed nm of Some w \<Rightarrow> w | None \<Rightarrow> ''someone else''); time = formatClock E v opt
      in if time \<noteq> [] then who @ '', '' @ time else who)"

definition days_of :: "sheet_opts \<Rightarrow> int" where
  "days_of opt = (case so_retentionDays opt of Some n \<Rightarrow> n | None \<Rightarrow> RETENTION_DAYS)"

definition in_window :: "env \<Rightarrow> sheet_opts \<Rightarrow> json \<Rightarrow> bool" where
  "in_window E opt r \<longleftrightarrow> truthy r \<and> (case time_of E (get r ''overwritten_at'') of
     None \<Rightarrow> True
   | Some t \<Rightarrow> (case so_now opt of None \<Rightarrow> False | Some now \<Rightarrow> now - days_of opt * MS_PER_DAY \<le> t))"

text \<open>\<open>Array.isArray(records) ? records : []\<close>.\<close>

definition withinRetention :: "env \<Rightarrow> json \<Rightarrow> sheet_opts \<Rightarrow> json list" where
  "withinRetention E records opt = filter (in_window E opt) (case records of JArr rs \<Rightarrow> rs | _ \<Rightarrow> [])"

section \<open>The sheet\<close>

datatype label_source = Snapshot | Fallback

record row =
  r_id :: json
  r_docId :: json
  r_fieldId :: json
  r_kind :: kind
  r_labelSource :: label_source
  r_label :: json
  r_yours :: "shown option"
  r_rawDiscarded :: json
  r_theirs :: shown
  r_hasTheirs :: bool
  r_whoName :: "string option"
  r_whoTime :: string
  r_who :: string
  r_status :: json
  r_handled :: bool
  r_undone :: bool
  r_failure :: json
  r_isBatchTarget :: bool
  r_expanded :: bool

definition row_label :: "found_field option \<Rightarrow> json \<Rightarrow> string option" where
  "row_label found r = (case Option.bind found (\<lambda>f. map_option trim (label_text (ff_label f))) of
     Some l \<Rightarrow> Some l | None \<Rightarrow> trimmed (get r ''field_label''))"

definition row_type :: "found_field option \<Rightarrow> json \<Rightarrow> json" where
  "row_type found r = (case found of
     Some f \<Rightarrow> (case ff_type f of Prim (JStr t) \<Rightarrow> js_or (JStr t) (get r ''field_type'') | _ \<Rightarrow> get r ''field_type'')
   | None \<Rightarrow> get r ''field_type'')"

definition buildRow :: "env \<Rightarrow> sheet_opts \<Rightarrow> json \<Rightarrow> row" where
  "buildRow E opt r =
     (let kind = rowKind r;
          found = findFieldInSnapshot (so_heap opt) (so_snapshots opt (get r ''submission_id'')) (get r ''field_id'');
          label = row_label found r;
          vopts = \<lparr>vo_type = row_type found r, vo_unit = get r ''display_unit''\<rparr>
      in \<lparr>r_id = get r ''id'', r_docId = js_or (get r ''doc_id'') (get r ''submission_id''), r_fieldId = get r ''field_id'',
          r_kind = kind, r_labelSource = (if label = None then Fallback else Snapshot),
          r_label = (if kind = KIND_UNIDENTIFIED then JStr ''A change we couldn't identify''
                     else case label of Some l \<Rightarrow> JStr l | None \<Rightarrow> get r ''field_id''),
          r_yours = (if kind = KIND_UNIDENTIFIED then None else Some (formatValue (get r ''discarded_value'') vopts)),
          r_rawDiscarded = get r ''discarded_value'', r_theirs = formatValue (get r ''current_value'') vopts,
          r_hasTheirs = (get r ''current_value'' \<noteq> JUndef), r_whoName = trimmed (get r ''overwritten_by_name''),
          r_whoTime = formatClock E (get r ''overwritten_at'') opt,
          r_who = formatWho E (get r ''overwritten_by_name'') (get r ''overwritten_at'') opt,
          r_status = js_or (get r ''status'') (JStr ''open''), r_handled = isHandled r, r_undone = truthy (get r ''undone''),
          r_failure = js_or (get r ''failure'') JNull, r_isBatchTarget = isBatchTarget r, r_expanded = False\<rparr>)"

text \<open>The batch's attribution. A range is joined by an en dash.\<close>

datatype time_range = No_Range | One_Time string | Span string string

definition batchAttribution :: "row list \<Rightarrow> string \<times> time_range" where
  "batchAttribution targets =
     (let names = remdups (List.map_filter r_whoName targets);
          times = filter (\<lambda>t. t \<noteq> []) (map r_whoTime targets);
          who = (case names of [n] \<Rightarrow> n | [] \<Rightarrow> ''someone else'' | _ \<Rightarrow> ''others'');
          range = (if times = [] then No_Range
                   else if length times = 1 \<or> hd times = last times then One_Time (hd times)
                   else let a = hd times; b = last times; tail = (\<lambda>s. drop (length s - 2) s)
                        in if tail a = tail b then Span (take (length a - 3) a) b else Span a b)
      in (who, range))"

text \<open>\<open>Array.prototype.sort\<close> is stable; so is an insertion sort from the right.\<close>

fun insert_by :: "('a \<Rightarrow> 'a \<Rightarrow> int) \<Rightarrow> 'a \<Rightarrow> 'a list \<Rightarrow> 'a list" where
  "insert_by cmp x [] = [x]"
| "insert_by cmp x (y # ys) = (if cmp x y \<le> 0 then x # y # ys else y # insert_by cmp x ys)"

definition sort_by :: "('a \<Rightarrow> 'a \<Rightarrow> int) \<Rightarrow> 'a list \<Rightarrow> 'a list" where
  "sort_by cmp xs = foldr (insert_by cmp) xs []"

text \<open>A \<open>Map\<close> of lists keeps its keys in the order of their first entry.\<close>

fun add_group :: "'k \<Rightarrow> 'v \<Rightarrow> ('k \<times> 'v list) list \<Rightarrow> ('k \<times> 'v list) list" where
  "add_group k v [] = [(k, [v])]"
| "add_group k v ((j, vs) # gs) = (if j = k then (j, vs @ [v]) # gs else (j, vs) # add_group k v gs)"

definition group_by :: "('v \<Rightarrow> 'k) \<Rightarrow> 'v list \<Rightarrow> ('k \<times> 'v list) list" where
  "group_by key vs = foldl (\<lambda>gs v. add_group (key v) v gs) [] vs"

fun dec :: "nat \<Rightarrow> string" where
  "dec n = (if n < 10 then [char_of (48 + n)] else dec (n div 10) @ [char_of (48 + n mod 10)])"

declare dec.simps [simp del]

definition DOC_CHIP_SIGNIFICANT :: nat where "DOC_CHIP_SIGNIFICANT = 6"

definition strip_sub :: "string \<Rightarrow> string" where
  "strip_sub s = (if map lower_char (take 3 s) = ''sub'' \<and> take 1 (drop 3 s) \<in> {''-'', ''_''} then drop 4 s else s)"

definition shortDocId :: "string \<Rightarrow> string" where
  "shortDocId s = (if length s \<le> 12 then s
     else ''sub_'' @ take DOC_CHIP_SIGNIFICANT (filter (\<lambda>c. c \<noteq> CHR ''-'') (strip_sub s)))"

definition MIDDLE_DOT :: char where "MIDDLE_DOT = CHR 0xB7"

definition ordinal_chip :: "string \<Rightarrow> nat \<Rightarrow> string" where
  "ordinal_chip chip i = (if i = 0 then chip else chip @ [MIDDLE_DOT] @ dec (i + 1))"

definition doc_text :: "env \<Rightarrow> json \<Rightarrow> string" where
  "doc_text E d = (if d = JNull \<or> d = JUndef then [] else String_of E d)"

definition assignDocChips :: "env \<Rightarrow> json list \<Rightarrow> (string \<times> string) list" where
  "assignDocChips E docIds =
     concat (map (\<lambda>(chip, sharers). map (\<lambda>(i, s). (s, ordinal_chip chip i)) (enumerate 0 (sort sharers)))
       (group_by shortDocId (remdups (map (doc_text E) docIds))))"

record group =
  g_docId :: json
  g_name :: json
  g_day :: json
  g_docChip :: string
  g_chipBase :: nat
  g_chipPlus :: nat
  g_rows :: "row list"
  g_batchCount :: nat
  g_batchIds :: "json list"
  g_batchWho :: string
  g_batchRange :: time_range
  g_newest :: string

definition stamp_text :: "env \<Rightarrow> json \<Rightarrow> string" where
  "stamp_text E r = String_of E (get r ''overwritten_at'')"

definition build_group :: "env \<Rightarrow> sheet_opts \<Rightarrow> json \<times> json list \<Rightarrow> group" where
  "build_group E opt = (\<lambda>(docId, recs0).
     let recs = sort_by (\<lambda>a b. localeCompare E (stamp_text E a) (stamp_text E b)) recs0;
         rows = map (buildRow E opt) recs;
         answers = filter (\<lambda>r. r_kind r \<noteq> KIND_UNIDENTIFIED) rows;
         extras = filter (\<lambda>r. r_kind r = KIND_UNIDENTIFIED) rows;
         targets = filter r_isBatchTarget rows;
         first = (case recs of r # _ \<Rightarrow> r | [] \<Rightarrow> JObj [])
     in \<lparr>g_docId = docId, g_name = js_or (get first ''checklist_name'') (JStr ''Checklist''),
         g_day = js_or (get first ''checklist_date'') (JStr (formatDay E (get first ''overwritten_at'') opt)), g_docChip = [],
         g_chipBase = length answers, g_chipPlus = length extras, g_rows = rows, g_batchCount = length targets,
         g_batchIds = map r_id targets, g_batchWho = fst (batchAttribution targets), g_batchRange = snd (batchAttribution targets),
         g_newest = foldl (\<lambda>acc r. if acc < stamp_text E r then stamp_text E r else acc) [] recs\<rparr>)"

record sheet_totals =
  t_answers :: nat
  t_still :: nat
  t_handled :: nat
  t_unidentified :: nat
  t_checklists :: nat

datatype sheet_status = Empty | Ready

record sheet_model =
  m_status :: sheet_status
  m_retentionDays :: int
  m_totals :: sheet_totals
  m_groups :: "group list"
  m_hiddenGroups :: nat
  m_hiddenAnswers :: nat
  m_collapsed :: bool

definition group_key :: "json \<Rightarrow> json" where
  "group_key r = js_or (get r ''doc_id'') (js_or (get r ''submission_id'') (get r ''id''))"

definition sheet_groups :: "env \<Rightarrow> sheet_opts \<Rightarrow> json list \<Rightarrow> group list" where
  "sheet_groups E opt live =
     (let groups = map (build_group E opt) (group_by group_key live);
          chips = assignDocChips E (map g_docId groups)
      in map (\<lambda>g. g\<lparr>g_docChip := (case map_of chips (doc_text E (g_docId g)) of Some c \<Rightarrow> c | None \<Rightarrow> [])\<rparr>) groups)"

definition sheet_totals_of :: "group list \<Rightarrow> sheet_totals" where
  "sheet_totals_of groups =
     (let allRows = concat (map g_rows groups);
          answerRows = filter (\<lambda>r. r_kind r \<noteq> KIND_UNIDENTIFIED) allRows
      in \<lparr>t_answers = length answerRows, t_still = length (filter (\<lambda>r. \<not> r_handled r) answerRows),
          t_handled = length (filter r_handled answerRows), t_unidentified = length allRows - length answerRows,
          t_checklists = length groups\<rparr>)"

definition buildSheetModel :: "env \<Rightarrow> json \<Rightarrow> sheet_opts \<Rightarrow> sheet_model" where
  "buildSheetModel E records opt =
     (let maxGroups = (case so_maxGroups opt of Some n \<Rightarrow> n | None \<Rightarrow> MAX_GROUPS);
          live = withinRetention E records opt;
          groups = sort_by (\<lambda>a b. localeCompare E (g_newest b) (g_newest a)) (sheet_groups E opt live);
          shown = sort_by (\<lambda>a b. localeCompare E (g_newest a) (g_newest b)) (take maxGroups groups);
          hidden = drop maxGroups groups
      in \<lparr>m_status = (if live = [] then Empty else Ready), m_retentionDays = days_of opt, m_totals = sheet_totals_of groups,
          m_groups = shown, m_hiddenGroups = length hidden,
          m_hiddenAnswers = sum_list (map (\<lambda>g. g_chipBase g + g_chipPlus g) hidden),
          m_collapsed = (1 < length groups \<or> list_ex (\<lambda>g. COLLAPSE_MAX_ROWS_PER_GROUP < length (g_rows g)) groups)\<rparr>)"

section \<open>The banner\<close>

datatype open_line = Open_Line string | Lead_Hand string string

record banner =
  b_headline :: string
  b_open :: open_line
  b_unid :: "string option"
  b_cause :: string

definition bannerModel :: "sheet_model option \<Rightarrow> banner option" where
  "bannerModel m = (case m of
     None \<Rightarrow> None
   | Some model \<Rightarrow>
       if m_status model \<noteq> Ready then None
       else let t = m_totals model in
         if t_answers t = 0 \<and> t_unidentified t = 0 then None
         else Some
           \<lparr>b_headline = (if t_answers t = 1 then ''1 answer was overwritten'' else dec (t_answers t) @ '' answers were overwritten''),
            b_open = (if t_answers t = 0 then Open_Line ''Nothing of yours to review''
                      else if t_still t = 0 then Open_Line (''All '' @ dec (t_answers t) @ '' reviewed'')
                      else if t_handled t = 0 then Open_Line (dec (t_still t) @ '' still to review'')
                      else Lead_Hand (dec (t_still t) @ '' still to review'') ([MIDDLE_DOT] @ '' '' @ dec (t_handled t) @ '' handled'')),
            b_unid = (if t_unidentified t = 0 then None
                      else if t_unidentified t = 1 then Some ''+ 1 change we couldn't identify''
                      else Some (''+ '' @ dec (t_unidentified t) @ '' changes we couldn't identify'')),
            b_cause = (if 1 < t_checklists t then ''Across '' @ dec (t_checklists t) @ '' checklists, while you were offline.''
                       else ''Someone edited them while your phone was offline.'')\<rparr>)"

section \<open>The durable store\<close>

definition recordFromClash :: "env \<Rightarrow> string \<Rightarrow> conflict_row \<Rightarrow> clash \<Rightarrow> doc \<Rightarrow> doc" where
  "recordFromClash E now described c ctx =
     [(''id'', JStr (recordIdFor E (row_id described) (JStr (clash_field c)))),
      (''doc_id'', JStr (String_of E (js_or (row_id described) (JStr [])))),
      (''collection'', js_or (field ctx ''collection'') JNull),
      (''submission_id'', js_or (field ctx ''submissionId'') (js_or (field (row_master described) ''submission_id'') JNull)),
      (''field_id'', JStr (clash_field c)),
      (''field_label'', js_or (field ctx ''fieldLabel'') JNull),
      (''field_type'', js_or (field ctx ''fieldType'') JNull),
      (''display_unit'', js_or (field ctx ''displayUnit'') JNull),
      (''field_removed'', JBool (truthy (field ctx ''fieldRemoved''))),
      (''checklist_name'', js_or (field ctx ''checklistName'') JNull),
      (''checklist_date'', js_or (field ctx ''checklistDate'') JNull),
      (''discarded_value'', or_null (discarded c)),
      (''current_value'', or_null (winner c)),
      (''overwritten_by'', js_or (winnerActor described) JNull),
      (''overwritten_by_name'', js_or (field ctx ''actorName'') JNull),
      (''overwritten_at'', js_or (winnerAt described) (js_or (field ctx ''now'') (JStr now))),
      (''status'', JStr ''open''),
      (''undone'', JBool False),
      (''failure'', JNull)]"

definition recordsFromConflict :: "env \<Rightarrow> string \<Rightarrow> conflict_row option \<Rightarrow> doc \<Rightarrow> doc list" where
  "recordsFromConflict E now described ctx =
     (case described of None \<Rightarrow> [] | Some d \<Rightarrow> map (\<lambda>c. recordFromClash E now d c ctx) (row_clashes d))"

text \<open>The array-backed store: its rows, its subscribers in the order they came, and what each was last handed.\<close>

record mem_store =
  ms_rows :: "doc list"
  ms_subs :: "nat list"
  ms_sent :: "(nat \<times> doc list) list"

definition createMemoryConflictStore :: "doc list \<Rightarrow> mem_store" where
  "createMemoryConflictStore seed = \<lparr>ms_rows = seed, ms_subs = [], ms_sent = []\<rparr>"

definition ms_emit :: "mem_store \<Rightarrow> mem_store" where
  "ms_emit s = s\<lparr>ms_sent := ms_sent s @ map (\<lambda>u. (u, ms_rows s)) (ms_subs s)\<rparr>"

definition spread :: "doc \<Rightarrow> doc \<Rightarrow> doc" where
  "spread d patch = foldl (\<lambda>d (k, v). set_field d k v) d patch"

fun replace_first :: "(doc \<Rightarrow> bool) \<Rightarrow> (doc \<Rightarrow> doc) \<Rightarrow> doc list \<Rightarrow> doc list option" where
  "replace_first P f [] = None"
| "replace_first P f (d # ds) = (if P d then Some (f d # ds) else map_option ((#) d) (replace_first P f ds))"

definition mem_all :: "mem_store \<Rightarrow> doc list" where "mem_all s = ms_rows s"

definition mem_upsert :: "doc \<Rightarrow> mem_store \<Rightarrow> mem_store" where
  "mem_upsert r s = ms_emit (case replace_first (\<lambda>d. field d ''id'' = field r ''id'') (\<lambda>_. r) (ms_rows s) of
     Some rows \<Rightarrow> s\<lparr>ms_rows := rows\<rparr>
   | None \<Rightarrow> s\<lparr>ms_rows := ms_rows s @ [r]\<rparr>)"

definition mem_patch :: "json \<Rightarrow> doc \<Rightarrow> mem_store \<Rightarrow> mem_store" where
  "mem_patch i patch s = (case replace_first (\<lambda>d. field d ''id'' = i) (\<lambda>d. spread d patch) (ms_rows s) of
     Some rows \<Rightarrow> ms_emit (s\<lparr>ms_rows := rows\<rparr>)
   | None \<Rightarrow> s)"

definition mem_remove :: "json \<Rightarrow> mem_store \<Rightarrow> mem_store" where
  "mem_remove i s = ms_emit (s\<lparr>ms_rows := filter (\<lambda>d. field d ''id'' \<noteq> i) (ms_rows s)\<rparr>)"

definition mem_subscribe :: "nat \<Rightarrow> mem_store \<Rightarrow> mem_store" where
  "mem_subscribe u s = (if u \<in> set (ms_subs s) then s else s\<lparr>ms_subs := ms_subs s @ [u]\<rparr>)"

definition mem_unsubscribe :: "nat \<Rightarrow> mem_store \<Rightarrow> mem_store" where
  "mem_unsubscribe u s = s\<lparr>ms_subs := filter (\<lambda>v. v \<noteq> u) (ms_subs s)\<rparr>"

definition sweepExpired :: "env \<Rightarrow> sheet_opts \<Rightarrow> mem_store \<Rightarrow> mem_store \<times> nat" where
  "sweepExpired E opt s =
     (let rows = mem_all s;
          keep = map (\<lambda>r. get r ''id'') (withinRetention E (JArr (map JObj rows)) opt)
      in foldl (\<lambda>(s, n) r. if field r ''id'' \<notin> set keep then (mem_remove (field r ''id'') s, n + 1) else (s, n)) (s, 0) rows)"

end
