(* ===== verification/SnapshotProps.thy ===== *)
theory SnapshotProps
  imports ConflictNotice
begin

text \<open>
  The label lookup over a snapshot nobody validated: whatever the heap holds (sharing, cycles, throwing accessors, huge
  arrays), a hit is a field of the snapshot at most eight levels down, and the walk visits at most 20 000 objects.
\<close>

definition holds_field :: "heap \<Rightarrow> nat \<Rightarrow> string \<Rightarrow> found_field \<Rightarrow> bool" where
  "holds_field h f fid ff \<longleftrightarrow> objs h f ''id'' = Some (Prim (JStr fid))
     \<and> objs h f ''label'' = Some (ff_label ff) \<and> objs h f ''type'' = Some (ff_type ff)"

text \<open>The walk as a big-step relation: spent out, passed over, found, found below, gone on after a subtree.\<close>

inductive walks :: "heap \<Rightarrow> string \<Rightarrow> nat \<Rightarrow> ref list \<Rightarrow> walk \<Rightarrow> found_field option \<times> walk \<Rightarrow> bool" for h fid where
  none: "walks h fid d [] w (None, w)"
| spent: "budget w \<le> 0 \<Longrightarrow> walks h fid d (f # fs) w (None, spend w)"
| pass: "0 < budget w \<Longrightarrow> walks h fid d fs (spend w) res \<Longrightarrow> walks h fid d (f # fs) w res"
| visited: "0 < budget w \<Longrightarrow> a \<notin> set (seen w) \<Longrightarrow> walks h fid d fs (visit a (spend w)) res \<Longrightarrow> walks h fid d (Obj a # fs) w res"
| found: "0 < budget w \<Longrightarrow> a \<notin> set (seen w) \<Longrightarrow> holds_field h a fid ff \<Longrightarrow> walks h fid d (Obj a # fs) w (Some ff, visit a (spend w))"
| below: "0 < budget w \<Longrightarrow> a \<notin> set (seen w) \<Longrightarrow> objs h a ''sub_steps'' = Some (Arr b) \<Longrightarrow> d + 1 \<le> MAX_SNAPSHOT_DEPTH \<Longrightarrow>
    walks h fid (d + 1) (arrs h b) (visit a (spend w)) (Some ff, w') \<Longrightarrow> walks h fid d (Obj a # fs) w (Some ff, w')"
| onward: "0 < budget w \<Longrightarrow> a \<notin> set (seen w) \<Longrightarrow> objs h a ''sub_steps'' = Some (Arr b) \<Longrightarrow> d + 1 \<le> MAX_SNAPSHOT_DEPTH \<Longrightarrow>
    walks h fid (d + 1) (arrs h b) (visit a (spend w)) (None, w') \<Longrightarrow> walks h fid d fs w' res \<Longrightarrow> walks h fid d (Obj a # fs) w res"

lemma walk_deeper:
  assumes pos: "0 < budget w" and new: "a \<notin> set (seen w)" and sub: "objs h a ''sub_steps'' = Some (Arr b)"
    and deep: "\<And>w. d + 1 \<le> MAX_SNAPSHOT_DEPTH \<Longrightarrow> walks h fid (d + 1) (arrs h b) w (walkFields h fid (d + 1) (arrs h b) w)"
    and rest: "\<And>w. walks h fid d fs w (walkFields h fid d fs w)"
  shows "walks h fid d (Obj a # fs) w
    (if d + 1 > MAX_SNAPSHOT_DEPTH then walkFields h fid d fs (visit a (spend w))
     else case walkFields h fid (d + 1) (arrs h b) (visit a (spend w)) of
       (Some hit, w') \<Rightarrow> (Some hit, w') | (None, w') \<Rightarrow> walkFields h fid d fs w')"
proof (cases "d + 1 > MAX_SNAPSHOT_DEPTH")
  case True
  then show ?thesis using visited [OF pos new rest] by simp
next
  case False
  obtain res w' where r: "walkFields h fid (d + 1) (arrs h b) (visit a (spend w)) = (res, w')" by fastforce
  have d: "walks h fid (d + 1) (arrs h b) (visit a (spend w)) (res, w')" using deep [of "visit a (spend w)"] False r by simp
  show ?thesis
  proof (cases res)
    case None
    then show ?thesis using False r onward [OF pos new sub _ _ rest] d by simp
  next
    case (Some ff)
    then show ?thesis using False r below [OF pos new sub] d by simp
  qed
qed

lemma walkFields_walks: "walks h fid d fs w (walkFields h fid d fs w)"
proof (induction "MAX_SNAPSHOT_DEPTH - d" arbitrary: d fs w rule: less_induct)
  case less
  have deep: "walks h fid (d + 1) fs w (walkFields h fid (d + 1) fs w)" if "d + 1 \<le> MAX_SNAPSHOT_DEPTH" for fs w
    using less [of "d + 1"] that by simp
  show ?case
  proof (induction fs arbitrary: w)
    case (Cons f fs)
    show ?case
    proof (cases "budget w \<le> 0 \<or> (\<forall>a. f \<noteq> Obj a)")
      case True
      then show ?thesis using Cons.IH [of "spend w"] by (cases f) (auto simp: not_le intro: walks.intros)
    next
      case False
      then obtain a where f: "f = Obj a" and pos: "0 < budget w" by auto
      show ?thesis
      proof (cases "a \<in> set (seen w)")
        case True
        then show ?thesis using pass [OF pos Cons.IH] pos by (simp add: f)
      next
        case new: False
        show ?thesis
        proof (cases "objs h a ''id'' = None \<or> objs h a ''label'' = None \<or> objs h a ''type'' = None")
          case True
          then show ?thesis using visited [OF pos new Cons.IH] pos new by (auto simp: f split: option.split)
        next
          case False
          then obtain i l t where ilt: "objs h a ''id'' = Some i" "objs h a ''label'' = Some l" "objs h a ''type'' = Some t" by auto
          show ?thesis
          proof (cases "i = Prim (JStr fid)")
            case True
            then show ?thesis
              using found [OF pos new, of h fid "\<lparr>ff_label = l, ff_type = t\<rparr>"] pos new ilt by (simp add: f holds_field_def)
          next
            case other: False
            show ?thesis
            proof (cases "\<exists>b. objs h a ''sub_steps'' = Some (Arr b)")
              case True
              then obtain b where b: "objs h a ''sub_steps'' = Some (Arr b)" by blast
              show ?thesis using walk_deeper [OF pos new b deep Cons.IH] pos new ilt other b by (simp add: f)
            next
              case False
              then show ?thesis
                using visited [OF pos new Cons.IH] pos new ilt other by (auto simp: f split: option.split ref.split)
            qed
          qed
        qed
      qed
    qed
  qed (simp add: walks.none)
qed

section \<open>A hit is a field of the snapshot\<close>

inductive field_node :: "heap \<Rightarrow> ref \<Rightarrow> nat \<Rightarrow> nat \<Rightarrow> bool" for h :: heap and snapshot :: ref where
  top: "snapshot = Obj a \<Longrightarrow> objs h a ''sections'' = Some (Arr b) \<Longrightarrow> Obj s \<in> set (arrs h b) \<Longrightarrow>
    objs h s ''fields'' = Some (Arr c) \<Longrightarrow> Obj f \<in> set (arrs h c) \<Longrightarrow> field_node h snapshot 1 f"
| sub: "field_node h snapshot d f \<Longrightarrow> objs h f ''sub_steps'' = Some (Arr b) \<Longrightarrow> Obj g \<in> set (arrs h b) \<Longrightarrow> field_node h snapshot (d + 1) g"

lemma walks_sound:
  "walks h fid d fs w res \<Longrightarrow> \<forall>f. Obj f \<in> set fs \<longrightarrow> field_node h snapshot d f \<Longrightarrow> d \<le> MAX_SNAPSHOT_DEPTH \<Longrightarrow>
     fst res = Some ff \<Longrightarrow> \<exists>f d. field_node h snapshot d f \<and> d \<le> MAX_SNAPSHOT_DEPTH \<and> holds_field h f fid ff"
proof (induction rule: walks.induct)
  case (found w a ff' d fs)
  then show ?case by auto
next
  case (below w a b d ff' w' fs)
  have "\<forall>g. Obj g \<in> set (arrs h b) \<longrightarrow> field_node h snapshot (d + 1) g" 
    using below.prems(1) field_node.sub [OF _ below.hyps(3), of snapshot d] by simp
  then show ?case using below.IH below.hyps(4) below.prems(3) by simp
qed auto

definition walk_ok :: "walk \<Rightarrow> bool" where
  "walk_ok w \<longleftrightarrow> distinct (seen w) \<and> int (length (seen w)) + max 0 (budget w) \<le> MAX_SNAPSHOT_NODES"

lemma walk_ok_steps:
  "walk_ok w \<Longrightarrow> walk_ok (spend w)"
  "walk_ok w \<Longrightarrow> 0 < budget w \<Longrightarrow> a \<notin> set (seen w) \<Longrightarrow> walk_ok (visit a (spend w))"
  by (auto simp: walk_ok_def spend_def visit_def)

lemma walks_ok: "walks h fid d fs w res \<Longrightarrow> walk_ok w \<Longrightarrow> walk_ok (snd res)"
  by (induction rule: walks.induct) (simp_all add: walk_ok_steps)

lemma sections_found:
  "walkSections h fid ss w = (Some ff, w') \<Longrightarrow> \<exists>s c w1 w2. Obj s \<in> set ss \<and> objs h s ''fields'' = Some (Arr c)
     \<and> walkFields h fid 1 (arrs h c) w1 = (Some ff, w2)"
proof (induction ss arbitrary: w)
  case (Cons s ss)
  show ?case
  proof (cases "\<exists>u. walkSections h fid ss u = (Some ff, w')")
    case True
    then show ?thesis using Cons.IH by (meson list.set_intros(2))
  next
    case False
    then show ?thesis
      using Cons.prems by (auto split: if_splits ref.splits option.splits prod.splits)
  qed
qed simp

lemma sections_ok: "walk_ok w \<Longrightarrow> walk_ok (snd (walkSections h fid ss w))"
proof (induction ss arbitrary: w)
  case (Cons s ss)
  show ?case
  proof (cases "budget w \<le> 0 \<or> (\<forall>a. s \<noteq> Obj a)")
    case True
    then show ?thesis using Cons walk_ok_steps(1) [OF Cons.prems] by (cases s) auto
  next
    case False
    then obtain a where s: "s = Obj a" and pos: "0 < budget w" by auto
    show ?thesis
    proof (cases "a \<in> set (seen w)")
      case True
      then show ?thesis using pos Cons.IH [OF walk_ok_steps(1) [OF Cons.prems]] by (simp add: s)
    next
      case False
      note v = walk_ok_steps(2) [OF Cons.prems pos False]
      have after: "walk_ok (snd (case walkFields h fid 1 fs (visit a (spend w)) of
          (Some hit, w') \<Rightarrow> (Some hit, w') | (None, w') \<Rightarrow> walkSections h fid ss w'))" for fs
      proof -
        obtain res w' where e: "walkFields h fid 1 fs (visit a (spend w)) = (res, w')" by fastforce
        then have "walk_ok w'" using walks_ok [OF walkFields_walks v, of h fid 1 fs] by simp
        then show ?thesis using Cons.IH e by (cases res) simp_all
      qed
      have "walkSections h fid (Obj a # ss) w = (case objs h a ''fields'' of
          None \<Rightarrow> (None, visit a (spend w))
        | Some r \<Rightarrow> (case r of Arr b \<Rightarrow> (case walkFields h fid 1 (arrs h b) (visit a (spend w)) of
              (Some hit, w') \<Rightarrow> (Some hit, w') | (None, w') \<Rightarrow> walkSections h fid ss w')
            | _ \<Rightarrow> walkSections h fid ss (visit a (spend w))))"
        using pos False by (simp split: option.split ref.split)
      then show ?thesis unfolding s using v Cons.IH [OF v] after by (simp split: option.split ref.split)
    qed
  qed
qed simp

text \<open>The label lookup is safe on any snapshot, cycles, sharing and throwing accessors included: when it answers, some
  field object of a section, or a sub-step of one, at most eight levels down carries the id asked for with the label and
  type answered; and whatever it answers it has visited each object at most once and no more than 20 000 of them.\<close>

theorem label_lookup_sound:
  "(case findFieldInSnapshot h snapshot fieldId of
      None \<Rightarrow> True
    | Some ff \<Rightarrow> (\<exists>f d fid. fieldId = JStr fid \<and> field_node h snapshot d f \<and> d \<le> MAX_SNAPSHOT_DEPTH \<and> holds_field h f fid ff))
   \<and> distinct (seen (snd (walkSections h fid ss start_walk))) \<and> int (length (seen (snd (walkSections h fid ss start_walk)))) \<le> MAX_SNAPSHOT_NODES"
proof (intro conjI)
  have "walk_ok start_walk" by (simp add: walk_ok_def start_walk_def MAX_SNAPSHOT_NODES_def)
  note ok = sections_ok [OF this, of h fid ss]
  show "distinct (seen (snd (walkSections h fid ss start_walk)))" using ok by (simp add: walk_ok_def)
  show "int (length (seen (snd (walkSections h fid ss start_walk)))) \<le> MAX_SNAPSHOT_NODES" using ok unfolding walk_ok_def by linarith
  have "\<exists>f d fid. fieldId = JStr fid \<and> field_node h snapshot d f \<and> d \<le> MAX_SNAPSHOT_DEPTH \<and> holds_field h f fid ff"
    if "findFieldInSnapshot h snapshot fieldId = Some ff" for ff
  proof -
    from that obtain fid a b w' where s: "fieldId = JStr fid" "snapshot = Obj a" "objs h a ''sections'' = Some (Arr b)"
      "walkSections h fid (arrs h b) start_walk = (Some ff, w')"
      by (auto simp: findFieldInSnapshot_def split: json.splits ref.splits if_splits option.splits) (metis prod.collapse)
    from sections_found [OF s(4)] obtain x c w1 w2 where x: "Obj x \<in> set (arrs h b)" "objs h x ''fields'' = Some (Arr c)"
      "walkFields h fid 1 (arrs h c) w1 = (Some ff, w2)" by blast
    have "\<forall>f. Obj f \<in> set (arrs h c) \<longrightarrow> field_node h snapshot 1 f" using top [OF s(2,3) x(1,2)] by blast
    then show ?thesis
      using walks_sound [OF walkFields_walks [of h fid 1 "arrs h c" w1], of snapshot ff] x(3) s(1) by (auto simp: MAX_SNAPSHOT_DEPTH_def)
  qed
  then show "case findFieldInSnapshot h snapshot fieldId of None \<Rightarrow> True
    | Some ff \<Rightarrow> \<exists>f d fid. fieldId = JStr fid \<and> field_node h snapshot d f \<and> d \<le> MAX_SNAPSHOT_DEPTH \<and> holds_field h f fid ff"
    by (auto split: option.split)
qed

end
