(* ===== verification/ConflictSheet.thy ===== *)
theory ConflictSheet
  imports Complex_Main ConflictNotice
begin

text \<open>
  \<^verbatim>\<open>sync-rxdb/conflict-notice-ui.js\<close>: what the banner, the sheet, a row and the confirm draw, as structured views
  (the copy a row prints is a constructor with the values it prints), and the mounted component as a state with one
  handler per action. Calls of the store settle within the handler that makes them; the write of a restore is a network
  call, so its answer is a step of its own and other taps may come between.
\<close>

section \<open>What is drawn\<close>

datatype action =
    Cn_Open | Cn_Close | Cn_Reload | Cn_Expand | Cn_Restore | Cn_Keep | Cn_Undo | Cn_Dismiss | Cn_Copy | Cn_Open_Checklist
  | Cn_Batch | Cn_Cancel | Cn_Commit

datatype btn_label =
    Restore_Mine | Retry | Restoring | Keep_Theirs | Open_Checklist | Dismiss | Copy_Value | Undo_Label | Review | Done_Label
  | Try_Again | Restore_All nat | Cancel_Label | Replace_All nat | Whole_Row

datatype btn_sub =
    No_Sub | Replaces shown | Replaces_Empty | Replacing shown | Replacing_Empty | Stays shown | Stays_Empty
  | Batch_Sub nat string time_range | Replaces_Of nat string

record btn =
  bt_action :: action
  bt_id :: json
  bt_label :: btn_label
  bt_sub :: btn_sub
  bt_disabled :: bool
  bt_spinner :: bool

definition mk_btn :: "action \<Rightarrow> json \<Rightarrow> btn_label \<Rightarrow> btn_sub \<Rightarrow> bool \<Rightarrow> bool \<Rightarrow> btn" where
  "mk_btn a i l s dis spin = \<lparr>bt_action = a, bt_id = i, bt_label = l, bt_sub = s, bt_disabled = dis, bt_spinner = spin\<rparr>"

definition mk_plain :: "action \<Rightarrow> json \<Rightarrow> btn_label \<Rightarrow> btn" where
  "mk_plain a i l = mk_btn a i l No_Sub False False"

record banner_view =
  bv_banner :: banner
  bv_go :: btn

definition renderBanner :: "sheet_model option \<Rightarrow> banner_view option" where
  "renderBanner m = map_option (\<lambda>b. \<lparr>bv_banner = b, bv_go = mk_plain Cn_Open JNull Review\<rparr>) (bannerModel m)"

datatype title = Title json | Struck json | Gone json

definition rowTitle :: "row \<Rightarrow> title" where
  "rowTitle r = (case r_kind r of
     KIND_UNIDENTIFIED \<Rightarrow> Title (r_label r)
   | KIND_REMOVED \<Rightarrow> (if r_labelSource r = Snapshot then Struck (r_label r) else Gone (r_label r))
   | KIND_ANSWER \<Rightarrow> Title (r_label r))"

datatype val_pair = Not_Recoverable | Mine "shown option" | Mine_And_Theirs "shown option" shown string

definition valuePair :: "row \<Rightarrow> val_pair" where
  "valuePair r = (case r_kind r of
     KIND_UNIDENTIFIED \<Rightarrow> Not_Recoverable
   | KIND_REMOVED \<Rightarrow> Mine (r_yours r)
   | KIND_ANSWER \<Rightarrow> Mine_And_Theirs (r_yours r) (r_theirs r) (r_who r))"

definition rowActions :: "row \<Rightarrow> bool \<Rightarrow> btn list" where
  "rowActions r coll =
     (if r_kind r = KIND_UNIDENTIFIED then
        [mk_plain Cn_Open_Checklist (r_id r) Open_Checklist, mk_plain Cn_Dismiss (r_id r) Dismiss]
      else if r_kind r = KIND_REMOVED then
        [mk_plain Cn_Copy (r_id r) Copy_Value, mk_plain Cn_Dismiss (r_id r) Dismiss]
      else if coll \<and> \<not> r_expanded r then []
      else
        (let none = (r_theirs r = Dash);
             replaces = (if none then Replaces_Empty else Replaces (r_theirs r));
             replacing = (if none then Replacing_Empty else Replacing (r_theirs r));
             stays = (if none then Stays_Empty else Stays (r_theirs r))
         in if r_status r = JStr ''restoring'' then
              [mk_btn Cn_Restore (r_id r) Restoring replacing True True, mk_btn Cn_Keep (r_id r) Keep_Theirs stays True False]
            else
              [mk_btn Cn_Restore (r_id r) (if r_status r = JStr ''failed'' then Retry else Restore_Mine) replaces False False,
               mk_btn Cn_Keep (r_id r) Keep_Theirs stays False False]))"

text \<open>Whose value a sentence names: a person's, or \<open>their\<close>.\<close>

datatype reason = Changed_Unknown | Question_Removed
datatype trouble = Moved_Again | Offline_Now

datatype row_body =
    Restored_Line "shown option" "string option" shown
  | Kept_Line shown string
  | Open_Body val_pair "reason option" "(shown option \<times> trouble \<times> shown) option" "(string option \<times> shown) option"

record row_view =
  rv_id :: json
  rv_state :: json
  rv_unrec :: bool
  rv_title :: title
  rv_body :: row_body
  rv_buttons :: "btn list"
  rv_wrap :: "btn option"

definition undoBtn :: "json \<Rightarrow> btn" where
  "undoBtn i = mk_plain Cn_Undo i Undo_Label"

definition renderRow :: "row \<Rightarrow> bool \<Rightarrow> row_view" where
  "renderRow r coll =
     (let unrec = (r_kind r = KIND_UNIDENTIFIED \<or> r_kind r = KIND_REMOVED)
      in if r_status r = JStr ''restored'' then
           \<lparr>rv_id = r_id r, rv_state = JStr ''restored'', rv_unrec = unrec, rv_title = rowTitle r,
            rv_body = Restored_Line (r_yours r) (r_whoName r) (r_theirs r), rv_buttons = [undoBtn (r_id r)], rv_wrap = None\<rparr>
         else if r_status r = JStr ''kept'' then
           \<lparr>rv_id = r_id r, rv_state = JStr ''kept'', rv_unrec = unrec, rv_title = rowTitle r,
            rv_body = Kept_Line (r_theirs r) (r_who r), rv_buttons = [undoBtn (r_id r)], rv_wrap = None\<rparr>
         else
           \<lparr>rv_id = r_id r, rv_state = r_status r, rv_unrec = unrec, rv_title = rowTitle r,
            rv_body = Open_Body (valuePair r)
              (if r_kind r = KIND_UNIDENTIFIED then Some Changed_Unknown
               else if r_kind r = KIND_REMOVED then Some Question_Removed else None)
              (if r_status r = JStr ''failed''
               then Some (r_yours r, if r_failure r = JStr ''conflict'' then Moved_Again else Offline_Now, r_theirs r) else None)
              (if r_undone r \<and> r_status r = JStr ''open'' then Some (r_whoName r, r_theirs r) else None),
            rv_buttons = rowActions r coll,
            rv_wrap = (if coll then Some (mk_plain Cn_Expand (r_id r) Whole_Row) else None)\<rparr>)"

record group_view =
  gv_docId :: json
  gv_name :: json
  gv_day :: json
  gv_docChip :: string
  gv_count :: "nat \<times> nat"
  gv_rows :: "row_view list"
  gv_batch :: "btn option"

definition renderGroup :: "group \<Rightarrow> bool \<Rightarrow> group_view" where
  "renderGroup g coll =
     \<lparr>gv_docId = g_docId g, gv_name = g_name g, gv_day = g_day g, gv_docChip = g_docChip g,
      gv_count = (g_chipBase g, g_chipPlus g), gv_rows = map (\<lambda>r. renderRow r coll) (g_rows g),
      gv_batch = (if coll \<and> 0 < g_batchCount g
                  then Some (mk_btn Cn_Batch (g_docId g) (Restore_All (g_batchCount g))
                         (Batch_Sub (g_batchCount g) (g_batchWho g) (g_batchRange g)) False False)
                  else None)\<rparr>"

datatype phase = Booting | Loading | Ready_Phase | Unreadable

datatype sheet_view =
    No_Sheet
  | Skeleton
  | Unreadable_Plate btn
  | Empty_Plate int
  | Sheet "group_view list" "(nat \<times> nat) option" bool

definition renderSheet :: "phase \<Rightarrow> sheet_model option \<Rightarrow> sheet_view" where
  "renderSheet ph m = (case ph of
     Booting \<Rightarrow> No_Sheet
   | Loading \<Rightarrow> Skeleton
   | Unreadable \<Rightarrow> Unreadable_Plate (mk_plain Cn_Reload JNull Try_Again)
   | Ready_Phase \<Rightarrow> (case m of
       None \<Rightarrow> Empty_Plate RETENTION_DAYS
     | Some model \<Rightarrow>
         if m_status model = Empty
         then Empty_Plate (if m_retentionDays model = 0 then RETENTION_DAYS else m_retentionDays model)
         else Sheet (map (\<lambda>g. renderGroup g (m_collapsed model)) (m_groups model))
                (if 0 < m_hiddenGroups model then Some (m_hiddenGroups model, m_hiddenAnswers model) else None)
                (m_collapsed model)))"

record confirm_view =
  cv_count :: nat
  cv_who :: string
  cv_name :: json
  cv_rows :: "(json \<times> shown \<times> string \<times> shown option) list"
  cv_buttons :: "btn list"

definition renderConfirm :: "group \<Rightarrow> confirm_view" where
  "renderConfirm g =
     (let targets = filter r_isBatchTarget (g_rows g); n = length targets;
          who = (if g_batchWho g = [] then ''someone else'' else g_batchWho g)
      in \<lparr>cv_count = n, cv_who = who, cv_name = g_name g,
          cv_rows = map (\<lambda>r. (r_label r, r_theirs r, r_who r, r_yours r)) targets,
          cv_buttons = [mk_plain Cn_Cancel JNull Cancel_Label,
                        mk_btn Cn_Commit (g_docId g) (Replace_All n) (Replaces_Of n who) False False]\<rparr>)"

section \<open>The mounted component\<close>

text \<open>The store the component is handed: what it holds and the three calls it makes.\<close>

record 's store_ops =
  st_all :: "'s \<Rightarrow> doc list"
  st_upsert :: "doc \<Rightarrow> 's \<Rightarrow> 's"
  st_patch :: "json \<Rightarrow> doc \<Rightarrow> 's \<Rightarrow> 's"
  st_remove :: "json \<Rightarrow> 's \<Rightarrow> 's"

text \<open>A restore waiting for its write: the row it found, and the rows of the batch still to come.\<close>

record pending =
  pd_id :: json
  pd_rest :: "json list"

record 's sheet_ui =
  ui_store :: 's
  ui_phase :: phase
  ui_open :: bool
  ui_confirmFor :: "json option"
  ui_records :: "doc list"
  ui_expanded :: "json list"
  ui_model :: sheet_model
  ui_pending :: "pending list"
  ui_writes :: "row list"
  ui_copied :: "shown option list"
  ui_opened :: "row list"

definition mark_expanded :: "json list \<Rightarrow> sheet_model \<Rightarrow> sheet_model" where
  "mark_expanded ex m = m\<lparr>m_groups :=
     map (\<lambda>g. g\<lparr>g_rows := map (\<lambda>r. r\<lparr>r_expanded := (r_id r \<in> set ex)\<rparr>) (g_rows g)\<rparr>) (m_groups m)\<rparr>"

definition model_of :: "env \<Rightarrow> sheet_opts \<Rightarrow> json list \<Rightarrow> doc list \<Rightarrow> sheet_model" where
  "model_of E opt ex rows = mark_expanded ex (buildSheetModel E (JArr (map JObj rows)) opt)"

definition rebuild :: "env \<Rightarrow> sheet_opts \<Rightarrow> 's sheet_ui \<Rightarrow> 's sheet_ui" where
  "rebuild E opt u = u\<lparr>ui_model := model_of E opt (ui_expanded u) (ui_records u)\<rparr>"

definition findRow :: "sheet_model \<Rightarrow> json \<Rightarrow> row option" where
  "findRow m i = List.find (\<lambda>r. r_id r = i) (concat (map g_rows (m_groups m)))"

definition ui_load :: "env \<Rightarrow> sheet_opts \<Rightarrow> 's store_ops \<Rightarrow> bool \<Rightarrow> 's sheet_ui \<Rightarrow> 's sheet_ui" where
  "ui_load E opt ops readable u =
     rebuild E opt (if readable then u\<lparr>ui_records := st_all ops (ui_store u), ui_phase := Ready_Phase\<rparr>
                    else u\<lparr>ui_phase := Unreadable\<rparr>)"

text \<open>\<open>state.records = await o.store.all(); rebuild()\<close>, after a call that changed the store.\<close>

definition refresh :: "env \<Rightarrow> sheet_opts \<Rightarrow> 's store_ops \<Rightarrow> 's sheet_ui \<Rightarrow> 's sheet_ui" where
  "refresh E opt ops u = rebuild E opt (u\<lparr>ui_records := st_all ops (ui_store u)\<rparr>)"

definition ui_patch :: "env \<Rightarrow> sheet_opts \<Rightarrow> 's store_ops \<Rightarrow> json \<Rightarrow> doc \<Rightarrow> 's sheet_ui \<Rightarrow> 's sheet_ui" where
  "ui_patch E opt ops i fs u = refresh E opt ops (u\<lparr>ui_store := st_patch ops i fs (ui_store u)\<rparr>)"

text \<open>\<open>restore\<close> up to its write, along a list of rows: a row that is not on the sheet is skipped.\<close>

fun ui_restore :: "env \<Rightarrow> sheet_opts \<Rightarrow> 's store_ops \<Rightarrow> json list \<Rightarrow> 's sheet_ui \<Rightarrow> 's sheet_ui" where
  "ui_restore E opt ops [] u = u"
| "ui_restore E opt ops (i # rest) u =
     (case findRow (ui_model u) i of
        None \<Rightarrow> ui_restore E opt ops rest u
      | Some r \<Rightarrow>
          (let u = ui_patch E opt ops i [(''status'', JStr ''restoring''), (''failure'', JNull)] u
           in u\<lparr>ui_writes := ui_writes u @ [r], ui_pending := ui_pending u @ [\<lparr>pd_id = i, pd_rest = rest\<rparr>]\<rparr>))"

datatype write_result = Written | Conflict_Error | Other_Error

definition outcome_fields :: "write_result \<Rightarrow> doc" where
  "outcome_fields w = (case w of
     Written \<Rightarrow> [(''status'', JStr ''restored''), (''undone'', JBool False), (''failure'', JNull)]
   | Conflict_Error \<Rightarrow> [(''status'', JStr ''failed''), (''failure'', JStr ''conflict'')]
   | Other_Error \<Rightarrow> [(''status'', JStr ''failed''), (''failure'', JStr ''offline'')])"

text \<open>The answer to the \<open>k\<close>-th waiting write, then the rest of its batch.\<close>

definition restore_settled :: "env \<Rightarrow> sheet_opts \<Rightarrow> 's store_ops \<Rightarrow> nat \<Rightarrow> write_result \<Rightarrow> 's sheet_ui \<Rightarrow> 's sheet_ui" where
  "restore_settled E opt ops k w u =
     (if k < length (ui_pending u) then
        (let p = ui_pending u ! k; u = u\<lparr>ui_pending := take k (ui_pending u) @ drop (k + 1) (ui_pending u)\<rparr>
         in ui_restore E opt ops (pd_rest p) (ui_patch E opt ops (pd_id p) (outcome_fields w) u))
      else u)"

definition group_of :: "sheet_model \<Rightarrow> json \<Rightarrow> group option" where
  "group_of m i = List.find (\<lambda>g. g_docId g = i) (m_groups m)"

definition onClick :: "env \<Rightarrow> sheet_opts \<Rightarrow> 's store_ops \<Rightarrow> bool \<Rightarrow> action \<Rightarrow> json \<Rightarrow> 's sheet_ui \<Rightarrow> 's sheet_ui" where
  "onClick E opt ops readable a i u = (case a of
     Cn_Open \<Rightarrow> u\<lparr>ui_open := True\<rparr>
   | Cn_Close \<Rightarrow> u\<lparr>ui_open := False, ui_confirmFor := None\<rparr>
   | Cn_Reload \<Rightarrow> ui_load E opt ops readable u
   | Cn_Expand \<Rightarrow> rebuild E opt (u\<lparr>ui_expanded := List.insert i (ui_expanded u)\<rparr>)
   | Cn_Restore \<Rightarrow> ui_restore E opt ops [i] u
   | Cn_Keep \<Rightarrow> ui_patch E opt ops i [(''status'', JStr ''kept''), (''undone'', JBool False)] u
   | Cn_Undo \<Rightarrow> ui_patch E opt ops i [(''status'', JStr ''open''), (''undone'', JBool True)] u
   | Cn_Dismiss \<Rightarrow> refresh E opt ops (u\<lparr>ui_store := st_remove ops i (ui_store u)\<rparr>)
   | Cn_Copy \<Rightarrow> (case findRow (ui_model u) i of None \<Rightarrow> u | Some r \<Rightarrow> u\<lparr>ui_copied := ui_copied u @ [r_yours r]\<rparr>)
   | Cn_Open_Checklist \<Rightarrow> (case findRow (ui_model u) i of None \<Rightarrow> u | Some r \<Rightarrow> u\<lparr>ui_opened := ui_opened u @ [r]\<rparr>)
   | Cn_Batch \<Rightarrow> u\<lparr>ui_confirmFor := Some i\<rparr>
   | Cn_Cancel \<Rightarrow> u\<lparr>ui_confirmFor := None\<rparr>
   | Cn_Commit \<Rightarrow>
       (let u = u\<lparr>ui_confirmFor := None\<rparr>
        in case group_of (ui_model u) i of None \<Rightarrow> u | Some g \<Rightarrow> ui_restore E opt ops (g_batchIds g) u))"

text \<open>What \<open>paint\<close> puts on the page.\<close>

record screen =
  sc_banner :: "banner_view option"
  sc_sheet :: "sheet_view option"
  sc_confirm :: "confirm_view option"

definition paint :: "'s sheet_ui \<Rightarrow> screen" where
  "paint u =
     \<lparr>sc_banner = (if ui_phase u = Ready_Phase then renderBanner (Some (ui_model u)) else None),
      sc_sheet = (if ui_open u then Some (renderSheet (ui_phase u) (Some (ui_model u))) else None),
      sc_confirm = (if ui_open u
         then Option.bind (ui_confirmFor u) (\<lambda>i. map_option renderConfirm (group_of (ui_model u) i)) else None)\<rparr>"

definition mountConflictNotice :: "env \<Rightarrow> sheet_opts \<Rightarrow> 's store_ops \<Rightarrow> bool \<Rightarrow> 's \<Rightarrow> 's sheet_ui" where
  "mountConflictNotice E opt ops readable s =
     ui_load E opt ops readable
       \<lparr>ui_store = s, ui_phase = Booting, ui_open = False, ui_confirmFor = None, ui_records = [], ui_expanded = [],
        ui_model = model_of E opt [] [], ui_pending = [], ui_writes = [], ui_copied = [], ui_opened = []\<rparr>"

text \<open>What can happen to it: a tap, an answer, a change of the store it is told of.\<close>

datatype ui_event = Tap action json bool | Settled nat write_result | Told

definition ui_step :: "env \<Rightarrow> sheet_opts \<Rightarrow> 's store_ops \<Rightarrow> 's sheet_ui \<Rightarrow> ui_event \<Rightarrow> 's sheet_ui" where
  "ui_step E opt ops u ev = (case ev of
     Tap a i readable \<Rightarrow> onClick E opt ops readable a i u
   | Settled k w \<Rightarrow> restore_settled E opt ops k w u
   | Told \<Rightarrow> refresh E opt ops u)"

end
