(* ===== verification/ConflictNoticeProps.thy ===== *)
theory ConflictNoticeProps
  imports "HOL-Library.Multiset" ConflictNotice ConflictSpec
begin

text \<open>
  What makes the sheet's arithmetic right: sorting and grouping move records without losing any, the figures of the
  banner are counts over the records in the window, an outcome never moves the headline, chips tell groups apart, the
  sweep is invisible, and a clash becomes exactly one record that holds the discarded value.
\<close>

section \<open>Sorting and grouping\<close>

lemma map_factor:
  assumes "map f xs = map f ys" and "\<And>x y. f x = f y \<Longrightarrow> g x = g' y"
  shows "map g xs = map g' ys"
proof (rule nth_equalityI)
  have l: "length xs = length ys" using assms(1) by (rule map_eq_imp_length_eq)
  then show "length (map g xs) = length (map g' ys)" by simp
  fix i assume "i < length (map g xs)"
  moreover from this have "f (xs ! i) = f (ys ! i)" using assms(1) l by (metis length_map nth_map)
  ultimately show "map g xs ! i = map g' ys ! i" using assms(2) l by simp
qed

lemma mset_insert_by [simp]: "mset (insert_by cmp x ys) = add_mset x (mset ys)"
  by (induction ys) auto

lemma mset_sort_by [simp]: "mset (sort_by cmp xs) = mset xs"
  by (induction xs) (auto simp: sort_by_def)

lemma set_sort_by [simp]: "set (sort_by cmp xs) = set xs"
  by (metis mset_sort_by set_mset_mset)

lemma length_sort_by [simp]: "length (sort_by cmp xs) = length xs"
  by (metis mset_sort_by size_mset)

lemma insert_by_map: "(\<And>a b. cmp' (f a) (f b) = cmp a b) \<Longrightarrow> insert_by cmp' (f x) (map f ys) = map f (insert_by cmp x ys)"
  by (induction ys) auto

lemma sort_by_map: "(\<And>a b. cmp' (f a) (f b) = cmp a b) \<Longrightarrow> sort_by cmp' (map f xs) = map f (sort_by cmp xs)"
  by (induction xs) (auto simp: sort_by_def insert_by_map)

lemma add_group_mset: "mset (concat (map snd (add_group k v gs))) = add_mset v (mset (concat (map snd gs)))"
  by (induction k v gs rule: add_group.induct) auto

lemma group_by_snoc: "group_by key (vs @ [v]) = add_group (key v) v (group_by key vs)"
  by (simp add: group_by_def)

lemma group_by_Nil [simp]: "group_by key [] = []"
  by (simp add: group_by_def)

lemma group_by_mset: "mset (concat (map snd (group_by key vs))) = mset vs"
  by (induction vs rule: rev_induct) (simp_all add: group_by_snoc add_group_mset)

lemma add_group_keys: "fst ` set (add_group k v gs) = insert k (fst ` set gs)"
  by (induction k v gs rule: add_group.induct) auto

lemma add_group_distinct: "distinct (map fst gs) \<Longrightarrow> distinct (map fst (add_group k v gs))"
proof (induction k v gs rule: add_group.induct)
  case (2 k v j vs gs)
  then show ?case using add_group_keys [of k v gs] by auto
qed simp

lemma group_by_distinct: "distinct (map fst (group_by key vs))"
  by (induction vs rule: rev_induct) (simp_all add: group_by_snoc add_group_distinct)

lemma add_group_member:
  "(j, ws) \<in> set (add_group k v gs) \<Longrightarrow>
     (j, ws) \<in> set gs \<or> j = k \<and> (ws = [v] \<or> (\<exists>vs. (j, vs) \<in> set gs \<and> ws = vs @ [v]))"
  by (induction k v gs rule: add_group.induct) (auto split: if_splits)

lemma group_by_member: "(j, ws) \<in> set (group_by key vs) \<Longrightarrow> ws \<noteq> [] \<and> (\<forall>w \<in> set ws. key w = j)"
proof (induction vs arbitrary: ws rule: rev_induct)
  case (snoc v vs)
  from add_group_member [OF snoc.prems [unfolded group_by_snoc]]
  consider "(j, ws) \<in> set (group_by key vs)" | "j = key v" "ws = [v]"
    | us where "j = key v" "(j, us) \<in> set (group_by key vs)" "ws = us @ [v]" by blast
  then show ?case
  proof cases
    case 1 then show ?thesis by (rule snoc.IH)
  next
    case 2 then show ?thesis by simp
  next
    case 3
    have "key w = j" if "w \<in> set ws" for w
      using that snoc.IH [OF 3(2)] 3(1) unfolding 3(3) by (cases "w = v") (simp, force)
    then show ?thesis by (simp add: 3(3))
  qed
qed simp

lemma add_group_map: "add_group k (f v) (map (\<lambda>(j, ws). (j, map f ws)) gs) = map (\<lambda>(j, ws). (j, map f ws)) (add_group k v gs)"
  by (induction k v gs rule: add_group.induct) auto

lemma group_by_map:
  assumes "\<And>v. key (f v) = key v"
  shows "group_by key (map f vs) = map (\<lambda>(j, ws). (j, map f ws)) (group_by key vs)"
  by (induction vs rule: rev_induct) (simp_all add: group_by_snoc assms add_group_map)

section \<open>The figures\<close>

lemma build_group_rows: "mset (g_rows (build_group E opt (k, rs))) = image_mset (buildRow E opt) (mset rs)"
  by (simp add: build_group_def Let_def)

lemma build_group_chips:
  "g_chipBase (build_group E opt g) = length (filter (\<lambda>r. r_kind r \<noteq> KIND_UNIDENTIFIED) (g_rows (build_group E opt g)))"
  "g_chipPlus (build_group E opt g) = length (filter (\<lambda>r. r_kind r = KIND_UNIDENTIFIED) (g_rows (build_group E opt g)))"
  by (cases g; simp add: build_group_def Let_def)+

lemma filter_split_length: "length (filter P xs) + length (filter (\<lambda>x. \<not> P x) xs) = length xs"
  by (induction xs) auto

lemma build_group_count: "g_chipBase (build_group E opt g) + g_chipPlus (build_group E opt g) = length (g_rows (build_group E opt g))"
  unfolding build_group_chips using filter_split_length [of "\<lambda>r. r_kind r \<noteq> KIND_UNIDENTIFIED"] by simp

lemma sheet_groups_rows: "concat (map g_rows (sheet_groups E opt live)) = concat (map (\<lambda>g. g_rows (build_group E opt g)) (group_by group_key live))"
  by (simp add: sheet_groups_def Let_def comp_def)

lemma mset_concat_cong: "(\<And>x. x \<in> set xs \<Longrightarrow> mset (f x) = mset (g x)) \<Longrightarrow> mset (concat (map f xs)) = mset (concat (map g xs))"
  by (induction xs) auto

lemma mset_sheet_rows: "mset (concat (map g_rows (sheet_groups E opt live))) = image_mset (buildRow E opt) (mset live)"
proof -
  have "mset (concat (map (\<lambda>g. g_rows (build_group E opt g)) (group_by group_key live)))
      = mset (concat (map (\<lambda>g. map (buildRow E opt) (snd g)) (group_by group_key live)))"
    by (intro mset_concat_cong) (metis build_group_rows mset_map prod.collapse)
  also have "\<dots> = image_mset (buildRow E opt) (mset (concat (map snd (group_by group_key live))))"
    by (simp add: map_concat comp_def flip: mset_map)
  finally show ?thesis by (simp add: sheet_groups_rows group_by_mset)
qed

lemma sheet_groups_count: "g \<in> set (sheet_groups E opt live) \<Longrightarrow> g_chipBase g + g_chipPlus g = length (g_rows g)"
  by (auto simp: sheet_groups_def Let_def build_group_count)

lemma mset_concat_sort: "mset (concat (map f (sort_by cmp gs))) = mset (concat (map f gs))"
proof -
  have "mset (concat (map f xs)) = (\<Sum>x\<in>#mset xs. mset (f x))" for xs
    by (induction xs) auto
  then show ?thesis by simp
qed

lemma length_filter_mset: "mset xs = mset ys \<Longrightarrow> length (filter P xs) = length (filter P ys)"
  by (metis mset_filter size_mset)

lemma length_filter_rows:
  assumes "mset rows = image_mset f (mset live)"
  shows "length (filter P rows) = length (filter (\<lambda>r. P (f r)) live)"
proof -
  have "length (filter P rows) = length (filter P (map f live))"
    using assms by (intro length_filter_mset) simp
  then show ?thesis by (simp add: filter_map comp_def)
qed

lemma buildRow_simps [simp]:
  "r_kind (buildRow E opt r) = rowKind r" "r_handled (buildRow E opt r) = isHandled r"
  "r_isBatchTarget (buildRow E opt r) = isBatchTarget r" "r_id (buildRow E opt r) = get r ''id''"
  "r_rawDiscarded (buildRow E opt r) = get r ''discarded_value''"
  by (simp_all add: buildRow_def Let_def)

lemma in_window_truthy: "in_window E opt r \<Longrightarrow> truthy r"
  by (simp add: in_window_def)

abbreviation window :: "env \<Rightarrow> sheet_opts \<Rightarrow> json list \<Rightarrow> json list" where
  "window E opt rs \<equiv> filter (in_window E opt) rs"

definition sheet_order :: "env \<Rightarrow> sheet_opts \<Rightarrow> json list \<Rightarrow> group list" where
  "sheet_order E opt live = sort_by (\<lambda>a b. localeCompare E (g_newest b) (g_newest a)) (sheet_groups E opt live)"

lemma mset_order_rows: "mset (concat (map g_rows (sheet_order E opt live))) = image_mset (buildRow E opt) (mset live)"
  by (simp add: sheet_order_def mset_concat_sort mset_sheet_rows)

lemma model_parts:
  fixes rs E opt
  defines "m \<equiv> buildSheetModel E (JArr rs) opt" and "gs \<equiv> sheet_order E opt (window E opt rs)"
    and "n \<equiv> (case so_maxGroups opt of Some n \<Rightarrow> n | None \<Rightarrow> MAX_GROUPS)"
  shows "m_totals m = sheet_totals_of gs" and "m_hiddenGroups m = length gs - n"
    and "mset (m_groups m) = mset (take n gs)"
    and "m_hiddenAnswers m = sum_list (map (\<lambda>g. g_chipBase g + g_chipPlus g) (drop n gs))"
    and "m_status m = (if window E opt rs = [] then Empty else Ready)"
  by (simp_all add: m_def gs_def n_def buildSheetModel_def Let_def withinRetention_def sheet_order_def)

lemma sum_list_mset: "mset xs = mset ys \<Longrightarrow> sum_list (map (f :: 'a \<Rightarrow> nat) xs) = sum_list (map f ys)"
  by (metis mset_map sum_mset_sum_list)

text \<open>Every record in the retention window is drawn or counted below the cap line exactly once. The banner's figures
  are counts over those records: the answers are the records that still hold a discarded value, the rest are
  unidentified, an answer is either still to review or handled; a group's chip adds up to the rows it draws; no more
  groups are drawn than the cap, and those drawn and those hidden are the checklists counted.\<close>

theorem sheet_counts_add_up:
  fixes rs E opt
  defines "m \<equiv> buildSheetModel E (JArr rs) opt" and "live \<equiv> window E opt rs"
    and "n \<equiv> (case so_maxGroups opt of Some n \<Rightarrow> n | None \<Rightarrow> MAX_GROUPS)"
  shows "t_answers (m_totals m) = length (filter (\<lambda>r. rowKind r \<noteq> KIND_UNIDENTIFIED) live)
    \<and> t_unidentified (m_totals m) = length (filter (\<lambda>r. rowKind r = KIND_UNIDENTIFIED) live)
    \<and> t_handled (m_totals m) = length (filter (\<lambda>r. rowKind r \<noteq> KIND_UNIDENTIFIED \<and> isHandled r) live)
    \<and> t_still (m_totals m) + t_handled (m_totals m) = t_answers (m_totals m)
    \<and> sum_list (map (\<lambda>g. g_chipBase g + g_chipPlus g) (m_groups m)) + m_hiddenAnswers m = length live
    \<and> list_all (\<lambda>g. g_chipBase g + g_chipPlus g = length (g_rows g)) (m_groups m)
    \<and> length (m_groups m) + m_hiddenGroups m = t_checklists (m_totals m) \<and> length (m_groups m) \<le> n"
proof -
  define gs where "gs = sheet_order E opt live"
  note p = model_parts [of E rs opt, folded m_def live_def n_def, folded gs_def]
  have rows: "mset (concat (map g_rows gs)) = image_mset (buildRow E opt) (mset live)"
    by (simp add: gs_def mset_order_rows)
  note len = length_filter_rows [OF rows]
  have total: "length (concat (map g_rows gs)) = length live" using len [of "\<lambda>_. True"] by simp
  have chips: "g_chipBase g + g_chipPlus g = length (g_rows g)" if "g \<in> set gs" for g
    using that sheet_groups_count [of g E opt live] by (simp add: gs_def sheet_order_def)
  have shown: "set (m_groups m) \<subseteq> set gs" using p(3) by (metis set_mset_mset set_take_subset)
  have split: "length (filter P xs) + length (filter (\<lambda>x. \<not> P x) xs) = length xs" for P and xs :: "json list"
    by (rule filter_split_length)
  have "t_still (m_totals m) + t_handled (m_totals m) = t_answers (m_totals m)"
    unfolding p(1) sheet_totals_of_def Let_def sheet_totals.select_convs
    using filter_split_length [of r_handled "filter (\<lambda>r. r_kind r \<noteq> KIND_UNIDENTIFIED) (concat (map g_rows gs))"] by linarith
  moreover have "sum_list (map (\<lambda>g. g_chipBase g + g_chipPlus g) (m_groups m)) + m_hiddenAnswers m = length live"
  proof -
    have "sum_list (map (\<lambda>g. g_chipBase g + g_chipPlus g) (m_groups m)) + m_hiddenAnswers m
        = sum_list (map (\<lambda>g. g_chipBase g + g_chipPlus g) (take n gs @ drop n gs))"
      using sum_list_mset [OF p(3)] p(4) by (simp del: append_take_drop_id)
    also have "\<dots> = sum_list (map (\<lambda>g. length (g_rows g)) gs)"
      unfolding append_take_drop_id using chips by (simp cong: map_cong)
    finally show ?thesis using total by (simp add: length_concat comp_def)
  qed
  moreover have "length (m_groups m) = min n (length gs)" using p(3) by (metis length_take min.commute size_mset)
  ultimately show ?thesis
    using p(2) shown chips total len split [of "\<lambda>r. rowKind r \<noteq> KIND_UNIDENTIFIED" live]
    by (auto simp: p(1) sheet_totals_of_def Let_def list_all_iff)
qed

section \<open>Outcomes and the headline\<close>

definition outcome_keys :: "string list" where
  "outcome_keys = [''status'', ''undone'', ''failure'']"

definition facts_doc :: "doc \<Rightarrow> doc" where
  "facts_doc d = filter (\<lambda>(k, v). k \<notin> set outcome_keys) d"

definition facts_of :: "json \<Rightarrow> json" where
  "facts_of r = (case r of JObj d \<Rightarrow> JObj (facts_doc d) | _ \<Rightarrow> r)"

lemma field_facts: "field (facts_doc d) k = (if k \<in> set outcome_keys then JUndef else field d k)"
  by (induction d) (auto simp: field_def facts_doc_def)

lemma get_facts [simp]: "k \<notin> set outcome_keys \<Longrightarrow> get (facts_of r) k = get r k"
  by (cases r) (simp_all add: get_def facts_of_def field_facts)

lemma truthy_facts [simp]: "truthy (facts_of r) = truthy r"
  by (cases r) (simp_all add: facts_of_def)

lemma facts_set_field: "k \<in> set outcome_keys \<Longrightarrow> facts_doc (set_field d k v) = facts_doc d"
  by (induction d k v rule: set_field.induct) (auto simp: facts_doc_def)

lemma facts_spread: "list_all (\<lambda>(k, v). k \<in> set outcome_keys) p \<Longrightarrow> facts_doc (spread d p) = facts_doc d"
  unfolding spread_def by (induction p arbitrary: d) (auto simp: facts_set_field)

lemma rowKind_facts [simp]: "rowKind (facts_of r) = rowKind r"
  by (simp add: rowKind_def outcome_keys_def)

lemma group_key_facts [simp]: "group_key (facts_of r) = group_key r"
  by (simp add: group_key_def outcome_keys_def)

lemma stamp_facts [simp]: "stamp_text E (facts_of r) = stamp_text E r"
  by (simp add: stamp_text_def outcome_keys_def)

lemma in_window_facts [simp]: "in_window E opt (facts_of r) = in_window E opt r"
  by (simp add: in_window_def outcome_keys_def)

text \<open>What the sheet says before any row is opened.\<close>

definition group_header :: "group \<Rightarrow> json \<times> json \<times> json \<times> string \<times> nat \<times> nat \<times> nat \<times> string" where
  "group_header g = (g_docId g, g_name g, g_day g, g_docChip g, g_chipBase g, g_chipPlus g, length (g_rows g), g_newest g)"

lemma header_update: "group_header g = group_header g' \<Longrightarrow> group_header (g\<lparr>g_docChip := c\<rparr>) = group_header (g'\<lparr>g_docChip := c\<rparr>)"
  by (simp add: group_header_def)

lemma build_group_facts: "group_header (build_group E opt (k, map facts_of rs)) = group_header (build_group E opt (k, rs))"
proof -
  define srt where "srt = sort_by (\<lambda>a b. localeCompare E (stamp_text E a) (stamp_text E b))"
  have s: "srt (map facts_of rs) = map facts_of (srt rs)"
    unfolding srt_def by (rule sort_by_map) simp
  have first: "get (case map facts_of xs of r # _ \<Rightarrow> r | [] \<Rightarrow> JObj []) f = get (case xs of r # _ \<Rightarrow> r | [] \<Rightarrow> JObj []) f"
    if "f \<notin> set outcome_keys" for xs f using that by (cases xs) simp_all
  have f: "foldl (\<lambda>acc r. if acc < stamp_text E r then stamp_text E r else acc) a (map facts_of xs)
      = foldl (\<lambda>acc r. if acc < stamp_text E r then stamp_text E r else acc) a xs" for a xs
    by (induction xs arbitrary: a) simp_all
  show ?thesis
    unfolding build_group_def group_header_def Let_def prod.case srt_def [symmetric] s
    using first [of "''checklist_name''"] first [of "''checklist_date''"] first [of "''overwritten_at''"]
    by (simp add: f filter_map comp_def outcome_keys_def del: list.case)
qed

lemma map_header_cong: "(\<And>x. x \<in> set xs \<Longrightarrow> group_header (f x) = group_header (h x)) \<Longrightarrow> map group_header (map f xs) = map group_header (map h xs)"
  by (induction xs) simp_all

lemma header_doc: "map group_header gs = map group_header gs' \<Longrightarrow> map g_docId gs = map g_docId gs'"
  by (rule map_factor [where f = group_header]) (simp_all add: group_header_def)

lemma sheet_groups_facts: "map group_header (sheet_groups E opt (map facts_of live)) = map group_header (sheet_groups E opt live)"
proof -
  define gs where "gs = map (build_group E opt) (group_by group_key live)"
  define gs' where "gs' = map (build_group E opt) (group_by group_key (map facts_of live))"
  have h: "map group_header gs' = map group_header gs"
    unfolding gs_def gs'_def group_by_map [of group_key facts_of, OF group_key_facts]
    by (simp add: comp_def build_group_facts split_def)
  have upd: "map group_header (map (\<lambda>g. g\<lparr>g_docChip := c (g_docId g)\<rparr>) xs) = map group_header (map (\<lambda>g. g\<lparr>g_docChip := c (g_docId g)\<rparr>) ys)"
    if "map group_header xs = map group_header ys" for xs ys c
    unfolding map_map comp_def by (rule map_factor [OF that]) (simp add: group_header_def)
  show ?thesis
    unfolding sheet_groups_def Let_def gs_def [symmetric] gs'_def [symmetric] header_doc [OF h] by (rule upd [OF h])
qed

definition sheet_header where
  "sheet_header m = (m_status m, m_retentionDays m, map group_header (m_groups m), m_hiddenGroups m, m_hiddenAnswers m, m_collapsed m,
     t_answers (m_totals m), t_unidentified (m_totals m), t_checklists (m_totals m))"

text \<open>The order and the cap read only headers, so they can be computed on them.\<close>

lemma insert_by_header:
  assumes "group_header x = group_header y" and "map group_header xs = map group_header ys"
  shows "map group_header (insert_by (\<lambda>a b. c (g_newest a) (g_newest b)) x xs)
    = map group_header (insert_by (\<lambda>a b. c (g_newest a) (g_newest b)) y ys)"
  using assms(2)
proof (induction xs arbitrary: ys)
  case Nil
  then show ?case using assms(1) by simp
next
  case (Cons x' xs)
  then obtain y' ys' where ys: "ys = y' # ys'" "group_header x' = group_header y'" "map group_header xs = map group_header ys'"
    by (cases ys) auto
  have n: "g_newest x = g_newest y" "g_newest x' = g_newest y'"
    using assms(1) ys(2) by (simp_all add: group_header_def)
  show ?case unfolding ys(1) using Cons.IH [OF ys(3)] ys(2,3) assms(1) n by simp
qed

lemma sort_by_header:
  "map group_header xs = map group_header ys \<Longrightarrow>
     map group_header (sort_by (\<lambda>a b. c (g_newest a) (g_newest b)) xs) = map group_header (sort_by (\<lambda>a b. c (g_newest a) (g_newest b)) ys)"
proof (induction xs arbitrary: ys)
  case (Cons x xs)
  then obtain y ys' where ys: "ys = y # ys'" "group_header x = group_header y" "map group_header xs = map group_header ys'"
    by (cases ys) auto
  show ?case unfolding ys(1) using insert_by_header [OF ys(2) Cons.IH [OF ys(3)]] by (simp add: sort_by_def)
qed simp

lemma model_header:
  assumes "map group_header gs = map group_header gs'"
  shows "map (\<lambda>g. g_chipBase g + g_chipPlus g) gs = map (\<lambda>g. g_chipBase g + g_chipPlus g) gs'"
    and "map (\<lambda>g. length (g_rows g)) gs = map (\<lambda>g. length (g_rows g)) gs'" and "length gs = length gs'"
  using map_eq_imp_length_eq [OF assms] by (auto intro!: map_factor [OF assms] simp: group_header_def)

lemma sheet_header_facts: "sheet_header (buildSheetModel E (JArr (map facts_of rs)) opt) = sheet_header (buildSheetModel E (JArr rs) opt)"
proof -
  define n where "n = (case so_maxGroups opt of Some n \<Rightarrow> n | None \<Rightarrow> MAX_GROUPS)"
  define live where "live = window E opt rs"
  have w: "window E opt (map facts_of rs) = map facts_of live" by (simp add: live_def filter_map comp_def)
  have ord: "map group_header (sheet_order E opt (map facts_of live)) = map group_header (sheet_order E opt live)"
    unfolding sheet_order_def
    using sort_by_header [OF sheet_groups_facts, where c = "\<lambda>a b. localeCompare E b a"] by simp
  have td: "map group_header (take n (sheet_order E opt (map facts_of live))) = map group_header (take n (sheet_order E opt live))"
    "map group_header (drop n (sheet_order E opt (map facts_of live))) = map group_header (drop n (sheet_order E opt live))"
    using ord by (simp_all flip: take_map drop_map)
  have lens: "list_ex (\<lambda>g. COLLAPSE_MAX_ROWS_PER_GROUP < length (g_rows g)) gs = list_ex (\<lambda>k. COLLAPSE_MAX_ROWS_PER_GROUP < k) (map (\<lambda>g. length (g_rows g)) gs)" for gs
    by (induction gs) simp_all
  have counts: "t_answers (m_totals (buildSheetModel E (JArr (map facts_of rs)) opt)) = t_answers (m_totals (buildSheetModel E (JArr rs) opt))"
    "t_unidentified (m_totals (buildSheetModel E (JArr (map facts_of rs)) opt)) = t_unidentified (m_totals (buildSheetModel E (JArr rs) opt))"
    using length_filter_rows [OF mset_order_rows, of "\<lambda>r. r_kind r \<noteq> KIND_UNIDENTIFIED" E opt "map facts_of live"]
      length_filter_rows [OF mset_order_rows, of "\<lambda>r. r_kind r \<noteq> KIND_UNIDENTIFIED" E opt live]
      length_filter_rows [OF mset_order_rows, of "\<lambda>_. True" E opt "map facts_of live"]
      length_filter_rows [OF mset_order_rows, of "\<lambda>_. True" E opt live]
    by (simp_all add: model_parts(1) sheet_totals_of_def Let_def w live_def [symmetric] filter_map comp_def)
  have parts: "sheet_header (buildSheetModel E (JArr xs) opt) = (if window E opt xs = [] then Empty else Ready, days_of opt,
      map group_header (sort_by (\<lambda>a b. localeCompare E (g_newest a) (g_newest b)) (take n (sheet_order E opt (window E opt xs)))),
      length (drop n (sheet_order E opt (window E opt xs))),
      sum_list (map (\<lambda>g. g_chipBase g + g_chipPlus g) (drop n (sheet_order E opt (window E opt xs)))),
      1 < length (sheet_order E opt (window E opt xs)) \<or>
        list_ex (\<lambda>k. COLLAPSE_MAX_ROWS_PER_GROUP < k) (map (\<lambda>g. length (g_rows g)) (sheet_order E opt (window E opt xs))),
      t_answers (m_totals (buildSheetModel E (JArr xs) opt)), t_unidentified (m_totals (buildSheetModel E (JArr xs) opt)),
      length (sheet_order E opt (window E opt xs)))" for xs
    unfolding sheet_header_def
    by (simp add: buildSheetModel_def Let_def withinRetention_def n_def [symmetric] sheet_order_def [symmetric] sheet_totals_of_def lens)
  have same: "length (drop n (sheet_order E opt (map facts_of live))) = length (drop n (sheet_order E opt live))"
    "map facts_of live = [] \<longleftrightarrow> live = []" using model_header(3) [OF td(2)] by blast simp
  show ?thesis
    unfolding parts counts w live_def [symmetric] sort_by_header [OF td(1), where c = "localeCompare E"]
      model_header(1) [OF td(2)] model_header(2,3) [OF ord] same by (rule refl)
qed

section \<open>The memory store\<close>

definition doc_key :: "doc \<Rightarrow> json" where "doc_key d = field d ''id''"

lemma replace_first_None: "replace_first P f ds = None \<longleftrightarrow> list_all (\<lambda>d. \<not> P d) ds"
  by (induction ds) auto

lemma replace_first_Some:
  "replace_first P f ds = Some es \<Longrightarrow> \<exists>xs d ys. ds = xs @ d # ys \<and> P d \<and> es = xs @ f d # ys \<and> list_all (\<lambda>d. \<not> P d) xs"
proof (induction ds arbitrary: es)
  case (Cons d ds)
  show ?case
  proof (cases "P d")
    case True
    then have "d # ds = [] @ d # ds \<and> P d \<and> es = [] @ f d # ds \<and> list_all (\<lambda>d. \<not> P d) []" using Cons.prems by simp
    then show ?thesis by blast
  next
    case False
    then obtain es' where es: "replace_first P f ds = Some es'" "es = d # es'" using Cons.prems by auto
    from Cons.IH [OF es(1)] obtain xs e ys
      where "ds = xs @ e # ys" "P e" "es' = xs @ f e # ys" "list_all (\<lambda>d. \<not> P d) xs" by blast
    then show ?thesis using es(2) False by (intro exI [of _ "d # xs"] exI [of _ e] exI [of _ ys]) simp
  qed
qed simp

lemma rows_emit [simp]: "ms_rows (ms_emit s) = ms_rows s"
  by (simp add: ms_emit_def)

lemma mem_remove_rows [simp]: "mem_all (mem_remove i s) = filter (\<lambda>d. field d ''id'' \<noteq> i) (mem_all s)"
  by (simp add: mem_all_def mem_remove_def)

lemma spread_other: "k \<notin> fst ` set p \<Longrightarrow> field (spread d p) k = field d k"
  unfolding spread_def by (induction p arbitrary: d) auto

lemma mem_patch_rows:
  assumes "distinct (map doc_key (mem_all s))"
  shows "mem_all (mem_patch i p s) = map (\<lambda>d. if doc_key d = i then spread d p else d) (mem_all s)"
proof (cases "replace_first (\<lambda>d. field d ''id'' = i) (\<lambda>d. spread d p) (ms_rows s)")
  case None
  then have "list_all (\<lambda>d. field d ''id'' \<noteq> i) (ms_rows s)" by (simp add: replace_first_None)
  then show ?thesis using None by (auto simp: mem_patch_def mem_all_def doc_key_def list_all_iff intro!: map_idI [symmetric])
next
  case (Some es)
  from replace_first_Some [OF Some] obtain xs d ys
    where e: "ms_rows s = xs @ d # ys" "field d ''id'' = i" "es = xs @ spread d p # ys" "list_all (\<lambda>d. field d ''id'' \<noteq> i) xs" by blast
  have "list_all (\<lambda>d. field d ''id'' \<noteq> i) ys"
    using assms e(1,2) by (simp add: mem_all_def doc_key_def list_all_iff) (metis image_eqI)
  then show ?thesis
    using Some e by (auto simp: mem_patch_def mem_all_def doc_key_def list_all_iff intro!: map_idI [symmetric])
qed

lemma mem_patch_facts:
  assumes "list_all (\<lambda>(k, v). k \<in> set outcome_keys) p"
  shows "map facts_doc (mem_all (mem_patch i p s)) = map facts_doc (mem_all s)"
proof (cases "replace_first (\<lambda>d. field d ''id'' = i) (\<lambda>d. spread d p) (ms_rows s)")
  case None
  then show ?thesis by (simp add: mem_patch_def)
next
  case (Some es)
  from replace_first_Some [OF Some] show ?thesis
    using Some facts_spread [OF assms] by (auto simp: mem_patch_def mem_all_def)
qed

lemma facts_JObj: "map facts_of (map JObj ds) = map JObj (map facts_doc ds)"
  by (simp add: facts_of_def)

lemma header_of_facts:
  assumes "map facts_doc ds = map facts_doc es"
  shows "sheet_header (buildSheetModel E (JArr (map JObj ds)) opt) = sheet_header (buildSheetModel E (JArr (map JObj es)) opt)"
  using sheet_header_facts [of E "map JObj ds" opt] sheet_header_facts [of E "map JObj es" opt]
  unfolding facts_JObj assms by simp

text \<open>What was done to a record never moves the headline. After any patch of a record's status, undone mark and
  failure the sheet has the same groups under the same names, days and chips with the same counts in the same order, the
  same cap line and totals, and the banner prints the same headline, third line and cause.\<close>

theorem headline_is_stable:
  fixes E opt s i p
  assumes "list_all (\<lambda>(k, v). k \<in> {''status'', ''undone'', ''failure''}) p"
  defines "before \<equiv> buildSheetModel E (JArr (map JObj (mem_all s))) opt"
    and "after \<equiv> buildSheetModel E (JArr (map JObj (mem_all (mem_patch i p s)))) opt"
  shows "sheet_header after = sheet_header before
    \<and> map_option (\<lambda>b. (b_headline b, b_unid b, b_cause b)) (bannerModel (Some after))
      = map_option (\<lambda>b. (b_headline b, b_unid b, b_cause b)) (bannerModel (Some before))"
proof -
  have "list_all (\<lambda>(k, v). k \<in> set outcome_keys) p" using assms(1) by (simp add: outcome_keys_def)
  then have "sheet_header after = sheet_header before"
    unfolding before_def after_def by (intro header_of_facts mem_patch_facts)
  then show ?thesis by (auto simp: bannerModel_def sheet_header_def Let_def)
qed

section \<open>Document chips\<close>

definition undec :: "string \<Rightarrow> nat" where
  "undec s = foldl (\<lambda>a c. 10 * a + (of_char c - 48)) 0 s"

lemma undec_dec: "undec (dec n) = n"
proof (induction n rule: dec.induct)
  case (1 n)
  have d: "of_char (char_of (48 + k :: nat) :: char) - 48 = k" if "k < 10" for k :: nat
    using that by (simp add: of_char_of)
  show ?case
  proof (cases "n < 10")
    case True
    then show ?thesis using d [of n] by (subst dec.simps) (simp add: undec_def)
  next
    case False
    then have "undec (dec (n div 10)) = n div 10" by (rule 1)
    then show ?thesis using False d [of "n mod 10"] by (subst dec.simps) (simp add: undec_def)
  qed
qed

lemma shortDocId_chars: "set (shortDocId s) \<subseteq> set s \<union> set ''sub_''"
  by (auto simp: shortDocId_def strip_sub_def dest!: in_set_takeD split: if_splits dest: in_set_dropD)

lemma dotless_chip: "MIDDLE_DOT \<notin> set s \<Longrightarrow> MIDDLE_DOT \<notin> set (shortDocId s)"
  using shortDocId_chars [of s] by (auto simp: MIDDLE_DOT_def)

lemma split_at_dot: "c \<notin> set xs \<Longrightarrow> c \<notin> set xs' \<Longrightarrow> xs @ c # ys = xs' @ c # ys' \<Longrightarrow> xs = xs' \<and> ys = ys'"
  by (induction xs arbitrary: xs') (auto simp: append_eq_Cons_conv Cons_eq_append_conv)

lemma ordinal_chip_inj:
  assumes "MIDDLE_DOT \<notin> set c" "MIDDLE_DOT \<notin> set c'" "ordinal_chip c i = ordinal_chip c' j"
  shows "c = c' \<and> i = j"
proof -
  have "c = c' \<and> dec (i + 1) = dec (j + 1)" if "i \<noteq> 0" "j \<noteq> 0"
    using assms that split_at_dot [OF assms(1,2)] by (simp add: ordinal_chip_def)
  then show ?thesis
    using assms undec_dec [of "i + 1"] undec_dec [of "j + 1"]
    by (cases "i = 0"; cases "j = 0") (auto simp: ordinal_chip_def)
qed

lemma group_by_has: "v \<in> set vs \<Longrightarrow> \<exists>ws. (key v, ws) \<in> set (group_by key vs) \<and> v \<in> set ws"
proof -
  assume "v \<in> set vs"
  then have "v \<in> set (concat (map snd (group_by key vs)))" by (metis group_by_mset set_mset_mset)
  then obtain k ws where "(k, ws) \<in> set (group_by key vs)" "v \<in> set ws" by auto
  then show ?thesis using group_by_member [of k ws key vs] by auto
qed

text \<open>An entry of the chip table names the group of its document and the place in it.\<close>

lemma chip_entry:
  assumes "(s, c) \<in> set (assignDocChips E ids)"
  shows "\<exists>ws i. (shortDocId s, ws) \<in> set (group_by shortDocId (remdups (map (doc_text E) ids))) \<and> i < length ws
    \<and> sort ws ! i = s \<and> c = ordinal_chip (shortDocId s) i"
proof -
  from assms obtain k ws i where k: "(k, ws) \<in> set (group_by shortDocId (remdups (map (doc_text E) ids)))"
      "(i, s) \<in> set (enumerate 0 (sort ws))" "c = ordinal_chip k i"
    by (auto simp: assignDocChips_def)
  then have i: "i < length ws" "sort ws ! i = s" by (auto simp: in_set_enumerate_eq)
  then have "s \<in> set ws" by (metis length_sort nth_mem set_sort)
  then have "shortDocId s = k" using group_by_member [OF k(1)] by simp
  then show ?thesis using k i by blast
qed

lemma chip_of_doc:
  assumes "d \<in> set ids"
  shows "\<exists>c. map_of (assignDocChips E ids) (doc_text E d) = Some c"
proof -
  have "doc_text E d \<in> set (remdups (map (doc_text E) ids))" using assms by simp
  from group_by_has [OF this, of shortDocId] obtain ws where
    w: "(shortDocId (doc_text E d), ws) \<in> set (group_by shortDocId (remdups (map (doc_text E) ids)))" "doc_text E d \<in> set ws" by blast
  then obtain i where i: "i < length ws" "sort ws ! i = doc_text E d" by (metis in_set_conv_nth length_sort set_sort)
  then have "(i, doc_text E d) \<in> set (enumerate 0 (sort ws))" by (simp add: in_set_enumerate_eq)
  then have "doc_text E d \<in> fst ` set (assignDocChips E ids)"
    using w(1) unfolding assignDocChips_def by (force simp: image_iff)
  then have "map_of (assignDocChips E ids) (doc_text E d) \<noteq> None" by (simp add: map_of_eq_None_iff)
  then show ?thesis by blast
qed

lemma chips_differ:
  assumes "list_all (\<lambda>d. MIDDLE_DOT \<notin> set (doc_text E d)) ids" and "a \<in> set ids" "b \<in> set ids"
    and "map_of (assignDocChips E ids) (doc_text E a) = map_of (assignDocChips E ids) (doc_text E b)"
  shows "doc_text E a = doc_text E b"
proof -
  obtain c where c: "map_of (assignDocChips E ids) (doc_text E a) = Some c" "map_of (assignDocChips E ids) (doc_text E b) = Some c"
    using chip_of_doc [OF assms(2), of E] assms(4) by auto
  from chip_entry [OF map_of_SomeD [OF c(1)]] obtain ws i where a: "(shortDocId (doc_text E a), ws) \<in> set (group_by shortDocId (remdups (map (doc_text E) ids)))"
    "sort ws ! i = doc_text E a" "c = ordinal_chip (shortDocId (doc_text E a)) i" by blast
  from chip_entry [OF map_of_SomeD [OF c(2)]] obtain us j where b: "(shortDocId (doc_text E b), us) \<in> set (group_by shortDocId (remdups (map (doc_text E) ids)))"
    "sort us ! j = doc_text E b" "c = ordinal_chip (shortDocId (doc_text E b)) j" by blast
  have dot: "MIDDLE_DOT \<notin> set (shortDocId (doc_text E a))" "MIDDLE_DOT \<notin> set (shortDocId (doc_text E b))"
    using assms(1-3) by (auto simp: list_all_iff intro!: dotless_chip)
  have "shortDocId (doc_text E a) = shortDocId (doc_text E b) \<and> i = j"
    using ordinal_chip_inj [OF dot, of i j] unfolding a(3) [symmetric] b(3) [symmetric] by simp
  moreover from this have "ws = us"
    using a(1) b(1) group_by_distinct [of shortDocId "remdups (map (doc_text E) ids)"] by (metis eq_key_imp_eq_value)
  ultimately show ?thesis using a(2) b(2) by simp
qed

lemma sheet_group_ids: "map g_docId (sheet_groups E opt live) = map fst (group_by group_key live)"
  by (simp add: sheet_groups_def Let_def comp_def build_group_def split_def)

lemma sheet_group_chip:
  assumes "g \<in> set (sheet_groups E opt live)"
  shows "map_of (assignDocChips E (map g_docId (sheet_groups E opt live))) (doc_text E (g_docId g)) = Some (g_docChip g)"
proof -
  define gs where "gs = map (build_group E opt) (group_by group_key live)"
  have ids: "map g_docId (sheet_groups E opt live) = map g_docId gs"
    by (simp add: sheet_groups_def Let_def gs_def comp_def)
  from assms obtain h where h: "h \<in> set gs"
    "g = h\<lparr>g_docChip := (case map_of (assignDocChips E (map g_docId gs)) (doc_text E (g_docId h)) of Some c \<Rightarrow> c | None \<Rightarrow> [])\<rparr>"
    by (auto simp: sheet_groups_def Let_def gs_def)
  then obtain c where "map_of (assignDocChips E (map g_docId gs)) (doc_text E (g_docId h)) = Some c"
    using chip_of_doc [of "g_docId h" "map g_docId gs" E] by auto
  then show ?thesis unfolding ids using h(2) by simp
qed

text \<open>Two groups on one sheet never carry the same chip. When no document id holds a middle dot, two drawn groups whose
  document ids print differently have different chips, whatever records there are and wherever the cap line falls.\<close>

theorem chips_tell_groups_apart:
  fixes rs E opt
  defines "m \<equiv> buildSheetModel E (JArr rs) opt"
  assumes "list_all (\<lambda>r. MIDDLE_DOT \<notin> set (doc_text E (group_key r))) rs"
    and "g \<in> set (m_groups m)" "h \<in> set (m_groups m)" "doc_text E (g_docId g) \<noteq> doc_text E (g_docId h)"
  shows "g_docChip g \<noteq> g_docChip h"
proof
  assume same: "g_docChip g = g_docChip h"
  define live where "live = window E opt rs"
  have sub: "set (m_groups m) \<subseteq> set (sheet_groups E opt live)"
  proof -
    have "set (m_groups m) \<subseteq> set (sheet_order E opt live)"
      using model_parts(3) [of E rs opt] by (metis live_def m_def set_mset_mset set_take_subset)
    then show ?thesis by (simp add: sheet_order_def)
  qed
  let ?ids = "map g_docId (sheet_groups E opt live)"
  have "\<exists>r \<in> set live. group_key r = d" if "d \<in> set ?ids" for d
  proof -
    from that obtain ws where "(d, ws) \<in> set (group_by group_key live)" unfolding sheet_group_ids by auto
    moreover from group_by_member [OF this] obtain w where "w \<in> set ws" "group_key w = d" by (cases ws) auto
    ultimately have "w \<in> set (concat (map snd (group_by group_key live)))" by force
    then show ?thesis using \<open>group_key w = d\<close> by (metis group_by_mset set_mset_mset)
  qed
  then have "list_all (\<lambda>d. MIDDLE_DOT \<notin> set (doc_text E d)) ?ids"
    using assms(2) unfolding list_all_iff live_def by force
  moreover have "map_of (assignDocChips E ?ids) (doc_text E (g_docId g)) = map_of (assignDocChips E ?ids) (doc_text E (g_docId h))"
    using sheet_group_chip [OF subsetD [OF sub assms(3)]] sheet_group_chip [OF subsetD [OF sub assms(4)]] same by simp
  ultimately have "doc_text E (g_docId g) = doc_text E (g_docId h)"
    using sub assms(3,4) by (intro chips_differ [where ids = ?ids]) auto
  then show False using assms(5) by simp
qed

section \<open>Concrete sheets\<close>

definition demo_env :: env where
  "demo_env = \<lparr>parse_date = (\<lambda>_. Some 1000), clock_text = (\<lambda>_ _. Some ''6:12 PM''), day_text = (\<lambda>_ _. Some ''Sat''),
     localeCompare = (\<lambda>a b. int (length a) - int (length b)), text_of = (\<lambda>_. [])\<rparr>"

definition demo_opts :: sheet_opts where
  "demo_opts = \<lparr>so_now = Some (-8640000000000000), so_retentionDays = None, so_maxGroups = None, so_timeZone = None,
     so_heap = \<lparr>objs = (\<lambda>_ _. Some (Prim JUndef)), arrs = (\<lambda>_. [])\<rparr>, so_snapshots = (\<lambda>_. Prim JUndef)\<rparr>"

definition demo_records :: "doc list" where
  "demo_records =
     [[(''id'', JStr ''a''), (''doc_id'', JStr ''cap1-0001''), (''discarded_value'', JBool True), (''overwritten_at'', JStr ''t'')],
      [(''id'', JStr ''b''), (''doc_id'', JStr ''cap2-0001''), (''discarded_value'', JNull), (''overwritten_at'', JStr ''tt'')]]"

theorem headline_is_stable_witness:
  "sheet_header (buildSheetModel demo_env
      (JArr (map JObj (mem_all (mem_patch (JStr ''a'') [(''status'', JStr ''kept'')] (createMemoryConflictStore demo_records))))) demo_opts)
   = sheet_header (buildSheetModel demo_env (JArr (map JObj (mem_all (createMemoryConflictStore demo_records)))) demo_opts)"
  using headline_is_stable [of "[(''status'', JStr ''kept'')]"] by simp

theorem chips_tell_groups_apart_witness:
  "list_all (\<lambda>g. list_all (\<lambda>h. doc_text demo_env (g_docId g) = doc_text demo_env (g_docId h) \<or> g_docChip g \<noteq> g_docChip h)
      (m_groups (buildSheetModel demo_env (JArr (map JObj demo_records)) demo_opts)))
    (m_groups (buildSheetModel demo_env (JArr (map JObj demo_records)) demo_opts))"
proof -
  have d: "list_all (\<lambda>r. MIDDLE_DOT \<notin> set (doc_text demo_env (group_key r))) (map JObj demo_records)"
    by (simp add: demo_records_def group_key_def get_def field_def js_or_def doc_text_def String_of_def MIDDLE_DOT_def)
  show ?thesis using chips_tell_groups_apart [OF d] unfolding list_all_iff by blast
qed

end
