(* ===== verification/ConflictStoreProps.thy ===== *)
theory ConflictStoreProps
  imports ConflictNoticeProps ConflictProps
begin

text \<open>
  From a merge to the screen: the records of a conflict are stored under one key per document and field, hold the value
  the merge threw away, fit their schema but for the length of that key, and leave the store only past the window.
\<close>

section \<open>The store as a map\<close>

definition row_map :: "doc list \<Rightarrow> json \<Rightarrow> doc option" where
  "row_map ds i = map_of (map (\<lambda>d. (doc_key d, d)) ds) i"

definition keyed :: "doc list \<Rightarrow> bool" where
  "keyed ds \<longleftrightarrow> distinct (map doc_key ds)"

lemma row_map_Some: "row_map ds i = Some d \<Longrightarrow> d \<in> set ds \<and> doc_key d = i"
  unfolding row_map_def by (auto dest: map_of_SomeD)

lemma row_map_in: "keyed ds \<Longrightarrow> d \<in> set ds \<Longrightarrow> row_map ds (doc_key d) = Some d"
  unfolding row_map_def keyed_def by (intro map_of_is_SomeI) (auto simp: comp_def)

lemma row_map_append: "row_map (xs @ ys) i = (case row_map xs i of None \<Rightarrow> row_map ys i | Some d \<Rightarrow> Some d)"
  by (simp add: row_map_def map_add_def split: option.split)

lemma row_map_Cons: "row_map (d # ds) i = (if i = doc_key d then Some d else row_map ds i)"
  by (simp add: row_map_def)

lemma mem_upsert_map:
  assumes "keyed (mem_all s)"
  shows "keyed (mem_all (mem_upsert r s)) \<and>
    row_map (mem_all (mem_upsert r s)) i = (if i = doc_key r then Some r else row_map (mem_all s) i)"
proof (cases "replace_first (\<lambda>d. field d ''id'' = field r ''id'') (\<lambda>_. r) (ms_rows s)")
  case None
  then have n: "list_all (\<lambda>d. doc_key d \<noteq> doc_key r) (ms_rows s)" by (simp add: replace_first_None doc_key_def)
  then have "row_map (ms_rows s) (doc_key r) = None"
    using row_map_Some [of "ms_rows s" "doc_key r"] by (cases "row_map (ms_rows s) (doc_key r)") (auto simp: list_all_iff)
  then show ?thesis
    using None n assms by (auto simp: mem_upsert_def mem_all_def keyed_def list_all_iff row_map_append row_map_Cons
        row_map_def [of "[]"] split: option.split)
next
  case (Some es)
  from replace_first_Some [OF Some] obtain xs d ys
    where e: "ms_rows s = xs @ d # ys" "field d ''id'' = field r ''id''" "es = xs @ r # ys" by blast
  have k: "doc_key d = doc_key r" using e(2) by (simp add: doc_key_def)
  have "doc_key r \<notin> doc_key ` set xs" using assms by (simp add: keyed_def mem_all_def e(1) k)
  then have x: "row_map xs (doc_key r) = None"
    by (simp add: row_map_def map_of_eq_None_iff image_image)
  have rows: "mem_all (mem_upsert r s) = xs @ r # ys" "mem_all s = xs @ d # ys"
    using Some e by (simp_all add: mem_upsert_def mem_all_def)
  have "keyed (xs @ r # ys)" using assms unfolding rows(2) keyed_def by (simp add: k)
  moreover have "row_map (xs @ r # ys) i = (if i = doc_key r then Some r else row_map (xs @ d # ys) i)"
    using x by (simp add: row_map_append row_map_Cons k split: option.split)
  ultimately show ?thesis unfolding rows by blast
qed

lemma upserts_map:
  "keyed (mem_all s) \<Longrightarrow> keyed (mem_all (foldl (\<lambda>s r. mem_upsert r s) s rs)) \<and>
     row_map (mem_all (foldl (\<lambda>s r. mem_upsert r s) s rs)) i
       = (case row_map (rev rs) i of None \<Rightarrow> row_map (mem_all s) i | Some r \<Rightarrow> Some r)"
proof (induction rs arbitrary: s)
  case Nil
  then show ?case by (simp add: row_map_def)
next
  case (Cons r rs)
  have k: "keyed (mem_all (mem_upsert r s))" using mem_upsert_map [OF Cons.prems] by blast
  show ?case
    using Cons.IH [OF k] mem_upsert_map [OF Cons.prems, of r i]
    by (auto simp: row_map_append row_map_Cons row_map_def [of "[]"] split: option.split)
qed

section \<open>The records of a conflict\<close>

lemma record_fields [simp]:
  "doc_key (recordFromClash E now d c ctx) = JStr (recordIdFor E (row_id d) (JStr (clash_field c)))"
  "field (recordFromClash E now d c ctx) ''discarded_value'' = or_null (discarded c)"
  "field (recordFromClash E now d c ctx) ''current_value'' = or_null (winner c)"
  "field (recordFromClash E now d c ctx) ''field_id'' = JStr (clash_field c)"
  "field (recordFromClash E now d c ctx) ''status'' = JStr ''open''"
  by (simp_all add: recordFromClash_def doc_key_def field_def)

lemma recordIdFor_field: "recordIdFor E i (JStr f) = recordIdFor E i (JStr g) \<longleftrightarrow> f = g"
  by (auto simp: recordIdFor_def js_or_def String_of_def split: if_splits)

lemma describe_parts:
  assumes "describeConflict (Some inp) opts = Inr d"
  shows "\<exists>r master. realMasterState inp = Some master \<and> resolveConflict inp opts = Inr r \<and> row_clashes d = clashes r \<and> row_master d = master"
  using assms resolve_total [of inp opts]
  by (cases "realMasterState inp") (auto simp: describeConflict_def Let_def split: sum.splits prod.splits)

lemma clash_fields_distinct:
  assumes "describeConflict (Some inp) opts = Inr d"
  shows "distinct (map clash_field (row_clashes d))"
proof -
  from describe_parts [OF assms] obtain r master where r: "realMasterState inp = Some master" "resolveConflict inp opts = Inr r"
    "row_clashes d = clashes r" by blast
  show ?thesis
    unfolding r(3) resolve_clashes [OF r(1,2)] by (simp add: comp_def merge_fields_def mergeable_distinct)
qed

lemma conflict_records:
  assumes "describeConflict (Some inp) opts = Inr d" and "c \<in> set (row_clashes d)" and "keyed (mem_all s)"
  shows "keyed (mem_all (foldl (\<lambda>s r. mem_upsert r s) s (recordsFromConflict E now (Some d) ctx)))
    \<and> row_map (mem_all (foldl (\<lambda>s r. mem_upsert r s) s (recordsFromConflict E now (Some d) ctx)))
        (JStr (recordIdFor E (row_id d) (JStr (clash_field c)))) = Some (recordFromClash E now d c ctx)"
proof -
  let ?rs = "map (\<lambda>c. recordFromClash E now d c ctx) (row_clashes d)"
  have "distinct (map (\<lambda>c. recordIdFor E (row_id d) (JStr (clash_field c))) (row_clashes d))"
    using clash_fields_distinct [OF assms(1)] by (auto simp: distinct_map inj_on_def recordIdFor_field)
  then have "keyed (rev ?rs)" by (simp add: keyed_def rev_map comp_def) (simp add: distinct_map inj_on_def)
  moreover have "recordFromClash E now d c ctx \<in> set (rev ?rs)" using assms(2) by simp
  ultimately have "row_map (rev ?rs) (doc_key (recordFromClash E now d c ctx)) = Some (recordFromClash E now d c ctx)"
    by (rule row_map_in)
  then show ?thesis
    using upserts_map [OF assms(3), of ?rs] by (simp add: recordsFromConflict_def)
qed

lemma get_JObj [simp]: "get (JObj d) k = field d k"
  by (simp add: get_def)


section \<open>The sweep\<close>

lemma removals:
  "mem_all (fst (foldl (\<lambda>(s, n) r. if field r ''id'' \<notin> K then (mem_remove (field r ''id'') s, n + 1) else (s, n)) (s, n) rs))
     = filter (\<lambda>d. list_all (\<lambda>r. doc_key r \<in> K \<or> doc_key d \<noteq> doc_key r) rs) (mem_all s)
   \<and> snd (foldl (\<lambda>(s, n :: nat) r. if field r ''id'' \<notin> K then (mem_remove (field r ''id'') s, n + 1) else (s, n)) (s, n) rs)
     = n + length (filter (\<lambda>r. doc_key r \<notin> K) rs)"
proof (induction rs arbitrary: s n)
  case (Cons r rs)
  then show ?case by (auto simp: doc_key_def intro!: filter_cong)
qed simp

lemma window_filter: "window E opt (map JObj (filter (\<lambda>d. in_window E opt (JObj d)) ds)) = window E opt (map JObj ds)"
  by (induction ds) auto

text \<open>The sweep deletes exactly the records past the retention window, reports how many, keeps a record whose stamp
  cannot be read, and cannot be seen: the sheet after it is the sheet before it.\<close>

theorem sweep_is_invisible:
  assumes "keyed (mem_all s)"
  shows "mem_all (fst (sweepExpired E opt s)) = filter (\<lambda>d. in_window E opt (JObj d)) (mem_all s)
    \<and> snd (sweepExpired E opt s) + length (mem_all (fst (sweepExpired E opt s))) = length (mem_all s)
    \<and> buildSheetModel E (JArr (map JObj (mem_all (fst (sweepExpired E opt s))))) opt
      = buildSheetModel E (JArr (map JObj (mem_all s))) opt"
proof -
  let ?in = "\<lambda>d. in_window E opt (JObj d)"
  define K where "K = set (map (\<lambda>r. get r ''id'') (withinRetention E (JArr (map JObj (mem_all s))) opt))"
  have K: "doc_key d \<in> K \<longleftrightarrow> ?in d" if "d \<in> set (mem_all s)" for d
  proof
    assume "doc_key d \<in> K"
    then obtain e where e: "e \<in> set (mem_all s)" "?in e" "doc_key e = doc_key d"
      by (auto simp: K_def withinRetention_def doc_key_def)
    have "row_map (mem_all s) (doc_key e) = Some e" by (rule row_map_in [OF assms e(1)])
    then have "Some d = Some e" unfolding e(3) row_map_in [OF assms that] .
    then have "e = d" by simp
    then show "?in d" using e(2) by simp
  next
    assume "?in d"
    then show "doc_key d \<in> K" using that by (force simp: K_def withinRetention_def doc_key_def)
  qed
  have s: "sweepExpired E opt s = foldl (\<lambda>(s, n) r. if field r ''id'' \<notin> K then (mem_remove (field r ''id'') s, n + 1) else (s, n))
      (s, 0) (mem_all s)"
    unfolding sweepExpired_def Let_def K_def by (rule refl)
  have keep: "list_all (\<lambda>r. doc_key r \<in> K \<or> doc_key d \<noteq> doc_key r) (mem_all s) \<longleftrightarrow> ?in d" if "d \<in> set (mem_all s)" for d
  proof
    assume "list_all (\<lambda>r. doc_key r \<in> K \<or> doc_key d \<noteq> doc_key r) (mem_all s)"
    then show "?in d" using that K [OF that] by (auto simp: list_all_iff)
  next
    assume "?in d"
    then show "list_all (\<lambda>r. doc_key r \<in> K \<or> doc_key d \<noteq> doc_key r) (mem_all s)"
      using K [OF that] by (auto simp: list_all_iff)
  qed
  have rows: "mem_all (fst (sweepExpired E opt s)) = filter ?in (mem_all s)"
    unfolding s using removals [of K s 0 "mem_all s"] keep by (auto cong: filter_cong)
  have "snd (sweepExpired E opt s) = length (filter (\<lambda>d. \<not> ?in d) (mem_all s))"
    unfolding s using removals [of K s 0 "mem_all s"] K by (auto cong: filter_cong)
  then have "snd (sweepExpired E opt s) + length (mem_all (fst (sweepExpired E opt s))) = length (mem_all s)"
    unfolding rows using filter_split_length [of ?in "mem_all s"] by linarith
  moreover have "buildSheetModel E (JArr (map JObj (filter ?in (mem_all s)))) opt = buildSheetModel E (JArr (map JObj (mem_all s))) opt"
    unfolding buildSheetModel_def withinRetention_def by (simp only: json.case window_filter)
  ultimately show ?thesis unfolding rows by simp
qed

section \<open>The record and its schema\<close>

definition short :: "nat \<Rightarrow> json \<Rightarrow> bool" where
  "short n v \<longleftrightarrow> (case v of JStr s \<Rightarrow> length s \<le> n | JUndef \<Rightarrow> True | JNull \<Rightarrow> True | _ \<Rightarrow> False)"

definition storable :: "json \<Rightarrow> bool" where
  "storable v \<longleftrightarrow> (case v of JArr _ \<Rightarrow> False | _ \<Rightarrow> True)"

definition context_ok :: "doc \<Rightarrow> bool" where
  "context_ok ctx \<longleftrightarrow> short 40 (field ctx ''collection'') \<and> short 36 (field ctx ''submissionId'') \<and> short 400 (field ctx ''fieldLabel'')
     \<and> short 40 (field ctx ''fieldType'') \<and> short 16 (field ctx ''displayUnit'') \<and> short 200 (field ctx ''checklistName'')
     \<and> short 40 (field ctx ''checklistDate'') \<and> short 120 (field ctx ''actorName'') \<and> short 40 (field ctx ''now'')"

lemma field_Cons: "field ((k, v) # d) j = (if j = k then v else field d j)" "field [] j = JUndef"
  by (simp_all add: field_def)

lemma nullable_ok: "short n v \<Longrightarrow> prop_ok (nullable_upto n) (js_or v JNull)"
  by (cases v) (auto simp: short_def js_or_def prop_ok_def nullable_upto_def typed_def has_type_def)

lemma nullable_uuid: "NULLABLE_UUID = nullable_upto 36"
  by (simp add: NULLABLE_UUID_def nullable_upto_def)

lemma value_ok: "storable v \<Longrightarrow> prop_ok JSON_VALUE (or_null v)"
  by (cases v) (auto simp: storable_def or_null_def prop_ok_def JSON_VALUE_def typed_def has_type_def)

lemma js_or_JStr: "short n v \<Longrightarrow> \<exists>t. js_or v (JStr s) = JStr t"
  by (cases v) (auto simp: short_def js_or_def)

lemma stamp_ok: "short n v \<Longrightarrow> short k u \<Longrightarrow> prop_ok TIMESTAMP (js_or v (js_or u (JStr s)))"
  using js_or_JStr [of k u s]
  by (cases v) (auto simp: short_def js_or_def TIMESTAMP_def prop_ok_def typed_def has_type_def)

lemma uuid_ok: "prop_ok UUID (JStr s) \<longleftrightarrow> length s \<le> 36" "prop_ok (text_upto n) (JStr s) \<longleftrightarrow> length s \<le> n"
  by (simp_all add: UUID_def text_upto_def prop_ok_def typed_def has_type_def)

lemma flag_ok: "prop_ok (typed [T_Boolean]) (JBool b)"
  by (simp add: prop_ok_def typed_def has_type_def)

lemma js_or_chain: "short n u \<Longrightarrow> short n v \<Longrightarrow> prop_ok (nullable_upto n) (js_or u (js_or v JNull))"
  using nullable_ok [of n u] nullable_ok [of n v] by (auto simp: js_or_def)

lemma not_undef: "js_or v JNull \<noteq> JUndef" "js_or v (js_or u JNull) \<noteq> JUndef" "or_null v \<noteq> JUndef" "js_or v (js_or u (JStr s)) \<noteq> JUndef"
  by (auto simp: js_or_def or_null_def)

definition roomy_schema :: schema where
  "roomy_schema = (c_schema conflict_records)\<lparr>properties :=
     (''id'', text_upto 74) # tl (properties (c_schema conflict_records))\<rparr>"

text \<open>C30: A record of a clash between well-formed rows fits the schema of conflict_records in every field but one. The
  key is the two ids with two colons between them, so it fits the UUID the schema declares for it only when the ids
  are at most 34 characters together; with room for the key it always conforms.\<close>

theorem record_fits_schema:
  assumes "row_id d = JStr i" "i \<noteq> []" "length i \<le> 36" "length (clash_field c) \<le> 36"
    and "storable (discarded c)" "storable (winner c)" "short 36 (winnerActor d)" "short 40 (winnerAt d)"
    and "short 36 (field (row_master d) ''submission_id'')" "context_ok ctx"
  shows "conforms roomy_schema (recordFromClash E now d c ctx)
    \<and> (conforms (c_schema conflict_records) (recordFromClash E now d c ctx) \<longleftrightarrow> length i + length (clash_field c) \<le> 34)"
proof -
  have ctx: "short 40 (field ctx ''collection'')" "short 36 (field ctx ''submissionId'')" "short 400 (field ctx ''fieldLabel'')"
    "short 40 (field ctx ''fieldType'')" "short 16 (field ctx ''displayUnit'')" "short 200 (field ctx ''checklistName'')"
    "short 40 (field ctx ''checklistDate'')" "short 120 (field ctx ''actorName'')" "short 40 (field ctx ''now'')"
    using assms(10) by (simp_all add: context_ok_def)
  have key: "recordIdFor E (row_id d) (JStr (clash_field c)) = i @ ''::'' @ clash_field c"
    using assms(2) by (auto simp: recordIdFor_def assms(1) js_or_def String_of_def)
  have doc: "String_of E (js_or (row_id d) (JStr [])) = i" using assms(2) by (simp add: assms(1) js_or_def String_of_def)
  have st: "prop_ok (one_of [T_String] [JStr ''open'', JStr ''restoring'', JStr ''restored'', JStr ''failed'', JStr ''kept'']) (JStr ''open'')"
    "prop_ok (one_of [T_String, T_Null] [JStr ''offline'', JStr ''conflict'', JNull]) JNull"
    by (simp_all add: one_of_def prop_ok_def typed_def has_type_def)
  have ts: "prop_ok TIMESTAMP (js_or (winnerAt d) (js_or (field ctx ''now'') (JStr now)))" by (rule stamp_ok [OF assms(8) ctx(9)])
  have room: "length i + length (clash_field c) \<le> 72" "length i \<le> 64" using assms(3,4) by linarith+
  note ok = ts room nullable_ok value_ok stamp_ok uuid_ok flag_ok st js_or_chain nullable_uuid assms(3-9) ctx key doc
  show ?thesis
    by (auto simp: conforms_def roomy_schema_def conflict_records_def table_schema_def recordFromClash_def ok field_Cons not_undef)
qed

section \<open>The running example, stored\<close>

definition demo_row :: conflict_row where
  "demo_row = \<lparr>row_id = JStr ''r1'', row_baseline = Assumed_Master, row_clashes = [note_clash], winnerActor = field demo_master ''updated_by'',
     winnerAt = JNull, row_assumed = Some demo_assumed, row_fork = Some demo_fork, row_master = demo_master\<rparr>"



lemma demo_window: "in_window demo_env demo_opts (JObj r)"
  by (simp add: in_window_def demo_env_def demo_opts_def time_of_def days_of_def RETENTION_DAYS_def CONFLICT_RECORD_RETENTION_DAYS_def
      MS_PER_DAY_def split: json.split)


theorem sweep_is_invisible_witness:
  "mem_all (fst (sweepExpired demo_env demo_opts (createMemoryConflictStore [[(''id'', JStr ''a'')], [(''id'', JStr ''b'')]])))
     = [[(''id'', JStr ''a'')], [(''id'', JStr ''b'')]]"
  using sweep_is_invisible [of "createMemoryConflictStore [[(''id'', JStr ''a'')], [(''id'', JStr ''b'')]]" demo_env demo_opts]
  by (simp add: keyed_def mem_all_def createMemoryConflictStore_def doc_key_def field_def demo_window)

definition uuid_a :: string where "uuid_a = ''0b9a4c9e-6f0e-4c53-9a57-1f1f0a6b2c11''"
definition uuid_b :: string where "uuid_b = ''7d1d3a52-0f43-4b8e-8a0b-5c9d2f7e6a22''"

definition uuid_row :: conflict_row where
  "uuid_row = demo_row\<lparr>row_id := JStr uuid_a, winnerActor := JStr uuid_b\<rparr>"

theorem record_fits_schema_witness:
  "conforms roomy_schema (recordFromClash demo_env ''now'' uuid_row (note_clash\<lparr>clash_field := uuid_b\<rparr>) [])
   \<and> \<not> conforms (c_schema conflict_records) (recordFromClash demo_env ''now'' uuid_row (note_clash\<lparr>clash_field := uuid_b\<rparr>) [])"
  using record_fits_schema [of uuid_row uuid_a "note_clash\<lparr>clash_field := uuid_b\<rparr>" "[]" demo_env "''now''"]
  by (simp add: uuid_row_def uuid_a_def uuid_b_def demo_row_def note_clash_def storable_def short_def context_ok_def field_def demo_docs)

end
