(* ===== verification/ConflictSheetProps.thy ===== *)
theory ConflictSheetProps
  imports ConflictSheet ConflictStoreProps
begin

text \<open>
  The mounted screen over any store that keeps its promises. The interface is what the component relies on: a patch of an
  outcome changes no other fact of any record, a removal drops the record named and no other. The memory store and the
  RxDB store both provide it, so what is proved once holds for both.
\<close>

section \<open>The store interface\<close>

definition facts :: "doc list \<Rightarrow> doc multiset" where
  "facts ds = image_mset facts_doc (mset ds)"

definition outcome :: "doc \<Rightarrow> bool" where
  "outcome p \<longleftrightarrow> list_all (\<lambda>(k, v). k \<in> set outcome_keys) p"

lemma doc_key_facts [simp]: "doc_key (facts_doc d) = doc_key d"
  by (simp add: doc_key_def field_facts outcome_keys_def)

definition dropped :: "ui_event \<Rightarrow> json option" where
  "dropped ev = (case ev of Tap Cn_Dismiss i readable \<Rightarrow> Some i | _ \<Rightarrow> None)"

locale conflict_store =
  fixes ops :: "'s store_ops"
  assumes patch_facts: "outcome p \<Longrightarrow> facts (st_all ops (st_patch ops i p s)) = facts (st_all ops s)"
    and remove_facts: "facts (st_all ops (st_remove ops i s)) = filter_mset (\<lambda>d. doc_key d \<noteq> i) (facts (st_all ops s))"
begin

definition fresh :: "env \<Rightarrow> sheet_opts \<Rightarrow> 's sheet_ui \<Rightarrow> bool" where
  "fresh E opt u \<longleftrightarrow> ui_records u = st_all ops (ui_store u) \<and> ui_model u = model_of E opt (ui_expanded u) (ui_records u)"

definition kept :: "'s sheet_ui \<Rightarrow> 's sheet_ui \<Rightarrow> bool" where
  "kept u v \<longleftrightarrow> facts (st_all ops (ui_store v)) = facts (st_all ops (ui_store u))"

lemma fresh_refresh: "fresh E opt (refresh E opt ops u)"
  by (simp add: fresh_def refresh_def rebuild_def)

lemma kept_patch: "outcome p \<Longrightarrow> kept u (ui_patch E opt ops i p u)"
  by (simp add: kept_def ui_patch_def refresh_def rebuild_def patch_facts)

lemma kept_trans: "kept u v \<Longrightarrow> kept v w \<Longrightarrow> kept u w"
  by (simp add: kept_def)

lemma outcomes [simp]:
  "outcome [(''status'', v), (''failure'', w)]" "outcome [(''status'', v), (''undone'', w)]" "outcome (outcome_fields r)"
  by (auto simp: outcome_def outcome_keys_def outcome_fields_def split: write_result.split)

lemma restore_keeps: "kept u (ui_restore E opt ops is u) \<and> (fresh E opt u \<longrightarrow> fresh E opt (ui_restore E opt ops is u))"
proof (induction "is" arbitrary: u)
  case Nil
  then show ?case by (simp add: kept_def)
next
  case (Cons i rest)
  show ?case
  proof (cases "findRow (ui_model u) i")
    case None
    then show ?thesis using Cons.IH by simp
  next
    case (Some r)
    define v where "v = ui_patch E opt ops i [(''status'', JStr ''restoring''), (''failure'', JNull)] u"
    have "kept u v" "fresh E opt v" unfolding v_def by (rule kept_patch) (simp_all add: ui_patch_def fresh_refresh)
    moreover have e: "ui_restore E opt ops (i # rest) u =
        v\<lparr>ui_writes := ui_writes v @ [r], ui_pending := ui_pending v @ [\<lparr>pd_id = i, pd_rest = rest\<rparr>]\<rparr>"
      using Some by (simp add: v_def Let_def)
    ultimately show ?thesis unfolding e by (simp add: kept_def fresh_def)
  qed
qed

lemma step_keeps:
  assumes "fresh E opt u"
  shows "fresh E opt (ui_step E opt ops u ev)
    \<and> facts (st_all ops (ui_store (ui_step E opt ops u ev)))
      = filter_mset (\<lambda>d. dropped ev \<noteq> Some (doc_key d)) (facts (st_all ops (ui_store u)))"
proof (cases ev)
  case (Settled k w)
  show ?thesis
  proof (cases "k < length (ui_pending u)")
    case False
    then show ?thesis using assms by (simp add: Settled ui_step_def restore_settled_def dropped_def)
  next
    case True
    define v where "v = ui_patch E opt ops (pd_id (ui_pending u ! k)) (outcome_fields w) (u\<lparr>ui_pending := take k (ui_pending u) @ drop (k + 1) (ui_pending u)\<rparr>)"
    have "kept (u\<lparr>ui_pending := take k (ui_pending u) @ drop (k + 1) (ui_pending u)\<rparr>) v" "fresh E opt v"
      unfolding v_def by (rule kept_patch) (simp_all add: ui_patch_def fresh_refresh)
    moreover have "ui_step E opt ops u ev = ui_restore E opt ops (pd_rest (ui_pending u ! k)) v"
      using True by (simp add: Settled ui_step_def restore_settled_def Let_def v_def)
    ultimately show ?thesis
      using restore_keeps [of v E opt "pd_rest (ui_pending u ! k)"] by (simp add: dropped_def Settled kept_def)
  qed
next
  case Told
  then show ?thesis by (simp add: ui_step_def fresh_refresh dropped_def) (simp add: refresh_def rebuild_def)
next
  case (Tap a i readable)
  show ?thesis
  proof (cases a)
    case Cn_Commit
    have c: "fresh E opt (u\<lparr>ui_confirmFor := None\<rparr>)" using assms by (simp add: fresh_def)
    show ?thesis
    proof (cases "group_of (ui_model u) i")
      case None
      then show ?thesis using c by (simp add: Tap Cn_Commit ui_step_def onClick_def dropped_def)
    next
      case (Some g)
      then show ?thesis
        using restore_keeps [of "u\<lparr>ui_confirmFor := None\<rparr>" E opt "g_batchIds g"] c
        by (simp add: Tap Cn_Commit ui_step_def onClick_def dropped_def kept_def)
    qed
  next
    case Cn_Restore
    then show ?thesis
      using restore_keeps [of u E opt "[i]"] assms by (simp add: Tap ui_step_def onClick_def dropped_def kept_def)
  next
    case Cn_Keep
    then show ?thesis
      using kept_patch [of "[(''status'', JStr ''kept''), (''undone'', JBool False)]" u E opt i]
      by (simp add: Tap ui_step_def onClick_def dropped_def kept_def) (simp add: ui_patch_def fresh_refresh)
  next
    case Cn_Undo
    then show ?thesis
      using kept_patch [of "[(''status'', JStr ''open''), (''undone'', JBool True)]" u E opt i]
      by (simp add: Tap ui_step_def onClick_def dropped_def kept_def) (simp add: ui_patch_def fresh_refresh)
  next
    case Cn_Dismiss
    have s: "ui_store (refresh E opt ops v) = ui_store v" for v by (simp add: refresh_def rebuild_def)
    show ?thesis
      unfolding Tap Cn_Dismiss ui_step_def onClick_def ui_event.case action.case dropped_def
      by (simp add: fresh_refresh s remove_facts) (metis (no_types))
  next
    case Cn_Reload
    then show ?thesis using assms by (simp add: Tap ui_step_def onClick_def dropped_def ui_load_def fresh_def rebuild_def)
  qed (use assms in \<open>auto simp: Tap ui_step_def onClick_def dropped_def fresh_def rebuild_def split: option.split\<close>)
qed

lemma run_keeps:
  "fresh E opt u \<Longrightarrow> fresh E opt (foldl (ui_step E opt ops) u evs)
    \<and> facts (st_all ops (ui_store (foldl (ui_step E opt ops) u evs)))
      = filter_mset (\<lambda>d. Some (doc_key d) \<notin> dropped ` set evs) (facts (st_all ops (ui_store u)))"
proof (induction evs arbitrary: u)
  case (Cons ev evs)
  note s = step_keeps [OF Cons.prems, of ev]
  then show ?case using Cons.IH [of "ui_step E opt ops u ev"] by (auto simp: filter_filter_mset intro!: filter_mset_cong)
qed simp

lemma mount_fresh: "fresh E opt (mountConflictNotice E opt ops True s)"
  by (simp add: mountConflictNotice_def ui_load_def fresh_def rebuild_def)

lemma mount_store: "ui_store (mountConflictNotice E opt ops r s) = s"
  by (simp add: mountConflictNotice_def ui_load_def rebuild_def)

end

section \<open>The stores that provide it\<close>

definition mem_ops :: "mem_store store_ops" where
  "mem_ops = \<lparr>st_all = mem_all, st_upsert = mem_upsert, st_patch = mem_patch, st_remove = mem_remove\<rparr>"

lemma facts_remove: "facts (filter (\<lambda>d. field d ''id'' \<noteq> i) ds) = filter_mset (\<lambda>d. doc_key d \<noteq> i) (facts ds)"
  by (induction ds) (auto simp: facts_def doc_key_def field_facts outcome_keys_def)

lemma facts_list: "facts ds = mset (map facts_doc ds)"
  by (simp add: facts_def)

interpretation mem: conflict_store mem_ops
proof
  fix p :: doc and i :: json and s :: mem_store
  show "facts (st_all mem_ops (st_patch mem_ops i p s)) = facts (st_all mem_ops s)" if "outcome p"
    using that mem_patch_facts [of p i s] by (simp add: mem_ops_def outcome_def facts_list)
  show "facts (st_all mem_ops (st_remove mem_ops i s)) = filter_mset (\<lambda>d. doc_key d \<noteq> i) (facts (st_all mem_ops s))"
    by (simp add: mem_ops_def facts_remove)
qed

text \<open>The local collection \<open>conflict_records\<close>: what the engine documents of the calls the store makes.\<close>

record 'c rxdb_ops =
  rxdb_docs :: "'c \<Rightarrow> doc list"
  rxdb_upsert :: "doc \<Rightarrow> 'c \<Rightarrow> 'c"
  rxdb_patch :: "json \<Rightarrow> doc \<Rightarrow> 'c \<Rightarrow> 'c"
  rxdb_remove :: "json \<Rightarrow> 'c \<Rightarrow> 'c"

definition rxdb_findOne :: "'c rxdb_ops \<Rightarrow> json \<Rightarrow> 'c \<Rightarrow> doc option" where
  "rxdb_findOne rx i c = List.find (\<lambda>d. doc_key d = i) (rxdb_docs rx c)"

definition createRxdbConflictStore :: "'c rxdb_ops \<Rightarrow> 'c store_ops" where
  "createRxdbConflictStore rx =
     \<lparr>st_all = rxdb_docs rx,
      st_upsert = rxdb_upsert rx,
      st_patch = (\<lambda>i p c. case rxdb_findOne rx i c of None \<Rightarrow> c | Some d \<Rightarrow> rxdb_patch rx i p c),
      st_remove = (\<lambda>i c. case rxdb_findOne rx i c of None \<Rightarrow> c | Some d \<Rightarrow> rxdb_remove rx i c)\<rparr>"

locale rxdb_records =
  fixes rx :: "'c rxdb_ops"
  assumes patched: "mset (rxdb_docs rx (rxdb_patch rx i p c)) =
      image_mset (\<lambda>d. if doc_key d = i then spread d p else d) (mset (rxdb_docs rx c))"
    and removed: "mset (rxdb_docs rx (rxdb_remove rx i c)) = filter_mset (\<lambda>d. doc_key d \<noteq> i) (mset (rxdb_docs rx c))"
begin

lemma patch_law: "outcome p \<Longrightarrow> facts (rxdb_docs rx (rxdb_patch rx i p c)) = facts (rxdb_docs rx c)"
  by (auto simp: facts_def patched outcome_def facts_spread image_mset.compositionality intro!: image_mset_cong)

lemma remove_law: "facts (rxdb_docs rx (rxdb_remove rx i c)) = filter_mset (\<lambda>d. doc_key d \<noteq> i) (facts (rxdb_docs rx c))"
proof -
  have "image_mset facts_doc (filter_mset (\<lambda>d. doc_key d \<noteq> i) M) = filter_mset (\<lambda>d. doc_key d \<noteq> i) (image_mset facts_doc M)" for M
    by (induction M) auto
  then show ?thesis by (simp add: facts_def removed)
qed

lemma absent: "rxdb_findOne rx i c = None \<Longrightarrow> filter_mset (\<lambda>d. doc_key d \<noteq> i) (facts (rxdb_docs rx c)) = facts (rxdb_docs rx c)"
proof -
  assume "rxdb_findOne rx i c = None"
  then have "doc_key d \<noteq> i" if "d \<in> set (rxdb_docs rx c)" for d using that by (auto simp: rxdb_findOne_def find_None_iff)
  then show ?thesis by (intro filter_mset_eq_conv [THEN iffD2]) (auto simp: facts_def)
qed

end

sublocale rxdb_records \<subseteq> conflict_store "createRxdbConflictStore rx"
  by unfold_locales (auto simp: createRxdbConflictStore_def patch_law remove_law absent split: option.split)

text \<open>A collection that is the list of its documents meets the laws; the component over it serves as the instance.\<close>

definition list_rx :: "(doc list) rxdb_ops" where
  "list_rx = \<lparr>rxdb_docs = (\<lambda>c. c), rxdb_upsert = (\<lambda>r c. r # filter (\<lambda>d. doc_key d \<noteq> doc_key r) c),
     rxdb_patch = (\<lambda>i p c. map (\<lambda>d. if doc_key d = i then spread d p else d) c),
     rxdb_remove = (\<lambda>i c. filter (\<lambda>d. doc_key d \<noteq> i) c)\<rparr>"

interpretation rxdb: rxdb_records list_rx
  by unfold_locales (simp_all add: list_rx_def)

section \<open>The screen\<close>

text \<open>C24: The screen is always the store, and no tap, answer or interleaving of them loses a value. After any events on a
  mounted sheet the records are what the store holds and the model is built from them, and the store holds exactly the
  records it was mounted with less those dismissed, each with every field it had but for status, undone mark and failure,
  so the discarded value a restore needs is still there.\<close>

theorem sheet_keeps_every_value:
  fixes E opt s evs
  defines "u \<equiv> foldl (ui_step E opt mem_ops) (mountConflictNotice E opt mem_ops True s) evs"
  shows "ui_records u = mem_all (ui_store u) \<and> ui_model u = model_of E opt (ui_expanded u) (mem_all (ui_store u))
    \<and> facts (mem_all (ui_store u)) = filter_mset (\<lambda>d. list_all (\<lambda>ev. case ev of Tap Cn_Dismiss i r \<Rightarrow> i \<noteq> doc_key d | _ \<Rightarrow> True) evs) (facts (mem_all s))"
proof -
  note run = mem.run_keeps [OF mem.mount_fresh, of E opt s evs, folded u_def, unfolded mem.mount_store]
  have d: "Some (doc_key d) \<notin> dropped ` set evs \<longleftrightarrow> list_all (\<lambda>ev. case ev of Tap Cn_Dismiss i r \<Rightarrow> i \<noteq> doc_key d | _ \<Rightarrow> True) evs" for d
    by (auto simp: dropped_def list_all_iff image_iff split: ui_event.splits action.splits)
  show ?thesis using run unfolding mem.fresh_def d by (simp add: mem_ops_def)
qed

end
