(* ===== verification/ConflictSheetRuns.thy ===== *)
theory ConflictSheetRuns
  imports ConflictSheetProps
begin

text \<open>
  Runs of the mounted screen in which every tap lands on a control that is drawn: which rows have a way out, a row that
  has none, what Undo does not undo, and a batch that overrides a later Keep.
\<close>

section \<open>What can be tapped\<close>

definition live_buttons :: "btn list \<Rightarrow> (action \<times> json) list" where
  "live_buttons bs = map (\<lambda>b. (bt_action b, bt_id b)) (filter (\<lambda>b. \<not> bt_disabled b) bs)"

definition option_list :: "'a option \<Rightarrow> 'a list" where
  "option_list x = (case x of None \<Rightarrow> [] | Some a \<Rightarrow> [a])"

definition row_taps :: "row_view \<Rightarrow> (action \<times> json) list" where
  "row_taps v = live_buttons (rv_buttons v @ option_list (rv_wrap v))"

definition sheet_taps :: "sheet_view \<Rightarrow> (action \<times> json) list" where
  "sheet_taps sv = (case sv of
     No_Sheet \<Rightarrow> []
   | Skeleton \<Rightarrow> [(Cn_Close, JNull)]
   | Unreadable_Plate b \<Rightarrow> (Cn_Close, JNull) # live_buttons [b]
   | Empty_Plate n \<Rightarrow> [(Cn_Close, JNull)]
   | Sheet gs cap coll \<Rightarrow> (Cn_Close, JNull) #
       concat (map (\<lambda>g. concat (map row_taps (gv_rows g)) @ live_buttons (option_list (gv_batch g))) gs))"

definition screen_taps :: "screen \<Rightarrow> (action \<times> json) list" where
  "screen_taps sc = (case sc_banner sc of None \<Rightarrow> [] | Some b \<Rightarrow> live_buttons [bv_go b])
     @ (case sc_sheet sc of None \<Rightarrow> [] | Some sv \<Rightarrow> sheet_taps sv)
     @ (case sc_confirm sc of None \<Rightarrow> [] | Some c \<Rightarrow> live_buttons (cv_buttons c))"

definition user_step :: "env \<Rightarrow> sheet_opts \<Rightarrow> 's store_ops \<Rightarrow> 's sheet_ui \<Rightarrow> ui_event \<Rightarrow> 's sheet_ui" where
  "user_step E opt ops u ev = (case ev of
     Tap a i r \<Rightarrow> if (a, i) \<in> set (screen_taps (paint u)) then ui_step E opt ops u ev else u
   | _ \<Rightarrow> ui_step E opt ops u ev)"

section \<open>A sheet of one checklist\<close>

lemma group_by_one: "list_all (\<lambda>v. key v = k) vs \<Longrightarrow> vs \<noteq> [] \<Longrightarrow> group_by key vs = [(k, vs)]"
proof (induction vs rule: rev_induct)
  case (snoc v vs)
  then show ?case by (cases "vs = []") (simp_all add: group_by_snoc group_by_def)
qed simp

lemma sort_by_flat: "(\<And>a b. a \<in> set xs \<Longrightarrow> b \<in> set xs \<Longrightarrow> cmp a b \<le> 0) \<Longrightarrow> sort_by cmp xs = xs"
proof (induction xs)
  case (Cons x xs)
  then have "sort_by cmp xs = xs" by simp
  then show ?case using Cons.prems by (cases xs) (simp_all add: sort_by_def)
qed (simp add: sort_by_def)

definition one_checklist :: "env \<Rightarrow> sheet_opts \<Rightarrow> json \<Rightarrow> doc list \<Rightarrow> bool" where
  "one_checklist E opt k ds \<longleftrightarrow> ds \<noteq> [] \<and> so_maxGroups opt = None
     \<and> list_all (\<lambda>d. in_window E opt (JObj d) \<and> group_key (JObj d) = k) ds
     \<and> list_all (\<lambda>d. list_all (\<lambda>e. localeCompare E (stamp_text E (JObj d)) (stamp_text E (JObj e)) \<le> 0) ds) ds"

definition drawn :: "env \<Rightarrow> sheet_opts \<Rightarrow> json list \<Rightarrow> doc \<Rightarrow> row" where
  "drawn E opt ex d = (buildRow E opt (JObj d))\<lparr>r_expanded := (field d ''id'' \<in> set ex)\<rparr>"

lemma one_group:
  assumes "one_checklist E opt k ds"
  shows "m_status (model_of E opt ex ds) = Ready" "m_collapsed (model_of E opt ex ds) = (2 < length ds)"
    "\<exists>g. m_groups (model_of E opt ex ds) = [g] \<and> g_docId g = k \<and> g_rows g = map (drawn E opt ex) ds
       \<and> g_batchIds g = map (\<lambda>d. field d ''id'') (filter (\<lambda>d. isBatchTarget (JObj d)) ds) \<and> g_batchCount g = length (g_batchIds g)"
proof -
  have w: "window E opt (map JObj ds) = map JObj ds" using assms by (simp add: one_checklist_def list_all_iff filter_id_conv)
  have g: "group_by group_key (map JObj ds) = [(k, map JObj ds)]"
    using assms by (intro group_by_one) (auto simp: one_checklist_def list_all_iff)
  have s: "sort_by (\<lambda>a b. localeCompare E (stamp_text E a) (stamp_text E b)) (map JObj ds) = map JObj ds"
    using assms by (intro sort_by_flat) (auto simp: one_checklist_def list_all_iff)
  obtain c where groups: "sheet_groups E opt (map JObj ds) = [(build_group E opt (k, map JObj ds))\<lparr>g_docChip := c\<rparr>]"
    by (simp add: sheet_groups_def Let_def g)
  have one: "sort_by cmp [x] = [x]" for cmp and x :: group by (simp add: sort_by_def)
  have rows: "g_rows (build_group E opt (k, map JObj ds)) = map (\<lambda>d. buildRow E opt (JObj d)) ds"
    by (simp add: build_group_def Let_def s)
  have batch: "g_batchIds (build_group E opt (k, map JObj ds)) = map (\<lambda>d. field d ''id'') (filter (\<lambda>d. isBatchTarget (JObj d)) ds)"
    "g_batchCount (build_group E opt (k, map JObj ds)) = length (filter (\<lambda>d. isBatchTarget (JObj d)) ds)"
    by (simp_all add: build_group_def Let_def s filter_map comp_def)
  have id: "g_docId (build_group E opt (k, map JObj ds)) = k" by (simp add: build_group_def Let_def)
  have mx: "so_maxGroups opt = None" "ds \<noteq> []" using assms by (simp_all add: one_checklist_def)
  note b = buildSheetModel_def Let_def withinRetention_def w groups one mx MAX_GROUPS_def COLLAPSE_MAX_ROWS_PER_GROUP_def rows
  show "m_status (model_of E opt ex ds) = Ready" "m_collapsed (model_of E opt ex ds) = (2 < length ds)"
    by (simp_all add: model_of_def mark_expanded_def b)
  show "\<exists>g. m_groups (model_of E opt ex ds) = [g] \<and> g_docId g = k \<and> g_rows g = map (drawn E opt ex) ds
       \<and> g_batchIds g = map (\<lambda>d. field d ''id'') (filter (\<lambda>d. isBatchTarget (JObj d)) ds) \<and> g_batchCount g = length (g_batchIds g)"
    by (simp add: model_of_def mark_expanded_def b batch id drawn_def)
qed

lemma find_drawn: "List.find (\<lambda>r. r_id r = i) (map (drawn E opt ex) ds) = map_option (drawn E opt ex) (List.find (\<lambda>d. doc_key d = i) ds)"
  by (induction ds) (auto simp: drawn_def doc_key_def)

lemma one_findRow:
  "one_checklist E opt k ds \<Longrightarrow> findRow (model_of E opt ex ds) i = map_option (drawn E opt ex) (List.find (\<lambda>d. doc_key d = i) ds)"
  using one_group(3) [of E opt k ds ex] by (auto simp: findRow_def find_drawn)

section \<open>Where a run stands\<close>

definition stands :: "env \<Rightarrow> sheet_opts \<Rightarrow> doc list \<Rightarrow> json list \<Rightarrow> pending list \<Rightarrow> row list \<Rightarrow> bool \<Rightarrow> json option \<Rightarrow> mem_store sheet_ui \<Rightarrow> bool" where
  "stands E opt ds ex pend ws opened conf u \<longleftrightarrow> mem_all (ui_store u) = ds \<and> ui_records u = ds \<and> ui_model u = model_of E opt ex ds
     \<and> ui_expanded u = ex \<and> ui_pending u = pend \<and> ui_writes u = ws \<and> ui_open u = opened \<and> ui_confirmFor u = conf \<and> ui_phase u = Ready_Phase"

definition patched :: "json \<Rightarrow> doc \<Rightarrow> doc list \<Rightarrow> doc list" where
  "patched i p ds = map (\<lambda>d. if doc_key d = i then spread d p else d) ds"

lemma stands_mount: "stands E opt ds [] [] [] False None (mountConflictNotice E opt mem_ops True (createMemoryConflictStore ds))"
  by (simp add: stands_def mountConflictNotice_def ui_load_def rebuild_def mem_ops_def mem_all_def createMemoryConflictStore_def)

lemma stands_patch:
  "stands E opt ds ex pend ws op cf u \<Longrightarrow> keyed ds \<Longrightarrow> stands E opt (patched i p ds) ex pend ws op cf (ui_patch E opt mem_ops i p u)"
  using mem_patch_rows [of "ui_store u" i p]
  by (auto simp: stands_def ui_patch_def refresh_def rebuild_def mem_ops_def patched_def keyed_def)

lemma stands_refresh: "stands E opt ds ex pend ws op cf u \<Longrightarrow> stands E opt ds ex pend ws op cf (refresh E opt mem_ops u)"
  by (simp add: stands_def refresh_def rebuild_def mem_ops_def)

lemma stands_restore:
  assumes "stands E opt ds ex pend ws op cf u" "keyed ds" "one_checklist E opt k ds" "List.find (\<lambda>d. doc_key d = i) ds = Some d"
  shows "stands E opt (patched i [(''status'', JStr ''restoring''), (''failure'', JNull)] ds) ex (pend @ [\<lparr>pd_id = i, pd_rest = rest\<rparr>])
    (ws @ [drawn E opt ex d]) op cf (ui_restore E opt mem_ops (i # rest) u)"
proof -
  have "findRow (ui_model u) i = Some (drawn E opt ex d)"
    using assms(1,4) one_findRow [OF assms(3), of ex i] by (simp add: stands_def)
  then show ?thesis
    using stands_patch [OF assms(1,2), of i "[(''status'', JStr ''restoring''), (''failure'', JNull)]"] assms(1)
    by (simp add: stands_def Let_def ui_patch_def refresh_def rebuild_def)
qed

lemma stands_settled:
  assumes "stands E opt ds ex [\<lparr>pd_id = i, pd_rest = rest\<rparr>] ws op cf u" "keyed ds"
  shows "\<exists>v. stands E opt (patched i (outcome_fields w) ds) ex [] ws op cf v \<and> restore_settled E opt mem_ops 0 w u = ui_restore E opt mem_ops rest v"
proof (intro exI conjI)
  have "stands E opt ds ex [] ws op cf (u\<lparr>ui_pending := []\<rparr>)" using assms(1) by (simp add: stands_def)
  then show "stands E opt (patched i (outcome_fields w) ds) ex [] ws op cf (ui_patch E opt mem_ops i (outcome_fields w) (u\<lparr>ui_pending := []\<rparr>))"
    using assms(2) by (rule stands_patch)
  show "restore_settled E opt mem_ops 0 w u = ui_restore E opt mem_ops rest (ui_patch E opt mem_ops i (outcome_fields w) (u\<lparr>ui_pending := []\<rparr>))"
    using assms(1) by (simp add: restore_settled_def stands_def Let_def)
qed

lemma banner_taps: "sc_banner sc = renderBanner m \<Longrightarrow> set (case sc_banner sc of None \<Rightarrow> [] | Some b \<Rightarrow> live_buttons [bv_go b]) \<subseteq> {(Cn_Open, JNull)}"
  by (auto simp: renderBanner_def live_buttons_def mk_plain_def mk_btn_def split: option.splits)

text \<open>What can be tapped on a sheet of one checklist, without a confirm on it.\<close>

lemma taps_one:
  assumes "stands E opt ds ex pend ws op None u" "one_checklist E opt k ds"
  shows "set (screen_taps (paint u)) \<subseteq> {(Cn_Open, JNull)} \<union> (if op then {(Cn_Close, JNull)}
    \<union> (\<Union>d\<in>set ds. set (row_taps (renderRow (drawn E opt ex d) (2 < length ds)))) \<union> (if 2 < length ds then {(Cn_Batch, k)} else {}) else {})"
proof -
  from one_group(3) [OF assms(2), of ex] obtain g where g: "m_groups (model_of E opt ex ds) = [g]" "g_docId g = k"
    "g_rows g = map (drawn E opt ex) ds" by blast
  have m: "m_status (ui_model u) = Ready" "m_collapsed (ui_model u) = (2 < length ds)" "m_groups (ui_model u) = [g]"
    "ui_phase u = Ready_Phase" "ui_open u = op" "ui_confirmFor u = None"
    using assms(1) one_group(1,2) [OF assms(2), of ex] g(1) by (simp_all add: stands_def)
  have ban: "sc_banner (paint u) = renderBanner (Some (ui_model u))" using m(4) by (simp add: paint_def)
  have sheet: "sc_sheet (paint u) = (if op then Some (Sheet [renderGroup g (2 < length ds)]
      (if 0 < m_hiddenGroups (ui_model u) then Some (m_hiddenGroups (ui_model u), m_hiddenAnswers (ui_model u)) else None) (2 < length ds)) else None)"
    using m by (simp add: paint_def renderSheet_def)
  have conf: "sc_confirm (paint u) = None" using m by (simp add: paint_def)
  have batch: "set (live_buttons (option_list (gv_batch (renderGroup g c)))) \<subseteq> (if c then {(Cn_Batch, k)} else {})" for c
    by (auto simp: renderGroup_def option_list_def live_buttons_def mk_btn_def g(2))
  have rows: "gv_rows (renderGroup g c) = map (\<lambda>d. renderRow (drawn E opt ex d) c) ds" for c
    by (simp add: renderGroup_def g(3))
  show ?thesis
    unfolding screen_taps_def set_append conf sheet
    using banner_taps [OF ban] batch [of "2 < length ds"] by (auto simp: sheet_taps_def rows)
qed

section \<open>A row nobody can act on\<close>

text \<open>A record left restoring, say by a page closed while its write was under way, has no way out. On a sheet that
  holds nothing else it is drawn with both its buttons disabled, and whatever is tapped of what is drawn, it stays
  restoring and nothing is written.\<close>

theorem restoring_row_is_stuck:
  fixes E opt d evs
  assumes "in_window E opt (JObj d)" "so_maxGroups opt = None" "localeCompare E (stamp_text E (JObj d)) (stamp_text E (JObj d)) = 0"
    and "rowKind (JObj d) = KIND_ANSWER" "field d ''status'' = JStr ''restoring''"
  defines "u \<equiv> foldl (user_step E opt mem_ops) (mountConflictNotice E opt mem_ops True (createMemoryConflictStore [d])) evs"
  shows "mem_all (ui_store u) = [d] \<and> ui_writes u = []"
proof -
  define inv where "inv = (\<lambda>v. \<exists>op. stands E opt [d] [] [] [] op None v)"
  have one: "one_checklist E opt (group_key (JObj d)) [d]" using assms by (simp add: one_checklist_def)
  have st: "r_status (drawn E opt [] d) = JStr ''restoring''" "r_kind (drawn E opt [] d) = KIND_ANSWER"
    using assms(4,5) by (simp_all add: drawn_def buildRow_def Let_def js_or_def)
  have row: "row_taps (renderRow (drawn E opt [] d) False) = []"
    by (simp add: row_taps_def renderRow_def Let_def st rowActions_def mk_btn_def live_buttons_def option_list_def)
  have step: "inv (user_step E opt mem_ops v ev)" if inv: "inv v" for v ev
  proof -
    from inv obtain op where v: "stands E opt [d] [] [] [] op None v" unfolding inv_def by blast
    note taps = taps_one [OF v one]
    show ?thesis
    proof (cases ev)
      case (Tap a i r)
      show ?thesis
      proof (cases "(a, i) \<in> set (screen_taps (paint v))")
        case True
        then have "a = Cn_Open \<or> a = Cn_Close" using taps row by (auto split: if_splits)
        then show ?thesis using v by (auto simp: inv_def Tap user_step_def ui_step_def onClick_def stands_def)
      qed (use inv Tap in \<open>simp add: user_step_def\<close>)
    next
      case (Settled k w)
      then show ?thesis using v inv by (simp add: user_step_def ui_step_def restore_settled_def stands_def)
    next
      case Told
      then show ?thesis using stands_refresh [OF v] by (auto simp: inv_def user_step_def ui_step_def)
    qed
  qed
  have "inv u" unfolding u_def
    by (rule foldl_invariant) (use step stands_mount [of E opt "[d]"] in \<open>auto simp: inv_def\<close>)
  then show ?thesis by (auto simp: inv_def stands_def)
qed


section \<open>Concrete runs\<close>

definition answer :: "string \<Rightarrow> string \<Rightarrow> string \<Rightarrow> doc" where
  "answer i mine st = [(''id'', JStr i), (''doc_id'', JStr ''d1''), (''field_id'', JStr i), (''field_label'', JStr ''Fryer''),
     (''discarded_value'', JStr mine), (''current_value'', JStr ''41''), (''overwritten_by_name'', JStr ''Dana''),
     (''overwritten_at'', JStr ''t''), (''status'', JStr st), (''undone'', JBool False), (''failure'', JNull)]"

definition undone_answer :: "string \<Rightarrow> string \<Rightarrow> doc" where
  "undone_answer i mine = set_field (answer i mine ''open'') ''undone'' (JBool True)"

lemma answer_fields [simp]:
  "field (answer i mine st) ''id'' = JStr i" "field (answer i mine st) ''doc_id'' = JStr ''d1''"
  "field (answer i mine st) ''overwritten_at'' = JStr ''t''" "field (answer i mine st) ''status'' = JStr st"
  "field (answer i mine st) ''discarded_value'' = JStr mine" "field (answer i mine st) ''field_removed'' = JUndef"
  "field (answer i mine st) ''current_value'' = JStr ''41''" "field (answer i mine st) ''display_unit'' = JUndef"
  "field (answer i mine st) ''field_type'' = JUndef" "field (answer i mine st) ''undone'' = JBool False"
  "field (answer i mine st) ''overwritten_by_name'' = JStr ''Dana''"
  by (simp_all add: answer_def field_def)

lemma spread_answer [simp]:
  "spread (answer i mine st) [(''status'', JStr st'), (''failure'', JNull)] = answer i mine st'"
  "spread (answer i mine st) (outcome_fields Written) = answer i mine ''restored''"
  "spread (answer i mine st) [(''status'', JStr st'), (''undone'', JBool False)] = answer i mine st'"
  "spread (answer i mine st) [(''status'', JStr ''open''), (''undone'', JBool True)] = undone_answer i mine"
  by (simp_all add: spread_def answer_def outcome_fields_def undone_answer_def)

lemma answer_key [simp]: "doc_key (answer i mine st) = JStr i"
  by (simp add: doc_key_def)

lemma demo_one:
  "ds \<noteq> [] \<Longrightarrow> list_all (\<lambda>d. field d ''doc_id'' = JStr ''d1'' \<and> field d ''overwritten_at'' = JStr ''t'') ds \<Longrightarrow>
     one_checklist demo_env demo_opts (JStr ''d1'') ds"
  unfolding one_checklist_def
  by (simp add: demo_window group_key_def js_or_def stamp_text_def String_of_def list_all_iff) (simp add: demo_env_def demo_opts_def)

lemma rowKind_answer [simp]: "mine \<noteq> [] \<Longrightarrow> rowKind (JObj (answer i mine st)) = KIND_ANSWER"
  by (simp add: rowKind_def)

text \<open>What is drawn can be tapped: a row's controls, the batch of a collapsed sheet and the two buttons of its confirm.\<close>

lemma tap_row:
  assumes "stands E opt ds ex pend ws True cf u" "one_checklist E opt k ds" "d \<in> set ds"
    and "x \<in> set (row_taps (renderRow (drawn E opt ex d) (2 < length ds)))"
  shows "x \<in> set (screen_taps (paint u))"
proof -
  from one_group(3) [OF assms(2), of ex] obtain g where g: "m_groups (model_of E opt ex ds) = [g]" "g_rows g = map (drawn E opt ex) ds" by blast
  have "sc_sheet (paint u) = Some (Sheet [renderGroup g (2 < length ds)]
      (if 0 < m_hiddenGroups (ui_model u) then Some (m_hiddenGroups (ui_model u), m_hiddenAnswers (ui_model u)) else None) (2 < length ds))"
    using assms(1) one_group(1,2) [OF assms(2), of ex] g(1) by (simp add: paint_def stands_def renderSheet_def)
  moreover have "gv_rows (renderGroup g (2 < length ds)) = map (\<lambda>d. renderRow (drawn E opt ex d) (2 < length ds)) ds"
    by (simp add: renderGroup_def g(2))
  ultimately show ?thesis using assms(3,4) by (auto simp: screen_taps_def sheet_taps_def)
qed

lemma tap_batch:
  assumes "stands E opt ds ex pend ws True cf u" "one_checklist E opt k ds" "2 < length ds" "list_ex (\<lambda>d. isBatchTarget (JObj d)) ds"
  shows "(Cn_Batch, k) \<in> set (screen_taps (paint u))"
proof -
  from one_group(3) [OF assms(2), of ex] obtain g where g: "m_groups (model_of E opt ex ds) = [g]" "g_docId g = k"
    "g_batchIds g = map (\<lambda>d. field d ''id'') (filter (\<lambda>d. isBatchTarget (JObj d)) ds)" "g_batchCount g = length (g_batchIds g)" by blast
  have "0 < g_batchCount g" using assms(4) g(3,4) by (auto simp: list_ex_iff filter_empty_conv)
  then have b: "gv_batch (renderGroup g True) = Some (mk_btn Cn_Batch k (Restore_All (g_batchCount g))
      (Batch_Sub (g_batchCount g) (g_batchWho g) (g_batchRange g)) False False)" by (simp add: renderGroup_def g(2))
  have "sc_sheet (paint u) = Some (Sheet [renderGroup g True]
      (if 0 < m_hiddenGroups (ui_model u) then Some (m_hiddenGroups (ui_model u), m_hiddenAnswers (ui_model u)) else None) True)"
    using assms(1,3) one_group(1,2) [OF assms(2), of ex] g(1) by (simp add: paint_def stands_def renderSheet_def)
  then show ?thesis by (simp add: screen_taps_def sheet_taps_def b option_list_def live_buttons_def mk_btn_def)
qed

lemma tap_commit:
  assumes "stands E opt ds ex pend ws True (Some k) u" "one_checklist E opt k ds"
  shows "(Cn_Commit, k) \<in> set (screen_taps (paint u))"
    and "ui_step E opt ops u (Tap Cn_Commit k r)
      = ui_restore E opt ops (map (\<lambda>d. field d ''id'') (filter (\<lambda>d. isBatchTarget (JObj d)) ds)) (u\<lparr>ui_confirmFor := None\<rparr>)"
proof -
  from one_group(3) [OF assms(2), of ex] obtain g where g: "m_groups (model_of E opt ex ds) = [g]" "g_docId g = k"
    "g_batchIds g = map (\<lambda>d. field d ''id'') (filter (\<lambda>d. isBatchTarget (JObj d)) ds)" by blast
  then have f: "group_of (ui_model u) k = Some g" using assms(1) by (simp add: group_of_def stands_def)
  then have "sc_confirm (paint u) = Some (renderConfirm g)" using assms(1) by (simp add: paint_def stands_def)
  then show "(Cn_Commit, k) \<in> set (screen_taps (paint u))"
    by (simp add: screen_taps_def renderConfirm_def Let_def live_buttons_def mk_btn_def mk_plain_def g(2))
  show "ui_step E opt ops u (Tap Cn_Commit k r)
      = ui_restore E opt ops (map (\<lambda>d. field d ''id'') (filter (\<lambda>d. isBatchTarget (JObj d)) ds)) (u\<lparr>ui_confirmFor := None\<rparr>)"
    using f g(3) by (simp add: ui_step_def onClick_def)
qed

definition opened_sheet :: "doc list \<Rightarrow> mem_store sheet_ui" where
  "opened_sheet ds = (mountConflictNotice demo_env demo_opts mem_ops True (createMemoryConflictStore ds))\<lparr>ui_open := True\<rparr>"

abbreviation demo_run :: "mem_store sheet_ui \<Rightarrow> ui_event list \<Rightarrow> mem_store sheet_ui" where
  "demo_run \<equiv> foldl (user_step demo_env demo_opts mem_ops)"

abbreviation demo_stands :: "doc list \<Rightarrow> json list \<Rightarrow> pending list \<Rightarrow> row list \<Rightarrow> json option \<Rightarrow> mem_store sheet_ui \<Rightarrow> bool" where
  "demo_stands ds ex pend ws \<equiv> stands demo_env demo_opts ds ex pend ws True"

lemma opened_stands: "demo_stands ds [] [] [] None (opened_sheet ds)"
  using stands_mount [of demo_env demo_opts ds] by (simp add: opened_sheet_def stands_def)

lemma drawn_answer:
  assumes "mine \<noteq> []"
  shows "r_kind (drawn demo_env demo_opts ex (answer i mine st)) = KIND_ANSWER"
    "r_id (drawn demo_env demo_opts ex (answer i mine st)) = JStr i"
    "st \<noteq> [] \<Longrightarrow> r_status (drawn demo_env demo_opts ex (answer i mine st)) = JStr st"
    "r_expanded (drawn demo_env demo_opts ex (answer i mine st)) = (JStr i \<in> set ex)"
    "r_rawDiscarded (drawn demo_env demo_opts ex (answer i mine st)) = JStr mine"
  using assms by (simp_all add: drawn_def) (simp add: buildRow_def Let_def js_or_def)

lemma row_controls:
  assumes "r_kind r = KIND_ANSWER" "r_status r = JStr ''open''"
  shows "coll \<Longrightarrow> (Cn_Expand, r_id r) \<in> set (row_taps (renderRow r coll))"
    and "\<not> coll \<or> r_expanded r \<Longrightarrow> (Cn_Restore, r_id r) \<in> set (row_taps (renderRow r coll)) \<and> (Cn_Keep, r_id r) \<in> set (row_taps (renderRow r coll))"
  using assms
  by (simp_all add: row_taps_def renderRow_def rowActions_def Let_def live_buttons_def option_list_def mk_btn_def mk_plain_def)

lemma undo_control: "r_status r = JStr ''restored'' \<Longrightarrow> (Cn_Undo, r_id r) \<in> set (row_taps (renderRow r coll))"
  by (simp add: row_taps_def renderRow_def undoBtn_def live_buttons_def option_list_def mk_btn_def mk_plain_def)

definition undo_run :: "mem_store sheet_ui" where
  "undo_run = demo_run (opened_sheet [answer ''a'' ''38'' ''open''])
     [Tap Cn_Restore (JStr ''a'') True, Settled 0 Written, Tap Cn_Undo (JStr ''a'') True]"

text \<open>Undo does not undo. After a restore whose write went through, a tap on Undo leaves the crew's value as the last and
  only write the checklist received, and the row now says that the other person's value is showing again.\<close>

theorem undo_reverts_nothing:
  "map r_rawDiscarded (ui_writes undo_run) = [JStr ''38''] \<and> ui_pending undo_run = []
   \<and> map (\<lambda>d. rv_body (renderRow (drawn demo_env demo_opts [] d) False)) (mem_all (ui_store undo_run))
     = [Open_Body (Mine_And_Theirs (Some (Words ''38'' None)) (Words ''41'' None) ''Dana, 6:12 PM'') None None
         (Some (Some ''Dana'', Words ''41'' None))]"
proof -
  define u0 where "u0 = opened_sheet [answer ''a'' ''38'' ''open'']"
  define r where "r = drawn demo_env demo_opts [] (answer ''a'' ''38'' ''open'')"
  have one: "one_checklist demo_env demo_opts (JStr ''d1'') [answer ''a'' ''38'' st]" for st by (rule demo_one) simp_all
  have s0: "demo_stands [answer ''a'' ''38'' ''open''] [] [] [] None u0" unfolding u0_def by (rule opened_stands)
  define u1 where "u1 = user_step demo_env demo_opts mem_ops u0 (Tap Cn_Restore (JStr ''a'') True)"
  have "(Cn_Restore, JStr ''a'') \<in> set (screen_taps (paint u0))"
    using row_controls(2) [of r False] drawn_answer [where mine = "''38''" and ex = "[]" and i = "''a''" and st = "''open''"]
    by (intro tap_row [OF s0 one, of "answer ''a'' ''38'' ''open''"]) (simp_all add: r_def)
  then have s1: "demo_stands [answer ''a'' ''38'' ''restoring''] [] [\<lparr>pd_id = JStr ''a'', pd_rest = []\<rparr>] [r] None u1"
    using stands_restore [OF s0 _ one, of "JStr ''a''" "answer ''a'' ''38'' ''open''" "[]"]
    by (simp add: u1_def user_step_def ui_step_def onClick_def keyed_def patched_def r_def)
  from stands_settled [OF s1, of Written] obtain u2 where
    s2: "demo_stands [answer ''a'' ''38'' ''restored''] [] [] [r] None u2" "user_step demo_env demo_opts mem_ops u1 (Settled 0 Written) = u2"
    by (auto simp: keyed_def patched_def user_step_def ui_step_def)
  define u3 where "u3 = user_step demo_env demo_opts mem_ops u2 (Tap Cn_Undo (JStr ''a'') True)"
  have "(Cn_Undo, JStr ''a'') \<in> set (screen_taps (paint u2))"
    using undo_control [of "drawn demo_env demo_opts [] (answer ''a'' ''38'' ''restored'')" False] drawn_answer [where mine = "''38''" and ex = "[]" and i = "''a''" and st = "''restored''"]
    by (intro tap_row [OF s2(1) one, of "answer ''a'' ''38'' ''restored''"]) simp_all
  then have s3: "demo_stands [undone_answer ''a'' ''38''] [] [] [r] None u3"
    using stands_patch [OF s2(1), of "JStr ''a''" "[(''status'', JStr ''open''), (''undone'', JBool True)]"]
    by (simp add: u3_def user_step_def ui_step_def onClick_def keyed_def patched_def)
  have run: "undo_run = u3" by (simp add: undo_run_def u0_def [symmetric] u1_def [symmetric] s2(2) u3_def)
  have final: "rv_body (renderRow (drawn demo_env demo_opts [] (undone_answer ''a'' ''38'')) False)
      = Open_Body (Mine_And_Theirs (Some (Words ''38'' None)) (Words ''41'' None) ''Dana, 6:12 PM'') None None (Some (Some ''Dana'', Words ''41'' None))"
    by code_simp
  show ?thesis using s3 final drawn_answer(5) [where mine = "''38''" and ex = "[]" and i = "''a''" and st = "''open''"] unfolding run by (simp add: stands_def r_def)
qed

definition abc :: "string \<Rightarrow> string \<Rightarrow> string \<Rightarrow> doc list" where
  "abc s1 s2 s3 = [answer ''a'' ''38'' s1, answer ''b'' ''39'' s2, answer ''c'' ''40'' s3]"

lemma abc_one: "one_checklist demo_env demo_opts (JStr ''d1'') (abc s1 s2 s3)"
  unfolding abc_def by (rule demo_one) simp_all

lemma abc_keyed: "keyed (abc s1 s2 s3)"
  by (simp add: keyed_def abc_def)

lemma abc_length: "2 < length (abc s1 s2 s3)"
  by (simp add: abc_def)

lemma abc_find:
  "List.find (\<lambda>d. doc_key d = JStr ''a'') (abc s1 s2 s3) = Some (answer ''a'' ''38'' s1)"
  "List.find (\<lambda>d. doc_key d = JStr ''b'') (abc s1 s2 s3) = Some (answer ''b'' ''39'' s2)"
  "List.find (\<lambda>d. doc_key d = JStr ''c'') (abc s1 s2 s3) = Some (answer ''c'' ''40'' s3)"
  by (simp_all add: abc_def)

lemma abc_patched:
  "patched (JStr ''a'') [(''status'', JStr st), (''failure'', JNull)] (abc s1 s2 s3) = abc st s2 s3"
  "patched (JStr ''b'') [(''status'', JStr st), (''failure'', JNull)] (abc s1 s2 s3) = abc s1 st s3"
  "patched (JStr ''c'') [(''status'', JStr st), (''failure'', JNull)] (abc s1 s2 s3) = abc s1 s2 st"
  "patched (JStr ''a'') (outcome_fields Written) (abc s1 s2 s3) = abc ''restored'' s2 s3"
  "patched (JStr ''b'') (outcome_fields Written) (abc s1 s2 s3) = abc s1 ''restored'' s3"
  "patched (JStr ''c'') (outcome_fields Written) (abc s1 s2 s3) = abc s1 s2 ''restored''"
  "patched (JStr ''c'') [(''status'', JStr st), (''undone'', JBool False)] (abc s1 s2 s3) = abc s1 s2 st"
  by (simp_all add: abc_def patched_def)

lemma abc_restore:
  assumes "demo_stands (abc s1 s2 s3) ex [] ws cf u"
  shows "demo_stands (abc ''restoring'' s2 s3) ex [\<lparr>pd_id = JStr ''a'', pd_rest = rest\<rparr>] (ws @ [drawn demo_env demo_opts ex (answer ''a'' ''38'' s1)]) cf
      (ui_restore demo_env demo_opts mem_ops (JStr ''a'' # rest) u)"
    and "demo_stands (abc s1 ''restoring'' s3) ex [\<lparr>pd_id = JStr ''b'', pd_rest = rest\<rparr>] (ws @ [drawn demo_env demo_opts ex (answer ''b'' ''39'' s2)]) cf
      (ui_restore demo_env demo_opts mem_ops (JStr ''b'' # rest) u)"
    and "demo_stands (abc s1 s2 ''restoring'') ex [\<lparr>pd_id = JStr ''c'', pd_rest = rest\<rparr>] (ws @ [drawn demo_env demo_opts ex (answer ''c'' ''40'' s3)]) cf
      (ui_restore demo_env demo_opts mem_ops (JStr ''c'' # rest) u)"
  using stands_restore [OF assms abc_keyed abc_one abc_find(1), of rest] stands_restore [OF assms abc_keyed abc_one abc_find(2), of rest]
    stands_restore [OF assms abc_keyed abc_one abc_find(3), of rest]
  by (simp_all add: abc_patched)

lemma abc_targets: "map (\<lambda>d. field d ''id'') (filter (\<lambda>d. isBatchTarget (JObj d)) (abc ''open'' ''open'' ''open'')) = [JStr ''a'', JStr ''b'', JStr ''c'']"
  by (simp add: abc_def isBatchTarget_def isHandled_def)

definition keep_run :: "mem_store sheet_ui" where
  "keep_run = demo_run (opened_sheet (abc ''open'' ''open'' ''open''))
     [Tap Cn_Batch (JStr ''d1'') True, Tap Cn_Commit (JStr ''d1'') True, Tap Cn_Expand (JStr ''c'') True, Tap Cn_Keep (JStr ''c'') True]"

definition statuses :: "mem_store sheet_ui \<Rightarrow> json list" where
  "statuses u = map (\<lambda>d. field d ''status'') (mem_all (ui_store u))"

lemma abc_statuses: "demo_stands (abc s1 s2 s3) ex pend ws cf u \<Longrightarrow> statuses u = [JStr s1, JStr s2, JStr s3]"
  by (simp add: statuses_def stands_def abc_def)

lemma keep_run_stands:
  "\<exists>ra. demo_stands (abc ''restoring'' ''open'' ''kept'') [JStr ''c''] [\<lparr>pd_id = JStr ''a'', pd_rest = [JStr ''b'', JStr ''c'']\<rparr>] [ra] None keep_run
     \<and> r_rawDiscarded ra = JStr ''38''"
proof -
  define u0 where "u0 = opened_sheet (abc ''open'' ''open'' ''open'')"
  have s0: "demo_stands (abc ''open'' ''open'' ''open'') [] [] [] None u0" unfolding u0_def by (rule opened_stands)
  define u1 where "u1 = user_step demo_env demo_opts mem_ops u0 (Tap Cn_Batch (JStr ''d1'') True)"
  have "(Cn_Batch, JStr ''d1'') \<in> set (screen_taps (paint u0))"
    by (rule tap_batch [OF s0 abc_one abc_length]) (simp add: abc_def isBatchTarget_def isHandled_def)
  then have s1: "demo_stands (abc ''open'' ''open'' ''open'') [] [] [] (Some (JStr ''d1'')) u1"
    using s0 by (simp add: u1_def user_step_def ui_step_def onClick_def stands_def)
  define u2 where "u2 = user_step demo_env demo_opts mem_ops u1 (Tap Cn_Commit (JStr ''d1'') True)"
  have "u2 = ui_restore demo_env demo_opts mem_ops [JStr ''a'', JStr ''b'', JStr ''c''] (u1\<lparr>ui_confirmFor := None\<rparr>)"
    using tap_commit [OF s1 abc_one] unfolding abc_targets by (simp add: u2_def user_step_def)
  moreover have "demo_stands (abc ''open'' ''open'' ''open'') [] [] [] None (u1\<lparr>ui_confirmFor := None\<rparr>)"
    using s1 by (simp add: stands_def)
  ultimately obtain ra where s2: "demo_stands (abc ''restoring'' ''open'' ''open'') [] [\<lparr>pd_id = JStr ''a'', pd_rest = [JStr ''b'', JStr ''c'']\<rparr>] [ra] None u2"
    "r_rawDiscarded ra = JStr ''38''"
    using abc_restore(1) [of "''open''" "''open''" "''open''" "[]" "[]" None "u1\<lparr>ui_confirmFor := None\<rparr>" "[JStr ''b'', JStr ''c'']"] drawn_answer(5) by auto
  define u3 where "u3 = user_step demo_env demo_opts mem_ops u2 (Tap Cn_Expand (JStr ''c'') True)"
  have c: "answer ''c'' ''40'' st \<in> set (abc s1 s2 st)" for s1 s2 st by (simp add: abc_def)
  have "(Cn_Expand, JStr ''c'') \<in> set (screen_taps (paint u2))"
    using row_controls(1) [of "drawn demo_env demo_opts [] (answer ''c'' ''40'' ''open'')"] drawn_answer [where mine = "''40''" and ex = "[]" and i = "''c''" and st = "''open''"]
    by (intro tap_row [OF s2(1) abc_one c]) (simp add: abc_length)
  then have s3: "demo_stands (abc ''restoring'' ''open'' ''open'') [JStr ''c''] [\<lparr>pd_id = JStr ''a'', pd_rest = [JStr ''b'', JStr ''c'']\<rparr>] [ra] None u3"
    using s2(1) by (simp add: u3_def user_step_def ui_step_def onClick_def stands_def rebuild_def)
  define u4 where "u4 = user_step demo_env demo_opts mem_ops u3 (Tap Cn_Keep (JStr ''c'') True)"
  have "(Cn_Keep, JStr ''c'') \<in> set (screen_taps (paint u3))"
    using row_controls(2) [of "drawn demo_env demo_opts [JStr ''c''] (answer ''c'' ''40'' ''open'')"]
      drawn_answer [where mine = "''40''" and ex = "[JStr ''c'']" and i = "''c''" and st = "''open''"]
    by (intro tap_row [OF s3 abc_one c]) (simp add: abc_length)
  then have "demo_stands (abc ''restoring'' ''open'' ''kept'') [JStr ''c''] [\<lparr>pd_id = JStr ''a'', pd_rest = [JStr ''b'', JStr ''c'']\<rparr>] [ra] None u4"
    using stands_patch [OF s3 abc_keyed, of "JStr ''c''" "[(''status'', JStr ''kept''), (''undone'', JBool False)]"]
    by (simp add: u4_def user_step_def ui_step_def onClick_def abc_patched)
  moreover have "keep_run = u4" by (simp add: keep_run_def u0_def [symmetric] u1_def [symmetric] u2_def [symmetric] u3_def [symmetric] u4_def)
  ultimately show ?thesis using s2(2) by blast
qed

text \<open>A batch overrides what was decided while it ran. Three answers are restored in one batch; while the first write is
  on its way the third row is expanded and kept, which the store records; as the answers arrive the batch goes on with the
  list it took at the tap, writes the crew's value over the one just kept and marks the row restored.\<close>

theorem batch_overrides_keep:
  "statuses keep_run = [JStr ''restoring'', JStr ''open'', JStr ''kept'']
   \<and> statuses (demo_run keep_run [Settled 0 Written, Settled 0 Written, Settled 0 Written]) = [JStr ''restored'', JStr ''restored'', JStr ''restored'']
   \<and> map r_rawDiscarded (ui_writes (demo_run keep_run [Settled 0 Written, Settled 0 Written, Settled 0 Written]))
     = [JStr ''38'', JStr ''39'', JStr ''40'']"
proof -
  let ?answered = "\<lambda>u. user_step demo_env demo_opts mem_ops u (Settled 0 Written)"
  obtain ra where s0: "demo_stands (abc ''restoring'' ''open'' ''kept'') [JStr ''c''] [\<lparr>pd_id = JStr ''a'', pd_rest = [JStr ''b'', JStr ''c'']\<rparr>] [ra] None keep_run"
    "r_rawDiscarded ra = JStr ''38''" using keep_run_stands by blast
  from stands_settled [OF s0(1) abc_keyed, of Written] obtain v1 where
    v1: "demo_stands (abc ''restored'' ''open'' ''kept'') [JStr ''c''] [] [ra] None v1"
    "?answered keep_run = ui_restore demo_env demo_opts mem_ops [JStr ''b'', JStr ''c''] v1"
    by (auto simp: abc_patched user_step_def ui_step_def)
  obtain rb where s1: "demo_stands (abc ''restored'' ''restoring'' ''kept'') [JStr ''c''] [\<lparr>pd_id = JStr ''b'', pd_rest = [JStr ''c'']\<rparr>] [ra, rb] None (?answered keep_run)"
    "r_rawDiscarded rb = JStr ''39''"
    using abc_restore(2) [OF v1(1), of "[JStr ''c'']"] drawn_answer(5) unfolding v1(2) by auto
  from stands_settled [OF s1(1) abc_keyed, of Written] obtain v2 where
    v2: "demo_stands (abc ''restored'' ''restored'' ''kept'') [JStr ''c''] [] [ra, rb] None v2"
    "?answered (?answered keep_run) = ui_restore demo_env demo_opts mem_ops [JStr ''c''] v2"
    by (auto simp: abc_patched user_step_def ui_step_def)
  obtain rc where s2: "demo_stands (abc ''restored'' ''restored'' ''restoring'') [JStr ''c''] [\<lparr>pd_id = JStr ''c'', pd_rest = []\<rparr>] [ra, rb, rc] None (?answered (?answered keep_run))"
    "r_rawDiscarded rc = JStr ''40''"
    using abc_restore(3) [OF v2(1), of "[]"] drawn_answer(5) unfolding v2(2) by auto
  from stands_settled [OF s2(1) abc_keyed, of Written] have
    s3: "demo_stands (abc ''restored'' ''restored'' ''restored'') [JStr ''c''] [] [ra, rb, rc] None (?answered (?answered (?answered keep_run)))"
    by (auto simp: abc_patched user_step_def ui_step_def)
  show ?thesis
    using abc_statuses [OF s0(1)] abc_statuses [OF s3] s3 s0(2) s1(2) s2(2) by (simp add: stands_def)
qed

theorem restoring_row_is_stuck_witness:
  "mem_all (ui_store (demo_run (mountConflictNotice demo_env demo_opts mem_ops True (createMemoryConflictStore [answer ''a'' ''38'' ''restoring'']))
     [Tap Cn_Open JNull True, Tap Cn_Keep (JStr ''a'') True])) = [answer ''a'' ''38'' ''restoring'']"
proof -
  have m: "so_maxGroups demo_opts = None" by (simp add: demo_opts_def)
  have c: "localeCompare demo_env s s = 0" for s by (simp add: demo_env_def)
  have k: "rowKind (JObj (answer ''a'' ''38'' ''restoring'')) = KIND_ANSWER" by simp
  show ?thesis using restoring_row_is_stuck [OF demo_window m c k answer_fields(4)] by blast
qed

end
