(* ===== verification/SyncClient.thy ===== *)
theory SyncClient
  imports Complex_Main "HOL-Library.Char_ord" "HOL-Library.List_Lexorder" SyncScope ConflictHandler
begin

text \<open>
  The rest of \<^verbatim>\<open>sync-rxdb/client.js\<close>: the client bound to the same-origin door, the filter shim on its channels, the local
  database and the start of the replications. A URL is the record the browser's \<open>URL\<close> parses it into; the engine's
  \<open>replicate\<close> is the options it is called with.
\<close>

section \<open>The door's addresses and the version pin\<close>

definition SYNC_BASE_PATH :: string where "SYNC_BASE_PATH = ''/sync''"
definition REST_PREFIX :: string where "REST_PREFIX = ''/sync/rest''"
definition REALTIME_PREFIX :: string where "REALTIME_PREFIX = ''/sync/realtime''"
definition REALTIME_SOCKET_PATH :: string where "REALTIME_SOCKET_PATH = ''/sync/realtime/socket/websocket''"
definition REALTIME_VSN :: string where "REALTIME_VSN = ''1.0.0''"
definition PROXY_PLACEHOLDER_KEY :: string where "PROXY_PLACEHOLDER_KEY = ''hq-same-origin-proxy''"

record vendor =
  v_rxdb :: string
  v_supabaseJs :: string

definition PINNED_VENDOR :: vendor where
  "PINNED_VENDOR = \<lparr>v_rxdb = ''17.4.0'', v_supabaseJs = ''2.109.0''\<rparr>"

datatype client_error = Vendor_Mismatch "vendor option" | No_Origin | No_Fetch | Not_Iterable

definition assertVendorPin :: "vendor option \<Rightarrow> vendor \<Rightarrow> client_error + vendor" where
  "assertVendorPin build pinned = (case build of
     None \<Rightarrow> Inl (Vendor_Mismatch None)
   | Some b \<Rightarrow> if v_rxdb b \<noteq> v_rxdb pinned \<or> v_supabaseJs b \<noteq> v_supabaseJs pinned then Inl (Vendor_Mismatch (Some b)) else Inr b)"

section \<open>Rewriting requests\<close>

record url =
  u_origin :: string
  u_pathname :: string
  u_params :: "(string \<times> string) list"
  u_hash :: string

definition starts_with :: "string \<Rightarrow> string \<Rightarrow> bool" where
  "starts_with p s \<longleftrightarrow> take (length p) s = p"

definition rewriteRestPath :: "string \<Rightarrow> string" where
  "rewriteRestPath path =
     (if path = REST_PREFIX @ ''/v1'' then REST_PREFIX
      else if starts_with (REST_PREFIX @ ''/v1/'') path then REST_PREFIX @ drop (length (REST_PREFIX @ ''/v1'')) path
      else path)"

definition delete_param :: "string \<Rightarrow> url \<Rightarrow> url" where
  "delete_param n u = u\<lparr>u_params := filter (\<lambda>(m, v). m \<noteq> n) (u_params u)\<rparr>"

definition rewriteRealtimeUrl :: "url \<Rightarrow> url" where
  "rewriteRealtimeUrl u = delete_param ''apikey''
     (if starts_with REALTIME_PREFIX (u_pathname u) then u\<lparr>u_pathname := REALTIME_SOCKET_PATH\<rparr> else u)"

text \<open>The constructor of the subclass: what it passes to \<open>super\<close>.\<close>

definition makeRealtimeTransport :: "(url \<Rightarrow> 'p \<Rightarrow> 'o \<Rightarrow> 'socket) \<Rightarrow> url \<Rightarrow> 'p \<Rightarrow> 'o \<Rightarrow> 'socket" where
  "makeRealtimeTransport WebSocketImpl u protocols options = WebSocketImpl (rewriteRealtimeUrl u) protocols options"

text \<open>\<open>Headers\<close> keeps lower-case names.\<close>

definition header_char :: "char \<Rightarrow> char" where
  "header_char c = (let n = (of_char c :: nat) in if 65 \<le> n \<and> n \<le> 90 then char_of (n + 32) else c)"

type_synonym header_list = "(string \<times> string) list"

definition Headers :: "header_list \<Rightarrow> header_list" where
  "Headers hs = map (\<lambda>(n, v). (map header_char n, v)) hs"

definition delete_header :: "string \<Rightarrow> header_list \<Rightarrow> header_list" where
  "delete_header n hs = filter (\<lambda>(m, v). m \<noteq> n) hs"

datatype fetch_input = Url_Text string | Request_Obj string header_list

record fetch_init =
  i_headers :: "header_list option"
  i_method :: "string option"
  i_body :: "string option"
  i_credentials :: "string option"

record sent_request =
  s_url :: url
  s_headers :: header_list
  s_method :: "string option"
  s_body :: "string option"
  s_credentials :: string

definition raw_url :: "fetch_input \<Rightarrow> string" where
  "raw_url input = (case input of Url_Text s \<Rightarrow> s | Request_Obj s hs \<Rightarrow> s)"

definition given_headers :: "fetch_input \<Rightarrow> fetch_init option \<Rightarrow> header_list" where
  "given_headers input init = (case Option.bind init i_headers of
     Some hs \<Rightarrow> hs
   | None \<Rightarrow> (case input of Request_Obj s hs \<Rightarrow> hs | Url_Text s \<Rightarrow> []))"

text \<open>\<open>new URL(raw, location.origin)\<close> may throw: \<open>None\<close>.\<close>

definition makeSyncFetch :: "(string \<Rightarrow> string option \<Rightarrow> url option) \<Rightarrow> string option \<Rightarrow> fetch_input \<Rightarrow> fetch_init option \<Rightarrow> sent_request option" where
  "makeSyncFetch parse origin input init = map_option (\<lambda>u.
     \<lparr>s_url = delete_param ''apikey'' (u\<lparr>u_pathname := rewriteRestPath (u_pathname u)\<rparr>),
      s_headers = delete_header ''apikey'' (delete_header ''authorization'' (Headers (given_headers input init))),
      s_method = Option.bind init i_method, s_body = Option.bind init i_body, s_credentials = ''same-origin''\<rparr>)
     (parse (raw_url input) origin)"

section \<open>Grants\<close>

definition UMBRELLA_SLUGS :: "(string \<times> string list) list" where "UMBRELLA_SLUGS = []"

text \<open>The names every object literal inherits: reading one of them from the table finds a function or an object, and
  neither can be iterated.\<close>

definition INHERITED :: "string list" where
  "INHERITED = [''constructor'', ''hasOwnProperty'', ''isPrototypeOf'', ''propertyIsEnumerable'', ''toLocaleString'', ''toString'',
     ''valueOf'', ''__proto__'', ''__defineGetter__'', ''__defineSetter__'', ''__lookupGetter__'', ''__lookupSetter__'']"

fun expand_slugs :: "string list \<Rightarrow> json list \<Rightarrow> client_error + string list" where
  "expand_slugs out [] = Inr out"
| "expand_slugs out (JStr s # vs) =
     (if s = [] then expand_slugs out vs
      else case map_of UMBRELLA_SLUGS s of
        Some cs \<Rightarrow> expand_slugs (fold List.insert cs (List.insert s out)) vs
      | None \<Rightarrow> if s \<in> set INHERITED then Inl Not_Iterable else expand_slugs (List.insert s out) vs)"
| "expand_slugs out (_ # vs) = expand_slugs out vs"

definition expandGrantSlugs :: "json \<Rightarrow> client_error + string list" where
  "expandGrantSlugs slugs = (if \<not> SyncScope.truthy slugs then Inr []
     else case slugs of
       JArr vs \<Rightarrow> map_sum id sort (expand_slugs [] vs)
     | JStr s \<Rightarrow> map_sum id sort (expand_slugs [] (map (\<lambda>c. JStr [c]) s))
     | _ \<Rightarrow> Inl Not_Iterable)"

section \<open>The client and the filter shim\<close>

text \<open>What the code reads and sets on the client: the registry of filters, the mark of the shim, and how many times
  \<open>channel\<close> has been wrapped.\<close>

record rt_client =
  cl_base :: string
  cl_key :: string
  cl_vsn :: string
  cl_transport :: bool
  rt_registry :: "(string \<times> string) list"
  rt_installed :: bool
  rt_wraps :: nat

fun assoc_set :: "'k \<Rightarrow> 'v \<Rightarrow> ('k \<times> 'v) list \<Rightarrow> ('k \<times> 'v) list" where
  "assoc_set k v [] = [(k, v)]"
| "assoc_set k v ((j, w) # xs) = (if j = k then (j, v) # xs else (j, w) # assoc_set k v xs)"

definition registerRealtimeFilter :: "rt_client \<Rightarrow> string \<Rightarrow> string option \<Rightarrow> rt_client" where
  "registerRealtimeFilter c ident flt = (case flt of
     None \<Rightarrow> c | Some f \<Rightarrow> c\<lparr>rt_registry := assoc_set ident f (rt_registry c)\<rparr>)"

definition installRealtimeFilterShim :: "rt_client \<Rightarrow> rt_client" where
  "installRealtimeFilterShim c = (if rt_installed c then c else c\<lparr>rt_installed := True, rt_wraps := rt_wraps c + 1\<rparr>)"

text \<open>The wrapped \<open>on\<close> of the channel called \<open>nm\<close>: the binding config it hands to the one beneath.\<close>

definition hqOn :: "(string \<times> string) list \<Rightarrow> string \<Rightarrow> string \<Rightarrow> doc option \<Rightarrow> doc option" where
  "hqOn filters nm type config = (case (map_of filters nm, config) of
     (Some f, Some c) \<Rightarrow>
       if f \<noteq> [] \<and> type = ''postgres_changes'' \<and> field c ''filter'' = JUndef then Some (set_field c ''filter'' (JStr f)) else config
   | _ \<Rightarrow> config)"

definition client_on :: "rt_client \<Rightarrow> string \<Rightarrow> string \<Rightarrow> doc option \<Rightarrow> doc option" where
  "client_on c nm type config = ((hqOn (rt_registry c) nm type) ^^ rt_wraps c) config"

record client_opts =
  co_origin :: "string option"
  co_location :: "string option"
  co_fetch :: bool
  co_webSocket :: bool

definition origin_of :: "client_opts \<Rightarrow> string option" where
  "origin_of opts = (case co_origin opts of Some s \<Rightarrow> if s \<noteq> [] then Some s else co_location opts | None \<Rightarrow> co_location opts)"

definition createHQSupabaseClient :: "vendor option \<Rightarrow> client_opts \<Rightarrow> client_error + rt_client" where
  "createHQSupabaseClient build opts =
     bind_err (assertVendorPin build PINNED_VENDOR) (\<lambda>_.
     case origin_of opts of
       None \<Rightarrow> Inl No_Origin
     | Some origin \<Rightarrow>
         if origin = [] then Inl No_Origin
         else if \<not> co_fetch opts then Inl No_Fetch
         else Inr (installRealtimeFilterShim
           \<lparr>cl_base = origin @ SYNC_BASE_PATH, cl_key = PROXY_PLACEHOLDER_KEY, cl_vsn = REALTIME_VSN, cl_transport = co_webSocket opts,
            rt_registry = [], rt_installed = False, rt_wraps = 0\<rparr>))"

record 's hq_client =
  hc_client :: rt_client
  hc_surfaces :: "string list"
  hc_conflictHandler :: "'s hq_handler"
  hc_vendor :: vendor

definition createHQSyncClient ::
  "vendor option \<Rightarrow> (doc \<Rightarrow> doc \<Rightarrow> bool) \<Rightarrow> client_opts \<Rightarrow> 's on_clash option \<Rightarrow> json \<Rightarrow> client_error + 's hq_client" where
  "createHQSyncClient build default_isEqual opts onClash grants =
     bind_err (createHQSupabaseClient build opts) (\<lambda>c.
     bind_err (expandGrantSlugs grants) (\<lambda>surfaces.
     Inr \<lparr>hc_client = c, hc_surfaces = surfaces,
          hc_conflictHandler = createHQConflictHandler (Some default_isEqual) onClash no_opts, hc_vendor = the build\<rparr>))"

section \<open>The local database\<close>

record 's collection_def =
  cd_schema :: schema
  cd_conflictHandler :: "'s hq_handler option"

record 's database =
  db_name :: string
  db_multiInstance :: bool
  db_ignoreDuplicate :: bool
  db_collections :: "(string \<times> 's collection_def) list"

record 's db_opts =
  do_name :: "string option"
  do_multiInstance :: json
  do_ignoreDuplicate :: json
  do_conflictHandler :: "'s hq_handler option"
  do_onClash :: "'s on_clash option"

definition createHQSyncDatabase ::
  "vendor option \<Rightarrow> (doc \<Rightarrow> doc \<Rightarrow> bool) \<Rightarrow> 's db_opts \<Rightarrow> client_error + 's database" where
  "createHQSyncDatabase build default_isEqual opts =
     bind_err (assertVendorPin build PINNED_VENDOR) (\<lambda>_.
     let handler = (case do_conflictHandler opts of Some h \<Rightarrow> h
                    | None \<Rightarrow> createHQConflictHandler (Some default_isEqual) (do_onClash opts) no_opts);
         defs = map (\<lambda>(k, c). (k, \<lparr>cd_schema = c_schema c, cd_conflictHandler = Some handler\<rparr>)) REPLICATED_COLLECTIONS
              @ map (\<lambda>(k, c). (k, \<lparr>cd_schema = c_schema c, cd_conflictHandler = None\<rparr>)) LOCAL_COLLECTIONS
     in Inr \<lparr>db_name = (case do_name opts of Some n \<Rightarrow> if n \<noteq> [] then n else ''hq_sync'' | None \<Rightarrow> ''hq_sync''),
             db_multiInstance = (do_multiInstance opts \<noteq> JBool False), db_ignoreDuplicate = SyncScope.truthy (do_ignoreDuplicate opts),
             db_collections = defs\<rparr>)"

section \<open>Starting the replications\<close>

record start_opts =
  st_scope :: json
  st_waitForLeadership :: json
  st_live :: json
  st_pullBatchSize :: json
  st_pushBatchSize :: json
  st_onConflict :: bool
  st_conflictOpts :: "merge_opts option"

record 's replication_call =
  rc_identifier :: string
  rc_collection :: "'s collection_def option"
  rc_client :: rt_client
  rc_tableName :: "string option"
  rc_waitForLeadership :: bool
  rc_live :: bool
  rc_pullBatchSize :: json
  rc_queryBuilder :: "clause list \<Rightarrow> clause list"
  rc_pushBatchSize :: json

datatype 's start_effect =
    Registered string "string option"
  | Replicated string "'s replication_call"
  | Subscribed string merge_opts

definition or_batch :: "json \<Rightarrow> json" where
  "or_batch v = (if SyncScope.truthy v then v else JNum 50)"

definition replicationIdentifier :: "collection \<Rightarrow> scope_plan \<Rightarrow> string" where
  "replicationIdentifier c plan =
     ''hq-sync-'' @ (case c_table c of Some t \<Rightarrow> t | None \<Rightarrow> ''undefined'') @ ''-'' @ plan_fingerprint plan"

fun all_plans :: "(string \<Rightarrow> ms option) \<Rightarrow> json \<Rightarrow> (string \<times> collection) list \<Rightarrow> scope_error + (string \<times> collection \<times> scope_plan) list" where
  "all_plans parse v [] = Inr []"
| "all_plans parse v ((k, c) # cs) =
     bind_err (scopePlanFor parse k v) (\<lambda>p. bind_err (all_plans parse v cs) (\<lambda>ps. Inr ((k, c, p) # ps)))"

definition start_one ::
  "'s database \<Rightarrow> start_opts \<Rightarrow> rt_client \<times> 's start_effect list \<Rightarrow> string \<times> collection \<times> scope_plan \<Rightarrow> rt_client \<times> 's start_effect list" where
  "start_one db opts st kcp = (case (st, kcp) of ((client, lg), (key, c, plan)) \<Rightarrow>
     (let ident = replicationIdentifier c plan;
          client = registerRealtimeFilter client ident (plan_realtime plan);
          coll = map_of (db_collections db) key;
          call = \<lparr>rc_identifier = ident, rc_collection = coll, rc_client = client, rc_tableName = c_table c,
                  rc_waitForLeadership = (st_waitForLeadership opts \<noteq> JBool False), rc_live = (st_live opts \<noteq> JBool False),
                  rc_pullBatchSize = or_batch (st_pullBatchSize opts), rc_queryBuilder = (\<lambda>q. apply_node q (plan_node plan)),
                  rc_pushBatchSize = or_batch (st_pushBatchSize opts)\<rparr>
      in (client,
          lg @ [Registered ident (plan_realtime plan), Replicated key call]
            @ (if st_onConflict opts
               then [Subscribed key (case st_conflictOpts opts of Some mo \<Rightarrow> mo | None \<Rightarrow> conflictOptsOf (Option.bind coll cd_conflictHandler))]
               else []))))"

text \<open>\<open>rc_client\<close> is the client as \<open>replicate\<close> finds it. The result: the client after the call, what was done in order, and the error thrown, if any.\<close>

definition startHQReplication ::
  "(string \<Rightarrow> ms option) \<Rightarrow> 's database \<Rightarrow> rt_client \<Rightarrow> start_opts \<Rightarrow> (rt_client \<times> 's start_effect list) \<times> scope_error option" where
  "startHQReplication parse db client opts =
     (case bind_err (normalizeScope parse (st_scope opts)) (\<lambda>s. all_plans parse (scope_value s) REPLICATED_COLLECTIONS) of
        Inl e \<Rightarrow> ((client, []), Some e)
      | Inr plans \<Rightarrow> (foldl (start_one db opts) (client, []) plans, None))"

end
