(* ===== verification/SyncClientProps.thy ===== *)
theory SyncClientProps
  imports Complex_Main SyncClient SyncScopeProps
begin

text \<open>
  What the client promises: no request leaves with a credential of its own, the surfaces are the claimed slugs once each
  in order, and replications start scoped, all or none, with the live filter in place on every client that
  \<^verbatim>\<open>createHQSupabaseClient\<close> built, whatever was started on it before.
\<close>

section \<open>Requests\<close>

lemma delete_header_names: "h \<in> set (delete_header n hs) \<longleftrightarrow> h \<in> set hs \<and> fst h \<noteq> n"
  by (auto simp: delete_header_def)

lemma delete_param_params: "u_params (delete_param n u) = filter (\<lambda>p. fst p \<noteq> n) (u_params u)"
  by (simp add: delete_param_def case_prod_unfold)

lemma rest_path_versioned: "rewriteRestPath (''/sync/rest/v1/'' @ rest) = ''/sync/rest/'' @ rest"
  by (simp add: rewriteRestPath_def REST_PREFIX_def starts_with_def)

lemma rest_path_other: "\<nexists>rest. path = ''/sync/rest/v1'' @ rest \<Longrightarrow> rewriteRestPath path = path"
proof -
  assume none: "\<nexists>rest. path = ''/sync/rest/v1'' @ rest"
  have "path \<noteq> REST_PREFIX @ ''/v1''" using none [simplified, THEN spec, of "[]"] by (simp add: REST_PREFIX_def)
  moreover have "\<not> starts_with (REST_PREFIX @ ''/v1/'') path"
  proof
    assume "starts_with (REST_PREFIX @ ''/v1/'') path"
    then have "path = (REST_PREFIX @ ''/v1/'') @ drop (length (REST_PREFIX @ ''/v1/'')) path"
      by (metis append_take_drop_id starts_with_def)
    then have "path = ''/sync/rest/v1'' @ CHR ''/'' # drop (length (REST_PREFIX @ ''/v1/'')) path"
      by (simp add: REST_PREFIX_def)
    with none show False by blast
  qed
  ultimately show ?thesis by (simp add: rewriteRestPath_def)
qed

text \<open>no credential of the page's own leaves it. Whatever the caller passes, a string or a request object, the request
  that is sent carries no authorization and no apikey header in any letter case and no apikey parameter, goes out with
  same-origin credentials whatever credentials mode was asked for, and keeps every other header and parameter in order;
  a path under the REST prefix loses exactly the version segment, any other path is untouched.\<close>
theorem no_credentials_leave:
  assumes "parse (raw_url inp) origin = Some u"
  shows "\<exists>r. makeSyncFetch parse origin inp init = Some r
    \<and> (\<forall>(n, v) \<in> set (s_headers r). n \<noteq> ''authorization'' \<and> n \<noteq> ''apikey'')
    \<and> s_headers r = filter (\<lambda>(n, v). n \<noteq> ''authorization'' \<and> n \<noteq> ''apikey'') (Headers (given_headers inp init))
    \<and> u_params (s_url r) = filter (\<lambda>(n, v). n \<noteq> ''apikey'') (u_params u)
    \<and> s_credentials r = ''same-origin'' \<and> u_origin (s_url r) = u_origin u
    \<and> (\<forall>rest. u_pathname u = ''/sync/rest/v1/'' @ rest \<longrightarrow> u_pathname (s_url r) = ''/sync/rest/'' @ rest)
    \<and> ((\<nexists>rest. u_pathname u = ''/sync/rest/v1'' @ rest) \<longrightarrow> u_pathname (s_url r) = u_pathname u)"
  using assms rest_path_versioned rest_path_other [of "u_pathname u"]
  by (auto simp: makeSyncFetch_def delete_header_def delete_param_def case_prod_unfold conj_commute)

lemma realtime_url:
  "''apikey'' \<notin> fst ` set (u_params (rewriteRealtimeUrl u)) \<and> u_origin (rewriteRealtimeUrl u) = u_origin u
   \<and> (starts_with REALTIME_PREFIX (u_pathname u) \<longrightarrow> u_pathname (rewriteRealtimeUrl u) = REALTIME_SOCKET_PATH)"
  by (auto simp: rewriteRealtimeUrl_def delete_param_def)

section \<open>Grants\<close>

definition slug_strings :: "json list \<Rightarrow> string list" where
  "slug_strings vs = concat (map (\<lambda>v. case v of JStr s \<Rightarrow> if s = [] then [] else [s] | _ \<Rightarrow> []) vs)"

lemma expand_slugs_set:
  "expand_slugs out vs = (if \<exists>s \<in> set (slug_strings vs). s \<in> set INHERITED then Inl Not_Iterable
     else Inr (fold List.insert (slug_strings vs) out))"
  by (induction out vs rule: expand_slugs.induct) (auto simp: slug_strings_def UMBRELLA_SLUGS_def)

lemma sorted_inserts: "sort (fold List.insert xs []) = sorted_list_of_set (set (xs :: string list))"
proof -
  have "set (fold List.insert xs out) = set xs \<union> set out \<and> (distinct out \<longrightarrow> distinct (fold List.insert xs out))" for out
    by (induction xs arbitrary: out) auto
  from this [of "[]"] show ?thesis
    by (metis distinct.simps(1) set_empty2 sorted_list_of_set_sort_remdups distinct_remdups_id sup_bot.right_neutral)
qed

text \<open>the surfaces of a claimed list are its non-empty strings, each once, in order, whatever else the list holds;
  a claim that names something every object inherits, as constructor does, throws instead and the client is not built.\<close>
theorem grants_expand:
  "expandGrantSlugs (JArr vs) =
     (if \<exists>s \<in> set (slug_strings vs). s \<in> set INHERITED then Inl Not_Iterable
      else Inr (sorted_list_of_set (set (slug_strings vs))))"
  by (simp add: expandGrantSlugs_def expand_slugs_set sorted_inserts SyncScope.truthy_def)

section \<open>Starting the replications\<close>

definition replicated :: "'s start_effect list \<Rightarrow> (string \<times> 's replication_call) list" where
  "replicated lg = concat (map (\<lambda>e. case e of Replicated k c \<Rightarrow> [(k, c)] | _ \<Rightarrow> []) lg)"

lemma replicated_append [simp]: "replicated (xs @ ys) = replicated xs @ replicated ys"
  by (simp add: replicated_def)

lemma map_of_assoc_set [simp]: "map_of (assoc_set k v xs) = (map_of xs)(k \<mapsto> v)"
  by (induction k v xs rule: assoc_set.induct) (auto simp: fun_eq_iff)

definition the_plan :: "(string \<Rightarrow> ms option) \<Rightarrow> scope \<Rightarrow> string \<Rightarrow> scope_plan" where
  "the_plan parse s key = (case scopePlanFor parse key (scope_value s) of Inr p \<Rightarrow> p)"

lemma plan_ok:
  assumes "scope_ok parse s" and "(key, c) \<in> set REPLICATED_COLLECTIONS"
  obtains f rt where "scopePlanFor parse key (scope_value s) = Inr (the_plan parse s key)" and "filter_for key s = Some f"
    and "realtimeFilterFor parse key (scope_value s) = Inr rt" and "plan_node (the_plan parse s key) = f"
    and "plan_realtime (the_plan parse s key) = rt" and "length (plan_fingerprint (the_plan parse s key)) = 16"
proof -
  obtain f where f: "filter_for key s = Some f" using filter_for_replicated [OF assms(2)] by blast
  have n: "normalizeScope parse (scope_value s) = Inr s" by (rule normalize_value [OF assms(1)])
  then obtain rt where rt: "realtimeFilterFor parse key (scope_value s) = Inr rt" by (simp add: realtimeFilterFor_def)
  show ?thesis
    by (rule that [OF _ f rt]) (use plan_of [OF n, of key] f rt fingerprint_hex16 in \<open>simp_all add: the_plan_def\<close>)
qed

lemma all_plans_ok:
  assumes "scope_ok parse s"
  shows "set cs \<subseteq> set REPLICATED_COLLECTIONS \<Longrightarrow>
    all_plans parse (scope_value s) cs = Inr (map (\<lambda>(k, c). (k, c, the_plan parse s k)) cs)"
proof (induction cs)
  case (Cons kc cs)
  obtain k c where kc: "kc = (k, c)" by (cases kc)
  have "(k, c) \<in> set REPLICATED_COLLECTIONS" using Cons.prems kc by simp
  then obtain f rt where "scopePlanFor parse k (scope_value s) = Inr (the_plan parse s k)" by (rule plan_ok [OF assms])
  with Cons kc show ?case by simp
qed simp

text \<open>The live binding of one channel, from the registry.\<close>

lemma client_on_once:
  "rt_wraps c = 1 \<Longrightarrow> field cfg ''filter'' = JUndef \<Longrightarrow>
   client_on c nm ''postgres_changes'' (Some cfg) =
     (case map_of (rt_registry c) nm of Some f \<Rightarrow> Some (if f \<noteq> [] then set_field cfg ''filter'' (JStr f) else cfg) | None \<Rightarrow> Some cfg)"
  by (simp add: client_on_def hqOn_def split: option.split)

definition responses_ident :: "string \<Rightarrow> bool" where
  "responses_ident i = starts_with ''hq-sync-submission_responses-'' i"

definition client_ok :: "rt_client \<Rightarrow> bool" where
  "client_ok c \<longleftrightarrow> rt_wraps c = 1 \<and> (\<forall>i. responses_ident i \<longrightarrow> map_of (rt_registry c) i = None)"

lemma fresh_client: "createHQSupabaseClient build copts = Inr c \<Longrightarrow> client_ok c"
  by (auto simp: createHQSupabaseClient_def client_ok_def installRealtimeFilterShim_def bind_err_Inr split: option.splits if_splits)

definition ident_of :: "(string \<Rightarrow> ms option) \<Rightarrow> scope \<Rightarrow> string \<times> collection \<Rightarrow> string" where
  "ident_of parse s kc = replicationIdentifier (snd kc) (the_plan parse s (fst kc))"

lemma ident_eq:
  assumes "length (plan_fingerprint p) = 16" and "length (plan_fingerprint q) = 16"
    and "replicationIdentifier c p = replicationIdentifier d q"
  shows "(case c_table c of Some t \<Rightarrow> t | None \<Rightarrow> ''undefined'') = (case c_table d of Some t \<Rightarrow> t | None \<Rightarrow> ''undefined'')"
proof -
  let ?t = "case c_table c of Some t \<Rightarrow> t | None \<Rightarrow> ''undefined''" and ?u = "case c_table d of Some t \<Rightarrow> t | None \<Rightarrow> ''undefined''"
  have "?t @ ''-'' @ plan_fingerprint p = ?u @ ''-'' @ plan_fingerprint q" using assms(3) by (simp add: replicationIdentifier_def)
  then show ?thesis using append_eq_append_conv [of "''-'' @ plan_fingerprint p" "''-'' @ plan_fingerprint q" ?t ?u]
    by (metis append_eq_append_conv assms(1,2) length_append)
qed

lemma collection_tables:
  assumes "(k, c) \<in> set REPLICATED_COLLECTIONS"
  obtains "k = ''templates''" "c = templates" "c_table c = Some ''checklist_templates''"
  | "k = ''checklists''" "c = checklists" "c_table c = Some ''checklist_submissions''"
  | "k = ''responses''" "c = responses" "c_table c = Some ''submission_responses''"
  | "k = ''approvals''" "c = approvals" "c_table c = Some ''submission_rejections''"
proof -
  have "(k, c) = (''templates'', templates) \<or> (k, c) = (''checklists'', checklists)
      \<or> (k, c) = (''responses'', responses) \<or> (k, c) = (''approvals'', approvals)"
    using assms by (simp add: REPLICATED_COLLECTIONS_def)
  then show ?thesis
    by (elim disjE) (rule that; simp add: templates_def checklists_def responses_def approvals_def)+
qed

lemma ident_table:
  assumes "(k, c) \<in> set REPLICATED_COLLECTIONS" and "(j, d) \<in> set REPLICATED_COLLECTIONS"
    and "(case c_table c of Some t \<Rightarrow> t | None \<Rightarrow> ''undefined'') = (case c_table d of Some t \<Rightarrow> t | None \<Rightarrow> ''undefined'')"
  shows "k = j \<and> c = d"
  by (rule collection_tables [OF assms(1)]; rule collection_tables [OF assms(2)]) (use assms(3) in simp_all)

lemma starts_with_simps [simp]: "starts_with [] s" "\<not> starts_with (c # p) []"
    "starts_with (c # p) (d # s) = (c = d \<and> starts_with p s)"
  by (auto simp: starts_with_def)

lemma ident_responses:
  assumes "(k, c) \<in> set REPLICATED_COLLECTIONS"
  shows "responses_ident (replicationIdentifier c p) = (k = ''responses'')"
proof -
  show ?thesis by (rule collection_tables [OF assms]) (simp_all add: replicationIdentifier_def responses_ident_def)
qed

text \<open>One collection's replication as it should have been started, on the client \<open>c\<close> as it now is.\<close>

definition holds_filter :: "(string \<Rightarrow> ms option) \<Rightarrow> scope \<Rightarrow> string \<times> collection \<Rightarrow> rt_client \<Rightarrow> bool" where
  "holds_filter parse s kc c \<longleftrightarrow> client_ok c \<and>
     (fst kc \<noteq> ''responses'' \<longrightarrow> map_of (rt_registry c) (ident_of parse s kc) = plan_realtime (the_plan parse s (fst kc)))"

definition started :: "(string \<Rightarrow> ms option) \<Rightarrow> scope \<Rightarrow> rt_client \<Rightarrow> string \<times> collection \<Rightarrow> string \<times> 's replication_call \<Rightarrow> bool" where
  "started parse s c kc kr \<longleftrightarrow> fst kr = fst kc \<and> rc_identifier (snd kr) = ident_of parse s kc
     \<and> rc_queryBuilder (snd kr) = (\<lambda>q. apply_node q (plan_node (the_plan parse s (fst kc))))
     \<and> holds_filter parse s kc (rc_client (snd kr)) \<and> holds_filter parse s kc c"

lemma rt_some:
  assumes "scope_ok parse s" and "(k, c) \<in> set REPLICATED_COLLECTIONS"
  shows "case plan_realtime (the_plan parse s k) of None \<Rightarrow> k = ''responses'' | Some f \<Rightarrow> k \<noteq> ''responses'' \<and> f \<noteq> []"
proof -
  have n: "normalizeScope parse (scope_value s) = Inr s" by (rule normalize_value [OF assms(1)])
  obtain rt where rt: "realtimeFilterFor parse k (scope_value s) = Inr rt" "plan_realtime (the_plan parse s k) = rt"
    by (rule plan_ok [OF assms])
  have "case rt of None \<Rightarrow> k = ''responses'' | Some f \<Rightarrow> k \<noteq> ''responses'' \<and> f \<noteq> []"
    using rt(1) by (rule_tac collection_tables [OF assms(2)]) (auto simp: realtimeFilterFor_def n split: scope.splits)
  then show ?thesis by (simp only: rt(2))
qed

lemma register_ok:
  assumes "scope_ok parse s" and "kc \<in> set REPLICATED_COLLECTIONS" and "client_ok c"
    and "c' = registerRealtimeFilter c (ident_of parse s kc) (plan_realtime (the_plan parse s (fst kc)))"
  shows "holds_filter parse s kc c'" and "i \<noteq> ident_of parse s kc \<Longrightarrow> map_of (rt_registry c') i = map_of (rt_registry c) i"
proof -
  obtain k cc where kc: "kc = (k, cc)" by (cases kc)
  note r = rt_some [OF assms(1), of k cc]
  show "holds_filter parse s kc c'"
    using r assms ident_responses [of k cc "the_plan parse s k"]
    by (auto simp: kc holds_filter_def registerRealtimeFilter_def client_ok_def ident_of_def split: option.splits)
  show "i \<noteq> ident_of parse s kc \<Longrightarrow> map_of (rt_registry c') i = map_of (rt_registry c) i"
    using assms(4) by (auto simp: registerRealtimeFilter_def split: option.splits)
qed

lemma start_all:
  assumes "scope_ok parse s"
  shows "set cs \<subseteq> set REPLICATED_COLLECTIONS \<Longrightarrow> distinct (map (ident_of parse s) cs) \<Longrightarrow> client_ok c \<Longrightarrow>
    \<exists>c' lg' calls. foldl (start_one db opts) (c, lg) (map (\<lambda>(k, cc). (k, cc, the_plan parse s k)) cs) = (c', lg')
      \<and> client_ok c' \<and> (\<forall>i. i \<notin> ident_of parse s ` set cs \<longrightarrow> map_of (rt_registry c') i = map_of (rt_registry c) i)
      \<and> replicated lg' = replicated lg @ calls \<and> list_all2 (started parse s c') cs calls"
proof (induction cs arbitrary: c lg)
  case Nil
  then show ?case by simp
next
  case (Cons kc cs)
  obtain k cc where kc: "kc = (k, cc)" by (cases kc)
  let ?c1 = "registerRealtimeFilter c (ident_of parse s kc) (plan_realtime (the_plan parse s (fst kc)))"
  obtain lg1 call where step: "start_one db opts (c, lg) (k, cc, the_plan parse s k) = (?c1, lg1)"
    and call: "replicated lg1 = replicated lg @ [(k, call)]" "rc_identifier call = ident_of parse s kc" "rc_client call = ?c1"
      "rc_queryBuilder call = (\<lambda>q. apply_node q (plan_node (the_plan parse s k)))"
    by (simp add: start_one_def Let_def ident_of_def kc replicated_def)
  have kin: "kc \<in> set REPLICATED_COLLECTIONS" using Cons.prems by simp
  note reg = register_ok [OF assms kin Cons.prems(3) refl]
  have "client_ok ?c1" using reg(1) by (simp add: holds_filter_def)
  from Cons.IH [OF _ _ this, of lg1] Cons.prems obtain c' lg' calls
    where rest: "foldl (start_one db opts) (?c1, lg1) (map (\<lambda>(k, cc). (k, cc, the_plan parse s k)) cs) = (c', lg')"
      "client_ok c'" "\<forall>i. i \<notin> ident_of parse s ` set cs \<longrightarrow> map_of (rt_registry c') i = map_of (rt_registry ?c1) i"
      "replicated lg' = replicated lg1 @ calls" "list_all2 (started parse s c') cs calls" by auto
  have "ident_of parse s kc \<notin> ident_of parse s ` set cs" using Cons.prems(2) by simp
  then have "holds_filter parse s kc c'" using reg(1) rest(2,3) by (simp add: holds_filter_def)
  then have "started parse s c' kc (k, call)" using call reg(1) by (simp add: started_def kc)
  moreover have "\<forall>i. i \<notin> ident_of parse s ` set (kc # cs) \<longrightarrow> map_of (rt_registry c') i = map_of (rt_registry c) i"
    using rest(3) reg(2) by simp
  moreover have "foldl (start_one db opts) (c, lg) (map (\<lambda>(k, cc). (k, cc, the_plan parse s k)) (kc # cs)) = (c', lg')"
    using step rest(1) by (simp add: kc)
  ultimately show ?case using rest(2,4,5) call(1)
    by (intro exI [of _ c'] exI [of _ lg'] exI [of _ "(k, call) # calls"]) simp
qed

lemma ident_distinct:
  assumes "scope_ok parse s"
  shows "distinct (map (ident_of parse s) REPLICATED_COLLECTIONS)"
proof -
  have "distinct (map fst REPLICATED_COLLECTIONS)" by (simp add: REPLICATED_COLLECTIONS_def)
  then have d: "distinct REPLICATED_COLLECTIONS" by (simp only: distinct_map)
  have fp: "length (plan_fingerprint (the_plan parse s (fst kc))) = 16" if kc: "kc \<in> set REPLICATED_COLLECTIONS" for kc
  proof -
    have "(fst kc, snd kc) \<in> set REPLICATED_COLLECTIONS" using kc by simp
    then show ?thesis by (rule plan_ok [OF assms])
  qed
  have "kc = kd" if in2: "kc \<in> set REPLICATED_COLLECTIONS" "kd \<in> set REPLICATED_COLLECTIONS" and e: "ident_of parse s kc = ident_of parse s kd" for kc kd
  proof -
    have i: "(fst kc, snd kc) \<in> set REPLICATED_COLLECTIONS" "(fst kd, snd kd) \<in> set REPLICATED_COLLECTIONS" using in2 by simp_all
    show ?thesis
      using ident_table [OF i ident_eq [OF fp [OF in2(1)] fp [OF in2(2)] e [unfolded ident_of_def]]]
      by (simp only: prod_eq_iff)
  qed
  then have "inj_on (ident_of parse s) (set REPLICATED_COLLECTIONS)" by (rule inj_onI)
  then show ?thesis unfolding distinct_map using d by (rule conjI [rotated])
qed

lemma start_scoped:
  assumes "client_ok client"
  shows "case normalizeScope parse (st_scope opts) of
      Inl e \<Rightarrow> startHQReplication parse db client opts = ((client, []), Some e)
    | Inr s \<Rightarrow> \<exists>c' lg calls. startHQReplication parse db client opts = ((c', lg), None) \<and> client_ok c'
        \<and> replicated lg = calls \<and> list_all2 (started parse s c') REPLICATED_COLLECTIONS calls"
proof (cases "normalizeScope parse (st_scope opts)")
  case (Inl e)
  then show ?thesis by (simp add: startHQReplication_def)
next
  case (Inr s)
  have ok: "scope_ok parse s" by (rule normalize_ok [OF Inr])
  show ?thesis
    using start_all [OF ok order_refl ident_distinct [OF ok] assms, of db opts "[]"] all_plans_ok [OF ok order_refl] Inr
    by (auto simp: startHQReplication_def replicated_def)
qed

lemma starts_keep_client: "client_ok c \<Longrightarrow> client_ok (foldl (\<lambda>c opts. fst (fst (startHQReplication parse db c opts))) c earlier)"
proof (induction earlier arbitrary: c)
  case (Cons e es)
  have "client_ok (fst (fst (startHQReplication parse db c e)))"
    using start_scoped [OF Cons.prems, of parse db e] Cons.prems by (auto split: sum.splits)
  then show ?case using Cons.IH by simp
qed simp

text \<open>What one started replication asks for, and what its channel is told, on the client \<open>c\<close>.\<close>

definition asks_for_scope :: "(string \<Rightarrow> string \<Rightarrow> bool) \<Rightarrow> scope \<Rightarrow> string \<Rightarrow> 's replication_call \<Rightarrow> bool" where
  "asks_for_scope ge s key call \<longleftrightarrow>
     (\<forall>q row. query_admits ge row (rc_queryBuilder call q) \<longleftrightarrow> query_admits ge row q \<and> in_scope ge key s row)"

definition listens_in_scope :: "(string \<Rightarrow> string \<Rightarrow> bool) \<Rightarrow> scope \<Rightarrow> string \<Rightarrow> 's replication_call \<Rightarrow> rt_client \<Rightarrow> doc \<Rightarrow> bool" where
  "listens_in_scope ge s key call c cfg \<longleftrightarrow>
     (let binding = client_on c (rc_identifier call) ''postgres_changes'' (Some cfg) in
      if key = ''responses'' then binding = Some cfg
      else \<exists>clause. binding = Some (set_field cfg ''filter'' (JStr clause)) \<and> (\<forall>row. in_scope ge key s row \<longrightarrow> live_admits ge row clause))"

lemma started_asks:
  assumes "scope_ok parse s" and "(k, cc) \<in> set REPLICATED_COLLECTIONS" and "started parse s c (k, cc) kr"
  shows "asks_for_scope ge s k (snd kr)"
proof -
  obtain f where "filter_for k s = Some f" "plan_node (the_plan parse s k) = f" by (rule plan_ok [OF assms(1,2)])
  then show ?thesis
    using assms(3) apply_node_admits [OF wf_filter_for [OF assms(1)]] admits_filter_for by (simp add: asks_for_scope_def started_def)
qed

lemma holds_listens:
  assumes "scope_ok parse s" and "(k, cc) \<in> set REPLICATED_COLLECTIONS" and "holds_filter parse s (k, cc) c"
    and "rc_identifier call = ident_of parse s (k, cc)" and "field cfg ''filter'' = JUndef"
  shows "listens_in_scope ge s k call c cfg"
proof -
  obtain rt where rt: "realtimeFilterFor parse k (scope_value s) = Inr rt" "plan_realtime (the_plan parse s k) = rt"
    by (rule plan_ok [OF assms(1,2)])
  have live: "in_scope ge k s row \<Longrightarrow> case rt of None \<Rightarrow> k = ''responses'' | Some t \<Rightarrow> live_admits ge row t" for row
    using live_admits_scope [OF normalize_value [OF assms(1)] rt(1) assms(2)] .
  have some: "case rt of None \<Rightarrow> k = ''responses'' | Some f \<Rightarrow> k \<noteq> ''responses'' \<and> f \<noteq> []"
    using rt_some [OF assms(1,2)] by (simp only: rt(2))
  have c: "client_ok c" and m: "k \<noteq> ''responses'' \<Longrightarrow> map_of (rt_registry c) (rc_identifier call) = rt"
    using assms(3,4) rt(2) by (simp_all add: holds_filter_def)
  have on: "client_on c (rc_identifier call) ''postgres_changes'' (Some cfg) =
      (case map_of (rt_registry c) (rc_identifier call) of Some f \<Rightarrow> Some (if f \<noteq> [] then set_field cfg ''filter'' (JStr f) else cfg) | None \<Rightarrow> Some cfg)"
    using c assms(5) by (intro client_on_once) (simp_all add: client_ok_def)
  show ?thesis
  proof (cases "k = ''responses''")
    case True
    then have "responses_ident (rc_identifier call)"
      using ident_responses [OF assms(2)] assms(4) by (simp add: ident_of_def)
    then have "map_of (rt_registry c) (rc_identifier call) = None" using c by (simp add: client_ok_def)
    then show ?thesis using True on by (simp add: listens_in_scope_def)
  next
    case False
    with some obtain t where "rt = Some t" "t \<noteq> []" by (cases rt) auto
    then show ?thesis using False on m live by (simp add: listens_in_scope_def) blast
  qed
qed

text \<open>C15: replication starts scoped, all of it or none. On any client createHQSupabaseClient built, whatever was
  started on it before: a scope that is refused starts nothing and registers nothing; an accepted one starts the four
  collections once each in order under distinct identifiers, every pull asks for exactly the scope's rows, and every
  live binding, when the replication is started and after the call, is narrowed to a clause no row of the scope fails,
  except that of the responses, which goes out as it came.\<close>
theorem replication_starts_scoped:
  assumes "createHQSupabaseClient build copts = Inr c0"
    and "client = foldl (\<lambda>c e. fst (fst (startHQReplication parse db c e))) c0 earlier"
  shows "case normalizeScope parse (st_scope opts) of
      Inl e \<Rightarrow> startHQReplication parse db client opts = ((client, []), Some e)
    | Inr s \<Rightarrow> \<exists>c' lg. startHQReplication parse db client opts = ((c', lg), None)
        \<and> map fst (replicated lg) = map fst REPLICATED_COLLECTIONS
        \<and> distinct (map (\<lambda>kr. rc_identifier (snd kr)) (replicated lg))
        \<and> (\<forall>(key, call) \<in> set (replicated lg). asks_for_scope ge s key call
             \<and> (\<forall>c \<in> {rc_client call, c'}. \<forall>cfg. field cfg ''filter'' = JUndef \<longrightarrow> listens_in_scope ge s key call c cfg))"
proof (cases "normalizeScope parse (st_scope opts)")
  case (Inl e)
  have "client_ok client" using starts_keep_client [OF fresh_client [OF assms(1)]] assms(2) by simp
  from start_scoped [OF this, of parse db opts] Inl show ?thesis by simp
next
  case (Inr s)
  have ok: "scope_ok parse s" by (rule normalize_ok [OF Inr])
  have "client_ok client" using starts_keep_client [OF fresh_client [OF assms(1)]] assms(2) by simp
  from start_scoped [OF this, of parse db opts] Inr obtain c' lg
    where run: "startHQReplication parse db client opts = ((c', lg), None)"
      and all: "list_all2 (started parse s c') REPLICATED_COLLECTIONS (replicated lg)" by auto
  have keys: "map fst (replicated lg) = map fst REPLICATED_COLLECTIONS"
    and idents: "map (\<lambda>kr. rc_identifier (snd kr)) (replicated lg) = map (ident_of parse s) REPLICATED_COLLECTIONS"
    using all by (auto simp: list_all2_conv_all_nth started_def intro!: nth_equalityI)
  have "asks_for_scope ge s key call \<and>
      (\<forall>c \<in> {rc_client call, c'}. \<forall>cfg. field cfg ''filter'' = JUndef \<longrightarrow> listens_in_scope ge s key call c cfg)"
    if kc: "(key, call) \<in> set (replicated lg)" for key call
  proof -
    obtain k cc where i: "(k, cc) \<in> set REPLICATED_COLLECTIONS" "started parse s c' (k, cc) (key, call)"
      using all kc by (auto simp: list_all2_conv_all_nth in_set_conv_nth) (metis nth_mem prod.exhaust)
    then have "key = k" by (simp add: started_def)
    then show ?thesis using started_asks [OF ok i] holds_listens [OF ok i(1)] i(2) by (auto simp: started_def)
  qed
  then show ?thesis using Inr run keys idents ident_distinct [OF ok] by auto
qed

section \<open>Witnesses\<close>

theorem no_credentials_leave_witness:
  "\<exists>r. makeSyncFetch (\<lambda>s b. Some \<lparr>u_origin = ''https://hq'', u_pathname = ''/sync/rest/v1/t'', u_params = [(''apikey'', ''k''), (''id'', ''1'')], u_hash = []\<rparr>)
      None (Url_Text ''x'') (Some \<lparr>i_headers = Some [(''Authorization'', ''b''), (''prefer'', ''p'')], i_method = None, i_body = None, i_credentials = Some ''include''\<rparr>) = Some r
    \<and> s_headers r = [(''prefer'', ''p'')] \<and> u_params (s_url r) = [(''id'', ''1'')]
    \<and> u_pathname (s_url r) = ''/sync/rest/t'' \<and> s_credentials r = ''same-origin''"
proof -
  let ?u = "\<lparr>u_origin = ''https://hq'', u_pathname = ''/sync/rest/v1/t'', u_params = [(''apikey'', ''k''), (''id'', ''1'')], u_hash = []\<rparr>"
  let ?i = "Some \<lparr>i_headers = Some [(''Authorization'', ''b''), (''prefer'', ''p'')], i_method = None, i_body = None, i_credentials = Some ''include''\<rparr>"
  have h: "Headers (given_headers (Url_Text ''x'') ?i) = [(''authorization'', ''b''), (''prefer'', ''p'')]" by code_simp
  show ?thesis using no_credentials_leave [of "\<lambda>s b. Some ?u" "Url_Text ''x''" None ?u ?i] by (auto simp: h)
qed

definition demo_client :: rt_client where
  "demo_client = \<lparr>cl_base = ''https://hq/sync'', cl_key = ''hq-same-origin-proxy'', cl_vsn = ''1.0.0'', cl_transport = True,
     rt_registry = [], rt_installed = True, rt_wraps = 1\<rparr>"

definition demo_start :: "start_opts" where
  "demo_start = \<lparr>st_scope = demo_fill, st_waitForLeadership = JUndef, st_live = JUndef, st_pullBatchSize = JUndef,
     st_pushBatchSize = JUndef, st_onConflict = False, st_conflictOpts = None\<rparr>"

lemma demo_client_built:
  "createHQSupabaseClient (Some PINNED_VENDOR) \<lparr>co_origin = Some ''https://hq'', co_location = None, co_fetch = True, co_webSocket = True\<rparr> = Inr demo_client"
  by code_simp

theorem replication_starts_scoped_witness:
  "\<exists>c' lg. startHQReplication (\<lambda>_. Some 0) \<lparr>db_name = ''hq_sync'', db_multiInstance = True, db_ignoreDuplicate = False, db_collections = []\<rparr>
       demo_client demo_start = ((c', lg), None)
     \<and> map fst (replicated lg) = [''templates'', ''checklists'', ''responses'', ''approvals'']"
proof -
  let ?db = "\<lparr>db_name = ''hq_sync'', db_multiInstance = True, db_ignoreDuplicate = False, db_collections = []\<rparr> "
  have n: "normalizeScope (\<lambda>_. Some 0) (st_scope demo_start) = Inr (Fill_Scope ''ann'' ''c1'' ''t1'' [''f1''])"
    using demo_fill_scope by (simp add: demo_start_def)
  have keys: "map fst REPLICATED_COLLECTIONS = [''templates'', ''checklists'', ''responses'', ''approvals'']"
    by (simp add: REPLICATED_COLLECTIONS_def)
  show ?thesis
    using replication_starts_scoped [OF demo_client_built, of demo_client "\<lambda>_. Some 0" ?db "[]" demo_start "\<lambda>_ _. True",
        unfolded n sum.case keys foldl.simps, OF refl] by (elim exE conjE) (intro exI conjI)
qed

end
