(* ===== verification/Bootstrap.thy ===== *)
theory Bootstrap
  imports Complex_Main "HOL-Library.Char_ord" "HOL-Library.List_Lexorder" SyncClient
begin

text \<open>
  \<^verbatim>\<open>sync-rxdb/bootstrap.js\<close>: the identity and the cached grants, the read flag, and the registry of open scopes. Promises
  are numbered in the order they are made; a step is one synchronous stretch of the module, or a promise settling.
\<close>

section \<open>Identity, grants and the flag\<close>

definition js_space :: "char \<Rightarrow> bool" where
  "js_space c = (let n = (of_char c :: nat) in (9 \<le> n \<and> n \<le> 13) \<or> n = 32 \<or> n = 160)"

definition trim :: "string \<Rightarrow> string" where
  "trim s = rev (dropWhile js_space (rev (dropWhile js_space s)))"

text \<open>\<open>None\<close>: no caches, a cache that throws, or no entry.\<close>

definition readIdentityToken :: "string option \<Rightarrow> string option" where
  "readIdentityToken cached = (case cached of None \<Rightarrow> None | Some t \<Rightarrow> if trim t = [] then None else Some (trim t))"

definition slug_of :: "json \<Rightarrow> json" where
  "slug_of a = (if SyncScope.truthy a then (case a of JObj d \<Rightarrow> field d ''slug'' | _ \<Rightarrow> JUndef) else a)"

definition cachedGrantSlugs :: "(string \<Rightarrow> json option) \<Rightarrow> string option \<Rightarrow> string option \<Rightarrow> json list" where
  "cachedGrantSlugs parse_json raw deviceId = (case raw of
     None \<Rightarrow> []
   | Some s \<Rightarrow> if s = [] then [] else (case (parse_json s, deviceId) of
       (Some (JObj env), Some d) \<Rightarrow>
         if d = [] \<or> field env ''uid'' \<noteq> JStr d then []
         else (case field env ''apps'' of JArr apps \<Rightarrow> filter SyncScope.truthy (map slug_of apps) | _ \<Rightarrow> [])
     | _ \<Rightarrow> []))"

definition SYNC_READ_FLAG :: string where "SYNC_READ_FLAG = ''hq_sync_read''"

text \<open>The store: absent, throwing on every use, or holding what it holds under the flag's name. \<open>q\<close> is the URL's parameter,
  \<open>None\<close> too for a URL that cannot be read.\<close>

datatype kv = No_Store | Blocked | Holds "string option"

definition resolveSyncReadFlag :: "string option \<Rightarrow> kv \<Rightarrow> bool \<times> kv" where
  "resolveSyncReadFlag q store =
     (let store1 = (case (q, store) of
        (Some v, Holds x) \<Rightarrow> if v = ''on'' then Holds (Some ''on'') else Holds None
      | _ \<Rightarrow> store)
      in (store1 = Holds (Some ''on''), store1))"

section \<open>The key of a scope\<close>

definition scope_key :: "scope \<Rightarrow> string" where
  "scope_key s = (case s of
     List_Scope u since ts \<Rightarrow> join [CHR 0x00] [''list'', u, since, join ''+'' (sort ts)]
   | Fill_Scope u c t fs \<Rightarrow> join [CHR 0x00] [''fill'', u, c, t, join ''+'' (sort fs)])"

definition scopeKey :: "(string \<Rightarrow> ms option) \<Rightarrow> json \<Rightarrow> scope_error + string" where
  "scopeKey parse v = bind_err (normalizeScope parse v) (\<lambda>s. Inr (scope_key s))"

section \<open>The registry\<close>

datatype db_promise = Db_Pending | Db_Ready | Db_Rejected
datatype handle_state = Waiting nat | Live | Failed | Cancelled

record handle =
  h_key :: string
  h_state :: handle_state

record boot =
  b_readEnabled :: bool
  b_client :: bool
  b_scopes :: "string \<Rightarrow> nat option"
  b_handles :: "handle list"
  b_database :: "nat option"
  b_dbs :: "db_promise list"
  b_db :: bool

definition boot_init :: "bool \<Rightarrow> bool \<Rightarrow> boot" where
  "boot_init enabled client = \<lparr>b_readEnabled = enabled, b_client = client, b_scopes = (\<lambda>_. None), b_handles = [], b_database = None,
     b_dbs = [], b_db = False\<rparr>"

text \<open>The promise to wait for.\<close>

definition ensureDatabase :: "boot \<Rightarrow> boot \<times> nat" where
  "ensureDatabase s = (case b_database s of
     Some i \<Rightarrow> (s, i)
   | None \<Rightarrow> (s\<lparr>b_database := Some (length (b_dbs s)), b_dbs := b_dbs s @ [Db_Pending]\<rparr>, length (b_dbs s)))"

datatype open_error = Flag_Off | No_Client | Bad_Scope scope_error

definition openSyncScope :: "(string \<Rightarrow> ms option) \<Rightarrow> json \<Rightarrow> boot \<Rightarrow> boot \<times> (open_error + nat)" where
  "openSyncScope parse v s =
     (if \<not> b_readEnabled s then (s, Inl Flag_Off)
      else if \<not> b_client s then (s, Inl No_Client)
      else case scopeKey parse v of
        Inl e \<Rightarrow> (s, Inl (Bad_Scope e))
      | Inr key \<Rightarrow> (case b_scopes s key of
          Some h \<Rightarrow> (s, Inr h)
        | None \<Rightarrow> (case ensureDatabase s of (s1, i) \<Rightarrow>
            (s1\<lparr>b_handles := b_handles s1 @ [\<lparr>h_key = key, h_state = Waiting i\<rparr>],
                b_scopes := (b_scopes s1)(key \<mapsto> length (b_handles s1))\<rparr>, Inr (length (b_handles s1))))))"

text \<open>The database's promise settles; a rejection clears the memo if it still names this promise.\<close>

definition db_settles :: "nat \<Rightarrow> bool \<Rightarrow> boot \<Rightarrow> boot" where
  "db_settles i ok s =
     (if i < length (b_dbs s) \<and> b_dbs s ! i = Db_Pending
      then if ok then s\<lparr>b_dbs := (b_dbs s)[i := Db_Ready], b_db := True\<rparr>
           else s\<lparr>b_dbs := (b_dbs s)[i := Db_Rejected], b_database := (if b_database s = Some i then None else b_database s)\<rparr>
      else s)"

text \<open>A handle's function goes on once its database has settled; \<open>started\<close> says whether \<open>startHQReplication\<close> returns. A
  rejection deregisters the handle if it is still the registered one.\<close>

definition handle_resumes :: "nat \<Rightarrow> bool \<Rightarrow> boot \<Rightarrow> boot" where
  "handle_resumes h started s =
     (if h < length (b_handles s) then
        (let x = b_handles s ! h in case h_state x of
           Waiting i \<Rightarrow>
             if b_dbs s ! i = Db_Pending then s
             else if b_dbs s ! i = Db_Ready \<and> started then s\<lparr>b_handles := (b_handles s)[h := x\<lparr>h_state := Live\<rparr>]\<rparr>
             else s\<lparr>b_handles := (b_handles s)[h := x\<lparr>h_state := Failed\<rparr>],
                    b_scopes := (if b_scopes s (h_key x) = Some h then (b_scopes s)(h_key x := None) else b_scopes s)\<rparr>
         | _ \<Rightarrow> s)
      else s)"

text \<open>\<open>cancel\<close> of a handle that was produced: its key leaves the registry, whoever holds it now.\<close>

definition cancel :: "nat \<Rightarrow> boot \<Rightarrow> boot" where
  "cancel h s =
     (if h < length (b_handles s) \<and> h_state (b_handles s ! h) \<in> {Live, Cancelled}
      then s\<lparr>b_scopes := (b_scopes s)(h_key (b_handles s ! h) := None), b_handles := (b_handles s)[h := (b_handles s ! h)\<lparr>h_state := Cancelled\<rparr>]\<rparr>
      else s)"

datatype boot_event = Open json | Db_Settles nat bool | Resumes nat bool | Cancel nat

fun boot_step :: "(string \<Rightarrow> ms option) \<Rightarrow> boot \<Rightarrow> boot_event \<Rightarrow> boot" where
  "boot_step parse s (Open v) = fst (openSyncScope parse v s)"
| "boot_step parse s (Db_Settles i ok) = db_settles i ok s"
| "boot_step parse s (Resumes h started) = handle_resumes h started s"
| "boot_step parse s (Cancel h) = cancel h s"

definition run_boot :: "(string \<Rightarrow> ms option) \<Rightarrow> boot \<Rightarrow> boot_event list \<Rightarrow> boot" where
  "run_boot parse s es = foldl (boot_step parse) s es"

definition openScopeKeys :: "boot \<Rightarrow> string set" where
  "openScopeKeys s = {k. b_scopes s k \<noteq> None}"

section \<open>Loading the module\<close>

record hqsync =
  q_ready :: bool
  q_error :: "client_error option"
  q_client :: "rt_client option"
  q_surfaces :: "string list"
  q_readEnabled :: bool

definition load_module ::
  "vendor option \<Rightarrow> (doc \<Rightarrow> doc \<Rightarrow> bool) \<Rightarrow> client_opts \<Rightarrow> 's on_clash option \<Rightarrow> json list \<Rightarrow> bool \<Rightarrow> hqsync" where
  "load_module build default_isEqual copts onClash grants enabled =
     (case createHQSyncClient build default_isEqual copts onClash (JArr grants) of
        Inl e \<Rightarrow> \<lparr>q_ready = False, q_error = Some e, q_client = None, q_surfaces = [], q_readEnabled = enabled\<rparr>
      | Inr c \<Rightarrow> \<lparr>q_ready = True, q_error = None, q_client = Some (hc_client c), q_surfaces = hc_surfaces c, q_readEnabled = enabled\<rparr>)"

end
