(* ===== verification/BootstrapProps.thy ===== *)
theory BootstrapProps
  imports Complex_Main "HOL-Library.Multiset" Bootstrap SyncClientProps
begin

text \<open>
  What the registry of open scopes guarantees over any schedule of opens, settled promises and cancels: one replication per
  key while no handle is cancelled twice, nothing at all with the flag off, a failure that can be retried; and what the
  key stands for.
\<close>

lemma run_boot_simps [simp]: "run_boot parse s [] = s" "run_boot parse s (e # es) = run_boot parse (boot_step parse s e) es"
    "run_boot parse s (es @ fs) = run_boot parse (run_boot parse s es) fs"
  by (simp_all add: run_boot_def)

lemma boot_invariant: "P s \<Longrightarrow> (\<And>s e. P s \<Longrightarrow> P (boot_step parse s e)) \<Longrightarrow> P (run_boot parse s es)"
  by (induction es arbitrary: s) auto

section \<open>One handle per key\<close>

definition open_handle :: "boot \<Rightarrow> nat \<Rightarrow> bool" where
  "open_handle s h \<longleftrightarrow> h < length (b_handles s) \<and> (case h_state (b_handles s ! h) of Waiting i \<Rightarrow> True | Live \<Rightarrow> True | _ \<Rightarrow> False)"

definition registered :: "boot \<Rightarrow> bool" where
  "registered s \<longleftrightarrow> (\<forall>k h. b_scopes s k = Some h \<longleftrightarrow> open_handle s h \<and> h_key (b_handles s ! h) = k)"

lemma ensure_fields [simp]:
  "b_handles (fst (ensureDatabase s)) = b_handles s" "b_scopes (fst (ensureDatabase s)) = b_scopes s"
  "b_readEnabled (fst (ensureDatabase s)) = b_readEnabled s" "b_client (fst (ensureDatabase s)) = b_client s"
  by (simp_all add: ensureDatabase_def split: option.split)

text \<open>What opening does: nothing, or one more waiting handle under an unregistered key.\<close>

lemma open_cases:
  obtains (same) "fst (openSyncScope parse v s) = s"
  | (new) k where "scopeKey parse v = Inr k" "b_scopes s k = None" "b_readEnabled s" "b_client s"
      "b_handles (fst (openSyncScope parse v s)) = b_handles s @ [\<lparr>h_key = k, h_state = Waiting (snd (ensureDatabase s))\<rparr>]"
      "b_scopes (fst (openSyncScope parse v s)) = (b_scopes s)(k \<mapsto> length (b_handles s))"
      "b_database (fst (openSyncScope parse v s)) = b_database (fst (ensureDatabase s))"
      "b_dbs (fst (openSyncScope parse v s)) = b_dbs (fst (ensureDatabase s))"
      "snd (openSyncScope parse v s) = Inr (length (b_handles s))"
proof (cases "b_readEnabled s \<and> b_client s \<and> (\<exists>k. scopeKey parse v = Inr k \<and> b_scopes s k = None)")
  case True
  then obtain k where "scopeKey parse v = Inr k" "b_scopes s k = None" by blast
  then show ?thesis using True by (intro new [of k]) (simp_all add: openSyncScope_def case_prod_unfold)
next
  case False
  then show ?thesis by (intro same) (auto simp: openSyncScope_def split: sum.split option.split)
qed

lemma open_registered:
  assumes "registered s"
  shows "registered (fst (openSyncScope parse v s))"
proof (cases rule: open_cases [of parse v s])
  case (new k)
  let ?s = "fst (openSyncScope parse v s)"
  have o: "open_handle ?s h \<longleftrightarrow> open_handle s h \<or> h = length (b_handles s)" for h
    by (auto simp: open_handle_def new(5) nth_append less_Suc_eq)
  have k: "h_key (b_handles ?s ! h) = (if h = length (b_handles s) then k else h_key (b_handles s ! h))" if "open_handle ?s h" for h
    using that by (auto simp: open_handle_def new(5) nth_append)
  have old: "open_handle s h \<Longrightarrow> h \<noteq> length (b_handles s)" for h by (auto simp: open_handle_def)
  have no: "h_key (b_handles s ! h) \<noteq> k" if "open_handle s h" for h
  proof
    assume "h_key (b_handles s ! h) = k"
    with that have "b_scopes s k = Some h" using assms unfolding registered_def by blast
    then show False using new(2) by simp
  qed
  have "((b_scopes s)(k \<mapsto> length (b_handles s))) k' = Some h \<longleftrightarrow> open_handle ?s h \<and> h_key (b_handles ?s ! h) = k'" for k' h
  proof (cases "h = length (b_handles s)")
    case True
    then have "b_scopes s k' \<noteq> Some h" using assms old unfolding registered_def by blast
    then show ?thesis using True o k [of h] by auto
  next
    case False
    then show ?thesis using assms o k [of h] no [of h] unfolding registered_def by auto
  qed
  then show ?thesis unfolding registered_def new(6) by blast
qed (use assms in simp)

lemma open_update:
  "h < length (b_handles s) \<Longrightarrow> open_handle (s\<lparr>b_handles := (b_handles s)[h := x], b_scopes := m\<rparr>) g \<longleftrightarrow>
    (if g = h then (case h_state x of Waiting i \<Rightarrow> True | Live \<Rightarrow> True | _ \<Rightarrow> False) else open_handle s g)"
  by (auto simp: open_handle_def nth_list_update)

lemma close_registered:
  assumes "registered s" and "open_handle s h" and "h_key x = h_key (b_handles s ! h)" and "h_state x \<in> {Failed, Cancelled}"
  shows "registered (s\<lparr>b_handles := (b_handles s)[h := x], b_scopes := (b_scopes s)(h_key x := None)\<rparr>)"
proof -
  have h: "h < length (b_handles s)" using assms(2) by (simp add: open_handle_def)
  have "b_scopes s (h_key x) = Some h" using assms(1-3) by (simp add: registered_def)
  then have "h_key (b_handles s ! g) \<noteq> h_key x" if "open_handle s g" "g \<noteq> h" for g
    using assms(1) that unfolding registered_def by (metis option.inject)
  moreover have "\<not> (case h_state x of Waiting i \<Rightarrow> True | Live \<Rightarrow> True | _ \<Rightarrow> False)" using assms(4) by auto
  ultimately show ?thesis using assms(1,2,3) h
    unfolding registered_def open_update [OF h] by (auto simp: nth_list_update)
qed

lemma resume_registered:
  assumes "registered s"
  shows "registered (handle_resumes h ok s)"
proof (cases "h < length (b_handles s) \<and> (\<exists>i. h_state (b_handles s ! h) = Waiting i \<and> b_dbs s ! i \<noteq> Db_Pending)")
  case True
  then obtain i where i: "h < length (b_handles s)" "h_state (b_handles s ! h) = Waiting i" "b_dbs s ! i \<noteq> Db_Pending" by blast
  then have o: "open_handle s h" by (simp add: open_handle_def)
  show ?thesis
  proof (cases "b_dbs s ! i = Db_Ready \<and> ok")
    case True
    have "open_handle (s\<lparr>b_handles := (b_handles s)[h := (b_handles s ! h)\<lparr>h_state := Live\<rparr>]\<rparr>) g = open_handle s g" for g
      using o i(1) by (auto simp: open_handle_def nth_list_update)
    then show ?thesis using True i assms by (auto simp: handle_resumes_def registered_def Let_def nth_list_update)
  next
    case False
    have "b_scopes s (h_key (b_handles s ! h)) = Some h" using assms o by (simp add: registered_def)
    then show ?thesis using close_registered [OF assms o, of "(b_handles s ! h)\<lparr>h_state := Failed\<rparr>"] False i
      by (auto simp: handle_resumes_def Let_def)
  qed
next
  case False
  then have "handle_resumes h ok s = s" by (auto simp: handle_resumes_def Let_def split: handle_state.split)
  then show ?thesis using assms by simp
qed

definition cancelled :: "boot \<Rightarrow> nat \<Rightarrow> bool" where
  "cancelled s h \<longleftrightarrow> h < length (b_handles s) \<and> h_state (b_handles s ! h) = Cancelled"

lemma cancel_registered:
  assumes "registered s" and "\<not> cancelled s h"
  shows "registered (cancel h s)"
proof (cases "h < length (b_handles s) \<and> h_state (b_handles s ! h) = Live")
  case True
  then have "open_handle s h" by (simp add: open_handle_def)
  from close_registered [OF assms(1) this, of "(b_handles s ! h)\<lparr>h_state := Cancelled\<rparr>"] True show ?thesis
    by (simp add: cancel_def registered_def open_handle_def)
next
  case False
  then have "cancel h s = s" using assms(2) by (auto simp: cancel_def cancelled_def)
  then show ?thesis using assms(1) by simp
qed

lemma settles_handles [simp]: "b_handles (db_settles i ok s) = b_handles s" "b_scopes (db_settles i ok s) = b_scopes s"
  by (simp_all add: db_settles_def)

lemma settles_registered: "registered s \<Longrightarrow> registered (db_settles i ok s)"
  by (simp add: registered_def open_handle_def)

lemma cancelled_step: "cancelled (boot_step parse s e) h \<Longrightarrow> cancelled s h \<or> e = Cancel h"
proof (cases e)
  case (Open v)
  assume c: "cancelled (boot_step parse s e) h"
  show ?thesis
    by (cases rule: open_cases [of parse v s]) (use c Open in \<open>auto simp: cancelled_def nth_append split: if_splits\<close>)
qed (auto simp: cancelled_def handle_resumes_def cancel_def Let_def nth_list_update split: if_splits handle_state.splits)

lemma cancelled_run: "cancelled (run_boot parse (boot_init en cl) es) h \<Longrightarrow> Cancel h \<in> set es"
proof (induction es rule: rev_induct)
  case Nil
  then show ?case by (simp add: cancelled_def boot_init_def)
next
  case (snoc e es)
  then show ?case using cancelled_step [of parse "run_boot parse (boot_init en cl) es" e h] by auto
qed

definition cancels :: "boot_event list \<Rightarrow> nat list" where
  "cancels es = concat (map (\<lambda>e. case e of Cancel h \<Rightarrow> [h] | _ \<Rightarrow> []) es)"

lemma in_cancels: "h \<in> set (cancels es) \<longleftrightarrow> Cancel h \<in> set es"
  by (auto simp: cancels_def split: boot_event.splits)

lemma run_registered:
  "distinct (cancels es) \<Longrightarrow> registered (run_boot parse (boot_init en cl) es)"
proof (induction es rule: rev_induct)
  case Nil
  then show ?case by (simp add: registered_def open_handle_def boot_init_def)
next
  case (snoc e es)
  then have reg: "registered (run_boot parse (boot_init en cl) es)" by (simp add: cancels_def)
  show ?case
  proof (cases e)
    case (Cancel h)
    then have "\<not> cancelled (run_boot parse (boot_init en cl) es) h"
      using snoc.prems cancelled_run in_cancels by (fastforce simp: cancels_def)
    then show ?thesis using cancel_registered [OF reg] Cancel by simp
  qed (use reg open_registered resume_registered settles_registered in simp_all)
qed

text \<open>one open replication per key. Over any schedule of opens, databases that open or fail, replications that start or
  throw and cancels, in which no handle is cancelled twice, the registry holds exactly the handles that are waiting or
  live under their keys, so two of them with one key are the same handle and every key reported open is.\<close>
theorem one_handle_per_key:
  assumes "distinct (cancels es)" and "s = run_boot parse (boot_init enabled client) es"
  shows "(open_handle s h \<and> open_handle s g \<and> h_key (b_handles s ! h) = h_key (b_handles s ! g) \<longrightarrow> h = g)
    \<and> openScopeKeys s = {h_key (b_handles s ! h) | h. open_handle s h}"
proof -
  have r: "b_scopes s k = Some x \<longleftrightarrow> open_handle s x \<and> h_key (b_handles s ! x) = k" for k x
    using run_registered [OF assms(1), of parse enabled client] assms(2) by (simp add: registered_def)
  have "openScopeKeys s = {h_key (b_handles s ! h) | h. open_handle s h}"
    unfolding openScopeKeys_def using r by (auto simp: not_None_eq)
  moreover have "open_handle s h \<and> open_handle s g \<and> h_key (b_handles s ! h) = h_key (b_handles s ! g) \<longrightarrow> h = g"
    using r by (metis option.inject)
  ultimately show ?thesis by blast
qed

text \<open>cancelling a closed scope's handle again opens a rival. From a page with the flag on and a client, for any accepted
  scope: open it, cancel it, open it again, cancel the old handle a second time and open once more. The second cancel
  takes the new handle's key from the registry, and two live handles replicate the scope under one identifier.\<close>
theorem second_cancel_opens_rival:
  assumes "scopeKey parse v = Inr k"
  shows "\<exists>s. s = run_boot parse (boot_init True True)
      [Open v, Db_Settles 0 True, Resumes 0 True, Cancel 0, Open v, Resumes 1 True, Cancel 0, Open v, Resumes 2 True]
    \<and> h_state (b_handles s ! 1) = Live \<and> h_state (b_handles s ! 2) = Live \<and> h_key (b_handles s ! 1) = k \<and> h_key (b_handles s ! 2) = k"
  using assms by (simp add: boot_init_def openSyncScope_def ensureDatabase_def db_settles_def handle_resumes_def cancel_def Let_def)

section \<open>The flag\<close>

text \<open>with the flag off nothing is touched. While the read flag resolved to off, which it does unless the store holds on
  under its name after the URL was applied, no run of calls, whatever scopes are asked for, creates a database or a
  handle: every open is refused before either.\<close>
theorem flag_off_touches_nothing:
  assumes "resolveSyncReadFlag q store = (enabled, store')" and "store' \<noteq> Holds (Some ''on'')"
  shows "b_dbs (run_boot parse (boot_init enabled client) es) = [] \<and> b_handles (run_boot parse (boot_init enabled client) es) = []
    \<and> \<not> b_db (run_boot parse (boot_init enabled client) es) \<and> snd (openSyncScope parse v (run_boot parse (boot_init enabled client) es)) = Inl Flag_Off"
proof -
  let ?P = "\<lambda>s. \<not> b_readEnabled s \<and> b_dbs s = [] \<and> b_handles s = [] \<and> \<not> b_db s"
  have "\<not> enabled" using assms by (auto simp: resolveSyncReadFlag_def Let_def)
  then have "?P (boot_init enabled client)" by (simp add: boot_init_def)
  then have "?P (run_boot parse (boot_init enabled client) es)"
  proof (rule boot_invariant [where P = ?P])
    show "?P s \<Longrightarrow> ?P (boot_step parse s e)" for s e
      by (cases e) (simp_all add: openSyncScope_def db_settles_def handle_resumes_def cancel_def)
  qed
  then show ?thesis by (simp add: openSyncScope_def)
qed

section \<open>Failures\<close>

definition memo_ok :: "boot \<Rightarrow> bool" where
  "memo_ok s \<longleftrightarrow> (\<forall>i. b_database s = Some i \<longrightarrow> i < length (b_dbs s) \<and> b_dbs s ! i \<noteq> Db_Rejected)"

definition names_ok :: "boot \<Rightarrow> bool" where
  "names_ok s \<longleftrightarrow> (\<forall>k h. b_scopes s k = Some h \<longrightarrow> h < length (b_handles s) \<and> h_state (b_handles s ! h) \<noteq> Failed \<and> h_key (b_handles s ! h) = k)"

lemma step_memo:
  assumes "memo_ok s"
  shows "memo_ok (boot_step parse s e)"
proof (cases e)
  case (Open v)
  have "memo_ok (fst (ensureDatabase s))" using assms by (auto simp: memo_ok_def ensureDatabase_def split: option.split)
  then show ?thesis using assms Open by (cases rule: open_cases [of parse v s]) (simp_all add: memo_ok_def)
next
  case (Db_Settles i ok)
  then show ?thesis using assms by (auto simp: memo_ok_def db_settles_def nth_list_update)
next
  case (Resumes h ok)
  then show ?thesis using assms by (simp add: memo_ok_def handle_resumes_def Let_def split: handle_state.split)
next
  case (Cancel h)
  then show ?thesis using assms by (simp add: memo_ok_def cancel_def)
qed

lemma names_update:
  assumes "names_ok s" and "h < length (b_handles s)" and "h_key x = h_key (b_handles s ! h)"
    and "\<And>k. m k = Some h \<Longrightarrow> h_state x \<noteq> Failed" and "\<And>k g. m k = Some g \<Longrightarrow> b_scopes s k = Some g"
    and "b_handles t = (b_handles s)[h := x]" and "b_scopes t = m"
  shows "names_ok t"
  unfolding names_ok_def
proof (intro allI impI)
  fix k g
  assume g: "b_scopes t k = Some g"
  then have "b_scopes s k = Some g" using assms(5,7) by simp
  then have "g < length (b_handles s)" "h_state (b_handles s ! g) \<noteq> Failed" "h_key (b_handles s ! g) = k"
    using assms(1) by (simp_all add: names_ok_def)
  then show "g < length (b_handles t) \<and> h_state (b_handles t ! g) \<noteq> Failed \<and> h_key (b_handles t ! g) = k"
    using assms(2,3,6,7) assms(4) [of k] g by (cases "g = h") simp_all
qed

lemma step_names:
  assumes "names_ok s"
  shows "names_ok (boot_step parse s e)"
proof (cases e)
  case (Open v)
  show ?thesis
  proof (cases rule: open_cases [of parse v s])
    case (new k)
    have "h < Suc (length (b_handles s))" "h < length (b_handles s)" if "b_scopes s ka = Some h" for ka h
      using assms that by (simp_all add: names_ok_def less_SucI)
    then show ?thesis using assms Open by (auto simp: names_ok_def new(5,6) nth_append)
  qed (use assms Open in simp)
next
  case (Db_Settles i ok)
  then show ?thesis using assms by (simp add: names_ok_def)
next
  case (Resumes h ok)
  show ?thesis
  proof (cases "handle_resumes h ok s = s")
    case False
    then obtain i where h: "h < length (b_handles s)" "h_state (b_handles s ! h) = Waiting i" "b_dbs s ! i \<noteq> Db_Pending"
      by (auto simp: handle_resumes_def Let_def split: if_splits handle_state.splits)
    let ?x = "b_handles s ! h"
    show ?thesis
    proof (cases "b_dbs s ! i = Db_Ready \<and> ok")
      case True
      then show ?thesis using h Resumes
        by (intro names_update [OF assms h(1), of "?x\<lparr>h_state := Live\<rparr>" "b_scopes s"]) (simp_all add: handle_resumes_def Let_def)
    next
      case False
      define m where "m = (if b_scopes s (h_key ?x) = Some h then (b_scopes s)(h_key ?x := None) else b_scopes s)"
      have none: "m k \<noteq> Some h" for k
      proof
        assume k: "m k = Some h"
        then have "b_scopes s k = Some h" by (simp add: m_def split: if_splits)
        then have "h_key ?x = k" using assms by (simp add: names_ok_def)
        then show False using k \<open>b_scopes s k = Some h\<close> by (simp add: m_def)
      qed
      have sub: "m k = Some g \<Longrightarrow> b_scopes s k = Some g" for k g by (simp add: m_def split: if_splits)
      have f: "b_handles (handle_resumes h ok s) = (b_handles s)[h := ?x\<lparr>h_state := Failed\<rparr>]" "b_scopes (handle_resumes h ok s) = m"
        using if_not_P [OF False] h False by (auto simp: handle_resumes_def Let_def m_def)
      have "names_ok (handle_resumes h ok s)"
        by (rule names_update [OF assms h(1) _ _ sub f]) (use none in simp_all)
      then show ?thesis using Resumes by simp
    qed
  qed (use assms Resumes in simp)
next
  case (Cancel h)
  show ?thesis
  proof (cases "cancel h s = s")
    case False
    then have h: "h < length (b_handles s)" by (auto simp: cancel_def split: if_splits)
    have "b_handles (cancel h s) = (b_handles s)[h := (b_handles s ! h)\<lparr>h_state := Cancelled\<rparr>]"
      "b_scopes (cancel h s) = (b_scopes s)(h_key (b_handles s ! h) := None)" using False by (auto simp: cancel_def split: if_splits)
    then show ?thesis using Cancel
      by (intro names_update [OF assms h, of "(b_handles s ! h)\<lparr>h_state := Cancelled\<rparr>" "(b_scopes s)(h_key (b_handles s ! h) := None)"])
        (auto split: if_splits)
  qed (use assms Cancel in simp)
qed

lemma run_memo: "memo_ok (run_boot parse (boot_init en cl) es)"
  by (rule boot_invariant [where P = memo_ok]) (simp_all add: step_memo, simp add: memo_ok_def boot_init_def)

lemma run_names: "names_ok (run_boot parse (boot_init en cl) es)"
  by (rule boot_invariant [where P = names_ok]) (simp_all add: step_names, simp add: names_ok_def boot_init_def)

lemma step_flags:
  "b_readEnabled (fst (openSyncScope parse v s)) = b_readEnabled s" "b_client (fst (openSyncScope parse v s)) = b_client s"
  "b_readEnabled (db_settles i ok s) = b_readEnabled s" "b_client (db_settles i ok s) = b_client s"
  "b_readEnabled (handle_resumes h ok s) = b_readEnabled s" "b_client (handle_resumes h ok s) = b_client s"
  "b_readEnabled (cancel h s) = b_readEnabled s" "b_client (cancel h s) = b_client s"
  by (simp_all add: openSyncScope_def case_prod_unfold db_settles_def handle_resumes_def cancel_def Let_def split: sum.split option.split handle_state.split)

text \<open>a failed open can be retried. In any run, however many databases failed to open and replications to start, no
  failed handle is registered and no rejected database is remembered: a scope that is not open, opened again, is live
  and registered once its database opens and its replications start.\<close>
theorem failed_open_retries:
  assumes "s = run_boot parse (boot_init True True) es" and "scopeKey parse v = Inr k" and "b_scopes s k = None"
    and "i = snd (ensureDatabase s)" and "s' = run_boot parse s [Open v, Db_Settles i True, Resumes (length (b_handles s)) True]"
  shows "(\<forall>key h. b_scopes s key = Some h \<longrightarrow> h_state (b_handles s ! h) \<noteq> Failed)
    \<and> h_state (b_handles s' ! length (b_handles s)) = Live \<and> b_scopes s' k = Some (length (b_handles s)) \<and> b_database s' = Some i"
proof -
  have names: "\<forall>key h. b_scopes s key = Some h \<longrightarrow> h_state (b_handles s ! h) \<noteq> Failed"
    using run_names [of parse True True es] assms(1) by (simp add: names_ok_def)
  have m: "memo_ok s" using run_memo assms(1) by simp
  have on: "b_readEnabled s \<and> b_client s"
  proof -
    have "b_readEnabled (boot_step parse t e) = b_readEnabled t \<and> b_client (boot_step parse t e) = b_client t" for t e
      by (cases e) (simp_all add: step_flags)
    then show ?thesis unfolding assms(1) by (intro boot_invariant [where P = "\<lambda>s. b_readEnabled s \<and> b_client s"]) (simp_all add: boot_init_def)
  qed
  let ?s1 = "fst (ensureDatabase s)"
  have db: "b_database ?s1 = Some i" "i < length (b_dbs ?s1)" "b_dbs ?s1 ! i \<noteq> Db_Rejected"
    using m assms(4) by (auto simp: ensureDatabase_def memo_ok_def split: option.splits)
  have o: "boot_step parse s (Open v) = ?s1\<lparr>b_handles := b_handles s @ [\<lparr>h_key = k, h_state = Waiting i\<rparr>], b_scopes := (b_scopes s)(k \<mapsto> length (b_handles s))\<rparr>"
    using assms(2,3,4) on by (simp add: openSyncScope_def case_prod_unfold)
  have "h_state (b_handles s' ! length (b_handles s)) = Live \<and> b_scopes s' k = Some (length (b_handles s)) \<and> b_database s' = Some i"
    unfolding assms(5) run_boot_simps o using db by (cases "b_dbs ?s1 ! i") (simp_all add: db_settles_def handle_resumes_def Let_def)
  then show ?thesis using names by blast
qed

section \<open>What a key stands for\<close>

lemma join_inj:
  "\<forall>x \<in> set xs \<union> set ys. c \<notin> set x \<Longrightarrow> xs \<noteq> [] \<Longrightarrow> ys \<noteq> [] \<Longrightarrow> join [c] xs = join [c] ys \<Longrightarrow> xs = ys"
proof (induction "[c]" xs arbitrary: ys rule: join.induct)
  case (2 x)
  have "\<not> (\<exists>r. x = y @ c # r)" for y using 2 by auto
  then show ?case using 2 by (cases "([c], ys)" rule: join.cases) auto
next
  case (3 x x2 xs)
  obtain y ys' where ys: "ys = y # ys'" using "3.prems"(3) by (cases ys) auto
  show ?case
  proof (cases ys')
    case Nil
    then have "y = x @ c # join [c] (x2 # xs)" using "3.prems"(4) ys by simp
    then show ?thesis using "3.prems"(1) ys by auto
  next
    case (Cons y2 ys2)
    have "x @ c # join [c] (x2 # xs) = y @ c # join [c] (y2 # ys2)" using "3.prems"(4) ys Cons by simp
    then have "x = y \<and> join [c] (x2 # xs) = join [c] (y2 # ys2)" using "3.prems"(1) ys by (intro split_at) auto
    then show ?thesis using "3.hyps" [of "y2 # ys2"] "3.prems"(1) ys Cons by auto
  qed
qed simp

lemma join_empty: "\<forall>x \<in> set xs. x \<noteq> [] \<Longrightarrow> join sep xs = [] \<longleftrightarrow> xs = []"
  by (cases "(sep, xs)" rule: join.cases) auto

lemma id_no_plus: "SCOPE_ID_RE s \<Longrightarrow> CHR ''+'' \<notin> set s \<and> s \<noteq> []"
proof -
  have "\<not> word_char (CHR ''+'')" by (simp add: word_char_def is_digit_def Let_def)
  then show "SCOPE_ID_RE s \<Longrightarrow> ?thesis" by (auto simp: SCOPE_ID_RE_def list_all_iff)
qed

lemma ids_joined:
  assumes "list_all SCOPE_ID_RE xs" and "list_all SCOPE_ID_RE ys" and "join ''+'' (sort xs) = join ''+'' (sort ys)"
  shows "mset xs = mset ys"
proof -
  have ids: "\<forall>x \<in> set (sort xs) \<union> set (sort ys). CHR ''+'' \<notin> set x \<and> x \<noteq> []"
    using assms(1,2) id_no_plus by (auto simp: list_all_iff)
  have "sort xs = sort ys"
  proof (cases "sort xs = [] \<or> sort ys = []")
    case True
    then show ?thesis using assms(3) ids join_empty [of "sort xs" "''+''"] join_empty [of "sort ys" "''+''"] by fastforce
  next
    case False
    then show ?thesis using join_inj [of "sort xs" "sort ys" "CHR ''+''"] ids assms(3) by blast
  qed
  then have "mset (sort xs) = mset (sort ys)" by (rule arg_cong)
  then show ?thesis by simp
qed

text \<open>Each part of a date consumes no NUL.\<close>

lemma set_take_drop: "set s = set (take n s) \<union> set (drop n s)"
  by (metis append_take_drop_id set_append)

lemma not_digit_nul: "\<not> is_digit (CHR 0x00)"
  by (simp add: is_digit_def Let_def)

lemma digits_no_nul: "digits n s = Some r \<Longrightarrow> CHR 0x00 \<notin> set r \<Longrightarrow> CHR 0x00 \<notin> set s"
  using not_digit_nul set_take_drop [of s n] by (auto simp: digits_def list_all_iff split: if_splits)

lemma lit_no_nul: "lit c s = Some r \<Longrightarrow> c \<noteq> CHR 0x00 \<Longrightarrow> CHR 0x00 \<notin> set r \<Longrightarrow> CHR 0x00 \<notin> set s"
  by (auto simp: lit_def split: if_splits list.splits)

lemma fraction_no_nul:
  assumes "fraction_part s = Some r" and "CHR 0x00 \<notin> set r"
  shows "CHR 0x00 \<notin> set s"
proof (cases "lit (CHR ''.'') s")
  case None
  then show ?thesis using assms by (simp add: fraction_part_def)
next
  case (Some q)
  have "CHR 0x00 \<notin> set (takeWhile is_digit q)" using not_digit_nul by (auto dest: set_takeWhileD)
  moreover have "r = drop (length (takeWhile is_digit q)) q" using assms(1) Some by (auto simp: fraction_part_def Let_def split: if_splits)
  ultimately have "CHR 0x00 \<notin> set q"
    using set_take_drop [of q "length (takeWhile is_digit q)"] assms(2) takeWhile_eq_take [of is_digit q] by auto
  then show ?thesis by (intro lit_no_nul [OF Some]) simp_all
qed

lemma zone_no_nul: "zone_part s = Some r \<Longrightarrow> CHR 0x00 \<notin> set r \<Longrightarrow> CHR 0x00 \<notin> set s"
  by (auto simp: zone_part_def bind_eq_Some_conv split: list.splits if_splits dest!: digits_no_nul lit_no_nul)

lemma date_part_no_nul: "date_part s = Some r \<Longrightarrow> CHR 0x00 \<notin> set r \<Longrightarrow> CHR 0x00 \<notin> set s"
  by (auto simp: date_part_def bind_eq_Some_conv dest!: digits_no_nul lit_no_nul)

lemma clock_part_no_nul: "clock_part s = Some r \<Longrightarrow> CHR 0x00 \<notin> set r \<Longrightarrow> CHR 0x00 \<notin> set s"
  by (auto simp: clock_part_def bind_eq_Some_conv dest!: digits_no_nul lit_no_nul)

lemma date_no_nul: "SCOPE_DATE_RE s \<Longrightarrow> CHR 0x00 \<notin> set s"
proof -
  assume "SCOPE_DATE_RE s"
  then obtain r where r: "date_part s = Some r" "r = [] \<or> Option.bind (clock_part r) (\<lambda>r. Option.bind (fraction_part r) zone_part) = Some []"
    by (auto simp: SCOPE_DATE_RE_def split: option.splits)
  have "CHR 0x00 \<notin> set r"
  proof (cases "r = []")
    case False
    then obtain a b where "clock_part r = Some a" "fraction_part a = Some b" "zone_part b = Some []"
      using r(2) by (auto simp: bind_eq_Some_conv)
    then show ?thesis using zone_no_nul [of b "[]"] fraction_no_nul [of a b] clock_part_no_nul [of r a] by simp
  qed simp
  then show ?thesis by (rule date_part_no_nul [OF r(1)])
qed

definition same_scope :: "scope \<Rightarrow> scope \<Rightarrow> bool" where
  "same_scope a b \<longleftrightarrow> (case (a, b) of
     (List_Scope u since ts, List_Scope w s' ts') \<Rightarrow> u = w \<and> since = s' \<and> mset ts = mset ts'
   | (Fill_Scope u c t fs, Fill_Scope w d t' fs') \<Rightarrow> u = w \<and> c = d \<and> t = t' \<and> mset fs = mset fs'
   | _ \<Rightarrow> False)"

lemma joined_ids_no_nul: "list_all SCOPE_ID_RE xs \<Longrightarrow> CHR 0x00 \<notin> set (join ''+'' (sort xs))"
proof -
  have "\<forall>x \<in> set ys. CHR 0x00 \<notin> set x \<Longrightarrow> CHR 0x00 \<notin> set (join ''+'' ys)" for ys
    by (induction "''+''" ys rule: join.induct) auto
  then show "list_all SCOPE_ID_RE xs \<Longrightarrow> ?thesis" by (auto simp: list_all_iff id_chars(3))
qed

lemma sort_mset: "mset (xs :: string list) = mset ys \<Longrightarrow> sort xs = sort ys"
  by (metis mset_eq_length sorted_list_of_multiset_mset)

lemma joined_iff:
  assumes "list_all SCOPE_ID_RE xs" and "list_all SCOPE_ID_RE ys"
  shows "join ''+'' (sort xs) = join ''+'' (sort ys) \<longleftrightarrow> mset xs = mset ys"
  using ids_joined [OF assms] sort_mset [of xs ys] by (metis (no_types))

lemma join_key:
  "\<forall>z \<in> set (x # xs) \<union> set (y # ys). c \<notin> set z \<Longrightarrow> join [c] (x # xs) = join [c] (y # ys) \<longleftrightarrow> x # xs = y # ys"
  using join_inj [of "x # xs" "y # ys" c] by blast

lemma keys:
  "scope_key (List_Scope u since ts) = join [CHR 0x00] [''list'', u, since, join ''+'' (sort ts)]"
  "scope_key (Fill_Scope u c t fs) = join [CHR 0x00] [''fill'', u, c, t, join ''+'' (sort fs)]"
  by (simp_all only: scope_key_def scope.case)

text \<open>the registry's key names the whole scope and nothing but the scope. Two accepted scopes have one key exactly if
  they are the same shape for the same person with the same ids and date, the template and field ids in any order.\<close>
theorem scope_key_exact:
  assumes "normalizeScope parse v = Inr a" and "normalizeScope parse w = Inr b"
  shows "(scopeKey parse v = scopeKey parse w) = same_scope a b"
proof -
  have ok: "scope_ok parse a" "scope_ok parse b" using assms normalize_ok by auto
  let ?nul = "CHR 0x00 :: char"
  have "scope_key a = scope_key b \<longleftrightarrow> same_scope a b"
  proof (cases a; cases b)
    fix u since ts w s' ts' assume ab: "a = List_Scope u since ts" "b = List_Scope w s' ts'"
    have i: "list_all SCOPE_ID_RE ts" "list_all SCOPE_ID_RE ts'" using ok ab by (simp_all add: scope_ok_def)
    have n: "\<forall>z \<in> set [''list'', u, since, join ''+'' (sort ts)] \<union> set [''list'', w, s', join ''+'' (sort ts')]. ?nul \<notin> set z"
      using ok ab by (simp add: scope_ok_def id_chars(3) date_no_nul joined_ids_no_nul)
    show ?thesis unfolding ab keys same_scope_def prod.case scope.case join_key [OF n] by (simp add: joined_iff [OF i] del: join.simps)
  next
    fix u c t fs w d t' fs' assume ab: "a = Fill_Scope u c t fs" "b = Fill_Scope w d t' fs'"
    have i: "list_all SCOPE_ID_RE fs" "list_all SCOPE_ID_RE fs'" using ok ab by (simp_all add: scope_ok_def)
    have n: "\<forall>z \<in> set [''fill'', u, c, t, join ''+'' (sort fs)] \<union> set [''fill'', w, d, t', join ''+'' (sort fs')]. ?nul \<notin> set z"
      using ok ab by (simp add: scope_ok_def id_chars(3) joined_ids_no_nul)
    show ?thesis unfolding ab keys same_scope_def prod.case scope.case join_key [OF n] by (simp add: joined_iff [OF i] del: join.simps)
  next
    fix u since ts w d t' fs' assume ab: "a = List_Scope u since ts" "b = Fill_Scope w d t' fs'"
    show ?thesis unfolding ab by (simp add: scope_key_def same_scope_def)
  next
    fix u c t fs w s' ts' assume ab: "a = Fill_Scope u c t fs" "b = List_Scope w s' ts'"
    show ?thesis unfolding ab by (simp add: scope_key_def same_scope_def)
  qed
  then show ?thesis using assms by (simp add: scopeKey_def)
qed

text \<open>two keys can share an identifier. Two fills of one checklist by one person under one template whose field ids differ
  have different keys, so both open and both are live at once; their checklists, templates and approvals replications
  run under the same identifiers, on one topic and one checkpoint.\<close>
theorem two_keys_share_identifiers:
  assumes "scope_ok parse (Fill_Scope u c t fs)" and "scope_ok parse (Fill_Scope u c t gs)" and "mset fs \<noteq> mset gs"
    and "key \<in> {''templates'', ''checklists'', ''approvals''}" and "(key, col) \<in> set REPLICATED_COLLECTIONS"
  shows "scopeKey parse (scope_value (Fill_Scope u c t fs)) \<noteq> scopeKey parse (scope_value (Fill_Scope u c t gs))
    \<and> (\<exists>p q. scopePlanFor parse key (scope_value (Fill_Scope u c t fs)) = Inr p \<and> scopePlanFor parse key (scope_value (Fill_Scope u c t gs)) = Inr q
        \<and> replicationIdentifier col p = replicationIdentifier col q)"
proof -
  note n = normalize_value [OF assms(1)] normalize_value [OF assms(2)]
  have keys: "scopeKey parse (scope_value (Fill_Scope u c t fs)) \<noteq> scopeKey parse (scope_value (Fill_Scope u c t gs))"
  proof -
    have "\<not> same_scope (Fill_Scope u c t fs) (Fill_Scope u c t gs)" using assms(3) by (simp add: same_scope_def)
    moreover have "scope_key (Fill_Scope u c t fs) = scope_key (Fill_Scope u c t gs) \<Longrightarrow> mset fs = mset gs"
    proof -
      assume e: "scope_key (Fill_Scope u c t fs) = scope_key (Fill_Scope u c t gs)"
      then have "join ''+'' (sort fs) = join ''+'' (sort gs)" by (simp add: scope_key_def)
      then show ?thesis using assms(1,2) by (intro ids_joined) (simp_all add: scope_ok_def)
    qed
    ultimately show ?thesis using assms(3) n by (auto simp: scopeKey_def)
  qed
  have same: "filter_for key (Fill_Scope u c t fs) = filter_for key (Fill_Scope u c t gs)" using assms(4) by (auto simp: filter_for_def)
  have ident: "scopeIdentity (Fill_Scope u c t fs) = scopeIdentity (Fill_Scope u c t gs)" by (simp add: scopeIdentity_def)
  obtain f where f: "filter_for key (Fill_Scope u c t fs) = Some f" using filter_for_replicated [OF assms(5)] by blast
  obtain r1 where r1: "realtimeFilterFor parse key (scope_value (Fill_Scope u c t fs)) = Inr r1" using n by (simp add: realtimeFilterFor_def)
  obtain r2 where r2: "realtimeFilterFor parse key (scope_value (Fill_Scope u c t gs)) = Inr r2" using n by (simp add: realtimeFilterFor_def)
  show ?thesis
    using keys plan_of [OF n(1), of key] plan_of [OF n(2), of key] f same r1 r2 ident
    by (simp add: replicationIdentifier_def fingerprint_input_def)
qed

section \<open>The properties at concrete inputs\<close>

lemma demo_keys:
  "scopeKey (\<lambda>_. Some 0) demo_fill = Inr (scope_key (Fill_Scope ''ann'' ''c1'' ''t1'' [''f1'']))"
  "scopeKey (\<lambda>_. Some 0) demo_list = Inr (scope_key (List_Scope ''ann'' ''2026-08-01'' [''t1'', ''t2'']))"
  by (simp_all add: scopeKey_def demo_fill_scope demo_list_scope)

theorem one_handle_per_key_witness:
  "distinct (cancels [Open demo_fill, Db_Settles 0 True, Resumes 0 True, Open demo_list, Cancel 0])
    \<and> openScopeKeys (run_boot (\<lambda>_. Some 0) (boot_init True True) [Open demo_fill, Db_Settles 0 True, Resumes 0 True, Open demo_list, Cancel 0])
      = {scope_key (List_Scope ''ann'' ''2026-08-01'' [''t1'', ''t2''])}"
proof -
  let ?es = "[Open demo_fill, Db_Settles 0 True, Resumes 0 True, Open demo_list, Cancel 0]"
  let ?s = "run_boot (\<lambda>_. Some 0) (boot_init True True) ?es"
  have d: "distinct (cancels ?es)" by (simp add: cancels_def)
  have differ: "scope_key (Fill_Scope ''ann'' ''c1'' ''t1'' [''f1'']) \<noteq> scope_key (List_Scope ''ann'' ''2026-08-01'' [''t1'', ''t2''])"
    by (simp add: scope_key_def)
  have "b_handles ?s = [\<lparr>h_key = scope_key (Fill_Scope ''ann'' ''c1'' ''t1'' [''f1'']), h_state = Cancelled\<rparr>,
      \<lparr>h_key = scope_key (List_Scope ''ann'' ''2026-08-01'' [''t1'', ''t2'']), h_state = Waiting 0\<rparr>]"
    using differ by (simp add: boot_init_def openSyncScope_def ensureDatabase_def db_settles_def handle_resumes_def cancel_def Let_def demo_keys)
  then have "open_handle ?s h \<longleftrightarrow> h = 1" "h_key (b_handles ?s ! 1) = scope_key (List_Scope ''ann'' ''2026-08-01'' [''t1'', ''t2''])" for h
    by (auto simp: open_handle_def less_Suc_eq)
  then show ?thesis using one_handle_per_key [OF d refl, of "\<lambda>_. Some 0" True True 0 0] d by auto
qed

theorem second_cancel_opens_rival_witness:
  "\<exists>s. h_state (b_handles (s :: boot) ! 1) = Live \<and> h_state (b_handles s ! 2) = Live
    \<and> h_key (b_handles s ! 1) = h_key (b_handles s ! 2) \<and> h_key (b_handles s ! 2) = scope_key (Fill_Scope ''ann'' ''c1'' ''t1'' [''f1''])"
  using second_cancel_opens_rival [OF demo_keys(1)] by auto

theorem flag_off_touches_nothing_witness:
  "resolveSyncReadFlag (Some ''off'') (Holds (Some ''on'')) = (False, Holds None)
    \<and> b_dbs (run_boot (\<lambda>_. Some 0) (boot_init False True) [Open demo_fill, Open demo_list]) = []"
proof -
  have r: "resolveSyncReadFlag (Some ''off'') (Holds (Some ''on'')) = (False, Holds None)" by (simp add: resolveSyncReadFlag_def)
  then show ?thesis using flag_off_touches_nothing [OF r] by (simp del: run_boot_simps)
qed

theorem failed_open_retries_witness:
  "\<exists>s. b_handles s \<noteq> [] \<and> h_state (b_handles s ! 0) = Failed
    \<and> h_state (b_handles (run_boot (\<lambda>_. Some 0) s [Open demo_fill, Db_Settles 1 True, Resumes 1 True]) ! 1) = Live"
proof -
  let ?s = "run_boot (\<lambda>_. Some 0) (boot_init True True) [Open demo_fill, Db_Settles 0 False, Resumes 0 True]"
  have s: "b_handles ?s = [\<lparr>h_key = scope_key (Fill_Scope ''ann'' ''c1'' ''t1'' [''f1'']), h_state = Failed\<rparr>]"
    "b_scopes ?s (scope_key (Fill_Scope ''ann'' ''c1'' ''t1'' [''f1''])) = None" "snd (ensureDatabase ?s) = 1"
    by (simp_all add: boot_init_def openSyncScope_def ensureDatabase_def db_settles_def handle_resumes_def Let_def demo_keys)
  have "h_state (b_handles (run_boot (\<lambda>_. Some 0) ?s [Open demo_fill, Db_Settles (snd (ensureDatabase ?s)) True, Resumes (length (b_handles ?s)) True])
      ! length (b_handles ?s)) = Live"
    using failed_open_retries [OF refl demo_keys(1) s(2) refl refl] by blast
  then have "h_state (b_handles (run_boot (\<lambda>_. Some 0) ?s [Open demo_fill, Db_Settles 1 True, Resumes 1 True]) ! 1) = Live"
    unfolding s(1,3) by simp
  moreover have "b_handles ?s \<noteq> []" "h_state (b_handles ?s ! 0) = Failed" using s(1) by simp_all
  ultimately show ?thesis by blast
qed

theorem scope_key_exact_witness:
  "(scopeKey (\<lambda>_. Some 0) demo_fill = scopeKey (\<lambda>_. Some 0) demo_list) = False"
  using scope_key_exact [OF demo_fill_scope demo_list_scope] by (simp add: same_scope_def)

theorem two_keys_share_identifiers_witness:
  "\<exists>p q. scopePlanFor (\<lambda>_. Some 0) ''checklists'' (scope_value (Fill_Scope ''ann'' ''c1'' ''t1'' [''f1''])) = Inr p
    \<and> scopePlanFor (\<lambda>_. Some 0) ''checklists'' (scope_value (Fill_Scope ''ann'' ''c1'' ''t1'' [''f2''])) = Inr q
    \<and> replicationIdentifier checklists p = replicationIdentifier checklists q"
proof -
  have a: "scope_ok (\<lambda>_. Some 0) (Fill_Scope ''ann'' ''c1'' ''t1'' [''f1''])" "scope_ok (\<lambda>_. Some 0) (Fill_Scope ''ann'' ''c1'' ''t1'' [''f2''])"
    by code_simp+
  have c: "(''checklists'', checklists) \<in> set REPLICATED_COLLECTIONS" by (simp add: REPLICATED_COLLECTIONS_def)
  show ?thesis using two_keys_share_identifiers [OF a _ _ c] by simp
qed

end
