(* ===== verification/OpStore.thy ===== *)
theory OpStore
  imports Complex_Main JsonValues
begin

text \<open>
  The reactive store of \<^verbatim>\<open>sync.js\<close>: collections, subscribers and batches. A collection is the value its reference
  points to. Callbacks are names; \<open>react\<close> says what a callback does to the subscriptions (the pages' callbacks render and
  may unsubscribe, they write no collection), an exception of theirs is caught and ends only that call. \<open>fired\<close>
  records the calls made.
\<close>

section \<open>State\<close>

record 'cb ostore =
  collections :: "(string \<times> json) list"
  subscribers :: "(string \<times> 'cb list) list"
  batching :: bool
  dirty :: "string list"
  fired :: "('cb \<times> json \<times> string) list"

type_synonym 'cb reaction = "'cb \<Rightarrow> json \<Rightarrow> string \<Rightarrow> (string \<times> 'cb list) list \<Rightarrow> (string \<times> 'cb list) list"

definition new_store :: "'cb ostore" where
  "new_store = \<lparr>collections = [], subscribers = [], batching = False, dirty = [], fired = []\<rparr>"

fun put :: "'k \<Rightarrow> 'v \<Rightarrow> ('k \<times> 'v) list \<Rightarrow> ('k \<times> 'v) list" where
  "put k v [] = [(k, v)]"
| "put k v ((j, w) # xs) = (if j = k then (j, v) # xs else (j, w) # put k v xs)"

lemma map_of_put [simp]: "map_of (put k v xs) = (map_of xs)(k \<mapsto> v)"
  by (induction k v xs rule: put.induct) (auto simp: fun_eq_iff)

lemma keys_put: "fst ` set (put k v xs) = insert k (fst ` set xs)"
  by (induction k v xs rule: put.induct) auto

definition collection :: "'cb ostore \<Rightarrow> string \<Rightarrow> json" where
  "collection s key = field (collections s) key"

definition subs_of :: "'cb ostore \<Rightarrow> string \<Rightarrow> 'cb list" where
  "subs_of s key = (case map_of (subscribers s) key of None \<Rightarrow> [] | Some cbs \<Rightarrow> cbs)"

section \<open>Operations\<close>

definition register :: "(string \<times> json) list \<Rightarrow> 'cb ostore \<Rightarrow> 'cb ostore" where
  "register defs s = foldl (\<lambda>s (key, initial). s\<lparr>collections := put key initial (collections s),
     subscribers := put key [] (subscribers s)\<rparr>) s defs"

definition get_sub :: "'cb ostore \<Rightarrow> string \<Rightarrow> string option \<Rightarrow> json" where
  "get_sub s key subKey = (case subKey of
     None \<Rightarrow> collection s key
   | Some k \<Rightarrow> (case collection s key of JObj d \<Rightarrow> field d k | _ \<Rightarrow> JUndef))"

definition on_sub :: "string \<Rightarrow> 'cb \<Rightarrow> 'cb ostore \<Rightarrow> 'cb ostore" where
  "on_sub key cb s = s\<lparr>subscribers := put key (subs_of s key @ [cb]) (subscribers s)\<rparr>"

definition off_sub :: "string \<Rightarrow> 'cb \<Rightarrow> 'cb ostore \<Rightarrow> 'cb ostore" where
  "off_sub key cb s = (case map_of (subscribers s) key of
     None \<Rightarrow> s | Some cbs \<Rightarrow> s\<lparr>subscribers := put key (remove1 cb cbs) (subscribers s)\<rparr>)"

definition call_one :: "'cb reaction \<Rightarrow> string \<Rightarrow> json \<Rightarrow> 'cb ostore \<Rightarrow> 'cb \<Rightarrow> 'cb ostore" where
  "call_one react key v s cb = s\<lparr>fired := fired s @ [(cb, v, key)], subscribers := react cb v key (subscribers s)\<rparr>"

definition fire :: "'cb reaction \<Rightarrow> 'cb ostore \<Rightarrow> string \<Rightarrow> 'cb ostore" where
  "fire react s key = foldl (call_one react key (collection s key)) s (subs_of s key)"

definition notify :: "'cb reaction \<Rightarrow> string \<Rightarrow> 'cb ostore \<Rightarrow> 'cb ostore" where
  "notify react key s =
     (if batching s then s\<lparr>dirty := (if key \<in> set (dirty s) then dirty s else dirty s @ [key])\<rparr> else fire react s key)"

text \<open>An operation that writes a field of a collection: a collection that is \<open>null\<close> throws, \<open>typeof null\<close> being an object.\<close>

definition write_sub :: "'cb reaction \<Rightarrow> string \<Rightarrow> (doc \<Rightarrow> doc) \<Rightarrow> 'cb ostore \<Rightarrow> 'cb ostore \<times> bool" where
  "write_sub react key f s =
     (if \<not> has_field (collections s) key then (s, False)
      else case collection s key of
        JNull \<Rightarrow> (s, True)
      | JObj d \<Rightarrow> (notify react key (s\<lparr>collections := put key (JObj (f d)) (collections s)\<rparr>), False)
      | _ \<Rightarrow> (notify react key s, False))"

definition set_sub :: "'cb reaction \<Rightarrow> string \<Rightarrow> string \<Rightarrow> json \<Rightarrow> 'cb ostore \<Rightarrow> 'cb ostore \<times> bool" where
  "set_sub react key subKey v s = write_sub react key (\<lambda>d. set_field d subKey v) s"

definition delete_sub :: "'cb reaction \<Rightarrow> string \<Rightarrow> string \<Rightarrow> 'cb ostore \<Rightarrow> 'cb ostore \<times> bool" where
  "delete_sub react key subKey s = write_sub react key (filter (\<lambda>(k, v). k \<noteq> subKey)) s"

definition setAll :: "'cb reaction \<Rightarrow> string \<Rightarrow> json \<Rightarrow> 'cb ostore \<Rightarrow> 'cb ostore" where
  "setAll react key v s =
     (if \<not> has_field (collections s) key then s else notify react key (s\<lparr>collections := put key v (collections s)\<rparr>))"

section \<open>Batches\<close>

text \<open>The function a batch runs, as the store calls it makes; \<open>Raise\<close> is an exception of its own. The flag of a result
  says whether an exception left the call.\<close>

datatype store_cmd = Set_Sub string string json | Set_All string json | Delete_Sub string string | Raise | Batch "store_cmd list"

fun run_cmd :: "'cb reaction \<Rightarrow> store_cmd \<Rightarrow> 'cb ostore \<Rightarrow> 'cb ostore \<times> bool"
and run_cmds :: "'cb reaction \<Rightarrow> store_cmd list \<Rightarrow> 'cb ostore \<Rightarrow> 'cb ostore \<times> bool" where
  "run_cmd react (Set_Sub key subKey v) s = set_sub react key subKey v s"
| "run_cmd react (Set_All key v) s = (setAll react key v s, False)"
| "run_cmd react (Delete_Sub key subKey) s = delete_sub react key subKey s"
| "run_cmd react Raise s = (s, True)"
| "run_cmd react (Batch cs) s =
     (case run_cmds react cs (s\<lparr>batching := True, dirty := []\<rparr>) of (s1, thrown) \<Rightarrow>
        ((foldl (fire react) (s1\<lparr>batching := False\<rparr>) (dirty s1))\<lparr>dirty := []\<rparr>, thrown))"
| "run_cmds react [] s = (s, False)"
| "run_cmds react (c # cs) s =
     (case run_cmd react c s of (s1, thrown) \<Rightarrow> if thrown then (s1, True) else run_cmds react cs s1)"

section \<open>One batch against the same calls made one by one\<close>

definition quiet :: "'cb reaction" where
  "quiet cb v key subs = subs"

definition flat :: "store_cmd \<Rightarrow> bool" where
  "flat c = (case c of Batch cs \<Rightarrow> False | _ \<Rightarrow> True)"

text \<open>The distinct elements in the order they first occur.\<close>

definition firsts :: "'a list \<Rightarrow> 'a list" where
  "firsts xs = rev (remdups (rev xs))"

lemma firsts_snoc: "firsts (xs @ [x]) = (if x \<in> set xs then firsts xs else firsts xs @ [x])"
  by (simp add: firsts_def)

lemma firsts_props [simp]: "set (firsts xs) = set xs" "distinct (firsts xs)" "firsts [] = []"
  by (simp_all add: firsts_def)

text \<open>The keys a run of flat calls gives notice of, in order.\<close>

definition notices :: "store_cmd \<Rightarrow> 'cb ostore \<Rightarrow> string list" where
  "notices c s = (case c of
     Set_Sub key k v \<Rightarrow> if has_field (collections s) key \<and> collection s key \<noteq> JNull then [key] else []
   | Delete_Sub key k \<Rightarrow> if has_field (collections s) key \<and> collection s key \<noteq> JNull then [key] else []
   | Set_All key v \<Rightarrow> if has_field (collections s) key then [key] else []
   | _ \<Rightarrow> [])"

definition calls_of :: "'cb ostore \<Rightarrow> string \<Rightarrow> ('cb \<times> json \<times> string) list" where
  "calls_of s key = map (\<lambda>cb. (cb, collection s key, key)) (subs_of s key)"

lemma fire_quiet: "fire quiet s key = s\<lparr>fired := fired s @ calls_of s key\<rparr>"
proof -
  have "foldl (call_one quiet key v) s cbs = s\<lparr>fired := fired s @ map (\<lambda>cb. (cb, v, key)) cbs\<rparr>" for v cbs and s :: "'a ostore"
    by (induction cbs arbitrary: s) (simp_all add: call_one_def quiet_def)
  then show ?thesis by (simp add: fire_def calls_of_def)
qed

lemma fires_quiet: "foldl (fire quiet) s keys = s\<lparr>fired := fired s @ concat (map (calls_of s) keys)\<rparr>"
proof (induction keys arbitrary: s)
  case (Cons k ks)
  have e: "calls_of (s\<lparr>fired := x\<rparr>) = calls_of s" for x
    by (simp add: calls_of_def collection_def subs_of_def fun_eq_iff)
  have "foldl (fire quiet) s (k # ks) = foldl (fire quiet) (s\<lparr>fired := fired s @ calls_of s k\<rparr>) ks" by (simp add: fire_quiet)
  then show ?case by (simp only: Cons.IH e) simp
qed simp

text \<open>A store in a batch and the store of the same calls made one by one: \<open>ks\<close> are the keys noticed so far.\<close>

definition batched :: "'cb ostore \<Rightarrow> string list \<Rightarrow> 'cb ostore \<Rightarrow> 'cb ostore \<Rightarrow> bool" where
  "batched s0 ks b u \<longleftrightarrow> batching b \<and> \<not> batching u \<and> dirty b = firsts ks \<and> collections b = collections u
     \<and> subscribers b = subscribers u \<and> subscribers u = subscribers s0 \<and> fired b = fired s0 \<and> dirty u = dirty s0
     \<and> map (\<lambda>(cb, v, k). k) (drop (length (fired s0)) (fired u)) = concat (map (\<lambda>k. replicate (length (subs_of s0 k)) k) ks)
     \<and> take (length (fired s0)) (fired u) = fired s0"

lemma notify_batched:
  assumes "batched s0 ks b u"
  shows "batched s0 (ks @ [key]) (notify quiet key (b\<lparr>collections := cs\<rparr>)) (notify quiet key (u\<lparr>collections := cs\<rparr>))"
proof -
  have "length (fired s0) \<le> length (fired u)" using assms unfolding batched_def by (metis length_take min.cobounded1)
  then show ?thesis using assms
    by (auto simp: batched_def notify_def fire_quiet firsts_snoc calls_of_def subs_of_def comp_def map_replicate_const)
qed

lemma same_update: "collections s = cs \<Longrightarrow> s\<lparr>collections := cs\<rparr> = s"
  by (cases s) simp

lemma cmd_batched:
  assumes "batched s0 ks b u" and "flat c" and "run_cmd quiet c b = (b', t)" and "run_cmd quiet c u = (u', t')"
  shows "t' = t \<and> batched s0 (ks @ notices c u) b' u'"
proof -
  have eq: "collections b = collections u" "\<And>k. collection b k = collection u k" using assms(1) by (simp_all add: batched_def collection_def)
  note same = same_update [OF eq(1)] same_update [OF refl [of "collections u"]]
  have wr: "write_sub quiet key f b = (b', t) \<Longrightarrow> write_sub quiet key f u = (u', t') \<Longrightarrow>
      t' = t \<and> batched s0 (ks @ (if has_field (collections u) key \<and> collection u key \<noteq> JNull then [key] else [])) b' u'" for key f
    using notify_batched [OF assms(1), of key "collections u"] notify_batched [OF assms(1), of key "put key (JObj (f d)) (collections u)" for d] assms(1)
    by (auto simp: write_sub_def eq same split: if_splits json.splits)
  show ?thesis
  proof (cases c)
    case (Set_All key v)
    then show ?thesis
      using assms notify_batched [OF assms(1), of key "put key v (collections u)"]
      by (auto simp: setAll_def eq notices_def split: if_splits)
  qed (use assms wr in \<open>auto simp: set_sub_def delete_sub_def notices_def flat_def\<close>)
qed

fun notices_all :: "store_cmd list \<Rightarrow> 'cb ostore \<Rightarrow> string list" where
  "notices_all [] s = []"
| "notices_all (c # cs) s =
     (case run_cmd quiet c s of (s1, thrown) \<Rightarrow> notices c s @ (if thrown then [] else notices_all cs s1))"

lemma cmds_batched:
  assumes "batched s0 ks b u" and "list_all flat cs" and "run_cmds quiet cs b = (b', t)" and "run_cmds quiet cs u = (u', t')"
  shows "t' = t \<and> batched s0 (ks @ notices_all cs u) b' u'"
  using assms
proof (induction cs arbitrary: ks b u)
  case (Cons c cs)
  obtain b1 t1 u1 t1' where one: "run_cmd quiet c b = (b1, t1)" "run_cmd quiet c u = (u1, t1')" by fastforce
  have step: "t1' = t1 \<and> batched s0 (ks @ notices c u) b1 u1"
    using cmd_batched [OF Cons.prems(1) _ one] Cons.prems(2) by simp
  show ?case
  proof (cases t1)
    case True
    then show ?thesis using Cons.prems(3,4) one step by simp
  next
    case False
    then show ?thesis using Cons.IH [of "ks @ notices c u" b1 u1] Cons.prems one step by simp
  qed
qed simp

lemma firsts_replicate: "firsts (xs @ replicate n x) = (if n = 0 \<or> x \<in> set xs then firsts xs else firsts xs @ [x])"
proof (induction n)
  case (Suc n)
  have "xs @ replicate (Suc n) x = (xs @ replicate n x) @ [x]" by (simp add: replicate_append_same)
  then have "firsts (xs @ replicate (Suc n) x) = firsts ((xs @ replicate n x) @ [x])" by (rule arg_cong)
  then show ?case using Suc by (auto simp only: firsts_snoc) (auto split: if_splits)
qed simp

lemma firsts_skip:
  assumes "\<And>k. n k = 0 \<Longrightarrow> f k = []"
  shows "concat (map f (firsts (concat (map (\<lambda>k. replicate (n k) k) ks)))) = concat (map f (firsts ks))"
proof (induction ks rule: rev_induct)
  case (snoc k ks)
  then show ?case
    by (cases "n k = 0"; cases "k \<in> set ks") (auto simp: firsts_replicate firsts_snoc assms)
qed simp

lemma batch_as_unbatched:
  assumes "\<not> batching s" and "list_all flat cs" and "run_cmds quiet cs s = (u, thrown)"
  shows "run_cmd quiet (Batch cs) s =
    (u\<lparr>fired := fired s @ concat (map (calls_of u) (firsts (map (\<lambda>(cb, v, k). k) (drop (length (fired s)) (fired u))))), dirty := []\<rparr>, thrown)"
proof -
  let ?b = "s\<lparr>batching := True, dirty := []\<rparr>"
  obtain b' t where b': "run_cmds quiet cs ?b = (b', t)" by fastforce
  have "batched s [] ?b s" using assms(1) by (simp add: batched_def)
  from cmds_batched [OF this assms(2) b' assms(3)]
  have t: "t = thrown" and bd: "batched s (notices_all cs s) b' u" by simp_all
  let ?ks = "notices_all cs s"
  have subs: "subs_of s k = subs_of u k" for k using bd by (simp add: batched_def subs_of_def)
  have "concat (map (calls_of u) (firsts (map (\<lambda>(cb, v, k). k) (drop (length (fired s)) (fired u))))) = concat (map (calls_of u) (firsts ?ks))"
  proof -
    have "map (\<lambda>(cb, v, k). k) (drop (length (fired s)) (fired u)) = concat (map (\<lambda>k. replicate (length (subs_of s k)) k) ?ks)"
      using bd by (simp add: batched_def)
    then show ?thesis using firsts_skip [of "\<lambda>k. length (subs_of s k)" "calls_of u" ?ks] by (simp add: calls_of_def subs)
  qed
  moreover have "(foldl (fire quiet) (b'\<lparr>batching := False\<rparr>) (dirty b'))\<lparr>dirty := []\<rparr>
      = u\<lparr>fired := fired s @ concat (map (calls_of u) (firsts ?ks)), dirty := []\<rparr>"
  proof -
    have c: "calls_of (b'\<lparr>batching := False\<rparr>) = calls_of u"
      using bd by (simp add: batched_def calls_of_def collection_def subs_of_def fun_eq_iff)
    show ?thesis using bd by (simp add: fires_quiet c batched_def)
  qed
  ultimately show ?thesis using b' t by simp
qed

text \<open>a batch is its calls made one by one, told once. For any store calls without an inner batch, on any store and
  whether or not one of them throws, a batch leaves the collections and the exception of the calls made one by one; it
  calls nobody while they run, then every subscriber of each key the calls gave notice of once, key by key in the order
  the keys were first noticed and in the order of subscription, with the collection's final value.\<close>
theorem batch_tells_once:
  assumes "\<not> batching s" and "list_all flat cs" and "run_cmds quiet cs s = (u, thrown)"
  shows "run_cmd quiet (Batch cs) s =
    (u\<lparr>fired := fired s @ concat (map (calls_of u) (firsts (map (\<lambda>(cb, v, k). k) (drop (length (fired s)) (fired u))))), dirty := []\<rparr>, thrown)"
  using assms by (rule batch_as_unbatched)

text \<open>A batch inside a batch ends the outer one: the inner one clears the keys the outer one had noticed, so a
  collection changed before it is never told, whoever subscribed.\<close>

lemma inner_batch_drops_notice:
  assumes "has_field (collections s) a" and "has_field (collections s) b" and "a \<noteq> b"
  shows "run_cmd quiet (Batch [Set_All a v, Batch [Set_All b w]]) s =
    (s\<lparr>collections := put b w (put a v (collections s)), batching := False, dirty := [],
       fired := fired s @ map (\<lambda>cb. (cb, w, b)) (subs_of s b)\<rparr>, False)"
proof -
  have h: "has_field (put a v (collections s)) b" using assms(2) by (simp add: has_field_def keys_put)
  show ?thesis using assms h
    by (simp add: setAll_def notify_def fires_quiet fire_quiet calls_of_def collection_def subs_of_def field_def)
qed

theorem batch_tells_once_witness:
  "run_cmd quiet (Batch [Set_All ''a'' (JNum 1), Set_All ''b'' (JNum 2), Set_All ''a'' (JNum 3)])
     (new_store\<lparr>collections := [(''a'', JNull), (''b'', JNull)], subscribers := [(''a'', [7 :: nat, 8]), (''b'', [9])]\<rparr>)
   = (new_store\<lparr>collections := [(''a'', JNum 3), (''b'', JNum 2)], subscribers := [(''a'', [7, 8]), (''b'', [9])],
        fired := [(7, JNum 3, ''a''), (8, JNum 3, ''a''), (9, JNum 2, ''b'')]\<rparr>, False)"
proof -
  let ?s = "new_store\<lparr>collections := [(''a'', JNull), (''b'', JNull)], subscribers := [(''a'', [7 :: nat, 8]), (''b'', [9])]\<rparr>"
  let ?u = "new_store\<lparr>collections := [(''a'', JNum 3), (''b'', JNum 2)], subscribers := [(''a'', [7 :: nat, 8]), (''b'', [9])],
     fired := [(7, JNum 1, ''a''), (8, JNum 1, ''a''), (9, JNum 2, ''b''), (7, JNum 3, ''a''), (8, JNum 3, ''a'')]\<rparr>"
  have run: "run_cmds quiet [Set_All ''a'' (JNum 1), Set_All ''b'' (JNum 2), Set_All ''a'' (JNum 3)] ?s = (?u, False)"
    by (simp add: setAll_def notify_def fire_quiet calls_of_def collection_def subs_of_def field_def has_field_def new_store_def)
  show ?thesis
    using batch_tells_once [OF _ _ run] by (simp add: flat_def new_store_def firsts_def calls_of_def collection_def subs_of_def field_def)
qed

end
