(* ===== verification/OpJournal.thy ===== *)
theory OpJournal
  imports Complex_Main "HOL-Library.Char_ord" "HOL-Library.List_Lexorder" OpStore
begin

text \<open>
  The Lamport clock of \<^verbatim>\<open>sync.js\<close>, the server's operation journal (\<^verbatim>\<open>backend/internal/sync/ops.go\<close>) and the write
  channel between them. A clock value is an integer or \<open>NaN\<close> (\<open>None\<close>). A tick or a receipt counts at once and then
  waits for its write to the local database; the writes settle in the order they were made, and a tick returns
  whatever the clock shows when its write has settled.
\<close>

section \<open>The clock\<close>

type_synonym lts = "int option"

definition plus1 :: "lts \<Rightarrow> lts" where
  "plus1 t = map_option (\<lambda>n. n + 1) t"

definition js_max :: "lts \<Rightarrow> lts \<Rightarrow> lts" where
  "js_max a b = (case (a, b) of (Some m, Some n) \<Rightarrow> Some (max m n) | _ \<Rightarrow> None)"

record clock =
  ts :: lts
  deviceId :: string
  stored :: "lts option"
  waiting :: "(bool \<times> lts) list"
  returned :: "lts option list"

definition clock_init :: "string \<Rightarrow> lts option \<Rightarrow> clock" where
  "clock_init device meta = (let t = (case meta of None \<Rightarrow> Some 0 | Some m \<Rightarrow> m) in
     \<lparr>ts = t, deviceId = device, stored = Some t, waiting = [], returned = []\<rparr>)"

definition tick :: "clock \<Rightarrow> clock" where
  "tick c = (let t = plus1 (ts c) in c\<lparr>ts := t, waiting := waiting c @ [(True, t)]\<rparr>)"

definition receive :: "lts \<Rightarrow> clock \<Rightarrow> clock" where
  "receive remoteTs c = (let t = plus1 (js_max (ts c) remoteTs) in c\<lparr>ts := t, waiting := waiting c @ [(False, t)]\<rparr>)"

text \<open>The oldest write settles. A tick whose write failed throws: \<open>None\<close>.\<close>

definition settle :: "bool \<Rightarrow> clock \<Rightarrow> clock" where
  "settle ok c = (case waiting c of
     [] \<Rightarrow> c
   | (ticked, t) # ws \<Rightarrow> c\<lparr>waiting := ws, stored := (if ok then Some t else stored c),
       returned := (if ticked then returned c @ [if ok then Some (ts c) else None] else returned c)\<rparr>)"

datatype clock_event = Tick | Receive lts | Settle bool

fun clock_step :: "clock \<Rightarrow> clock_event \<Rightarrow> clock" where
  "clock_step c Tick = tick c"
| "clock_step c (Receive t) = receive t c"
| "clock_step c (Settle ok) = settle ok c"

section \<open>The journal\<close>

datatype entity_type = Field_Response | Submission | Template | Other string

record jop =
  j_device :: string
  j_user :: string
  j_entity :: string
  j_etype :: entity_type
  j_optype :: string
  j_payload :: json
  j_ts :: int

text \<open>\<open>rows\<close> is the \<open>lamport_ts\<close> column of the entity tables; an operation's place in \<open>ops\<close> is the order of \<open>server_ts\<close>.\<close>

record journal =
  ops :: "jop list"
  rows :: "entity_type \<Rightarrow> string \<Rightarrow> int option"

definition known :: "entity_type \<Rightarrow> bool" where
  "known e = (case e of Other s \<Rightarrow> False | _ \<Rightarrow> True)"

definition latest_at :: "journal \<Rightarrow> string \<Rightarrow> int \<Rightarrow> jop option" where
  "latest_at j e t = List.find (\<lambda>x. j_entity x = e \<and> j_ts x = t) (rev (ops j))"

definition checkLWW :: "journal \<Rightarrow> jop \<Rightarrow> jop option" where
  "checkLWW j x = (if \<not> known (j_etype x) then None else case rows j (j_etype x) (j_entity x) of
     None \<Rightarrow> None
   | Some cur \<Rightarrow>
       if j_ts x > cur then None
       else case latest_at j (j_entity x) cur of
         None \<Rightarrow> None
       | Some w \<Rightarrow> if j_ts x = cur \<and> j_device x > j_device w then None else Some w)"

definition updateEntityLamportTS :: "journal \<Rightarrow> jop \<Rightarrow> journal" where
  "updateEntityLamportTS j x =
     (if known (j_etype x) \<and> rows j (j_etype x) (j_entity x) \<noteq> None
      then j\<lparr>rows := (rows j)(j_etype x := (rows j (j_etype x))(j_entity x \<mapsto> j_ts x))\<rparr> else j)"

text \<open>The journal afterwards and the winner an operation lost to.\<close>

definition insertOpAndNotify :: "journal \<Rightarrow> jop \<Rightarrow> journal \<times> jop option" where
  "insertOpAndNotify j x = (case checkLWW j x of
     Some w \<Rightarrow> (j, Some w)
   | None \<Rightarrow> (let j1 = updateEntityLamportTS j x in (j1\<lparr>ops := ops j1 @ [x]\<rparr>, None)))"

definition nextLamportTS :: "journal \<Rightarrow> entity_type \<Rightarrow> string \<Rightarrow> int" where
  "nextLamportTS j et e = (if \<not> known et then 1 else case rows j et e of None \<Rightarrow> 1 | Some cur \<Rightarrow> cur + 1)"

definition emitOp :: "journal \<Rightarrow> jop \<Rightarrow> journal \<times> jop option" where
  "emitOp j x = insertOpAndNotify j (x\<lparr>j_ts := nextLamportTS j (j_etype x) (j_entity x)\<rparr>)"

text \<open>\<open>accessible\<close> is the join on the templates the user is assigned.\<close>

definition opsSince :: "(string \<Rightarrow> jop \<Rightarrow> bool) \<Rightarrow> journal \<Rightarrow> string \<Rightarrow> int \<Rightarrow> jop list" where
  "opsSince accessible j user t =
     sort_key j_ts (filter (\<lambda>x. j_ts x > t \<and> j_user x = user) (ops j))
     @ sort_key j_ts (filter (\<lambda>x. j_ts x > t \<and> j_user x \<noteq> user \<and> accessible user x) (ops j))"

section \<open>Sending\<close>

text \<open>What the server reads of a clock value: \<open>NaN\<close> is sent as \<open>null\<close> in a body and is no number in a query, zero either way.\<close>

definition wire :: "lts \<Rightarrow> int" where
  "wire t = (case t of None \<Rightarrow> 0 | Some n \<Rightarrow> n)"

text \<open>\<open>submitOp\<close> once its tick has settled: \<open>None\<close> for a tick that threw, or for a page without a clock.\<close>

definition submitOp_body :: "string \<Rightarrow> clock option \<Rightarrow> lts option \<Rightarrow> string \<Rightarrow> string \<Rightarrow> entity_type \<Rightarrow> string \<Rightarrow> json \<Rightarrow> jop" where
  "submitOp_body fallback c ticked user entity etype optype payload =
     \<lparr>j_device = (case c of None \<Rightarrow> fallback | Some c \<Rightarrow> if deviceId c \<noteq> [] then deviceId c else fallback),
      j_user = user, j_entity = entity, j_etype = etype, j_optype = optype, j_payload = payload,
      j_ts = (case ticked of None \<Rightarrow> 0 | Some t \<Rightarrow> wire t)\<rparr>"

text \<open>\<open>wsCatchUp\<close>: what it asks for and in which order it applies it.\<close>

definition catch_up :: "(string \<Rightarrow> jop \<Rightarrow> bool) \<Rightarrow> journal \<Rightarrow> string \<Rightarrow> clock option \<Rightarrow> jop list" where
  "catch_up accessible j user c = (case c of None \<Rightarrow> [] | Some c \<Rightarrow> sort_key j_ts (opsSince accessible j user (wire (ts c))))"

end
