(* ===== verification/OpJournalProps.thy ===== *)
theory OpJournalProps
  imports Complex_Main OpJournal
begin

text \<open>
  What a stamp promises, and what it does not: a tick exceeds all its device had seen when it started, two ticks in
  flight share a stamp and the second operation loses to the first, and an operation the server stamps below a
  device's clock is never caught up.
\<close>

section \<open>The clock only grows\<close>

definition numeric :: "clock_event list \<Rightarrow> bool" where
  "numeric es \<longleftrightarrow> Receive None \<notin> set es"

definition run_clock :: "clock \<Rightarrow> clock_event list \<Rightarrow> clock" where
  "run_clock c es = foldl clock_step c es"

lemma run_clock_simps [simp]: "run_clock c [] = c" "run_clock c (e # es) = run_clock (clock_step c e) es"
    "run_clock c (es @ fs) = run_clock (run_clock c es) fs"
  by (simp_all add: run_clock_def)

text \<open>One step from a clock that shows \<open>n\<close>: it shows no less afterwards, and what a tick returns is what it shows.\<close>

lemma clock_step_grows:
  assumes "ts c = Some n" and "e \<noteq> Receive None"
  shows "\<exists>m \<ge> n. ts (clock_step c e) = Some m \<and> (\<forall>r. e = Receive (Some r) \<longrightarrow> r < m)
    \<and> (\<exists>new. returned (clock_step c e) = returned c @ new \<and> set new \<subseteq> {None, Some (Some n)})"
proof (cases e)
  case (Receive t)
  then show ?thesis using assms by (cases t) (auto simp: receive_def js_max_def plus1_def Let_def)
next
  case (Settle ok)
  then show ?thesis using assms by (cases "waiting c") (auto simp: settle_def)
qed (use assms in \<open>auto simp: tick_def plus1_def Let_def\<close>)

lemma run_clock_grows:
  "ts c = Some n \<Longrightarrow> numeric es \<Longrightarrow>
   \<exists>m \<ge> n. ts (run_clock c es) = Some m \<and> (\<forall>r. Receive (Some r) \<in> set es \<longrightarrow> r < m)
     \<and> (\<exists>new. returned (run_clock c es) = returned c @ new \<and> (\<forall>x \<in> set new. case x of None \<Rightarrow> True | Some t \<Rightarrow> \<exists>v. t = Some v \<and> n \<le> v \<and> v \<le> m))"
proof (induction es arbitrary: c n)
  case Nil
  then show ?case by simp
next
  case (Cons e es)
  have ne: "e \<noteq> Receive None" "numeric es" using Cons.prems(2) by (auto simp: numeric_def)
  obtain m1 new1 where one: "n \<le> m1" "ts (clock_step c e) = Some m1" "\<forall>r. e = Receive (Some r) \<longrightarrow> r < m1"
      "returned (clock_step c e) = returned c @ new1" "set new1 \<subseteq> {None, Some (Some n)}"
    using clock_step_grows [OF Cons.prems(1) ne(1)] by blast
  obtain m new where rest: "m1 \<le> m" "ts (run_clock (clock_step c e) es) = Some m" "\<forall>r. Receive (Some r) \<in> set es \<longrightarrow> r < m"
      "returned (run_clock (clock_step c e) es) = returned (clock_step c e) @ new"
      "\<forall>x \<in> set new. case x of None \<Rightarrow> True | Some t \<Rightarrow> \<exists>v. t = Some v \<and> m1 \<le> v \<and> v \<le> m"
    using Cons.IH [OF one(2) ne(2)] by blast
  have "\<forall>x \<in> set (new1 @ new). case x of None \<Rightarrow> True | Some t \<Rightarrow> \<exists>v. t = Some v \<and> n \<le> v \<and> v \<le> m"
    using one(1,5) rest(1,5) by (fastforce split: option.splits)
  then show ?case using one rest by (intro exI [of _ m]) (auto intro: le_less_trans less_le_trans)
qed

lemma returned_ticks: "length (returned (run_clock c es)) \<le> length (returned c) + length (filter fst (waiting c)) + count_list es Tick"
proof (induction es arbitrary: c)
  case (Cons e es)
  have "length (returned (clock_step c e)) + length (filter fst (waiting (clock_step c e)))
      = length (returned c) + length (filter fst (waiting c)) + (if e = Tick then 1 else 0)"
    by (cases e) (auto simp: tick_def receive_def settle_def Let_def split: list.split)
  then show ?case using Cons [of "clock_step c e"] by (auto split: if_splits)
qed simp

text \<open>C13: a stamp exceeds everything its device had seen. After any schedule of ticks, receipts and writes that settle or
  fail, whatever was still unsettled, a tick started then returns, whenever its own write settles and whatever comes in
  between, a number above every timestamp received and every stamp given out before it started.\<close>
theorem stamp_exceeds_seen:
  assumes "meta \<noteq> Some None" and "numeric es" and "numeric later"
    and "c = run_clock (clock_init device meta) es" and "c' = run_clock (tick c) later"
    and "count_list es Tick < length (returned c')" and "returned c' ! count_list es Tick = Some t"
  shows "\<exists>v. t = Some v \<and> (\<forall>r. Receive (Some r) \<in> set es \<longrightarrow> r < v) \<and> (\<forall>u. Some (Some u) \<in> set (returned c) \<longrightarrow> u < v)"
proof -
  obtain n0 where n0: "ts (clock_init device meta) = Some n0" using assms(1) by (cases meta) (auto simp: clock_init_def Let_def)
  obtain n new where n: "ts c = Some n" "\<forall>r. Receive (Some r) \<in> set es \<longrightarrow> r < n" "returned c = new"
      "\<forall>x \<in> set new. case x of None \<Rightarrow> True | Some t \<Rightarrow> \<exists>v. t = Some v \<and> n0 \<le> v \<and> v \<le> n"
    using run_clock_grows [OF n0 assms(2)] assms(4) by (auto simp: clock_init_def Let_def)
  have len: "length (returned c) \<le> count_list es Tick"
    using returned_ticks [of "clock_init device meta" es] assms(4) by (simp add: clock_init_def Let_def)
  have "ts (tick c) = Some (n + 1)" using n(1) by (simp add: tick_def plus1_def Let_def)
  from run_clock_grows [OF this assms(3)] obtain m new2 where
    r: "returned c' = returned c @ new2" "\<forall>x \<in> set new2. case x of None \<Rightarrow> True | Some t \<Rightarrow> \<exists>v. t = Some v \<and> n + 1 \<le> v \<and> v \<le> m"
    using assms(5) by (auto simp: tick_def Let_def)
  have "Some t \<in> set new2"
    using assms(6,7) len r(1) by (simp add: nth_append split: if_splits) (metis add_less_cancel_left le_add_diff_inverse nth_mem)
  then obtain v where "t = Some v" "n + 1 \<le> v" using r(2) by fastforce
  then show ?thesis using n by (fastforce split: option.splits)
qed

section \<open>Two ticks in flight\<close>

lemma latest_appended [simp]:
  "ops j = xs @ [x] \<Longrightarrow> latest_at j (j_entity x) (j_ts x) = Some x"
  by (simp add: latest_at_def)

text \<open>two saves of one field in flight at once share a stamp, and the second is refused by the first. From any clock
  with nothing unsettled, two ticks started before the first settles both return the same number; of the two operations
  so stamped, on an entity the server has seen no later than that, the journal takes the first and refuses the second in
  favour of the first, so no other device is ever told of it.\<close>
theorem overlapping_saves_refused:
  assumes "ts c = Some n" and "waiting c = []" and "c' = run_clock c [Tick, Tick, Settle True, Settle True]"
    and "rows j et e = Some cur" and "cur \<le> n" and "known et"
  shows "\<exists>s a b j1. returned c' = returned c @ [s, s]
    \<and> a = submitOp_body fallback (Some c') s user e et optype v \<and> b = submitOp_body fallback (Some c') s user e et optype w
    \<and> insertOpAndNotify j a = (j1, None) \<and> ops j1 = ops j @ [a] \<and> insertOpAndNotify j1 b = (j1, Some a)"
proof -
  have r: "returned c' = returned c @ [Some (Some (n + 2)), Some (Some (n + 2))]"
    using assms(1,2,3) by (simp add: tick_def settle_def plus1_def Let_def)
  let ?a = "submitOp_body fallback (Some c') (Some (Some (n + 2))) user e et optype v"
  let ?b = "submitOp_body fallback (Some c') (Some (Some (n + 2))) user e et optype w"
  let ?j1 = "(j\<lparr>rows := (rows j)(et := (rows j et)(e \<mapsto> n + 2))\<rparr>)\<lparr>ops := ops j @ [?a]\<rparr>"
  have a: "insertOpAndNotify j ?a = (?j1, None)"
    using assms(4,5,6) by (simp add: insertOpAndNotify_def checkLWW_def updateEntityLamportTS_def submitOp_body_def wire_def Let_def)
  have "latest_at ?j1 e (n + 2) = Some ?a"
    using latest_appended [of ?j1 "ops j" ?a] by (simp add: submitOp_body_def wire_def)
  then have b: "insertOpAndNotify ?j1 ?b = (?j1, Some ?a)"
    using assms(6) by (simp add: insertOpAndNotify_def checkLWW_def) (simp add: submitOp_body_def wire_def)
  show ?thesis using r a b by (intro exI [of _ "Some (Some (n + 2))"] exI [of _ ?a] exI [of _ ?b] exI [of _ ?j1]) simp
qed

section \<open>Catching up\<close>

text \<open>an operation stamped at or below a device's clock is never caught up. The server stamps its own operations one
  above their entity's row, whatever the devices' clocks show; a device that was not connected when such an operation
  was journaled, and whose clock had passed that stamp, asks for operations above its clock only, which never falls: no
  later catch-up, after any schedule and whatever else is journaled, holds the operation.\<close>
theorem catch_up_misses_server_op:
  assumes "ts c = Some n" and "numeric es" and "emitOp j x = (j1, None)" and "nextLamportTS j (j_etype x) (j_entity x) \<le> n"
  shows "x\<lparr>j_ts := nextLamportTS j (j_etype x) (j_entity x)\<rparr> \<in> set (ops j1)
    \<and> x\<lparr>j_ts := nextLamportTS j (j_etype x) (j_entity x)\<rparr> \<notin> set (catch_up accessible j2 user (Some (run_clock c es)))"
proof
  show "x\<lparr>j_ts := nextLamportTS j (j_etype x) (j_entity x)\<rparr> \<in> set (ops j1)"
    using assms(3) by (auto simp: emitOp_def insertOpAndNotify_def Let_def split: option.splits)
  obtain m where "n \<le> m" "ts (run_clock c es) = Some m" using run_clock_grows [OF assms(1,2)] by blast
  then show "x\<lparr>j_ts := nextLamportTS j (j_etype x) (j_entity x)\<rparr> \<notin> set (catch_up accessible j2 user (Some (run_clock c es)))"
    using assms(4) by (auto simp: catch_up_def opsSince_def wire_def)
qed

text \<open>What the catch-up does hold: exactly the accessible operations above the clock, in the order of their stamps.\<close>

lemma catch_up_holds:
  assumes "ts c = Some n"
  shows "set (catch_up accessible j user (Some c)) = {x \<in> set (ops j). n < j_ts x \<and> (j_user x = user \<or> accessible user x)}"
    and "sorted (map j_ts (catch_up accessible j user (Some c)))"
  using assms by (auto simp: catch_up_def opsSince_def wire_def)

text \<open>A clock that ever receives an operation without a timestamp shows no number again.\<close>

lemma nan_stays: "ts c = None \<Longrightarrow> ts (run_clock c es) = None"
proof (induction es arbitrary: c)
  case (Cons e es)
  have "ts (clock_step c e) = None"
    using Cons.prems by (cases e) (auto simp: tick_def receive_def settle_def plus1_def js_max_def Let_def split: list.split)
  then show ?case using Cons.IH by simp
qed simp

section \<open>Witnesses\<close>

theorem stamp_exceeds_seen_witness:
  "\<exists>v. returned (run_clock (clock_init ''d'' None) [Receive (Some 4), Tick, Receive (Some 9), Settle True, Settle True, Settle True]) ! 0 = Some (Some v) \<and> 4 < v"
proof -
  let ?c = "run_clock (clock_init ''d'' None) [Receive (Some 4)]"
  let ?c' = "run_clock (tick ?c) [Receive (Some 9), Settle True, Settle True, Settle True]"
  have r: "returned ?c' = [Some (Some 10)]" by code_simp
  have "\<exists>v. Some (10 :: int) = Some v \<and> (\<forall>r. Receive (Some r) \<in> set [Receive (Some 4)] \<longrightarrow> r < v) \<and> (\<forall>u. Some (Some u) \<in> set (returned ?c) \<longrightarrow> u < v)"
    by (rule stamp_exceeds_seen [of None "[Receive (Some 4)]" "[Receive (Some 9), Settle True, Settle True, Settle True]" ?c "''d''" ?c'])
      (simp_all only: r numeric_def, simp_all)
  then show ?thesis using r by auto
qed

definition demo_clock :: clock where
  "demo_clock = \<lparr>ts = Some 5, deviceId = ''d'', stored = Some (Some 5), waiting = [], returned = []\<rparr>"

definition demo_journal :: journal where
  "demo_journal = \<lparr>ops = [], rows = (\<lambda>et e. Some 0)\<rparr>"

theorem overlapping_saves_refused_witness:
  "\<exists>s a b j1. a = submitOp_body ''f'' (Some (run_clock demo_clock [Tick, Tick, Settle True, Settle True])) s ''u'' ''field'' Field_Response ''SET_FIELD'' (JBool True)
     \<and> b = submitOp_body ''f'' (Some (run_clock demo_clock [Tick, Tick, Settle True, Settle True])) s ''u'' ''field'' Field_Response ''SET_FIELD'' (JBool False)
     \<and> insertOpAndNotify demo_journal a = (j1, None) \<and> insertOpAndNotify j1 b = (j1, Some a)"
  using overlapping_saves_refused [OF _ _ refl, of demo_clock 5 demo_journal Field_Response "''field''" 0 "''f''" "''u''" "''SET_FIELD''" "JBool True" "JBool False"]
  by (simp add: demo_clock_def demo_journal_def known_def) blast

theorem catch_up_misses_server_op_witness:
  "\<lparr>j_device = ''server'', j_user = ''u'', j_entity = ''s'', j_etype = Submission, j_optype = ''SUBMIT_CHECKLIST'', j_payload = JNull, j_ts = 1\<rparr>
     \<notin> set (catch_up (\<lambda>_ _. True) (fst (emitOp demo_journal
        \<lparr>j_device = ''server'', j_user = ''u'', j_entity = ''s'', j_etype = Submission, j_optype = ''SUBMIT_CHECKLIST'', j_payload = JNull, j_ts = 0\<rparr>)) ''v'' (Some demo_clock))"
proof -
  let ?x = "\<lparr>j_device = ''server'', j_user = ''u'', j_entity = ''s'', j_etype = Submission, j_optype = ''SUBMIT_CHECKLIST'', j_payload = JNull, j_ts = 0\<rparr>"
  have n: "nextLamportTS demo_journal (j_etype ?x) (j_entity ?x) = 1" by (simp add: nextLamportTS_def demo_journal_def known_def)
  have c: "checkLWW demo_journal y = None" for y by (simp add: checkLWW_def latest_at_def demo_journal_def)
  have e: "emitOp demo_journal ?x = (fst (emitOp demo_journal ?x), None)"
    by (simp only: emitOp_def insertOpAndNotify_def c option.case Let_def fst_conv)
  show ?thesis
    using catch_up_misses_server_op [of demo_clock 5 "[]" demo_journal ?x "fst (emitOp demo_journal ?x)" "\<lambda>_ _. True" "fst (emitOp demo_journal ?x)" "''v''"] e n
    by (simp add: demo_clock_def numeric_def)
qed

end
