(* ===== verification/OpQueue.thy ===== *)
theory OpQueue
  imports Complex_Main "HOL-Library.Char_ord" "HOL-Library.List_Lexorder" JsonValues
begin

text \<open>
  The API wrapper and the offline queue of \<^verbatim>\<open>sync.js\<close>: a submission the network refused waits in the local database
  until a drain has posted it. A drain is a run of steps, one per answer it waits for; submissions may be queued between
  any two of them. Ids are the random ones the pages mint, \<open>queuedAt\<close> the ISO text, whose locale order is that of its
  characters.
\<close>

section \<open>The API wrapper\<close>

text \<open>A settled \<open>fetch\<close>: \<open>None\<close> for a network failure, a body of \<open>None\<close> for one that is not JSON.\<close>

record http =
  status :: nat
  body :: "json option"

text \<open>What a caller reads of an error it catches.\<close>

record api_error =
  e_error :: json
  e_status :: json

definition plain_error :: api_error where
  "plain_error = \<lparr>e_error = JUndef, e_status = JUndef\<rparr>"

text \<open>\<open>err.status = res.status; throw err\<close> on what the body parsed to: an array takes the field, a primitive does not, and on
  \<open>null\<close> the assignment itself throws.\<close>

definition error_of :: "json option \<Rightarrow> nat \<Rightarrow> api_error" where
  "error_of b n = (case (case b of None \<Rightarrow> JObj [(''error'', JStr ''unknown'')] | Some v \<Rightarrow> v) of
     JObj d \<Rightarrow> \<lparr>e_error = field (set_field d ''status'' (JNum (of_nat n))) ''error'', e_status = JNum (of_nat n)\<rparr>
   | JArr vs \<Rightarrow> \<lparr>e_error = JUndef, e_status = JNum (of_nat n)\<rparr>
   | _ \<Rightarrow> plain_error)"

definition api :: "http option \<Rightarrow> api_error + json" where
  "api r = (case r of
     None \<Rightarrow> Inl plain_error
   | Some res \<Rightarrow>
       if status res = 401 then Inl plain_error
       else if status res = 409 then
         Inr (JObj [(''_conflict'', JBool True), (''winner'', case body res of None \<Rightarrow> JObj [] | Some v \<Rightarrow> v)])
       else if \<not> (200 \<le> status res \<and> status res < 300) then Inl (error_of (body res) (status res))
       else if status res = 204 then Inr JNull
       else case body res of None \<Rightarrow> Inl plain_error | Some v \<Rightarrow> Inr v)"

section \<open>The queue\<close>

record entry =
  q_id :: string
  q_template :: string
  q_key :: string
  q_responses :: json
  q_queuedAt :: "string option"
  q_period :: "string option"

text \<open>\<open>getAll\<close> answers in key order; \<open>put\<close> replaces an entry of the same key.\<close>

fun idb_put :: "entry \<Rightarrow> entry list \<Rightarrow> entry list" where
  "idb_put e [] = [e]"
| "idb_put e (x # xs) = (if q_id e = q_id x then e # xs else if q_id e < q_id x then e # x # xs else x # idb_put e xs)"

definition idb_delete :: "string \<Rightarrow> entry list \<Rightarrow> entry list" where
  "idb_delete k = filter (\<lambda>x. q_id x \<noteq> k)"

record queue =
  q_store :: "entry list"
  q_draining :: bool
  q_online :: bool
  q_loading :: bool
  q_todo :: "entry list"
  q_posted :: "(entry \<times> http option) list"
  q_cards :: "entry list"

definition empty_queue :: queue where
  "empty_queue = \<lparr>q_store = [], q_draining = False, q_online = True, q_loading = False, q_todo = [], q_posted = [], q_cards = []\<rparr>"

definition enqueueSubmission :: "string \<Rightarrow> string \<Rightarrow> entry \<Rightarrow> queue \<Rightarrow> queue" where
  "enqueueSubmission now period payload s =
     s\<lparr>q_store := idb_put (payload\<lparr>q_queuedAt := Some now, q_period := Some period\<rparr>) (q_store s)\<rparr>"

definition queued_key :: "entry \<Rightarrow> string" where
  "queued_key e = (case q_queuedAt e of None \<Rightarrow> [] | Some t \<Rightarrow> t)"

definition drain_start :: "queue \<Rightarrow> queue" where
  "drain_start s = (if q_draining s \<or> \<not> q_online s then s else s\<lparr>q_draining := True, q_loading := True\<rparr>)"

definition drain_end :: "queue \<Rightarrow> queue" where
  "drain_end s = s\<lparr>q_draining := False, q_loading := False, q_todo := []\<rparr>"

text \<open>\<open>getAll\<close> answers; a database that cannot be read ends the drain.\<close>

definition drain_loaded :: "bool \<Rightarrow> queue \<Rightarrow> queue" where
  "drain_loaded ok s =
     (if \<not> q_loading s then s
      else let entries = sort_key queued_key (q_store s) in
        if \<not> ok \<or> entries = [] then drain_end s else s\<lparr>q_loading := False, q_todo := entries\<rparr>)"

text \<open>The post of the head of \<open>q_todo\<close> is answered; \<open>deleted\<close> says whether the delete that may follow succeeds. Every way of
  leaving the loop ends the drain.\<close>

definition drain_answer :: "http option \<Rightarrow> bool \<Rightarrow> queue \<Rightarrow> queue" where
  "drain_answer r deleted s = (case q_todo s of
     [] \<Rightarrow> s
   | e # es \<Rightarrow>
       (let s = s\<lparr>q_posted := q_posted s @ [(e, r)]\<rparr>;
            evict = (\<lambda>s. if \<not> deleted then drain_end s
              else if es = [] then drain_end (s\<lparr>q_store := idb_delete (q_id e) (q_store s)\<rparr>)
              else s\<lparr>q_store := idb_delete (q_id e) (q_store s), q_todo := es\<rparr>)
        in case api r of
          Inr v \<Rightarrow> evict s
        | Inl err \<Rightarrow>
            if e_error err = JStr ''duplicate_submission'' then evict s
            else if e_status err = JNum 409 then evict (s\<lparr>q_cards := q_cards s @ [e]\<rparr>)
            else drain_end s))"

datatype queue_event = Queued string string entry | Drain | Loaded bool | Answered "http option" bool | Online bool

fun queue_step :: "queue \<Rightarrow> queue_event \<Rightarrow> queue" where
  "queue_step s (Queued now period e) = enqueueSubmission now period e s"
| "queue_step s Drain = drain_start s"
| "queue_step s (Loaded ok) = drain_loaded ok s"
| "queue_step s (Answered r deleted) = drain_answer r deleted s"
| "queue_step s (Online b) = (if b then drain_start (s\<lparr>q_online := True\<rparr>) else s\<lparr>q_online := False\<rparr>)"

section \<open>The banner\<close>

text \<open>The banner's text, if it shows, and for each row of the list, by its template, whether it has a badge afterwards.\<close>

fun digits10 :: "nat \<Rightarrow> string" where
  "digits10 n = (if n < 10 then [char_of (48 + n)] else digits10 (n div 10) @ [char_of (48 + n mod 10)])"

declare digits10.simps [simp del]

definition renderSyncBanner :: "entry list \<Rightarrow> (string \<times> bool) list \<Rightarrow> string option \<times> (string \<times> bool) list" where
  "renderSyncBanner entries trows =
     (if entries = [] then (None, map (\<lambda>(t, badge). (t, False)) trows)
      else (Some (digits10 (length entries) @ '' submission'' @ (if length entries > 1 then ''s'' else []) @ '' queued to send''),
            map (\<lambda>(t, badge). (t, t \<in> q_template ` set entries)) trows))"

end
