(* ===== verification/OpQueueProps.thy ===== *)
theory OpQueueProps
  imports Complex_Main OpQueue
begin

text \<open>
  What the offline queue guarantees over any schedule of queueing, drains, answers and connectivity, and the two answers
  it mishandles.
\<close>

definition run_queue :: "queue \<Rightarrow> queue_event list \<Rightarrow> queue" where
  "run_queue s es = foldl queue_step s es"

lemma run_queue_simps [simp]: "run_queue s [] = s" "run_queue s (e # es) = run_queue (queue_step s e) es"
    "run_queue s (es @ fs) = run_queue (run_queue s es) fs"
  by (simp_all add: run_queue_def)

lemma queue_invariant:
  assumes "P s" and "\<And>s e. e \<in> set es \<Longrightarrow> P s \<Longrightarrow> P (queue_step s e)"
  shows "P (run_queue s es)"
  using assms by (induction es arbitrary: s) auto

lemma idb_put_set: "q_id e \<notin> q_id ` set xs \<Longrightarrow> set (idb_put e xs) = insert e (set xs)"
  by (induction xs) auto

lemma idb_put_sub: "set (idb_put e xs) \<subseteq> insert e (set xs)"
  by (induction xs) auto

lemma idb_delete_set: "set (idb_delete k xs) = {x \<in> set xs. q_id x \<noteq> k}"
  by (auto simp: idb_delete_def)

section \<open>Answers\<close>

text \<open>The replies after which an entry is evicted.\<close>

definition evicting :: "http option \<Rightarrow> bool" where
  "evicting r = (case r of
     None \<Rightarrow> False
   | Some res \<Rightarrow> status res = 409 \<or> 200 \<le> status res \<and> status res < 300
       \<or> (\<exists>d. body res = Some (JObj d) \<and> field d ''error'' = JStr ''duplicate_submission''))"

definition refused :: "http option \<Rightarrow> bool" where
  "refused r = (case api r of
     Inr v \<Rightarrow> False
   | Inl err \<Rightarrow> e_error err \<noteq> JStr ''duplicate_submission'' \<and> e_status err \<noteq> JNum 409)"

lemma field_hd: "field ((k, v) # d) k = v"
  by (simp add: field_def)

lemma evict_cases: "\<not> refused r \<Longrightarrow> evicting r"
  by (auto simp: refused_def evicting_def api_def error_of_def plain_error_def field_hd split: option.splits if_splits json.splits)

text \<open>The status of an error is that of its response, so it is never a conflict: conflicts are returned.\<close>

lemma error_no_conflict: "api r = Inl err \<Longrightarrow> e_status err \<noteq> JNum 409"
  by (auto simp: api_def error_of_def plain_error_def split: option.splits if_splits json.splits)

lemma answer_cases:
  assumes "q_todo s = e # es"
  obtains (refused) "refused r \<or> \<not> deleted" "drain_answer r deleted s = drain_end (s\<lparr>q_posted := q_posted s @ [(e, r)]\<rparr>)"
  | (evicted) "\<not> refused r" "deleted" "drain_answer r deleted s =
      (if es = [] then drain_end (s\<lparr>q_posted := q_posted s @ [(e, r)], q_store := idb_delete (q_id e) (q_store s)\<rparr>)
       else s\<lparr>q_posted := q_posted s @ [(e, r)], q_store := idb_delete (q_id e) (q_store s), q_todo := es\<rparr>)"
proof (cases "refused r \<or> \<not> deleted")
  case True
  then show ?thesis using assms error_no_conflict [of r]
    by (intro refused) (auto simp: drain_answer_def refused_def Let_def split: sum.splits)
next
  case False
  then show ?thesis using assms error_no_conflict [of r]
    by (intro evicted) (auto simp: drain_answer_def refused_def Let_def split: sum.splits)
qed

section \<open>Nothing is lost unanswered\<close>

definition queued :: "queue_event list \<Rightarrow> entry list" where
  "queued es = concat (map (\<lambda>e. case e of Queued now period x \<Rightarrow> [x\<lparr>q_queuedAt := Some now, q_period := Some period\<rparr>] | _ \<Rightarrow> []) es)"

lemma queued_simps [simp]: "queued [] = []" "queued (es @ fs) = queued es @ queued fs"
    "queued [Queued now period x] = [x\<lparr>q_queuedAt := Some now, q_period := Some period\<rparr>]"
    "queued [Drain] = []" "queued [Loaded b] = []" "queued [Answered r d] = []" "queued [Online b] = []"
  by (simp_all add: queued_def)

definition accounted :: "entry list \<Rightarrow> queue \<Rightarrow> bool" where
  "accounted xs s \<longleftrightarrow> set (q_store s) \<subseteq> set xs \<and> set (q_todo s) \<subseteq> set xs \<and> fst ` set (q_posted s) \<subseteq> set xs
     \<and> (\<forall>e \<in> set xs. e \<in> set (q_store s) \<or> (\<exists>r. (e, r) \<in> set (q_posted s) \<and> evicting r))"

lemma answer_accounted:
  assumes "accounted xs s" and "distinct (map q_id xs)"
  shows "accounted xs (drain_answer r deleted s)"
proof (cases "q_todo s")
  case (Cons e es)
  from Cons show ?thesis
  proof (cases rule: answer_cases [where r = r and deleted = deleted])
    case refused
    then show ?thesis using assms(1) Cons by (auto simp: accounted_def drain_end_def)
  next
    case evicted
    have same: "x = e" if "x \<in> set xs" "q_id x = q_id e" for x
      using assms(1) Cons that inj_onD [of q_id "set xs" x e] assms(2) by (auto simp: accounted_def distinct_map)
    have "evicting r" by (rule evict_cases [OF evicted(1)])
    let ?s = "drain_answer r deleted s"
    have new: "set (q_store ?s) = {x \<in> set (q_store s). q_id x \<noteq> q_id e}" "q_posted ?s = q_posted s @ [(e, r)]" "set (q_todo ?s) \<subseteq> set es"
      unfolding evicted(3) by (simp_all add: drain_end_def idb_delete_set)
    have "x \<in> set (q_store ?s) \<or> (\<exists>r. (x, r) \<in> set (q_posted ?s) \<and> evicting r)" if "x \<in> set xs" for x
    proof (cases "x = e")
      case False
      then have "q_id x \<noteq> q_id e" using same that by blast
      then show ?thesis using assms(1) that by (auto simp: accounted_def new)
    qed (use \<open>evicting r\<close> new(2) in auto)
    then show ?thesis using assms(1) Cons by (auto simp: accounted_def new(1,2) dest: subsetD [OF new(3)])
  qed
qed (use assms in \<open>simp add: drain_answer_def\<close>)

lemma step_accounted:
  assumes "accounted xs s" and "distinct (map q_id (xs @ queued [e]))"
  shows "accounted (xs @ queued [e]) (queue_step s e)"
proof (cases e)
  case (Queued now period x)
  let ?x = "x\<lparr>q_queuedAt := Some now, q_period := Some period\<rparr>"
  have "q_id ?x \<notin> q_id ` set (q_store s)" using assms Queued by (auto simp: accounted_def)
  then have "set (idb_put ?x (q_store s)) = insert ?x (set (q_store s))" by (rule idb_put_set)
  then show ?thesis using assms(1) Queued by (auto simp: accounted_def enqueueSubmission_def)
next
  case (Answered r d)
  then show ?thesis using answer_accounted [OF assms(1), of r d] assms(2) by simp
qed (use assms(1) in \<open>auto simp: accounted_def drain_start_def drain_loaded_def drain_end_def Let_def\<close>)

lemma run_accounted:
  "distinct (map q_id (queued es)) \<Longrightarrow> accounted (queued es) (run_queue empty_queue es)"
proof (induction es rule: rev_induct)
  case Nil
  then show ?case by (simp add: accounted_def empty_queue_def)
next
  case (snoc e es)
  then have "accounted (queued es) (run_queue empty_queue es)" by simp
  from step_accounted [OF this] snoc.prems show ?case by simp
qed

text \<open>C9: no submission leaves the queue unanswered. Over any schedule of queueing under fresh ids, drains started, answers
  of any kind, deletes that fail and connectivity lost and found, every submission queued is in the queue as it was
  queued, or was posted exactly so and got an answer in the 200s, a conflict or a duplicate.\<close>
theorem nothing_lost_unanswered:
  assumes "distinct (map q_id (queued es))" and "e \<in> set (queued es)"
  shows "e \<in> set (q_store (run_queue empty_queue es)) \<or>
    (\<exists>res. (e, Some res) \<in> set (q_posted (run_queue empty_queue es)) \<and> (status res = 409 \<or> 200 \<le> status res \<and> status res < 300
      \<or> (\<exists>d. body res = Some (JObj d) \<and> field d ''error'' = JStr ''duplicate_submission'')))"
  using run_accounted [OF assms(1)] assms(2) by (fastforce simp: accounted_def evicting_def split: option.splits)

section \<open>A drain ends, and clears what it loaded\<close>

definition drain_shape :: "queue \<Rightarrow> bool" where
  "drain_shape s \<longleftrightarrow> (q_draining s \<longleftrightarrow> q_loading s \<or> q_todo s \<noteq> []) \<and> \<not> (q_loading s \<and> q_todo s \<noteq> [])"

lemma step_shape: "drain_shape s \<Longrightarrow> drain_shape (queue_step s e)"
proof (cases e)
  case (Answered r d)
  assume s: "drain_shape s"
  show ?thesis
  proof (cases "q_todo s")
    case (Cons x xs)
    from Cons show ?thesis using s Answered Cons
      by (cases rule: answer_cases [where r = r and deleted = d]) (auto simp: drain_shape_def drain_end_def)
  qed (use s Answered in \<open>simp add: drain_answer_def\<close>)
next
  case (Loaded b)
  assume "drain_shape s"
  moreover have "sort_key queued_key (q_store s) = [] \<longleftrightarrow> q_store s = []" by (metis length_0_conv length_sort)
  ultimately show ?thesis using Loaded by (auto simp: drain_shape_def drain_loaded_def drain_end_def Let_def)
qed (auto simp: drain_shape_def enqueueSubmission_def drain_start_def)

lemma reached_shape: "drain_shape (run_queue empty_queue es)"
  by (rule queue_invariant) (simp_all add: step_shape, simp add: drain_shape_def empty_queue_def)

definition answers :: "queue_event list \<Rightarrow> nat" where
  "answers es = length (filter (\<lambda>e. case e of Answered r d \<Rightarrow> True | _ \<Rightarrow> False) es)"

definition starts_drain :: "queue_event \<Rightarrow> bool" where
  "starts_drain e = (case e of Drain \<Rightarrow> True | Online b \<Rightarrow> b | _ \<Rightarrow> False)"

lemma todo_shrinks:
  "drain_shape s \<Longrightarrow> \<not> q_loading s \<Longrightarrow> \<forall>e \<in> set es. \<not> starts_drain e \<Longrightarrow>
   \<not> q_loading (run_queue s es) \<and> length (q_todo (run_queue s es)) \<le> length (q_todo s) - answers es"
proof (induction es arbitrary: s)
  case Nil
  then show ?case by (simp add: answers_def)
next
  case (Cons e es)
  have "\<not> q_loading (queue_step s e) \<and> length (q_todo (queue_step s e)) \<le> length (q_todo s) - answers [e]"
  proof (cases e)
    case (Answered r d)
    then show ?thesis
    proof (cases "q_todo s")
      case (Cons x xs)
      from Cons show ?thesis using Answered Cons.prems(2) Cons
        by (cases rule: answer_cases [where r = r and deleted = d]) (auto simp: drain_end_def answers_def \<open>\<not> q_loading s\<close>)
    qed (use Cons.prems in \<open>simp add: drain_answer_def answers_def\<close>)
  qed (use Cons.prems in \<open>auto simp: enqueueSubmission_def drain_loaded_def answers_def starts_drain_def\<close>)
  moreover have "answers (e # es) = answers [e] + answers es" by (simp add: answers_def)
  ultimately show ?case using Cons.IH [of "queue_step s e"] step_shape [OF Cons.prems(1), of e] Cons.prems(3) by fastforce
qed

text \<open>C35: a drain ends. Once it has read the queue, a drain is over after at most as many answers as there were entries,
  whatever they are and whatever is queued meanwhile; no drain holds the lock for good.\<close>
theorem drain_ends:
  assumes "s = run_queue empty_queue before" and "\<not> q_loading s" and "\<forall>e \<in> set es. \<not> starts_drain e" and "length (q_todo s) \<le> answers es"
  shows "\<not> q_draining (run_queue s es)"
proof -
  have sh: "drain_shape s" using assms(1) reached_shape by simp
  have "drain_shape (run_queue s es)" by (rule queue_invariant [where P = drain_shape, OF sh]) (rule step_shape)
  moreover have "\<not> q_loading (run_queue s es) \<and> length (q_todo (run_queue s es)) \<le> 0"
    using todo_shrinks [OF sh assms(2,3)] assms(4) by simp
  ultimately show ?thesis by (simp add: drain_shape_def)
qed

lemma drain_all:
  assumes "\<forall>r \<in> set rs. \<not> refused r" and "length rs = length (q_todo s)" and "distinct (map q_id (q_todo s))" and "q_todo s \<noteq> []"
  shows "run_queue s (map (\<lambda>r. Answered r True) rs) = drain_end (s\<lparr>q_posted := q_posted s @ zip (q_todo s) rs,
    q_store := filter (\<lambda>x. q_id x \<notin> q_id ` set (q_todo s)) (q_store s)\<rparr>)"
  using assms
proof (induction rs arbitrary: s)
  case (Cons r rs)
  obtain e es where todo: "q_todo s = e # es" using Cons.prems(4) by (cases "q_todo s") auto
  from todo show ?case
  proof (cases rule: answer_cases [where r = r and deleted = True])
    case refused
    then show ?thesis using Cons.prems(1) by simp
  next
    case evicted
    show ?thesis
    proof (cases "es = []")
      case True
      then have "rs = []" using Cons.prems(2) todo by simp
      then show ?thesis using evicted(3) True todo by (simp add: idb_delete_def)
    next
      case False
      let ?s = "s\<lparr>q_posted := q_posted s @ [(e, r)], q_store := idb_delete (q_id e) (q_store s), q_todo := es\<rparr>"
      have "run_queue ?s (map (\<lambda>r. Answered r True) rs) = drain_end (?s\<lparr>q_posted := q_posted ?s @ zip (q_todo ?s) rs,
          q_store := filter (\<lambda>x. q_id x \<notin> q_id ` set (q_todo ?s)) (q_store ?s)\<rparr>)"
        by (rule Cons.IH) (use Cons.prems False todo in auto)
      then show ?thesis using evicted(3) False todo
        by (simp add: drain_end_def idb_delete_def)
    qed
  qed
qed simp

text \<open>a drain whose posts are all accepted clears the queue, oldest press first. From any state between drains, with
  the device online, the drain posts every waiting submission exactly once, in the order of the presses, and leaves
  the queue empty and the lock free.\<close>
theorem accepted_drain_clears:
  assumes "\<not> q_draining s" and "q_online s" and "distinct (map q_id (q_store s))" and "length rs = length (q_store s)"
    and "\<forall>r \<in> set rs. \<exists>v. api r = Inr v" and "s' = run_queue s (Drain # Loaded True # map (\<lambda>r. Answered r True) rs)"
  shows "q_store s' = [] \<and> \<not> q_draining s' \<and> q_cards s' = q_cards s
    \<and> q_posted s' = q_posted s @ zip (sort_key queued_key (q_store s)) rs \<and> sorted (map queued_key (sort_key queued_key (q_store s)))"
proof (cases "q_store s = []")
  case True
  then show ?thesis using assms by (simp add: drain_start_def drain_loaded_def drain_end_def)
next
  case False
  let ?es = "sort_key queued_key (q_store s)"
  let ?s = "s\<lparr>q_draining := True, q_loading := False, q_todo := ?es\<rparr>"
  have ne: "?es \<noteq> []" using False by (metis length_0_conv length_sort)
  have start: "queue_step (queue_step s Drain) (Loaded True) = ?s"
    using assms(1,2) ne by (simp add: drain_start_def drain_loaded_def Let_def)
  have "\<forall>r \<in> set rs. \<not> refused r" using assms(5) by (auto simp: refused_def)
  moreover have "distinct (map q_id ?es)" using assms(3) by (simp add: distinct_map)
  ultimately have "run_queue ?s (map (\<lambda>r. Answered r True) rs) = drain_end (?s\<lparr>q_posted := q_posted ?s @ zip (q_todo ?s) rs,
      q_store := filter (\<lambda>x. q_id x \<notin> q_id ` set (q_todo ?s)) (q_store ?s)\<rparr>)"
    by (intro drain_all) (use assms(4) ne in simp_all)
  moreover have "s' = run_queue ?s (map (\<lambda>r. Answered r True) rs)" unfolding assms(6) run_queue_simps start ..
  ultimately show ?thesis by (simp add: drain_end_def filter_empty_conv)
qed

section \<open>Two answers the drain mishandles\<close>

text \<open>an archived checklist's submission vanishes. The server answers a submission to an archived checklist with a
  conflict, which the API wrapper returns instead of throwing: the drain takes it for success. In no run is the card
  that says the responses were not submitted ever shown, and the entry so answered is deleted.\<close>
theorem archived_submission_vanishes:
  assumes "s = run_queue empty_queue es"
  shows "q_cards s = [] \<and> (q_todo s = e # rest \<longrightarrow>
    (let s' = queue_step s (Answered (Some \<lparr>status = 409, body = b\<rparr>) True) in e \<notin> set (q_store s') \<and> q_cards s' = []))"
proof -
  have step: "q_cards s = [] \<Longrightarrow> q_cards (queue_step s e) = []" for s e
  proof (cases e)
    case (Answered r d)
    assume c: "q_cards s = []"
    show ?thesis
    proof (cases "q_todo s")
      case (Cons x xs)
      from Cons show ?thesis using Answered c
        by (cases rule: answer_cases [where r = r and deleted = d]) (simp_all add: drain_end_def)
    qed (use Answered c in \<open>simp add: drain_answer_def\<close>)
  qed (simp_all add: enqueueSubmission_def drain_start_def drain_loaded_def drain_end_def Let_def)
  have "q_cards (run_queue empty_queue es) = []"
    by (rule queue_invariant [where P = "\<lambda>s. q_cards s = []"]) (simp add: empty_queue_def, rule step)
  then have c: "q_cards s = []" using assms by simp
  have "e \<notin> set (q_store (queue_step s (Answered (Some \<lparr>status = 409, body = b\<rparr>) True)))" if "q_todo s = e # rest"
    using that by (auto simp: drain_answer_def api_def drain_end_def idb_delete_def Let_def)
  moreover have "q_cards (queue_step s (Answered (Some \<lparr>status = 409, body = b\<rparr>) True)) = []" by (rule step [OF c])
  ultimately show ?thesis using c by (simp only: Let_def) blast
qed

text \<open>What keeps the oldest entry at the head of every drain, and alone in the posts.\<close>

definition stuck_on :: "entry \<Rightarrow> (entry \<times> http option) list \<Rightarrow> queue \<Rightarrow> bool" where
  "stuck_on e old s \<longleftrightarrow> e \<in> set (q_store s) \<and> (\<forall>x \<in> set (q_store s). x = e \<or> queued_key e < queued_key x)
     \<and> (q_todo s = [] \<or> hd (q_todo s) = e) \<and> (\<exists>rs. q_posted s = old @ map (Pair e) rs)"

lemma hd_oldest:
  assumes "e \<in> set xs" and "\<forall>x \<in> set xs. x = e \<or> queued_key e < queued_key x"
  shows "hd (sort_key queued_key xs) = e"
proof -
  have "sort_key queued_key xs \<noteq> []" using assms(1) by (metis length_0_conv length_sort list.size(3) length_greater_0_conv length_pos_if_in_set less_numeral_extra(3))
  then obtain y ys where s: "sort_key queued_key xs = y # ys" by (cases "sort_key queued_key xs") auto
  have "set (y # ys) = set xs" using s set_sort [of queued_key xs] by simp
  moreover have "sorted (map queued_key (y # ys))" using sorted_sort_key [of queued_key xs] s by simp
  ultimately have "y \<in> set xs" "queued_key y \<le> queued_key e" using assms(1) by auto
  then show ?thesis using assms(2) s by fastforce
qed

definition blocking :: "entry \<Rightarrow> queue_event \<Rightarrow> bool" where
  "blocking e ev \<longleftrightarrow> (case ev of
     Answered r d \<Rightarrow> refused r
   | Queued now period x \<Rightarrow> queued_key e < now \<and> q_id x \<noteq> q_id e
   | _ \<Rightarrow> True)"

lemma idb_put_keeps: "e \<in> set xs \<Longrightarrow> q_id x \<noteq> q_id e \<Longrightarrow> e \<in> set (idb_put x xs)"
  by (induction xs) auto

lemma step_stuck: "stuck_on e old s \<Longrightarrow> blocking e ev \<Longrightarrow> stuck_on e old (queue_step s ev)"
proof (cases ev)
  case (Queued now period x)
  assume s: "stuck_on e old s" and b: "blocking e ev"
  let ?x = "x\<lparr>q_queuedAt := Some now, q_period := Some period\<rparr>"
  have "queued_key e < queued_key ?x" using b Queued by (simp add: blocking_def queued_key_def)
  then show ?thesis using s b Queued idb_put_keeps [of e "q_store s" ?x] idb_put_sub [of ?x "q_store s"]
    by (auto simp: stuck_on_def enqueueSubmission_def blocking_def)
next
  case (Answered r d)
  assume s: "stuck_on e old s" and b: "blocking e ev"
  show ?thesis
  proof (cases "q_todo s")
    case (Cons x xs)
    then have x: "x = e" using s by (simp add: stuck_on_def)
    obtain rs where rs: "q_posted s = old @ map (Pair e) rs" using s by (auto simp: stuck_on_def)
    from Cons have "drain_answer r d s = drain_end (s\<lparr>q_posted := q_posted s @ [(x, r)]\<rparr>)"
      by (cases rule: answer_cases [where r = r and deleted = d]) (use Answered b in \<open>simp_all add: blocking_def\<close>)
    moreover have "q_posted s @ [(x, r)] = old @ map (Pair e) (rs @ [r])" using rs x by simp
    ultimately show ?thesis using s Answered unfolding stuck_on_def by (simp add: drain_end_def) (rule exI [of _ "rs @ [r]"], simp)
  qed (use s Answered in \<open>simp add: drain_answer_def\<close>)
next
  case (Loaded b)
  assume s: "stuck_on e old s"
  then have "hd (sort_key queued_key (q_store s)) = e" by (intro hd_oldest) (auto simp: stuck_on_def)
  then show ?thesis using s Loaded by (auto simp: stuck_on_def drain_loaded_def drain_end_def Let_def)
qed (auto simp: stuck_on_def drain_start_def)

text \<open>one refused submission blocks the queue for good. While the server refuses the oldest waiting submission, as it
  refuses one that misses a fail note, every drain stops at it: over any schedule, however many drains are started and
  whatever is queued behind it, nothing else is ever posted and it stays.\<close>
theorem refused_entry_blocks_queue:
  assumes "e \<in> set (q_store s)" and "\<forall>x \<in> set (q_store s). x = e \<or> queued_key e < queued_key x" and "q_todo s = []"
    and "\<forall>ev \<in> set es. blocking e ev"
  shows "e \<in> set (q_store (run_queue s es)) \<and> (\<exists>rs. q_posted (run_queue s es) = q_posted s @ map (Pair e) rs)"
proof -
  have "stuck_on e (q_posted s) s" using assms(1,2,3) by (simp add: stuck_on_def)
  then have "stuck_on e (q_posted s) (run_queue s es)"
    by (rule queue_invariant [where P = "stuck_on e (q_posted s)"]) (use assms(4) step_stuck in blast)
  then show ?thesis by (simp add: stuck_on_def)
qed

section \<open>Witnesses\<close>

definition press :: "string \<Rightarrow> entry" where
  "press i = \<lparr>q_id = i, q_template = ''t'', q_key = ''k'', q_responses = JArr [], q_queuedAt = None, q_period = None\<rparr>"

definition stamped :: "string \<Rightarrow> string \<Rightarrow> entry" where
  "stamped i now = (press i)\<lparr>q_queuedAt := Some now, q_period := Some ''d''\<rparr>"

theorem nothing_lost_unanswered_witness:
  "stamped ''b'' ''1'' \<in> set (q_store (run_queue empty_queue [Queued ''1'' ''d'' (press ''b''), Drain, Loaded True, Answered None True]))"
proof -
  let ?es = "[Queued ''1'' ''d'' (press ''b''), Drain, Loaded True, Answered None True]"
  have q: "queued ?es = [stamped ''b'' ''1'']" by (simp add: queued_def stamped_def)
  have p: "q_posted (run_queue empty_queue ?es) = [(stamped ''b'' ''1'', None)]" by code_simp
  show ?thesis using nothing_lost_unanswered [of ?es "stamped ''b'' ''1''"] unfolding q p by simp
qed

definition two_waiting :: queue where
  "two_waiting = empty_queue\<lparr>q_store := [stamped ''a'' ''2'', stamped ''b'' ''1'']\<rparr>"

theorem drain_ends_witness:
  "\<not> q_draining (run_queue empty_queue [Queued ''1'' ''d'' (press ''b''), Drain, Loaded True, Queued ''2'' ''d'' (press ''a''), Answered (Some \<lparr>status = 500, body = None\<rparr>) True])"
proof -
  let ?before = "[Queued ''1'' ''d'' (press ''b''), Drain, Loaded True]"
  let ?es = "[Queued ''2'' ''d'' (press ''a''), Answered (Some \<lparr>status = 500, body = None\<rparr>) True]"
  have "\<not> q_loading (run_queue empty_queue ?before)" "length (q_todo (run_queue empty_queue ?before)) \<le> answers ?es" by code_simp+
  then show ?thesis using drain_ends [of "run_queue empty_queue ?before" ?before ?es] by (simp add: starts_drain_def)
qed

theorem accepted_drain_clears_witness:
  "map fst (q_posted (run_queue two_waiting (Drain # Loaded True # map (\<lambda>r. Answered r True)
      [Some \<lparr>status = 201, body = Some JNull\<rparr>, Some \<lparr>status = 204, body = None\<rparr>]))) = [stamped ''b'' ''1'', stamped ''a'' ''2'']"
proof -
  have s: "sort_key queued_key (q_store two_waiting) = [stamped ''b'' ''1'', stamped ''a'' ''2'']"
    by (simp add: two_waiting_def queued_key_def stamped_def)
  have "\<forall>r \<in> set [Some \<lparr>status = 201, body = Some JNull\<rparr>, Some \<lparr>status = 204, body = None\<rparr>]. \<exists>v. api r = Inr v" by (simp add: api_def)
  from accepted_drain_clears [OF _ _ _ _ this refl, of two_waiting] show ?thesis
    unfolding s by (simp add: two_waiting_def empty_queue_def stamped_def press_def)
qed

theorem archived_submission_vanishes_witness:
  "q_store (run_queue empty_queue [Queued ''1'' ''d'' (press ''b''), Drain, Loaded True, Answered (Some \<lparr>status = 409, body = None\<rparr>) True]) = []
   \<and> stamped ''b'' ''1'' \<notin> set (q_store (run_queue empty_queue [Queued ''1'' ''d'' (press ''b''), Drain, Loaded True, Answered (Some \<lparr>status = 409, body = None\<rparr>) True]))"
proof -
  let ?es = "[Queued ''1'' ''d'' (press ''b''), Drain, Loaded True]"
  have todo: "q_todo (run_queue empty_queue ?es) = [stamped ''b'' ''1'']" by code_simp
  have "q_store (run_queue empty_queue (?es @ [Answered (Some \<lparr>status = 409, body = None\<rparr>) True])) = []" by code_simp
  then show ?thesis using archived_submission_vanishes [of "run_queue empty_queue ?es" ?es "stamped ''b'' ''1''" "[]" None] todo by (simp add: Let_def)
qed

theorem refused_entry_blocks_queue_witness:
  "\<exists>rs. q_posted (run_queue two_waiting [Drain, Loaded True, Answered (Some \<lparr>status = 400, body = None\<rparr>) True, Drain, Loaded True, Answered None True])
    = map (Pair (stamped ''b'' ''1'')) rs"
  using refused_entry_blocks_queue [of "stamped ''b'' ''1''" two_waiting
      "[Drain, Loaded True, Answered (Some \<lparr>status = 400, body = None\<rparr>) True, Drain, Loaded True, Answered None True]"]
  by (simp add: two_waiting_def empty_queue_def queued_key_def stamped_def blocking_def refused_def api_def error_of_def plain_error_def field_def)

end
