(* ===== verification/OpSocket.thy ===== *)
theory OpSocket
  imports Complex_Main
begin

text \<open>
  The WebSocket client of \<^verbatim>\<open>sync.js\<close>: connecting, backing off and coming back to a visible page. A socket is its place in
  the list of all sockets the page ever made; \<open>cur\<close> is the one the module's variable names; \<open>timers\<close> are the delays of the
  reconnects that are due. What the network and the browser do is the step relation.
\<close>

section \<open>State and handlers\<close>

definition WS_MAX_BACKOFF :: rat where "WS_MAX_BACKOFF = 30000"
definition WS_MAX_ATTEMPTS :: nat where "WS_MAX_ATTEMPTS = 15"

datatype ready_state = Connecting | Opened | Closing | Shut

record net =
  socks :: "ready_state list"
  cur :: "nat option"
  backoff :: rat
  attempts :: nat
  timers :: "rat list"
  catch_ups :: nat

definition net_init :: net where
  "net_init = \<lparr>socks = [], cur = None, backoff = 500, attempts = 0, timers = [], catch_ups = 0\<rparr>"

definition ws_url :: "string \<Rightarrow> string \<Rightarrow> string" where
  "ws_url protocol host = (if protocol = ''https:'' then ''wss://'' else ''ws://'') @ host @ ''/ws''"

definition wsConnect :: "net \<Rightarrow> net" where
  "wsConnect s = (if attempts s \<ge> WS_MAX_ATTEMPTS then s
     else s\<lparr>socks := socks s @ [Connecting], cur := Some (length (socks s))\<rparr>)"

text \<open>Draining and then catching up, whether or not the drain throws.\<close>

definition onopen :: "nat \<Rightarrow> net \<Rightarrow> net" where
  "onopen i s = s\<lparr>socks := (socks s)[i := Opened], backoff := 500, attempts := 0, catch_ups := catch_ups s + 1\<rparr>"

definition onclose :: "nat \<Rightarrow> rat \<Rightarrow> net \<Rightarrow> net" where
  "onclose i jitter s =
     (let delay = min (backoff s + jitter) WS_MAX_BACKOFF
      in s\<lparr>socks := (socks s)[i := Shut], backoff := min (backoff s * 2) WS_MAX_BACKOFF, attempts := attempts s + 1,
           timers := timers s @ [delay]\<rparr>)"

definition fire_timer :: "nat \<Rightarrow> net \<Rightarrow> net" where
  "fire_timer k s = wsConnect (s\<lparr>timers := take k (timers s) @ drop (Suc k) (timers s)\<rparr>)"

definition on_visible :: "net \<Rightarrow> net" where
  "on_visible s = (case cur s of
     None \<Rightarrow> wsConnect (s\<lparr>attempts := 0\<rparr>)
   | Some i \<Rightarrow>
       if socks s ! i = Shut \<or> socks s ! i = Closing then wsConnect (s\<lparr>attempts := 0\<rparr>)
       else if socks s ! i = Opened then s\<lparr>catch_ups := catch_ups s + 1\<rparr>
       else s)"

datatype net_event = Page_Init | Opening nat | Losing nat | Closing_Done nat rat | Timer nat | Visible

inductive net_step :: "net \<Rightarrow> net_event \<Rightarrow> net \<Rightarrow> bool" where
  inits: "net_step s Page_Init (wsConnect s)"
| opens: "i < length (socks s) \<Longrightarrow> socks s ! i = Connecting \<Longrightarrow> net_step s (Opening i) (onopen i s)"
| loses: "i < length (socks s) \<Longrightarrow> socks s ! i \<in> {Connecting, Opened} \<Longrightarrow> net_step s (Losing i) (s\<lparr>socks := (socks s)[i := Closing]\<rparr>)"
| closes: "i < length (socks s) \<Longrightarrow> socks s ! i \<noteq> Shut \<Longrightarrow> 0 \<le> jitter \<Longrightarrow> jitter < 1000 \<Longrightarrow>
    net_step s (Closing_Done i jitter) (onclose i jitter s)"
| due: "k < length (timers s) \<Longrightarrow> net_step s (Timer k) (fire_timer k s)"
| visits: "net_step s Visible (on_visible s)"

inductive net_run :: "net \<Rightarrow> net_event list \<Rightarrow> net \<Rightarrow> bool" where
  run_nil: "net_run s [] s"
| run_step: "net_step s e t \<Longrightarrow> net_run t es u \<Longrightarrow> net_run s (e # es) u"

inductive_simps net_step_simps: "net_step s Page_Init t" "net_step s (Opening i) t" "net_step s (Losing i) t"
  "net_step s (Closing_Done i j) t" "net_step s (Timer k) t" "net_step s Visible t"

inductive_simps net_run_Nil [simp]: "net_run s [] t"
inductive_simps net_run_Cons: "net_run s (e # es) t"

lemma net_run_append: "net_run s (es @ fs) u \<longleftrightarrow> (\<exists>t. net_run s es t \<and> net_run t fs u)"
  by (induction es arbitrary: s) (auto simp: net_run_Cons)

section \<open>Backing off\<close>

text \<open>The backoff is 500 doubled some number of times, at least as often as attempts are counted, and capped.\<close>

definition backs_off :: "net \<Rightarrow> bool" where
  "backs_off s \<longleftrightarrow> (\<exists>k \<ge> attempts s. backoff s = min (500 * 2 ^ k) WS_MAX_BACKOFF) \<and> (\<forall>d \<in> set (timers s). 500 \<le> d \<and> d \<le> WS_MAX_BACKOFF)"

lemma doubled: "min (min (500 * 2 ^ k) WS_MAX_BACKOFF * 2) WS_MAX_BACKOFF = min (500 * 2 ^ Suc k) WS_MAX_BACKOFF"
  by (auto simp: min_def WS_MAX_BACKOFF_def)

lemma backoff_least: "500 \<le> min (500 * 2 ^ k) WS_MAX_BACKOFF"
proof -
  have "(1 :: rat) \<le> 2 ^ k" by simp
  then show ?thesis by (simp add: WS_MAX_BACKOFF_def)
qed

lemma connect_backs_off: "backs_off s \<Longrightarrow> backs_off (wsConnect s)"
  by (simp add: backs_off_def wsConnect_def)

lemma step_backs_off:
  assumes "net_step s e t" and "backs_off s"
  shows "backs_off t"
  using assms
proof (cases rule: net_step.cases)
  case (opens i)
  then show ?thesis using assms(2) by (auto simp: backs_off_def onopen_def WS_MAX_BACKOFF_def intro!: exI [of _ 0])
next
  case (closes i jitter)
  obtain k where k: "attempts s \<le> k" "backoff s = min (500 * 2 ^ k) WS_MAX_BACKOFF" using assms(2) by (auto simp: backs_off_def)
  have "\<exists>k' \<ge> attempts s + 1. min (backoff s * 2) WS_MAX_BACKOFF = min (500 * 2 ^ k') WS_MAX_BACKOFF"
    using k(1) by (intro exI [of _ "Suc k"]) (simp add: k(2) doubled del: power_Suc)
  moreover have "500 \<le> min (backoff s + jitter) WS_MAX_BACKOFF"
    using backoff_least [of k] closes(5) unfolding k(2) by (simp add: WS_MAX_BACKOFF_def min_def)
  ultimately show ?thesis using closes(2) assms(2) by (auto simp: backs_off_def onclose_def Let_def)
next
  case (due k)
  have "backs_off (s\<lparr>timers := take k (timers s) @ drop (Suc k) (timers s)\<rparr>)"
    using assms(2) by (auto simp: backs_off_def dest: in_set_takeD in_set_dropD)
  then show ?thesis using due connect_backs_off by (simp add: fire_timer_def)
next
  case visits
  have "backs_off (s\<lparr>attempts := 0\<rparr>)" "backs_off (s\<lparr>catch_ups := n\<rparr>)" for n using assms(2) by (auto simp: backs_off_def)
  then show ?thesis using visits connect_backs_off assms(2) by (auto simp: on_visible_def split: option.split)
next
  case inits
  then show ?thesis using connect_backs_off [OF assms(2)] by simp
next
  case (loses i)
  then show ?thesis using assms(2) by (simp add: backs_off_def)
qed

lemma run_backs_off: "net_run s es t \<Longrightarrow> backs_off s \<Longrightarrow> backs_off t"
  by (induction rule: net_run.induct) (auto intro: step_backs_off)

text \<open>C40: every reconnect waits between half a second and half a minute. In every run of the page, whatever the sockets and
  the jitter do, every delay set is from 500 to 30000 milliseconds, and the backoff has doubled at least once per
  attempt counted until it reaches its cap.\<close>
theorem reconnect_delay_bounded:
  assumes "net_run net_init es s"
  shows "(\<forall>d \<in> set (timers s). 500 \<le> d \<and> d \<le> 30000) \<and> min (500 * 2 ^ attempts s) 30000 \<le> backoff s \<and> backoff s \<le> 30000"
proof -
  have "backs_off net_init" by (auto simp: backs_off_def net_init_def WS_MAX_BACKOFF_def intro!: exI [of _ 0])
  then have b: "backs_off s" using run_backs_off [OF assms] by blast
  then obtain k where k: "attempts s \<le> k" "backoff s = min (500 * 2 ^ k) WS_MAX_BACKOFF" by (auto simp: backs_off_def)
  have "(2 :: rat) ^ attempts s \<le> 2 ^ k" using k(1) by (intro power_increasing) simp_all
  then have "min (500 * 2 ^ attempts s) 30000 \<le> backoff s" unfolding k(2) WS_MAX_BACKOFF_def by (intro min.mono) simp_all
  moreover have "backoff s \<le> 30000" unfolding k(2) WS_MAX_BACKOFF_def by (rule min.cobounded2)
  ultimately show ?thesis using b by (simp add: backs_off_def WS_MAX_BACKOFF_def)
qed

section \<open>Giving up\<close>

definition unclosed :: "net \<Rightarrow> nat" where
  "unclosed s = length (filter (\<lambda>r. r \<noteq> Shut) (socks s))"

text \<open>A step of an unreachable server: a socket closes or a reconnect is due, and none opens.\<close>

definition failing :: "net \<Rightarrow> net \<Rightarrow> bool" where
  "failing s t \<longleftrightarrow> (\<exists>i j. net_step s (Closing_Done i j) t) \<or> (\<exists>k. net_step s (Timer k) t)"

definition failing_measure :: "net \<Rightarrow> nat \<times> nat \<times> nat" where
  "failing_measure s = (WS_MAX_ATTEMPTS - attempts s, if attempts s \<ge> WS_MAX_ATTEMPTS then unclosed s else 0, length (timers s))"

lemma unclosed_shut: "i < length (socks s) \<Longrightarrow> socks s ! i \<noteq> Shut \<Longrightarrow> Suc (length (filter (\<lambda>r. r \<noteq> Shut) ((socks s)[i := Shut]))) = unclosed s"
proof -
  have "i < length xs \<Longrightarrow> xs ! i \<noteq> Shut \<Longrightarrow> Suc (length (filter (\<lambda>r. r \<noteq> Shut) (xs[i := Shut]))) = length (filter (\<lambda>r. r \<noteq> Shut) xs)" for xs
    by (induction xs arbitrary: i) (auto split: nat.split)
  then show "i < length (socks s) \<Longrightarrow> socks s ! i \<noteq> Shut \<Longrightarrow> ?thesis" by (simp add: unclosed_def)
qed

lemma failing_decreases:
  assumes "failing s t"
  shows "(failing_measure t, failing_measure s) \<in> less_than <*lex*> (less_than <*lex*> less_than)"
proof -
  from assms consider (close) i j where "net_step s (Closing_Done i j) t" | (timer) k where "net_step s (Timer k) t"
    by (auto simp: failing_def)
  then show ?thesis
  proof cases
    case close
    then have t: "t = onclose i j s" "i < length (socks s)" "socks s ! i \<noteq> Shut" by (auto simp: net_step_simps)
    have "Suc (unclosed t) = unclosed s" using t unclosed_shut [of i s] by (simp add: unclosed_def onclose_def Let_def)
    then show ?thesis using t(1) by (auto simp: failing_measure_def onclose_def Let_def)
  next
    case timer
    then show ?thesis by (auto simp: net_step_simps failing_measure_def fire_timer_def wsConnect_def unclosed_def)
  qed
qed

text \<open>an unreachable server is not called for ever. There is no endless run of sockets closing and reconnects coming due
  without an opening or a visit to the page, from any state and however many sockets it has.\<close>
theorem reconnecting_ends: "wf {(t, s). failing s t}"
proof (rule wf_subset)
  show "wf (inv_image (less_than <*lex*> (less_than <*lex*> less_than)) failing_measure)" by auto
  show "{(t, s). failing s t} \<subseteq> inv_image (less_than <*lex*> (less_than <*lex*> less_than)) failing_measure"
    using failing_decreases by (auto simp: inv_image_def)
qed

section \<open>Coming back too early\<close>

text \<open>coming back to the page before a due reconnect leaves two sockets for good. In any state in which the current
  socket has closed and a reconnect is due, a visit to the page connects at once without clearing the timer, which
  then connects again: both sockets open, and every operation the server sends arrives once on each.\<close>
theorem early_visit_doubles_socket:
  assumes "cur s = Some i" and "socks s ! i = Shut" and "k < length (timers s)"
  shows "\<exists>t. net_run s [Visible, Timer k, Opening (length (socks s)), Opening (Suc (length (socks s)))] t
    \<and> socks t = socks s @ [Opened, Opened] \<and> cur t = Some (Suc (length (socks s)))"
  using assms
  by (auto simp: net_run_Cons net_step_simps on_visible_def fire_timer_def wsConnect_def onopen_def WS_MAX_ATTEMPTS_def nth_append list_update_append)

section \<open>Witnesses\<close>

lemma first_failure: "net_run net_init [Page_Init, Closing_Done 0 7]
    \<lparr>socks = [Shut], cur = Some 0, backoff = 1000, attempts = 1, timers = [507], catch_ups = 0\<rparr>"
  by (simp add: net_run_Cons net_step_simps net_init_def wsConnect_def onclose_def WS_MAX_ATTEMPTS_def WS_MAX_BACKOFF_def Let_def)

theorem reconnect_delay_bounded_witness: "(500 :: rat) \<le> 507 \<and> (507 :: rat) \<le> 30000 \<and> min (500 * 2 ^ 1) 30000 \<le> (1000 :: rat)"
  using reconnect_delay_bounded [OF first_failure] by simp

theorem early_visit_doubles_socket_witness:
  "\<exists>t. net_run net_init [Page_Init, Closing_Done 0 7, Visible, Timer 0, Opening 1, Opening 2] t \<and> socks t = [Shut, Opened, Opened]"
proof -
  let ?s = "\<lparr>socks = [Shut], cur = Some 0, backoff = 1000, attempts = 1, timers = [507], catch_ups = 0\<rparr>"
  have "\<exists>t. net_run ?s [Visible, Timer 0, Opening (length (socks ?s)), Opening (Suc (length (socks ?s)))] t
      \<and> socks t = socks ?s @ [Opened, Opened] \<and> cur t = Some (Suc (length (socks ?s)))"
    by (rule early_visit_doubles_socket [where i = 0 and k = 0]) simp_all
  then show ?thesis using first_failure net_run_append [of net_init "[Page_Init, Closing_Done 0 7]" "[Visible, Timer 0, Opening 1, Opening 2]"]
    by (auto simp: numeral_2_eq_2)
qed

end
