(* ===== verification/OpApply.thy ===== *)
theory OpApply
  imports Complex_Main OpQueue OpJournal SyncScope
begin

text \<open>
  What an operation from the server does to the page: \<open>applyOp\<close> of \<^verbatim>\<open>sync.js\<close> on the globals of \<^verbatim>\<open>workflows.html\<close> it reads
  and writes, with the page's functions it calls as effects. A date is its milliseconds, or \<open>None\<close> when it does not
  parse; comparing with such a date is false.
\<close>

section \<open>The page\<close>

record response =
  r_value :: json
  r_by :: string
  r_at :: "ms option"
  r_subs :: "doc option"

record draft =
  d_field :: string
  d_value :: json
  d_at :: "ms option"

record fail_note =
  n_note :: json
  n_severity :: json
  n_photo :: json

text \<open>\<open>f_at\<close>: no rejection time, one that does not parse, or one that does.\<close>

record flag =
  f_requirePhoto :: bool
  f_at :: "ms option option"

datatype effect =
    Notified string | Render_Field string | Flash string | Toast string string nat | Update_Progress | Render_List
  | Load_My | Load_Approvals | Load_Templates | Rerender_Open bool string

record page =
  p_device :: "string option"
  p_responses :: "string \<Rightarrow> response option"
  p_drafts :: "draft list option"
  p_notes :: "string \<Rightarrow> fail_note option"
  p_photos :: "string \<Rightarrow> json option"
  p_flags :: "string \<Rightarrow> flag option"
  p_open :: "string option"
  p_effects :: "effect list"

definition eff :: "effect \<Rightarrow> page \<Rightarrow> page" where
  "eff e p = p\<lparr>p_effects := p_effects p @ [e]\<rparr>"

definition own_photo :: "page \<Rightarrow> string \<Rightarrow> bool" where
  "own_photo p fid = (case p_photos p fid of None \<Rightarrow> False | Some v \<Rightarrow> SyncScope.truthy v)"

definition fieldHasRequiredPhoto :: "page \<Rightarrow> string \<Rightarrow> bool" where
  "fieldHasRequiredPhoto p fid =
     (own_photo p fid \<or> (case p_responses p fid of
        None \<Rightarrow> False
      | Some r \<Rightarrow> (case r_value r of JStr s \<Rightarrow> take 8 s = ''https://'' | _ \<Rightarrow> False)))"

definition clearRejectionFlag :: "string \<Rightarrow> page \<Rightarrow> page" where
  "clearRejectionFlag fid p = (case p_flags p fid of
     None \<Rightarrow> p
   | Some f \<Rightarrow> if f_requirePhoto f \<and> \<not> fieldHasRequiredPhoto p fid then p else p\<lparr>p_flags := (p_flags p)(fid := None)\<rparr>)"

section \<open>One field's operation\<close>

record sop =
  o_device :: string
  o_type :: string
  o_ts :: int
  o_server :: "ms option"
  o_user :: string
  o_payload :: doc

text \<open>\<open>rejectedAt \<and> new Date(server_ts) \<le> new Date(rejectedAt)\<close>.\<close>

definition before_rejection :: "ms option \<Rightarrow> flag \<Rightarrow> bool" where
  "before_rejection server f = (case (f_at f, server) of (Some (Some r), Some t) \<Rightarrow> t \<le> r | _ \<Rightarrow> False)"

definition prop_of :: "json \<Rightarrow> string \<Rightarrow> json" where
  "prop_of v k = (case v of JObj d \<Rightarrow> field d k | _ \<Rightarrow> JUndef)"

definition or_else :: "json \<Rightarrow> json \<Rightarrow> json" where
  "or_else v d = (if SyncScope.truthy v then v else d)"

definition object_assign :: "json \<Rightarrow> doc" where
  "object_assign v = (case v of
     JObj d \<Rightarrow> d
   | JArr vs \<Rightarrow> zip (map digits10 [0..<length vs]) vs
   | JStr s \<Rightarrow> zip (map digits10 [0..<length s]) (map (\<lambda>c. JStr [c]) s)
   | _ \<Rightarrow> [])"

text \<open>The bundle the answer may travel in, and the answer.\<close>

definition bundled :: "json \<Rightarrow> bool" where
  "bundled v = (case v of JObj d \<Rightarrow> has_field d ''_v'' | _ \<Rightarrow> False)"

definition unwrap_photo :: "string \<Rightarrow> json \<Rightarrow> page \<Rightarrow> page" where
  "unwrap_photo fid v p =
     (if bundled v \<and> SyncScope.truthy (prop_of v ''_correction_photo'')
      then p\<lparr>p_photos := (p_photos p)(fid \<mapsto> prop_of v ''_correction_photo'')\<rparr> else p)"

definition apply_note :: "string \<Rightarrow> json \<Rightarrow> page \<Rightarrow> page" where
  "apply_note fid v p = eff (Notified ''failNotes'')
     (let fn = prop_of v ''_fail_note'' in
      if SyncScope.truthy fn
      then p\<lparr>p_notes := (p_notes p)(fid \<mapsto> \<lparr>n_note = or_else (prop_of fn ''note'') (JStr []),
             n_severity = or_else (prop_of fn ''severity'') (JStr []), n_photo = or_else (prop_of fn ''photo'') JNull\<rparr>)\<rparr>
      else p\<lparr>p_notes := (p_notes p)(fid := None)\<rparr>)"

definition entry_of :: "json \<Rightarrow> string \<Rightarrow> ms option \<Rightarrow> response" where
  "entry_of v name server =
     (let answer = (if bundled v then prop_of v ''_v'' else v) in
      if prop_of answer ''value'' \<noteq> JUndef
      then \<lparr>r_value = prop_of answer ''value'', r_by = name, r_at = server,
            r_subs = (let s = prop_of answer ''sub_steps'' in if SyncScope.truthy s then Some (object_assign s) else None)\<rparr>
      else \<lparr>r_value = answer, r_by = name, r_at = server, r_subs = None\<rparr>)"

text \<open>The rule per sub-step: the entry and the page after the sub-steps named so far.\<close>

definition gate_sub :: "ms option \<Rightarrow> response \<times> page \<Rightarrow> string \<Rightarrow> response \<times> page" where
  "gate_sub server ep sid = (case ep of (e, p) \<Rightarrow> (case p_flags p sid of
     None \<Rightarrow> (e, p)
   | Some f \<Rightarrow>
       if before_rejection server f
       then (e\<lparr>r_subs := map_option (filter (\<lambda>(k, v). k \<noteq> sid)) (r_subs e), r_value := JBool False\<rparr>, p)
       else (e, clearRejectionFlag sid p)))"

definition gate_subs :: "ms option \<Rightarrow> response \<Rightarrow> page \<Rightarrow> response \<times> page" where
  "gate_subs server e p = (case r_subs e of None \<Rightarrow> (e, p) | Some d \<Rightarrow> foldl (gate_sub server) (e, p) (map fst d))"

fun save_draft :: "string \<Rightarrow> json \<Rightarrow> ms option \<Rightarrow> draft list \<Rightarrow> draft list" where
  "save_draft fid v tm [] = [\<lparr>d_field = fid, d_value = v, d_at = tm\<rparr>]"
| "save_draft fid v tm (d # ds) = (if d_field d = fid then d\<lparr>d_value := v, d_at := tm\<rparr> # ds else d # save_draft fid v tm ds)"

fun drop_draft :: "string \<Rightarrow> draft list \<Rightarrow> draft list" where
  "drop_draft fid [] = []"
| "drop_draft fid (d # ds) = (if d_field d = fid then ds else d # drop_draft fid ds)"

definition set_response :: "string \<Rightarrow> response option \<Rightarrow> page \<Rightarrow> page" where
  "set_response fid r p = eff (Notified ''fieldResponses'') (p\<lparr>p_responses := (p_responses p)(fid := r)\<rparr>)"

definition apply_uncheck :: "string \<Rightarrow> page \<Rightarrow> page" where
  "apply_uncheck fid p =
     (let p = set_response fid None p in case p_drafts p of
        None \<Rightarrow> p
      | Some ds \<Rightarrow> if \<exists>d \<in> set ds. d_field d = fid then eff (Notified ''draftResponses'') (p\<lparr>p_drafts := Some (drop_draft fid ds)\<rparr>) else p)"

definition apply_answer :: "string \<Rightarrow> json \<Rightarrow> string \<Rightarrow> ms option \<Rightarrow> page \<Rightarrow> page" where
  "apply_answer fid v name server p =
     (let flagged = p_flags p fid \<noteq> None;
          p1 = apply_note fid v (unwrap_photo fid v p)
      in case gate_subs server (entry_of v name server) p1 of (e, p2) \<Rightarrow>
        (let p3 = set_response fid (Some e) p2;
             p4 = (if flagged then clearRejectionFlag fid p3 else p3)
         in case p_drafts p4 of
           None \<Rightarrow> p4
         | Some ds \<Rightarrow> eff (Notified ''draftResponses'') (p4\<lparr>p_drafts := Some (save_draft fid v server ds)\<rparr>)))"

definition bounced :: "page \<Rightarrow> string \<Rightarrow> ms option \<Rightarrow> bool" where
  "bounced p fid server = (case p_flags p fid of None \<Rightarrow> False | Some f \<Rightarrow> before_rejection server f)"

definition payload_field :: "sop \<Rightarrow> string" where
  "payload_field x = (case field (o_payload x) ''field_id'' of JStr s \<Rightarrow> s | _ \<Rightarrow> ''undefined'')"

definition payload_name :: "sop \<Rightarrow> string" where
  "payload_name x = (case field (o_payload x) ''user_name'' of JStr s \<Rightarrow> if s \<noteq> [] then s else ''Someone'' | _ \<Rightarrow> ''Someone'')"

definition apply_set_field :: "sop \<Rightarrow> bool \<Rightarrow> page \<Rightarrow> page" where
  "apply_set_field x silent p =
     (let fid = payload_field x; v = field (o_payload x) ''value''; name = payload_name x in
      if bounced p fid (o_server x) then p
      else
        (let p1 = (if v = JNull \<or> v = JUndef then apply_uncheck fid p else apply_answer fid v name (o_server x) p);
             p2 = eff (Render_Field fid) p1;
             p3 = (if silent then p2 else eff (Toast (o_user x) name 1) (eff (Flash fid) p2))
         in if p_open p3 \<noteq> None then eff Update_Progress p3 else eff Render_List p3))"

section \<open>Every operation\<close>

definition applyOp :: "sop \<Rightarrow> bool \<Rightarrow> page \<Rightarrow> page" where
  "applyOp x silent p =
     (if p_device p = Some (o_device x) then p
      else if o_type x = ''SET_FIELD'' then apply_set_field x silent p
      else if o_type x = ''SUBMIT_CHECKLIST'' then (if p_open p \<noteq> None \<or> \<not> silent then eff Load_My p else p)
      else if o_type x = ''APPROVE_ITEM'' \<or> o_type x = ''REJECT_ITEM'' then
        (let p1 = eff Load_Approvals p in if p_open p \<noteq> None \<or> \<not> silent then eff Load_My p1 else p1)
      else if o_type x = ''SAVE_TEMPLATE'' \<or> o_type x = ''ARCHIVE_TEMPLATE'' then
        (let p1 = eff Load_Templates p in
         if p_open p \<noteq> None then eff (Rerender_Open silent (o_type x)) p1 else if \<not> silent then eff Load_My p1 else p1)
      else p)"

text \<open>\<open>rerenderOpenChecklistAfterSave\<close> once \<open>loadMyChecklists\<close> has settled: \<open>openId\<close> was read before it, \<open>today\<close> is the list it
  brought.\<close>

definition rerender_settled :: "string \<Rightarrow> string list \<Rightarrow> bool \<Rightarrow> string \<Rightarrow> page \<Rightarrow> page \<times> string option" where
  "rerender_settled openId today silent optype p =
     (if openId \<notin> set today
      then (eff Render_List (p\<lparr>p_open := None\<rparr>), if silent then None else Some ''This checklist was removed'')
      else (p, if \<not> silent \<and> optype = ''SAVE_TEMPLATE'' then Some ''Checklist updated'' else None))"

section \<open>Toasts and the save status\<close>

type_synonym toast_queue = "(string \<times> string \<times> nat) list"

definition enqueueSyncToast :: "string \<Rightarrow> string \<Rightarrow> nat \<Rightarrow> toast_queue \<Rightarrow> toast_queue" where
  "enqueueSyncToast userId userName n tq =
     (let key = (if userId \<noteq> [] then userId else ''_conflict'') in case map_of tq key of
        None \<Rightarrow> tq @ [(key, userName, n)]
      | Some (nm, k) \<Rightarrow> put key (nm, k + n) tq)"

definition flushSyncToast :: "bool \<Rightarrow> toast_queue \<Rightarrow> toast_queue \<times> string option" where
  "flushSyncToast viewing tq =
     ([], if tq = [] \<or> \<not> viewing then None
          else Some (join '', '' (map (\<lambda>(k, nm, n). digits10 n @ '' field'' @ (if n > 1 then ''s'' else []) @ '' updated by '' @ nm) tq)))"

text \<open>\<open>onmessage\<close>: the clock first, then the page.\<close>

definition onmessage :: "sop \<Rightarrow> clock option \<Rightarrow> page \<Rightarrow> clock option \<times> page" where
  "onmessage x c p = (map_option (receive (Some (o_ts x))) c, applyOp x False p)"

text \<open>The loop of \<open>wsCatchUp\<close> over what it fetched.\<close>

definition replay :: "sop list \<Rightarrow> clock \<Rightarrow> page \<Rightarrow> clock \<times> page" where
  "replay xs c p = foldl (\<lambda>(c, p) x. (receive (Some (o_ts x)) c, applyOp x True p)) (c, p) (sort_key o_ts xs)"

definition updateSaveStatus :: "int \<Rightarrow> int \<Rightarrow> int \<times> string" where
  "updateSaveStatus pending delta = (let n = max 0 (pending + delta) in (n, if n > 0 then ''pending'' else ''synced''))"

end
