(* ===== verification/OpApplyProps.thy ===== *)
theory OpApplyProps
  imports Complex_Main OpApply
begin

text \<open>
  What applying operations keeps: an answer bounced by an approver is not brought back by the operations that led to it, an
  operation delivered twice leaves the page as one, a replay is quiet; and the order of arrival decides between two
  operations, whatever their stamps.
\<close>

section \<open>What one operation leaves alone\<close>

lemma eff_fields [simp]:
  "p_device (eff e p) = p_device p" "p_responses (eff e p) = p_responses p" "p_drafts (eff e p) = p_drafts p"
  "p_notes (eff e p) = p_notes p" "p_photos (eff e p) = p_photos p" "p_flags (eff e p) = p_flags p" "p_open (eff e p) = p_open p"
  "p_effects (eff e p) = p_effects p @ [e]"
  by (simp_all add: eff_def)

lemma clear_fields [simp]:
  "p_device (clearRejectionFlag f p) = p_device p" "p_responses (clearRejectionFlag f p) = p_responses p"
  "p_drafts (clearRejectionFlag f p) = p_drafts p" "p_notes (clearRejectionFlag f p) = p_notes p"
  "p_photos (clearRejectionFlag f p) = p_photos p" "p_open (clearRejectionFlag f p) = p_open p" "p_effects (clearRejectionFlag f p) = p_effects p"
  by (simp_all add: clearRejectionFlag_def split: option.split)

lemma clear_other [simp]: "g \<noteq> f \<Longrightarrow> p_flags (clearRejectionFlag f p) g = p_flags p g"
  by (simp add: clearRejectionFlag_def split: option.split)

lemma note_fields [simp]:
  "p_device (apply_note f v p) = p_device p" "p_responses (apply_note f v p) = p_responses p" "p_drafts (apply_note f v p) = p_drafts p"
  "p_photos (apply_note f v p) = p_photos p" "p_flags (apply_note f v p) = p_flags p" "p_open (apply_note f v p) = p_open p"
  by (simp_all add: apply_note_def Let_def)

lemma photo_fields [simp]:
  "p_device (unwrap_photo f v p) = p_device p" "p_responses (unwrap_photo f v p) = p_responses p" "p_drafts (unwrap_photo f v p) = p_drafts p"
  "p_notes (unwrap_photo f v p) = p_notes p" "p_flags (unwrap_photo f v p) = p_flags p" "p_open (unwrap_photo f v p) = p_open p"
  "p_effects (unwrap_photo f v p) = p_effects p"
  by (simp_all add: unwrap_photo_def)

lemma set_response_fields [simp]:
  "p_device (set_response f r p) = p_device p" "p_responses (set_response f r p) = (p_responses p)(f := r)" "p_drafts (set_response f r p) = p_drafts p"
  "p_notes (set_response f r p) = p_notes p" "p_photos (set_response f r p) = p_photos p" "p_flags (set_response f r p) = p_flags p"
  "p_open (set_response f r p) = p_open p" "p_effects (set_response f r p) = p_effects p @ [Notified ''fieldResponses'']"
  by (simp_all add: set_response_def)

text \<open>The sub-steps' gate in one step: which sub-steps a rejection still covers, which flags the operation lifts.\<close>

definition stale :: "ms option \<Rightarrow> page \<Rightarrow> string \<Rightarrow> bool" where
  "stale server p sid = bounced p sid server"

definition lifts :: "ms option \<Rightarrow> page \<Rightarrow> string \<Rightarrow> bool" where
  "lifts server p sid = (case p_flags p sid of
     None \<Rightarrow> False
   | Some f \<Rightarrow> \<not> before_rejection server f \<and> \<not> (f_requirePhoto f \<and> \<not> fieldHasRequiredPhoto p sid))"

definition strip_sub :: "response \<Rightarrow> string \<Rightarrow> response" where
  "strip_sub e sid = e\<lparr>r_subs := map_option (filter (\<lambda>(k, v). k \<noteq> sid)) (r_subs e), r_value := JBool False\<rparr>"

lemma has_photo_flags [simp]: "fieldHasRequiredPhoto (p\<lparr>p_flags := F\<rparr>) sid = fieldHasRequiredPhoto p sid"
  by (simp add: fieldHasRequiredPhoto_def own_photo_def)

lemma gate_fold:
  "foldl (gate_sub server) (e, p) sids =
     (foldl strip_sub e (filter (stale server p) sids),
      p\<lparr>p_flags := (\<lambda>s. if s \<in> set sids \<and> lifts server p s then None else p_flags p s)\<rparr>)"
proof (induction sids arbitrary: e p)
  case Nil
  then show ?case by simp
next
  case (Cons sid sids)
  have one: "gate_sub server (e, p) sid = (if stale server p sid then strip_sub e sid else e,
      p\<lparr>p_flags := (\<lambda>s. if s = sid \<and> lifts server p s then None else p_flags p s)\<rparr>)"
    by (auto simp: gate_sub_def stale_def bounced_def lifts_def strip_sub_def clearRejectionFlag_def fun_eq_iff split: option.split)
  have same: "stale server (p\<lparr>p_flags := (\<lambda>s. if s = sid \<and> lifts server p s then None else p_flags p s)\<rparr>) = stale server p"
    by (auto simp: fun_eq_iff stale_def bounced_def lifts_def split: option.split)
  have lift: "lifts server (p\<lparr>p_flags := (\<lambda>s. if s = sid \<and> lifts server p s then None else p_flags p s)\<rparr>) s
      = (lifts server p s \<and> s \<noteq> sid)" for s
    by (auto simp: lifts_def split: option.split)
  show ?case unfolding foldl.simps one Cons.IH same lift by (auto simp: fun_eq_iff)
qed

definition sub_ids :: "response \<Rightarrow> string list" where
  "sub_ids e = (case r_subs e of None \<Rightarrow> [] | Some d \<Rightarrow> map fst d)"

lemma gate_form:
  "gate_subs server e p = (foldl strip_sub e (filter (stale server p) (sub_ids e)),
     p\<lparr>p_flags := (\<lambda>s. if s \<in> set (sub_ids e) \<and> lifts server p s then None else p_flags p s)\<rparr>)"
  by (simp add: gate_subs_def sub_ids_def gate_fold split: option.split)

text \<open>An answer, field by field: what lands, and on which page the flags are judged.\<close>

definition landed :: "json \<Rightarrow> string \<Rightarrow> ms option \<Rightarrow> page \<Rightarrow> response" where
  "landed v name server p = foldl strip_sub (entry_of v name server) (filter (stale server p) (sub_ids (entry_of v name server)))"

definition note_of :: "json \<Rightarrow> fail_note option" where
  "note_of v = (let fn = prop_of v ''_fail_note'' in
     if SyncScope.truthy fn
     then Some \<lparr>n_note = or_else (prop_of fn ''note'') (JStr []), n_severity = or_else (prop_of fn ''severity'') (JStr []),
            n_photo = or_else (prop_of fn ''photo'') JNull\<rparr>
     else None)"

definition judged :: "string \<Rightarrow> json \<Rightarrow> page \<Rightarrow> page" where
  "judged fid v p = (unwrap_photo fid v p)\<lparr>p_notes := (p_notes p)(fid := note_of v)\<rparr>"

lemma apply_note_form: "apply_note fid v p = eff (Notified ''failNotes'') (p\<lparr>p_notes := (p_notes p)(fid := note_of v)\<rparr>)"
  by (simp add: apply_note_def note_of_def Let_def)

lemma judged_fields [simp]:
  "p_device (judged f v p) = p_device p" "p_responses (judged f v p) = p_responses p" "p_drafts (judged f v p) = p_drafts p"
  "p_flags (judged f v p) = p_flags p" "p_open (judged f v p) = p_open p" "p_notes (judged f v p) = (p_notes p)(f := note_of v)"
  "p_effects (judged f v p) = p_effects p" "stale server (judged f v p) = stale server p"
  by (simp_all add: judged_def stale_def bounced_def fun_eq_iff)

lemma eff_judged [simp]: "lifts server (eff e p) = lifts server p" "stale server (eff e p) = stale server p"
proof -
  have "fieldHasRequiredPhoto (eff e p) s = fieldHasRequiredPhoto p s" for s
    by (simp add: fieldHasRequiredPhoto_def own_photo_def)
  then show "lifts server (eff e p) = lifts server p" "stale server (eff e p) = stale server p"
    by (auto simp: lifts_def stale_def bounced_def fun_eq_iff split: option.split)
qed

definition top_lift :: "string \<Rightarrow> json \<Rightarrow> string \<Rightarrow> ms option \<Rightarrow> page \<Rightarrow> (string \<Rightarrow> flag option) \<Rightarrow> page" where
  "top_lift fid v name server p F = (let q = (judged fid v p)\<lparr>p_flags := F, p_responses := (p_responses p)(fid \<mapsto> landed v name server p)\<rparr>
     in if p_flags p fid \<noteq> None then clearRejectionFlag fid q else q)"

lemma clear_flags_cong:
  "p_flags q = p_flags q' \<Longrightarrow> p_responses q = p_responses q' \<Longrightarrow> p_photos q = p_photos q' \<Longrightarrow>
   p_flags (clearRejectionFlag f q) = p_flags (clearRejectionFlag f q')"
  by (simp add: clearRejectionFlag_def fieldHasRequiredPhoto_def own_photo_def split: option.split)

definition lifted_flags :: "string \<Rightarrow> json \<Rightarrow> string \<Rightarrow> ms option \<Rightarrow> page \<Rightarrow> string \<Rightarrow> flag option" where
  "lifted_flags fid v name server p =
     (\<lambda>s. if s \<in> set (sub_ids (entry_of v name server)) \<and> lifts server (judged fid v p) s then None else p_flags p s)"

lemma answer_form:
  fixes fid v name server p
  defines "q \<equiv> apply_answer fid v name server p"
  shows "p_responses q = (p_responses p)(fid \<mapsto> landed v name server p)" "p_notes q = (p_notes p)(fid := note_of v)"
    "p_photos q = p_photos (judged fid v p)" "p_open q = p_open p" "p_device q = p_device p"
    "p_drafts q = map_option (save_draft fid v server) (p_drafts p)"
    "p_flags q = p_flags (top_lift fid v name server p (lifted_flags fid v name server p))"
    "\<exists>es. p_effects q = p_effects p @ map Notified es"
proof -
  let ?p2 = "(eff (Notified ''failNotes'') (judged fid v p))\<lparr>p_flags := lifted_flags fid v name server p\<rparr>"
  let ?p3 = "set_response fid (Some (landed v name server p)) ?p2"
  let ?p4 = "if p_flags p fid \<noteq> None then clearRejectionFlag fid ?p3 else ?p3"
  have n: "apply_note fid v (unwrap_photo fid v p) = eff (Notified ''failNotes'') (judged fid v p)"
    by (simp add: apply_note_form judged_def)
  have g: "gate_subs server (entry_of v name server) (eff (Notified ''failNotes'') (judged fid v p)) = (landed v name server p, ?p2)"
    by (simp add: gate_form landed_def lifted_flags_def cong: if_cong)
  have q: "q = (case p_drafts ?p4 of None \<Rightarrow> ?p4
      | Some ds \<Rightarrow> eff (Notified ''draftResponses'') (?p4\<lparr>p_drafts := Some (save_draft fid v server ds)\<rparr>))"
    by (simp add: q_def apply_answer_def n g Let_def)
  show "p_responses q = (p_responses p)(fid \<mapsto> landed v name server p)" "p_notes q = (p_notes p)(fid := note_of v)"
    "p_photos q = p_photos (judged fid v p)" "p_open q = p_open p" "p_device q = p_device p"
    "p_drafts q = map_option (save_draft fid v server) (p_drafts p)"
    unfolding q by (simp_all split: option.split)
  have "p_flags ?p4 = p_flags (top_lift fid v name server p (lifted_flags fid v name server p))"
    by (auto simp: top_lift_def Let_def intro!: clear_flags_cong)
  then show "p_flags q = p_flags (top_lift fid v name server p (lifted_flags fid v name server p))"
    unfolding q by (cases "p_flags p fid") (simp_all split: option.split)
  have "p_effects ?p4 = p_effects p @ map Notified [''failNotes'', ''fieldResponses'']" by simp
  then show "\<exists>es. p_effects q = p_effects p @ map Notified es"
    unfolding q by (cases "p_drafts ?p4")
      (auto intro: exI [of _ "[''failNotes'', ''fieldResponses'']"] exI [of _ "[''failNotes'', ''fieldResponses'', ''draftResponses'']"])
qed

lemma top_lift_fields [simp]:
  "p_device (top_lift f v nm sv p F) = p_device p" "p_responses (top_lift f v nm sv p F) = (p_responses p)(f \<mapsto> landed v nm sv p)"
  "p_notes (top_lift f v nm sv p F) = (p_notes p)(f := note_of v)" "p_photos (top_lift f v nm sv p F) = p_photos (judged f v p)"
  "p_open (top_lift f v nm sv p F) = p_open p"
  by (simp_all add: top_lift_def Let_def)

section \<open>A bounced answer stays bounced\<close>

lemma answer_keeps:
  assumes "p_flags p f = Some fl" and "before_rejection server fl" and "fid \<noteq> f"
  shows "p_flags (apply_answer fid v name server p) f = Some fl \<and> p_responses (apply_answer fid v name server p) f = p_responses p f"
proof -
  have "\<not> lifts server (judged fid v p) f" using assms(1,2) by (simp add: lifts_def)
  then show ?thesis using assms(1,3) by (simp add: answer_form top_lift_def Let_def lifted_flags_def)
qed

lemma uncheck_frame [simp]: "p_flags (apply_uncheck fid p) = p_flags p" "p_responses (apply_uncheck fid p) = (p_responses p)(fid := None)"
    "p_open (apply_uncheck fid p) = p_open p" "p_device (apply_uncheck fid p) = p_device p"
    "p_notes (apply_uncheck fid p) = p_notes p" "p_photos (apply_uncheck fid p) = p_photos p"
  by (simp_all add: apply_uncheck_def Let_def split: option.split)

lemma op_keeps_bounced:
  assumes "p_flags p f = Some fl" and "before_rejection (o_server x) fl"
  shows "p_flags (applyOp x silent p) f = Some fl \<and> p_responses (applyOp x silent p) f = p_responses p f"
proof -
  have "p_flags (apply_set_field x silent p) f = Some fl \<and> p_responses (apply_set_field x silent p) f = p_responses p f"
  proof (cases "bounced p (payload_field x) (o_server x)")
    case True
    then show ?thesis using assms(1) by (simp add: apply_set_field_def Let_def)
  next
    case False
    then have "payload_field x \<noteq> f" using assms by (auto simp: bounced_def)
    then show ?thesis using False answer_keeps [OF assms] assms(1) by (simp add: apply_set_field_def Let_def)
  qed
  then show ?thesis using assms(1) by (simp add: applyOp_def Let_def)
qed

text \<open>C16: a bounced answer stays bounced. While a field carries a rejection, no sequence of operations from at or before it,
  live or replayed, in any order and of any kind, on this field or carrying it as a sub-step, changes its answer or
  lifts its flag.\<close>
theorem bounced_answer_stays:
  assumes "p_flags p f = Some fl" and "f_at fl = Some (Some r)" and "\<forall>(x, silent) \<in> set xs. \<exists>t \<le> r. o_server x = Some t"
  shows "p_flags (foldl (\<lambda>p (x, silent). applyOp x silent p) p xs) f = Some fl
    \<and> p_responses (foldl (\<lambda>p (x, silent). applyOp x silent p) p xs) f = p_responses p f"
  using assms
proof (induction xs arbitrary: p)
  case (Cons xs0 xs)
  obtain x silent where x: "xs0 = (x, silent)" by fastforce
  have "before_rejection (o_server x) fl" using Cons.prems(2,3) x by (auto simp: before_rejection_def)
  from op_keeps_bounced [OF Cons.prems(1) this] Cons.IH [of "applyOp x silent p"] Cons.prems show ?case by (simp add: x)
qed simp

section \<open>A rejected sub-step\<close>

lemma strip_value: "r_value e = JBool False \<Longrightarrow> r_value (foldl strip_sub e sids) = JBool False"
  by (induction sids arbitrary: e) (simp_all add: strip_sub_def)

lemma strip_subs: "r_subs (foldl strip_sub e sids) = map_option (filter (\<lambda>(k, v). k \<notin> set sids)) (r_subs e)"
proof (induction sids arbitrary: e)
  case Nil
  then show ?case by (simp add: option.map_id0 [unfolded id_def] map_option_idI)
next
  case (Cons s sids)
  then show ?case by (simp add: strip_sub_def option.map_comp comp_def case_prod_unfold conj_commute)
qed

lemma strip_ids: "sub_ids (foldl strip_sub e sids) = filter (\<lambda>k. k \<notin> set sids) (sub_ids e)"
  by (simp add: sub_ids_def strip_subs filter_map comp_def case_prod_unfold split: option.split)

text \<open>An operation that carries a rejected sub-step's done-state from at or before the rejection lands without it, and the
  parent out of all-done.\<close>

lemma bounced_sub_stripped:
  assumes "bounced p sid server" and "sid \<in> set (sub_ids (entry_of v name server))"
  shows "r_value (landed v name server p) = JBool False \<and> sid \<notin> set (sub_ids (landed v name server p))"
proof -
  let ?ss = "filter (stale server p) (sub_ids (entry_of v name server))"
  have s: "sid \<in> set ?ss" using assms by (simp add: stale_def)
  then obtain x xs where ss: "?ss = x # xs" by (cases ?ss) auto
  have "r_value (landed v name server p) = JBool False"
    unfolding landed_def ss by (simp add: strip_value strip_sub_def)
  moreover have "sid \<notin> set (sub_ids (landed v name server p))"
    using s unfolding landed_def strip_ids by simp
  ultimately show ?thesis by simp
qed

section \<open>A replay is quiet\<close>

definition loud :: "effect \<Rightarrow> bool" where
  "loud e = (case e of Flash f \<Rightarrow> True | Toast u n k \<Rightarrow> True | Load_My \<Rightarrow> True | Rerender_Open s t \<Rightarrow> True | _ \<Rightarrow> False)"

lemma answer_effects: "\<exists>es. p_effects (apply_answer fid v name server p) = p_effects p @ es \<and> (\<forall>e \<in> set es. \<not> loud e)"
  using answer_form(8) [of fid v name server p] by (auto simp: loud_def)

lemma answer_open [simp]: "p_open (apply_answer fid v name server p) = p_open p" "p_device (apply_answer fid v name server p) = p_device p"
  by (simp_all add: answer_form)

definition quiet_on :: "page \<Rightarrow> page \<Rightarrow> bool" where
  "quiet_on p q \<longleftrightarrow> p_open q = p_open p \<and> (\<exists>es. p_effects q = p_effects p @ es \<and> (\<forall>e \<in> set es. \<not> loud e))"

lemma quiet_refl: "quiet_on p p"
  by (simp add: quiet_on_def)

lemma quiet_eff: "quiet_on p q \<Longrightarrow> \<not> loud e \<Longrightarrow> quiet_on p (eff e q)"
  unfolding quiet_on_def by (auto intro: exI [of _ "_ @ [e]"])

lemma quiet_trans: "quiet_on p q \<Longrightarrow> quiet_on q r \<Longrightarrow> quiet_on p r"
  unfolding quiet_on_def by (auto intro: exI [of _ "_ @ _"])

lemma uncheck_quiet: "quiet_on p (apply_uncheck fid p)"
  unfolding quiet_on_def by (auto simp: apply_uncheck_def Let_def loud_def split: option.split)

lemma answer_quiet: "quiet_on p (apply_answer fid v name server p)"
  using answer_effects [of fid v name server p] by (simp add: quiet_on_def)

lemma op_quiet: "p_open p = None \<Longrightarrow> quiet_on p (applyOp x True p)"
  by (auto simp: applyOp_def apply_set_field_def Let_def loud_def intro!: quiet_eff quiet_refl uncheck_quiet answer_quiet)

text \<open>catching up is quiet. Replaying any backlog with no checklist open flashes nothing, raises no toast and fetches the
  checklists not once, however many operations it holds; the clock ends above every one of them.\<close>
theorem replay_is_quiet:
  assumes "p_open p = None" and "ts c = Some n" and "replay xs c p = (c', p')"
  shows "\<exists>es. p_effects p' = p_effects p @ es \<and> (\<forall>e \<in> set es. \<not> loud e) \<and> (\<exists>m. ts c' = Some m \<and> (\<forall>x \<in> set xs. o_ts x < m))"
proof -
  have "p_open p = None \<Longrightarrow> ts c = Some n \<Longrightarrow> foldl (\<lambda>(c, p) x. (receive (Some (o_ts x)) c, applyOp x True p)) (c, p) ys = (c', p') \<Longrightarrow>
      \<exists>es m. p_effects p' = p_effects p @ es \<and> (\<forall>e \<in> set es. \<not> loud e) \<and> n \<le> m \<and> ts c' = Some m \<and> (\<forall>x \<in> set ys. o_ts x < m)" for ys
  proof (induction ys arbitrary: c p n)
    case (Cons y ys)
    have t: "ts (receive (Some (o_ts y)) c) = Some (max n (o_ts y) + 1)" using Cons.prems(2) by (simp add: receive_def js_max_def plus1_def Let_def)
    obtain es1 where q: "p_open (applyOp y True p) = None" "p_effects (applyOp y True p) = p_effects p @ es1" "\<forall>e \<in> set es1. \<not> loud e"
      using op_quiet [OF Cons.prems(1)] Cons.prems(1) by (auto simp: quiet_on_def)
    from Cons.IH [OF q(1) t] Cons.prems(3) obtain es m where "p_effects p' = p_effects (applyOp y True p) @ es" "\<forall>e \<in> set es. \<not> loud e"
      "max n (o_ts y) + 1 \<le> m" "ts c' = Some m" "\<forall>x \<in> set ys. o_ts x < m" by auto
    then show ?case using q by (intro exI [of _ "es1 @ es"] exI [of _ m]) auto
  qed simp
  from this [OF assms(1,2), of "sort_key o_ts xs"] assms(3) show ?thesis by (auto simp: replay_def)
qed

section \<open>Twice is once\<close>

lemma photo_cong: "p_photos p s = p_photos q s \<Longrightarrow> p_responses p s = p_responses q s \<Longrightarrow> fieldHasRequiredPhoto p s = fieldHasRequiredPhoto q s"
  by (simp add: fieldHasRequiredPhoto_def own_photo_def)

lemma answer_flags_other:
  "s \<noteq> fid \<Longrightarrow> p_flags (apply_answer fid v name server p) s =
     (if s \<in> set (sub_ids (entry_of v name server)) \<and> lifts server (judged fid v p) s then None else p_flags p s)"
  by (simp add: answer_form top_lift_def Let_def lifted_flags_def)

lemma answer_flags_top:
  assumes "fid \<notin> set (sub_ids (entry_of v name server))"
  shows "p_flags (apply_answer fid v name server p) fid = (case p_flags p fid of
     None \<Rightarrow> None
   | Some f \<Rightarrow> if f_requirePhoto f \<and> \<not> fieldHasRequiredPhoto (apply_answer fid v name server p) fid then Some f else None)"
proof -
  let ?q = "(judged fid v p)\<lparr>p_flags := lifted_flags fid v name server p, p_responses := (p_responses p)(fid \<mapsto> landed v name server p)\<rparr>"
  have "fieldHasRequiredPhoto ?q fid = fieldHasRequiredPhoto (apply_answer fid v name server p) fid"
    by (rule photo_cong) (simp_all add: answer_form)
  moreover have "p_flags (apply_answer fid v name server p) fid = (if p_flags p fid \<noteq> None then p_flags (clearRejectionFlag fid ?q) fid else None)"
    using assms by (simp add: answer_form top_lift_def Let_def lifted_flags_def)
  moreover have "lifted_flags fid v name server p fid = p_flags p fid" using assms by (simp add: lifted_flags_def)
  ultimately show ?thesis by (simp add: clearRejectionFlag_def split: option.split)
qed

lemma save_draft_twice: "save_draft fid v tm (save_draft fid v tm ds) = save_draft fid v tm ds"
  by (induction ds) simp_all

lemma unwrap_twice: "p_photos (judged fid v q) = p_photos q" if "p_photos q = p_photos (judged fid v p)"
  using that by (auto simp: judged_def unwrap_photo_def fun_eq_iff split: if_splits)

lemma page_eq:
  fixes p q :: page
  assumes "p_device p = p_device q" "p_responses p = p_responses q" "p_drafts p = p_drafts q" "p_notes p = p_notes q"
    "p_photos p = p_photos q" "p_flags p = p_flags q" "p_open p = p_open q"
  shows "p\<lparr>p_effects := es\<rparr> = q\<lparr>p_effects := es\<rparr>"
  using assms by (cases p; cases q) simp

lemma answer_twice:
  assumes "fid \<notin> set (sub_ids (entry_of v name server))" and "q = apply_answer fid v name server p"
    and same: "p_device q' = p_device q" "p_responses q' = p_responses q" "p_drafts q' = p_drafts q" "p_notes q' = p_notes q"
      "p_photos q' = p_photos q" "p_flags q' = p_flags q" "p_open q' = p_open q"
  shows "(apply_answer fid v name server q')\<lparr>p_effects := es\<rparr> = q\<lparr>p_effects := es\<rparr>"
proof -
  let ?e = "entry_of v name server" and ?r = "apply_answer fid v name server q'"
  note q = answer_form [of fid v name server p, folded assms(2)]
  have photos: "p_photos (judged fid v q') = p_photos q"
    using unwrap_twice [of q' fid v p] same(5) q(3) by simp
  have flag: "p_flags q s = (if s \<in> set (sub_ids ?e) \<and> lifts server (judged fid v p) s then None else p_flags p s)" if "s \<noteq> fid" for s
    using answer_flags_other [OF that] assms(2) by simp
  have "stale server q' s = stale server p s" if "s \<in> set (sub_ids ?e)" for s
  proof -
    have "s \<noteq> fid" using that assms(1) by auto
    from flag [OF this] show ?thesis using same(6) by (auto simp: stale_def bounced_def lifts_def split: option.splits)
  qed
  then have landed: "landed v name server q' = landed v name server p" by (simp add: landed_def cong: filter_cong)
  have resp: "p_responses ?r = p_responses q" using same(2) q(1) landed by (simp add: answer_form fun_eq_iff)
  have ph: "p_photos ?r = p_photos q" using photos by (simp add: answer_form)
  have "p_flags ?r s = p_flags q s" for s
  proof (cases "s = fid")
    case True
    have "fieldHasRequiredPhoto ?r fid = fieldHasRequiredPhoto q fid" by (rule photo_cong) (simp_all add: resp ph)
    then show ?thesis
      using answer_flags_top [OF assms(1), of q'] answer_flags_top [OF assms(1), of p] assms(2) same(6) True
      by (simp split: option.splits)
  next
    case False
    have "fieldHasRequiredPhoto (judged fid v q') s = fieldHasRequiredPhoto (judged fid v p) s"
      by (rule photo_cong) (use photos q(1,3) same(2) False in simp_all)
    then show ?thesis
      using answer_flags_other [OF False, of v name server q'] flag [OF False] same(6)
      by (auto simp: lifts_def split: option.splits)
  qed
  then show ?thesis
    using resp ph same q by (intro page_eq) (simp_all add: answer_form landed fun_eq_iff option.map_comp comp_def save_draft_twice option.map_id)
qed

lemma uncheck_drafts: "p_drafts (apply_uncheck fid p) = map_option (drop_draft fid) (p_drafts p)"
proof -
  have "\<forall>d \<in> set ds. d_field d \<noteq> fid \<Longrightarrow> drop_draft fid ds = ds" for ds by (induction ds) auto
  then show ?thesis by (auto simp: apply_uncheck_def Let_def split: option.split)
qed

definition state_of :: "page \<Rightarrow> page" where
  "state_of p = p\<lparr>p_effects := []\<rparr>"

lemma state_eff [simp]: "state_of (eff e p) = state_of p"
  by (simp add: state_of_def eff_def)

lemma state_fields:
  assumes "state_of p = state_of q"
  shows "p_device p = p_device q" "p_responses p = p_responses q" "p_drafts p = p_drafts q" "p_notes p = p_notes q"
    "p_photos p = p_photos q" "p_flags p = p_flags q" "p_open p = p_open q"
  using assms by (cases p; cases q; simp add: state_of_def)+

text \<open>A page's drafts hold a field once.\<close>

definition drafts_once :: "page \<Rightarrow> bool" where
  "drafts_once p = (case p_drafts p of None \<Rightarrow> True | Some ds \<Rightarrow> distinct (map d_field ds))"

lemma drop_draft_once: "distinct (map d_field ds) \<Longrightarrow> drop_draft fid (drop_draft fid ds) = drop_draft fid ds"
proof -
  have gone: "g \<notin> d_field ` set ds \<Longrightarrow> drop_draft g ds = ds" for g ds by (induction ds) auto
  show "distinct (map d_field ds) \<Longrightarrow> ?thesis" by (induction ds) (auto simp: gone)
qed

lemma set_field_state:
  assumes "\<not> bounced p (payload_field x) (o_server x)"
  shows "state_of (apply_set_field x silent p) = state_of (let v = field (o_payload x) ''value'' in
    if v = JNull \<or> v = JUndef then apply_uncheck (payload_field x) p else apply_answer (payload_field x) v (payload_name x) (o_server x) p)"
  using assms by (simp add: apply_set_field_def Let_def)

lemma not_bounced_after:
  assumes "\<not> bounced p fid server" and "fid \<notin> set (sub_ids (entry_of v name server))" and "p_flags q = p_flags (apply_answer fid v name server p)"
  shows "\<not> bounced q fid server"
  using assms answer_flags_top [OF assms(2), of p] by (auto simp: bounced_def split: option.splits if_splits)

text \<open>C29: an operation delivered twice leaves the page as one. Whatever its kind, its value and the flags, live or
  replayed, applying an operation again changes no answer, draft, note, photo, flag or open checklist, as long as a
  field is not its own sub-step and the drafts hold it once.\<close>
theorem applied_twice_is_once:
  assumes "payload_field x \<notin> set (sub_ids (entry_of (field (o_payload x) ''value'') (payload_name x) (o_server x)))" and "drafts_once p"
  shows "state_of (applyOp x again (applyOp x silent p)) = state_of (applyOp x silent p)"
proof -
  let ?f = "payload_field x" and ?v = "field (o_payload x) ''value''" and ?n = "payload_name x" and ?t = "o_server x"
  have "state_of (apply_set_field x again (apply_set_field x silent p)) = state_of (apply_set_field x silent p)"
  proof (cases "bounced p ?f ?t")
    case True
    then show ?thesis by (simp add: apply_set_field_def Let_def)
  next
    case False
    let ?q' = "apply_set_field x silent p"
    show ?thesis
    proof (cases "?v = JNull \<or> ?v = JUndef")
      case True
      then have q: "state_of ?q' = state_of (apply_uncheck ?f p)" using set_field_state [OF False] by (simp add: Let_def)
      note sf = state_fields [OF q]
      have "\<not> bounced ?q' ?f ?t" using False by (simp add: bounced_def sf)
      from set_field_state [OF this, of again] True have "state_of (apply_set_field x again ?q') = state_of (apply_uncheck ?f ?q')" by (auto simp: Let_def)
      also have "\<dots> = state_of (apply_uncheck ?f p)" unfolding state_of_def
        by (rule page_eq) (use assms(2) in \<open>auto simp: sf uncheck_drafts drafts_once_def drop_draft_once option.map_comp split: option.splits\<close>)
      finally show ?thesis using q by simp
    next
      case v: False
      then have q: "state_of ?q' = state_of (apply_answer ?f ?v ?n ?t p)" using set_field_state [OF False] by (simp add: Let_def)
      note sf = state_fields [OF q]
      have "\<not> bounced ?q' ?f ?t" by (rule not_bounced_after [OF False assms(1) sf(6)])
      from set_field_state [OF this, of again] v have "state_of (apply_set_field x again ?q') = state_of (apply_answer ?f ?v ?n ?t ?q')" by (auto simp: Let_def)
      also have "\<dots> = state_of (apply_answer ?f ?v ?n ?t p)"
        using answer_twice [OF assms(1) refl sf, of "[]"] by (simp add: state_of_def)
      finally show ?thesis using q by simp
    qed
  qed
  moreover have "p_device (apply_set_field x silent p) = p_device p" by (simp add: apply_set_field_def Let_def)
  ultimately show ?thesis by (simp add: applyOp_def Let_def)
qed

section \<open>The order of arrival decides\<close>

definition plain_value :: "json \<Rightarrow> bool" where
  "plain_value v = (case v of JObj d \<Rightarrow> False | JNull \<Rightarrow> False | JUndef \<Rightarrow> False | _ \<Rightarrow> True)"

definition sets :: "sop \<Rightarrow> string \<Rightarrow> json \<Rightarrow> bool" where
  "sets x f v \<longleftrightarrow> o_type x = ''SET_FIELD'' \<and> payload_field x = f \<and> field (o_payload x) ''value'' = v \<and> plain_value v"

lemma sets_response:
  assumes "sets x f v" and "p_device p \<noteq> Some (o_device x)" and "p_flags p f = None"
  shows "map_option r_value (p_responses (applyOp x silent p) f) = Some v \<and> p_flags (applyOp x silent p) f = None \<and> p_device (applyOp x silent p) = p_device p"
proof -
  have v: "prop_of v k = JUndef" "bundled v = False" "v \<noteq> JNull" "v \<noteq> JUndef" for k
    using assms(1) by (auto simp: sets_def plain_value_def prop_of_def bundled_def split: json.splits)
  have e: "entry_of v name server = \<lparr>r_value = v, r_by = name, r_at = server, r_subs = None\<rparr>" for name server
    by (simp add: entry_of_def v Let_def)
  have subs: "sub_ids (entry_of v name server) = []" for name server by (simp add: e sub_ids_def)
  have land: "landed v name server p = entry_of v name server" for name server by (simp add: landed_def subs)
  have nb: "\<not> bounced p f (o_server x)" using assms(3) by (simp add: bounced_def)
  have "p_flags (apply_answer f v (payload_name x) (o_server x) p) f = None"
    using answer_flags_top [of f v "payload_name x" "o_server x" p] assms(3) by (simp add: subs)
  moreover have "r_value (entry_of v name server) = v" for name server by (simp add: e)
  ultimately show ?thesis using assms v(3,4) nb
    by (simp add: sets_def applyOp_def apply_set_field_def Let_def answer_form(1) land)
qed

text \<open>a live operation that overtakes a catch-up is overwritten by it. When an operation on a field arrives live while a
  catch-up is still being fetched, and the catch-up holds an older operation on the same field, the older value is what
  the page shows afterwards, for nothing compares their stamps; replayed together, in the order of their stamps, they
  leave the newer one.\<close>
theorem catch_up_overwrites_live:
  assumes "sets old f v" and "sets new f w" and "o_ts old < o_ts new" and "p_device p \<notin> {Some (o_device old), Some (o_device new)}" and "p_flags p f = None"
  shows "map_option r_value (p_responses (snd (replay [old] c (snd (onmessage new (Some c) p)))) f) = Some v
    \<and> map_option r_value (p_responses (snd (replay [new, old] c p)) f) = Some w"
proof -
  let ?live = "applyOp new False p"
  have l: "p_flags ?live f = None" "p_device ?live = p_device p"
    using sets_response [OF assms(2), of p False] assms(4,5) by auto
  have one: "map_option r_value (p_responses (applyOp old True ?live) f) = Some v"
    using sets_response [OF assms(1), of ?live True] l assms(4) by auto
  have o: "p_flags (applyOp old True p) f = None" "p_device (applyOp old True p) = p_device p"
    using sets_response [OF assms(1), of p True] assms(4,5) by auto
  have two: "map_option r_value (p_responses (applyOp new True (applyOp old True p)) f) = Some w"
    using sets_response [OF assms(2), of "applyOp old True p" True] o assms(4) by auto
  show ?thesis using one two assms(3) by (simp add: replay_def onmessage_def)
qed

text \<open>A checklist taken off today's schedule closes whatever is open when the reload comes back.\<close>

lemma removal_closes_other:
  "openId \<notin> set today \<Longrightarrow> p_open p = Some other \<Longrightarrow> p_open (fst (rerender_settled openId today silent optype p)) = None"
  by (simp add: rerender_settled_def)

section \<open>Witnesses\<close>

definition demo_page :: page where
  "demo_page = \<lparr>p_device = Some ''d'', p_responses = (\<lambda>_. None), p_drafts = Some [], p_notes = (\<lambda>_. None), p_photos = (\<lambda>_. None),
     p_flags = (\<lambda>_. None), p_open = None, p_effects = []\<rparr>"

definition answered :: "int \<Rightarrow> ms \<Rightarrow> json \<Rightarrow> sop" where
  "answered n t v = \<lparr>o_device = ''e'', o_type = ''SET_FIELD'', o_ts = n, o_server = Some t, o_user = ''u'',
     o_payload = [(''field_id'', JStr ''f''), (''value'', v)]\<rparr>"

theorem bounced_answer_stays_witness:
  "p_flags (foldl (\<lambda>p (x, silent). applyOp x silent p) (demo_page\<lparr>p_flags := [''f'' \<mapsto> \<lparr>f_requirePhoto = False, f_at = Some (Some 10)\<rparr>]\<rparr>)
     [(answered 1 9 (JBool True), True), (answered 2 10 JNull, False)]) ''f'' = Some \<lparr>f_requirePhoto = False, f_at = Some (Some 10)\<rparr>"
  using bounced_answer_stays [of "demo_page\<lparr>p_flags := [''f'' \<mapsto> \<lparr>f_requirePhoto = False, f_at = Some (Some 10)\<rparr>]\<rparr>" "''f''"
      "\<lparr>f_requirePhoto = False, f_at = Some (Some 10)\<rparr>" 10 "[(answered 1 9 (JBool True), True), (answered 2 10 JNull, False)]"]
  by (simp add: answered_def)

definition demo_op_clock :: clock where
  "demo_op_clock = \<lparr>ts = Some 0, deviceId = ''d'', stored = None, waiting = [], returned = []\<rparr>"

theorem replay_is_quiet_witness:
  "\<exists>m. ts (fst (replay [answered 3 9 (JBool True)] demo_op_clock demo_page)) = Some m \<and> 3 < m"
  using replay_is_quiet [of demo_page demo_op_clock 0 "[answered 3 9 (JBool True)]"
      "fst (replay [answered 3 9 (JBool True)] demo_op_clock demo_page)" "snd (replay [answered 3 9 (JBool True)] demo_op_clock demo_page)"]
  by (auto simp: demo_page_def demo_op_clock_def answered_def)

theorem applied_twice_is_once_witness:
  "state_of (applyOp (answered 3 9 (JBool True)) False (applyOp (answered 3 9 (JBool True)) False demo_page))
   = state_of (applyOp (answered 3 9 (JBool True)) False demo_page)"
  by (rule applied_twice_is_once)
    (simp_all add: demo_page_def drafts_once_def answered_def entry_of_def bundled_def prop_of_def sub_ids_def field_def Let_def)

theorem catch_up_overwrites_live_witness:
  "map_option r_value (p_responses (snd (replay [answered 3 9 (JBool True)] demo_op_clock
      (snd (onmessage (answered 4 10 (JBool False)) (Some demo_op_clock) demo_page)))) ''f'') = Some (JBool True)"
  using catch_up_overwrites_live [of "answered 3 9 (JBool True)" "''f''" "JBool True" "answered 4 10 (JBool False)" "JBool False" demo_page demo_op_clock]
  by (simp add: sets_def answered_def payload_field_def plain_value_def field_def demo_page_def)

end
