(* ===== verification/ApiCache.thy ===== *)
theory ApiCache
  imports Complex_Main Bootstrap OpStore
begin

text \<open>
  The API cache and who may read it. \<^verbatim>\<open>build-sw.js\<close> configures one network-first route for every API request of every page and
  partitions its cache by the identity on the device; \<^verbatim>\<open>index.html\<close> and \<^verbatim>\<open>login.html\<close> write and clear that identity; the
  route itself is the strategy of the service worker library in the tree. A step is a stretch between two awaits, of
  a request or of a page. An answer carries, for the statements only, the session whose cookie asked for it.
\<close>

section \<open>State\<close>

record answer =
  a_status :: nat
  a_body :: json
  a_for :: "string option"

text \<open>\<open>rq_net\<close> is the network's answer while its write is under way; \<open>rq_out\<close> what the page received.\<close>

record rq =
  rq_url :: string
  rq_for :: "string option"
  rq_timer :: bool
  rq_settled :: bool
  rq_rkey :: "string option"
  rq_wkey :: "string option"
  rq_net :: "answer option"
  rq_out :: "answer option"

text \<open>\<open>served\<close> lists the answers taken from the cache, each with the session the page had then.\<close>

record sw =
  session :: "string option"
  token :: "string option"
  readable :: bool
  api_cache :: "((string \<times> string) \<times> answer) list"
  requests :: "rq list"
  served :: "(answer \<times> string option) list"

definition sw_init :: sw where
  "sw_init = \<lparr>session = None, token = None, readable = True, api_cache = [], requests = [], served = []\<rparr>"

section \<open>The hooks\<close>

definition stored_token :: "sw \<Rightarrow> string option" where
  "stored_token s = (if readable s then token s else None)"

definition cacheKeyWillBeUsed :: "sw \<Rightarrow> string" where
  "cacheKeyWillBeUsed s = (case stored_token s of None \<Rightarrow> ''anon'' | Some t \<Rightarrow> if trim t \<noteq> [] then trim t else ''anon'')"

definition cacheWillUpdate :: "sw \<Rightarrow> answer \<Rightarrow> answer option" where
  "cacheWillUpdate s r = (case stored_token s of None \<Rightarrow> None | Some t \<Rightarrow> if trim t \<noteq> [] then Some r else None)"

definition handlerDidError :: answer where
  "handlerDidError = \<lparr>a_status = 503, a_body = JObj [(''error'', JStr ''offline'')], a_for = None\<rparr>"

section \<open>The strategy\<close>

definition set_rq :: "nat \<Rightarrow> (rq \<Rightarrow> rq) \<Rightarrow> sw \<Rightarrow> sw" where
  "set_rq i f s = s\<lparr>requests := (requests s)[i := f (requests s ! i)]\<rparr>"

text \<open>\<open>cacheMatch\<close>: the key is computed once per request and mode.\<close>

definition read_key :: "nat \<Rightarrow> sw \<Rightarrow> string" where
  "read_key i s = (case rq_rkey (requests s ! i) of Some k \<Rightarrow> k | None \<Rightarrow> cacheKeyWillBeUsed s)"

definition cacheMatch :: "nat \<Rightarrow> sw \<Rightarrow> sw \<times> answer option" where
  "cacheMatch i s = (let k = read_key i s in
     (set_rq i (rq_rkey_update (\<lambda>_. Some k)) s, map_of (api_cache s) (rq_url (requests s ! i), k)))"

definition respond :: "nat \<Rightarrow> answer \<Rightarrow> sw \<Rightarrow> sw" where
  "respond i a s = (if rq_out (requests s ! i) = None then set_rq i (rq_out_update (\<lambda>_. Some a)) s else s)"

definition respond_cached :: "nat \<Rightarrow> answer \<Rightarrow> sw \<Rightarrow> sw" where
  "respond_cached i a s =
     (if rq_out (requests s ! i) = None then (respond i a s)\<lparr>served := served s @ [(a, session s)]\<rparr> else s)"

definition ask :: "string \<Rightarrow> sw \<Rightarrow> sw" where
  "ask u s = s\<lparr>requests := requests s @ [\<lparr>rq_url = u, rq_for = session s, rq_timer = True, rq_settled = False,
     rq_rkey = None, rq_wkey = None, rq_net = None, rq_out = None\<rparr>]\<rparr>"

text \<open>Ten seconds without an answer.\<close>

definition on_timer :: "nat \<Rightarrow> sw \<Rightarrow> sw" where
  "on_timer i s =
     (if i < length (requests s) \<and> rq_timer (requests s ! i)
      then case cacheMatch i (set_rq i (rq_timer_update (\<lambda>_. False)) s) of
             (s1, None) \<Rightarrow> s1 | (s1, Some a) \<Rightarrow> respond_cached i a s1
      else s)"

definition on_network :: "nat \<Rightarrow> nat \<Rightarrow> json \<Rightarrow> sw \<Rightarrow> sw" where
  "on_network i st b s =
     (if i < length (requests s) \<and> \<not> rq_settled (requests s ! i)
      then let a = \<lparr>a_status = st, a_body = b, a_for = rq_for (requests s ! i)\<rparr>
           in respond i a (set_rq i (\<lambda>r. r\<lparr>rq_timer := False, rq_settled := True, rq_net := Some a\<rparr>) s)
      else s)"

definition on_failure :: "nat \<Rightarrow> sw \<Rightarrow> sw" where
  "on_failure i s =
     (if i < length (requests s) \<and> \<not> rq_settled (requests s ! i)
      then case cacheMatch i (set_rq i (\<lambda>r. r\<lparr>rq_timer := False, rq_settled := True\<rparr>) s) of
             (s1, None) \<Rightarrow> respond i handlerDidError s1 | (s1, Some a) \<Rightarrow> respond_cached i a s1
      else s)"

text \<open>\<open>cachePut\<close> in its two reads of the identity: the key, then whether to write.\<close>

definition write_key :: "nat \<Rightarrow> sw \<Rightarrow> sw" where
  "write_key i s =
     (if i < length (requests s) \<and> rq_net (requests s ! i) \<noteq> None \<and> rq_wkey (requests s ! i) = None
      then set_rq i (rq_wkey_update (\<lambda>_. Some (cacheKeyWillBeUsed s))) s else s)"

definition write_put :: "nat \<Rightarrow> sw \<Rightarrow> sw" where
  "write_put i s =
     (if i < length (requests s)
      then case (rq_net (requests s ! i), rq_wkey (requests s ! i)) of
        (Some a, Some k) \<Rightarrow>
          (let s1 = set_rq i (rq_net_update (\<lambda>_. None)) s in
           case cacheWillUpdate s a of None \<Rightarrow> s1 | Some a' \<Rightarrow> s1\<lparr>api_cache := put (rq_url (requests s ! i), k) a' (api_cache s)\<rparr>)
      | _ \<Rightarrow> s
      else s)"

section \<open>The pages\<close>

text \<open>\<open>establishIdentity\<close> publishes the token and then prunes; \<open>purgeDeviceIdentity\<close> drops the cache and then the token.\<close>

definition publish_identity :: "string \<Rightarrow> sw \<Rightarrow> sw" where
  "publish_identity uid s = (if uid = [] then s else s\<lparr>token := Some uid\<rparr>)"

definition prune_others :: "string \<Rightarrow> sw \<Rightarrow> sw" where
  "prune_others uid s = s\<lparr>api_cache := filter (\<lambda>((u, k), a). k = uid) (api_cache s)\<rparr>"

definition drop_api :: "sw \<Rightarrow> sw" where "drop_api s = s\<lparr>api_cache := []\<rparr>"
definition drop_identity :: "sw \<Rightarrow> sw" where "drop_identity s = s\<lparr>token := None\<rparr>"

text \<open>\<open>login.html\<close> keeps everything for the same person.\<close>

definition login_keeps :: "string option \<Rightarrow> sw \<Rightarrow> bool" where
  "login_keeps nextId s = (case (nextId, stored_token s) of
     (Some n, Some t) \<Rightarrow> n \<noteq> [] \<and> trim t \<noteq> [] \<and> trim t = n | _ \<Rightarrow> False)"

definition login_purge :: "string option \<Rightarrow> sw \<Rightarrow> sw" where
  "login_purge nextId s = (if login_keeps nextId s then s else drop_identity (drop_api s))"

definition evictCachedIdentity :: "(string \<Rightarrow> string) \<Rightarrow> sw \<Rightarrow> sw" where
  "evictCachedIdentity pathname s = s\<lparr>api_cache := filter (\<lambda>((u, k), a). pathname u \<noteq> ''/api/v1/me'') (api_cache s)\<rparr>"

text \<open>The cached tiles: the owner and the list, \<open>None\<close> if there is no such envelope.\<close>

definition readCachedApps :: "string option \<Rightarrow> (string \<Rightarrow> json option) \<Rightarrow> string option \<Rightarrow> json list option" where
  "readCachedApps deviceId parse_json raw = (case (deviceId, raw) of
     (Some d, Some t) \<Rightarrow> if d = [] \<or> t = [] then None else (case parse_json t of
         Some (JObj env) \<Rightarrow> if field env ''uid'' \<noteq> JStr d then None else (case field env ''apps'' of JArr apps \<Rightarrow> Some apps | _ \<Rightarrow> None)
       | _ \<Rightarrow> None)
   | _ \<Rightarrow> None)"

definition writeCachedApps :: "string option \<Rightarrow> json \<Rightarrow> doc option" where
  "writeCachedApps deviceId apps = (case deviceId of
     None \<Rightarrow> None | Some d \<Rightarrow> if d = [] then None else Some [(''uid'', JStr d), (''apps'', apps)])"

section \<open>Runs\<close>

datatype sw_event =
    Ask string | Timer nat | Net nat nat json | Net_Fail nat | Write_Key nat | Write_Put nat
  | Login string | Logout | Publish string | Prune string | Drop_Api | Drop_Identity | Evict "string \<Rightarrow> string" | Readable bool

fun sw_step :: "sw \<Rightarrow> sw_event \<Rightarrow> sw" where
  "sw_step s (Ask u) = ask u s"
| "sw_step s (Timer i) = on_timer i s"
| "sw_step s (Net i st b) = on_network i st b s"
| "sw_step s (Net_Fail i) = on_failure i s"
| "sw_step s (Write_Key i) = write_key i s"
| "sw_step s (Write_Put i) = write_put i s"
| "sw_step s (Login u) = s\<lparr>session := Some u\<rparr>"
| "sw_step s Logout = s\<lparr>session := None\<rparr>"
| "sw_step s (Publish uid) = publish_identity uid s"
| "sw_step s (Prune uid) = prune_others uid s"
| "sw_step s Drop_Api = drop_api s"
| "sw_step s Drop_Identity = drop_identity s"
| "sw_step s (Evict p) = evictCachedIdentity p s"
| "sw_step s (Readable b) = s\<lparr>readable := b\<rparr>"

definition run_sw :: "sw \<Rightarrow> sw_event list \<Rightarrow> sw" where
  "run_sw s es = foldl sw_step s es"

end
