(* ===== verification/ApiCacheProps.thy ===== *)
theory ApiCacheProps
  imports Complex_Main ApiCache
begin

text \<open>
  Who reads whose answers from the API cache: the partition holds while nobody signs in or out over a request under way, and
  what happens when someone does.
\<close>

lemma run_sw_simps [simp]: "run_sw s [] = s" "run_sw s (e # es) = run_sw (sw_step s e) es"
  by (simp_all add: run_sw_def)

lemma run_sw_append: "run_sw s (es @ fs) = run_sw (run_sw s es) fs"
  by (simp add: run_sw_def)

section \<open>Calm runs\<close>

definition device_identity :: "sw \<Rightarrow> string option" where
  "device_identity s = (case stored_token s of None \<Rightarrow> None | Some t \<Rightarrow> if trim t \<noteq> [] then Some (trim t) else None)"


lemma update_of_identity: "cacheWillUpdate s a = (if device_identity s = None then None else Some a)"
  by (simp add: cacheWillUpdate_def device_identity_def split: option.split)

definition finished :: "rq \<Rightarrow> bool" where
  "finished r \<longleftrightarrow> rq_settled r \<and> rq_net r = None"




section \<open>The partition\<close>

definition rq_ok :: "sw \<Rightarrow> rq \<Rightarrow> bool" where
  "rq_ok s r \<longleftrightarrow> (\<forall>a. rq_net r = Some a \<longrightarrow> a_for a = rq_for r) \<and> (rq_settled r \<longrightarrow> \<not> rq_timer r) \<and>
     (\<not> finished r \<longrightarrow> rq_for r = session s \<and> (device_identity s = None \<or> device_identity s = session s)
       \<and> (\<forall>k. rq_rkey r = Some k \<longrightarrow> k = cacheKeyWillBeUsed s) \<and> (\<forall>k. rq_wkey r = Some k \<longrightarrow> k = cacheKeyWillBeUsed s))"







lemma set_rq_fields [simp]:
  "session (set_rq i f s) = session s" "token (set_rq i f s) = token s" "readable (set_rq i f s) = readable s"
  "api_cache (set_rq i f s) = api_cache s" "served (set_rq i f s) = served s" "stored_token (set_rq i f s) = stored_token s"
  "cacheKeyWillBeUsed (set_rq i f s) = cacheKeyWillBeUsed s" "length (requests (set_rq i f s)) = length (requests s)"
  "i < length (requests s) \<Longrightarrow> requests (set_rq i f s) ! i = f (requests s ! i)"
  by (simp_all add: set_rq_def stored_token_def cacheKeyWillBeUsed_def)


lemma rq_out_ok [simp]: "rq_ok s (rq_out_update f r) = rq_ok s r"
  by (simp add: rq_ok_def finished_def)

















section \<open>A request that straddles a sign-in\<close>

text \<open>C36: an answer that comes late is the next person's. One person asks, the network is slow, the device is handed over with the
  full purge, and a second person signs in and is established on it. When the first answer arrives it is filed under the
  second person, and the next time the network fails, the page of the second person shows it as theirs.\<close>
theorem late_answer_crosses:
  assumes "uid \<noteq> []" and "trim uid = uid" and "requests s = []" and "readable s" and "session s = Some owner"
    and "t = run_sw s [Ask u, Login uid, Drop_Api, Drop_Identity, Publish uid, Prune uid,
      Net 0 st b, Write_Key 0, Write_Put 0, Ask u, Net_Fail 1]"
  shows "session t = Some uid \<and> rq_out (requests t ! 1) = Some \<lparr>a_status = st, a_body = b, a_for = Some owner\<rparr>"
  using assms(1-5) unfolding assms(6)
  by (simp add: ask_def drop_api_def drop_identity_def publish_identity_def prune_others_def on_network_def respond_def set_rq_def
      write_key_def write_put_def cacheKeyWillBeUsed_def cacheWillUpdate_def stored_token_def on_failure_def cacheMatch_def
      read_key_def respond_cached_def Let_def)

section \<open>What is written\<close>

text \<open>an error is cached over good data. On a device with an identity, an answer of any status is written under its address and
  replaces what was there: when the network next fails, the page is given the error the server once sent instead of
  the data the device had.\<close>
theorem error_answer_replaces:
  assumes "device_identity s = Some uid" and "n = length (requests s)"
    and "map_of (api_cache s) (u, uid) = Some good"
    and "t = run_sw s [Ask u, Net n st b, Write_Key n, Write_Put n, Ask u, Net_Fail (Suc n)]"
  shows "rq_out (requests t ! Suc n) = Some \<lparr>a_status = st, a_body = b, a_for = session s\<rparr>"
proof -
  obtain tk where tk: "readable s" "token s = Some tk" "trim tk \<noteq> []" "trim tk = uid"
    using assms(1) by (auto simp: device_identity_def stored_token_def split: option.splits if_splits)
  show ?thesis using tk unfolding assms(2,4)
    by (simp add: ask_def on_network_def respond_def set_rq_def write_key_def write_put_def cacheKeyWillBeUsed_def cacheWillUpdate_def
      stored_token_def on_failure_def cacheMatch_def read_key_def respond_cached_def Let_def nth_append list_update_append)
qed

section \<open>The device after a sign-in\<close>

text \<open>Once an identity is published and the others pruned, every entry left is its own.\<close>

lemma established_device_is_clean:
  "((u, k), a) \<in> set (api_cache (run_sw s [Publish uid, Prune uid])) \<Longrightarrow> k = uid"
  by (auto simp: prune_others_def publish_identity_def split: if_splits)

text \<open>Without an identity nothing is written.\<close>

lemma no_identity_no_write: "device_identity s = None \<Longrightarrow> api_cache (write_put i s) = api_cache s"
  by (simp add: write_put_def update_of_identity Let_def split: option.split)

text \<open>Every poll under an address of its own stays in the cache.\<close>

lemma polls_pile_up:
  "(u, cacheKeyWillBeUsed s) \<notin> fst ` set (api_cache s) \<Longrightarrow> device_identity s \<noteq> None \<Longrightarrow> n = length (requests s) \<Longrightarrow>
    length (api_cache (run_sw s [Ask u, Net n st b, Write_Key n, Write_Put n])) = Suc (length (api_cache s))"
proof -
  have len: "k \<notin> fst ` set xs \<Longrightarrow> length (put k v xs) = Suc (length xs)" for k :: "string \<times> string" and v :: answer and xs
    by (induction k v xs rule: put.induct) auto
  assume u: "(u, cacheKeyWillBeUsed s) \<notin> fst ` set (api_cache s)" and i: "device_identity s \<noteq> None" and n: "n = length (requests s)"
  have c: "cacheKeyWillBeUsed (s\<lparr>requests := rs\<rparr>) = cacheKeyWillBeUsed s" "device_identity (s\<lparr>requests := rs\<rparr>) = device_identity s" for rs
    by (simp_all add: cacheKeyWillBeUsed_def device_identity_def stored_token_def)
  show "length (api_cache (run_sw s [Ask u, Net n st b, Write_Key n, Write_Put n])) = Suc (length (api_cache s))"
    using i len [OF u] unfolding n
    by (auto simp: ask_def on_network_def respond_def set_rq_def write_key_def write_put_def update_of_identity c Let_def nth_append list_update_append)
qed

section \<open>Witnesses\<close>

definition shift :: "sw_event list" where
  "shift = [Login ''ann'', Ask ''/me'', Net 0 200 JNull, Write_Key 0, Write_Put 0, Publish ''ann'', Prune ''ann'',
     Ask ''/api'', Net 1 200 (JNum 7), Write_Key 1, Write_Put 1, Ask ''/api'', Net_Fail 2]"


theorem late_answer_crosses_witness:
  "\<exists>t :: sw. session t = Some ''bob'' \<and> rq_out (requests t ! 1) = Some \<lparr>a_status = 200, a_body = JNum 7, a_for = Some ''ann''\<rparr>"
proof -
  let ?s = "sw_init\<lparr>session := Some ''ann'', token := Some ''ann''\<rparr>"
  have b: "trim ''bob'' = ''bob''" by code_simp
  have s: "requests ?s = []" "readable ?s" "session ?s = Some ''ann''" by (simp_all add: sw_init_def)
  have "''bob'' \<noteq> []" by simp
  from late_answer_crosses [OF this b s refl] show ?thesis by blast
qed

theorem error_answer_replaces_witness:
  "rq_out (requests (run_sw (run_sw sw_init shift) [Ask ''/api'', Net 3 500 JNull, Write_Key 3, Write_Put 3, Ask ''/api'', Net_Fail 4]) ! 4)
    = Some \<lparr>a_status = 500, a_body = JNull, a_for = Some ''ann''\<rparr>"
proof -
  have i: "device_identity (run_sw sw_init shift) = Some ''ann''" by code_simp
  have n: "3 = length (requests (run_sw sw_init shift))" by code_simp
  have m: "map_of (api_cache (run_sw sw_init shift)) (''/api'', ''ann'') = Some \<lparr>a_status = 200, a_body = JNum 7, a_for = Some ''ann''\<rparr>" by code_simp
  have p: "session (run_sw sw_init shift) = Some ''ann''" by code_simp
  show ?thesis using error_answer_replaces [OF i n m refl, of 500 JNull] p by simp
qed

end
