(* ===== verification/SwBuild.thy ===== *)
theory SwBuild
  imports Complex_Main OpStore SyncScope Bootstrap
begin

text \<open>
  The guards of the service worker build (\<^verbatim>\<open>build-sw.js\<close>): what may be precached, and that nothing precached refers to a file that
  is not. The globbing, the hashing and the writing of \<^verbatim>\<open>sw.js\<close> are the build library's; the tree is a function from
  paths to sources, the committed files a list.
\<close>

section \<open>Regular expressions\<close>

text \<open>The part of the language's expressions the file uses, one capture. A place in the text is the character before it, if any, and
  what follows. \<open>ends\<close> lists where a match that begins at a place can end, in the order the backtracking search tries
  them, each with the capture.\<close>

datatype rx = Ch "char \<Rightarrow> bool" | Word_Edge | Seq rx rx | Either rx rx | Greedy rx | Lazy rx | Capture rx

definition regex_word :: "char \<Rightarrow> bool" where
  "regex_word c \<longleftrightarrow> word_char c \<and> c \<noteq> CHR ''-''"

function ends :: "rx \<Rightarrow> char option \<Rightarrow> string \<Rightarrow> string option \<Rightarrow> (char option \<times> string \<times> string option) list" where
  "ends (Ch P) q s c = (case s of [] \<Rightarrow> [] | a # s' \<Rightarrow> if P a then [(Some a, s', c)] else [])"
| "ends Word_Edge q s c =
     (if (case q of None \<Rightarrow> False | Some a \<Rightarrow> regex_word a) \<noteq> (case s of [] \<Rightarrow> False | a # s' \<Rightarrow> regex_word a) then [(q, s, c)] else [])"
| "ends (Seq r1 r2) q s c = concat (map (\<lambda>(q', s', d). ends r2 q' s' d) (ends r1 q s c))"
| "ends (Either r1 r2) q s c = ends r1 q s c @ ends r2 q s c"
| "ends (Greedy r) q s c =
     concat (map (\<lambda>(q', s', d). if length s' < length s then ends (Greedy r) q' s' d else []) (ends r q s c)) @ [(q, s, c)]"
| "ends (Lazy r) q s c =
     (q, s, c) # concat (map (\<lambda>(q', s', d). if length s' < length s then ends (Lazy r) q' s' d else []) (ends r q s c))"
| "ends (Capture r) q s c = map (\<lambda>(q', s', d). (q', s', Some (take (length s - length s') s))) (ends r q s c)"
  by pat_completeness auto
termination
  by (relation "measures [\<lambda>(r, q, s, c). size r, \<lambda>(r, q, s, c). length s]") auto

text \<open>The loop of \<open>exec\<close>: each call goes on from the last match.\<close>

function matchAll :: "rx \<Rightarrow> char option \<Rightarrow> string \<Rightarrow> string list" where
  "matchAll r q s =
     (case ends r q s None of
        [] \<Rightarrow> (case s of [] \<Rightarrow> [] | a # s' \<Rightarrow> matchAll r (Some a) s')
      | (q', s', c) # _ \<Rightarrow> (case c of None \<Rightarrow> [] | Some x \<Rightarrow> [x])
          @ (if length s' < length s then matchAll r q' s' else (case s of [] \<Rightarrow> [] | a # s' \<Rightarrow> matchAll r (Some a) s')))"
  by pat_completeness auto
termination
  by (relation "measure (\<lambda>(r, q, s). length s)") auto

declare matchAll.simps [simp del]

definition lower :: "string \<Rightarrow> string" where "lower s = map header_char s"

text \<open>A word, and a word in either case.\<close>

fun word_rx :: "string \<Rightarrow> rx" where
  "word_rx [] = Greedy (Ch (\<lambda>_. False))"
| "word_rx [a] = Ch (\<lambda>b. b = a)"
| "word_rx (a # s) = Seq (Ch (\<lambda>b. b = a)) (word_rx s)"

fun any_case :: "string \<Rightarrow> string \<Rightarrow> rx" where
  "any_case [a] [b] = Ch (\<lambda>c. c = a \<or> c = b)"
| "any_case (a # s) (b # t) = Seq (Ch (\<lambda>c. c = a \<or> c = b)) (any_case s t)"
| "any_case _ _ = Greedy (Ch (\<lambda>_. False))"

definition spaces :: rx where "spaces = Greedy (Ch js_space)"
definition quote_rx :: rx where "quote_rx = Ch (\<lambda>c. c = CHR 0x22 \<or> c = CHR 0x27)"
definition not_quote :: rx where "not_quote = Ch (\<lambda>c. c \<noteq> CHR 0x22 \<and> c \<noteq> CHR 0x27)"
definition quoted_rx :: rx where "quoted_rx = Seq quote_rx (Seq (Capture (Seq not_quote (Greedy not_quote))) quote_rx)"
definition in_tag :: rx where "in_tag = Greedy (Ch (\<lambda>c. c \<noteq> CHR ''>''))"
definition equals_rx :: rx where "equals_rx = Seq spaces (Seq (Ch (\<lambda>c. c = CHR ''='')) spaces)"

definition HTML_SCRIPT_SRC :: rx where
  "HTML_SCRIPT_SRC = Seq (any_case ''<script'' ''<SCRIPT'') (Seq Word_Edge (Seq in_tag (Seq Word_Edge (Seq (any_case ''src'' ''SRC'') (Seq equals_rx quoted_rx)))))"

definition HTML_MODULEPRELOAD :: rx where
  "HTML_MODULEPRELOAD = Seq (any_case ''<link'' ''<LINK'') (Seq Word_Edge (Seq in_tag (Seq Word_Edge (Seq (any_case ''rel'' ''REL'') (Seq equals_rx
     (Seq quote_rx (Seq (any_case ''modulepreload'' ''MODULEPRELOAD'') (Seq quote_rx
     (Seq in_tag (Seq Word_Edge (Seq (any_case ''href'' ''HREF'') (Seq equals_rx quoted_rx))))))))))))"

definition JS_FROM :: rx where
  "JS_FROM = Seq Word_Edge (Seq (Either (word_rx ''import'') (word_rx ''export'')) (Seq (Ch js_space) (Seq spaces
     (Seq (Lazy (Ch (\<lambda>c. c \<noteq> CHR '';'' \<and> c \<noteq> CHR 0x27 \<and> c \<noteq> CHR 0x22))) (Seq Word_Edge (Seq (word_rx ''from'') (Seq spaces quoted_rx)))))))"

definition JS_SIDE_EFFECT :: rx where
  "JS_SIDE_EFFECT = Seq Word_Edge (Seq (word_rx ''import'') (Seq spaces quoted_rx))"

definition JS_DYNAMIC :: rx where
  "JS_DYNAMIC = Seq Word_Edge (Seq (word_rx ''import'') (Seq spaces (Seq (Ch (\<lambda>c. c = CHR ''('')) (Seq spaces
     (Seq quoted_rx (Seq spaces (Ch (\<lambda>c. c = CHR '')''))))))))"

section \<open>Paths\<close>

text \<open>The POSIX path functions of the runtime.\<close>

fun segments :: "string \<Rightarrow> string list" where
  "segments [] = [[]]"
| "segments (c # s) = (if c = CHR ''/'' then [] # segments s else (case segments s of x # xs \<Rightarrow> (c # x) # xs | [] \<Rightarrow> [[c]]))"

text \<open>The stack of \<open>normalizeString\<close>, last segment first.\<close>

definition push_segment :: "bool \<Rightarrow> string list \<Rightarrow> string \<Rightarrow> string list" where
  "push_segment up st x =
     (if x = [] \<or> x = ''.'' then st
      else if x = ''..'' then (case st of
             [] \<Rightarrow> if up then [''..''] else []
           | y # ys \<Rightarrow> if y = ''..'' then (if up then ''..'' # st else st) else ys)
      else x # st)"

definition path_normalize :: "string \<Rightarrow> string" where
  "path_normalize p =
     (if p = [] then ''.''
      else let absolute = (hd p = CHR ''/''); trailing = (last p = CHR ''/'');
               q = join ''/'' (rev (foldl (push_segment (\<not> absolute)) [] (segments p)))
           in if q = [] then (if absolute then ''/'' else if trailing then ''./'' else ''.'')
              else (if absolute then ''/'' else []) @ q @ (if trailing then ''/'' else []))"

definition path_join :: "string \<Rightarrow> string \<Rightarrow> string" where
  "path_join a b = (if a = [] \<and> b = [] then ''.'' else path_normalize (if a = [] then b else if b = [] then a else a @ ''/'' @ b))"

text \<open>For the paths of a manifest: no trailing slash.\<close>

definition dirname :: "string \<Rightarrow> string" where
  "dirname p = (let ss = segments p in
     if length ss = 1 then ''.'' else if butlast ss = [[]] then ''/'' else join ''/'' (butlast ss))"

definition extname :: "string \<Rightarrow> string" where
  "extname p = (let b = last (segments p); r = rev b; e = takeWhile (\<lambda>c. c \<noteq> CHR ''.'') r in
     if length e = length r \<or> Suc (length e) = length r \<or> b = ''..'' then [] else CHR ''.'' # rev e)"

section \<open>References\<close>

definition letter :: "char \<Rightarrow> bool" where
  "letter c \<longleftrightarrow> (let n = (of_char (header_char c) :: nat) in 97 \<le> n \<and> n \<le> 122)"

definition isExternal :: "string \<Rightarrow> bool" where
  "isExternal spec \<longleftrightarrow>
     (case spec of [] \<Rightarrow> False
      | c # s \<Rightarrow> letter c \<and> take 1 (dropWhile (\<lambda>x. letter x \<or> is_digit x \<or> x \<in> {CHR ''+'', CHR ''.'', CHR ''-''}) s) = '':'')
     \<or> starts_with ''//'' spec"

definition isJsPathSpecifier :: "string \<Rightarrow> bool" where
  "isJsPathSpecifier spec \<longleftrightarrow> starts_with ''./'' spec \<or> starts_with ''../'' spec \<or> starts_with ''/'' spec"

text \<open>\<open>new Set\<close> keeps first occurrences.\<close>

fun once :: "string list \<Rightarrow> string list \<Rightarrow> string list" where
  "once seen [] = []"
| "once seen (x # xs) = (if x \<in> set seen then once seen xs else x # once (x # seen) xs)"

definition collectLocalRefs :: "string \<Rightarrow> string \<Rightarrow> string list" where
  "collectLocalRefs u source =
     once [] (filter (\<lambda>s. \<not> isExternal s)
       ((if lower (extname u) = ''.html'' then matchAll HTML_SCRIPT_SRC None source @ matchAll HTML_MODULEPRELOAD None source else [])
        @ filter isJsPathSpecifier (matchAll JS_FROM None source @ matchAll JS_SIDE_EFFECT None source @ matchAll JS_DYNAMIC None source)))"

definition resolveRef :: "string \<Rightarrow> string \<Rightarrow> string option" where
  "resolveRef fromUrl spec =
     (let clean = takeWhile (\<lambda>c. c \<noteq> CHR ''?'') (takeWhile (\<lambda>c. c \<noteq> CHR ''#'') spec) in
      if clean = [] then None
      else let joined = (if starts_with ''/'' clean then drop 1 clean else path_join (dirname fromUrl) clean);
               resolved = path_normalize joined
           in if starts_with ''..'' resolved then None else Some resolved)"

section \<open>The guards\<close>

definition GENERATED_BUT_SHIPPED :: "string list" where "GENERATED_BUT_SHIPPED = [''version.json'']"

definition REACHABILITY_CANARIES :: "(string \<times> string) list" where
  "REACHABILITY_CANARIES = [(''index.html'', ''ptr.js''), (''workflows.html'', ''sync-rxdb/bootstrap.js''), (''sync-rxdb/client.js'', ''vendor/rxdb.bundle.js'')]"

record precached =
  e_url :: string
  e_revision :: string

text \<open>The manifest kept, and what was dropped.\<close>

definition committedOnlyTransform :: "string list \<Rightarrow> precached list \<Rightarrow> precached list \<times> string list" where
  "committedOnlyTransform committed manifest =
     (let ships = (\<lambda>e. e_url e \<in> set committed \<or> e_url e \<in> set GENERATED_BUT_SHIPPED)
      in (filter ships manifest, map e_url (filter (\<lambda>e. \<not> ships e) manifest)))"

record violation =
  v_from :: string
  v_spec :: string
  v_target :: string
  v_skipped :: bool

record reachability =
  refsFound :: nat
  refsByFile :: "(string \<times> string list) list"
  violations :: "violation list"

definition resolved_refs :: "string \<Rightarrow> string \<Rightarrow> (string \<times> string) list" where
  "resolved_refs u source = concat (map (\<lambda>s. case resolveRef u s of None \<Rightarrow> [] | Some r \<Rightarrow> [(s, r)]) (collectLocalRefs u source))"

definition parseable :: "string \<Rightarrow> bool" where
  "parseable u \<longleftrightarrow> lower (extname u) \<in> {''.html'', ''.js''}"

text \<open>\<open>None\<close>: a file that cannot be read.\<close>

fun check_files :: "(string \<Rightarrow> string option) \<Rightarrow> string list \<Rightarrow> string list \<Rightarrow> string list \<Rightarrow> reachability \<Rightarrow> reachability option" where
  "check_files readFile skipped manifestUrls [] acc = Some acc"
| "check_files readFile skipped manifestUrls (u # us) acc =
     (if \<not> parseable u then check_files readFile skipped manifestUrls us acc
      else case readFile u of None \<Rightarrow> None
      | Some source \<Rightarrow>
          let rs = resolved_refs u source;
              bad = filter (\<lambda>(s, r). r \<notin> set manifestUrls) rs
          in check_files readFile skipped manifestUrls us
               (acc\<lparr>refsFound := refsFound acc + length rs, refsByFile := put u (map snd rs) (refsByFile acc),
                    violations := violations acc @ map (\<lambda>(s, r). \<lparr>v_from = u, v_spec = s, v_target = r, v_skipped = (r \<in> set skipped)\<rparr>) bad\<rparr>))"

definition checkImportReachability :: "(string \<Rightarrow> string option) \<Rightarrow> string list \<Rightarrow> string list \<Rightarrow> reachability option" where
  "checkImportReachability readFile skipped manifestUrls =
     check_files readFile skipped manifestUrls manifestUrls \<lparr>refsFound = 0, refsByFile = [], violations = []\<rparr>"

datatype fault = No_Files | No_References | Canary_Lost string string

definition reachabilityVacuityFaults :: "reachability \<Rightarrow> fault list" where
  "reachabilityVacuityFaults result =
     (if refsByFile result = [] then [No_Files] else []) @ (if refsFound result = 0 then [No_References] else [])
     @ concat (map (\<lambda>(f, g). case map_of (refsByFile result) f of
          Some refs \<Rightarrow> if g \<in> set refs then [] else [Canary_Lost f g] | None \<Rightarrow> [Canary_Lost f g]) REACHABILITY_CANARIES)"

datatype build_error = Unreadable | Vacuous "fault list" | Outside "violation list"

definition importReachabilityTransform :: "(string \<Rightarrow> string option) \<Rightarrow> string list \<Rightarrow> precached list \<Rightarrow> build_error + precached list" where
  "importReachabilityTransform readFile lastSkipped manifest =
     (case checkImportReachability readFile lastSkipped (map e_url manifest) of
        None \<Rightarrow> Inl Unreadable
      | Some result \<Rightarrow>
          if reachabilityVacuityFaults result \<noteq> [] then Inl (Vacuous (reachabilityVacuityFaults result))
          else if violations result \<noteq> [] then Inl (Outside (violations result)) else Inr manifest)"

text \<open>\<open>manifestTransforms\<close>, in their order.\<close>

definition build_manifest :: "(string \<Rightarrow> string option) \<Rightarrow> string list \<Rightarrow> precached list \<Rightarrow> build_error + precached list" where
  "build_manifest readFile committed manifest =
     (case committedOnlyTransform committed manifest of (kept, dropped) \<Rightarrow> importReachabilityTransform readFile dropped kept)"

end
