(* ===== verification/SwBuildProps.thy ===== *)
theory SwBuildProps
  imports Complex_Main SwBuild BootstrapProps
begin

text \<open>
  What a build that succeeds has checked: the manifest is what was globbed and committed, and it is closed under the references
  its files make; what a build that fails reports; and where the scan for references is blind.
\<close>

section \<open>The check\<close>

definition file_refs :: "(string \<Rightarrow> string option) \<Rightarrow> string \<Rightarrow> (string \<times> string) list" where
  "file_refs readFile u = (if parseable u then (case readFile u of None \<Rightarrow> [] | Some source \<Rightarrow> resolved_refs u source) else [])"

definition reports :: "(string \<Rightarrow> string option) \<Rightarrow> string list \<Rightarrow> string list \<Rightarrow> string \<Rightarrow> violation list" where
  "reports readFile skipped urls u = map (\<lambda>(s, r). \<lparr>v_from = u, v_spec = s, v_target = r, v_skipped = (r \<in> set skipped)\<rparr>)
     (filter (\<lambda>(s, r). r \<notin> set urls) (file_refs readFile u))"

lemma check_files_result:
  "check_files readFile skipped urls us acc = Some res \<Longrightarrow>
     violations res = violations acc @ concat (map (reports readFile skipped urls) us)
     \<and> (\<forall>f rs. map_of (refsByFile res) f = Some rs \<longrightarrow> map_of (refsByFile acc) f = Some rs \<or> f \<in> set us \<and> rs = map snd (file_refs readFile f))"
proof (induction us arbitrary: acc)
  case (Cons u us)
  show ?case
  proof (cases "parseable u")
    case False
    then have "reports readFile skipped urls u = []" "check_files readFile skipped urls us acc = Some res"
      using Cons.prems by (simp_all add: reports_def file_refs_def)
    from Cons.IH [OF this(2)] this(1) show ?thesis by auto
  next
    case True
    then obtain source where source: "readFile u = Some source" using Cons.prems by (auto split: option.splits)
    have refs: "file_refs readFile u = resolved_refs u source" using True source by (simp add: file_refs_def)
    let ?rs = "resolved_refs u source"
    let ?acc = "acc\<lparr>refsFound := refsFound acc + length ?rs, refsByFile := put u (map snd ?rs) (refsByFile acc),
      violations := violations acc @ reports readFile skipped urls u\<rparr>"
    have "check_files readFile skipped urls us ?acc = Some res" using Cons.prems True source by (simp add: Let_def reports_def refs)
    note ih = Cons.IH [OF this]
    have "map_of (refsByFile acc) f = Some rs \<or> f \<in> set (u # us) \<and> rs = map snd (file_refs readFile f)"
      if "map_of (refsByFile res) f = Some rs" for f rs
      using ih [THEN conjunct2, rule_format, OF that] refs by (cases "f = u") auto
    then show ?thesis using ih by simp
  qed
qed simp

lemma check_sound:
  assumes "checkImportReachability readFile skipped urls = Some res"
  shows "violations res = concat (map (reports readFile skipped urls) urls)"
    and "map_of (refsByFile res) f = Some rs \<Longrightarrow> f \<in> set urls \<and> rs = map snd (file_refs readFile f)"
  using check_files_result [OF assms [unfolded checkImportReachability_def]] by auto


section \<open>The shipped precache\<close>

definition refers :: "(string \<Rightarrow> string option) \<Rightarrow> (string \<times> string) set" where
  "refers readFile = {(u, r). \<exists>s. (s, r) \<in> set (file_refs readFile u)}"


text \<open>a build that is refused says why, and truly. Every reference it reports is one that a file to be shipped makes to a file
  that is not shipped, and the reason given is the right one: dropped as uncommitted, or never globbed.\<close>
theorem refused_build_is_right:
  assumes "build_manifest readFile committed manifest = Inl (Outside vs)"
    and "shipped = fst (committedOnlyTransform committed manifest)" and "v \<in> set vs"
  shows "v_from v \<in> e_url ` set shipped \<and> (v_from v, v_target v) \<in> refers readFile \<and> v_target v \<notin> e_url ` set shipped
    \<and> v_skipped v = (v_target v \<in> e_url ` set manifest)"
proof -
  obtain dropped res where kept: "committedOnlyTransform committed manifest = (shipped, dropped)"
    and res: "checkImportReachability readFile dropped (map e_url shipped) = Some res" and vs: "violations res = vs"
    using assms(1,2) by (auto simp: build_manifest_def importReachabilityTransform_def split: prod.splits option.splits if_splits)
  obtain u where u: "u \<in> e_url ` set shipped" "v \<in> set (reports readFile dropped (map e_url shipped) u)"
    using check_sound(1) [OF res] assms(3) vs by auto
  then obtain s r where v: "v = \<lparr>v_from = u, v_spec = s, v_target = r, v_skipped = (r \<in> set dropped)\<rparr>"
      "(s, r) \<in> set (file_refs readFile u)" "r \<notin> e_url ` set shipped" by (auto simp: reports_def)
  have "r \<in> set dropped \<longleftrightarrow> r \<in> e_url ` set manifest" using v(3) kept by (auto simp: committedOnlyTransform_def Let_def image_iff) blast
  then show ?thesis using u v by (auto simp: refers_def)
qed

section \<open>Where a reference leads\<close>

definition plain :: "string \<Rightarrow> bool" where
  "plain x \<longleftrightarrow> x \<noteq> [] \<and> x \<noteq> ''.'' \<and> x \<noteq> ''..'' \<and> CHR ''/'' \<notin> set x"

lemma segments_clean: "x \<in> set (segments s) \<Longrightarrow> CHR ''/'' \<notin> set x"
  by (induction s arbitrary: x) (auto split: if_splits list.splits)

text \<open>The stack: plain names above the parents that could not be taken.\<close>

definition stack :: "bool \<Rightarrow> string list \<Rightarrow> bool" where
  "stack up st \<longleftrightarrow> (\<exists>ns n. st = ns @ replicate n ''..'' \<and> list_all plain ns \<and> (up \<or> n = 0))"

lemma push_stack:
  assumes "stack up st" and "CHR ''/'' \<notin> set x"
  shows "stack up (push_segment up st x)"
proof -
  obtain ns n where st: "st = ns @ replicate n ''..''" "list_all plain ns" "up \<or> n = 0" using assms(1) by (auto simp: stack_def)
  show ?thesis
  proof (cases "x = ''..''")
    case True
    show ?thesis
    proof (cases ns)
      case Nil
      have "push_segment up st x = replicate (if up then Suc n else n) ''..''"
        using True st(1,3) Nil by (cases n) (auto simp: push_segment_def)
      moreover have "up \<or> (if up then Suc n else n) = 0" using st(3) by auto
      ultimately show ?thesis unfolding stack_def using list.pred_inject(1) by (metis append_Nil)
    next
      case (Cons y ys)
      then have "push_segment up st x = ys @ replicate n ''..''" using True st by (auto simp: push_segment_def plain_def)
      then show ?thesis using st Cons unfolding stack_def by (metis list.pred_inject(2))
    qed
  next
    case False
    then have "push_segment up st x = (if x = [] \<or> x = ''.'' then st else x # st)" by (auto simp: push_segment_def)
    moreover have "stack up (x # st)" if "\<not> (x = [] \<or> x = ''.'')"
      using that False st assms(2) unfolding stack_def by (intro exI [of _ "x # ns"] exI [of _ n]) (simp add: plain_def)
    ultimately show ?thesis using assms(1) by auto
  qed
qed

lemma fold_stack: "\<forall>x \<in> set xs. CHR ''/'' \<notin> set x \<Longrightarrow> stack up st \<Longrightarrow> stack up (foldl (push_segment up) st xs)"
  by (induction xs arbitrary: st) (auto intro: push_stack)

lemma fold_plain:
  "list_all plain xs \<Longrightarrow> foldl (push_segment up) st xs = rev xs @ st"
  by (induction xs arbitrary: st) (auto simp: push_segment_def plain_def)

text \<open>Joining and splitting again.\<close>

lemma segments_plain: "CHR ''/'' \<notin> set x \<Longrightarrow> segments x = [x]"
  by (induction x) auto

lemma segments_ne [simp]: "segments s \<noteq> []"
  by (induction s) (auto split: list.splits)

lemma segments_append: "segments (x @ CHR ''/'' # s) = segments x @ segments s"
proof (induction x)
  case (Cons a x)
  obtain y ys where "segments x = y # ys" by (cases "segments x") simp_all
  then show ?case using Cons by simp
qed simp

lemma segments_join: "xs \<noteq> [] \<Longrightarrow> \<forall>x \<in> set xs. CHR ''/'' \<notin> set x \<Longrightarrow> segments (join ''/'' xs) = xs"
  by (induction "''/''" xs rule: join.induct) (simp_all add: segments_plain segments_append)

definition inside :: "string \<Rightarrow> bool" where
  "inside p \<longleftrightarrow> p \<in> {''.'', ''./''} \<or> (\<exists>ns. ns \<noteq> [] \<and> list_all plain ns \<and> p \<in> {join ''/'' ns, join ''/'' ns @ ''/''})"

lemma starts_with_parent:
  assumes "list_all plain ns" and "n > 0"
  shows "starts_with ''..'' (join ''/'' (replicate n ''..'' @ ns) @ s)"
proof (cases "replicate (n - 1) ''..'' @ ns")
  case Nil
  then show ?thesis using assms(2) by (cases n) (auto simp: starts_with_def)
next
  case (Cons y ys)
  then have "replicate n ''..'' @ ns = ''..'' # y # ys" using assms(2) by (cases n) auto
  then show ?thesis by (simp add: starts_with_def)
qed

text \<open>A relative path normalises to names below the root, or shows that it leaves it.\<close>

lemma normalize_relative:
  assumes "p = [] \<or> hd p \<noteq> CHR ''/''"
  shows "starts_with ''..'' (path_normalize p) \<or> inside (path_normalize p)"
proof (cases "p = []")
  case False
  have "stack True (foldl (push_segment True) [] (segments p))"
    by (rule fold_stack) (auto simp: segments_clean stack_def intro: exI [of _ 0])
  then obtain ns n where st: "foldl (push_segment True) [] (segments p) = ns @ replicate n ''..''" "list_all plain ns" by (auto simp: stack_def)
  let ?q = "join ''/'' (replicate n ''..'' @ rev ns)" and ?t = "if last p = CHR ''/'' then ''/'' else []"
  have norm: "path_normalize p = (if ?q = [] then (if last p = CHR ''/'' then ''./'' else ''.'') else ?q @ ?t)"
    using assms False st(1) by (simp add: path_normalize_def Let_def)
  show ?thesis
  proof (cases "n = 0")
    case True
    show ?thesis
    proof (cases "ns = []")
      case False
      then have "?q \<noteq> []" using True st(2) join_empty [of "rev ns" "''/''"] by (simp add: list_all_iff plain_def)
      moreover have "list_all plain (rev ns)" using st(2) by simp
      ultimately have "inside (path_normalize p)" using False True norm unfolding inside_def by (intro disjI2 exI [of _ "rev ns"]) simp
      then show ?thesis by simp
    qed (use True norm in \<open>simp add: inside_def\<close>)
  next
    case False
    then have "starts_with ''..'' (?q @ s)" for s using st(2) by (intro starts_with_parent) (simp_all add: list_all_iff)
    moreover have "?q \<noteq> []" using calculation [of "[]"] by (auto simp: starts_with_def)
    ultimately show ?thesis using norm by simp
  qed
qed (simp add: path_normalize_def inside_def)

lemma inside_relative: "starts_with ''..'' p \<or> inside p \<Longrightarrow> p \<noteq> [] \<and> hd p \<noteq> CHR ''/''"
proof (cases "inside p \<and> p \<notin> {''.'', ''./''}")
  case True
  then obtain n ns where n: "list_all plain (n # ns)" "p = join ''/'' (n # ns) \<or> p = join ''/'' (n # ns) @ ''/''"
    unfolding inside_def by (metis insert_iff list.exhaust singletonD)
  obtain c cs where "n = c # cs" "c \<noteq> CHR ''/''" using n(1) by (cases n) (auto simp: plain_def)
  then show ?thesis using n(2) by (cases ns) auto
next
  case False
  moreover assume "starts_with ''..'' p \<or> inside p"
  ultimately consider "starts_with ''..'' p" | "p = ''.''" | "p = ''./''" by auto
  then show ?thesis by cases (cases p, auto simp: starts_with_def)
qed

lemma dirname_relative: "\<not> starts_with ''/'' f \<Longrightarrow> dirname f \<noteq> [] \<and> hd (dirname f) \<noteq> CHR ''/''"
proof (cases f)
  case (Cons c s)
  assume "\<not> starts_with ''/'' f"
  then have c: "c \<noteq> CHR ''/''" using Cons by (simp add: starts_with_def)
  obtain x xs where s: "segments s = x # xs" by (cases "segments s") simp_all
  then have f: "segments f = (c # x) # xs" using Cons c by simp
  show ?thesis
  proof (cases "butlast xs")
    case Nil
    then show ?thesis using f c by (cases xs) (auto simp: dirname_def Let_def)
  next
    case (Cons y ys)
    then have "xs \<noteq> []" by auto
    then show ?thesis using f c Cons by (auto simp: dirname_def Let_def)
  qed
qed (simp add: dirname_def)

text \<open>a reference leads to a file of the tree or nowhere. From any file named without a leading slash, a reference that is not
  to another server resolves to plain names joined by slashes, with no step up, no step in place and no empty name (or
  to the root itself), or to nothing.\<close>
theorem references_stay_inside:
  assumes "resolveRef f s = Some p" and "\<not> isExternal s" and "\<not> starts_with ''/'' f"
  shows "inside p"
proof -
  define clean where "clean = takeWhile (\<lambda>c. c \<noteq> CHR ''?'') (takeWhile (\<lambda>c. c \<noteq> CHR ''#'') s)"
  define joined where "joined = (if starts_with ''/'' clean then drop 1 clean else path_join (dirname f) clean)"
  have p: "clean \<noteq> []" "p = path_normalize joined" "\<not> starts_with ''..'' p"
    using assms(1) by (simp_all add: resolveRef_def clean_def joined_def Let_def split: if_splits)
  have rel: "joined = [] \<or> hd joined \<noteq> CHR ''/''"
  proof (cases "starts_with ''/'' clean")
    case True
    have "\<not> starts_with ''//'' s" using assms(2) by (simp add: isExternal_def)
    then show ?thesis using True unfolding joined_def clean_def starts_with_def
      by (cases s; cases "tl s") (auto split: if_splits)
  next
    case False
    have "hd (dirname f @ ''/'' @ clean) \<noteq> CHR ''/''" "dirname f \<noteq> []" using dirname_relative [OF assms(3)] by simp_all
    then have "starts_with ''..'' joined \<or> inside joined"
      using False p(1) normalize_relative [of "dirname f @ ''/'' @ clean"] by (simp add: joined_def path_join_def)
    then show ?thesis using inside_relative by blast
  qed
  show ?thesis using normalize_relative [OF rel] p by simp
qed

section \<open>Where the scan is blind\<close>

text \<open>A quotation mark between \<open>import\<close> and \<open>from\<close>, as an apostrophe in a comment, hides the import; so does an address without quotes;
  a preload is seen only with its \<open>rel\<close> before its \<open>href\<close>.\<close>

lemma apostrophe_hides_import:
  "collectLocalRefs ''a.js'' (''import { b, /* it'' @ [CHR 0x27] @ ''s c */ d } from '' @ [CHR 0x22] @ ''./e.js'' @ [CHR 0x22]) = []"
  by code_simp

lemma unquoted_source_missed: "collectLocalRefs ''a.html'' ''<script src=b.js>'' = []"
  by code_simp

lemma preload_order_matters:
  "collectLocalRefs ''a.html'' (''<link href='' @ [CHR 0x22] @ ''./b.js'' @ [CHR 0x22] @ '' rel='' @ [CHR 0x22] @ ''modulepreload'' @ [CHR 0x22] @ ''>'') = []"
  "collectLocalRefs ''a.html'' (''<link rel='' @ [CHR 0x22] @ ''modulepreload'' @ [CHR 0x22] @ '' href='' @ [CHR 0x22] @ ''./b.js'' @ [CHR 0x22] @ ''>'') = [''./b.js'']"
  by code_simp+

section \<open>Witnesses\<close>

definition script_tag :: "string \<Rightarrow> string" where
  "script_tag u = ''<script src='' @ [CHR 0x22] @ u @ [CHR 0x22] @ ''>''"

definition import_of :: "string \<Rightarrow> string" where
  "import_of u = ''import'' @ [CHR 0x22] @ u @ [CHR 0x22]"

definition demo_tree :: "string \<Rightarrow> string option" where
  "demo_tree = [''index.html'' \<mapsto> script_tag ''ptr.js'', ''ptr.js'' \<mapsto> [], ''workflows.html'' \<mapsto> script_tag ''sync-rxdb/bootstrap.js'',
     ''sync-rxdb/bootstrap.js'' \<mapsto> import_of ''./client.js'', ''sync-rxdb/client.js'' \<mapsto> import_of ''../vendor/rxdb.bundle.js'',
     ''vendor/rxdb.bundle.js'' \<mapsto> []]"

text \<open>What the scan reads in each file.\<close>

lemma demo_parse [simp]:
  "parseable ''index.html''" "parseable ''ptr.js''" "parseable ''workflows.html''" "parseable ''sync-rxdb/bootstrap.js''"
  "parseable ''sync-rxdb/client.js''" "parseable ''vendor/rxdb.bundle.js''"
  by code_simp+

lemma map_weak_cong: "xs = ys \<Longrightarrow> map f xs = map f ys"
  by simp

lemmas scan_defs = collectLocalRefs_def script_tag_def import_of_def extname_def lower_def header_char_def matchAll.simps
  HTML_SCRIPT_SRC_def HTML_MODULEPRELOAD_def JS_FROM_def JS_SIDE_EFFECT_def JS_DYNAMIC_def spaces_def quote_rx_def not_quote_def quoted_rx_def
  in_tag_def equals_rx_def regex_word_def word_char_def is_digit_def js_space_def isExternal_def isJsPathSpecifier_def letter_def starts_with_def Let_def

lemmas scan_congs = map_weak_cong list.case_cong_weak option.case_cong_weak

lemma demo_collect1: "collectLocalRefs ''index.html'' (script_tag ''ptr.js'') = [''ptr.js'']"
  by (simp add: scan_defs cong: scan_congs)

lemma demo_collect2: "collectLocalRefs ''workflows.html'' (script_tag ''sync-rxdb/bootstrap.js'') = [''sync-rxdb/bootstrap.js'']"
  by (simp add: scan_defs cong: scan_congs)

lemma demo_collect3: "collectLocalRefs ''sync-rxdb/bootstrap.js'' (import_of ''./client.js'') = [''./client.js'']"
  by (simp add: scan_defs cong: scan_congs)

lemma demo_collect4: "collectLocalRefs ''sync-rxdb/client.js'' (import_of ''../vendor/rxdb.bundle.js'') = [''../vendor/rxdb.bundle.js'']"
  by (simp add: scan_defs cong: scan_congs)

lemma demo_collect5: "collectLocalRefs ''ptr.js'' (import_of ''./log.js'') = [''./log.js'']"
  by (simp add: scan_defs cong: scan_congs)

lemmas demo_collect = demo_collect1 demo_collect2 demo_collect3 demo_collect4 demo_collect5

lemmas path_defs = resolveRef_def path_normalize_def path_join_def dirname_def push_segment_def starts_with_def

lemma empty_scan: "resolved_refs u [] = []"
proof -
  have "matchAll r None [] = []" if "r \<in> {HTML_SCRIPT_SRC, HTML_MODULEPRELOAD, JS_FROM, JS_SIDE_EFFECT, JS_DYNAMIC}" for r
    using that by (elim insertE emptyE; hypsubst; code_simp)
  then show ?thesis by (simp add: resolved_refs_def collectLocalRefs_def)
qed

lemma demo_scan [simp]:
  "resolved_refs ''index.html'' (script_tag ''ptr.js'') = [(''ptr.js'', ''ptr.js'')]"
  "resolved_refs ''workflows.html'' (script_tag ''sync-rxdb/bootstrap.js'') = [(''sync-rxdb/bootstrap.js'', ''sync-rxdb/bootstrap.js'')]"
  "resolved_refs ''sync-rxdb/bootstrap.js'' (import_of ''./client.js'') = [(''./client.js'', ''sync-rxdb/client.js'')]"
  "resolved_refs ''sync-rxdb/client.js'' (import_of ''../vendor/rxdb.bundle.js'') = [(''../vendor/rxdb.bundle.js'', ''vendor/rxdb.bundle.js'')]"
  "resolved_refs ''ptr.js'' (import_of ''./log.js'') = [(''./log.js'', ''log.js'')]"
  "resolved_refs u [] = []"
  by (simp_all only: empty_scan) (simp_all add: resolved_refs_def demo_collect path_defs)

definition demo_names :: "string list" where
  "demo_names = [''index.html'', ''ptr.js'', ''workflows.html'', ''sync-rxdb/bootstrap.js'', ''sync-rxdb/client.js'', ''vendor/rxdb.bundle.js'']"

definition demo_manifest :: "string list \<Rightarrow> precached list" where
  "demo_manifest = map (\<lambda>u. \<lparr>e_url = u, e_revision = ''r''\<rparr>)"

lemmas demo_build = build_manifest_def committedOnlyTransform_def importReachabilityTransform_def checkImportReachability_def
  reachabilityVacuityFaults_def REACHABILITY_CANARIES_def GENERATED_BUT_SHIPPED_def demo_manifest_def demo_names_def demo_tree_def Let_def


definition demo_lost :: "violation" where
  "demo_lost = \<lparr>v_from = ''ptr.js'', v_spec = ''./log.js'', v_target = ''log.js'', v_skipped = True\<rparr>"

definition demo_tree2 :: "string \<Rightarrow> string option" where
  "demo_tree2 = demo_tree(''ptr.js'' \<mapsto> import_of ''./log.js'')"

theorem refused_build_is_right_witness:
  "build_manifest demo_tree2 demo_names (demo_manifest (demo_names @ [''log.js''])) = Inl (Outside [demo_lost])
    \<and> (''ptr.js'', ''log.js'') \<in> refers demo_tree2"
proof -
  have b: "build_manifest demo_tree2 demo_names (demo_manifest (demo_names @ [''log.js''])) = Inl (Outside [demo_lost])" by (simp add: demo_build demo_tree2_def demo_lost_def)
  show ?thesis using refused_build_is_right [OF b refl, of demo_lost] b by (simp add: demo_lost_def)
qed

theorem references_stay_inside_witness: "inside ''x/e/f.js''"
proof -
  have "resolveRef ''x/y.js'' ''e//./f.js?q'' = Some ''x/e/f.js''" "\<not> isExternal ''e//./f.js?q''" "\<not> starts_with ''/'' ''x/y.js''"
    by code_simp+
  then show ?thesis by (rule references_stay_inside)
qed

end
