(* ===== verification/ScanPage.thy ===== *)
theory ScanPage
  imports Complex_Main Scanner OpApply Bootstrap
begin

text \<open>
  The camera page (\<^verbatim>\<open>marketing/scan-page.js\<close>): arming the replications with the device's coordinates, the camera and the scans in
  flight, and the card of a result. The camera library's object is the state its calls depend on; what the replications do
  once started is the business of the theories of the sync files.
\<close>

section \<open>Arming the sync\<close>

datatype sync_effect =
    Start_Campaigns json json | Attach_Policy | Start_Codes json json | Start_Offers json json | Start_Push json json json
  | Resync_Codes | Resync_Offers | Resync_Campaigns

text \<open>\<open>sy_stored\<close> is what lies under the page's key: text that does not parse reads as \<open>null\<close>.\<close>

record arming =
  sy_handles :: bool
  sy_log :: "sync_effect list"
  sy_stored :: json

definition startSync :: "json \<Rightarrow> arming \<Rightarrow> arming" where
  "startSync cfg s =
     (let restUrl = prop_of cfg ''restUrl''; bearer = prop_of cfg ''bearer''; deviceId = prop_of cfg ''deviceId'' in
      if \<not> SyncScope.truthy restUrl \<or> \<not> SyncScope.truthy bearer \<or> sy_handles s then s
      else s\<lparr>sy_handles := True, sy_log := sy_log s
          @ [Start_Campaigns restUrl bearer, Attach_Policy, Start_Codes restUrl bearer, Start_Offers restUrl bearer]
          @ (if SyncScope.truthy deviceId then [Start_Push restUrl bearer deviceId] else [])\<rparr>)"

definition resync :: "arming \<Rightarrow> arming" where
  "resync s = (if sy_handles s then s\<lparr>sy_log := sy_log s @ [Resync_Codes, Resync_Offers, Resync_Campaigns]\<rparr> else s)"

text \<open>The token endpoint's answer: \<open>None\<close> for a network failure, a body of \<open>None\<close> for one that is not JSON. \<open>text_of\<close> is \<open>String\<close>,
  \<open>writable\<close> whether the store takes the write.\<close>

definition provisionSync :: "(json \<Rightarrow> string) \<Rightarrow> http option \<Rightarrow> bool \<Rightarrow> arming \<Rightarrow> arming" where
  "provisionSync text_of r writable s = (case r of
     None \<Rightarrow> s
   | Some res \<Rightarrow> if status res \<noteq> 200 then s else (case body res of
       None \<Rightarrow> s
     | Some envelope \<Rightarrow>
         if \<not> SyncScope.truthy envelope \<or> \<not> SyncScope.truthy (prop_of envelope ''token'') \<or> \<not> SyncScope.truthy (prop_of envelope ''sub'') then s
         else let cfg = JObj [(''restUrl'', JStr ''/sync/rest''), (''bearer'', prop_of envelope ''token''),
                              (''deviceId'', JStr (text_of (prop_of envelope ''sub'')))]
              in startSync cfg (if writable then s\<lparr>sy_stored := cfg\<rparr> else s)))"

text \<open>A load of the page: the stored coordinates arm at once, then the endpoint answers.\<close>

definition load_scan_page :: "json \<Rightarrow> arming" where
  "load_scan_page sc =
     (let s = \<lparr>sy_handles = False, sy_log = [], sy_stored = sc\<rparr> in if SyncScope.truthy sc then startSync sc s else s)"

datatype sync_event = Provisioned "http option" bool | Start_Sync json | Resync

fun sync_step :: "(json \<Rightarrow> string) \<Rightarrow> arming \<Rightarrow> sync_event \<Rightarrow> arming" where
  "sync_step text_of s (Provisioned r w) = provisionSync text_of r w s"
| "sync_step text_of s (Start_Sync cfg) = startSync cfg s"
| "sync_step text_of s Resync = resync s"

section \<open>The camera\<close>

text \<open>The library's object: not started, a start under way, scanning, or paused. A second start throws while the first is under
  way or the camera runs; a pause throws unless it scans, a resume unless it is paused.\<close>

datatype camera = Not_Started | Starting | Scanning | Paused

datatype shown_result = Read scan_result | Decode_Error

text \<open>The page's message: the way to a secure address, or the reason it found.\<close>

datatype cam_error = Insecure_Origin | Unavailable string

datatype stage = At_Gate | At_Resolver | At_Handover

record scan =
  sc_payload :: string
  sc_camera :: bool
  sc_stage :: stage

record scan_page =
  sp_result :: "shown_result option"
  sp_camError :: "cam_error option"
  sp_cameraOn :: bool
  sp_cam :: "camera option"
  sp_paused :: bool
  sp_busy :: bool
  sp_flow :: bool
  sp_scans :: "(nat \<times> scan) list"
  sp_ids :: nat

definition scan_page_init :: scan_page where
  "scan_page_init = \<lparr>sp_result = None, sp_camError = None, sp_cameraOn = False, sp_cam = None, sp_paused = False, sp_busy = False,
     sp_flow = False, sp_scans = [], sp_ids = 0\<rparr>"

definition cameraLive :: "scan_page \<Rightarrow> bool" where
  "cameraLive s \<longleftrightarrow> sp_cam s = Some Scanning \<or> sp_cam s = Some Paused"

text \<open>What the library threw: a text, an object with a message, or neither.\<close>

datatype thrown = Thrown_Text string | Thrown_Error string | Thrown_Other

definition chop :: "string \<Rightarrow> string" where
  "chop s = rev (dropWhile (\<lambda>c. c = CHR ''.'' \<or> js_space c) (rev s))"

definition cameraErrorText :: "thrown \<Rightarrow> string" where
  "cameraErrorText e = (case e of
     Thrown_Text t \<Rightarrow> if Bootstrap.trim t \<noteq> [] then chop (Bootstrap.trim t) else ''permission denied or no camera found''
   | Thrown_Error m \<Rightarrow> if m \<noteq> [] then chop m else ''permission denied or no camera found''
   | Thrown_Other \<Rightarrow> ''permission denied or no camera found'')"

definition camera_failed :: "bool \<Rightarrow> thrown \<Rightarrow> scan_page \<Rightarrow> scan_page" where
  "camera_failed secure e s = s\<lparr>sp_cameraOn := False,
     sp_camError := Some (if \<not> secure then Insecure_Origin else Unavailable (cameraErrorText e))\<rparr>"

text \<open>\<open>startCamera\<close> up to the library's answer; \<open>start_settles\<close> is the answer.\<close>

definition startCamera :: "bool \<Rightarrow> scan_page \<Rightarrow> scan_page" where
  "startCamera secure s =
     (if cameraLive s \<and> \<not> sp_paused s then s\<lparr>sp_camError := None, sp_cameraOn := True\<rparr>
      else let s = s\<lparr>sp_camError := None\<rparr> in
        if sp_paused s \<and> sp_cam s \<noteq> None then
          (if sp_cam s = Some Paused then s\<lparr>sp_cam := Some Scanning, sp_paused := False, sp_cameraOn := True\<rparr>
           else camera_failed secure (Thrown_Text ''Cannot result, scanner is not paused.'') s)
        else (case sp_cam s of
            None \<Rightarrow> s\<lparr>sp_cam := Some Starting\<rparr>
          | Some Not_Started \<Rightarrow> s\<lparr>sp_cam := Some Starting\<rparr>
          | Some Starting \<Rightarrow> camera_failed secure (Thrown_Text ''Cannot transition to a new state, already under transition'') s
          | _ \<Rightarrow> camera_failed secure (Thrown_Text ''Cannot clear while scan is ongoing, close it first.'') s))"

definition start_settles :: "bool \<Rightarrow> thrown option \<Rightarrow> scan_page \<Rightarrow> scan_page" where
  "start_settles secure e s =
     (if sp_cam s \<noteq> Some Starting then s
      else case e of
        None \<Rightarrow> s\<lparr>sp_cam := Some Scanning, sp_cameraOn := True\<rparr>
      | Some x \<Rightarrow> camera_failed secure x (s\<lparr>sp_cam := Some Not_Started\<rparr>))"

section \<open>Scans\<close>

definition doScan :: "string \<Rightarrow> bool \<Rightarrow> scan_page \<Rightarrow> scan_page" where
  "doScan payload camera s = s\<lparr>sp_scans := sp_scans s @ [(sp_ids s, \<lparr>sc_payload = payload, sc_camera = camera,
     sc_stage = (if sp_flow s then At_Gate else At_Resolver)\<rparr>)], sp_ids := Suc (sp_ids s)\<rparr>"

definition end_scan :: "nat \<Rightarrow> scan_page \<Rightarrow> scan_page" where
  "end_scan k s = s\<lparr>sp_busy := (if \<exists>x. map_of (sp_scans s) k = Some x \<and> sc_camera x then False else sp_busy s),
     sp_scans := filter (\<lambda>(j, x). j \<noteq> k) (sp_scans s)\<rparr>"

definition move_scan :: "nat \<Rightarrow> stage \<Rightarrow> scan_page \<Rightarrow> scan_page" where
  "move_scan k st s = s\<lparr>sp_scans := map (\<lambda>(j, x). (j, if j = k then x\<lparr>sc_stage := st\<rparr> else x)) (sp_scans s)\<rparr>"

definition stage_of :: "nat \<Rightarrow> scan_page \<Rightarrow> stage option" where
  "stage_of k s = map_option sc_stage (map_of (sp_scans s) k)"

text \<open>A scan that throws: a photo's shows the card of an unreadable picture, a camera's shows nothing.\<close>

definition throw_scan :: "nat \<Rightarrow> scan_page \<Rightarrow> scan_page" where
  "throw_scan k s = end_scan k (case map_of (sp_scans s) k of
     Some x \<Rightarrow> if sc_camera x then s else s\<lparr>sp_result := Some Decode_Error\<rparr> | None \<Rightarrow> s)"

text \<open>The gate answers; an answer other than \<open>false\<close>, or an error (\<open>None\<close>), lets the scan go on.\<close>

definition gate_answers :: "nat \<Rightarrow> bool option \<Rightarrow> scan_page \<Rightarrow> scan_page" where
  "gate_answers k proceed s = (if stage_of k s \<noteq> Some At_Gate then s
     else if proceed = Some False then end_scan k s else move_scan k At_Resolver s)"

definition resolver_answers :: "nat \<Rightarrow> scan_result option \<Rightarrow> scan_page \<Rightarrow> scan_page" where
  "resolver_answers k r s = (if stage_of k s \<noteq> Some At_Resolver then s
     else case r of
       None \<Rightarrow> throw_scan k s
     | Some x \<Rightarrow> (let s1 = s\<lparr>sp_result := Some (Read x)\<rparr> in if sp_flow s then move_scan k At_Handover s1 else end_scan k s1))"

definition handover_ends :: "nat \<Rightarrow> scan_page \<Rightarrow> scan_page" where
  "handover_ends k s = (if stage_of k s \<noteq> Some At_Handover then s else end_scan k s)"

definition onCameraDecode :: "string \<Rightarrow> scan_page \<Rightarrow> scan_page" where
  "onCameraDecode payload s =
     (if sp_busy s then s
      else let s1 = s\<lparr>sp_busy := True\<rparr>;
               s2 = (if sp_cam s1 = Some Scanning \<and> sp_cameraOn s1 \<and> \<not> sp_paused s1 then s1\<lparr>sp_cam := Some Paused, sp_paused := True\<rparr> else s1)
           in doScan payload True s2)"

text \<open>A picked photo: read to a payload, or not.\<close>

definition onFilePicked :: "string option \<Rightarrow> scan_page \<Rightarrow> scan_page" where
  "onFilePicked read s = (case read of None \<Rightarrow> s\<lparr>sp_result := Some Decode_Error\<rparr> | Some payload \<Rightarrow> doScan payload False s)"

definition scanAgain :: "scan_page \<Rightarrow> scan_page" where
  "scanAgain s =
     (let s = s\<lparr>sp_result := None\<rparr> in
      if sp_paused s \<and> sp_cam s = Some Paused then s\<lparr>sp_cam := Some Scanning, sp_paused := False\<rparr> else s)"

definition setSubmitFlow :: "bool \<Rightarrow> scan_page \<Rightarrow> scan_page" where
  "setSubmitFlow b s = s\<lparr>sp_flow := b\<rparr>"

text \<open>The button is shown while the camera is not on.\<close>

definition start_button_shown :: "scan_page \<Rightarrow> bool" where
  "start_button_shown s \<longleftrightarrow> \<not> sp_cameraOn s"

datatype scan_event =
    Tap_Start | Start_Settles "thrown option" | Frame string | Gate nat "bool option" | Resolved nat "scan_result option" | Handed nat
  | Photo "string option" | Scan_Again | Set_Flow bool

text \<open>A frame is decoded only while the library scans.\<close>

fun page_event :: "bool \<Rightarrow> scan_page \<Rightarrow> scan_event \<Rightarrow> scan_page" where
  "page_event secure s Tap_Start = startCamera secure s"
| "page_event secure s (Start_Settles e) = start_settles secure e s"
| "page_event secure s (Frame t) = (if sp_cam s = Some Scanning then onCameraDecode t s else s)"
| "page_event secure s (Gate k p) = gate_answers k p s"
| "page_event secure s (Resolved k r) = resolver_answers k r s"
| "page_event secure s (Handed k) = handover_ends k s"
| "page_event secure s (Photo r) = onFilePicked r s"
| "page_event secure s Scan_Again = scanAgain s"
| "page_event secure s (Set_Flow b) = setSubmitFlow b s"

section \<open>The card\<close>

record card =
  cd_class :: string
  cd_head :: string
  cd_slot :: bool

definition SLOT_KINDS :: "string list" where
  "SLOT_KINDS = [''offerReady'', ''embeddedOffer'', ''unknownCode'', ''deferToServer'']"

definition kind_of :: "shown_result \<Rightarrow> string" where
  "kind_of r = (case r of
     Decode_Error \<Rightarrow> ''decodeError''
   | Read x \<Rightarrow> (case x of
       InvalidPayload \<Rightarrow> ''invalidPayload'' | OfferReadyResult h os \<Rightarrow> ''offerReady'' | SpentLocallyResult h w b \<Rightarrow> ''spentLocally''
     | DeferToServer h w b e \<Rightarrow> ''deferToServer'' | ExpiredLocallyResult h w \<Rightarrow> ''expiredLocally''
     | EmbeddedOffer h e x \<Rightarrow> ''embeddedOffer'' | UnknownCodeResult h \<Rightarrow> ''unknownCode''))"

definition resultCard :: "shown_result \<Rightarrow> card" where
  "resultCard r =
     (let k = kind_of r in
      \<lparr>cd_class = (if k = ''offerReady'' then ''rc-ok'' else if k \<in> {''embeddedOffer'', ''unknownCode'', ''deferToServer''} then ''rc-warn'' else ''rc-bad''),
       cd_head = (case r of
          Decode_Error \<Rightarrow> ''No QR code found''
        | Read x \<Rightarrow> (case x of
            InvalidPayload \<Rightarrow> ''Not a Yumyums code''
          | OfferReadyResult h os \<Rightarrow> digits10 (length os) @ '' offer'' @ (if length os = 1 then [] else ''s'') @ '' available''
          | SpentLocallyResult h w b \<Rightarrow> ''Already used''
          | DeferToServer h w b e \<Rightarrow> ''Shows as used on this device''
          | ExpiredLocallyResult h w \<Rightarrow> ''Expired''
          | EmbeddedOffer h e x \<Rightarrow> e_label e
          | UnknownCodeResult h \<Rightarrow> ''Code not recognized'')),
       cd_slot = (k \<in> set SLOT_KINDS)\<rparr>)"

end
