(* ===== verification/ScanPageProps.thy ===== *)
theory ScanPageProps
  imports Complex_Main ScanPage
begin

text \<open>
  The camera page over any order of taps, frames, answers and token requests: the replications are armed once and as one block,
  under which identity the queue is pushed, and what the camera shows.
\<close>

section \<open>Arming\<close>

definition is_start :: "sync_effect \<Rightarrow> bool" where
  "is_start e \<longleftrightarrow> e \<notin> {Resync_Codes, Resync_Offers, Resync_Campaigns}"

definition block :: "json \<Rightarrow> sync_effect list" where
  "block cfg = [Start_Campaigns (prop_of cfg ''restUrl'') (prop_of cfg ''bearer''), Attach_Policy,
       Start_Codes (prop_of cfg ''restUrl'') (prop_of cfg ''bearer''), Start_Offers (prop_of cfg ''restUrl'') (prop_of cfg ''bearer'')]
     @ (if SyncScope.truthy (prop_of cfg ''deviceId'') then [Start_Push (prop_of cfg ''restUrl'') (prop_of cfg ''bearer'') (prop_of cfg ''deviceId'')] else [])"

definition arms :: "json \<Rightarrow> bool" where
  "arms cfg \<longleftrightarrow> SyncScope.truthy (prop_of cfg ''restUrl'') \<and> SyncScope.truthy (prop_of cfg ''bearer'')"

lemma start_cases: "startSync cfg s = (if arms cfg \<and> \<not> sy_handles s then s\<lparr>sy_handles := True, sy_log := sy_log s @ block cfg\<rparr> else s)"
  by (simp add: startSync_def arms_def block_def Let_def)

lemma block_starts [simp]: "filter is_start (block cfg) = block cfg" "filter is_start [Resync_Codes, Resync_Offers, Resync_Campaigns] = []"
  by (simp_all add: block_def is_start_def)

text \<open>The configuration the endpoint's answer gives.\<close>

definition minted :: "(json \<Rightarrow> string) \<Rightarrow> http option \<Rightarrow> json option" where
  "minted text_of r = (case r of None \<Rightarrow> None | Some res \<Rightarrow> if status res \<noteq> 200 then None else (case body res of None \<Rightarrow> None | Some v \<Rightarrow>
     if SyncScope.truthy v \<and> SyncScope.truthy (prop_of v ''token'') \<and> SyncScope.truthy (prop_of v ''sub'')
     then Some (JObj [(''restUrl'', JStr ''/sync/rest''), (''bearer'', prop_of v ''token''), (''deviceId'', JStr (text_of (prop_of v ''sub'')))])
     else None))"

lemma provision_cases: "provisionSync text_of r w s =
    (case minted text_of r of None \<Rightarrow> s | Some cfg \<Rightarrow> startSync cfg (if w then s\<lparr>sy_stored := cfg\<rparr> else s))"
  by (simp add: provisionSync_def minted_def Let_def split: option.split)

definition armed_with :: "arming \<Rightarrow> json option \<Rightarrow> bool" where
  "armed_with s c \<longleftrightarrow> filter is_start (sy_log s) = (case c of None \<Rightarrow> [] | Some cfg \<Rightarrow> block cfg) \<and> (sy_handles s \<longleftrightarrow> c \<noteq> None)"

lemma not_starts [simp]: "\<not> is_start Resync_Codes" "\<not> is_start Resync_Offers" "\<not> is_start Resync_Campaigns"
  by (simp_all add: is_start_def)

lemma start_armed:
  "armed_with s c \<Longrightarrow> armed_with (startSync cfg s) (case c of Some x \<Rightarrow> Some x | None \<Rightarrow> if arms cfg then Some cfg else None)"
  by (auto simp: armed_with_def start_cases split: option.splits)

lemma stored_armed [simp]: "armed_with (s\<lparr>sy_stored := v\<rparr>) c = armed_with s c"
  by (simp add: armed_with_def)

lemma provision_armed:
  assumes "armed_with s c"
  shows "armed_with (provisionSync text_of r w s)
     (case c of Some x \<Rightarrow> Some x | None \<Rightarrow> (case minted text_of r of Some cfg \<Rightarrow> if arms cfg then Some cfg else None | None \<Rightarrow> None))"
proof (cases "minted text_of r")
  case None
  then show ?thesis using assms by (cases c) (simp_all add: provision_cases)
next
  case (Some cfg)
  have "armed_with (if w then s\<lparr>sy_stored := cfg\<rparr> else s) c" using assms by simp
  then show ?thesis using start_armed [of "if w then s\<lparr>sy_stored := cfg\<rparr> else s" c cfg] by (cases c) (simp_all add: provision_cases Some)
qed

lemma armed_stays: "armed_with s (Some cfg) \<Longrightarrow> armed_with (sync_step text_of s e) (Some cfg)"
  by (cases e) (auto dest: start_armed provision_armed, simp add: armed_with_def resync_def)

lemma armed_run: "armed_with s (Some cfg) \<Longrightarrow> armed_with (foldl (sync_step text_of) s es) (Some cfg)"
  by (induction es arbitrary: s) (auto intro: armed_stays)

lemma armed_step:
  assumes "armed_with s None"
  obtains "armed_with (sync_step text_of s e) None"
  | cfg where "armed_with (sync_step text_of s e) (Some cfg)" "arms cfg" "e = Start_Sync cfg \<or> (\<exists>r w. e = Provisioned r w \<and> minted text_of r = Some cfg)"
proof (cases e)
  case (Provisioned r w)
  then show ?thesis using provision_armed [OF assms, of text_of r w] that by (auto split: option.splits if_splits)
next
  case (Start_Sync cfg)
  then show ?thesis using start_armed [OF assms, of cfg] that by (auto split: if_splits)
next
  case Resync
  then show ?thesis using assms that by (auto simp: armed_with_def resync_def)
qed

lemma armed_load: "armed_with (load_scan_page sc) (if SyncScope.truthy sc \<and> arms sc then Some sc else None)"
  by (simp add: load_scan_page_def Let_def start_cases armed_with_def)

lemma run_armed:
  "\<exists>c. armed_with (foldl (sync_step text_of) (load_scan_page sc) es) c \<and> (\<forall>cfg. c = Some cfg \<longrightarrow>
     arms cfg \<and> (cfg = sc \<or> Start_Sync cfg \<in> set es \<or> (\<exists>r w. Provisioned r w \<in> set es \<and> minted text_of r = Some cfg)))"
proof (induction es rule: rev_induct)
  case Nil
  then show ?case using armed_load [of sc]
    by (intro exI [of _ "if SyncScope.truthy sc \<and> arms sc then Some sc else None"]) auto
next
  case (snoc e es)
  then obtain c where c: "armed_with (foldl (sync_step text_of) (load_scan_page sc) es) c"
    "\<forall>cfg. c = Some cfg \<longrightarrow> arms cfg \<and> (cfg = sc \<or> Start_Sync cfg \<in> set es \<or> (\<exists>r w. Provisioned r w \<in> set es \<and> minted text_of r = Some cfg))" by blast
  show ?case
  proof (cases c)
    case (Some cfg)
    then show ?thesis using c armed_stays [of _ cfg text_of e] by (intro exI [of _ c]) auto
  next
    case None
    show ?thesis using c(1) unfolding None by (cases rule: armed_step [of _ text_of e]) auto
  qed
qed

text \<open>C27: the page arms its sync once, as a block, under an identity it was given. In any run of a load of the page, whatever was stored,
  asked for by hand or answered by the token endpoint, the replications were started at most once, the policy's latch
  directly after the campaigns and before anything else, and the queue is pushed only under the identity stored, given, or
  minted in the run, never without one.\<close>
theorem sync_arms_once:
  assumes "s = foldl (sync_step text_of) (load_scan_page sc) es"
  shows "filter is_start (sy_log s) = [] \<or> (\<exists>cfg. filter is_start (sy_log s) = block cfg \<and> take 2 (block cfg) = [Start_Campaigns (prop_of cfg ''restUrl'') (prop_of cfg ''bearer''), Attach_Policy]
    \<and> (cfg = sc \<or> Start_Sync cfg \<in> set es \<or> (\<exists>r w. Provisioned r w \<in> set es \<and> minted text_of r = Some cfg)))"
proof -
  obtain c where c: "armed_with s c" "\<forall>cfg. c = Some cfg \<longrightarrow> arms cfg \<and> (cfg = sc \<or> Start_Sync cfg \<in> set es
      \<or> (\<exists>r w. Provisioned r w \<in> set es \<and> minted text_of r = Some cfg))"
    using run_armed [of text_of sc es] assms by blast
  have "take 2 (block cfg) = [Start_Campaigns (prop_of cfg ''restUrl'') (prop_of cfg ''bearer''), Attach_Policy]" for cfg by (simp add: block_def)
  then show ?thesis using c by (cases c) (auto simp: armed_with_def)
qed

text \<open>stored coordinates outlive their owner. If the device holds coordinates of one person with an identity, then whatever the token
  endpoint answers for the person now signed in, the queue is pushed under the stored identity for as long as the page lives,
  although the new coordinates are in the store.\<close>
theorem stale_coordinates_win:
  assumes "SyncScope.truthy sc" and "arms sc" and "prop_of sc ''deviceId'' = JStr previous" and "previous \<noteq> []"
    and "minted text_of r = Some cfg" and "s = foldl (sync_step text_of) (load_scan_page sc) (Provisioned r True # es)"
    and "\<forall>e \<in> set es. \<forall>q w. e = Provisioned q w \<longrightarrow> minted text_of q = None"
  shows "Start_Push (prop_of sc ''restUrl'') (prop_of sc ''bearer'') (JStr previous) \<in> set (sy_log s)
    \<and> (\<forall>u b d. Start_Push u b d \<in> set (sy_log s) \<longrightarrow> d = JStr previous) \<and> sy_stored s = cfg"
proof -
  have a: "armed_with s (Some sc)"
    unfolding assms(6) using armed_load [of sc] assms(1,2) by (intro armed_run) simp
  have log: "filter is_start (sy_log s) = block sc" using a by (simp add: armed_with_def)
  have push: "Start_Push u b d \<in> set (sy_log s) \<longleftrightarrow> Start_Push u b d \<in> set (block sc)" for u b d
    using arg_cong [OF log, of set] by (auto simp: is_start_def)
  have st: "sy_stored (startSync c t) = sy_stored t" for c t by (simp add: start_cases)
  have later: "sy_stored (foldl (sync_step text_of) t es) = sy_stored t" for t
    using assms(7)
  proof (induction es arbitrary: t)
    case (Cons e es)
    have "sy_stored (sync_step text_of t e) = sy_stored t"
      using Cons.prems by (cases e) (auto simp: st provision_cases resync_def split: option.split)
    then show ?case using Cons by simp
  qed simp
  have "sy_stored s = cfg" unfolding assms(6) by (simp add: later provision_cases assms(5) st)
  then show ?thesis using push assms(3,4) by (auto simp: block_def SyncScope.truthy_def)
qed

section \<open>The camera\<close>

definition camera_scans :: "scan_page \<Rightarrow> (nat \<times> scan) list" where
  "camera_scans s = filter (\<lambda>(k, x). sc_camera x) (sp_scans s)"

definition page_ok :: "scan_page \<Rightarrow> bool" where
  "page_ok s \<longleftrightarrow> (sp_paused s \<longrightarrow> sp_cam s = Some Paused) \<and> (sp_cameraOn s \<longrightarrow> cameraLive s)
     \<and> length (camera_scans s) = (if sp_busy s then 1 else 0)
     \<and> distinct (map fst (sp_scans s)) \<and> (\<forall>(k, x) \<in> set (sp_scans s). k < sp_ids s)"

lemma camera_ok: "page_ok s \<Longrightarrow> page_ok (startCamera b s)" "page_ok s \<Longrightarrow> page_ok (start_settles b e s)" "page_ok s \<Longrightarrow> page_ok (scanAgain s)"
  by (auto simp: page_ok_def startCamera_def start_settles_def scanAgain_def camera_failed_def cameraLive_def camera_scans_def Let_def
      split: option.splits camera.splits)

lemma doScan_ok:
  assumes "page_ok (s\<lparr>sp_busy := b\<rparr>)" and "c \<longrightarrow> \<not> b"
  shows "page_ok (doScan p c (s\<lparr>sp_busy := b \<or> c\<rparr>))"
  using assms by (auto simp: page_ok_def doScan_def cameraLive_def camera_scans_def)

lemma restage_keys [simp]:
  fixes xs :: "(nat \<times> scan) list"
  shows "map fst (map (\<lambda>(j, x). (j, if j = k then x\<lparr>sc_stage := st\<rparr> else x)) xs) = map fst xs"
  by (induction xs) auto

lemma restage_camera [simp]:
  fixes xs :: "(nat \<times> scan) list"
  shows "length (filter (\<lambda>(k, x). sc_camera x) (map (\<lambda>(j, x). (j, if j = k then x\<lparr>sc_stage := st\<rparr> else x)) xs)) = length (filter (\<lambda>(k, x). sc_camera x) xs)"
  by (induction xs) (auto split: if_splits)

lemma move_ok:
  assumes "page_ok s"
  shows "page_ok (move_scan k st s)"
proof -
  have keys: "map fst (sp_scans (move_scan k st s)) = map fst (sp_scans s)" by (simp add: move_scan_def del: map_map)
  have cams: "length (camera_scans (move_scan k st s)) = length (camera_scans s)" unfolding camera_scans_def move_scan_def by (simp del: map_map length_filter_map)
  have ids: "\<forall>(j, x) \<in> set (sp_scans (move_scan k st s)). j < sp_ids s" using assms by (auto simp: move_scan_def page_ok_def)
  have rest: "sp_paused (move_scan k st s) = sp_paused s" "sp_cam (move_scan k st s) = sp_cam s" "sp_cameraOn (move_scan k st s) = sp_cameraOn s"
    "sp_busy (move_scan k st s) = sp_busy s" "sp_ids (move_scan k st s) = sp_ids s" by (simp_all add: move_scan_def)
  show ?thesis using assms ids unfolding page_ok_def cameraLive_def rest keys cams by blast
qed

lemma end_ok:
  assumes "page_ok s"
  shows "page_ok (end_scan k s)"
proof -
  define cs where "cs = camera_scans s"
  have key: "(k, x) \<in> set (sp_scans s) \<Longrightarrow> map_of (sp_scans s) k = Some x" for x using assms by (simp add: page_ok_def)
  have left: "camera_scans (end_scan k s) = filter (\<lambda>(j, x). j \<noteq> k) cs"
    by (simp add: cs_def camera_scans_def end_scan_def conj_commute case_prod_unfold)
  have one: "length cs = (if sp_busy s then 1 else 0)" using assms by (simp add: page_ok_def cs_def)
  have count: "length (filter (\<lambda>(j, x). j \<noteq> k) cs) = (if sp_busy (end_scan k s) then 1 else 0)"
  proof (cases "\<exists>x. map_of (sp_scans s) k = Some x \<and> sc_camera x")
    case True
    then obtain x where x: "map_of (sp_scans s) k = Some x" "sc_camera x" by blast
    have "(k, x) \<in> set cs" using map_of_SomeD [OF x(1)] x(2) by (simp add: cs_def camera_scans_def)
    then have "cs = [(k, x)]" using one by (cases cs) (auto split: if_splits)
    then show ?thesis using x by (simp add: end_scan_def)
  next
    case False
    have "filter (\<lambda>(j, x). j \<noteq> k) cs = cs"
      unfolding filter_id_conv using key False by (auto simp: cs_def camera_scans_def)
    moreover have "sp_busy (end_scan k s) = sp_busy s" using False by (auto simp: end_scan_def)
    ultimately show ?thesis using one by simp
  qed
  have d: "distinct (map fst (filter (\<lambda>(j, x). j \<noteq> k) (sp_scans s)))" using assms unfolding page_ok_def by (intro distinct_map_filter) simp
  show ?thesis using assms d count left by (auto simp: page_ok_def end_scan_def cameraLive_def)
qed

lemma shown_ok [simp]: "page_ok (s\<lparr>sp_result := r\<rparr>) = page_ok s" "page_ok (s\<lparr>sp_flow := b\<rparr>) = page_ok s"
  by (simp_all add: page_ok_def cameraLive_def camera_scans_def)

lemma throw_ok: "page_ok s \<Longrightarrow> page_ok (throw_scan k s)"
  by (auto simp: throw_scan_def intro!: end_ok split: option.split)

lemma frame_ok:
  assumes "page_ok s"
  shows "page_ok (onCameraDecode t s)"
  using assms by (auto simp: page_ok_def onCameraDecode_def doScan_def cameraLive_def camera_scans_def Let_def)

lemma photo_ok: "page_ok s \<Longrightarrow> page_ok (onFilePicked r s)"
  by (auto simp: onFilePicked_def doScan_def page_ok_def cameraLive_def camera_scans_def split: option.split)

lemma event_ok: "page_ok s \<Longrightarrow> page_ok (page_event b s e)"
  by (cases e) (auto simp: camera_ok frame_ok photo_ok gate_answers_def resolver_answers_def handover_ends_def setSubmitFlow_def Let_def
      intro: end_ok move_ok throw_ok split: option.split)

lemma run_ok: "page_ok s \<Longrightarrow> page_ok (foldl (page_event b) s es)"
  by (induction es arbitrary: s) (simp_all add: event_ok)

lemma init_ok: "page_ok scan_page_init"
  by (simp add: page_ok_def scan_page_init_def camera_scans_def)

text \<open>the camera reads one code at a time. In any run of the page there is at most one camera scan in flight, the page is busy exactly
  while there is one, and a frame decoded meanwhile changes nothing; the button is hidden only over a live camera, and the page
  holds itself paused only over a paused library.\<close>
theorem camera_scans_singly:
  fixes secure es
  defines "s \<equiv> foldl (page_event secure) scan_page_init es"
  shows "length (filter (\<lambda>(k, x). sc_camera x) (sp_scans s)) = (if sp_busy s then 1 else 0)
    \<and> (sp_busy s \<longrightarrow> page_event secure s (Frame t) = s)
    \<and> (start_button_shown s \<or> cameraLive s) \<and> (sp_paused s \<longrightarrow> sp_cam s = Some Paused)"
  using run_ok [OF init_ok, of secure es]
  by (simp add: s_def [symmetric] page_ok_def camera_scans_def onCameraDecode_def start_button_shown_def)

theorem camera_scans_singly_witness:
  "page_event True (foldl (page_event True) scan_page_init [Tap_Start, Start_Settles None, Frame ''a'']) (Frame ''b'')
     = foldl (page_event True) scan_page_init [Tap_Start, Start_Settles None, Frame ''a'']"
  using camera_scans_singly [of True "[Tap_Start, Start_Settles None, Frame ''a'']" "''b''"]
  by (simp add: scan_page_init_def startCamera_def start_settles_def onCameraDecode_def doScan_def cameraLive_def)

definition blamed :: "scan_page \<Rightarrow> bool" where
  "blamed s \<longleftrightarrow> cameraLive s \<and> sp_cameraOn s \<and> sp_camError s = Some (Unavailable ''Cannot transition to a new state, already under transition'')"

lemma scan_shows [simp]:
  "sp_cam (move_scan k st s) = sp_cam s" "sp_cameraOn (move_scan k st s) = sp_cameraOn s" "sp_camError (move_scan k st s) = sp_camError s"
  "sp_cam (end_scan k s) = sp_cam s" "sp_cameraOn (end_scan k s) = sp_cameraOn s" "sp_camError (end_scan k s) = sp_camError s"
  "sp_cam (throw_scan k s) = sp_cam s" "sp_cameraOn (throw_scan k s) = sp_cameraOn s" "sp_camError (throw_scan k s) = sp_camError s"
  "sp_cam (doScan p c s) = sp_cam s" "sp_cameraOn (doScan p c s) = sp_cameraOn s" "sp_camError (doScan p c s) = sp_camError s"
  by (simp_all add: move_scan_def end_scan_def throw_scan_def doScan_def split: option.split)

lemma blamed_same [simp]:
  "blamed (move_scan k st s) = blamed s" "blamed (end_scan k s) = blamed s" "blamed (throw_scan k s) = blamed s" "blamed (doScan p c s) = blamed s"
  "blamed (s\<lparr>sp_result := r\<rparr>) = blamed s" "blamed (s\<lparr>sp_flow := f\<rparr>) = blamed s" "blamed (s\<lparr>sp_busy := f\<rparr>) = blamed s"
  by (simp_all add: blamed_def cameraLive_def)

lemma blamed_swap: "blamed s \<Longrightarrow> c = Scanning \<or> c = Paused \<Longrightarrow> blamed (s\<lparr>sp_cam := Some c, sp_paused := p\<rparr>)"
  by (auto simp: blamed_def cameraLive_def)

lemma blamed_step:
  assumes "blamed s" and "e \<noteq> Tap_Start"
  shows "blamed (page_event b s e)"
proof (cases e)
  case (Start_Settles x)
  then show ?thesis using assms by (auto simp: start_settles_def blamed_def cameraLive_def)
next
  case (Frame t)
  then show ?thesis using assms(1) blamed_swap [of "s\<lparr>sp_busy := True\<rparr>" Paused True] by (simp add: onCameraDecode_def Let_def)
next
  case Scan_Again
  then show ?thesis using assms by (simp add: scanAgain_def Let_def blamed_swap)
qed (use assms in \<open>simp_all add: gate_answers_def resolver_answers_def handover_ends_def onFilePicked_def setSubmitFlow_def Let_def split: option.split\<close>)

lemma blamed_run: "blamed s \<Longrightarrow> Tap_Start \<notin> set es \<Longrightarrow> blamed (foldl (page_event b) s es)"
  by (induction es arbitrary: s) (simp_all add: blamed_step eq_commute [of Tap_Start] del: page_event.simps)

text \<open>a second tap blames a camera that works. While the camera is not yet up the button is still shown after a tap; a second tap makes the
  library refuse, and once the first start succeeds the page shows the live picture with the message that the camera is
  unavailable, which no frame, scan or answer takes away: only another call of the start, whose button is now hidden, would.\<close>
theorem double_tap_blames_live_camera:
  assumes "sp_cam s = None \<or> sp_cam s = Some Not_Started" and "\<not> sp_paused s" and "\<not> sp_cameraOn s"
    and "t = foldl (page_event True) s ([Tap_Start, Tap_Start, Start_Settles None] @ es)" and "Tap_Start \<notin> set es"
  shows "start_button_shown (page_event True s Tap_Start) \<and> cameraLive t \<and> \<not> start_button_shown t
    \<and> sp_camError t = Some (Unavailable ''Cannot transition to a new state, already under transition'')"
proof -
  define why where "why = Unavailable (cameraErrorText (Thrown_Text ''Cannot transition to a new state, already under transition''))"
  have message: "why = Unavailable ''Cannot transition to a new state, already under transition''" unfolding why_def by code_simp
  have one: "page_event True s Tap_Start = s\<lparr>sp_camError := None, sp_cam := Some Starting\<rparr>"
    using assms(1-3) by (auto simp: startCamera_def cameraLive_def Let_def)
  have two: "page_event True (s\<lparr>sp_camError := None, sp_cam := Some Starting\<rparr>) Tap_Start = s\<lparr>sp_camError := Some why, sp_cam := Some Starting, sp_cameraOn := False\<rparr>"
    using assms(2) by (simp add: startCamera_def cameraLive_def camera_failed_def why_def Let_def)
  have "blamed (foldl (page_event True) s [Tap_Start, Tap_Start, Start_Settles None])"
    using message by (simp only: foldl_Cons foldl_Nil one two) (simp add: start_settles_def blamed_def cameraLive_def)
  then have "blamed t" unfolding assms(4) foldl_append using assms(5) by (rule blamed_run)
  moreover have "start_button_shown (page_event True s Tap_Start)" unfolding one using assms(3) by (simp add: start_button_shown_def)
  ultimately show ?thesis by (simp add: blamed_def start_button_shown_def)
qed

theorem double_tap_blames_live_camera_witness:
  "sp_camError (foldl (page_event True) scan_page_init ([Tap_Start, Tap_Start, Start_Settles None] @ [Frame ''a'', Scan_Again])) \<noteq> None"
  using double_tap_blames_live_camera [of scan_page_init _ "[Frame ''a'', Scan_Again]", OF _ _ _ refl] by (simp add: scan_page_init_def)

section \<open>Witnesses of the arming\<close>

definition demo_cfg :: "string \<Rightarrow> json" where
  "demo_cfg who = JObj [(''restUrl'', JStr ''/sync/rest''), (''bearer'', JStr ''b''), (''deviceId'', JStr who)]"

definition demo_mint :: "http option" where
  "demo_mint = Some \<lparr>status = 200, body = Some (JObj [(''token'', JStr ''t''), (''sub'', JStr ''bo'')])\<rparr>"

theorem sync_arms_once_witness:
  "\<exists>cfg. filter is_start (sy_log (foldl (sync_step (\<lambda>j. ''bo'')) (load_scan_page (demo_cfg ''ann'')) [Provisioned demo_mint True, Resync])) = block cfg"
proof -
  have "filter is_start (sy_log (foldl (sync_step (\<lambda>j. ''bo'')) (load_scan_page (demo_cfg ''ann'')) [Provisioned demo_mint True, Resync])) \<noteq> []" by code_simp
  then show ?thesis using sync_arms_once [OF refl, of "\<lambda>j. ''bo''" "demo_cfg ''ann''" "[Provisioned demo_mint True, Resync]"] by blast
qed

theorem stale_coordinates_win_witness:
  "Start_Push (JStr ''/sync/rest'') (JStr ''b'') (JStr ''ann'') \<in> set (sy_log (foldl (sync_step (\<lambda>j. ''bo'')) (load_scan_page (demo_cfg ''ann'')) [Provisioned demo_mint True]))"
proof -
  have a: "SyncScope.truthy (demo_cfg ''ann'')" "arms (demo_cfg ''ann'')" "prop_of (demo_cfg ''ann'') ''deviceId'' = JStr ''ann''"
    "minted (\<lambda>j. ''bo'') demo_mint = Some (JObj [(''restUrl'', JStr ''/sync/rest''), (''bearer'', JStr ''t''), (''deviceId'', JStr ''bo'')])"
    "prop_of (demo_cfg ''ann'') ''restUrl'' = JStr ''/sync/rest''" "prop_of (demo_cfg ''ann'') ''bearer'' = JStr ''b''"
    by code_simp+
  show ?thesis using stale_coordinates_win [OF a(1-3) _ a(4) refl, of "[]"] a(5,6) by simp
qed

end
