(* ===== verification/PageHelpers.thy ===== *)
theory PageHelpers
  imports Complex_Main SwBuild ApiCache ScanPage SubmitView
begin

text \<open>
  The scripts every page loads: what an item is called (\<^verbatim>\<open>item-name.js\<close>), the server's health (\<^verbatim>\<open>health-banner.js\<close>), the open
  tab (\<^verbatim>\<open>tab.js\<close>), the pull to refresh (\<^verbatim>\<open>ptr.js\<close>), the shipped log (\<^verbatim>\<open>log.js\<close>), and how the camera page says that
  it did not start (\<^verbatim>\<open>marketing/boot-failure.js\<close>).
\<close>

section \<open>Names of items\<close>

fun firstString :: "json list \<Rightarrow> string" where
  "firstString [] = []"
| "firstString (v # vs) = (case v of JStr s \<Rightarrow> if Bootstrap.trim s \<noteq> [] then s else firstString vs | _ \<Rightarrow> firstString vs)"

definition itemIdentity :: "json \<Rightarrow> string" where
  "itemIdentity v = (if \<not> SyncScope.truthy v then []
     else firstString [prop_of v ''item_name'', prop_of v ''description'', prop_of v ''name''])"

definition itemName :: "json \<Rightarrow> string" where
  "itemName v = (if \<not> SyncScope.truthy v then []
     else firstString [prop_of v ''display_name'', prop_of v ''item_display_name'', JStr (itemIdentity v)])"

text \<open>\<open>lc\<close> is the runtime's lower case of a text.\<close>

definition itemSubName :: "(string \<Rightarrow> string) \<Rightarrow> json \<Rightarrow> string" where
  "itemSubName lc v = (if itemIdentity v = [] \<or> lc (itemIdentity v) = lc (itemName v) then [] else itemIdentity v)"

section \<open>The health of the server\<close>

record warning =
  w_key :: string
  w_value :: json

text \<open>\<open>JNull\<close> is the health of a server that did not answer. A page asks for checks by name.\<close>

definition CHECKS :: "(string \<times> (json \<Rightarrow> warning option)) list" where
  "CHECKS =
     [(''server'', \<lambda>h. if h = JNull then Some \<lparr>w_key = ''server'', w_value = JStr ''unreachable''\<rparr> else None),
      (''storage'', \<lambda>h. if SyncScope.truthy h \<and> prop_of h ''storage'' = JStr ''unreachable''
         then Some \<lparr>w_key = ''storage'', w_value = prop_of h ''storage''\<rparr> else None),
      (''toast'', \<lambda>h. if SyncScope.truthy h \<and> SyncScope.truthy (prop_of h ''toast_sync'') \<and> prop_of (prop_of h ''toast_sync'') ''status'' = JStr ''failing''
         then Some \<lparr>w_key = ''toast_sync'', w_value = prop_of (prop_of h ''toast_sync'') ''status''\<rparr> else None),
      (''substrate'', \<lambda>h. if SyncScope.truthy h \<and> prop_of h ''sync_substrate'' = JStr ''unreachable''
         then Some \<lparr>w_key = ''sync_substrate'', w_value = prop_of h ''sync_substrate''\<rparr> else None)]"

text \<open>The answer of the poll: \<open>None\<close> if the request failed, a body of \<open>None\<close> if it is not JSON.\<close>

definition health_of :: "http option \<Rightarrow> json" where
  "health_of r = (case r of None \<Rightarrow> JNull
     | Some res \<Rightarrow> if 200 \<le> http.status res \<and> http.status res \<le> 299 then (case http.body res of None \<Rightarrow> JNull | Some h \<Rightarrow> h) else JNull)"

definition warnings_of :: "json \<Rightarrow> string list \<Rightarrow> warning list" where
  "warnings_of h names = concat (map (\<lambda>n. case map_of CHECKS n of None \<Rightarrow> []
     | Some c \<Rightarrow> (case c h of None \<Rightarrow> [] | Some w \<Rightarrow> [w])) names)"

text \<open>What the banner then shows, hidden without a warning.\<close>

definition refresh :: "http option \<Rightarrow> string list \<Rightarrow> warning list option" where
  "refresh r names = (let ws = warnings_of (health_of r) names in if ws = [] then None else Some ws)"

section \<open>Tabs\<close>

definition digit_rx :: rx where "digit_rx = Ch is_digit"

definition HASH_TAB :: rx where
  "HASH_TAB = Seq (word_rx ''tab='') (Capture (Seq digit_rx (Greedy digit_rx)))"

definition digits_value :: "string \<Rightarrow> nat" where
  "digits_value s = foldl (\<lambda>n c. 10 * n + (of_char c - 48)) 0 s"

text \<open>\<open>count\<close> and \<open>home\<close> are the numbers of the script's attributes.\<close>

definition active_tab :: "nat \<Rightarrow> nat \<Rightarrow> string \<Rightarrow> nat" where
  "active_tab count home hash =
     (let a = (case matchAll HASH_TAB None hash of [] \<Rightarrow> home | x # _ \<Rightarrow> digits_value x)
      in if a < (if home = 0 then 0 else 1) \<or> count < a then home else a)"

definition tab_slots :: "nat \<Rightarrow> nat \<Rightarrow> string \<Rightarrow> (nat \<times> bool) list" where
  "tab_slots count home hash = map (\<lambda>i. (i, i = active_tab count home hash)) [0..<Suc count]"

section \<open>Pull to refresh\<close>

text \<open>The indicator's height, its text as whether it says release, and the reloads asked for.\<close>

record pull =
  pl_start :: rat
  pl_pulling :: bool
  pl_height :: rat
  pl_release :: bool
  pl_reloads :: nat

definition pull_init :: pull where
  "pull_init = \<lparr>pl_start = 0, pl_pulling = False, pl_height = 0, pl_release = True, pl_reloads = 0\<rparr>"

text \<open>The overflow styles from the touched element up to the body.\<close>

definition insideScrollable :: "string list \<Rightarrow> bool" where
  "insideScrollable styles \<longleftrightarrow> (\<exists>ov \<in> set styles. ov = ''auto'' \<or> ov = ''scroll'')"

definition touchstart :: "string list \<Rightarrow> rat \<Rightarrow> nat \<Rightarrow> rat \<Rightarrow> pull \<Rightarrow> pull" where
  "touchstart styles scrollY touches y s =
     (if insideScrollable styles then s
      else if scrollY = 0 \<and> touches = 1 then s\<lparr>pl_start := y, pl_pulling := True\<rparr> else s)"

definition touchmove :: "rat \<Rightarrow> pull \<Rightarrow> pull" where
  "touchmove y s =
     (if \<not> pl_pulling s then s
      else let dy = y - pl_start s in
        if 0 < dy \<and> dy < 150 then s\<lparr>pl_height := min (dy / 2) 50, pl_release := 80 < dy\<rparr> else s)"

definition touchend :: "pull \<Rightarrow> pull" where
  "touchend s =
     (if \<not> pl_pulling s then s
      else if 40 \<le> \<lfloor>pl_height s\<rfloor> then s\<lparr>pl_pulling := False, pl_reloads := Suc (pl_reloads s)\<rparr>
      else s\<lparr>pl_pulling := False, pl_height := 0\<rparr>)"

section \<open>The shipped log\<close>

text \<open>An argument of the console: an error with its stack, an object with its JSON (\<open>None\<close> if it has none) and its text, or
  anything else as text.\<close>

datatype log_arg = Logged_Error string string | Logged_Object "string option" string | Logged_Text string

definition arg_text :: "log_arg \<Rightarrow> string" where
  "arg_text a = (case a of
     Logged_Error m st \<Rightarrow> m @ (if st \<noteq> [] then CHR 0x0A # st else [])
   | Logged_Object j t \<Rightarrow> (case j of None \<Rightarrow> t | Some x \<Rightarrow> if x = ''{}'' then t else x)
   | Logged_Text t \<Rightarrow> t)"

definition shipLog :: "string \<Rightarrow> log_arg list \<Rightarrow> string \<Rightarrow> string \<Rightarrow> doc" where
  "shipLog level args pathname ua =
     [(''level'', JStr level), (''message'', JStr (join '' '' (map arg_text args))), (''url'', JStr pathname), (''ua'', JStr (take 120 ua))]"

section \<open>A page that did not start\<close>

fun rx_test :: "rx \<Rightarrow> char option \<Rightarrow> string \<Rightarrow> bool" where
  "rx_test r q [] = (ends r q [] None \<noteq> [])"
| "rx_test r q (a # s) = (ends r q (a # s) None \<noteq> [] \<or> rx_test r (Some a) s)"

text \<open>The two numbers at the head of a dotted address.\<close>

definition dotted_head :: "string \<Rightarrow> (string \<times> string) option" where
  "dotted_head h =
     (let a = takeWhile is_digit h; r = drop (length a) h; b = takeWhile is_digit (drop 1 r); t = drop (length b) (drop 1 r)
      in if length a \<in> {1, 2, 3} \<and> take 1 r = ''.'' \<and> length b \<in> {1, 2, 3} \<and> take 1 t = ''.'' then Some (a, b) else None)"

definition ends_with :: "string \<Rightarrow> string \<Rightarrow> bool" where
  "ends_with p s \<longleftrightarrow> drop (length s - length p) s = p"

definition isLocalOrigin :: "string \<Rightarrow> bool" where
  "isLocalOrigin h =
     (if h = ''localhost'' \<or> h = ''127.0.0.1'' \<or> h = ''::1'' \<or> ends_with ''.local'' h then True
      else case dotted_head h of None \<Rightarrow> False
      | Some (x, y) \<Rightarrow> (let a = digits_value x; b = digits_value y in
          a = 10 \<or> (a = 192 \<and> b = 168) \<or> (a = 172 \<and> 16 \<le> b \<and> b \<le> 31) \<or> (a = 100 \<and> 64 \<le> b \<and> b \<le> 127)))"

definition CRYPTO_CAUSE :: rx where
  "CRYPTO_CAUSE = Either (any_case ''subtlecrypto'' ''SUBTLECRYPTO'') (any_case ''crypto.subtle'' ''CRYPTO.SUBTLE'')"

definition STORAGE_CAUSE :: rx where
  "STORAGE_CAUSE = Either (any_case ''indexeddb'' ''INDEXEDDB'') (Either (any_case ''idbfactory'' ''IDBFACTORY'') (any_case ''dexie'' ''DEXIE''))"

datatype cause = Needs_Https | Storage_Refused | Verbatim string

definition explainCause :: "string \<Rightarrow> cause" where
  "explainCause c = (if rx_test CRYPTO_CAUSE None c then Needs_Https
     else if rx_test STORAGE_CAUSE None c then Storage_Refused else Verbatim c)"

datatype boot_kind = Scanner_Boot | Submit_Boot

datatype boot_hint = No_Hint | Same_Address_Https | Open_Secure_Address

text \<open>The block of a stage; the status line holds one per stage that failed.\<close>

definition reportBootFailure :: "boot_kind \<Rightarrow> string \<Rightarrow> bool \<Rightarrow> string \<Rightarrow> (boot_kind \<times> boot_hint \<times> cause) list \<Rightarrow> (boot_kind \<times> boot_hint \<times> cause) list" where
  "reportBootFailure st message secure hostname blocks =
     put st (if secure then No_Hint else if isLocalOrigin hostname then Same_Address_Https else Open_Secure_Address, explainCause message) blocks"

end
