(* ===== verification/PageHelpersProps.thy ===== *)
theory PageHelpersProps
  imports Complex_Main PageHelpers ApiCacheProps
begin

text \<open>
  What the scripts of every page keep: a name is shown whenever an item has one, an unreachable server is said so, one tab is
  open, a pull reloads by where it was last followed, and a private address is told apart from a public one.
\<close>

section \<open>Names of items\<close>

definition blank :: "json \<Rightarrow> bool" where
  "blank v \<longleftrightarrow> (\<forall>s. v = JStr s \<longrightarrow> Bootstrap.trim s = [])"

lemma trim_nil [simp]: "Bootstrap.trim [] = []"
  by (simp add: Bootstrap.trim_def)

lemma first_blank: "firstString vs = [] \<longleftrightarrow> (\<forall>v \<in> set vs. blank v)"
  by (induction vs) (auto simp: blank_def split: json.splits)

lemma first_member: "firstString vs = [] \<or> JStr (firstString vs) \<in> set vs"
  by (induction vs) (auto split: json.splits)

lemma first_said: "firstString vs \<noteq> [] \<Longrightarrow> \<not> blank (JStr (firstString vs))"
  by (induction vs) (auto simp: blank_def split: json.splits if_splits)

lemma blank_text: "blank (JStr s) = (Bootstrap.trim s = [])"
  by (auto simp: blank_def)

text \<open>An item is shown without a name only if it has none, and its second line is the catalog name, never the first line again.\<close>

lemma item_has_name:
  assumes "SyncScope.truthy v"
  shows "itemName v = [] \<longleftrightarrow> (\<forall>k \<in> {''display_name'', ''item_display_name'', ''item_name'', ''description'', ''name''}. blank (prop_of v k))"
proof -
  have i: "blank (JStr (itemIdentity v)) \<longleftrightarrow> itemIdentity v = []"
    using first_said [of "[prop_of v ''item_name'', prop_of v ''description'', prop_of v ''name'']"] assms
    by (auto simp: itemIdentity_def blank_text simp del: firstString.simps)
  have "itemName v = [] \<longleftrightarrow> blank (prop_of v ''display_name'') \<and> blank (prop_of v ''item_display_name'') \<and> itemIdentity v = []"
    using assms i by (simp add: itemName_def first_blank del: firstString.simps)
  moreover have "itemIdentity v = [] \<longleftrightarrow> blank (prop_of v ''item_name'') \<and> blank (prop_of v ''description'') \<and> blank (prop_of v ''name'')"
    using assms by (simp add: itemIdentity_def first_blank del: firstString.simps)
  ultimately show ?thesis by auto
qed

lemma sub_name_differs: "itemSubName lc v \<noteq> [] \<Longrightarrow> itemSubName lc v = itemIdentity v \<and> itemSubName lc v \<noteq> itemName v"
  by (auto simp: itemSubName_def split: if_splits)

section \<open>The health of the server\<close>

lemma warning_shown: "w \<in> set (warnings_of h names) \<longleftrightarrow> (\<exists>n \<in> set names. \<exists>c. map_of CHECKS n = Some c \<and> c h = Some w)"
proof -
  have "w \<in> set (case map_of CHECKS n of None \<Rightarrow> [] | Some c \<Rightarrow> (case c h of None \<Rightarrow> [] | Some w \<Rightarrow> [w]))
      \<longleftrightarrow> (\<exists>c. map_of CHECKS n = Some c \<and> c h = Some w)" for n
    by (cases "map_of CHECKS n") (auto split: option.split)
  then show ?thesis by (simp add: warnings_of_def)
qed

lemma server_check: "map_of CHECKS ''server'' = Some (\<lambda>h. if h = JNull then Some \<lparr>w_key = ''server'', w_value = JStr ''unreachable''\<rparr> else None)"
  by (simp add: CHECKS_def)

lemma unreachable_said:
  assumes "health_of r = JNull" and "''server'' \<in> set names"
  shows "refresh r names \<noteq> None"
proof -
  have "\<lparr>w_key = ''server'', w_value = JStr ''unreachable''\<rparr> \<in> set (warnings_of JNull names)"
    unfolding warning_shown using assms(2) by (rule bexI [rotated]) (simp add: server_check)
  then show ?thesis using assms(1) by (auto simp: refresh_def Let_def)
qed

lemma check_cases:
  assumes "map_of CHECKS n = Some c" and "c h = Some w"
  shows "h = JNull \<and> w = \<lparr>w_key = ''server'', w_value = JStr ''unreachable''\<rparr>
    \<or> SyncScope.truthy h \<and> (prop_of h ''storage'' = JStr ''unreachable'' \<or> prop_of (prop_of h ''toast_sync'') ''status'' = JStr ''failing''
        \<or> prop_of h ''sync_substrate'' = JStr ''unreachable'')"
  using map_of_SomeD [OF assms(1)] assms(2) by (auto simp: CHECKS_def split: if_splits)

lemma silent_server_only: "health_of r = JNull \<Longrightarrow> set (warnings_of (health_of r) names) \<subseteq> {\<lparr>w_key = ''server'', w_value = JStr ''unreachable''\<rparr>}"
proof
  fix w
  assume h: "health_of r = JNull" and "w \<in> set (warnings_of (health_of r) names)"
  then obtain n c where "map_of CHECKS n = Some c" "c JNull = Some w" by (auto simp: warning_shown)
  then show "w \<in> {\<lparr>w_key = ''server'', w_value = JStr ''unreachable''\<rparr>}" using check_cases [of n c JNull w] by (simp add: SyncScope.truthy_def)
qed

text \<open>A healthy answer shows nothing, whatever the page asks for.\<close>

lemma healthy_is_silent:
  assumes "health_of r = JObj d" and "field d ''storage'' \<noteq> JStr ''unreachable''" and "field d ''sync_substrate'' \<noteq> JStr ''unreachable''"
    and "prop_of (field d ''toast_sync'') ''status'' \<noteq> JStr ''failing''"
  shows "refresh r names = None"
proof -
  have "w \<notin> set (warnings_of (health_of r) names)" for w
    unfolding warning_shown assms(1) using assms(2-4) check_cases [of _ _ "JObj d" w] by (fastforce simp: prop_of_def)
  then show ?thesis by (simp add: refresh_def Let_def) (metis list.set_intros(1) neq_Nil_conv)
qed

text \<open>The answer of the route as the page reads it.\<close>

definition page_answer :: "answer \<Rightarrow> http" where
  "page_answer a = \<lparr>http.status = a_status a, body = Some (a_body a)\<rparr>"

text \<open>Through the worker too: a poll under a fresh address that fails finds nothing in the cache, so the page says that the server is
  unreachable and shows nothing stale.\<close>

lemma offline_poll_warns:
  assumes "\<forall>k. (u, k) \<notin> fst ` set (api_cache s)" and "n = length (requests s)" and "''server'' \<in> set names"
  shows "\<exists>a. rq_out (requests (run_sw s [Ask u, Net_Fail n]) ! n) = Some a \<and> refresh (Some (page_answer a)) names \<noteq> None"
proof -
  have "map_of (api_cache s) (u, k) = None" for k using assms(1) by (simp add: map_of_eq_None_iff)
  then have "rq_out (requests (run_sw s [Ask u, Net_Fail n]) ! n) = Some handlerDidError"
    unfolding assms(2) by (simp add: run_sw_def ask_def on_failure_def cacheMatch_def set_rq_def respond_def Let_def)
  moreover have "refresh (Some (page_answer handlerDidError)) names \<noteq> None"
    by (rule unreachable_said) (simp_all add: health_of_def page_answer_def handlerDidError_def assms(3))
  ultimately show ?thesis by blast
qed

section \<open>Tabs\<close>

text \<open>Exactly one slot is open, whatever the address says.\<close>

lemma active_in_range: "home \<le> count \<Longrightarrow> active_tab count home hash \<le> count \<and> (home > 0 \<longrightarrow> active_tab count home hash > 0)"
  by (auto simp: active_tab_def Let_def split: list.splits)

lemma one_of_range: "a < n \<Longrightarrow> filter (\<lambda>(i, b). b) (map (\<lambda>i. (i, i = a)) [0..<n]) = [(a, True)]"
proof (induction n)
  case (Suc n)
  have "filter (\<lambda>(i, b). b) (map (\<lambda>i. (i, i = a)) [0..<a]) = []" by (auto simp: filter_empty_conv)
  then show ?case using Suc by (cases "a = n") auto
qed simp

lemma one_tab_open: "home \<le> count \<Longrightarrow> filter (\<lambda>(i, b). b) (tab_slots count home hash) = [(active_tab count home hash, True)]"
  unfolding tab_slots_def using active_in_range [of home count hash] by (intro one_of_range) simp

text \<open>The pattern is not anchored: another name that ends in it opens a tab.\<close>

lemma other_names_match: "active_tab 3 1 ''#subtab=2'' = 2" "active_tab 3 1 ''#tab=9'' = 1" "active_tab 3 1 ''#tab=0'' = 1" "active_tab 3 0 ''#tab=0'' = 0"
  by code_simp+

section \<open>Pull to refresh\<close>

definition moved :: "rat \<Rightarrow> rat list \<Rightarrow> rat list" where
  "moved y0 ys = filter (\<lambda>dy. 0 < dy \<and> dy < 150) (map (\<lambda>y. y - y0) ys)"

lemma moves: "pl_pulling s \<Longrightarrow>
    foldl (\<lambda>s y. touchmove y s) s ys = s\<lparr>pl_height := (if moved (pl_start s) ys = [] then pl_height s else min (last (moved (pl_start s) ys) / 2) 50),
      pl_release := (if moved (pl_start s) ys = [] then pl_release s else 80 < last (moved (pl_start s) ys))\<rparr>"
  by (induction ys arbitrary: s) (auto simp: touchmove_def moved_def Let_def)

text \<open>A gesture reloads exactly if the last place it was followed to lies at least eighty below its start. A finger that goes back, or
  past the band, is not followed: the page reloads from where it left.\<close>

lemma pull_reloads:
  assumes "\<not> pl_pulling s" and "pl_height s = 0" and "\<not> insideScrollable styles"
    and "t = touchend (foldl (\<lambda>s y. touchmove y s) (touchstart styles 0 1 y0 s) ys)"
  shows "pl_reloads t = (if moved y0 ys \<noteq> [] \<and> 80 \<le> last (moved y0 ys) then Suc (pl_reloads s) else pl_reloads s)"
proof -
  define h where "h = (if moved y0 ys = [] then 0 else min (last (moved y0 ys) / 2) (50 :: rat))"
  have "40 \<le> \<lfloor>h\<rfloor> \<longleftrightarrow> moved y0 ys \<noteq> [] \<and> 80 \<le> last (moved y0 ys)"
    by (auto simp: h_def le_floor_iff)
  moreover have "pl_reloads t = (if 40 \<le> \<lfloor>h\<rfloor> then Suc (pl_reloads s) else pl_reloads s)"
    using assms(2,3) by (simp add: assms(4) touchstart_def moves touchend_def h_def)
  ultimately show ?thesis by simp
qed

lemma going_back_reloads: "pl_reloads (touchend (foldl (\<lambda>s y. touchmove y s) (touchstart [] 0 1 10 pull_init) [60, 110, 60, 9])) = 0"
  "pl_reloads (touchend (foldl (\<lambda>s y. touchmove y s) (touchstart [] 0 1 10 pull_init) [60, 110, 10])) = 1"
  "pl_reloads (touchend (foldl (\<lambda>s y. touchmove y s) (touchstart [] 0 1 10 pull_init) [170])) = 0"
  by (simp_all add: touchend_def touchmove_def touchstart_def pull_init_def insideScrollable_def Let_def)

section \<open>Addresses\<close>

lemma digit_chars: "n < 10 \<Longrightarrow> is_digit (char_of (48 + n)) \<and> (of_char (char_of (48 + n) :: char) :: nat) - 48 = n"
  by (simp add: is_digit_def Let_def take_bit_eq_mod)

lemma digits10_digits: "list_all is_digit (digits10 n)"
  by (induction n rule: digits10.induct) (subst digits10.simps, simp add: digit_chars)

lemma digits10_value: "digits_value (digits10 n) = n"
proof (induction n rule: digits10.induct)
  case (1 n)
  show ?case
  proof (cases "n < 10")
    case True
    then show ?thesis using digit_chars [of n] by (subst digits10.simps) (simp add: digits_value_def)
  next
    case False
    then have "digits_value (digits10 (n div 10)) = n div 10" using 1 by simp
    then show ?thesis using False digit_chars [of "n mod 10"] by (subst digits10.simps) (simp add: digits_value_def)
  qed
qed

lemma digits10_length: "n < 1000 \<Longrightarrow> length (digits10 n) \<in> {1, 2, 3}"
proof -
  assume n: "n < 1000"
  have one: "m < 10 \<Longrightarrow> length (digits10 m) = 1" for m by (subst digits10.simps) simp
  have two: "m < 100 \<Longrightarrow> length (digits10 m) \<in> {1, 2}" for m
    using one [of "m div 10"] by (subst digits10.simps) (auto simp: div_less_iff_less_mult)
  show ?thesis using n two [of "n div 10"] by (subst digits10.simps) (auto simp: div_less_iff_less_mult)
qed

lemma digits_until: "list_all is_digit a \<Longrightarrow> takeWhile is_digit (a @ CHR ''.'' # s) = a"
  by (induction a) (auto simp: is_digit_def Let_def)

lemma dotted: "a < 1000 \<Longrightarrow> b < 1000 \<Longrightarrow> dotted_head (digits10 a @ ''.'' @ digits10 b @ ''.'' @ rest) = Some (digits10 a, digits10 b)"
  using digits10_length [of a] digits10_length [of b]
  by (simp add: dotted_head_def digits_until digits10_digits Let_def)

text \<open>A dotted address is local exactly in the private and tailnet ranges, the loopback itself apart.\<close>

lemma private_ranges:
  assumes "a < 1000" and "b < 1000" and "h = digits10 a @ ''.'' @ digits10 b @ ''.'' @ rest"
    and "h \<noteq> ''127.0.0.1''" and "\<not> ends_with ''.local'' h"
  shows "isLocalOrigin h \<longleftrightarrow> a = 10 \<or> (a = 192 \<and> b = 168) \<or> (a = 172 \<and> b \<in> {16..31}) \<or> (a = 100 \<and> b \<in> {64..127})"
proof -
  have d: "list_all is_digit (digits10 a)" "digits10 a \<noteq> []" using digits10_digits digits10_length [OF assms(1)] by auto
  then have "is_digit (hd h)" using assms(3) by (cases "digits10 a") auto
  then have n: "h \<noteq> ''localhost''" "h \<noteq> ''::1''" by (auto simp: is_digit_def Let_def)
  show ?thesis using assms(4,5) n dotted [OF assms(1,2), of rest]
    by (simp add: isLocalOrigin_def assms(3) digits10_value Let_def)
qed

text \<open>The IPv6 loopback as the browser gives it, and the rest of the IPv4 loopback block, are told to open another address.\<close>

lemma loopback_sent_home: "\<not> isLocalOrigin ''[::1]''" "\<not> isLocalOrigin ''127.0.1.1''" "isLocalOrigin ''10.0.example.com''"
  by code_simp+

text \<open>A stage reports once however often it fails, and beside the other.\<close>

lemma one_block_per_stage: "distinct (map fst bs) \<Longrightarrow> distinct (map fst (reportBootFailure k c b h bs))"
  "j \<noteq> k \<Longrightarrow> map_of (reportBootFailure k c b h bs) j = map_of bs j"
proof -
  have k: "fst ` set (put k v bs) = insert k (fst ` set bs)" for k :: boot_kind and v :: "boot_hint \<times> cause" and bs
    by (induction k v bs rule: put.induct) auto
  have d: "distinct (map fst bs) \<Longrightarrow> distinct (map fst (put k v bs))" for k :: boot_kind and v :: "boot_hint \<times> cause" and bs
    by (induction k v bs rule: put.induct) (auto simp: k)
  have m: "j \<noteq> k \<Longrightarrow> map_of (put k v bs) j = map_of bs j" for k :: boot_kind and v :: "boot_hint \<times> cause" and bs
    by (induction k v bs rule: put.induct) auto
  show "distinct (map fst bs) \<Longrightarrow> distinct (map fst (reportBootFailure k c b h bs))" by (simp add: reportBootFailure_def d)
  show "j \<noteq> k \<Longrightarrow> map_of (reportBootFailure k c b h bs) j = map_of bs j" by (simp add: reportBootFailure_def m)
qed

lemma causes_told: "explainCause ''the SUBTLEcrypto is missing'' = Needs_Https" "explainCause ''no IndexedDB'' = Storage_Refused"
  "explainCause ''indexed DB'' = Verbatim ''indexed DB''"
  by code_simp+

end
