(* ===== verification/FillView.thy ===== *)
theory FillView
  imports Complex_Main OpApply Bootstrap
begin

text \<open>
  The checklist runner of \<^verbatim>\<open>workflows.html\<close> over the page's globals: what is visible, what counts as answered, how the answers
  are rebuilt from drafts, submissions and replicated rows, and what may be submitted. \<open>text_of\<close> is \<open>String\<close>, \<open>num_of\<close> is
  \<open>parseFloat\<close>, \<open>parse_json\<close> is \<open>JSON.parse\<close>, \<open>dow\<close> the day of the week.
\<close>

section \<open>Templates\<close>

record condition =
  c_days :: "nat list"
  c_field :: "string option"
  c_operator :: string
  c_value :: json

record trigger =
  t_type :: string
  t_min :: "rat option"
  t_max :: "rat option"

record ffield =
  fl_id :: string
  fl_label :: string
  fl_type :: string
  fl_required :: bool
  fl_condition :: "condition option"
  fl_trigger :: "trigger option"
  fl_subs :: "string list"

record fsection =
  fs_days :: "nat list"
  fs_fields :: "ffield list"

type_synonym template = "fsection list"

definition fillTemplateFieldIds :: "template \<Rightarrow> string list" where
  "fillTemplateFieldIds tpl = concat (map (\<lambda>s. concat (map (\<lambda>f. fl_id f # fl_subs f) (fs_fields s))) tpl)"

section \<open>Visibility\<close>

definition isSectionVisible :: "nat \<Rightarrow> fsection \<Rightarrow> bool" where
  "isSectionVisible dow s \<longleftrightarrow> fs_days s = [] \<or> dow \<in> set (fs_days s)"

definition isFieldVisible :: "(json \<Rightarrow> string) \<Rightarrow> nat \<Rightarrow> page \<Rightarrow> ffield \<Rightarrow> bool" where
  "isFieldVisible text_of dow p f = (case fl_condition f of
     None \<Rightarrow> True
   | Some c \<Rightarrow>
       if c_days c \<noteq> [] \<and> dow \<notin> set (c_days c) then False
       else (case c_field c of
         None \<Rightarrow> True
       | Some d \<Rightarrow> if d = [] then True else (case p_responses p d of
           None \<Rightarrow> False
         | Some r \<Rightarrow>
             (let depVal = text_of (r_value r); expected = text_of (c_value c);
                  hasValue = (depVal \<noteq> [] \<and> depVal \<noteq> ''undefined'' \<and> depVal \<noteq> ''null'')
              in if expected = ''_notempty'' \<and> c_operator c = ''equals'' then hasValue
                 else if expected = ''_notempty'' \<and> c_operator c = ''not_equals'' then \<not> hasValue
                 else if c_operator c = ''equals'' then depVal = expected
                 else if c_operator c = ''not_equals'' then depVal \<noteq> expected
                 else True))))"

definition drop_answer :: "string \<Rightarrow> page \<Rightarrow> page" where
  "drop_answer fid p = p\<lparr>p_responses := (p_responses p)(fid := None), p_notes := (p_notes p)(fid := None)\<rparr>"

definition clear_field :: "(json \<Rightarrow> string) \<Rightarrow> nat \<Rightarrow> bool \<Rightarrow> page \<Rightarrow> ffield \<Rightarrow> page" where
  "clear_field text_of dow sv p f = (if sv \<and> isFieldVisible text_of dow p f then p else drop_answer (fl_id f) p)"

text \<open>In the order of the template; each field is judged on what the ones before it left.\<close>

definition clearHiddenFieldAnswers :: "(json \<Rightarrow> string) \<Rightarrow> nat \<Rightarrow> template \<Rightarrow> page \<Rightarrow> page" where
  "clearHiddenFieldAnswers text_of dow tpl p =
     foldl (\<lambda>p s. foldl (clear_field text_of dow (isSectionVisible dow s)) p (fs_fields s)) p tpl"

definition visible_fields :: "(json \<Rightarrow> string) \<Rightarrow> nat \<Rightarrow> template \<Rightarrow> page \<Rightarrow> ffield list" where
  "visible_fields text_of dow tpl p =
     concat (map (\<lambda>s. filter (isFieldVisible text_of dow p) (fs_fields s)) (filter (isSectionVisible dow) tpl))"

section \<open>Progress\<close>

definition isFieldAnswered :: "page \<Rightarrow> ffield \<Rightarrow> bool" where
  "isFieldAnswered p f = (case p_responses p (fl_id f) of
     None \<Rightarrow> False
   | Some r \<Rightarrow>
       if p_flags p (fl_id f) \<noteq> None then False
       else if fl_subs f \<noteq> [] then (if \<exists>s \<in> set (fl_subs f). p_flags p s \<noteq> None then False else r_value r = JBool True)
       else True)"

definition SUBMITTED_STATUSES :: "string list" where "SUBMITTED_STATUSES = [''completed'', ''submitted'']"
definition PENDING_STATUSES :: "string list" where "PENDING_STATUSES = [''pending'', ''pending_approval'']"

definition isFrozenStatus :: "string \<Rightarrow> bool" where
  "isFrozenStatus st \<longleftrightarrow> st \<in> set SUBMITTED_STATUSES \<or> st \<in> set PENDING_STATUSES \<or> st = ''approved''"

text \<open>A row as the server sends it, and a submission.\<close>

record fill_row =
  w_field :: string
  w_value :: json
  w_by :: string
  w_at :: "ms option"

record rejection =
  j_field :: string
  j_requirePhoto :: bool
  j_at :: "ms option option"

record submission =
  sb_id :: string
  sb_template :: string
  sb_status :: string
  sb_submitted :: "ms option"
  sb_snapshot :: "template option"
  sb_responses :: "fill_row list"
  sb_notes :: "(string \<times> fail_note) list"
  sb_rejections :: "rejection list"

definition getProgress :: "(json \<Rightarrow> string) \<Rightarrow> nat \<Rightarrow> template \<Rightarrow> submission option \<Rightarrow> page \<Rightarrow> nat \<times> nat" where
  "getProgress text_of dow tpl sub p =
     (let live = (let vs = visible_fields text_of dow tpl p in (length (filter (isFieldAnswered p) vs), length vs)) in
      case sub of None \<Rightarrow> live
      | Some s \<Rightarrow> (case sb_snapshot s of None \<Rightarrow> live
        | Some snap \<Rightarrow> if \<not> isFrozenStatus (sb_status s) then live
          else let vs = visible_fields text_of dow snap p;
                   ids = map w_field (filter (\<lambda>r. w_value r \<noteq> JNull \<and> w_value r \<noteq> JUndef) (sb_responses s))
               in (length (filter (\<lambda>f. fl_id f \<in> set ids) vs), length vs)))"

section \<open>Rebuilding the answers\<close>

definition unwrap_value :: "(string \<Rightarrow> json option) \<Rightarrow> json \<Rightarrow> json" where
  "unwrap_value parse_json v = (case v of JStr s \<Rightarrow> (case parse_json s of None \<Rightarrow> v | Some x \<Rightarrow> x) | _ \<Rightarrow> v)"

text \<open>The bundle taken off an unwrapped value: its photo and its fail note are the field's, and the rest is the answer.\<close>

definition unbundle_value :: "string \<Rightarrow> json \<Rightarrow> page \<Rightarrow> json \<times> page" where
  "unbundle_value fid v p =
     (if prop_of v ''_v'' = JUndef then (v, p)
      else let fn = prop_of v ''_fail_note''; cp = prop_of v ''_correction_photo'';
               p1 = (if SyncScope.truthy fn
                     then p\<lparr>p_notes := (p_notes p)(fid \<mapsto> \<lparr>n_note = or_else (prop_of fn ''note'') (JStr []),
                            n_severity = or_else (prop_of fn ''severity'') (JStr []), n_photo = or_else (prop_of fn ''photo'') JNull\<rparr>)\<rparr> else p);
               p2 = (if SyncScope.truthy cp then p1\<lparr>p_photos := (p_photos p1)(fid \<mapsto> cp)\<rparr> else p1)
           in (prop_of v ''_v'', p2))"

text \<open>The answer and its sub-steps.\<close>

definition split_subs :: "json \<Rightarrow> json \<times> json" where
  "split_subs v = (if prop_of v ''sub_steps'' = JUndef then (v, JNull) else (prop_of v ''value'', prop_of v ''sub_steps''))"

definition row_entry :: "json \<Rightarrow> string \<Rightarrow> ms option \<Rightarrow> response" where
  "row_entry v name tm = (case split_subs v of (x, subs) \<Rightarrow>
     \<lparr>r_value = x, r_by = name, r_at = tm, r_subs = (if SyncScope.truthy subs then Some (object_assign subs) else None)\<rparr>)"

text \<open>\<open>me\<close> is the name of a row without one.\<close>

definition applyResponseRow :: "(string \<Rightarrow> json option) \<Rightarrow> string \<Rightarrow> fill_row \<Rightarrow> page \<Rightarrow> page" where
  "applyResponseRow parse_json me r p =
     (if w_value r = JNull \<or> w_value r = JUndef then p
      else case unbundle_value (w_field r) (unwrap_value parse_json (w_value r)) p of (v, p1) \<Rightarrow>
        if fst (split_subs v) = JNull \<or> fst (split_subs v) = JUndef then p1
        else p1\<lparr>p_responses := (p_responses p1)(w_field r \<mapsto> row_entry v (if w_by r = [] then me else w_by r) (w_at r))\<rparr>)"

definition submitted_row :: "(string \<Rightarrow> json option) \<Rightarrow> string \<Rightarrow> fill_row \<Rightarrow> page \<Rightarrow> page" where
  "submitted_row parse_json me r p =
     (case unbundle_value (w_field r) (unwrap_value parse_json (w_value r)) p of (v, p1) \<Rightarrow>
        p1\<lparr>p_responses := (p_responses p1)(w_field r \<mapsto> row_entry v (if w_by r = [] then me else w_by r) (w_at r))\<rparr>)"

text \<open>A rejection of a field clears its answer; one of a sub-step takes it out of the answer that holds it.\<close>

definition reject_field :: "rejection \<Rightarrow> page \<Rightarrow> page" where
  "reject_field j p =
     (let strip = (\<lambda>r. case r_subs r of None \<Rightarrow> Some r | Some d \<Rightarrow>
            if \<not> has_field d (j_field j) then Some r
            else let d' = filter (\<lambda>(k, v). k \<noteq> j_field j) d in
                 if d' = [] then None else Some (r\<lparr>r_subs := Some d', r_value := JBool False\<rparr>))
      in p\<lparr>p_flags := (p_flags p)(j_field j \<mapsto> \<lparr>f_requirePhoto = j_requirePhoto j, f_at = j_at j\<rparr>),
           p_responses := (\<lambda>fid. if fid = j_field j then None else case p_responses p fid of None \<Rightarrow> None | Some r \<Rightarrow> strip r)\<rparr>)"

definition admits_field :: "string list option \<Rightarrow> string \<Rightarrow> bool" where
  "admits_field only fid = (case only of None \<Rightarrow> True | Some ids \<Rightarrow> fid \<in> set ids)"

definition newer_exists :: "submission list \<Rightarrow> submission \<Rightarrow> bool" where
  "newer_exists subs s \<longleftrightarrow> (\<exists>x \<in> set subs. sb_template x = sb_template s \<and> sb_id x \<noteq> sb_id s
     \<and> (case (sb_submitted x, sb_submitted s) of (Some a, Some b) \<Rightarrow> a > b | _ \<Rightarrow> False))"

definition submitted_rows :: "(string \<Rightarrow> json option) \<Rightarrow> string \<Rightarrow> string list option \<Rightarrow> fill_row list \<Rightarrow> page \<Rightarrow> page" where
  "submitted_rows parse_json me only rs p = foldl (\<lambda>p r. if admits_field only (w_field r) then submitted_row parse_json me r p else p) p rs"

definition submitted_notes :: "string list option \<Rightarrow> (string \<times> fail_note) list \<Rightarrow> page \<Rightarrow> page" where
  "submitted_notes only ns p = foldl (\<lambda>p (fid, n). if admits_field only fid then p\<lparr>p_notes := (p_notes p)(fid \<mapsto> n)\<rparr> else p) p ns"

definition bounced_fields :: "string list option \<Rightarrow> rejection list \<Rightarrow> page \<Rightarrow> page" where
  "bounced_fields only js p = foldl (\<lambda>p j. if admits_field only (j_field j) then reject_field j p else p) p js"

definition hydrate_submission :: "(string \<Rightarrow> json option) \<Rightarrow> string \<Rightarrow> string list option \<Rightarrow> submission list \<Rightarrow> page \<Rightarrow> submission \<Rightarrow> page" where
  "hydrate_submission parse_json me only subs p s =
     (let p2 = submitted_notes only (sb_notes s) (submitted_rows parse_json me only (sb_responses s) p)
      in if sb_status s = ''rejected'' \<and> \<not> newer_exists subs s then bounced_fields only (sb_rejections s) p2 else p2)"

text \<open>Drafts, then submissions in the order of the list, then the replicated rows of the open checklist, none of which may
  answer a field that was bounced.\<close>

definition hydrateFieldState :: "(string \<Rightarrow> json option) \<Rightarrow> string \<Rightarrow> string list option \<Rightarrow> fill_row list \<Rightarrow> submission list \<Rightarrow> fill_row list \<Rightarrow> page \<Rightarrow> page" where
  "hydrateFieldState parse_json me only drafts subs overlay p =
     (let p0 = p\<lparr>p_responses := (\<lambda>_. None), p_notes := (\<lambda>_. None), p_flags := (\<lambda>_. None), p_photos := (\<lambda>_. None)\<rparr>;
          p1 = foldl (\<lambda>p r. if admits_field only (w_field r) then applyResponseRow parse_json me r p else p) p0 drafts;
          p2 = foldl (hydrate_submission parse_json me only subs) p1 subs
      in foldl (\<lambda>p r. if admits_field only (w_field r) \<and> p_flags p (w_field r) = None then applyResponseRow parse_json me r p else p) p2 overlay)"

section \<open>The replicated rows\<close>

record fill_doc =
  d_submission :: "string option"
  d_answerer :: string
  d_row :: fill_row

definition acceptedFillDocs :: "fill_doc list \<Rightarrow> string \<Rightarrow> string option \<Rightarrow> fill_doc list" where
  "acceptedFillDocs docs checklist me =
     filter (\<lambda>d. d_submission d = None \<and> (case me of None \<Rightarrow> False | Some u \<Rightarrow> u \<noteq> [] \<and> d_answerer d = u)) docs
     @ filter (\<lambda>d. d_submission d = Some checklist) docs"

text \<open>The overlay keeps one row per field; a scope's slice is rebuilt by each emission.\<close>

fun over_put :: "fill_row \<Rightarrow> fill_row list \<Rightarrow> fill_row list" where
  "over_put r [] = [r]"
| "over_put r (x # xs) = (if w_field x = w_field r then r # xs else x # over_put r xs)"

definition next_slice :: "fill_doc list \<Rightarrow> fill_row list" where
  "next_slice docs = foldl (\<lambda>xs d. over_put ((d_row d)\<lparr>w_by := []\<rparr>) xs) [] docs"

text \<open>\<open>entry\<close> is \<open>None\<close> once the scope is closed, else what the last emission built. The same again changes nothing.\<close>

definition applyRxdbFillDocs :: "string \<Rightarrow> string list \<Rightarrow> fill_doc list \<Rightarrow> string option \<Rightarrow> fill_row list option option \<Rightarrow> fill_row list \<Rightarrow> fill_row list option option \<times> fill_row list" where
  "applyRxdbFillDocs checklist ids docs me entry overlay = (case entry of
     None \<Rightarrow> (None, overlay)
   | Some sig \<Rightarrow> (let slice = next_slice (acceptedFillDocs docs checklist me) in
       if sig = Some slice then (entry, overlay)
       else (Some (Some slice), foldl (\<lambda>xs r. over_put r xs) (filter (\<lambda>r. w_field r \<notin> set ids) overlay) slice)))"

section \<open>Submitting\<close>

definition evaluateFailTrigger :: "(json \<Rightarrow> rat option) \<Rightarrow> trigger option \<Rightarrow> json \<Rightarrow> bool" where
  "evaluateFailTrigger num_of tr v = (case tr of
     None \<Rightarrow> False
   | Some t \<Rightarrow>
       if v = JNull \<or> v = JUndef \<or> v = JStr [] then False
       else if t_type t \<noteq> ''out_of_range'' then False
       else case num_of v of None \<Rightarrow> False
         | Some n \<Rightarrow> (case t_min t of None \<Rightarrow> False | Some a \<Rightarrow> n < a) \<or> (case t_max t of None \<Rightarrow> False | Some b \<Rightarrow> n > b))"

definition fail_triggered :: "(json \<Rightarrow> rat option) \<Rightarrow> page \<Rightarrow> ffield \<Rightarrow> bool" where
  "fail_triggered num_of p f = (case p_responses p (fl_id f) of None \<Rightarrow> False
     | Some r \<Rightarrow> (fl_type f = ''yes_no'' \<and> (r_value r = JBool False \<or> r_value r = JStr ''false'')) \<or> evaluateFailTrigger num_of (fl_trigger f) (r_value r))"

text \<open>The note of a failing answer: a text of more than spaces, and a severity.\<close>

definition has_corrective :: "page \<Rightarrow> ffield \<Rightarrow> bool" where
  "has_corrective p f = (case p_notes p (fl_id f) of None \<Rightarrow> False
     | Some n \<Rightarrow> (case n_note n of JStr s \<Rightarrow> Bootstrap.trim s \<noteq> [] | _ \<Rightarrow> False) \<and> SyncScope.truthy (n_severity n))"

definition needs_photo :: "page \<Rightarrow> ffield \<Rightarrow> bool" where
  "needs_photo p f \<longleftrightarrow> (fl_type f = ''photo'' \<and> fl_required f) \<or> (case p_flags p (fl_id f) of None \<Rightarrow> False | Some g \<Rightarrow> f_requirePhoto g)"

datatype submit_gate = Missing_Corrective "string list" | Missing_Photo "string list" | Incomplete nat | Clear

definition submit_check :: "(json \<Rightarrow> string) \<Rightarrow> (json \<Rightarrow> rat option) \<Rightarrow> nat \<Rightarrow> template \<Rightarrow> page \<Rightarrow> submit_gate" where
  "submit_check text_of num_of dow tpl p =
     (let fs = visible_fields text_of dow tpl p;
          mc = filter (\<lambda>f. fail_triggered num_of p f \<and> \<not> has_corrective p f) fs;
          mp = filter (\<lambda>f. needs_photo p f \<and> \<not> fieldHasRequiredPhoto p (fl_id f)) fs;
          inc = length (filter (\<lambda>f. \<not> isFieldAnswered p f) fs)
      in if mc \<noteq> [] then Missing_Corrective (map fl_label mc)
         else if mp \<noteq> [] then Missing_Photo (map fl_label mp)
         else if inc > 0 then Incomplete inc else Clear)"

text \<open>One response of the payload, \<open>stringify\<close> being \<open>JSON.stringify\<close>.\<close>

record payload_row =
  y_field :: string
  y_value :: string
  y_note :: "fail_note option"

definition submitted_value :: "page \<Rightarrow> string \<Rightarrow> response \<Rightarrow> json" where
  "submitted_value p fid r =
     (let base = (case r_subs r of None \<Rightarrow> r_value r | Some d \<Rightarrow> JObj [(''value'', r_value r), (''sub_steps'', JObj d)])
      in if own_photo p fid then JObj [(''_v'', base), (''_correction_photo'', the (p_photos p fid))] else base)"

definition payload_rows :: "(json \<Rightarrow> string) \<Rightarrow> page \<Rightarrow> ffield list \<Rightarrow> payload_row list" where
  "payload_rows stringify p fs = concat (map (\<lambda>f. case p_responses p (fl_id f) of None \<Rightarrow> []
     | Some r \<Rightarrow> [\<lparr>y_field = fl_id f, y_value = stringify (submitted_value p (fl_id f) r), y_note = p_notes p (fl_id f)\<rparr>]) fs)"

end
