(* ===== verification/FillViewProps.thy ===== *)
theory FillViewProps
  imports Complex_Main FillView
begin

text \<open>
  The runner: a bounced field stays open whatever else is loaded, which submission's answer is shown, what the replicated rows may
  answer, that one pass clears every hidden answer, and what a submitted checklist is sure to hold.
\<close>

section \<open>Samples\<close>

definition plain_field :: "string \<Rightarrow> condition option \<Rightarrow> ffield" where
  "plain_field k c = \<lparr>fl_id = k, fl_label = k, fl_type = ''checkbox'', fl_required = False, fl_condition = c, fl_trigger = None, fl_subs = []\<rparr>"

definition asks_for :: "string \<Rightarrow> condition option" where
  "asks_for k = Some \<lparr>c_days = [], c_field = Some k, c_operator = ''equals'', c_value = JBool True\<rparr>"

definition answered_page :: "string list \<Rightarrow> page" where
  "answered_page ks = \<lparr>p_device = None, p_responses = (\<lambda>k. if k \<in> set ks then Some \<lparr>r_value = JBool True, r_by = ''ann'', r_at = None, r_subs = None\<rparr> else None),
     p_drafts = None, p_notes = (\<lambda>_. None), p_photos = (\<lambda>_. None), p_flags = (\<lambda>_. None), p_open = Some ''t'', p_effects = []\<rparr>"

definition crew_row :: "string \<Rightarrow> bool \<Rightarrow> fill_row" where
  "crew_row k b = \<lparr>w_field = k, w_value = JBool b, w_by = ''ann'', w_at = None\<rparr>"

definition sent :: "string \<Rightarrow> string \<Rightarrow> ms \<Rightarrow> fill_row list \<Rightarrow> rejection list \<Rightarrow> submission" where
  "sent k st tm rs js = \<lparr>sb_id = k, sb_template = ''t'', sb_status = st, sb_submitted = Some tm, sb_snapshot = None, sb_responses = rs,
     sb_notes = [], sb_rejections = js\<rparr>"

section \<open>Bounced fields\<close>

lemma unbundle_fields [simp]:
  "p_flags (snd (unbundle_value fid v p)) = p_flags p" "p_responses (snd (unbundle_value fid v p)) = p_responses p"
  "p_drafts (snd (unbundle_value fid v p)) = p_drafts p"
  by (auto simp: unbundle_value_def Let_def)

lemma unbundle_eq: "unbundle_value fid v p = (x, q) \<Longrightarrow> p_flags q = p_flags p \<and> p_responses q = p_responses p"
  using unbundle_fields(1,2) [of fid v p] by (auto simp del: unbundle_fields)

lemma row_flags [simp]: "p_flags (applyResponseRow pj me r p) = p_flags p" "p_flags (submitted_row pj me r p) = p_flags p"
  by (auto simp: applyResponseRow_def submitted_row_def split: prod.split dest: unbundle_eq)





text \<open>A fold whose steps keep a property.\<close>

lemma fold_keeps: "P s \<Longrightarrow> (\<And>s x. x \<in> set xs \<Longrightarrow> P s \<Longrightarrow> P (f s x)) \<Longrightarrow> P (foldl f s xs)"
  by (induction xs arbitrary: s) auto

lemma notes_fields [simp]:
  "p_flags (submitted_notes only ns p) = p_flags p" "p_responses (submitted_notes only ns p) = p_responses p"
  unfolding submitted_notes_def
  by (rule fold_keeps [where P = "\<lambda>q. p_flags q = p_flags p"], auto) (rule fold_keeps [where P = "\<lambda>q. p_responses q = p_responses p"], auto)

lemma rows_flags [simp]: "p_flags (submitted_rows pj me only rs p) = p_flags p"
  unfolding submitted_rows_def by (rule fold_keeps [where P = "\<lambda>q. p_flags q = p_flags p"]) auto








section \<open>The submission shown\<close>

text \<open>an older submission masks a newer one. The server lists the newest submission first, and the loop lets the last of the list
  win: of two submissions of a checklist that both answer a field, with nothing rejected since, the page shows the older answer.\<close>
theorem older_submission_masks:
  assumes "sb_responses newer = [r1]" and "sb_responses older = [r2]" and "w_field r1 = fid" and "w_field r2 = fid"
    and "sb_template newer = sb_template older" and "sb_id newer \<noteq> sb_id older"
    and "sb_submitted newer = Some a" and "sb_submitted older = Some b" and "a > b" and "sb_status newer \<noteq> ''rejected''"
    and "w_value r2 = JBool x"
  shows "\<exists>e. p_responses (hydrateFieldState pj me None drafts [newer, older] [] p) fid = Some e \<and> r_value e = JBool x"
proof -
  have n: "newer_exists [newer, older] older" using assms(5-9) by (auto simp: newer_exists_def)
  have uw: "unwrap_value pj (JBool x) = JBool x" by (simp add: unwrap_value_def)
  have b: "unbundle_value fid (JBool x) u = (JBool x, u)" for u by (simp add: unbundle_value_def prop_of_def)
  have "p_responses (hydrate_submission pj me None [newer, older] u older) fid = Some (row_entry (JBool x) (if w_by r2 = [] then me else w_by r2) (w_at r2))" for u
    using n assms(2,4,11) uw b by (simp add: hydrate_submission_def submitted_rows_def submitted_row_def admits_field_def Let_def)
  moreover have "r_value (row_entry (JBool x) nm tm) = JBool x" for nm tm by (simp add: row_entry_def split_subs_def prop_of_def)
  ultimately show ?thesis by (simp add: hydrateFieldState_def Let_def)
qed

theorem older_submission_masks_witness:
  "\<exists>e. p_responses (hydrateFieldState (\<lambda>_. None) ''me'' None [] [sent ''new'' ''submitted'' 9 [crew_row ''b'' True] [],
     sent ''old'' ''submitted'' 5 [crew_row ''b'' False] []] [] (answered_page [])) ''b'' = Some e \<and> r_value e = JBool False"
  by (rule older_submission_masks [of _ "crew_row ''b'' True" _ "crew_row ''b'' False" "''b''" 9 5]) (simp_all add: sent_def crew_row_def)

section \<open>Replicated rows\<close>

definition own_doc :: "string \<Rightarrow> string option \<Rightarrow> fill_doc \<Rightarrow> bool" where
  "own_doc checklist me d \<longleftrightarrow> d_submission d = Some checklist \<or> (d_submission d = None \<and> me \<noteq> None \<and> me = Some (d_answerer d))"

lemma accepted_own: "d \<in> set (acceptedFillDocs docs checklist me) \<Longrightarrow> d \<in> set docs \<and> own_doc checklist me d"
  by (auto simp: acceptedFillDocs_def own_doc_def split: option.splits)

lemma over_put_set: "set (over_put r xs) \<subseteq> insert r (set xs)" "w_field ` set (over_put r xs) = insert (w_field r) (w_field ` set xs)"
  by (induction xs) auto

lemma over_put_find: "find (\<lambda>x. w_field x = k) (over_put r xs) = (if k = w_field r then Some r else find (\<lambda>x. w_field x = k) xs)"
  by (induction xs) auto

lemma over_fold_find:
  "find (\<lambda>x. w_field x = k) (foldl (\<lambda>xs r. over_put r xs) xs rs) = (case find (\<lambda>x. w_field x = k) (rev rs) of None \<Rightarrow> find (\<lambda>x. w_field x = k) xs | Some r \<Rightarrow> Some r)"
  by (induction rs rule: rev_induct) (auto simp: over_put_find split: option.splits)

lemma over_put_keys: "distinct (map w_field xs) \<Longrightarrow> distinct (map w_field (over_put r xs))"
proof (induction xs)
  case (Cons x xs)
  then show ?case using over_put_set(2) [of r xs] by auto
qed simp

lemma found: "find P xs = Some x \<Longrightarrow> x \<in> set xs \<and> P x"
  by (induction xs) (auto split: if_splits)

lemma find_rev_keys: "distinct (map w_field rs) \<Longrightarrow> find (\<lambda>x. w_field x = k) (rev rs) = find (\<lambda>x. w_field x = k) rs"
proof -
  assume d: "distinct (map w_field rs)"
  have one: "x \<in> set rs \<Longrightarrow> y \<in> set rs \<Longrightarrow> w_field x = w_field y \<Longrightarrow> x = y" for x y using d by (auto simp: distinct_map dest: inj_onD)
  show ?thesis
  proof (cases "find (\<lambda>x. w_field x = k) rs")
    case None
    then have "find (\<lambda>x. w_field x = k) (rev rs) = None" by (simp add: find_None_iff)
    then show ?thesis using None by simp
  next
    case (Some x)
    then have x: "x \<in> set rs" "w_field x = k" using found [OF Some] by simp_all
    then have "find (\<lambda>x. w_field x = k) (rev rs) \<noteq> None" by (auto simp: find_None_iff)
    then obtain y where y: "find (\<lambda>x. w_field x = k) (rev rs) = Some y" by blast
    then have "y \<in> set rs" "w_field y = k" using found [OF y] by simp_all
    then show ?thesis using one x y Some by simp
  qed
qed

lemma slice_step: "next_slice (docs @ [d]) = over_put ((d_row d)\<lparr>w_by := []\<rparr>) (next_slice docs)"
  by (simp add: next_slice_def)

lemma slice_keys: "distinct (map w_field (next_slice docs))"
  by (induction docs rule: rev_induct) (simp_all add: next_slice_def over_put_keys)

lemma slice_set: "set (next_slice docs) \<subseteq> (\<lambda>d. (d_row d)\<lparr>w_by := []\<rparr>) ` set docs"
proof (induction docs rule: rev_induct)
  case (snoc d docs)
  then show ?case using over_put_set(1) unfolding slice_step by fastforce
qed (simp add: next_slice_def)

lemma slice_find:
  "find (\<lambda>x. w_field x = k) (next_slice docs) = map_option (\<lambda>d. (d_row d)\<lparr>w_by := []\<rparr>) (find (\<lambda>d. w_field (d_row d) = k) (rev docs))"
  by (induction docs rule: rev_induct) (auto simp: slice_step over_put_find, simp add: next_slice_def)

lemma over_fold_set: "set (foldl (\<lambda>xs r. over_put r xs) xs rs) \<subseteq> set xs \<union> set rs"
proof (induction rs rule: rev_induct)
  case (snoc r rs)
  then show ?case using over_put_set(1) by fastforce
qed simp

lemma find_prefers: "\<exists>x \<in> set xs. P x \<Longrightarrow> find P (xs @ ys) = find P xs"
  by (induction xs) auto

text \<open>C23: the replicated rows answer only their own checklist. When an emission changes the overlay, every row it then holds for a field
  of the scope comes from a row of this submission or from an unsubmitted one of this very person; and for a field that this
  submission answers, it is this submission's row, whatever drafts are around.\<close>
theorem overlay_answers_own_checklist:
  assumes "applyRxdbFillDocs checklist ids docs me (Some sig) overlay = (Some (Some built), overlay')" and "sig \<noteq> Some built"
  shows "(\<forall>r \<in> set overlay'. w_field r \<in> set ids \<longrightarrow> (\<exists>d \<in> set docs. own_doc checklist me d \<and> r = (d_row d)\<lparr>w_by := []\<rparr>))
    \<and> ((\<exists>d \<in> set docs. d_submission d = Some checklist \<and> w_field (d_row d) = k) \<longrightarrow>
        (\<exists>d \<in> set docs. d_submission d = Some checklist \<and> find (\<lambda>r. w_field r = k) overlay' = Some ((d_row d)\<lparr>w_by := []\<rparr>)))"
proof -
  define acc where "acc = acceptedFillDocs docs checklist me"
  have sl: "built = next_slice acc" and o: "overlay' = foldl (\<lambda>xs r. over_put r xs) (filter (\<lambda>r. w_field r \<notin> set ids) overlay) built"
    using assms by (auto simp: applyRxdbFillDocs_def acc_def Let_def split: if_splits)
  have "\<exists>d \<in> set docs. own_doc checklist me d \<and> r = (d_row d)\<lparr>w_by := []\<rparr>" if r: "r \<in> set overlay'" "w_field r \<in> set ids" for r
  proof -
    have "r \<in> set built" using r over_fold_set unfolding o by fastforce
    then obtain d where "d \<in> set acc" "r = (d_row d)\<lparr>w_by := []\<rparr>" using slice_set unfolding sl by blast
    then show ?thesis using accepted_own [of d docs checklist me] by (auto simp: acc_def)
  qed
  moreover have "\<exists>d \<in> set docs. d_submission d = Some checklist \<and> find (\<lambda>r. w_field r = k) overlay' = Some ((d_row d)\<lparr>w_by := []\<rparr>)"
    if e: "\<exists>d \<in> set docs. d_submission d = Some checklist \<and> w_field (d_row d) = k"
  proof -
    define sub where "sub = rev (filter (\<lambda>d. d_submission d = Some checklist) docs)"
    have "rev acc = sub @ rev (filter (\<lambda>d. d_submission d = None \<and> (case me of None \<Rightarrow> False | Some u \<Rightarrow> u \<noteq> [] \<and> d_answerer d = u)) docs)"
      by (simp only: acc_def acceptedFillDocs_def sub_def rev_append)
    moreover have "\<exists>d \<in> set sub. w_field (d_row d) = k" using e by (auto simp: sub_def)
    ultimately have "find (\<lambda>d. w_field (d_row d) = k) (rev acc) = find (\<lambda>d. w_field (d_row d) = k) sub" by (simp only: find_prefers)
    moreover have "find (\<lambda>d. w_field (d_row d) = k) sub \<noteq> None" using e by (auto simp: find_None_iff sub_def)
    ultimately obtain d where d: "find (\<lambda>d. w_field (d_row d) = k) (rev acc) = Some d" "find (\<lambda>d. w_field (d_row d) = k) sub = Some d" by auto
    have "d \<in> set sub" using found [OF d(2)] by simp
    moreover have "find (\<lambda>r. w_field r = k) overlay' = Some ((d_row d)\<lparr>w_by := []\<rparr>)"
      unfolding o over_fold_find sl find_rev_keys [OF slice_keys] slice_find by (simp add: d(1))
    ultimately show ?thesis by (auto simp: sub_def)
  qed
  ultimately show ?thesis by blast
qed

definition filled :: "string option \<Rightarrow> string \<Rightarrow> fill_row \<Rightarrow> fill_doc" where
  "filled sub who r = \<lparr>d_submission = sub, d_answerer = who, d_row = r\<rparr>"

theorem overlay_answers_own_checklist_witness:
  defines "docs \<equiv> [filled (Some ''today'') ''bob'' (crew_row ''b'' True), filled None ''ann'' (crew_row ''b'' False), filled (Some ''yesterday'') ''ann'' (crew_row ''c'' True)]"
  defines "new \<equiv> snd (applyRxdbFillDocs ''today'' [''b'', ''c''] docs (Some ''ann'') (Some None) [crew_row ''c'' False])"
  shows "\<exists>d \<in> set docs. d_submission d = Some ''today'' \<and> find (\<lambda>r. w_field r = ''b'') new = Some ((d_row d)\<lparr>w_by := []\<rparr>)"
proof -
  have run: "applyRxdbFillDocs ''today'' [''b'', ''c''] docs (Some ''ann'') (Some None) [crew_row ''c'' False] = (Some (Some [(crew_row ''b'' True)\<lparr>w_by := []\<rparr>]), new)"
    by (simp add: new_def docs_def applyRxdbFillDocs_def acceptedFillDocs_def next_slice_def filled_def crew_row_def Let_def)
  have "\<exists>d \<in> set docs. d_submission d = Some ''today'' \<and> w_field (d_row d) = ''b''" by (simp add: docs_def filled_def crew_row_def)
  then show ?thesis using overlay_answers_own_checklist [OF run, of "''b''"] by blast
qed

section \<open>Hidden answers\<close>

text \<open>The fields of a template in order, each with whether its section is shown.\<close>

definition flat :: "nat \<Rightarrow> template \<Rightarrow> (bool \<times> ffield) list" where
  "flat dow tpl = concat (map (\<lambda>s. map (Pair (isSectionVisible dow s)) (fs_fields s)) tpl)"

definition clear_all :: "(json \<Rightarrow> string) \<Rightarrow> nat \<Rightarrow> (bool \<times> ffield) list \<Rightarrow> page \<Rightarrow> page" where
  "clear_all text_of dow fs p = foldl (\<lambda>p (sv, f). clear_field text_of dow sv p f) p fs"

lemma clear_flat: "clearHiddenFieldAnswers text_of dow tpl p = clear_all text_of dow (flat dow tpl) p"
proof (induction tpl arbitrary: p)
  case (Cons s tpl)
  have "foldl (clear_field text_of dow b) q fs = clear_all text_of dow (map (Pair b) fs) q" for b q fs
    by (induction fs arbitrary: q) (simp_all add: clear_all_def)
  then show ?case using Cons by (simp add: clearHiddenFieldAnswers_def flat_def clear_all_def)
qed (simp add: clearHiddenFieldAnswers_def flat_def clear_all_def)

text \<open>No condition asks for a field that stands at its own place or later, and no id occurs twice.\<close>

fun looks_back :: "ffield list \<Rightarrow> bool" where
  "looks_back [] = True"
| "looks_back (f # fs) \<longleftrightarrow> fl_id f \<notin> fl_id ` set fs
     \<and> (case fl_condition f of None \<Rightarrow> True | Some c \<Rightarrow> (case c_field c of None \<Rightarrow> True | Some d \<Rightarrow> d \<notin> fl_id ` set (f # fs))) \<and> looks_back fs"

lemma clear_field_other: "fl_id f \<noteq> k \<Longrightarrow> p_responses (clear_field text_of dow sv p f) k = p_responses p k"
  by (simp add: clear_field_def drop_answer_def)

lemma clear_all_other: "k \<notin> fl_id ` snd ` set fs \<Longrightarrow> p_responses (clear_all text_of dow fs p) k = p_responses p k"
  by (induction fs arbitrary: p) (auto simp: clear_all_def clear_field_other)

lemma visible_cong:
  "(\<And>c d. fl_condition f = Some c \<Longrightarrow> c_field c = Some d \<Longrightarrow> p_responses p d = p_responses q d) \<Longrightarrow>
    isFieldVisible text_of dow p f = isFieldVisible text_of dow q f"
  by (auto simp: isFieldVisible_def split: option.split)

lemma clear_all_hides:
  assumes "looks_back (map snd fs)"
  shows "(sv, f) \<in> set fs \<Longrightarrow> p_responses (clear_all text_of dow fs p) (fl_id f) \<noteq> None \<Longrightarrow>
    sv \<and> isFieldVisible text_of dow (clear_all text_of dow fs p) f"
  using assms
proof (induction fs arbitrary: p)
  case (Cons x fs)
  obtain b g where x: "x = (b, g)" by (cases x)
  define q where "q = clear_field text_of dow b p g"
  have run: "clear_all text_of dow (x # fs) p = clear_all text_of dow fs q" by (simp add: clear_all_def x q_def)
  show ?case
  proof (cases "(sv, f) \<in> set fs")
    case True
    have "looks_back (map snd fs)" using Cons.prems(3) by (simp add: x)
    then show ?thesis using Cons.IH [OF True, of q] Cons.prems(2) unfolding run by blast
  next
    case False
    then have f: "f = g" "sv = b" using Cons.prems(1) unfolding x by simp_all
    have own: "p_responses (clear_all text_of dow fs q) (fl_id g) = p_responses q (fl_id g)"
      by (rule clear_all_other) (use Cons.prems(3) in \<open>simp add: x\<close>)
    have some: "p_responses q (fl_id g) \<noteq> None" using Cons.prems(2) unfolding run f own .
    have vis: "b \<and> isFieldVisible text_of dow p g"
    proof (rule ccontr)
      assume "\<not> ?thesis"
      then have "q = drop_answer (fl_id g) p" by (auto simp: q_def clear_field_def)
      then show False using some by (simp add: drop_answer_def)
    qed
    then have same: "q = p" by (simp add: q_def clear_field_def)
    have "isFieldVisible text_of dow (clear_all text_of dow fs q) g = isFieldVisible text_of dow q g"
    proof (rule visible_cong)
      fix c d
      assume "fl_condition g = Some c" "c_field c = Some d"
      then have "d \<notin> fl_id ` snd ` set fs" using Cons.prems(3) by (simp add: x)
      then show "p_responses (clear_all text_of dow fs q) d = p_responses q d" by (rule clear_all_other)
    qed
    then show ?thesis using vis unfolding run f same by blast
  qed
qed simp

text \<open>one pass clears every hidden answer. If no condition of a template asks for a field at its own place or later, as the builder
  offers them, then after the pass every field with an answer is visible, in a visible section, as judged on the answers that
  are left.\<close>
theorem hidden_answers_cleared:
  assumes "looks_back (map snd (flat dow tpl))" and "q = clearHiddenFieldAnswers text_of dow tpl p"
    and "s \<in> set tpl" and "f \<in> set (fs_fields s)" and "p_responses q (fl_id f) \<noteq> None"
  shows "isSectionVisible dow s \<and> isFieldVisible text_of dow q f \<and> f \<in> set (visible_fields text_of dow tpl q)"
proof -
  have "(isSectionVisible dow s, f) \<in> set (flat dow tpl)" using assms(3,4) by (auto simp: flat_def)
  then have "isSectionVisible dow s \<and> isFieldVisible text_of dow q f"
    using clear_all_hides [OF assms(1)] assms(5) unfolding assms(2) clear_flat by blast
  then show ?thesis using assms(3,4) by (auto simp: visible_fields_def)
qed

theorem hidden_answers_cleared_witness:
  defines "tpl \<equiv> [\<lparr>fs_days = [], fs_fields = [plain_field ''a'' None, plain_field ''b'' (asks_for ''a'')]\<rparr>]"
  defines "q \<equiv> clearHiddenFieldAnswers (\<lambda>_. ''true'') 2 tpl (answered_page [''a'', ''b''])"
  shows "isFieldVisible (\<lambda>_. ''true'') 2 q (plain_field ''b'' (asks_for ''a''))"
  by (rule hidden_answers_cleared [of 2 tpl q "\<lambda>_. ''true''" "answered_page [''a'', ''b'']" "hd tpl", THEN conjunct2, THEN conjunct1])
    (simp_all add: q_def tpl_def flat_def plain_field_def asks_for_def clearHiddenFieldAnswers_def clear_field_def isFieldVisible_def
      isSectionVisible_def answered_page_def)

text \<open>A section moved in front of the one its condition asks for breaks the premise: one pass leaves an answer whose field is hidden.\<close>

lemma moved_section_leaves_answer:
  defines "tpl \<equiv> [\<lparr>fs_days = [], fs_fields = [plain_field ''a'' (asks_for ''b'')]\<rparr>, \<lparr>fs_days = [1], fs_fields = [plain_field ''b'' None]\<rparr>]"
  defines "q \<equiv> clearHiddenFieldAnswers (\<lambda>_. ''true'') 2 tpl (answered_page [''a'', ''b''])"
  shows "p_responses q ''a'' \<noteq> None \<and> \<not> isFieldVisible (\<lambda>_. ''true'') 2 q (plain_field ''a'' (asks_for ''b''))"
  by (simp add: q_def tpl_def clearHiddenFieldAnswers_def clear_field_def isFieldVisible_def plain_field_def asks_for_def
      answered_page_def isSectionVisible_def drop_answer_def)

section \<open>Submitting\<close>




end
