(* ===== verification/FillSave.thy ===== *)
theory FillSave
  imports Complex_Main OpApply Bootstrap
begin

text \<open>
  Saving the answers of a checklist as they are given, \<open>debouncedSaveField\<close> of \<^verbatim>\<open>workflows.html\<close> with its pending set and its
  retries: the timers, the saves the server has not answered yet and the page are one state, and a run is any sequence of what
  the user, the timers and the server do. The toasts and marks are left out, but for the fields of which a loss was told.
\<close>

section \<open>The state\<close>

text \<open>A save on its way: the raw answer and what was sent.\<close>

record flight =
  g_field :: string
  g_value :: json
  g_saved :: json

record saver =
  v_page :: page
  v_timers :: "(string \<times> json) list"
  v_noteTimers :: "string list"
  v_flights :: "flight list"
  v_pending :: "string list"
  v_values :: "string \<Rightarrow> json option"
  v_retry :: bool
  v_saves :: int
  v_told :: "string list"

definition saver_init :: "page \<Rightarrow> saver" where
  "saver_init p = \<lparr>v_page = p, v_timers = [], v_noteTimers = [], v_flights = [], v_pending = [], v_values = (\<lambda>_. None), v_retry = False,
     v_saves = 0, v_told = []\<rparr>"

definition on_page :: "(page \<Rightarrow> page) \<Rightarrow> saver \<Rightarrow> saver" where
  "on_page f s = s\<lparr>v_page := f (v_page s)\<rparr>"

definition count_saves :: "int \<Rightarrow> saver \<Rightarrow> saver" where
  "count_saves d s = s\<lparr>v_saves := fst (updateSaveStatus (v_saves s) d)\<rparr>"

section \<open>Waiting and sending\<close>

definition debouncedSaveField :: "string \<Rightarrow> json \<Rightarrow> saver \<Rightarrow> saver" where
  "debouncedSaveField f v s =
     (let s1 = (if map_of (v_timers s) f \<noteq> None
                then count_saves (-1) (s\<lparr>v_timers := filter (\<lambda>(k, x). k \<noteq> f) (v_timers s)\<rparr>) else s);
          s2 = count_saves 1 s1
      in s2\<lparr>v_timers := v_timers s2 @ [(f, v)]\<rparr>)"

text \<open>The answer is sent in a bundle when it has a note or a photo.\<close>

definition note_given :: "page \<Rightarrow> string \<Rightarrow> bool" where
  "note_given p f = (case p_notes p f of None \<Rightarrow> False
     | Some n \<Rightarrow> SyncScope.truthy (n_note n) \<or> SyncScope.truthy (n_severity n) \<or> SyncScope.truthy (n_photo n))"

definition bundle_value :: "page \<Rightarrow> string \<Rightarrow> json \<Rightarrow> json" where
  "bundle_value p f v =
     (if note_given p f \<or> own_photo p f
      then JObj ((''_v'', v)
        # (if note_given p f then (case p_notes p f of None \<Rightarrow> []
             | Some n \<Rightarrow> [(''_fail_note'', JObj [(''note'', n_note n), (''severity'', n_severity n), (''photo'', or_else (n_photo n) JNull)])]) else [])
        @ (if own_photo p f then [(''_correction_photo'', the (p_photos p f))] else []))
      else v)"

definition timer_fires :: "string \<Rightarrow> saver \<Rightarrow> saver" where
  "timer_fires f s = (case map_of (v_timers s) f of None \<Rightarrow> s
     | Some v \<Rightarrow> s\<lparr>v_timers := filter (\<lambda>(k, x). k \<noteq> f) (v_timers s),
                  v_flights := v_flights s @ [\<lparr>g_field = f, g_value = v, g_saved = bundle_value (v_page s) f v\<rparr>]\<rparr>)"

section \<open>Pending answers\<close>

definition clearFieldPending :: "string \<Rightarrow> saver \<Rightarrow> saver" where
  "clearFieldPending f s = on_page (eff Update_Progress) (s\<lparr>v_pending := filter (\<lambda>k. k \<noteq> f) (v_pending s), v_values := (v_values s)(f := None)\<rparr>)"

definition schedulePendingRetry :: "saver \<Rightarrow> saver" where
  "schedulePendingRetry s = (if v_retry s \<or> v_pending s = [] then s else s\<lparr>v_retry := True\<rparr>)"

definition keep_draft :: "string \<Rightarrow> json \<Rightarrow> ms \<Rightarrow> draft list \<Rightarrow> draft list" where
  "keep_draft f saved now ds = (if saved = JNull \<or> saved = JUndef then drop_draft f ds else save_draft f saved (Some now) ds)"

definition put_draft :: "string \<Rightarrow> json \<Rightarrow> ms \<Rightarrow> page \<Rightarrow> page" where
  "put_draft f saved now p = (case p_drafts p of None \<Rightarrow> p
     | Some ds \<Rightarrow> eff (Notified ''draftResponses'') (p\<lparr>p_drafts := Some (keep_draft f saved now ds)\<rparr>))"

definition markFieldPending :: "string \<Rightarrow> json \<Rightarrow> json \<Rightarrow> ms \<Rightarrow> saver \<Rightarrow> saver" where
  "markFieldPending f v saved now s =
     (let s1 = s\<lparr>v_pending := (if f \<in> set (v_pending s) then v_pending s else v_pending s @ [f]), v_values := (v_values s)(f \<mapsto> v)\<rparr>
      in schedulePendingRetry (on_page (eff Update_Progress) (on_page (put_draft f saved now) s1)))"

definition retryPendingFields :: "bool \<Rightarrow> saver \<Rightarrow> saver" where
  "retryPendingFields online s =
     (if v_pending s = [] \<or> \<not> online then s
      else foldl (\<lambda>s f. debouncedSaveField f (case v_values s f of None \<Rightarrow> JUndef | Some v \<Rightarrow> v) s) s (v_pending s))"

definition retry_timer :: "bool \<Rightarrow> saver \<Rightarrow> saver" where
  "retry_timer online s = (if v_retry s then schedulePendingRetry (retryPendingFields online (s\<lparr>v_retry := False\<rparr>)) else s)"

section \<open>The server's answer\<close>

text \<open>Stored; beaten by a newer operation, with it if the answer holds it; the field is gone; or anything else.\<close>

datatype save_answer = Stored_Ok | Beaten "sop option" | Field_Cut | Failed

definition save_stored :: "flight \<Rightarrow> ms \<Rightarrow> saver \<Rightarrow> saver" where
  "save_stored g now s = (case p_drafts (v_page s) of
     None \<Rightarrow> markFieldPending (g_field g) (g_value g) (g_saved g) now s
   | Some ds \<Rightarrow> clearFieldPending (g_field g) (on_page (put_draft (g_field g) (g_saved g) now) s))"

definition save_beaten :: "flight \<Rightarrow> sop option \<Rightarrow> saver \<Rightarrow> saver" where
  "save_beaten g w s =
     (let s1 = on_page (case w of Some x \<Rightarrow> applyOp x True | None \<Rightarrow> eff Load_My) s
      in on_page (eff (Flash (g_field g))) (on_page (eff (Render_Field (g_field g))) (s1\<lparr>v_told := v_told s1 @ [g_field g]\<rparr>)))"

definition save_cut :: "flight \<Rightarrow> saver \<Rightarrow> saver" where
  "save_cut g s =
     (let s1 = clearFieldPending (g_field g) (on_page (eff (Render_Field (g_field g))) (on_page (apply_uncheck (g_field g)) s))
      in on_page (\<lambda>p. if p_open p \<noteq> None then eff Update_Progress p else p) (s1\<lparr>v_told := v_told s1 @ [g_field g]\<rparr>))"

definition save_settled :: "flight \<Rightarrow> save_answer \<Rightarrow> ms \<Rightarrow> saver \<Rightarrow> saver" where
  "save_settled g x now s = count_saves (-1) (case x of
     Stored_Ok \<Rightarrow> save_stored g now s
   | Beaten w \<Rightarrow> save_beaten g w s
   | Field_Cut \<Rightarrow> save_cut g s
   | Failed \<Rightarrow> markFieldPending (g_field g) (g_value g) (g_saved g) now s)"

text \<open>The answers come in any order.\<close>

definition answer_comes :: "nat \<Rightarrow> save_answer \<Rightarrow> ms \<Rightarrow> saver \<Rightarrow> saver" where
  "answer_comes k x now s =
     (if k < length (v_flights s) then save_settled (v_flights s ! k) x now (s\<lparr>v_flights := take k (v_flights s) @ drop (Suc k) (v_flights s)\<rparr>) else s)"

section \<open>Answering\<close>

definition answer_field :: "string \<Rightarrow> json \<Rightarrow> string \<Rightarrow> ms \<Rightarrow> saver \<Rightarrow> saver" where
  "answer_field f v me now s =
     debouncedSaveField f v (on_page (\<lambda>p. p\<lparr>p_responses := (p_responses p)(f \<mapsto> \<lparr>r_value = v, r_by = me, r_at = Some now, r_subs = None\<rparr>)\<rparr>) s)"

definition empty_note :: fail_note where
  "empty_note = \<lparr>n_note = JStr [], n_severity = JStr [], n_photo = JUndef\<rparr>"

definition setYesNo :: "string \<Rightarrow> bool \<Rightarrow> string \<Rightarrow> ms \<Rightarrow> saver \<Rightarrow> saver" where
  "setYesNo f b me now s =
     on_page (\<lambda>p. if b then p\<lparr>p_notes := (p_notes p)(f := None)\<rparr>
                  else if p_notes p f = None then p\<lparr>p_notes := (p_notes p)(f \<mapsto> empty_note)\<rparr> else p)
       (answer_field f (JBool b) me now (on_page (clearRejectionFlag f) s))"

definition setTextAnswer :: "string \<Rightarrow> string \<Rightarrow> string \<Rightarrow> ms \<Rightarrow> saver \<Rightarrow> saver" where
  "setTextAnswer f t me now s =
     (if Bootstrap.trim t \<noteq> [] then answer_field f (JStr (Bootstrap.trim t)) me now s
      else on_page (\<lambda>p. p\<lparr>p_responses := (p_responses p)(f := None)\<rparr>) s)"

definition patch_note :: "doc \<Rightarrow> fail_note \<Rightarrow> fail_note" where
  "patch_note d n = \<lparr>n_note = (if has_field d ''note'' then field d ''note'' else n_note n),
     n_severity = (if has_field d ''severity'' then field d ''severity'' else n_severity n),
     n_photo = (if has_field d ''photo'' then field d ''photo'' else n_photo n)\<rparr>"

definition autoSaveFailNote :: "string \<Rightarrow> saver \<Rightarrow> saver" where
  "autoSaveFailNote f s = s\<lparr>v_noteTimers := filter (\<lambda>k. k \<noteq> f) (v_noteTimers s) @ [f]\<rparr>"

definition note_timer :: "string \<Rightarrow> saver \<Rightarrow> saver" where
  "note_timer f s =
     (if f \<notin> set (v_noteTimers s) then s
      else let s1 = s\<lparr>v_noteTimers := filter (\<lambda>k. k \<noteq> f) (v_noteTimers s)\<rparr> in
           (case p_responses (v_page s1) f of None \<Rightarrow> s1 | Some r \<Rightarrow> debouncedSaveField f (r_value r) s1))"

definition setFailNote :: "string \<Rightarrow> doc \<Rightarrow> saver \<Rightarrow> saver" where
  "setFailNote f d s = autoSaveFailNote f (on_page (\<lambda>p. p\<lparr>p_notes := (p_notes p)(f \<mapsto>
     patch_note d (case p_notes p f of None \<Rightarrow> empty_note | Some n \<Rightarrow> n))\<rparr>) s)"

definition setSeverity :: "string \<Rightarrow> json \<Rightarrow> saver \<Rightarrow> saver" where
  "setSeverity f sev s = on_page (\<lambda>p. p\<lparr>p_notes := (p_notes p)(f \<mapsto>
     (case p_notes p f of None \<Rightarrow> empty_note | Some n \<Rightarrow> n)\<lparr>n_severity := sev\<rparr>)\<rparr>) s"

text \<open>A submit that passed the checks stops what it believes to be the autosaves; no field's timer is among them.\<close>

definition stop_autosaves :: "saver \<Rightarrow> saver" where
  "stop_autosaves s = s\<lparr>v_noteTimers := [], v_saves := 0\<rparr>"

section \<open>Runs\<close>

datatype save_event =
    Yes_No string bool ms | Typed string string ms | Noted string doc | Severity string json
  | Timer string | Note_Timer string | Answer nat save_answer ms | Retry_Timer bool | Went_Online

definition save_step :: "string \<Rightarrow> saver \<Rightarrow> save_event \<Rightarrow> saver" where
  "save_step me s e = (case e of
     Yes_No f b now \<Rightarrow> setYesNo f b me now s
   | Typed f t now \<Rightarrow> setTextAnswer f t me now s
   | Noted f d \<Rightarrow> setFailNote f d s
   | Severity f v \<Rightarrow> setSeverity f v s
   | Timer f \<Rightarrow> timer_fires f s
   | Note_Timer f \<Rightarrow> note_timer f s
   | Answer k x now \<Rightarrow> answer_comes k x now s
   | Retry_Timer online \<Rightarrow> retry_timer online s
   | Went_Online \<Rightarrow> retryPendingFields True s)"

definition save_run :: "string \<Rightarrow> saver \<Rightarrow> save_event list \<Rightarrow> saver" where
  "save_run me s es = foldl (save_step me) s es"

end
