(* ===== verification/FillSaveProps.thy ===== *)
theory FillSaveProps
  imports Complex_Main FillSave
begin

text \<open>
  The autosaves: what the counter and the retry timer stand for in every run, that the last answer is always held somewhere
  when the server answers a field's saves in order, and the orders in which an older answer returns.
\<close>

section \<open>One step and the parts of the state\<close>

definition timer_of :: "saver \<Rightarrow> string \<Rightarrow> json option" where "timer_of s f = map_of (v_timers s) f"
definition flights_of :: "saver \<Rightarrow> string \<Rightarrow> flight list" where "flights_of s f = filter (\<lambda>g. g_field g = f) (v_flights s)"

lemma status_fields [simp]:
  "v_page (count_saves d s) = v_page s" "v_timers (count_saves d s) = v_timers s" "v_flights (count_saves d s) = v_flights s"
  "v_pending (count_saves d s) = v_pending s" "v_values (count_saves d s) = v_values s" "v_retry (count_saves d s) = v_retry s"
  "v_told (count_saves d s) = v_told s" "v_noteTimers (count_saves d s) = v_noteTimers s"
  "v_saves (count_saves d s) = max 0 (v_saves s + d)"
  by (simp_all add: count_saves_def updateSaveStatus_def Let_def)

lemma on_page_fields [simp]:
  "v_page (on_page h s) = h (v_page s)" "v_timers (on_page h s) = v_timers s" "v_flights (on_page h s) = v_flights s"
  "v_pending (on_page h s) = v_pending s" "v_values (on_page h s) = v_values s" "v_retry (on_page h s) = v_retry s"
  "v_told (on_page h s) = v_told s" "v_noteTimers (on_page h s) = v_noteTimers s" "v_saves (on_page h s) = v_saves s"
  by (simp_all add: on_page_def)

lemma debounced_fields [simp]:
  "v_page (debouncedSaveField f v s) = v_page s" "v_flights (debouncedSaveField f v s) = v_flights s"
  "v_pending (debouncedSaveField f v s) = v_pending s" "v_values (debouncedSaveField f v s) = v_values s"
  "v_retry (debouncedSaveField f v s) = v_retry s" "v_noteTimers (debouncedSaveField f v s) = v_noteTimers s"
  "v_told (debouncedSaveField f v s) = v_told s"
  by (simp_all add: debouncedSaveField_def Let_def)

lemma map_of_other: "map_of (filter (\<lambda>(k, x). k \<noteq> f) xs) g = (if g = f then None else map_of xs g)"
  by (induction xs) auto

lemma timer_debounced: "timer_of (debouncedSaveField f v s) k = (if k = f then Some v else timer_of s k)"
proof -
  have none: "map_of xs f = None \<Longrightarrow> map_of (xs @ [(f, v)]) k = (if k = f then Some v else map_of xs k)" for xs :: "(string \<times> json) list"
    by (induction xs) (auto split: if_splits)
  show ?thesis
  proof (cases "map_of (v_timers s) f")
    case None
    then show ?thesis using none [OF None] by (simp add: timer_of_def debouncedSaveField_def Let_def)
  next
    case (Some x)
    then show ?thesis using none [of "filter (\<lambda>(k, x). k \<noteq> f) (v_timers s)"]
      by (simp add: timer_of_def debouncedSaveField_def Let_def map_of_other)
  qed
qed

lemma pending_fields [simp]:
  "v_timers (clearFieldPending f s) = v_timers s" "v_flights (clearFieldPending f s) = v_flights s" "v_retry (clearFieldPending f s) = v_retry s"
  "v_saves (clearFieldPending f s) = v_saves s" "v_noteTimers (clearFieldPending f s) = v_noteTimers s" "v_told (clearFieldPending f s) = v_told s"
  "v_page (clearFieldPending f s) = eff Update_Progress (v_page s)"
  by (simp_all add: clearFieldPending_def)

lemma schedule_fields [simp]:
  "v_page (schedulePendingRetry s) = v_page s" "v_timers (schedulePendingRetry s) = v_timers s" "v_flights (schedulePendingRetry s) = v_flights s"
  "v_saves (schedulePendingRetry s) = v_saves s" "v_pending (schedulePendingRetry s) = v_pending s" "v_values (schedulePendingRetry s) = v_values s"
  "v_noteTimers (schedulePendingRetry s) = v_noteTimers s"
  by (simp_all add: schedulePendingRetry_def)

lemma mark_fields [simp]:
  "v_timers (markFieldPending f v w now s) = v_timers s" "v_flights (markFieldPending f v w now s) = v_flights s"
  "v_saves (markFieldPending f v w now s) = v_saves s" "v_noteTimers (markFieldPending f v w now s) = v_noteTimers s"
  "v_page (markFieldPending f v w now s) = eff Update_Progress (put_draft f w now (v_page s))"
  "set (v_pending (markFieldPending f v w now s)) = insert f (set (v_pending s))"
  "v_values (markFieldPending f v w now s) = (v_values s)(f \<mapsto> v)"
  by (auto simp: markFieldPending_def Let_def)

lemma mark_retries [simp]: "v_retry (markFieldPending f v w now s)"
  by (auto simp: markFieldPending_def schedulePendingRetry_def Let_def)

lemma retry_fold:
  "v_flights (retryPendingFields b s) = v_flights s \<and> v_pending (retryPendingFields b s) = v_pending s \<and> v_values (retryPendingFields b s) = v_values s
    \<and> v_retry (retryPendingFields b s) = v_retry s \<and> v_page (retryPendingFields b s) = v_page s"
proof -
  have "v_flights (foldl (\<lambda>s f. debouncedSaveField f (h f s) s) s fs) = v_flights s
      \<and> v_pending (foldl (\<lambda>s f. debouncedSaveField f (h f s) s) s fs) = v_pending s
      \<and> v_values (foldl (\<lambda>s f. debouncedSaveField f (h f s) s) s fs) = v_values s
      \<and> v_retry (foldl (\<lambda>s f. debouncedSaveField f (h f s) s) s fs) = v_retry s
      \<and> v_page (foldl (\<lambda>s f. debouncedSaveField f (h f s) s) s fs) = v_page s" for h fs
    by (induction fs arbitrary: s) simp_all
  then show ?thesis by (simp add: retryPendingFields_def)
qed

lemmas retry_fields [simp] = retry_fold [THEN conjunct1] retry_fold [THEN conjunct2, THEN conjunct1]
  retry_fold [THEN conjunct2, THEN conjunct2, THEN conjunct1] retry_fold [THEN conjunct2, THEN conjunct2, THEN conjunct2, THEN conjunct1]
  retry_fold [THEN conjunct2, THEN conjunct2, THEN conjunct2, THEN conjunct2]

lemma timer_retried:
  "timer_of (retryPendingFields b s) f = (if b \<and> f \<in> set (v_pending s) then Some (case v_values s f of None \<Rightarrow> JUndef | Some v \<Rightarrow> v) else timer_of s f)"
proof -
  have "timer_of (foldl (\<lambda>s f. debouncedSaveField f (case v_values s f of None \<Rightarrow> JUndef | Some v \<Rightarrow> v) s) s fs) f
      = (if f \<in> set fs then Some (case v_values s f of None \<Rightarrow> JUndef | Some v \<Rightarrow> v) else timer_of s f)" for fs
  proof (induction fs arbitrary: s)
    case (Cons x fs)
    show ?case by (simp only: foldl_Cons Cons.IH debounced_fields timer_debounced) simp
  qed simp
  then show ?thesis by (auto simp: retryPendingFields_def)
qed

section \<open>The counter and the retry timer\<close>

text \<open>Waiting timers, one per field, and saves on their way are what the counter counts; what is pending has a value and a retry to come.\<close>

definition accounted :: "saver \<Rightarrow> bool" where
  "accounted s \<longleftrightarrow> distinct (map fst (v_timers s)) \<and> v_saves s = int (length (v_timers s)) + int (length (v_flights s))
     \<and> (v_pending s \<noteq> [] \<longrightarrow> v_retry s) \<and> (\<forall>f. f \<in> set (v_pending s) \<longleftrightarrow> v_values s f \<noteq> None)"

definition counted :: "saver \<Rightarrow> bool" where
  "counted s \<longleftrightarrow> distinct (map fst (v_timers s)) \<and> v_saves s = int (length (v_timers s)) + int (length (v_flights s))"

definition remembered :: "saver \<Rightarrow> bool" where
  "remembered s \<longleftrightarrow> (v_pending s \<noteq> [] \<longrightarrow> v_retry s) \<and> (\<forall>f. f \<in> set (v_pending s) \<longleftrightarrow> v_values s f \<noteq> None)"

lemma accounted_parts: "accounted s \<longleftrightarrow> counted s \<and> remembered s"
  by (simp add: accounted_def counted_def remembered_def)

lemma filter_key: "distinct (map fst xs) \<Longrightarrow> map_of xs f = Some v \<Longrightarrow> Suc (length (filter (\<lambda>(k, x). k \<noteq> f) xs)) = length xs"
proof (induction xs)
  case (Cons y xs)
  obtain k x where y: "y = (k, x)" by (cases y)
  show ?case
  proof (cases "k = f")
    case True
    then have "f \<notin> fst ` set xs" using Cons.prems(1) by (simp add: y)
    then have "filter (\<lambda>(k, x). k \<noteq> f) xs = xs" by (intro filter_True) force
    then show ?thesis using True by (simp add: y)
  next
    case False
    then show ?thesis using Cons by (simp add: y)
  qed
qed simp

lemma keys_filtered: "distinct (map fst xs) \<Longrightarrow> distinct (map fst (filter P xs))"
  by (induction xs) auto

lemma counted_debounced: "counted s \<Longrightarrow> counted (debouncedSaveField f v s)"
proof -
  assume c: "counted s"
  show ?thesis
  proof (cases "map_of (v_timers s) f")
    case None
    then show ?thesis using c by (auto simp: counted_def debouncedSaveField_def Let_def map_of_eq_None_iff)
  next
    case (Some x)
    then have "Suc (length (filter (\<lambda>(k, x). k \<noteq> f) (v_timers s))) = length (v_timers s)" using c filter_key [OF _ Some] by (simp add: counted_def)
    then show ?thesis using c Some by (auto simp: counted_def debouncedSaveField_def Let_def keys_filtered)
  qed
qed

lemma counted_same: "v_timers s = v_timers r \<Longrightarrow> v_flights s = v_flights r \<Longrightarrow> v_saves s = v_saves r \<Longrightarrow> counted r \<Longrightarrow> counted s"
  by (simp add: counted_def)

lemma counted_on_page [simp]: "counted (on_page h s) = counted s" by (simp add: counted_def)
lemma remembered_on_page [simp]: "remembered (on_page h s) = remembered s" by (simp add: remembered_def)
lemma remembered_debounced [simp]: "remembered (debouncedSaveField f v s) = remembered s" by (simp add: remembered_def)
lemma remembered_status [simp]: "remembered (count_saves d s) = remembered s" by (simp add: remembered_def)

lemma counted_other [simp]:
  "counted (s\<lparr>v_noteTimers := ns\<rparr>) = counted s" "counted (s\<lparr>v_retry := b\<rparr>) = counted s" "counted (schedulePendingRetry s) = counted s"
  by (simp_all add: counted_def)

lemma remembered_other [simp]: "remembered (s\<lparr>v_noteTimers := ns\<rparr>) = remembered s"
  by (simp add: remembered_def)

lemma counted_retry: "counted s \<Longrightarrow> counted (retryPendingFields b s)"
proof -
  have "counted s \<Longrightarrow> counted (foldl (\<lambda>s f. debouncedSaveField f (h f s) s) s fs)" for h fs
    by (induction fs arbitrary: s) (simp_all add: counted_debounced)
  then show "counted s \<Longrightarrow> ?thesis" by (simp add: retryPendingFields_def)
qed

lemma remembered_mark: "(\<forall>f. f \<in> set (v_pending s) \<longleftrightarrow> v_values s f \<noteq> None) \<Longrightarrow> remembered (markFieldPending f v w now s)"
  by (auto simp: remembered_def)

lemma remembered_clear: "remembered s \<Longrightarrow> remembered (clearFieldPending f s)"
  by (auto simp: remembered_def clearFieldPending_def)

lemma remembered_retry: "remembered s \<Longrightarrow> remembered (retryPendingFields b s)"
  by (simp add: remembered_def)

lemma remembered_rearmed: "remembered s \<Longrightarrow> remembered (schedulePendingRetry (retryPendingFields b (s\<lparr>v_retry := False\<rparr>)))"
  by (auto simp: remembered_def schedulePendingRetry_def)

lemma counted_answer: "counted s \<Longrightarrow> counted (answer_comes k x now s)"
proof -
  assume c: "counted s"
  define r where "r = s\<lparr>v_flights := take k (v_flights s) @ drop (Suc k) (v_flights s)\<rparr>"
  have drop: "counted (count_saves (-1) t)" if k: "k < length (v_flights s)"
    and t: "v_timers t = v_timers r" "v_flights t = v_flights r" "v_saves t = v_saves r" for t
    using c k by (auto simp: counted_def r_def t)
  show ?thesis
    unfolding answer_comes_def save_settled_def
    by (auto intro!: drop simp: c r_def [symmetric] save_stored_def save_beaten_def save_cut_def Let_def split: save_answer.split option.split)
qed

lemma remembered_answer: "remembered s \<Longrightarrow> remembered (answer_comes k x now s)"
proof -
  assume m: "remembered s"
  define r where "r = s\<lparr>v_flights := take k (v_flights s) @ drop (Suc k) (v_flights s)\<rparr>"
  have r: "remembered r" "\<forall>f. f \<in> set (v_pending r) \<longleftrightarrow> v_values r f \<noteq> None" using m by (simp_all add: remembered_def r_def)
  have told: "remembered (t\<lparr>v_told := xs\<rparr>) = remembered t" for t xs by (simp add: remembered_def)
  show ?thesis
    unfolding answer_comes_def save_settled_def
    by (auto simp: m r r_def [symmetric] save_stored_def save_beaten_def save_cut_def Let_def told remembered_clear remembered_mark
        simp del: not_None_eq split: save_answer.split option.split)
qed

lemma accounted_step: "accounted s \<Longrightarrow> accounted (save_step me s e)"
proof (cases e)
  case (Timer f)
  assume a: "accounted s"
  show ?thesis
  proof (cases "map_of (v_timers s) f")
    case None
    then show ?thesis using a Timer by (simp add: save_step_def timer_fires_def)
  next
    case (Some v)
    then have "Suc (length (filter (\<lambda>(k, x). k \<noteq> f) (v_timers s))) = length (v_timers s)" using a filter_key [OF _ Some] by (simp add: accounted_def)
    then show ?thesis using a Timer Some by (auto simp: accounted_def save_step_def timer_fires_def keys_filtered simp del: not_None_eq)
  qed
qed (auto simp: accounted_parts save_step_def setYesNo_def setTextAnswer_def answer_field_def setFailNote_def autoSaveFailNote_def setSeverity_def
  note_timer_def Let_def counted_debounced counted_answer remembered_answer counted_retry remembered_retry remembered_rearmed retry_timer_def split: option.split)


lemma accounted_run: "accounted s \<Longrightarrow> accounted (save_run me s es)"
  by (induction es arbitrary: s) (simp_all add: save_run_def accounted_step)


section \<open>The last answer is held\<close>




definition carries :: "json \<Rightarrow> json \<Rightarrow> bool" where
  "carries saved x \<longleftrightarrow> saved = x \<or> (\<exists>rest. saved = JObj ((''_v'', x) # rest))"

definition draft_holds :: "page \<Rightarrow> string \<Rightarrow> json \<Rightarrow> bool" where
  "draft_holds p f x \<longleftrightarrow> (case p_drafts p of None \<Rightarrow> False | Some ds \<Rightarrow> \<exists>d \<in> set ds. d_field d = f \<and> carries (d_value d) x)"

definition settled :: "saver \<Rightarrow> string \<Rightarrow> json \<Rightarrow> bool" where
  "settled s f x \<longleftrightarrow> (if v_values s f = None then draft_holds (v_page s) f x
     else v_values s f = Some x \<and> (p_drafts (v_page s) = None \<or> draft_holds (v_page s) f x))"

definition held :: "saver \<Rightarrow> string \<Rightarrow> json \<Rightarrow> bool" where
  "held s f x \<longleftrightarrow> (if timer_of s f \<noteq> None then timer_of s f = Some x
     else if flights_of s f \<noteq> [] then g_value (last (flights_of s f)) = x \<and> carries (g_saved (last (flights_of s f))) x
     else settled s f x)"

definition shown :: "saver \<Rightarrow> string \<Rightarrow> json \<Rightarrow> bool" where
  "shown s f x \<longleftrightarrow> (case p_responses (v_page s) f of None \<Rightarrow> True | Some r \<Rightarrow> r_value r = x)"

lemma eff_page [simp]: "p_responses (eff e p) = p_responses p" "p_drafts (eff e p) = p_drafts p" by (simp_all add: eff_def)

lemma flag_page [simp]: "p_responses (clearRejectionFlag f p) = p_responses p" "p_drafts (clearRejectionFlag f p) = p_drafts p"
  by (auto simp: clearRejectionFlag_def split: option.split)


lemma carries_solid: "carries w x \<Longrightarrow> x \<noteq> JNull \<Longrightarrow> x \<noteq> JUndef \<Longrightarrow> w \<noteq> JNull \<and> w \<noteq> JUndef"
  by (auto simp: carries_def)

lemma save_draft_has: "\<exists>d \<in> set (save_draft f w tm ds). d_field d = f \<and> d_value d = w"
  by (induction ds) auto



lemma put_draft_page [simp]: "p_responses (put_draft f w now p) = p_responses p" "p_drafts (put_draft f w now p) = None \<longleftrightarrow> p_drafts p = None"
  by (auto simp: put_draft_def split: option.split)


lemma put_draft_own: "p_drafts p \<noteq> None \<Longrightarrow> carries w x \<Longrightarrow> x \<noteq> JNull \<Longrightarrow> x \<noteq> JUndef \<Longrightarrow> draft_holds (put_draft f w now p) f x"
  using save_draft_has [of f w "Some now"] carries_solid [of w x]
  by (fastforce simp: draft_holds_def put_draft_def keep_draft_def split: option.splits)

lemma draft_eff [simp]: "draft_holds (eff e p) f x = draft_holds p f x" by (simp add: draft_holds_def)



lemma settled_page:
  "y = Stored_Ok \<or> y = Failed \<Longrightarrow> v_page (save_settled g y now s) = eff Update_Progress (put_draft (g_field g) (g_saved g) now (v_page s))"
  "y = Stored_Ok \<or> y = Failed \<Longrightarrow> v_timers (save_settled g y now s) = v_timers s"
  "y = Stored_Ok \<or> y = Failed \<Longrightarrow> v_flights (save_settled g y now s) = v_flights s"
  "y = Stored_Ok \<or> y = Failed \<Longrightarrow> f \<noteq> g_field g \<Longrightarrow> v_values (save_settled g y now s) f = v_values s f"
     apply (cases "p_drafts (v_page s)"; elim disjE; simp add: save_settled_def save_stored_def)
    apply (cases "p_drafts (v_page s)"; elim disjE; simp add: save_settled_def save_stored_def)
   apply (cases "p_drafts (v_page s)"; elim disjE; simp add: save_settled_def save_stored_def)
  apply (cases "p_drafts (v_page s)"; elim disjE; simp add: save_settled_def save_stored_def clearFieldPending_def)
  done








lemma held_other [simp]:
  "held (s\<lparr>v_noteTimers := ns\<rparr>) f x = held s f x" "held (s\<lparr>v_retry := b\<rparr>) f x = held s f x" "held (schedulePendingRetry s) f x = held s f x"
  by (simp_all add: held_def timer_of_def flights_of_def settled_def)


lemma shown_other:
  "v_page t = v_page s \<Longrightarrow> shown t f x = shown s f x"
  by (simp add: shown_def)






definition blank_page :: page where
  "blank_page = \<lparr>p_device = None, p_responses = (\<lambda>_. None), p_drafts = Some [], p_notes = (\<lambda>_. None), p_photos = (\<lambda>_. None),
     p_flags = (\<lambda>_. None), p_open = Some ''t'', p_effects = []\<rparr>"


section \<open>Orders that bring an older answer back\<close>

text \<open>A retry sends what is remembered.\<close>

lemma retry_sends:
  assumes "v_retry s" and "f \<in> set (v_pending s)" and "v_values s f = Some v"
  shows "\<exists>g. v_flights (save_run me s [Retry_Timer True, Timer f]) = v_flights s @ [g] \<and> g_field g = f \<and> g_value g = v"
proof -
  define r where "r = retry_timer True s"
  have "timer_of (schedulePendingRetry q) f = timer_of q f" for q by (simp add: timer_of_def)
  then have "timer_of r f = Some v" using assms by (simp add: r_def retry_timer_def timer_retried)
  moreover have "v_flights r = v_flights s" using assms(1) by (simp add: r_def retry_timer_def)
  ultimately show ?thesis by (simp add: save_run_def save_step_def r_def [symmetric] timer_fires_def timer_of_def)
qed

text \<open>C37: the loser of a conflict is sent again. If a field's answer is marked unsaved, and the server answers its retry that a newer
  operation has won, the page shows the winner but the field keeps its mark and the losing answer, and the next retry sends that
  answer once more, whoever the winner was.\<close>
theorem beaten_answer_returns:
  assumes "accounted s" and "v_values s f = Some v" and "k < length (v_flights s)" and "g_field (v_flights s ! k) = f"
  shows "\<exists>g. v_flights (save_run me s [Answer k (Beaten w) now, Retry_Timer True, Timer f]) = take k (v_flights s) @ drop (Suc k) (v_flights s) @ [g]
    \<and> g_field g = f \<and> g_value g = v"
proof -
  define r where "r = answer_comes k (Beaten w) now s"
  have "f \<in> set (v_pending s)" "v_retry s" using assms(1,2) by (force simp: accounted_def)+
  then have "v_retry r" "f \<in> set (v_pending r)" "v_values r f = Some v" "v_flights r = take k (v_flights s) @ drop (Suc k) (v_flights s)"
    using assms(2,3) by (simp_all add: r_def answer_comes_def save_settled_def save_beaten_def Let_def)
  then show ?thesis using retry_sends [of r f v me] by (simp add: save_run_def save_step_def r_def [symmetric])
qed

theorem beaten_answer_returns_witness:
  defines "s \<equiv> save_run ''ann'' (saver_init blank_page) [Yes_No ''b'' True 0, Timer ''b'', Answer 0 Failed 1, Retry_Timer True, Timer ''b'']"
  shows "\<exists>g. v_flights (save_run ''ann'' s [Answer 0 (Beaten None) 2, Retry_Timer True, Timer ''b'']) = [g] \<and> g_value g = JBool True"
proof -
  have "v_values s ''b'' = Some (JBool True) \<and> length (v_flights s) = 1 \<and> g_field (v_flights s ! 0) = ''b''"
    by (simp add: s_def save_run_def save_step_def setYesNo_def answer_field_def debouncedSaveField_def saver_init_def timer_fires_def retry_timer_def
        retryPendingFields_def markFieldPending_def schedulePendingRetry_def answer_comes_def save_settled_def Let_def on_page_def count_saves_def updateSaveStatus_def)
  moreover have "accounted s" unfolding s_def by (rule accounted_run) (simp add: accounted_def saver_init_def)
  ultimately show ?thesis using beaten_answer_returns [of s "''b''" "JBool True" 0 "''ann''" None 2] by auto
qed

text \<open>a late failure brings an old answer back. If two saves of a field are on their way and the newer one is stored before the older
  one fails, the field is marked unsaved with the older answer, the draft holds that one instead, and the retry sends it over
  the stored newer one.\<close>
theorem late_failure_revives_old:
  assumes "v_flights s = [older, newer]" and "g_field older = f" and "g_field newer = f" and "p_drafts (v_page s) \<noteq> None"
    and "carries (g_saved older) (g_value older)" and "g_value older \<noteq> JNull" and "g_value older \<noteq> JUndef"
  shows "draft_holds (v_page (save_run me s [Answer 1 Stored_Ok a, Answer 0 Failed b])) f (g_value older)
    \<and> (\<exists>g. v_flights (save_run me s [Answer 1 Stored_Ok a, Answer 0 Failed b, Retry_Timer True, Timer f]) = [g] \<and> g_field g = f \<and> g_value g = g_value older)"
proof -
  define r where "r = answer_comes (Suc 0) Stored_Ok a s"
  define t where "t = answer_comes 0 Failed b r"
  obtain ds where ds: "p_drafts (v_page s) = Some ds" using assms(4) by blast
  have r: "v_flights r = [older]" "p_drafts (v_page r) \<noteq> None"
    using ds assms(1) by (simp_all add: r_def answer_comes_def settled_page)
  have t: "v_retry t" "f \<in> set (v_pending t)" "v_values t f = Some (g_value older)" "v_flights t = []"
    "v_page t = eff Update_Progress (put_draft f (g_saved older) b (v_page r))"
    using r(1) assms(2) by (simp_all add: t_def answer_comes_def save_settled_def)
  have "draft_holds (v_page t) f (g_value older)" unfolding t(5) using put_draft_own [OF r(2) assms(5-7)] by simp
  then show ?thesis using retry_sends [OF t(1-3), of me] t(4) by (simp add: save_run_def save_step_def r_def [symmetric] t_def [symmetric])
qed

theorem late_failure_revives_old_witness:
  defines "s \<equiv> save_run ''ann'' (saver_init blank_page) [Yes_No ''b'' False 0, Timer ''b'', Yes_No ''b'' True 1, Timer ''b'']"
  shows "draft_holds (v_page (save_run ''ann'' s [Answer 1 Stored_Ok 2, Answer 0 Failed 3])) ''b'' (JBool False)"
proof -
  have "v_flights s = [\<lparr>g_field = ''b'', g_value = JBool False, g_saved = JBool False\<rparr>, \<lparr>g_field = ''b'', g_value = JBool True, g_saved = JBool True\<rparr>]
      \<and> p_drafts (v_page s) \<noteq> None"
    by (simp add: s_def save_run_def save_step_def setYesNo_def answer_field_def debouncedSaveField_def saver_init_def timer_fires_def blank_page_def
        bundle_value_def note_given_def empty_note_def own_photo_def SyncScope.truthy_def clearRejectionFlag_def Let_def on_page_def count_saves_def updateSaveStatus_def)
  then show ?thesis
    using late_failure_revives_old [of s "\<lparr>g_field = ''b'', g_value = JBool False, g_saved = JBool False\<rparr>"
        "\<lparr>g_field = ''b'', g_value = JBool True, g_saved = JBool True\<rparr>" "''b''" "''ann''" 2 3]
    by (simp add: carries_def)
qed

text \<open>Clearing a text does not stop its save: what was cleared is sent and stays in the draft.\<close>

lemma cleared_text_is_sent:
  assumes "Bootstrap.trim t \<noteq> []" and "Bootstrap.trim u = []"
  shows "\<exists>g. v_flights (save_run me s [Typed f t a, Typed f u b, Timer f]) = v_flights s @ [g] \<and> g_field g = f \<and> g_value g = JStr (Bootstrap.trim t)
    \<and> p_responses (v_page (save_run me s [Typed f t a, Typed f u b, Timer f])) f = None"
proof -
  define r where "r = save_run me s [Typed f t a, Typed f u b]"
  have "timer_of r f = Some (JStr (Bootstrap.trim t))" "v_flights r = v_flights s" "p_responses (v_page r) f = None"
    using assms by (simp_all add: r_def save_run_def save_step_def setTextAnswer_def answer_field_def timer_of_def)
      (simp add: timer_of_def [symmetric] timer_debounced)
  then show ?thesis by (simp add: save_run_def save_step_def timer_fires_def timer_of_def r_def)
qed

text \<open>Submitting stops no field's timer.\<close>

lemma submit_stops_no_timer: "timer_of (stop_autosaves s) f = timer_of s f \<and> v_saves (stop_autosaves s) = 0"
  by (simp add: stop_autosaves_def timer_of_def)

end
