(* ===== verification/TemplateSave.thy ===== *)
theory TemplateSave
  imports Complex_Main JsonValues
begin

text \<open>
  The checklist builder of \<^verbatim>\<open>workflows.html\<close>: what is sent when a template is saved, how it is read back, and when a save must be
  confirmed because it would discard answers. An id or a type that is missing is the empty text. A property of a field, a section or a sub-step
  that none of these functions reads is among \<open>rest\<close>.
\<close>

record sub_step =
  ss_id :: string
  ss_type :: string
  ss_rest :: doc

record bfield =
  bf_id :: string
  bf_subs :: "sub_step list"
  bf_rest :: doc

record bsection =
  bs_fields :: "bfield list option"
  bs_rest :: doc

record party =
  pr_roles :: "string list"
  pr_users :: "string list"

record btemplate =
  bt_id :: string
  bt_name :: string
  bt_approval :: bool
  bt_assigned :: "party option"
  bt_approver :: "party option"
  bt_days :: "nat list option"
  bt_sections :: "bsection list option"

section \<open>What is sent and read\<close>

record assignment =
  as_type :: string
  as_id :: string
  as_role :: string

record api_template =
  at_id :: string
  at_name :: string
  at_approval :: bool
  at_sections :: "bsection list option"
  at_assignments :: "assignment list"
  at_schedules :: "nat list option list"

definition typed_sub :: "sub_step \<Rightarrow> sub_step" where
  "typed_sub s = (if ss_type s = [] then s\<lparr>ss_type := ''checkbox''\<rparr> else s)"

definition typed_section :: "bsection \<Rightarrow> bsection" where
  "typed_section s = s\<lparr>bs_fields := map_option (map (\<lambda>f. f\<lparr>bf_subs := map typed_sub (bf_subs f)\<rparr>)) (bs_fields s)\<rparr>"

definition party_assignments :: "string \<Rightarrow> party option \<Rightarrow> assignment list" where
  "party_assignments role pp = (case pp of None \<Rightarrow> []
     | Some q \<Rightarrow> map (\<lambda>r. \<lparr>as_type = ''role'', as_id = r, as_role = role\<rparr>) (pr_roles q)
        @ map (\<lambda>u. \<lparr>as_type = ''user'', as_id = u, as_role = role\<rparr>) (pr_users q))"

definition toApiTemplate :: "btemplate \<Rightarrow> api_template" where
  "toApiTemplate t = \<lparr>at_id = [], at_name = bt_name t, at_approval = bt_approval t, at_sections = map_option (map typed_section) (bt_sections t),
     at_assignments = party_assignments ''assignee'' (bt_assigned t) @ party_assignments ''approver'' (bt_approver t),
     at_schedules = (case bt_days t of None \<Rightarrow> [] | Some ds \<Rightarrow> if ds = [] then [] else [Some ds])\<rparr>"

definition push_new :: "string list \<Rightarrow> string \<Rightarrow> string list" where
  "push_new xs x = (if x \<in> set xs then xs else xs @ [x])"

definition push_party :: "assignment \<Rightarrow> party \<Rightarrow> party" where
  "push_party a q = (if as_type a = ''role'' then q\<lparr>pr_roles := push_new (pr_roles q) (as_id a)\<rparr> else q\<lparr>pr_users := push_new (pr_users q) (as_id a)\<rparr>)"

text \<open>The assignees and the approvers.\<close>

definition take_assignment :: "party \<times> party \<Rightarrow> assignment \<Rightarrow> party \<times> party" where
  "take_assignment b a = (if as_role a = ''approver'' then (fst b, push_party a (snd b)) else (push_party a (fst b), snd b))"

definition no_party :: party where "no_party = \<lparr>pr_roles = [], pr_users = []\<rparr>"

definition fromApiTemplate :: "api_template \<Rightarrow> btemplate" where
  "fromApiTemplate t =
     (let ss = (case at_sections t of None \<Rightarrow> [] | Some ss \<Rightarrow> ss);
          b = foldl take_assignment (no_party, no_party) (at_assignments t)
      in \<lparr>bt_id = at_id t, bt_name = at_name t, bt_approval = at_approval t, bt_assigned = Some (fst b), bt_approver = Some (snd b),
          bt_days = (case at_schedules t of [] \<Rightarrow> None | d # _ \<Rightarrow> d),
          bt_sections = Some (map (\<lambda>s. s\<lparr>bs_fields := Some (case bs_fields s of None \<Rightarrow> [] | Some fs \<Rightarrow> fs)\<rparr>) ss)\<rparr>)"

section \<open>Editing\<close>

definition toggle_day :: "nat \<Rightarrow> btemplate \<Rightarrow> btemplate" where
  "toggle_day day t = (let ds = (case bt_days t of None \<Rightarrow> [] | Some ds \<Rightarrow> ds) in
     t\<lparr>bt_days := Some (if day \<in> set ds then remove1 day ds else ds @ [day])\<rparr>)"

definition wfBuilderHasUnsavedChanges :: "btemplate option \<Rightarrow> btemplate option \<Rightarrow> bool" where
  "wfBuilderHasUnsavedChanges active original = (case active of None \<Rightarrow> False
     | Some t \<Rightarrow> (case original of None \<Rightarrow> True | Some s \<Rightarrow> t \<noteq> s))"

section \<open>A save that discards answers\<close>

definition wfCollectFieldIds :: "btemplate \<Rightarrow> string list" where
  "wfCollectFieldIds t = concat (map (\<lambda>s. concat (map (\<lambda>f. (if bf_id f = [] then [] else [bf_id f])
       @ map ss_id (filter (\<lambda>x. ss_id x \<noteq> []) (bf_subs f)))
     (case bs_fields s of None \<Rightarrow> [] | Some fs \<Rightarrow> fs))) (case bt_sections t of None \<Rightarrow> [] | Some ss \<Rightarrow> ss))"

definition is_hex :: "char \<Rightarrow> bool" where
  "is_hex c \<longleftrightarrow> c \<in> set ''0123456789abcdefABCDEF''"

definition wfIsPersistedId :: "string \<Rightarrow> bool" where
  "wfIsPersistedId s \<longleftrightarrow> length s = 36 \<and> list_all (\<lambda>(i, c). if i \<in> {8, 13, 18, 23} then c = CHR ''-'' else is_hex c) (zip [0..<36] s)"

record destructive =
  checkIds :: "string list"
  dropsToday :: bool

definition wfDestructiveSaveCheck :: "nat \<Rightarrow> btemplate option \<Rightarrow> btemplate \<Rightarrow> destructive" where
  "wfDestructiveSaveCheck dow original active = (case original of None \<Rightarrow> \<lparr>checkIds = [], dropsToday = False\<rparr>
     | Some s \<Rightarrow>
       (let origIds = filter wfIsPersistedId (wfCollectFieldIds s);
            removed = filter (\<lambda>i. i \<notin> set (wfCollectFieldIds active)) origIds;
            oDays = (case bt_days s of None \<Rightarrow> [] | Some ds \<Rightarrow> ds); nDays = (case bt_days active of None \<Rightarrow> [] | Some ds \<Rightarrow> ds);
            drops = (dow \<in> set oDays \<and> dow \<notin> set nDays)
        in \<lparr>checkIds = (if drops then origIds else removed), dropsToday = drops\<rparr>))"

text \<open>A click on save: \<open>holders\<close> is the server's count of the crew with answers on those fields, if it answers; the user is asked with
  the first text or the second.\<close>

datatype save_warning = Leaves_Devices nat | Fields_Removed nat

datatype save_end = Saved "save_warning option" | Aborted save_warning

definition save_clicked :: "nat \<Rightarrow> bool \<Rightarrow> btemplate option \<Rightarrow> btemplate \<Rightarrow> (string list \<Rightarrow> nat option) \<Rightarrow> bool \<Rightarrow> save_end" where
  "save_clicked dow isNew original active holders confirms =
     (let destr = (if isNew then \<lparr>checkIds = [], dropsToday = False\<rparr> else wfDestructiveSaveCheck dow original active) in
      if checkIds destr = [] then Saved None
      else (case holders (checkIds destr) of None \<Rightarrow> Saved None
        | Some n \<Rightarrow> if n = 0 then Saved None
          else (let w = (if dropsToday destr then Leaves_Devices n else Fields_Removed n) in if confirms then Saved (Some w) else Aborted w)))"

end
