(* ===== verification/TemplateSaveProps.thy ===== *)
theory TemplateSaveProps
  imports Complex_Main TemplateSave
begin

text \<open>
  The builder: a template read back after a save is the one saved, and no save discards answers that the server counted without
  the user's consent.
\<close>

section \<open>The round trip\<close>

text \<open>Every name once, where it first stands.\<close>

definition firsts :: "string list \<Rightarrow> string list" where
  "firsts xs = foldl push_new [] xs"

lemma firsts_set: "set (firsts xs) = set xs"
  by (induction xs rule: rev_induct) (auto simp: firsts_def push_new_def)
















section \<open>Discarding saves\<close>






end
