(* ===== verification/FillSync.thy ===== *)
theory FillSync
  imports Complex_Main FillView Bootstrap
begin

text \<open>
  The live scope of an open checklist, \<open>fillSyncOpen\<close> and \<open>fillSyncClose\<close> of \<^verbatim>\<open>workflows.html\<close> over the registry of \<^verbatim>\<open>bootstrap.js\<close>. What
  waits for a handle runs, once the handle has settled, at the end of the task, in the order it was registered. An entry is known by a number.
\<close>

record fill_entry =
  fe_number :: nat
  fe_handle :: nat
  fe_subscribed :: bool
  fe_ids :: "string list"
  fe_sig :: "fill_row list option"

text \<open>What was registered on a handle: the opener's continuation, with its entry, and the closer's.\<close>

datatype fill_wait = Opened nat string | Closed string

record fill_sync =
  fy_boot :: boot
  fy_scopes :: "string \<Rightarrow> fill_entry option"
  fy_number :: nat
  fy_waits :: "(nat \<times> fill_wait) list"
  fy_overlay :: "fill_row list"

definition fill_sync_init :: "bool \<Rightarrow> bool \<Rightarrow> fill_sync" where
  "fill_sync_init enabled client = \<lparr>fy_boot = boot_init enabled client, fy_scopes = (\<lambda>_. None), fy_number = 0, fy_waits = [], fy_overlay = []\<rparr>"

definition fill_scope_value :: "string \<Rightarrow> string \<Rightarrow> string \<Rightarrow> string list \<Rightarrow> json" where
  "fill_scope_value u c t ids = JObj [(''userId'', JStr u), (''checklistId'', JStr c), (''templateId'', JStr t), (''fieldIds'', JArr (map JStr ids))]"

text \<open>The handle, or none.\<close>

definition fillSyncOpen :: "(string \<Rightarrow> ms option) \<Rightarrow> string option \<Rightarrow> string \<Rightarrow> string \<Rightarrow> string list \<Rightarrow> fill_sync \<Rightarrow> fill_sync \<times> nat option" where
  "fillSyncOpen parse user c t ids s =
     (if \<not> b_readEnabled (fy_boot s) \<or> \<not> b_client (fy_boot s) then (s, None)
      else if c = [] \<or> t = [] then (s, None)
      else case user of None \<Rightarrow> (s, None)
      | Some u \<Rightarrow> if u = [] then (s, None)
        else (case fy_scopes s c of Some e \<Rightarrow> (s, Some (fe_handle e))
        | None \<Rightarrow> (case openSyncScope parse (fill_scope_value u c t ids) (fy_boot s) of
            (b, Inl x) \<Rightarrow> (s, None)
          | (b, Inr h) \<Rightarrow>
              (s\<lparr>fy_boot := b, fy_number := Suc (fy_number s), fy_waits := fy_waits s @ [(h, Opened (fy_number s) c)],
                 fy_scopes := (fy_scopes s)(c \<mapsto> \<lparr>fe_number = fy_number s, fe_handle = h, fe_subscribed = False, fe_ids = ids, fe_sig = None\<rparr>)\<rparr>, Some h))))"

definition fillSyncClose :: "string \<Rightarrow> fill_sync \<Rightarrow> fill_sync" where
  "fillSyncClose c s = (case fy_scopes s c of None \<Rightarrow> s
     | Some e \<Rightarrow> s\<lparr>fy_scopes := (fy_scopes s)(c := None), fy_overlay := filter (\<lambda>r. w_field r \<notin> set (fe_ids e)) (fy_overlay s),
                  fy_waits := fy_waits s @ [(fe_handle e, Closed c)]\<rparr>)"

definition handle_of :: "fill_sync \<Rightarrow> nat \<Rightarrow> handle_state" where
  "handle_of s h = h_state (b_handles (fy_boot s) ! h)"

text \<open>One continuation of a settled handle; a rejected one runs the opener's \<open>catch\<close> and the closer's empty one.\<close>

definition run_wait :: "fill_sync \<Rightarrow> nat \<times> fill_wait \<Rightarrow> fill_sync" where
  "run_wait s x = (case x of
     (h, Opened i c) \<Rightarrow> (case fy_scopes s c of None \<Rightarrow> s
       | Some e \<Rightarrow> if fe_number e \<noteq> i then s
         else if handle_of s h = Failed then s\<lparr>fy_scopes := (fy_scopes s)(c := None)\<rparr>
         else s\<lparr>fy_scopes := (fy_scopes s)(c \<mapsto> e\<lparr>fe_subscribed := True\<rparr>)\<rparr>)
   | (h, Closed c) \<Rightarrow>
       if handle_of s h = Failed then s
       else (case fy_scopes s c of
           Some e \<Rightarrow> if fe_handle e = h then s else s\<lparr>fy_boot := cancel h (fy_boot s)\<rparr>
         | None \<Rightarrow> s\<lparr>fy_boot := cancel h (fy_boot s)\<rparr>))"

definition waits_on :: "fill_sync \<Rightarrow> nat \<Rightarrow> bool" where
  "waits_on s h \<longleftrightarrow> (case handle_of s h of Waiting i \<Rightarrow> True | _ \<Rightarrow> False)"

definition run_microtasks :: "fill_sync \<Rightarrow> fill_sync" where
  "run_microtasks s = foldl run_wait (s\<lparr>fy_waits := filter (\<lambda>(h, w). waits_on s h) (fy_waits s)\<rparr>) (filter (\<lambda>(h, w). \<not> waits_on s h) (fy_waits s))"

text \<open>The query sees the rows of the scope's fields.\<close>

definition rows_emitted :: "string \<Rightarrow> nat \<Rightarrow> fill_doc list \<Rightarrow> string option \<Rightarrow> fill_sync \<Rightarrow> fill_sync" where
  "rows_emitted c i docs me s = (case fy_scopes s c of None \<Rightarrow> s
     | Some e \<Rightarrow> if fe_number e = i \<and> fe_subscribed e
         then (case applyRxdbFillDocs c (fe_ids e) (filter (\<lambda>d. w_field (d_row d) \<in> set (fe_ids e)) docs) me (Some (fe_sig e)) (fy_overlay s) of
             (Some sig, rs) \<Rightarrow> s\<lparr>fy_scopes := (fy_scopes s)(c \<mapsto> e\<lparr>fe_sig := sig\<rparr>), fy_overlay := rs\<rparr>
           | (None, rs) \<Rightarrow> s)
         else s)"

text \<open>A task opens and closes; then what waits runs. So it does when a handle settles.\<close>

datatype fill_op = F_Open "string option" string string "string list" | F_Close string

datatype fill_event = Task "fill_op list" | Database_Settles nat bool | Handle_Resumes nat bool | Emits string nat "fill_doc list" "string option"

fun fill_op_step :: "(string \<Rightarrow> ms option) \<Rightarrow> fill_sync \<Rightarrow> fill_op \<Rightarrow> fill_sync" where
  "fill_op_step parse s (F_Open user c t ids) = fst (fillSyncOpen parse user c t ids s)"
| "fill_op_step parse s (F_Close c) = fillSyncClose c s"

fun fill_sync_step :: "(string \<Rightarrow> ms option) \<Rightarrow> fill_sync \<Rightarrow> fill_event \<Rightarrow> fill_sync" where
  "fill_sync_step parse s (Task todo) = run_microtasks (foldl (fill_op_step parse) s todo)"
| "fill_sync_step parse s (Database_Settles i ok) = s\<lparr>fy_boot := db_settles i ok (fy_boot s)\<rparr>"
| "fill_sync_step parse s (Handle_Resumes h ok) = run_microtasks (s\<lparr>fy_boot := handle_resumes h ok (fy_boot s)\<rparr>)"
| "fill_sync_step parse s (Emits c i docs me) = rows_emitted c i docs me s"

definition fill_sync_run :: "(string \<Rightarrow> ms option) \<Rightarrow> fill_sync \<Rightarrow> fill_event list \<Rightarrow> fill_sync" where
  "fill_sync_run parse s es = foldl (fill_sync_step parse) s es"

definition openIds :: "fill_sync \<Rightarrow> string set" where
  "openIds s = {c. fy_scopes s c \<noteq> None}"

end
