(* ===== verification/FillSyncProps.thy ===== *)
theory FillSyncProps
  imports Complex_Main FillSync FillViewProps BootstrapProps
begin

text \<open>
  The page's registry of open checklists and the registry of replications agree after every event: what the page calls open is
  replicated under its own key, and a replication without a checklist is about to be cancelled. The overlay holds only rows of
  open checklists.
\<close>

section \<open>Keys and checklists\<close>

definition key_for :: "(string \<Rightarrow> ms option) \<Rightarrow> string \<Rightarrow> string \<Rightarrow> bool" where
  "key_for parse c k \<longleftrightarrow> (\<exists>v u t fs. normalizeScope parse v = Inr (Fill_Scope u c t fs) \<and> scopeKey parse v = Inr k)"

lemma key_checklist: "key_for parse c k \<Longrightarrow> key_for parse d k \<Longrightarrow> c = d"
proof -
  assume "key_for parse c k" "key_for parse d k"
  then obtain v u t fs w u' t' gs where v: "normalizeScope parse v = Inr (Fill_Scope u c t fs)" and w: "normalizeScope parse w = Inr (Fill_Scope u' d t' gs)"
    and k: "scopeKey parse v = Inr k" "scopeKey parse w = Inr k" unfolding key_for_def by blast
  have "same_scope (Fill_Scope u c t fs) (Fill_Scope u' d t' gs)" using scope_key_exact [OF v w] k by simp
  then show "c = d" by (simp add: same_scope_def)
qed

lemma fill_value_checklist:
  assumes "scopeKey parse (fill_scope_value u c t ids) = Inr k"
  shows "key_for parse c k"
proof -
  obtain a where a: "normalizeScope parse (fill_scope_value u c t ids) = Inr a" using assms by (auto simp: scopeKey_def bind_err_Inr)
  then have "\<exists>u' t' fs. a = Fill_Scope u' c t' fs"
    by (auto simp: normalizeScope_def bind_err_Inr assertScopeId_Inr fill_scope_value_def scope_fieldsof_def field_def split: if_splits)
  then show ?thesis using a assms unfolding key_for_def by blast
qed

section \<open>The invariant\<close>

definition wait_checklist :: "fill_wait \<Rightarrow> string" where
  "wait_checklist w = (case w of Opened i c \<Rightarrow> c | Closed c \<Rightarrow> c)"

abbreviation handles :: "fill_sync \<Rightarrow> handle list" where "handles s \<equiv> b_handles (fy_boot s)"

text \<open>With the continuations \<open>B\<close> of settled handles still to run: an entry's handle is open, or its opener's \<open>catch\<close> is to come; a handle that
  waits has its opener registered; a registered replication has its entry or a closer.\<close>

definition entry_good :: "(string \<Rightarrow> ms option) \<Rightarrow> fill_sync \<Rightarrow> (nat \<times> fill_wait) list \<Rightarrow> string \<Rightarrow> fill_entry \<Rightarrow> bool" where
  "entry_good parse s B c e \<longleftrightarrow> fe_handle e < length (handles s) \<and> key_for parse c (h_key (handles s ! fe_handle e))
     \<and> (open_handle (fy_boot s) (fe_handle e) \<or> handle_of s (fe_handle e) = Failed \<and> (fe_handle e, Opened (fe_number e) c) \<in> set (fy_waits s @ B))
     \<and> (waits_on s (fe_handle e) \<longrightarrow> (fe_handle e, Opened (fe_number e) c) \<in> set (fy_waits s))"

definition wait_good :: "fill_sync \<Rightarrow> nat \<Rightarrow> fill_wait \<Rightarrow> bool" where
  "wait_good s h w \<longleftrightarrow> (case w of Opened i c \<Rightarrow> i < fy_number s \<and> (\<forall>e. fy_scopes s c = Some e \<longrightarrow> fe_number e = i \<longrightarrow> fe_handle e = h) | Closed c \<Rightarrow> True)"

lemma wait_good_mono:
  assumes "wait_good s h w" and "fy_number s \<le> fy_number t"
    and "\<And>c x. fy_scopes t c = Some x \<Longrightarrow> fe_number x < fy_number s \<Longrightarrow> \<exists>e. fy_scopes s c = Some e \<and> fe_number e = fe_number x \<and> fe_handle e = fe_handle x"
  shows "wait_good t h w"
proof (cases w)
  case (Opened i c)
  have i: "i < fy_number s" and e: "\<And>e. fy_scopes s c = Some e \<Longrightarrow> fe_number e = i \<Longrightarrow> fe_handle e = h" using assms(1) by (simp_all add: wait_good_def Opened)
  have "fe_handle x = h" if "fy_scopes t c = Some x" "fe_number x = i" for x using assms(3) [OF that(1)] e that(2) i by fastforce
  then show ?thesis using i assms(2) by (simp add: wait_good_def Opened)
qed (simp add: wait_good_def)

definition agrees :: "(string \<Rightarrow> ms option) \<Rightarrow> fill_sync \<Rightarrow> (nat \<times> fill_wait) list \<Rightarrow> bool" where
  "agrees parse s B \<longleftrightarrow> registered (fy_boot s)
     \<and> (\<forall>c e. fy_scopes s c = Some e \<longrightarrow> entry_good parse s B c e)
     \<and> (\<forall>(h, w) \<in> set (fy_waits s @ B). h < length (handles s) \<and> key_for parse (wait_checklist w) (h_key (handles s ! h)) \<and> wait_good s h w)
     \<and> (\<forall>(h, w) \<in> set (fy_waits s). handle_of s h \<noteq> Cancelled \<and> (B \<noteq> [] \<longrightarrow> waits_on s h))
     \<and> (\<forall>(h, w) \<in> set B. \<not> waits_on s h \<and> (handle_of s h = Cancelled \<longrightarrow> b_scopes (fy_boot s) (h_key (handles s ! h)) = None))
     \<and> (\<forall>k h. b_scopes (fy_boot s) k = Some h \<longrightarrow> (\<exists>c e. fy_scopes s c = Some e \<and> fe_handle e = h) \<or> (\<exists>c. (h, Closed c) \<in> set (fy_waits s @ B)))"

lemma agreesI:
  assumes "registered (fy_boot s)"
    and "\<And>c e. fy_scopes s c = Some e \<Longrightarrow> entry_good parse s B c e"
    and "\<And>h w. (h, w) \<in> set (fy_waits s @ B) \<Longrightarrow> h < length (handles s) \<and> key_for parse (wait_checklist w) (h_key (handles s ! h)) \<and> wait_good s h w"
    and "\<And>h w. (h, w) \<in> set (fy_waits s) \<Longrightarrow> handle_of s h \<noteq> Cancelled \<and> (B \<noteq> [] \<longrightarrow> waits_on s h)"
    and "\<And>h w. (h, w) \<in> set B \<Longrightarrow> \<not> waits_on s h \<and> (handle_of s h = Cancelled \<longrightarrow> b_scopes (fy_boot s) (h_key (handles s ! h)) = None)"
    and "\<And>k h. b_scopes (fy_boot s) k = Some h \<Longrightarrow> (\<exists>c e. fy_scopes s c = Some e \<and> fe_handle e = h) \<or> (\<exists>c. (h, Closed c) \<in> set (fy_waits s @ B))"
  shows "agrees parse s B"
  unfolding agrees_def using assms by blast

lemma agreesD:
  assumes "agrees parse s B"
  shows "registered (fy_boot s)"
    and "\<And>c e. fy_scopes s c = Some e \<Longrightarrow> entry_good parse s B c e"
    and "\<And>h w. (h, w) \<in> set (fy_waits s @ B) \<Longrightarrow> h < length (handles s) \<and> key_for parse (wait_checklist w) (h_key (handles s ! h)) \<and> wait_good s h w"
    and "\<And>h w. (h, w) \<in> set (fy_waits s) \<Longrightarrow> handle_of s h \<noteq> Cancelled \<and> (B \<noteq> [] \<longrightarrow> waits_on s h)"
    and "\<And>h w. (h, w) \<in> set B \<Longrightarrow> \<not> waits_on s h \<and> (handle_of s h = Cancelled \<longrightarrow> b_scopes (fy_boot s) (h_key (handles s ! h)) = None)"
    and "\<And>k h. b_scopes (fy_boot s) k = Some h \<Longrightarrow> (\<exists>c e. fy_scopes s c = Some e \<and> fe_handle e = h) \<or> (\<exists>c. (h, Closed c) \<in> set (fy_waits s @ B))"
  using assms unfolding agrees_def by blast+

lemma open_state: "open_handle (fy_boot s) h \<longleftrightarrow> h < length (handles s) \<and> (waits_on s h \<or> handle_of s h = Live)"
  by (auto simp: open_handle_def waits_on_def handle_of_def split: handle_state.split)

section \<open>The continuations\<close>

text \<open>A cancel: the handle is live and registered, or was cancelled and its key is free.\<close>

lemma cancel_live:
  assumes "registered b" and "h < length (b_handles b)" and "h_state (b_handles b ! h) = Live"
  shows "registered (cancel h b)" and "b_handles (cancel h b) = (b_handles b)[h := (b_handles b ! h)\<lparr>h_state := Cancelled\<rparr>]"
    and "b_scopes (cancel h b) = (b_scopes b)(h_key (b_handles b ! h) := None)"
  using assms cancel_registered [of b h] by (simp_all add: cancel_def cancelled_def)

lemma cancel_again:
  assumes "h < length (b_handles b)" and "h_state (b_handles b ! h) = Cancelled" and "b_scopes b (h_key (b_handles b ! h)) = None"
  shows "cancel h b = b"
proof -
  have "(b_scopes b)(h_key (b_handles b ! h) := None) = b_scopes b" using assms(3) by auto
  moreover have "(b_handles b ! h)\<lparr>h_state := Cancelled\<rparr> = b_handles b ! h" using assms(2) by (cases "b_handles b ! h") simp
  ultimately show ?thesis using assms(1,2) unfolding cancel_def by (simp only: list_update_id) simp
qed

lemma closer_free:
  assumes a: "agrees parse s ((h, Closed c) # B)" and none: "\<forall>e. fy_scopes s c = Some e \<longrightarrow> fe_handle e \<noteq> h" and e: "fy_scopes s d = Some e"
  shows "fe_handle e \<noteq> h"
proof
  have key: "key_for parse c (h_key (handles s ! h))" using agreesD(3) [OF a, of h "Closed c"] by (simp add: wait_checklist_def)
  assume eh: "fe_handle e = h"
  then have "key_for parse d (h_key (handles s ! h))" using agreesD(2) [OF a e] by (simp add: entry_good_def)
  then show False using key_checklist [OF key] none e eh by blast
qed

lemma closer_runs:
  assumes a: "agrees parse s ((h, Closed c) # B)" and none: "\<forall>e. fy_scopes s c = Some e \<longrightarrow> fe_handle e \<noteq> h" and "handle_of s h \<noteq> Failed"
  shows "agrees parse (s\<lparr>fy_boot := cancel h (fy_boot s)\<rparr>) B"
proof -
  let ?t = "s\<lparr>fy_boot := cancel h (fy_boot s)\<rparr>"
  have h: "h < length (handles s)" using agreesD(3) [OF a, of h "Closed c"] by simp
  have st: "\<not> waits_on s h" "handle_of s h = Cancelled \<Longrightarrow> b_scopes (fy_boot s) (h_key (handles s ! h)) = None" using agreesD(5) [OF a, of h "Closed c"] by simp_all
  note free = closer_free [OF a none]
  have live: "handle_of s h = Live \<or> handle_of s h = Cancelled" using st(1) assms(3) by (cases "handle_of s h") (auto simp: waits_on_def)
  show ?thesis
  proof (cases "handle_of s h = Cancelled")
    case True
    have same: "?t = s" using cancel_again [OF h] True st(2) by (simp add: handle_of_def)
    have no: "b_scopes (fy_boot s) k \<noteq> Some h" for k
      using agreesD(1) [OF a] True unfolding registered_def open_state by (auto simp: waits_on_def)
    show ?thesis unfolding same
    proof (rule agreesI)
      fix d e assume e: "fy_scopes s d = Some e"
      show "entry_good parse s B d e" using agreesD(2) [OF a e] by (auto simp: entry_good_def)
    next
      fix k g assume "b_scopes (fy_boot s) k = Some g"
      then show "(\<exists>c e. fy_scopes s c = Some e \<and> fe_handle e = g) \<or> (\<exists>c. (g, Closed c) \<in> set (fy_waits s @ B))"
        using agreesD(6) [OF a] no by fastforce
    next
      fix g w assume "(g, w) \<in> set B"
      then show "\<not> waits_on s g \<and> (handle_of s g = Cancelled \<longrightarrow> b_scopes (fy_boot s) (h_key (handles s ! g)) = None)"
        using agreesD(5) [OF a, of g w] by simp
    qed (use agreesD(1,3,4) [OF a] in auto)
  next
    case False
    then have l: "h_state (handles s ! h) = Live" using live by (simp add: handle_of_def)
    note ca = cancel_live [OF agreesD(1) [OF a] h l]
    have ho: "handle_of ?t g = (if g = h then Cancelled else handle_of s g)" if "g < length (handles s)" for g
      using that h by (simp add: handle_of_def ca(2) nth_list_update)
    have hk: "h_key (handles ?t ! g) = h_key (handles s ! g)" for g using h by (cases "g = h") (simp_all add: ca(2) nth_list_update)
    have len: "length (handles ?t) = length (handles s)" by (simp add: ca(2))
    have wo: "waits_on ?t g = waits_on s g" if "g < length (handles s)" for g using ho [OF that] st(1) by (auto simp: waits_on_def)
    have op: "open_handle (cancel h (fy_boot s)) g = (open_handle (fy_boot s) g \<and> g \<noteq> h)" if "g < length (handles s)" for g
      using open_state [of ?t g] open_state [of s g] wo [OF that] ho [OF that] len that st(1) by (auto split: if_splits)
    show ?thesis
    proof (rule agreesI)
      show "registered (fy_boot ?t)" using ca(1) by simp
    next
      fix d e assume "fy_scopes ?t d = Some e"
      then have e: "fy_scopes s d = Some e" by simp
      have n: "fe_handle e < length (handles s)" using agreesD(2) [OF a e] by (simp add: entry_good_def)
      show "entry_good parse ?t B d e"
        using agreesD(2) [OF a e] free [OF e] unfolding entry_good_def hk len by (auto simp: wo [OF n] op [OF n] ho [OF n])
    next
      fix g w assume "(g, w) \<in> set (fy_waits ?t @ B)"
      then have g: "(g, w) \<in> set (fy_waits s @ (h, Closed c) # B)" by auto
      show "g < length (handles ?t) \<and> key_for parse (wait_checklist w) (h_key (handles ?t ! g)) \<and> wait_good ?t g w"
        using agreesD(3) [OF a g] wait_good_mono [of s g w ?t] unfolding hk len by simp
    next
      fix g w assume "(g, w) \<in> set (fy_waits ?t)"
      then have g: "(g, w) \<in> set (fy_waits s)" by simp
      then have n: "g < length (handles s)" using agreesD(3) [OF a, of g w] by simp
      show "handle_of ?t g \<noteq> Cancelled \<and> (B \<noteq> [] \<longrightarrow> waits_on ?t g)" using agreesD(4) [OF a g] st(1) unfolding wo [OF n] ho [OF n] by auto
    next
      fix g w assume g: "(g, w) \<in> set B"
      then have n: "g < length (handles s)" using agreesD(3) [OF a, of g w] by simp
      show "\<not> waits_on ?t g \<and> (handle_of ?t g = Cancelled \<longrightarrow> b_scopes (fy_boot ?t) (h_key (handles ?t ! g)) = None)"
        using agreesD(5) [OF a, of g w] g unfolding hk wo [OF n] ho [OF n] by (auto simp: ca(3))
    next
      fix k g assume "b_scopes (fy_boot ?t) k = Some g"
      then have m: "((b_scopes (fy_boot s))(h_key (handles s ! h) := None)) k = Some g" using ca(3) by simp
      then have k: "b_scopes (fy_boot s) k = Some g" "k \<noteq> h_key (handles s ! h)" by (simp_all split: if_splits)
      have "g \<noteq> h"
      proof
        assume "g = h"
        then have "h_key (handles s ! h) = k" using k(1) agreesD(1) [OF a] unfolding registered_def by blast
        then show False using k(2) by simp
      qed
      then show "(\<exists>c e. fy_scopes ?t c = Some e \<and> fe_handle e = g) \<or> (\<exists>c. (g, Closed c) \<in> set (fy_waits ?t @ B))"
        using agreesD(6) [OF a k(1)] by auto
    qed
  qed
qed


text \<open>A continuation that does nothing.\<close>

lemma drop_wait:
  assumes a: "agrees parse s ((h, w) # B)"
    and o: "\<And>d e. fy_scopes s d = Some e \<Longrightarrow> w = Opened (fe_number e) d \<Longrightarrow> fe_handle e = h \<Longrightarrow> handle_of s h \<noteq> Failed"
    and c: "\<And>c. w = Closed c \<Longrightarrow> (\<exists>d e. fy_scopes s d = Some e \<and> fe_handle e = h) \<or> handle_of s h = Failed"
  shows "agrees parse s B"
proof (rule agreesI)
  fix d e assume e: "fy_scopes s d = Some e"
  show "entry_good parse s B d e" using agreesD(2) [OF a e] o [OF e] by (auto simp: entry_good_def)
next
  fix g v assume "(g, v) \<in> set B"
  then show "\<not> waits_on s g \<and> (handle_of s g = Cancelled \<longrightarrow> b_scopes (fy_boot s) (h_key (handles s ! g)) = None)"
    using agreesD(5) [OF a, of g v] by simp
next
  fix k g assume k: "b_scopes (fy_boot s) k = Some g"
  then have "handle_of s g \<noteq> Failed" using agreesD(1) [OF a] unfolding registered_def open_state by (auto simp: waits_on_def)
  then show "(\<exists>c e. fy_scopes s c = Some e \<and> fe_handle e = g) \<or> (\<exists>c. (g, Closed c) \<in> set (fy_waits s @ B))"
    using agreesD(6) [OF a k] c by auto
next
  fix g v assume "(g, v) \<in> set (fy_waits s @ B)"
  then show "g < length (handles s) \<and> key_for parse (wait_checklist v) (h_key (handles s ! g)) \<and> wait_good s g v"
    using agreesD(3) [OF a, of g v] by auto
next
  fix g v assume "(g, v) \<in> set (fy_waits s)"
  then show "handle_of s g \<noteq> Cancelled \<and> (B \<noteq> [] \<longrightarrow> waits_on s g)" using agreesD(4) [OF a] by blast
qed (rule agreesD(1) [OF a])

text \<open>Entries that keep their handle and number, or are evicted because their handle failed.\<close>

lemma agrees_scopes:
  assumes a: "agrees parse s B"
    and keep: "\<And>d x. m d = Some x \<Longrightarrow> \<exists>e. fy_scopes s d = Some e \<and> fe_number e = fe_number x \<and> fe_handle e = fe_handle x"
    and lose: "\<And>d e. fy_scopes s d = Some e \<Longrightarrow> (\<exists>x. m d = Some x \<and> fe_handle x = fe_handle e) \<or> handle_of s (fe_handle e) = Failed"
  shows "agrees parse (s\<lparr>fy_scopes := m, fy_overlay := ov\<rparr>) B"
proof -
  let ?t = "s\<lparr>fy_scopes := m, fy_overlay := ov\<rparr>"
  have f: "fy_boot ?t = fy_boot s" "fy_waits ?t = fy_waits s" "handle_of ?t = handle_of s" "waits_on ?t = waits_on s" "fy_number ?t = fy_number s" "fy_scopes ?t = m"
    by (simp_all add: fun_eq_iff handle_of_def waits_on_def)
  show ?thesis
  proof (rule agreesI; (unfold f)?)
    fix d x assume "m d = Some x"
    then obtain e where e: "fy_scopes s d = Some e" "fe_number e = fe_number x" "fe_handle e = fe_handle x" using keep by blast
    show "entry_good parse ?t B d x" using agreesD(2) [OF a e(1)] unfolding entry_good_def f e(2,3) .
  next
    fix h w assume w: "(h, w) \<in> set (fy_waits s @ B)"
    have "wait_good ?t h w" by (rule wait_good_mono [of s]) (use agreesD(3) [OF a w] keep in auto)
    then show "h < length (handles s) \<and> key_for parse (wait_checklist w) (h_key (handles s ! h)) \<and> wait_good ?t h w" using agreesD(3) [OF a w] by blast
  next
    fix k g assume k: "b_scopes (fy_boot s) k = Some g"
    then have "handle_of s g \<noteq> Failed" using agreesD(1) [OF a] unfolding registered_def open_state by (auto simp: waits_on_def)
    then show "(\<exists>c e. m c = Some e \<and> fe_handle e = g) \<or> (\<exists>c. (g, Closed c) \<in> set (fy_waits s @ B))"
      using agreesD(6) [OF a k] lose by blast
  next
    fix h w assume "(h, w) \<in> set (fy_waits s)"
    then show "handle_of s h \<noteq> Cancelled \<and> (B \<noteq> [] \<longrightarrow> waits_on s h)" using agreesD(4) [OF a] by blast
  next
    fix h w assume "(h, w) \<in> set B"
    then show "\<not> waits_on s h \<and> (handle_of s h = Cancelled \<longrightarrow> b_scopes (fy_boot s) (h_key (handles s ! h)) = None)" using agreesD(5) [OF a] by blast
  qed (rule agreesD(1) [OF a])
qed

lemma agrees_entries:
  assumes "agrees parse s B"
    and "\<And>d x. m d = Some x \<Longrightarrow> \<exists>e. fy_scopes s d = Some e \<and> fe_number e = fe_number x \<and> fe_handle e = fe_handle x"
    and "\<And>d e. fy_scopes s d = Some e \<Longrightarrow> (\<exists>x. m d = Some x \<and> fe_handle x = fe_handle e) \<or> handle_of s (fe_handle e) = Failed"
  shows "agrees parse (s\<lparr>fy_scopes := m\<rparr>) B"
proof -
  have "s\<lparr>fy_scopes := m, fy_overlay := fy_overlay s\<rparr> = s\<lparr>fy_scopes := m\<rparr>" by (cases s) simp
  moreover have "agrees parse (s\<lparr>fy_scopes := m, fy_overlay := fy_overlay s\<rparr>) B" by (rule agrees_scopes [OF assms])
  ultimately show ?thesis by (simp only:)
qed

lemma wait_runs: "agrees parse s (x # B) \<Longrightarrow> agrees parse (run_wait s x) B"
proof (cases x)
  case (Pair h w)
  assume a0: "agrees parse s (x # B)"
  then have a: "agrees parse s ((h, w) # B)" by (simp add: Pair)
  show ?thesis
  proof (cases w)
    case (Opened i c)
    have g: "wait_good s h (Opened i c)" using agreesD(3) [OF a, of h w] by (simp add: Opened)
    show ?thesis
    proof (cases "\<exists>e. fy_scopes s c = Some e \<and> fe_number e = i")
      case False
      then have "run_wait s x = s" by (auto simp: run_wait_def Pair Opened split: option.split)
      moreover have "agrees parse s B" by (rule drop_wait [OF a]) (use False in \<open>auto simp: Opened\<close>)
      ultimately show ?thesis by simp
    next
      case True
      then obtain e where e: "fy_scopes s c = Some e" "fe_number e = i" by blast
      then have eh: "fe_handle e = h" using g by (simp add: wait_good_def)
      show ?thesis
      proof (cases "handle_of s h = Failed")
        case True
        have r: "run_wait s x = s\<lparr>fy_scopes := (fy_scopes s)(c := None)\<rparr>" using e True by (simp add: run_wait_def Pair Opened)
        have "agrees parse (s\<lparr>fy_scopes := (fy_scopes s)(c := None)\<rparr>) ((h, w) # B)"
          by (rule agrees_entries [OF a]) (use e eh True in \<open>auto split: if_splits\<close>)
        then show ?thesis unfolding r by (rule drop_wait) (auto simp: Opened handle_of_def split: if_splits)
      next
        case False
        have r: "run_wait s x = s\<lparr>fy_scopes := (fy_scopes s)(c \<mapsto> e\<lparr>fe_subscribed := True\<rparr>)\<rparr>" using e False by (simp add: run_wait_def Pair Opened)
        have "agrees parse (s\<lparr>fy_scopes := (fy_scopes s)(c \<mapsto> e\<lparr>fe_subscribed := True\<rparr>)\<rparr>) ((h, w) # B)"
          by (rule agrees_entries [OF a]) (use e in \<open>auto split: if_splits\<close>)
        then show ?thesis unfolding r by (rule drop_wait) (use False in \<open>auto simp: Opened handle_of_def\<close>)
      qed
    qed
  next
    case (Closed c)
    show ?thesis
    proof (cases "handle_of s h = Failed \<or> (\<exists>e. fy_scopes s c = Some e \<and> fe_handle e = h)")
      case True
      then have "run_wait s x = s" by (auto simp: run_wait_def Pair Closed)
      moreover have "agrees parse s B" by (rule drop_wait [OF a]) (use True in \<open>auto simp: Closed\<close>)
      ultimately show ?thesis by simp
    next
      case False
      then have "run_wait s x = s\<lparr>fy_boot := cancel h (fy_boot s)\<rparr>" by (auto simp: run_wait_def Pair Closed split: option.split)
      then show ?thesis using closer_runs [of parse s h c B] a False by (simp add: Closed)
    qed
  qed
qed

lemma batch_runs: "agrees parse s B \<Longrightarrow> agrees parse (foldl run_wait s B) []"
  by (induction B arbitrary: s) (simp_all add: wait_runs)

text \<open>What is left waits for its handle.\<close>

definition all_waiting :: "fill_sync \<Rightarrow> bool" where
  "all_waiting s \<longleftrightarrow> (\<forall>(h, w) \<in> set (fy_waits s). waits_on s h)"

lemma run_wait_waits: "fy_waits (run_wait s x) = fy_waits s \<and> (waits_on s h \<longrightarrow> waits_on (run_wait s x) h)"
proof -
  have "waits_on s h \<Longrightarrow> waits_on (s\<lparr>fy_boot := cancel g (fy_boot s)\<rparr>) h" for g
    by (auto simp: waits_on_def handle_of_def cancel_def nth_list_update split: handle_state.splits)
  moreover have "waits_on (s\<lparr>fy_scopes := m\<rparr>) h = waits_on s h" for m by (simp add: waits_on_def handle_of_def)
  ultimately show ?thesis by (auto simp: run_wait_def split: prod.split fill_wait.split option.split)
qed

lemma batch_waits: "fy_waits (foldl run_wait s B) = fy_waits s \<and> (waits_on s h \<longrightarrow> waits_on (foldl run_wait s B) h)"
proof (induction B arbitrary: s)
  case (Cons x B)
  show ?case using Cons [of "run_wait s x"] run_wait_waits [of s x h] by simp
qed simp

lemma microtasks_start:
  assumes a: "agrees parse s []"
  shows "agrees parse (s\<lparr>fy_waits := filter (\<lambda>(h, w). waits_on s h) (fy_waits s)\<rparr>) (filter (\<lambda>(h, w). \<not> waits_on s h) (fy_waits s))"
proof -
  define W where "W = filter (\<lambda>(h, w). waits_on s h) (fy_waits s)"
  define B where "B = filter (\<lambda>(h, w). \<not> waits_on s h) (fy_waits s)"
  let ?t = "s\<lparr>fy_waits := W\<rparr>"
  have f: "fy_boot ?t = fy_boot s" "fy_scopes ?t = fy_scopes s" "fy_waits ?t = W" "handle_of ?t = handle_of s" "waits_on ?t = waits_on s"
    by (simp_all add: fun_eq_iff handle_of_def waits_on_def)
  have all: "set (W @ B) = set (fy_waits s)" by (auto simp: W_def B_def)
  have "agrees parse ?t B"
  proof (rule agreesI; (unfold f all)?)
    fix c e assume e: "fy_scopes s c = Some e"
    show "entry_good parse ?t B c e" using agreesD(2) [OF a e] unfolding entry_good_def f all by (auto simp: W_def)
  next
    fix h w assume w: "(h, w) \<in> set (fy_waits s)"
    then have "wait_good ?t h w" using agreesD(3) [OF a, of h w] by (intro wait_good_mono [of s h w ?t]) auto
    then show "h < length (handles s) \<and> key_for parse (wait_checklist w) (h_key (handles s ! h)) \<and> wait_good ?t h w" using agreesD(3) [OF a, of h w] w by simp
  next
    fix h w assume "(h, w) \<in> set W"
    then show "handle_of s h \<noteq> Cancelled \<and> (B \<noteq> [] \<longrightarrow> waits_on s h)" by (auto simp: W_def waits_on_def split: handle_state.splits)
  next
    fix h w assume w: "(h, w) \<in> set B"
    then have "(h, w) \<in> set (fy_waits s)" by (simp add: B_def)
    from agreesD(4) [OF a this] w show "\<not> waits_on s h \<and> (handle_of s h = Cancelled \<longrightarrow> b_scopes (fy_boot s) (h_key (handles s ! h)) = None)"
      by (simp add: B_def)
  next
    fix k h assume "b_scopes (fy_boot s) k = Some h"
    from agreesD(6) [OF a this] show "(\<exists>c e. fy_scopes s c = Some e \<and> fe_handle e = h) \<or> (\<exists>c. (h, Closed c) \<in> set (fy_waits s))" by simp
  qed (rule agreesD(1) [OF a])
  then show ?thesis by (simp only: W_def B_def)
qed

lemma microtasks_agree:
  assumes a: "agrees parse s []"
  shows "agrees parse (run_microtasks s) [] \<and> all_waiting (run_microtasks s)"
proof -
  define W where "W = filter (\<lambda>(h, w). waits_on s h) (fy_waits s)"
  define B where "B = filter (\<lambda>(h, w). \<not> waits_on s h) (fy_waits s)"
  let ?t = "s\<lparr>fy_waits := W\<rparr>"
  have "agrees parse ?t B" unfolding W_def B_def by (rule microtasks_start [OF a])
  then have "agrees parse (foldl run_wait ?t B) []" by (rule batch_runs)
  moreover have "all_waiting (foldl run_wait ?t B)"
    unfolding all_waiting_def
  proof (clarify)
    fix h w assume "(h, w) \<in> set (fy_waits (foldl run_wait ?t B))"
    then have "(h, w) \<in> set W" using batch_waits [of ?t B h] by simp
    then have "waits_on s h" by (simp add: W_def)
    then have "waits_on ?t h" by (simp add: waits_on_def handle_of_def)
    then show "waits_on (foldl run_wait ?t B) h" using batch_waits [of ?t B h] by blast
  qed
  ultimately show ?thesis by (simp add: run_microtasks_def W_def B_def)
qed


section \<open>The events\<close>

lemma close_agrees: "agrees parse s [] \<Longrightarrow> agrees parse (fillSyncClose c s) []"
proof (cases "fy_scopes s c")
  case (Some e)
  assume a: "agrees parse s []"
  let ?t = "s\<lparr>fy_scopes := (fy_scopes s)(c := None), fy_overlay := filter (\<lambda>r. w_field r \<notin> set (fe_ids e)) (fy_overlay s), fy_waits := fy_waits s @ [(fe_handle e, Closed c)]\<rparr>"
  have f: "fy_boot ?t = fy_boot s" "fy_waits ?t = fy_waits s @ [(fe_handle e, Closed c)]" "handle_of ?t = handle_of s" "waits_on ?t = waits_on s"
    "fy_number ?t = fy_number s"
    by (simp_all add: fun_eq_iff handle_of_def waits_on_def)
  have good: "entry_good parse s [] c e" by (rule agreesD(2) [OF a Some])
  have live: "handle_of s (fe_handle e) \<noteq> Cancelled" using good by (auto simp: entry_good_def open_state waits_on_def)
  have "agrees parse ?t []"
  proof (rule agreesI; (unfold f)?)
    fix d x assume "fy_scopes ?t d = Some x"
    then have x: "fy_scopes s d = Some x" by (auto split: if_splits)
    show "entry_good parse ?t [] d x" using agreesD(2) [OF a x] unfolding entry_good_def f by auto
  next
    fix h w assume w: "(h, w) \<in> set ((fy_waits s @ [(fe_handle e, Closed c)]) @ [])"
    show "h < length (handles s) \<and> key_for parse (wait_checklist w) (h_key (handles s ! h)) \<and> wait_good ?t h w"
    proof (cases "(h, w) \<in> set (fy_waits s)")
      case True
      then have "wait_good ?t h w" using agreesD(3) [OF a, of h w] by (intro wait_good_mono [of s h w ?t]) (auto split: if_splits)
      then show ?thesis using agreesD(3) [OF a, of h w] True by simp
    next
      case False
      then show ?thesis using w good by (simp add: entry_good_def wait_checklist_def wait_good_def)
    qed
  next
    fix h w assume "(h, w) \<in> set (fy_waits s @ [(fe_handle e, Closed c)])"
    then show "handle_of s h \<noteq> Cancelled \<and> ([] \<noteq> [] \<longrightarrow> waits_on s h)" using agreesD(4) [OF a, of h w] live by auto
  next
    fix k h assume "b_scopes (fy_boot s) k = Some h"
    from agreesD(6) [OF a this]
    show "(\<exists>d x. fy_scopes ?t d = Some x \<and> fe_handle x = h) \<or> (\<exists>d. (h, Closed d) \<in> set ((fy_waits s @ [(fe_handle e, Closed c)]) @ []))"
    proof
      assume "\<exists>d x. fy_scopes s d = Some x \<and> fe_handle x = h"
      then obtain d x where d: "fy_scopes s d = Some x" "fe_handle x = h" by blast
      show ?thesis
      proof (cases "d = c")
        case True
        then show ?thesis using d Some by auto
      qed (use d in auto)
    qed auto
  qed (use agreesD(1) [OF a] in simp_all)
  then show ?thesis using Some by (simp add: fillSyncClose_def)
qed (simp add: fillSyncClose_def)

text \<open>Opening a scope: the registered handle of its key, or a new one that waits.\<close>

lemma open_handles:
  assumes "registered b" and "openSyncScope parse v b = (b', Inr h)"
  shows "registered b'" and "h < length (b_handles b')" and "open_handle b' h" and "scopeKey parse v = Inr (h_key (b_handles b' ! h))"
    and "\<And>g. g < length (b_handles b) \<Longrightarrow> g < length (b_handles b') \<and> b_handles b' ! g = b_handles b ! g"
    and "\<And>k g. b_scopes b' k = Some g \<Longrightarrow> g = h \<or> b_scopes b k = Some g"
proof -
  have b': "b' = fst (openSyncScope parse v b)" and h: "snd (openSyncScope parse v b) = Inr h" using assms(2) by simp_all
  show r: "registered b'" unfolding b' by (rule open_registered [OF assms(1)])
  have k: "\<exists>k. scopeKey parse v = Inr k \<and> b_scopes b' k = Some h"
    using assms(2) by (auto simp: openSyncScope_def split: if_splits sum.splits option.splits prod.splits)
  then show "h < length (b_handles b')" "open_handle b' h" "scopeKey parse v = Inr (h_key (b_handles b' ! h))"
    using r by (auto simp: registered_def open_handle_def)
  show "\<And>g. g < length (b_handles b) \<Longrightarrow> g < length (b_handles b') \<and> b_handles b' ! g = b_handles b ! g"
    using b' by (cases rule: open_cases [of parse v b]) (simp_all add: nth_append)
  show "\<And>k g. b_scopes b' k = Some g \<Longrightarrow> g = h \<or> b_scopes b k = Some g"
    using b' h by (cases rule: open_cases [of parse v b]) (auto split: if_splits)
qed

lemma open_agrees: "agrees parse s [] \<Longrightarrow> agrees parse (fst (fillSyncOpen parse user c t ids s)) []"
proof (cases "\<exists>u b h. user = Some u \<and> u \<noteq> [] \<and> c \<noteq> [] \<and> t \<noteq> [] \<and> b_readEnabled (fy_boot s) \<and> b_client (fy_boot s) \<and> fy_scopes s c = None
    \<and> openSyncScope parse (fill_scope_value u c t ids) (fy_boot s) = (b, Inr h)")
  case True
  assume a: "agrees parse s []"
  from True obtain u b h where c: "user = Some u" "u \<noteq> []" "c \<noteq> []" "t \<noteq> []" "b_readEnabled (fy_boot s)" "b_client (fy_boot s)" "fy_scopes s c = None"
    and o: "openSyncScope parse (fill_scope_value u c t ids) (fy_boot s) = (b, Inr h)" by blast
  note oh = open_handles [OF agreesD(1) [OF a] o]
  define e where "e = \<lparr>fe_number = fy_number s, fe_handle = h, fe_subscribed = False, fe_ids = ids, fe_sig = None\<rparr>"
  let ?t = "s\<lparr>fy_boot := b, fy_number := Suc (fy_number s), fy_waits := fy_waits s @ [(h, Opened (fy_number s) c)], fy_scopes := (fy_scopes s)(c \<mapsto> e)\<rparr>"
  have old: "handles ?t ! g = handles s ! g" "handle_of ?t g = handle_of s g" "waits_on ?t g = waits_on s g" "open_handle (fy_boot ?t) g = open_handle (fy_boot s) g"
    "g < length (handles ?t)" if "g < length (handles s)" for g
    using oh(5) [OF that] that by (simp_all add: handle_of_def waits_on_def open_handle_def)
  have key: "key_for parse c (h_key (b_handles b ! h))" by (rule fill_value_checklist [OF oh(4)])
  have hc: "handle_of ?t h \<noteq> Cancelled" using oh(3) by (auto simp: open_handle_def handle_of_def)
  have "agrees parse ?t []"
  proof (rule agreesI)
    fix d x assume dx: "fy_scopes ?t d = Some x"
    show "entry_good parse ?t [] d x"
    proof (cases "d = c")
      case True
      then have "x = e" using dx by simp
      then show ?thesis using True oh(2,3) key by (simp add: entry_good_def e_def)
    next
      case False
      then have x: "fy_scopes s d = Some x" using dx by simp
      then have n: "fe_handle x < length (handles s)" using agreesD(2) [OF a] by (simp add: entry_good_def)
      show ?thesis using agreesD(2) [OF a x] unfolding entry_good_def old [OF n] using old(5) [OF n] by auto
    qed
  next
    fix g w assume w: "(g, w) \<in> set (fy_waits ?t @ [])"
    show "g < length (handles ?t) \<and> key_for parse (wait_checklist w) (h_key (handles ?t ! g)) \<and> wait_good ?t g w"
    proof (cases "(g, w) \<in> set (fy_waits s)")
      case True
      have g: "g < length (handles s)" "key_for parse (wait_checklist w) (h_key (handles s ! g))" "wait_good s g w" using agreesD(3) [OF a, of g w] True by simp_all
      have "wait_good ?t g w" by (rule wait_good_mono [OF g(3)]) (auto simp: e_def split: if_splits)
      then show ?thesis using g(2) old(5) [OF g(1)] unfolding old(1) [OF g(1)] by blast
    next
      case False
      then have "g = h" "w = Opened (fy_number s) c" using w by auto
      then show ?thesis using oh(2) key by (simp add: wait_checklist_def wait_good_def e_def)
    qed
  next
    fix g w assume w: "(g, w) \<in> set (fy_waits ?t)"
    show "handle_of ?t g \<noteq> Cancelled \<and> ([] \<noteq> [] \<longrightarrow> waits_on ?t g)"
    proof (cases "(g, w) \<in> set (fy_waits s)")
      case True
      then have "g < length (handles s)" using agreesD(3) [OF a, of g w] by simp
      from old(2) [OF this] show ?thesis using agreesD(4) [OF a True] by simp
    qed (use w hc in auto)
  next
    fix k g assume k: "b_scopes (fy_boot ?t) k = Some g"
    then have "g = h \<or> b_scopes (fy_boot s) k = Some g" using oh(6) by simp
    then show "(\<exists>d x. fy_scopes ?t d = Some x \<and> fe_handle x = g) \<or> (\<exists>d. (g, Closed d) \<in> set (fy_waits ?t @ []))"
    proof
      assume "g = h"
      then have "fy_scopes ?t c = Some e \<and> fe_handle e = g" by (simp add: e_def)
      then show ?thesis by blast
    next
      assume "b_scopes (fy_boot s) k = Some g"
      from agreesD(6) [OF a this] show ?thesis
      proof
        assume "\<exists>d x. fy_scopes s d = Some x \<and> fe_handle x = g"
        then obtain d x where d: "fy_scopes s d = Some x" "fe_handle x = g" by blast
        then have "fy_scopes ?t d = Some x" using c(7) by auto
        then show ?thesis using d(2) by blast
      qed auto
    qed
  qed (use oh(1) in simp_all)
  moreover have "fst (fillSyncOpen parse user c t ids s) = ?t" using c o by (simp add: fillSyncOpen_def e_def)
  ultimately show ?thesis by simp
next
  case False
  then have "fst (fillSyncOpen parse user c t ids s) = s"
    by (auto simp: fillSyncOpen_def split: option.splits sum.splits prod.splits)
  then show "agrees parse s [] \<Longrightarrow> ?thesis" by simp
qed

lemma ops_agree: "agrees parse s [] \<Longrightarrow> agrees parse (foldl (fill_op_step parse) s todo) []"
proof (induction todo arbitrary: s)
  case (Cons x todo)
  have "agrees parse (fill_op_step parse s x) []" using Cons.prems by (cases x) (simp_all add: open_agrees close_agrees)
  then show ?case using Cons.IH by simp
qed simp

text \<open>A handle goes on: it was waiting, so its opener is registered.\<close>

lemma resume_fields:
  "length (b_handles (handle_resumes h ok b)) = length (b_handles b)"
  "g < length (b_handles b) \<Longrightarrow> h_key (b_handles (handle_resumes h ok b) ! g) = h_key (b_handles b ! g)"
  "g < length (b_handles b) \<Longrightarrow> h_state (b_handles (handle_resumes h ok b) ! g) = h_state (b_handles b ! g)
    \<or> (\<exists>i. h_state (b_handles b ! g) = Waiting i) \<and> h_state (b_handles (handle_resumes h ok b) ! g) \<in> {Live, Failed}"
  "b_scopes (handle_resumes h ok b) k = Some g \<Longrightarrow> b_scopes b k = Some g"
  by (auto simp: handle_resumes_def Let_def nth_list_update split: handle_state.splits if_splits)

lemma resume_agrees:
  assumes a: "agrees parse s []"
  shows "agrees parse (s\<lparr>fy_boot := handle_resumes h ok (fy_boot s)\<rparr>) []"
proof -
  let ?t = "s\<lparr>fy_boot := handle_resumes h ok (fy_boot s)\<rparr>"
  have len: "length (handles ?t) = length (handles s)" by (simp add: resume_fields(1))
  have hk: "h_key (handles ?t ! g) = h_key (handles s ! g)" if "g < length (handles s)" for g using resume_fields(2) [OF that] by simp
  have st: "handle_of ?t g = handle_of s g \<or> waits_on s g \<and> (handle_of ?t g = Live \<or> handle_of ?t g = Failed)" if "g < length (handles s)" for g
    using resume_fields(3) [OF that, of h ok] by (auto simp: handle_of_def waits_on_def)
  have wo: "waits_on ?t g \<Longrightarrow> waits_on s g" if "g < length (handles s)" for g using st [OF that] by (auto simp: waits_on_def)
  have op: "open_handle (fy_boot s) g \<Longrightarrow> open_handle (fy_boot ?t) g \<or> waits_on s g \<and> handle_of ?t g = Failed" if "g < length (handles s)" for g
    using st [OF that] that open_state [of s g] open_state [of ?t g] len by (auto simp: waits_on_def)
  show ?thesis
  proof (rule agreesI)
    show "registered (fy_boot ?t)" using resume_registered [OF agreesD(1) [OF a]] by simp
  next
    fix c e assume "fy_scopes ?t c = Some e"
    then have e: "fy_scopes s c = Some e" by simp
    then have n: "fe_handle e < length (handles s)" using agreesD(2) [OF a] by (simp add: entry_good_def)
    have w: "fy_waits ?t = fy_waits s" by simp
    have failed: "handle_of s (fe_handle e) = Failed \<Longrightarrow> handle_of ?t (fe_handle e) = Failed" using st [OF n] by (auto simp: waits_on_def)
    show "entry_good parse ?t [] c e"
      using agreesD(2) [OF a e] op [OF n] wo [OF n] failed unfolding entry_good_def len hk [OF n] w by auto
  next
    fix g w assume w: "(g, w) \<in> set (fy_waits ?t @ [])"
    then have g: "g < length (handles s)" "key_for parse (wait_checklist w) (h_key (handles s ! g))" "wait_good s g w" using agreesD(3) [OF a, of g w] by simp_all
    have "wait_good ?t g w" by (rule wait_good_mono [OF g(3)]) auto
    then show "g < length (handles ?t) \<and> key_for parse (wait_checklist w) (h_key (handles ?t ! g)) \<and> wait_good ?t g w"
      using g(1,2) unfolding len hk [OF g(1)] by blast
  next
    fix g w assume "(g, w) \<in> set (fy_waits ?t)"
    then have w: "(g, w) \<in> set (fy_waits s)" by simp
    then have "g < length (handles s)" using agreesD(3) [OF a, of g w] by simp
    from st [OF this] show "handle_of ?t g \<noteq> Cancelled \<and> ([] \<noteq> [] \<longrightarrow> waits_on ?t g)" using agreesD(4) [OF a w] by auto
  next
    fix k g assume "b_scopes (fy_boot ?t) k = Some g"
    then have "b_scopes (handle_resumes h ok (fy_boot s)) k = Some g" by simp
    then have "b_scopes (fy_boot s) k = Some g" by (rule resume_fields(4))
    from agreesD(6) [OF a this] show "(\<exists>c e. fy_scopes ?t c = Some e \<and> fe_handle e = g) \<or> (\<exists>c. (g, Closed c) \<in> set (fy_waits ?t @ []))" by simp
  qed simp
qed

lemma emitted_entries:
  "\<exists>m ov. rows_emitted c i docs me s = s\<lparr>fy_scopes := m, fy_overlay := ov\<rparr>
    \<and> (\<forall>d. case fy_scopes s d of None \<Rightarrow> m d = None | Some e \<Rightarrow> \<exists>x. m d = Some x \<and> fe_number x = fe_number e \<and> fe_handle x = fe_handle e)"
proof -
  have same: "s = s\<lparr>fy_scopes := fy_scopes s, fy_overlay := fy_overlay s\<rparr>" by (cases s) simp
  have refl: "\<forall>d. case fy_scopes s d of None \<Rightarrow> fy_scopes s d = None | Some e \<Rightarrow> \<exists>x. fy_scopes s d = Some x \<and> fe_number x = fe_number e \<and> fe_handle x = fe_handle e"
    by (simp split: option.split)
  show ?thesis
  proof (cases "rows_emitted c i docs me s = s")
    case True
    have "rows_emitted c i docs me s = s\<lparr>fy_scopes := fy_scopes s, fy_overlay := fy_overlay s\<rparr>" by (rule trans [OF True same])
    then show ?thesis using refl by blast
  next
    case False
    then obtain e sig rs where e: "fy_scopes s c = Some e" and r: "rows_emitted c i docs me s = s\<lparr>fy_scopes := (fy_scopes s)(c \<mapsto> e\<lparr>fe_sig := sig\<rparr>), fy_overlay := rs\<rparr>"
      by (auto simp: rows_emitted_def split: option.splits if_splits prod.splits)
    show ?thesis unfolding r
      by (rule exI [of _ "(fy_scopes s)(c \<mapsto> e\<lparr>fe_sig := sig\<rparr>)"], rule exI [of _ rs]) (use e in \<open>auto split: option.split\<close>)
  qed
qed

definition in_step :: "(string \<Rightarrow> ms option) \<Rightarrow> fill_sync \<Rightarrow> bool" where
  "in_step parse s \<longleftrightarrow> agrees parse s [] \<and> all_waiting s"

lemma step_in_step: "in_step parse s \<Longrightarrow> in_step parse (fill_sync_step parse s e)"
proof (cases e)
  case (Database_Settles i ok)
  assume i: "in_step parse s"
  let ?t = "s\<lparr>fy_boot := db_settles i ok (fy_boot s)\<rparr>"
  have f: "handles ?t = handles s" "b_scopes (fy_boot ?t) = b_scopes (fy_boot s)" "handle_of ?t = handle_of s" "waits_on ?t = waits_on s"
    "open_handle (fy_boot ?t) = open_handle (fy_boot s)" "fy_waits ?t = fy_waits s" "fy_scopes ?t = fy_scopes s"
    by (simp_all add: fun_eq_iff handle_of_def waits_on_def open_handle_def)
  have "wait_good ?t h w = wait_good s h w" for h w by (cases w) (simp_all add: wait_good_def)
  note f = f this
  have "registered (fy_boot ?t) = registered (fy_boot s)" unfolding registered_def f ..
  then have "in_step parse ?t" using i unfolding in_step_def agrees_def all_waiting_def entry_good_def f by blast
  then show ?thesis by (simp add: Database_Settles)
next
  case (Emits c n docs me)
  assume i: "in_step parse s"
  obtain m ov where r: "rows_emitted c n docs me s = s\<lparr>fy_scopes := m, fy_overlay := ov\<rparr>"
    and m: "\<forall>d. case fy_scopes s d of None \<Rightarrow> m d = None | Some e \<Rightarrow> \<exists>x. m d = Some x \<and> fe_number x = fe_number e \<and> fe_handle x = fe_handle e"
    using emitted_entries by blast
  have "agrees parse (s\<lparr>fy_scopes := m, fy_overlay := ov\<rparr>) []"
  proof (rule agrees_scopes)
    show "agrees parse s []" using i by (simp add: in_step_def)
  next
    fix d x assume "m d = Some x"
    then show "\<exists>e. fy_scopes s d = Some e \<and> fe_number e = fe_number x \<and> fe_handle e = fe_handle x" using m [THEN spec, of d] by (cases "fy_scopes s d") auto
  next
    fix d e assume "fy_scopes s d = Some e"
    then show "(\<exists>x. m d = Some x \<and> fe_handle x = fe_handle e) \<or> handle_of s (fe_handle e) = Failed" using m [THEN spec, of d] by auto
  qed
  moreover have "all_waiting (s\<lparr>fy_scopes := m, fy_overlay := ov\<rparr>)" using i by (simp add: in_step_def all_waiting_def waits_on_def handle_of_def)
  ultimately show ?thesis by (simp add: Emits in_step_def r)
next
  case (Task todo)
  assume "in_step parse s"
  then have "agrees parse (foldl (fill_op_step parse) s todo) []" by (simp add: in_step_def ops_agree)
  from microtasks_agree [OF this] show ?thesis by (simp add: Task in_step_def)
next
  case (Handle_Resumes h ok)
  assume "in_step parse s"
  then have "agrees parse (s\<lparr>fy_boot := handle_resumes h ok (fy_boot s)\<rparr>) []" by (simp add: in_step_def resume_agrees)
  from microtasks_agree [OF this] show ?thesis by (simp add: Handle_Resumes in_step_def)
qed

lemma init_in_step: "in_step parse (fill_sync_init enabled client)"
  by (simp add: in_step_def agrees_def all_waiting_def fill_sync_init_def boot_init_def registered_def open_handle_def)

lemma run_in_step: "in_step parse s \<Longrightarrow> in_step parse (fill_sync_run parse s es)"
  by (induction es arbitrary: s) (simp_all add: fill_sync_run_def step_in_step)

text \<open>C18: what the page calls open is replicated. After any run of opens and closes in any order and number, within a task or across
  tasks, with databases and replications that start late or fail, the replication of every checklist the page calls open is
  registered under a key of that very checklist, and no other checklist has it; every registered replication belongs to a
  checklist that is open, or to one that was closed before it had started and is cancelled when it has.\<close>
theorem open_checklists_replicated:
  assumes "s = fill_sync_run parse (fill_sync_init enabled client) es"
  shows "(\<forall>c \<in> openIds s. \<exists>e. fy_scopes s c = Some e \<and> key_for parse c (h_key (handles s ! fe_handle e))
      \<and> b_scopes (fy_boot s) (h_key (handles s ! fe_handle e)) = Some (fe_handle e) \<and> open_handle (fy_boot s) (fe_handle e)
      \<and> (\<forall>d x. fy_scopes s d = Some x \<and> fe_handle x = fe_handle e \<longrightarrow> d = c))
    \<and> (\<forall>k h. b_scopes (fy_boot s) k = Some h \<longrightarrow>
        (\<exists>c e. fy_scopes s c = Some e \<and> fe_handle e = h) \<or> (\<exists>c. (h, Closed c) \<in> set (fy_waits s) \<and> waits_on s h))"
proof -
  have i: "agrees parse s []" "all_waiting s" using run_in_step [OF init_in_step] unfolding assms in_step_def by blast+
  have "key_for parse c (h_key (handles s ! fe_handle e)) \<and> open_handle (fy_boot s) (fe_handle e)
      \<and> b_scopes (fy_boot s) (h_key (handles s ! fe_handle e)) = Some (fe_handle e)" if e: "fy_scopes s c = Some e" for c e
  proof -
    have g: "entry_good parse s [] c e" by (rule agreesD(2) [OF i(1) e])
    have "open_handle (fy_boot s) (fe_handle e)" using g i(2) by (auto simp: entry_good_def all_waiting_def waits_on_def)
    then show ?thesis using g agreesD(1) [OF i(1)] by (simp add: entry_good_def registered_def)
  qed
  moreover have "d = c" if "fy_scopes s c = Some e" "fy_scopes s d = Some x" "fe_handle x = fe_handle e" for c d e x
    using that key_checklist agreesD(2) [OF i(1)] unfolding entry_good_def by metis
  moreover have "(\<exists>c e. fy_scopes s c = Some e \<and> fe_handle e = h) \<or> (\<exists>c. (h, Closed c) \<in> set (fy_waits s) \<and> waits_on s h)"
    if "b_scopes (fy_boot s) k = Some h" for k h
    using agreesD(6) [OF i(1) that] i(2) unfolding all_waiting_def by fastforce
  ultimately show ?thesis unfolding openIds_def by blast
qed


section \<open>The overlay\<close>

text \<open>Every row belongs to a field of an open checklist that has subscribed, and what has subscribed has a live replication.\<close>

definition backed :: "fill_sync \<Rightarrow> bool" where
  "backed s \<longleftrightarrow> (\<forall>r \<in> set (fy_overlay s). \<exists>c e. fy_scopes s c = Some e \<and> fe_subscribed e \<and> w_field r \<in> set (fe_ids e))
     \<and> (\<forall>c e. fy_scopes s c = Some e \<longrightarrow> fe_subscribed e \<longrightarrow> handle_of s (fe_handle e) = Live)"

lemma backedD:
  assumes "backed s"
  shows "\<And>r. r \<in> set (fy_overlay s) \<Longrightarrow> \<exists>c e. fy_scopes s c = Some e \<and> fe_subscribed e \<and> w_field r \<in> set (fe_ids e)"
    and "\<And>c e. fy_scopes s c = Some e \<Longrightarrow> fe_subscribed e \<Longrightarrow> handle_of s (fe_handle e) = Live"
  using assms unfolding backed_def by blast+

text \<open>Rows that stay keep their entry if every subscribed entry keeps its fields.\<close>

lemma backedI:
  assumes b: "backed s" and "set (fy_overlay t) \<subseteq> set (fy_overlay s)"
    and keep: "\<And>c e r. fy_scopes s c = Some e \<Longrightarrow> fe_subscribed e \<Longrightarrow> r \<in> set (fy_overlay t) \<Longrightarrow> w_field r \<in> set (fe_ids e) \<Longrightarrow>
        \<exists>x. fy_scopes t c = Some x \<and> fe_subscribed x \<and> fe_ids x = fe_ids e"
    and live: "\<And>c x. fy_scopes t c = Some x \<Longrightarrow> fe_subscribed x \<Longrightarrow> handle_of t (fe_handle x) = Live"
  shows "backed t"
  unfolding backed_def
proof (intro conjI ballI allI impI)
  fix r assume r: "r \<in> set (fy_overlay t)"
  then obtain c e where e: "fy_scopes s c = Some e" "fe_subscribed e" "w_field r \<in> set (fe_ids e)" using assms(2) backedD(1) [OF b] by blast
  obtain x where "fy_scopes t c = Some x" "fe_subscribed x" "fe_ids x = fe_ids e" using keep [OF e(1,2) r e(3)] by blast
  then show "\<exists>c e. fy_scopes t c = Some e \<and> fe_subscribed e \<and> w_field r \<in> set (fe_ids e)" using e(3) by metis
qed (rule live)

lemma wait_backed:
  assumes a0: "agrees parse s (x # B)" and b: "backed s"
  shows "backed (run_wait s x)"
proof (cases x)
  case (Pair h w)
  have a: "agrees parse s ((h, w) # B)" using a0 by (simp add: Pair)
  show ?thesis
  proof (cases w)
    case (Opened i c)
    show ?thesis
    proof (cases "\<exists>e. fy_scopes s c = Some e \<and> fe_number e = i")
      case False
      then have "run_wait s x = s" by (auto simp: run_wait_def Pair Opened split: option.split)
      then show ?thesis using b by simp
    next
      case True
      then obtain e where e: "fy_scopes s c = Some e" "fe_number e = i" by blast
      have eh: "fe_handle e = h" using agreesD(3) [OF a, of h w] e by (simp add: Opened wait_good_def)
      show ?thesis
      proof (cases "handle_of s h = Failed")
        case True
        have r: "run_wait s x = s\<lparr>fy_scopes := (fy_scopes s)(c := None)\<rparr>" using e True by (simp add: run_wait_def Pair Opened)
        have "\<not> fe_subscribed e" using backedD(2) [OF b e(1)] True eh by auto
        then show ?thesis unfolding r
          by (intro backedI [OF b]) (use e backedD(2) [OF b] in \<open>auto simp: handle_of_def split: if_splits\<close>)
      next
        case False
        have r: "run_wait s x = s\<lparr>fy_scopes := (fy_scopes s)(c \<mapsto> e\<lparr>fe_subscribed := True\<rparr>)\<rparr>" using e False by (simp add: run_wait_def Pair Opened)
        have "\<not> waits_on s h" using agreesD(5) [OF a, of h w] by simp
        then have "handle_of s h = Live" using agreesD(2) [OF a e(1)] eh False by (auto simp: entry_good_def open_state)
        then show ?thesis unfolding r
          by (intro backedI [OF b]) (use e eh backedD(2) [OF b] in \<open>auto simp: handle_of_def split: if_splits\<close>)
      qed
    qed
  next
    case (Closed c)
    show ?thesis
    proof (cases "handle_of s h = Failed \<or> (\<exists>e. fy_scopes s c = Some e \<and> fe_handle e = h)")
      case True
      then have "run_wait s x = s" by (auto simp: run_wait_def Pair Closed)
      then show ?thesis using b by simp
    next
      case False
      have r: "run_wait s x = s\<lparr>fy_boot := cancel h (fy_boot s)\<rparr>" using False by (auto simp: run_wait_def Pair Closed split: option.split)
      have "handle_of (s\<lparr>fy_boot := cancel h (fy_boot s)\<rparr>) (fe_handle e) = handle_of s (fe_handle e)" if e: "fy_scopes s d = Some e" for d e
      proof -
        have "fe_handle e \<noteq> h" using closer_free [of parse s h c B d e] a False e by (auto simp: Closed)
        then show ?thesis by (simp add: handle_of_def cancel_def)
      qed
      then show ?thesis unfolding r by (intro backedI [OF b]) (use backedD(2) [OF b] in auto)
    qed
  qed
qed

lemma batch_backed: "agrees parse s B \<Longrightarrow> backed s \<Longrightarrow> backed (foldl run_wait s B)"
  by (induction B arbitrary: s) (simp_all add: wait_runs wait_backed)


lemma microtasks_backed:
  assumes "agrees parse s []" and b: "backed s"
  shows "backed (run_microtasks s)"
proof -
  have "backed (s\<lparr>fy_waits := W\<rparr>)" for W by (intro backedI [OF b]) (use backedD(2) [OF b] in \<open>auto simp: handle_of_def\<close>)
  then show ?thesis unfolding run_microtasks_def by (rule batch_backed [OF microtasks_start [OF assms(1)]])
qed

lemma close_backed: "backed s \<Longrightarrow> backed (fillSyncClose c s)"
proof (cases "fy_scopes s c")
  case (Some e)
  assume b: "backed s"
  show ?thesis unfolding fillSyncClose_def
    by (simp add: Some, intro backedI [OF b]) (use Some backedD(2) [OF b] in \<open>auto simp: handle_of_def split: if_splits\<close>)
qed (simp add: fillSyncClose_def)

lemma open_backed:
  assumes a: "agrees parse s []" and b: "backed s"
  shows "backed (fst (fillSyncOpen parse user c t ids s))"
proof (cases "\<exists>u b' h. fst (fillSyncOpen parse user c t ids s) = s \<or> (openSyncScope parse (fill_scope_value u c t ids) (fy_boot s) = (b', Inr h) \<and> fy_scopes s c = None
    \<and> fst (fillSyncOpen parse user c t ids s) = s\<lparr>fy_boot := b', fy_number := Suc (fy_number s), fy_waits := fy_waits s @ [(h, Opened (fy_number s) c)],
         fy_scopes := (fy_scopes s)(c \<mapsto> \<lparr>fe_number = fy_number s, fe_handle = h, fe_subscribed = False, fe_ids = ids, fe_sig = None\<rparr>)\<rparr>)")
  case True
  then consider "fst (fillSyncOpen parse user c t ids s) = s"
    | u b' h where "openSyncScope parse (fill_scope_value u c t ids) (fy_boot s) = (b', Inr h)" "fy_scopes s c = None"
      "fst (fillSyncOpen parse user c t ids s) = s\<lparr>fy_boot := b', fy_number := Suc (fy_number s), fy_waits := fy_waits s @ [(h, Opened (fy_number s) c)],
         fy_scopes := (fy_scopes s)(c \<mapsto> \<lparr>fe_number = fy_number s, fe_handle = h, fe_subscribed = False, fe_ids = ids, fe_sig = None\<rparr>)\<rparr>" by blast
  then show ?thesis
  proof cases
    case (2 u b' h)
    have "handle_of (fst (fillSyncOpen parse user c t ids s)) (fe_handle e) = handle_of s (fe_handle e)" if e: "fy_scopes s d = Some e" for d e
    proof -
      have "fe_handle e < length (handles s)" using agreesD(2) [OF a e] by (simp add: entry_good_def)
      from open_handles(5) [OF agreesD(1) [OF a] 2(1) this] show ?thesis unfolding 2(3) by (simp add: handle_of_def)
    qed
    then show ?thesis by (intro backedI [OF b]) (use 2 backedD(2) [OF b] in \<open>auto split: if_splits\<close>)
  qed (use b in simp)
next
  case False
  then show ?thesis by (auto simp: fillSyncOpen_def split: option.splits sum.splits prod.splits if_splits)
qed

lemma ops_backed: "agrees parse s [] \<Longrightarrow> backed s \<Longrightarrow> backed (foldl (fill_op_step parse) s todo)"
proof (induction todo arbitrary: s)
  case (Cons x todo)
  have "agrees parse (fill_op_step parse s x) []" using Cons.prems(1) by (cases x) (simp_all add: open_agrees close_agrees)
  moreover have "backed (fill_op_step parse s x)" using Cons.prems by (cases x) (simp_all add: open_backed close_backed)
  ultimately show ?case using Cons.IH by simp
qed simp

lemma resume_backed:
  assumes a: "agrees parse s []" and b: "backed s"
  shows "backed (s\<lparr>fy_boot := handle_resumes h ok (fy_boot s)\<rparr>)"
proof -
  have "handle_of (s\<lparr>fy_boot := handle_resumes h ok (fy_boot s)\<rparr>) (fe_handle e) = Live" if e: "fy_scopes s c = Some e" "fe_subscribed e" for c e
  proof -
    have n: "fe_handle e < length (handles s)" using agreesD(2) [OF a e(1)] by (simp add: entry_good_def)
    have "h_state (handles s ! fe_handle e) = Live" using backedD(2) [OF b e] by (simp add: handle_of_def)
    with resume_fields(3) [OF n, of h ok] show ?thesis by (simp add: handle_of_def)
  qed
  then show ?thesis by (intro backedI [OF b]) auto
qed

lemma emitted_backed:
  assumes b: "backed s"
  shows "backed (rows_emitted c i docs me s)"
proof (cases "rows_emitted c i docs me s = s")
  case False
  then obtain e sig rs where e: "fy_scopes s c = Some e" "fe_subscribed e"
    and ap: "applyRxdbFillDocs c (fe_ids e) (filter (\<lambda>d. w_field (d_row d) \<in> set (fe_ids e)) docs) me (Some (fe_sig e)) (fy_overlay s) = (Some sig, rs)"
    and r: "rows_emitted c i docs me s = s\<lparr>fy_scopes := (fy_scopes s)(c \<mapsto> e\<lparr>fe_sig := sig\<rparr>), fy_overlay := rs\<rparr>"
    by (auto simp: rows_emitted_def split: option.splits if_splits prod.splits)
  have rows: "x \<in> set (fy_overlay s) \<or> w_field x \<in> set (fe_ids e)" if x: "x \<in> set rs" for x
  proof -
    define acc where "acc = acceptedFillDocs (filter (\<lambda>d. w_field (d_row d) \<in> set (fe_ids e)) docs) c me"
    have "set rs \<subseteq> set (fy_overlay s) \<union> set (next_slice acc)"
      using ap over_fold_set [of "filter (\<lambda>r. w_field r \<notin> set (fe_ids e)) (fy_overlay s)" "next_slice acc"]
      by (auto simp: applyRxdbFillDocs_def acc_def Let_def split: if_splits)
    moreover have "w_field y \<in> set (fe_ids e)" if y: "y \<in> set (next_slice acc)" for y
    proof -
      obtain d where d: "d \<in> set acc" "y = (d_row d)\<lparr>w_by := []\<rparr>" using slice_set y by blast
      have "d \<in> set (filter (\<lambda>d. w_field (d_row d) \<in> set (fe_ids e)) docs)" using accepted_own d(1) unfolding acc_def by blast
      then show ?thesis using d(2) by simp
    qed
    ultimately show ?thesis using x by blast
  qed
  show ?thesis unfolding backed_def r
  proof (intro conjI ballI allI impI)
    fix x assume "x \<in> set (fy_overlay (s\<lparr>fy_scopes := (fy_scopes s)(c \<mapsto> e\<lparr>fe_sig := sig\<rparr>), fy_overlay := rs\<rparr>))"
    then have "x \<in> set (fy_overlay s) \<or> w_field x \<in> set (fe_ids e)" using rows by simp
    then obtain d y where y: "fy_scopes s d = Some y" "fe_subscribed y" "w_field x \<in> set (fe_ids y)" using e backedD(1) [OF b] by blast
    then show "\<exists>d y. fy_scopes (s\<lparr>fy_scopes := (fy_scopes s)(c \<mapsto> e\<lparr>fe_sig := sig\<rparr>), fy_overlay := rs\<rparr>) d = Some y \<and> fe_subscribed y \<and> w_field x \<in> set (fe_ids y)"
      using e by (cases "d = c") auto
  next
    fix d y assume "fy_scopes (s\<lparr>fy_scopes := (fy_scopes s)(c \<mapsto> e\<lparr>fe_sig := sig\<rparr>), fy_overlay := rs\<rparr>) d = Some y" "fe_subscribed y"
    then show "handle_of (s\<lparr>fy_scopes := (fy_scopes s)(c \<mapsto> e\<lparr>fe_sig := sig\<rparr>), fy_overlay := rs\<rparr>) (fe_handle y) = Live"
      using backedD(2) [OF b] e by (auto simp: handle_of_def split: if_splits)
  qed
qed (use b in simp)

lemma step_backed:
  assumes "in_step parse s" and b: "backed s"
  shows "backed (fill_sync_step parse s e)"
proof (cases e)
  case (Task todo)
  then show ?thesis using assms microtasks_backed [of parse] ops_agree ops_backed by (simp add: in_step_def)
next
  case (Database_Settles i ok)
  then show ?thesis by (simp, intro backedI [OF b]) (use backedD(2) [OF b] in \<open>auto simp: handle_of_def\<close>)
next
  case (Handle_Resumes h ok)
  have "agrees parse (s\<lparr>fy_boot := handle_resumes h ok (fy_boot s)\<rparr>) []" using assms(1) by (simp add: in_step_def resume_agrees)
  then show ?thesis using Handle_Resumes assms microtasks_backed [of parse] resume_backed [of parse s h ok] by (simp add: in_step_def)
qed (simp add: emitted_backed b)

lemma run_backed: "in_step parse s \<Longrightarrow> backed s \<Longrightarrow> backed (fill_sync_run parse s es)"
proof (induction es arbitrary: s)
  case (Cons e es)
  then show ?case using Cons.IH [OF step_in_step [OF Cons.prems(1)] step_backed [OF Cons.prems]] by (simp add: fill_sync_run_def)
qed (simp add: fill_sync_run_def)

text \<open>C32: the overlay answers open checklists only. In every run each replicated row the page lays over its answers is for a field of some
  checklist that is open and whose replication is live; so once the last checklist with a field is closed, nothing replicated
  answers that field.\<close>
theorem overlay_is_backed:
  assumes "s = fill_sync_run parse (fill_sync_init enabled client) es" and "r \<in> set (fy_overlay s)"
  shows "\<exists>c e. fy_scopes s c = Some e \<and> w_field r \<in> set (fe_ids e) \<and> handle_of s (fe_handle e) = Live
    \<and> b_scopes (fy_boot s) (h_key (handles s ! fe_handle e)) = Some (fe_handle e)"
proof -
  have "backed (fill_sync_init enabled client)" by (simp add: backed_def fill_sync_init_def)
  then have b: "backed s" unfolding assms(1) by (rule run_backed [OF init_in_step])
  then obtain c e where e: "fy_scopes s c = Some e" "fe_subscribed e" "w_field r \<in> set (fe_ids e)" using backedD(1) assms(2) by blast
  have i: "agrees parse s []" using run_in_step [OF init_in_step] unfolding assms(1) in_step_def by blast
  have live: "handle_of s (fe_handle e) = Live" by (rule backedD(2) [OF b e(1,2)])
  have "fe_handle e < length (handles s)" using agreesD(2) [OF i e(1)] by (simp add: entry_good_def)
  then have "open_handle (fy_boot s) (fe_handle e)" using live by (simp add: open_state)
  then have "b_scopes (fy_boot s) (h_key (handles s ! fe_handle e)) = Some (fe_handle e)" using agreesD(1) [OF i] by (simp add: registered_def)
  then show ?thesis using e live by blast
qed


section \<open>The properties at concrete inputs\<close>

definition demo_events :: "fill_event list" where
  "demo_events = [Task [F_Open (Some ''ann'') ''c1'' ''t1'' [''f1'']], Database_Settles 0 True, Handle_Resumes 0 True,
     Emits ''c1'' 0 [filled (Some ''c1'') ''bob'' (crew_row ''f1'' True)] (Some ''ann'')]"

definition demo_sync :: fill_sync where
  "demo_sync = fill_sync_run (\<lambda>_. Some 0) (fill_sync_init True True) demo_events"

lemma demo_key: "\<exists>k. scopeKey (\<lambda>_. Some 0) (fill_scope_value ''ann'' ''c1'' ''t1'' [''f1'']) = Inr k"
proof -
  have "normalizeScope (\<lambda>_. Some 0) (fill_scope_value ''ann'' ''c1'' ''t1'' [''f1'']) = Inr (Fill_Scope ''ann'' ''c1'' ''t1'' [''f1''])"
    unfolding fill_scope_value_def by code_simp
  then show ?thesis by (simp add: scopeKey_def)
qed

lemma demo_run:
  "fy_scopes demo_sync = [''c1'' \<mapsto> \<lparr>fe_number = 0, fe_handle = 0, fe_subscribed = True, fe_ids = [''f1''], fe_sig = Some [(crew_row ''f1'' True)\<lparr>w_by := []\<rparr>]\<rparr>]
    \<and> fy_overlay demo_sync = [(crew_row ''f1'' True)\<lparr>w_by := []\<rparr>]"
proof -
  obtain k where k: "scopeKey (\<lambda>_. Some 0) (fill_scope_value ''ann'' ''c1'' ''t1'' [''f1'']) = Inr k" using demo_key by blast
  define s1 where "s1 = fill_sync_step (\<lambda>_. Some 0) (fill_sync_init True True) (Task [F_Open (Some ''ann'') ''c1'' ''t1'' [''f1'']])"
  have s1: "fy_boot s1 = \<lparr>b_readEnabled = True, b_client = True, b_scopes = [k \<mapsto> 0], b_handles = [\<lparr>h_key = k, h_state = Waiting 0\<rparr>], b_database = Some 0,
      b_dbs = [Db_Pending], b_db = False\<rparr>"
    "fy_scopes s1 = [''c1'' \<mapsto> \<lparr>fe_number = 0, fe_handle = 0, fe_subscribed = False, fe_ids = [''f1''], fe_sig = None\<rparr>]"
    "fy_waits s1 = [(0, Opened 0 ''c1'')]" "fy_overlay s1 = []"
    by (simp_all add: s1_def fillSyncOpen_def fill_sync_init_def boot_init_def openSyncScope_def k ensureDatabase_def run_microtasks_def waits_on_def handle_of_def)
  define s2 where "s2 = fill_sync_step (\<lambda>_. Some 0) s1 (Database_Settles 0 True)"
  have s2: "fy_boot s2 = (fy_boot s1)\<lparr>b_dbs := [Db_Ready], b_db := True\<rparr>" "fy_scopes s2 = fy_scopes s1" "fy_waits s2 = fy_waits s1" "fy_overlay s2 = []"
    by (simp_all add: s2_def db_settles_def s1)
  define s3 where "s3 = fill_sync_step (\<lambda>_. Some 0) s2 (Handle_Resumes 0 True)"
  have s3: "fy_scopes s3 = [''c1'' \<mapsto> \<lparr>fe_number = 0, fe_handle = 0, fe_subscribed = True, fe_ids = [''f1''], fe_sig = None\<rparr>]" "fy_overlay s3 = []"
    by (simp_all add: s3_def s2 s1 handle_resumes_def run_microtasks_def waits_on_def handle_of_def run_wait_def Let_def)
  have d: "demo_sync = fill_sync_step (\<lambda>_. Some 0) s3 (Emits ''c1'' 0 [filled (Some ''c1'') ''bob'' (crew_row ''f1'' True)] (Some ''ann''))"
    by (simp add: demo_sync_def demo_events_def fill_sync_run_def s1_def s2_def s3_def del: fill_sync_step.simps)
  show ?thesis unfolding d
    by (simp add: rows_emitted_def s3 filled_def crew_row_def applyRxdbFillDocs_def acceptedFillDocs_def next_slice_def Let_def)
qed

theorem open_checklists_replicated_witness:
  "''c1'' \<in> openIds demo_sync \<and> (\<exists>e. fy_scopes demo_sync ''c1'' = Some e \<and> open_handle (fy_boot demo_sync) (fe_handle e))"
proof -
  have "''c1'' \<in> openIds demo_sync" using demo_run by (simp add: openIds_def)
  then show ?thesis using open_checklists_replicated [OF demo_sync_def] by blast
qed

theorem overlay_is_backed_witness:
  "\<exists>c e. fy_scopes demo_sync c = Some e \<and> ''f1'' \<in> set (fe_ids e) \<and> handle_of demo_sync (fe_handle e) = Live"
proof -
  have "(crew_row ''f1'' True)\<lparr>w_by := []\<rparr> \<in> set (fy_overlay demo_sync)" using demo_run by simp
  from overlay_is_backed [OF demo_sync_def this] show ?thesis by (auto simp: crew_row_def)
qed

end
