(* ===== verification/SerialEnqueue.thy ===== *)
theory SerialEnqueue
  imports Complex_Main PushProtocol
begin

text \<open>
  \<open>makeSerializedEnqueue\<close> of \<^verbatim>\<open>marketing/scanner.js\<close> around \<open>enqueueAttempt\<close>, which awaits the rows of a code before it inserts one. A call
  is cut at its two awaits, and calls, other writers and the end of the chains interleave at will. Without the wrapper (\<open>serial\<close>
  false) a call waits for nothing.
\<close>

datatype enqueue_phase = Waiting | Found "attempt list" | Ended enqueue_result

record job =
  j_fields :: enqueue_fields
  j_id :: string
  j_time :: ms
  j_prev :: "nat option"
  j_phase :: enqueue_phase

text \<open>The calls in the order they were made; a tail is the number of the call it waits for.\<close>

record 'c enq =
  e_store :: 'c
  e_jobs :: "job list"
  e_tails :: "string \<Rightarrow> nat option"

definition over :: "'c enq \<Rightarrow> nat \<Rightarrow> bool" where
  "over s n \<longleftrightarrow> (case j_phase (e_jobs s ! n) of Ended r \<Rightarrow> True | _ \<Rightarrow> False)"

definition code_of :: "'c enq \<Rightarrow> nat \<Rightarrow> string" where
  "code_of s n = f_code_id (j_fields (e_jobs s ! n))"

definition enqueue :: "bool \<Rightarrow> enqueue_fields \<Rightarrow> string \<Rightarrow> ms \<Rightarrow> 'c enq \<Rightarrow> 'c enq" where
  "enqueue serial f i t s =
     s\<lparr>e_jobs := e_jobs s @ [\<lparr>j_fields = f, j_id = i, j_time = t, j_prev = (if serial then e_tails s (f_code_id f) else None), j_phase = Waiting\<rparr>],
       e_tails := (if serial then (e_tails s)(f_code_id f \<mapsto> length (e_jobs s)) else e_tails s)\<rparr>"

definition set_phase :: "nat \<Rightarrow> enqueue_phase \<Rightarrow> 'c enq \<Rightarrow> 'c enq" where
  "set_phase n ph s = s\<lparr>e_jobs := (e_jobs s)[n := (e_jobs s ! n)\<lparr>j_phase := ph\<rparr>]\<rparr>"

definition ready :: "'c enq \<Rightarrow> nat \<Rightarrow> bool" where
  "ready s n \<longleftrightarrow> (case j_prev (e_jobs s ! n) of None \<Rightarrow> True | Some m \<Rightarrow> over s m)"

definition read_rows :: "'c queue \<Rightarrow> nat \<Rightarrow> 'c enq \<Rightarrow> 'c enq" where
  "read_rows rx n s = set_phase n (Found (rx_find rx (e_store s) (\<lambda>d. code_id d = code_of s n))) s"

definition finish_enqueue :: "'c queue \<Rightarrow> (ms \<Rightarrow> string) \<Rightarrow> nat \<Rightarrow> attempt list \<Rightarrow> 'c enq \<Rightarrow> 'c enq" where
  "finish_enqueue rx utc n existing s =
     (let j = e_jobs s ! n in case List.find (\<lambda>d. status d \<noteq> Rejected) existing of
        Some live \<Rightarrow> set_phase n (Ended (Deduped live)) s
      | None \<Rightarrow> (let doc = new_attempt utc (j_time j) (j_id j) (j_fields j) in
          case rx_insert rx (e_store s) doc of
            None \<Rightarrow> set_phase n (Ended Insert_Threw) s
          | Some q \<Rightarrow> set_phase n (Ended (Enqueued doc)) (s\<lparr>e_store := q\<rparr>)))"

definition forget_tail :: "nat \<Rightarrow> 'c enq \<Rightarrow> 'c enq" where
  "forget_tail n s = (if e_tails s (code_of s n) = Some n then s\<lparr>e_tails := (e_tails s)(code_of s n := None)\<rparr> else s)"

text \<open>What else writes the store, the push handler above all, never makes an attempt live that was not.\<close>

definition no_new_live :: "'c queue \<Rightarrow> 'c \<Rightarrow> 'c \<Rightarrow> bool" where
  "no_new_live rx q q' \<longleftrightarrow> (\<forall>i a. rx_findOne rx q' i = Some a \<longrightarrow> status a \<noteq> Rejected \<longrightarrow>
     (\<exists>b. rx_findOne rx q i = Some b \<and> status b \<noteq> Rejected \<and> code_id b = code_id a))"

inductive enq_step :: "'c queue \<Rightarrow> (ms \<Rightarrow> string) \<Rightarrow> bool \<Rightarrow> 'c enq \<Rightarrow> 'c enq \<Rightarrow> bool" for rx utc serial where
  Called: "enq_step rx utc serial s (enqueue serial f i t s)"
| Rows_Read: "n < length (e_jobs s) \<Longrightarrow> j_phase (e_jobs s ! n) = Waiting \<Longrightarrow> ready s n \<Longrightarrow> enq_step rx utc serial s (read_rows rx n s)"
| Finished: "n < length (e_jobs s) \<Longrightarrow> j_phase (e_jobs s ! n) = Found ex \<Longrightarrow> enq_step rx utc serial s (finish_enqueue rx utc n ex s)"
| Forgotten: "n < length (e_jobs s) \<Longrightarrow> over s n \<Longrightarrow> enq_step rx utc serial s (forget_tail n s)"
| Written: "no_new_live rx (e_store s) q \<Longrightarrow> enq_step rx utc serial s (s\<lparr>e_store := q\<rparr>)"

inductive enq_run :: "'c queue \<Rightarrow> (ms \<Rightarrow> string) \<Rightarrow> bool \<Rightarrow> 'c enq \<Rightarrow> 'c enq \<Rightarrow> bool" for rx utc serial where
  Stay: "enq_run rx utc serial s s"
| Go: "enq_run rx utc serial s t \<Longrightarrow> enq_step rx utc serial t u \<Longrightarrow> enq_run rx utc serial s u"

definition enq_init :: "'c \<Rightarrow> 'c enq" where
  "enq_init q = \<lparr>e_store = q, e_jobs = [], e_tails = (\<lambda>_. None)\<rparr>"

end
