(* ===== verification/SerialEnqueueProps.thy ===== *)
theory SerialEnqueueProps
  imports Complex_Main SerialEnqueue PushProps
begin

text \<open>
  The wrapper makes the two awaits of an enqueue one step per code: at most one live attempt, no call waits for ever, and what
  happens without it.
\<close>

section \<open>The chains\<close>

lemma phase_fields [simp]:
  "length (e_jobs (set_phase n ph s)) = length (e_jobs s)" "e_tails (set_phase n ph s) = e_tails s" "e_store (set_phase n ph s) = e_store s"
  by (simp_all add: set_phase_def)

lemma phase_job:
  "m < length (e_jobs s) \<Longrightarrow> e_jobs (set_phase n ph s) ! m = (if m = n then (e_jobs s ! n)\<lparr>j_phase := ph\<rparr> else e_jobs s ! m)"
  by (auto simp: set_phase_def nth_list_update)

lemma phase_code [simp]: "m < length (e_jobs s) \<Longrightarrow> code_of (set_phase n ph s) m = code_of s m"
  by (simp add: code_of_def phase_job)

lemma phase_over: "m < length (e_jobs s) \<Longrightarrow> over (set_phase n ph s) m = (if m = n then (\<exists>r. ph = Ended r) else over s m)"
  by (cases ph) (auto simp: over_def phase_job split: enqueue_phase.split)

definition done_before :: "'c enq \<Rightarrow> nat \<Rightarrow> bool" where
  "done_before s n \<longleftrightarrow> (\<forall>m < n. code_of s m = code_of s n \<longrightarrow> over s m)"

text \<open>A call that has started follows only ended calls of its code; a call waits for the one of its code before it; the tail of a code is
  its last call, or all have ended.\<close>

definition chained :: "'c enq \<Rightarrow> bool" where
  "chained s \<longleftrightarrow> (\<forall>n < length (e_jobs s).
       (j_phase (e_jobs s ! n) \<noteq> Waiting \<longrightarrow> done_before s n)
     \<and> (case j_prev (e_jobs s ! n) of None \<Rightarrow> done_before s n
        | Some m \<Rightarrow> m < n \<and> code_of s m = code_of s n \<and> (\<forall>l. m < l \<and> l < n \<longrightarrow> code_of s l \<noteq> code_of s n)))
   \<and> (\<forall>k. case e_tails s k of None \<Rightarrow> (\<forall>n < length (e_jobs s). code_of s n = k \<longrightarrow> over s n)
        | Some m \<Rightarrow> m < length (e_jobs s) \<and> code_of s m = k \<and> (\<forall>l. m < l \<and> l < length (e_jobs s) \<longrightarrow> code_of s l \<noteq> k))"

lemma chained_job:
  assumes "chained s" and "n < length (e_jobs s)"
  shows "j_phase (e_jobs s ! n) \<noteq> Waiting \<Longrightarrow> done_before s n"
    and "j_prev (e_jobs s ! n) = None \<Longrightarrow> done_before s n"
    and "j_prev (e_jobs s ! n) = Some m \<Longrightarrow> m < n \<and> code_of s m = code_of s n \<and> (\<forall>l. m < l \<and> l < n \<longrightarrow> code_of s l \<noteq> code_of s n)"
  using assms unfolding chained_def by (auto split: option.splits)

lemma ready_done_before: "chained s \<Longrightarrow> n < length (e_jobs s) \<Longrightarrow> ready s n \<Longrightarrow> done_before s n"
proof (cases "j_prev (e_jobs s ! n)")
  case (Some m)
  assume c: "chained s" "n < length (e_jobs s)" and "ready s n"
  then have o: "over s m" using Some by (simp add: ready_def)
  have m: "m < n" "code_of s m = code_of s n" "\<forall>l. m < l \<and> l < n \<longrightarrow> code_of s l \<noteq> code_of s n" using chained_job(3) [OF c Some] by auto
  have "j_phase (e_jobs s ! m) \<noteq> Waiting" using o by (auto simp: over_def)
  then have "done_before s m" using chained_job(1) c m(1) by (meson less_trans)
  then show ?thesis using m o unfolding done_before_def by (metis linorder_neqE_nat)
qed (use chained_job(2) in blast)

text \<open>A call moves on.\<close>

lemma done_before_phase:
  assumes "n < length (e_jobs s)" and "m < length (e_jobs s)" and "over s m \<Longrightarrow> \<exists>r. ph = Ended r"
  shows "done_before s n \<Longrightarrow> done_before (set_phase m ph s) n"
  using assms by (auto simp: done_before_def phase_over)

lemma chained_phase:
  assumes c: "chained s" and m: "m < length (e_jobs s)" and o: "\<not> over s m" and b: "done_before s m"
  shows "chained (set_phase m ph s)"
proof -
  let ?s = "set_phase m ph s"
  have keep: "done_before s n \<Longrightarrow> done_before ?s n" if "n < length (e_jobs s)" for n
    by (rule done_before_phase [OF that m]) (use o in simp_all)
  have "(j_phase (e_jobs ?s ! n) \<noteq> Waiting \<longrightarrow> done_before ?s n)
     \<and> (case j_prev (e_jobs ?s ! n) of None \<Rightarrow> done_before ?s n
        | Some l \<Rightarrow> l < n \<and> code_of ?s l = code_of ?s n \<and> (\<forall>k. l < k \<and> k < n \<longrightarrow> code_of ?s k \<noteq> code_of ?s n))"
    if n: "n < length (e_jobs s)" for n
  proof -
    have "j_phase (e_jobs ?s ! n) \<noteq> Waiting \<Longrightarrow> done_before s n" using b chained_job(1) [OF c n] n by (cases "n = m") (simp_all add: phase_job)
    moreover have p: "j_prev (e_jobs ?s ! n) = j_prev (e_jobs s ! n)" using n by (simp add: phase_job)
    ultimately show ?thesis using keep [OF n] chained_job(2,3) [OF c n] n unfolding p by (auto split: option.split)
  qed
  moreover have "case e_tails ?s k of None \<Rightarrow> (\<forall>n < length (e_jobs ?s). code_of ?s n = k \<longrightarrow> over ?s n)
        | Some l \<Rightarrow> l < length (e_jobs ?s) \<and> code_of ?s l = k \<and> (\<forall>j. l < j \<and> j < length (e_jobs ?s) \<longrightarrow> code_of ?s j \<noteq> k)" for k
  proof -
    have t: "case e_tails s k of None \<Rightarrow> (\<forall>n < length (e_jobs s). code_of s n = k \<longrightarrow> over s n)
        | Some l \<Rightarrow> l < length (e_jobs s) \<and> code_of s l = k \<and> (\<forall>j. l < j \<and> j < length (e_jobs s) \<longrightarrow> code_of s j \<noteq> k)"
      using c unfolding chained_def by blast
    show ?thesis
    proof (cases "e_tails s k")
      case None
      then have "code_of s m \<noteq> k" using t m o by auto
      then show ?thesis using None t by (auto simp: phase_over)
    qed (use t in auto)
  qed
  ultimately show ?thesis unfolding chained_def by simp
qed

lemma store_fields [simp]:
  "code_of (s\<lparr>e_store := q\<rparr>) = code_of s" "over (s\<lparr>e_store := q\<rparr>) = over s" "done_before (s\<lparr>e_store := q\<rparr>) = done_before s"
  by (simp_all add: fun_eq_iff done_before_def code_of_def over_def)

lemma chained_store [simp]: "chained (s\<lparr>e_store := q\<rparr>) = chained s"
  by (simp add: chained_def cong: option.case_cong)

lemma chained_enqueue: "chained s \<Longrightarrow> chained (enqueue True f i t s)"
proof -
  assume c: "chained s"
  let ?n = "length (e_jobs s)" and ?s = "enqueue True f i t s"
  have old: "e_jobs ?s ! m = e_jobs s ! m" if "m < ?n" for m using that by (simp add: enqueue_def nth_append)
  have len: "length (e_jobs ?s) = Suc ?n" by (simp add: enqueue_def)
  have new: "j_phase (e_jobs ?s ! ?n) = Waiting" "j_prev (e_jobs ?s ! ?n) = e_tails s (f_code_id f)" "code_of ?s ?n = f_code_id f"
    by (simp_all add: enqueue_def code_of_def)
  have code: "code_of ?s m = code_of s m" and ov: "over ?s m = over s m" if "m < ?n" for m using old [OF that] by (simp_all add: code_of_def over_def)
  have db: "done_before ?s m = done_before s m" if "m < ?n" for m using that code ov by (simp add: done_before_def)
  have t: "case e_tails s k of None \<Rightarrow> (\<forall>n < ?n. code_of s n = k \<longrightarrow> over s n)
      | Some l \<Rightarrow> l < ?n \<and> code_of s l = k \<and> (\<forall>j. l < j \<and> j < ?n \<longrightarrow> code_of s j \<noteq> k)" for k
    using c unfolding chained_def by blast
  have "(j_phase (e_jobs ?s ! n) \<noteq> Waiting \<longrightarrow> done_before ?s n)
     \<and> (case j_prev (e_jobs ?s ! n) of None \<Rightarrow> done_before ?s n
        | Some l \<Rightarrow> l < n \<and> code_of ?s l = code_of ?s n \<and> (\<forall>k. l < k \<and> k < n \<longrightarrow> code_of ?s k \<noteq> code_of ?s n))"
    if n: "n < Suc ?n" for n
  proof (cases "n = ?n")
    case True
    show ?thesis unfolding True new using t [of "f_code_id f"] code ov by (auto simp: done_before_def new(3) split: option.split)
  next
    case False
    then have m: "n < ?n" using n by simp
    show ?thesis unfolding old [OF m] using chained_job [OF c m] db [OF m] code m by (auto split: option.split)
  qed
  moreover have "case e_tails ?s k of None \<Rightarrow> (\<forall>n < Suc ?n. code_of ?s n = k \<longrightarrow> over ?s n)
        | Some l \<Rightarrow> l < Suc ?n \<and> code_of ?s l = k \<and> (\<forall>j. l < j \<and> j < Suc ?n \<longrightarrow> code_of ?s j \<noteq> k)" for k
  proof (cases "k = f_code_id f")
    case True
    then have "e_tails ?s k = Some ?n" by (simp add: enqueue_def)
    then show ?thesis using new(3) True by auto
  next
    case False
    then have e: "e_tails ?s k = e_tails s k" by (simp add: enqueue_def)
    show ?thesis unfolding e using t [of k] code ov new(3) False by (auto simp: less_Suc_eq split: option.splits)
  qed
  ultimately show ?thesis unfolding chained_def len by blast
qed

lemma chained_forget: "chained s \<Longrightarrow> n < length (e_jobs s) \<Longrightarrow> over s n \<Longrightarrow> chained (forget_tail n s)"
proof (cases "e_tails s (code_of s n) = Some n")
  case True
  assume c: "chained s" and n: "n < length (e_jobs s)" and o: "over s n"
  have last: "\<forall>l. n < l \<and> l < length (e_jobs s) \<longrightarrow> code_of s l \<noteq> code_of s n" using c True unfolding chained_def by (auto dest!: spec [of _ "code_of s n"])
  have "j_phase (e_jobs s ! n) \<noteq> Waiting" using o by (auto simp: over_def)
  then have "done_before s n" by (rule chained_job(1) [OF c n])
  then have all: "\<forall>m < length (e_jobs s). code_of s m = code_of s n \<longrightarrow> over s m"
    using last o unfolding done_before_def by (metis linorder_neqE_nat)
  have same: "code_of (forget_tail n s) = code_of s" "over (forget_tail n s) = over s" "e_jobs (forget_tail n s) = e_jobs s"
    by (auto simp: forget_tail_def code_of_def over_def)
  have d: "done_before (forget_tail n s) = done_before s" by (simp add: done_before_def same fun_eq_iff)
  have e: "e_tails (forget_tail n s) = (e_tails s)(code_of s n := None)" using True by (simp add: forget_tail_def)
  show ?thesis using c all unfolding chained_def same d e by auto
qed (simp add: forget_tail_def)

section \<open>One live attempt\<close>

definition live_code :: "'c queue \<Rightarrow> 'c \<Rightarrow> string \<Rightarrow> bool" where
  "live_code rx q k \<longleftrightarrow> (\<exists>i a. rx_findOne rx q i = Some a \<and> status a \<noteq> Rejected \<and> code_id a = k)"

definition single :: "'c queue \<Rightarrow> 'c \<Rightarrow> bool" where
  "single rx q \<longleftrightarrow> (\<forall>i j a b. rx_findOne rx q i = Some a \<and> rx_findOne rx q j = Some b \<and> code_id a = code_id b
     \<and> status a \<noteq> Rejected \<and> status b \<noteq> Rejected \<longrightarrow> i = j)"

text \<open>A call that found no live row still would find none.\<close>

definition true_reads :: "'c queue \<Rightarrow> 'c enq \<Rightarrow> bool" where
  "true_reads rx s \<longleftrightarrow> (\<forall>n ex. n < length (e_jobs s) \<longrightarrow> j_phase (e_jobs s ! n) = Found ex \<longrightarrow> (\<forall>d \<in> set ex. status d = Rejected) \<longrightarrow>
     \<not> live_code rx (e_store s) (code_of s n))"

definition serialized :: "'c queue \<Rightarrow> 'c enq \<Rightarrow> bool" where
  "serialized rx s \<longleftrightarrow> chained s \<and> single rx (e_store s) \<and> true_reads rx s"

lemma find_rejected: "List.find (\<lambda>d. status d \<noteq> Rejected) ds = None \<longleftrightarrow> (\<forall>d \<in> set ds. status d = Rejected)"
  by (auto simp: find_None_iff)

lemma no_new_live_code: "no_new_live rx q q' \<Longrightarrow> live_code rx q' k \<Longrightarrow> live_code rx q k"
  by (fastforce simp: no_new_live_def live_code_def)

lemma single_mono: "no_new_live rx q q' \<Longrightarrow> single rx q \<Longrightarrow> single rx q'"
  unfolding single_def no_new_live_def by metis

context attempt_queue
begin

lemma read_true: "true_reads rx s \<Longrightarrow> n < length (e_jobs s) \<Longrightarrow> true_reads rx (read_rows rx n s)"
  using find_set [of "e_store s"] found_id
  by (auto simp: true_reads_def read_rows_def phase_job live_code_def key_a_id split: if_splits)

lemma inserted:
  assumes "rx_insert rx q d = Some q'" and "status d = Pending"
  shows "live_code rx q' k \<Longrightarrow> k = code_id d \<or> live_code rx q k"
    and "\<not> live_code rx q (code_id d) \<Longrightarrow> single rx q \<Longrightarrow> single rx q'"
proof -
  have f: "rx_findOne rx q' j = (if j = a_id d then Some d else rx_findOne rx q j)" for j
    using insert_findOne [OF assms(1)] by (simp add: key_a_id)
  show "live_code rx q' k \<Longrightarrow> k = code_id d \<or> live_code rx q k" unfolding live_code_def f by (auto split: if_splits)
  assume "\<not> live_code rx q (code_id d)" "single rx q"
  then show "single rx q'" unfolding single_def live_code_def f by (auto split: if_splits) metis+
qed

lemma serialized_step: "enq_step rx utc True s t \<Longrightarrow> serialized rx s \<Longrightarrow> serialized rx t"
proof (induction rule: enq_step.induct)
  case (Called s f i t)
  have "true_reads rx (enqueue True f i t s)" using Called by (auto simp: serialized_def true_reads_def enqueue_def nth_append code_of_def less_Suc_eq)
  moreover have "e_store (enqueue True f i t s) = e_store s" by (simp add: enqueue_def)
  ultimately show ?case using Called chained_enqueue [of s f i t] by (simp add: serialized_def)
next
  case (Rows_Read n s)
  then have "chained (read_rows rx n s)" unfolding read_rows_def
    by (intro chained_phase ready_done_before) (auto simp: serialized_def over_def)
  then show ?case using Rows_Read read_true by (simp add: serialized_def) (simp add: read_rows_def)
next
  case (Finished n s ex)
  have c: "chained s" "single rx (e_store s)" "true_reads rx s" using Finished by (simp_all add: serialized_def)
  have before: "done_before s n" by (rule chained_job(1) [OF c(1) Finished(1)]) (simp add: Finished(2))
  have open_n: "\<not> over s n" using Finished(2) by (simp add: over_def)
  have end_n: "serialized rx (set_phase n (Ended r) s)" for r
    using chained_phase [OF c(1) Finished(1) open_n before] c(2,3) by (auto simp: serialized_def true_reads_def phase_job split: if_splits)
  show ?case
  proof (cases "List.find (\<lambda>d. status d \<noteq> Rejected) ex")
    case None
    define doc where "doc = new_attempt utc (j_time (e_jobs s ! n)) (j_id (e_jobs s ! n)) (j_fields (e_jobs s ! n))"
    have doc: "status doc = Pending" "code_id doc = code_of s n" by (simp_all add: doc_def new_attempt_def code_of_def)
    have free: "\<not> live_code rx (e_store s) (code_of s n)" using c(3) Finished(1,2) None unfolding true_reads_def find_rejected by blast
    show ?thesis
    proof (cases "rx_insert rx (e_store s) doc")
      case None
      then show ?thesis using end_n \<open>List.find _ ex = None\<close> by (simp add: finish_enqueue_def Let_def doc_def [symmetric])
    next
      case (Some q)
      let ?t = "set_phase n (Ended (Enqueued doc)) (s\<lparr>e_store := q\<rparr>)"
      have others: "code_of s m \<noteq> code_of s n" if m: "m < length (e_jobs s)" "m \<noteq> n" "j_phase (e_jobs s ! m) = Found ey" for m ey
      proof
        assume same: "code_of s m = code_of s n"
        have "\<not> over s m" using m(3) by (simp add: over_def)
        moreover have "done_before s m" by (rule chained_job(1) [OF c(1) m(1)]) (simp add: m(3))
        ultimately show False using before same open_n m(2) unfolding done_before_def by (metis linorder_neqE_nat)
      qed
      have "chained ?t" by (rule chained_phase) (use c(1) Finished(1) open_n before in \<open>simp_all add: over_def done_before_def code_of_def\<close>)
      moreover have "single rx q" using inserted(2) [OF Some doc(1)] free c(2) doc(2) by simp
      moreover have "true_reads rx ?t"
        unfolding true_reads_def
      proof (intro allI impI)
        fix m ey
        assume m: "m < length (e_jobs ?t)" "j_phase (e_jobs ?t ! m) = Found ey" and r: "\<forall>d \<in> set ey. status d = Rejected"
        have mn: "m \<noteq> n" "j_phase (e_jobs s ! m) = Found ey" "m < length (e_jobs s)" using m by (auto simp: phase_job split: if_splits)
        have "\<not> live_code rx (e_store s) (code_of s m)" using c(3) mn(2,3) r unfolding true_reads_def by blast
        then have "\<not> live_code rx q (code_of s m)" using inserted(1) [OF Some doc(1)] others [OF mn(3,1,2)] doc(2) by auto
        then show "\<not> live_code rx (e_store ?t) (code_of ?t m)" using mn(3) by simp
      qed
      ultimately show ?thesis using Some \<open>List.find _ ex = None\<close> by (simp add: finish_enqueue_def Let_def doc_def [symmetric] serialized_def)
    qed
  next
    case (Some d)
    then show ?thesis using end_n by (simp add: finish_enqueue_def Let_def)
  qed
next
  case (Forgotten n s)
  have "true_reads rx (forget_tail n s) = true_reads rx s" "e_store (forget_tail n s) = e_store s"
    by (auto simp: forget_tail_def true_reads_def code_of_def)
  then show ?case using Forgotten chained_forget [of s n] by (simp add: serialized_def)
next
  case (Written s q)
  then show ?case using single_mono no_new_live_code by (fastforce simp: serialized_def true_reads_def code_of_def)
qed

lemma serialized_run: "enq_run rx utc True s t \<Longrightarrow> serialized rx s \<Longrightarrow> serialized rx t"
  by (induction rule: enq_run.induct) (simp_all add: serialized_step)

lemma serialized_init: "single rx q \<Longrightarrow> serialized rx (enq_init q)"
  by (simp add: serialized_def chained_def true_reads_def enq_init_def)

end

text \<open>C10: through the wrapper a code has at most one live attempt. Whatever calls are made while others are under way, in whatever order their
  rows are read and their inserts land, and whatever else settles rows of the store meanwhile, two live attempts for one code are
  the same row, if that held before the first call.\<close>
theorem serialized_enqueue_single:
  assumes "attempt_queue rx" and "enq_run rx utc True (enq_init q) s" and "single rx q"
    and "rx_findOne rx (e_store s) i = Some a" and "rx_findOne rx (e_store s) j = Some b" and "code_id a = code_id b"
    and "status a \<noteq> Rejected" and "status b \<noteq> Rejected"
  shows "i = j"
  using attempt_queue.serialized_run [OF assms(1,2) attempt_queue.serialized_init [OF assms(1,3)]] assms(4-8)
  unfolding serialized_def single_def by blast


definition order_fields :: "string \<Rightarrow> enqueue_fields" where
  "order_fields k = \<lparr>f_code_id = k, f_device_id = ''dev'', f_offline_override = None, f_override_by = None, f_unverified_code = None,
     f_policy_unresolved = None, f_pos_order_number = None, f_redeemed_value = None, f_pos_business_date = None\<rparr>"

definition order_attempt :: "string \<Rightarrow> attempt" where
  "order_attempt i = new_attempt (\<lambda>_. ''d'') 0 i (order_fields ''c'')"

abbreviation attempts_rx :: "attempt list queue" where "attempts_rx \<equiv> list_store a_id"

lemma calls_made:
  "enq_run attempts_rx utc b (enq_init []) (enqueue b (order_fields ''c'') ''y'' 0 (enqueue b (order_fields ''c'') ''x'' 0 (enq_init [])))"
  by (rule enq_run.Go [OF enq_run.Go [OF enq_run.Stay enq_step.Called] enq_step.Called])

theorem serialized_enqueue_single_witness:
  "\<exists>s a. enq_run attempts_rx (\<lambda>_. ''d'') True (enq_init []) s \<and> length (e_jobs s) = 2 \<and> rx_findOne attempts_rx (e_store s) ''x'' = Some a
    \<and> status a = Pending \<and> (rx_findOne attempts_rx (e_store s) ''y'' = Some a \<longleftrightarrow> False)"
proof -
  define s0 where "s0 = enqueue True (order_fields ''c'') ''y'' 0 (enqueue True (order_fields ''c'') ''x'' 0 (enq_init ([] :: attempt list)))"
  define s1 where "s1 = read_rows attempts_rx 0 s0"
  define s2 where "s2 = finish_enqueue attempts_rx (\<lambda>_. ''d'') 0 [] s1"
  have run: "enq_run attempts_rx (\<lambda>_. ''d'') True (enq_init []) s0" unfolding s0_def by (rule calls_made)
  have st: "length (e_jobs s0) = 2" "j_phase (e_jobs s0 ! 0) = Waiting" "ready s0 0" "e_store s0 = []"
    by (simp_all add: s0_def enqueue_def enq_init_def ready_def)
  have r: "rx_find attempts_rx [] P = []" for P by (simp add: list_store_def)
  have s1: "j_phase (e_jobs s1 ! 0) = Found []" "length (e_jobs s1) = 2" "e_store s1 = []"
    using st by (simp_all add: s1_def read_rows_def phase_job r)
  have j: "e_jobs s1 ! 0 = \<lparr>j_fields = order_fields ''c'', j_id = ''x'', j_time = 0, j_prev = None, j_phase = Found []\<rparr>"
    using st by (simp add: s1_def read_rows_def phase_job r s0_def enqueue_def enq_init_def)
  have ins: "rx_insert attempts_rx [] d = Some [d]" for d by (simp add: list_store_def list_findOne_def)
  have s2: "e_store s2 = [order_attempt ''x'']" "length (e_jobs s2) = 2"
    using s1 by (simp_all add: s2_def finish_enqueue_def j ins order_attempt_def Let_def)
  have "enq_run attempts_rx (\<lambda>_. ''d'') True (enq_init []) s1" unfolding s1_def
    by (rule enq_run.Go [OF run enq_step.Rows_Read]) (use st in simp_all)
  then have "enq_run attempts_rx (\<lambda>_. ''d'') True (enq_init []) s2" unfolding s2_def
    by (rule enq_run.Go [OF _ enq_step.Finished]) (use s1 in simp_all)
  moreover have x: "rx_findOne attempts_rx (e_store s2) ''x'' = Some (order_attempt ''x'')" "status (order_attempt ''x'') = Pending"
    by (simp_all add: s2 list_store_def list_findOne_def order_attempt_def new_attempt_def)
  moreover have "rx_findOne attempts_rx (e_store s2) ''y'' \<noteq> Some (order_attempt ''x'')"
  proof
    assume y: "rx_findOne attempts_rx (e_store s2) ''y'' = Some (order_attempt ''x'')"
    have "single attempts_rx []" by (simp add: single_def list_store_def list_findOne_def)
    from serialized_enqueue_single [OF attempt_store.attempt_queue_axioms \<open>enq_run _ _ True _ s2\<close> this x(1) y] x(2) show False by simp
  qed
  ultimately show ?thesis using s2(2) by blast
qed

section \<open>Every call ends\<close>

text \<open>no call through the wrapper waits for ever. In every run, if a call has not ended, then it or an earlier call of its code can take
  its next step, whichever calls failed before.\<close>
theorem serialized_call_not_stuck:
  assumes "attempt_queue rx" and "enq_run rx utc True (enq_init q) s" and "single rx q" and "n < length (e_jobs s)" and "\<not> over s n"
  shows "\<exists>m \<le> n. code_of s m = code_of s n \<and> \<not> over s m \<and> (j_phase (e_jobs s ! m) = Waiting \<and> ready s m \<or> (\<exists>ex. j_phase (e_jobs s ! m) = Found ex))"
proof -
  have c: "chained s"
    using attempt_queue.serialized_run [OF assms(1,2) attempt_queue.serialized_init [OF assms(1,3)]] by (simp add: serialized_def)
  define m where "m = (LEAST m. code_of s m = code_of s n \<and> \<not> over s m)"
  have m: "code_of s m = code_of s n" "\<not> over s m" unfolding m_def using LeastI [of "\<lambda>m. code_of s m = code_of s n \<and> \<not> over s m" n] assms(5) by auto
  have le: "m \<le> n" unfolding m_def by (rule Least_le) (simp add: assms(5))
  have first: "over s l" if "l < m" "code_of s l = code_of s n" for l using not_less_Least [of l] that unfolding m_def by blast
  have "ready s m"
  proof (cases "j_prev (e_jobs s ! m)")
    case (Some l)
    have "m < length (e_jobs s)" using le assms(4) by simp
    from chained_job(3) [OF c this Some] first m(1) Some show ?thesis by (simp add: ready_def)
  qed (simp add: ready_def)
  then show ?thesis using le m by (intro exI [of _ m]) (cases "j_phase (e_jobs s ! m)"; auto simp: over_def)
qed

theorem serialized_call_not_stuck_witness:
  "\<exists>m \<le> 1. j_phase (e_jobs (enqueue True (order_fields ''c'') ''y'' 0 (enqueue True (order_fields ''c'') ''x'' 0 (enq_init ([] :: attempt list)))) ! m) = Waiting"
proof -
  define s0 where "s0 = enqueue True (order_fields ''c'') ''y'' 0 (enqueue True (order_fields ''c'') ''x'' 0 (enq_init ([] :: attempt list)))"
  have "single attempts_rx []" by (simp add: single_def list_store_def list_findOne_def)
  moreover have "1 < length (e_jobs s0)" "\<not> over s0 1" by (simp_all add: s0_def enqueue_def enq_init_def over_def)
  moreover have "j_phase (e_jobs s0 ! m) = Waiting" if "m \<le> 1" for m
    using that by (cases m) (simp_all add: s0_def enqueue_def enq_init_def)
  ultimately show ?thesis
    using serialized_call_not_stuck [OF attempt_store.attempt_queue_axioms calls_made [of "\<lambda>_. ''d''" True, folded s0_def], of 1]
    unfolding s0_def [symmetric] by blast
qed

section \<open>The wrapper and the function\<close>

text \<open>Reading and inserting without a step between is \<open>enqueueAttempt\<close>.\<close>

lemma read_finish_is_enqueue:
  assumes "n < length (e_jobs s)" and "j = e_jobs s ! n"
    and "enqueueAttempt rx utc (j_time j) (j_id j) (j_fields j) (e_store s) = (q, r)"
  shows "\<exists>ex. j_phase (e_jobs (read_rows rx n s) ! n) = Found ex \<and> e_store (finish_enqueue rx utc n ex (read_rows rx n s)) = q
    \<and> j_phase (e_jobs (finish_enqueue rx utc n ex (read_rows rx n s)) ! n) = Ended r"
  using assms
  by (auto simp: enqueueAttempt_def read_rows_def finish_enqueue_def phase_job code_of_def Let_def set_phase_def split: option.splits)

text \<open>Without the wrapper two calls both read before either inserts.\<close>

lemma raw_enqueue_duplicates:
  "\<exists>s. enq_run attempts_rx (\<lambda>_. ''d'') False (enq_init []) s \<and> e_store s = [order_attempt ''y'', order_attempt ''x''] \<and> \<not> single attempts_rx (e_store s)"
proof -
  define s0 where "s0 = enqueue False (order_fields ''c'') ''y'' 0 (enqueue False (order_fields ''c'') ''x'' 0 (enq_init ([] :: attempt list)))"
  define s1 where "s1 = read_rows attempts_rx 0 s0"
  define s2 where "s2 = read_rows attempts_rx 1 s1"
  define s3 where "s3 = finish_enqueue attempts_rx (\<lambda>_. ''d'') 0 [] s2"
  define s4 where "s4 = finish_enqueue attempts_rx (\<lambda>_. ''d'') 1 [] s3"
  have r: "rx_find attempts_rx [] P = []" for P by (simp add: list_store_def)
  have ins: "rx_insert attempts_rx [] d = Some [d]" "a_id d \<noteq> a_id e \<Longrightarrow> rx_insert attempts_rx [d] e = Some [e, d]" for d e
    by (simp_all add: list_store_def list_findOne_def)
  have js: "e_jobs s2 = [\<lparr>j_fields = order_fields ''c'', j_id = ''x'', j_time = 0, j_prev = None, j_phase = Found []\<rparr>,
      \<lparr>j_fields = order_fields ''c'', j_id = ''y'', j_time = 0, j_prev = None, j_phase = Found []\<rparr>]" "e_store s2 = []"
    by (simp_all add: s2_def s1_def s0_def read_rows_def enqueue_def enq_init_def set_phase_def r)
  have id: "a_id (order_attempt i) = i" for i by (simp add: order_attempt_def new_attempt_def)
  have s3: "e_store s3 = [order_attempt ''x'']" "e_jobs s3 ! Suc 0 = \<lparr>j_fields = order_fields ''c'', j_id = ''y'', j_time = 0, j_prev = None, j_phase = Found []\<rparr>" "length (e_jobs s3) = 2"
    by (simp_all add: s3_def finish_enqueue_def js ins order_attempt_def set_phase_def Let_def)
  have s4: "e_store s4 = [order_attempt ''y'', order_attempt ''x'']"
    using ins(2) [of "order_attempt ''x''" "order_attempt ''y''"] by (simp add: s4_def finish_enqueue_def s3 js id order_attempt_def [symmetric] Let_def)
  have "enq_run attempts_rx (\<lambda>_. ''d'') False (enq_init []) s1" unfolding s1_def s0_def
    by (intro enq_run.Go [OF calls_made] enq_step.Rows_Read) (simp_all add: enqueue_def enq_init_def ready_def)
  then have "enq_run attempts_rx (\<lambda>_. ''d'') False (enq_init []) s2" unfolding s2_def
    by (rule enq_run.Go [OF _ enq_step.Rows_Read]) (simp_all add: s1_def s0_def read_rows_def enqueue_def enq_init_def set_phase_def ready_def)
  then have "enq_run attempts_rx (\<lambda>_. ''d'') False (enq_init []) s3" unfolding s3_def by (rule enq_run.Go [OF _ enq_step.Finished]) (simp_all add: js)
  then have "enq_run attempts_rx (\<lambda>_. ''d'') False (enq_init []) s4" unfolding s4_def by (rule enq_run.Go [OF _ enq_step.Finished]) (simp_all add: s3 js)
  moreover have "\<not> single attempts_rx (e_store s4)"
  proof
    assume "single attempts_rx (e_store s4)"
    moreover have "rx_findOne attempts_rx (e_store s4) i = Some (order_attempt i)" if "i = ''x'' \<or> i = ''y''" for i
      using that by (auto simp: s4 list_store_def list_findOne_def id)
    moreover have "status (order_attempt i) = Pending" "code_id (order_attempt i) = ''c''" for i by (simp_all add: order_attempt_def new_attempt_def order_fields_def)
    ultimately have "''x'' = ''y''" unfolding single_def by (metis attempt_status.distinct(3))
    then show False by simp
  qed
  ultimately show ?thesis using s4 by blast
qed

end
