(* ===== verification/SubmitKeys.thy ===== *)
theory SubmitKeys
  imports Complex_Main OpQueue
begin

text \<open>
  Submitting a checklist, \<open>submitChecklistToAPI\<close> of \<^verbatim>\<open>workflows.html\<close> with its look into the offline queue for a key to reuse. A press is
  cut at the answer of the server; drains of the queue and other presses come between. \<open>m_posts\<close> are the posts not yet answered and
  \<open>m_made\<close> lists the presses, for the statements. The look into the queue and the post are one step, and the write of
  \<open>enqueueSubmission\<close> succeeds.
\<close>

definition isCurrentPeriodEntry :: "string \<Rightarrow> entry \<Rightarrow> bool" where
  "isCurrentPeriodEntry today e \<longleftrightarrow> q_period e = Some today"

text \<open>\<open>store\<close> is \<open>None\<close> when the database cannot be read.\<close>

definition findQueuedSubmission :: "string \<Rightarrow> string \<Rightarrow> entry list option \<Rightarrow> entry option" where
  "findQueuedSubmission today tplId store = (case store of None \<Rightarrow> None
     | Some es \<Rightarrow> List.find (\<lambda>e. q_template e = tplId \<and> q_key e \<noteq> [] \<and> isCurrentPeriodEntry today e) es)"

record press_made =
  x_key :: string
  x_template :: string
  x_period :: string

record submitter =
  m_queue :: queue
  m_posts :: "entry list"
  m_made :: "press_made list"

definition submitter_init :: submitter where
  "submitter_init = \<lparr>m_queue = empty_queue, m_posts = [], m_made = []\<rparr>"

definition submitPayload :: "string \<Rightarrow> string \<Rightarrow> string \<Rightarrow> string \<Rightarrow> json \<Rightarrow> entry list option \<Rightarrow> entry" where
  "submitPayload today tplId i fresh responses store =
     \<lparr>q_id = i, q_template = tplId, q_key = (case findQueuedSubmission today tplId store of None \<Rightarrow> fresh | Some e \<Rightarrow> q_key e),
      q_responses = responses, q_queuedAt = None, q_period = None\<rparr>"

definition submit_pressed :: "string \<Rightarrow> string \<Rightarrow> string \<Rightarrow> string \<Rightarrow> json \<Rightarrow> bool \<Rightarrow> submitter \<Rightarrow> submitter" where
  "submit_pressed today tplId i fresh responses readable s =
     (let e = submitPayload today tplId i fresh responses (if readable then Some (q_store (m_queue s)) else None)
      in s\<lparr>m_posts := m_posts s @ [e], m_made := m_made s @ [\<lparr>x_key = q_key e, x_template = tplId, x_period = today\<rparr>]\<rparr>)"

text \<open>The post is answered; a failure while offline queues the payload under the period it is by then.\<close>

definition submit_answered :: "nat \<Rightarrow> http option \<Rightarrow> bool \<Rightarrow> string \<Rightarrow> string \<Rightarrow> submitter \<Rightarrow> submitter" where
  "submit_answered k r online now today s =
     (if k < length (m_posts s)
      then let e = m_posts s ! k; s1 = s\<lparr>m_posts := take k (m_posts s) @ drop (Suc k) (m_posts s)\<rparr> in
        (case api r of Inr v \<Rightarrow> s1 | Inl x \<Rightarrow> if online then s1 else s1\<lparr>m_queue := enqueueSubmission now today e (m_queue s1)\<rparr>)
      else s)"

datatype submit_event =
    Pressed string string string string json bool
  | Post_Answered nat "http option" bool string string
  | Queue_Drain | Queue_Loaded bool | Queue_Answered "http option" bool | Queue_Online bool

definition submit_step :: "submitter \<Rightarrow> submit_event \<Rightarrow> submitter" where
  "submit_step s ev = (case ev of
     Pressed today tplId i fresh responses readable \<Rightarrow> submit_pressed today tplId i fresh responses readable s
   | Post_Answered k r online now today \<Rightarrow> submit_answered k r online now today s
   | Queue_Drain \<Rightarrow> s\<lparr>m_queue := queue_step (m_queue s) Drain\<rparr>
   | Queue_Loaded ok \<Rightarrow> s\<lparr>m_queue := queue_step (m_queue s) (Loaded ok)\<rparr>
   | Queue_Answered r deleted \<Rightarrow> s\<lparr>m_queue := queue_step (m_queue s) (Answered r deleted)\<rparr>
   | Queue_Online b \<Rightarrow> s\<lparr>m_queue := queue_step (m_queue s) (Online b)\<rparr>)"

definition submit_run :: "submitter \<Rightarrow> submit_event list \<Rightarrow> submitter" where
  "submit_run s evs = foldl submit_step s evs"

end
