(* ===== verification/SubmitKeysProps.thy ===== *)
theory SubmitKeysProps
  imports Complex_Main SubmitKeys OpQueueProps
begin

text \<open>
  The keys of submissions: within a period a checklist that waits in the queue lends its key, and no key ever joins two checklists or
  two days, as long as no press is answered on another day than it was made.
\<close>

section \<open>Where a key comes from\<close>

lemma find_some: "List.find P xs = Some x \<Longrightarrow> x \<in> set xs \<and> P x"
  by (induction xs) (auto split: if_splits)

lemma drain_shrinks: "\<forall>e p n. ev \<noteq> Queued n p e \<Longrightarrow> set (q_store (queue_step q ev)) \<subseteq> set (q_store q)"
  by (cases ev)
    (auto simp: drain_start_def drain_loaded_def drain_end_def drain_answer_def Let_def idb_delete_def split: list.split sum.split if_splits)

text \<open>Every post and every queued entry is of a press with its key, its checklist and, when queued, its period.\<close>

definition pressed_as :: "submitter \<Rightarrow> entry \<Rightarrow> string \<Rightarrow> bool" where
  "pressed_as s e day \<longleftrightarrow> \<lparr>x_key = q_key e, x_template = q_template e, x_period = day\<rparr> \<in> set (m_made s)"

definition traced :: "submitter \<Rightarrow> bool" where
  "traced s \<longleftrightarrow> (\<forall>e \<in> set (m_posts s). \<exists>day. pressed_as s e day) \<and> (\<forall>e \<in> set (q_store (m_queue s)). \<exists>day. q_period e = Some day \<and> pressed_as s e day)
     \<and> (\<forall>x \<in> set (m_made s). \<forall>y \<in> set (m_made s). x_key x = x_key y \<longrightarrow> x_template x = x_template y \<and> x_period x = x_period y)"

text \<open>A new key was never used, and an answer comes on the day of its press.\<close>

definition same_day :: "submitter \<Rightarrow> submit_event \<Rightarrow> bool" where
  "same_day s ev = (case ev of
     Pressed today tplId i fresh responses readable \<Rightarrow> fresh \<notin> x_key ` set (m_made s)
   | Post_Answered k r online now today \<Rightarrow> k < length (m_posts s) \<longrightarrow> pressed_as s (m_posts s ! k) today
   | _ \<Rightarrow> True)"

fun runs_same_day :: "submitter \<Rightarrow> submit_event list \<Rightarrow> bool" where
  "runs_same_day s [] = True"
| "runs_same_day s (e # es) \<longleftrightarrow> same_day s e \<and> runs_same_day (submit_step s e) es"

lemma payload_fields:
  "q_template (submitPayload today tplId i fresh responses st) = tplId"
  "q_key (submitPayload today tplId i fresh responses st) = fresh
    \<or> (\<exists>es e. st = Some es \<and> e \<in> set es \<and> q_template e = tplId \<and> q_period e = Some today \<and> q_key (submitPayload today tplId i fresh responses st) = q_key e)"
proof -
  show "q_template (submitPayload today tplId i fresh responses st) = tplId" by (simp add: submitPayload_def)
  show "q_key (submitPayload today tplId i fresh responses st) = fresh
    \<or> (\<exists>es e. st = Some es \<and> e \<in> set es \<and> q_template e = tplId \<and> q_period e = Some today \<and> q_key (submitPayload today tplId i fresh responses st) = q_key e)"
    by (auto simp: submitPayload_def findQueuedSubmission_def isCurrentPeriodEntry_def dest!: find_some split: option.splits)
qed

lemma tracedI:
  assumes "\<And>e. e \<in> set (m_posts s) \<Longrightarrow> \<exists>day. pressed_as s e day"
    and "\<And>e. e \<in> set (q_store (m_queue s)) \<Longrightarrow> \<exists>day. q_period e = Some day \<and> pressed_as s e day"
    and "\<And>x y. x \<in> set (m_made s) \<Longrightarrow> y \<in> set (m_made s) \<Longrightarrow> x_key x = x_key y \<Longrightarrow> x_template x = x_template y \<and> x_period x = x_period y"
  shows "traced s"
  unfolding traced_def using assms by blast

lemma traced_post: "traced s \<Longrightarrow> e \<in> set (m_posts s) \<Longrightarrow> \<exists>day. pressed_as s e day"
  unfolding traced_def by blast

lemma traced_waiting: "traced s \<Longrightarrow> e \<in> set (q_store (m_queue s)) \<Longrightarrow> \<exists>day. q_period e = Some day \<and> pressed_as s e day"
  unfolding traced_def by blast

lemma traced_key: "traced s \<Longrightarrow> x \<in> set (m_made s) \<Longrightarrow> y \<in> set (m_made s) \<Longrightarrow> x_key x = x_key y
    \<Longrightarrow> x_template x = x_template y \<and> x_period x = x_period y"
  unfolding traced_def by blast

lemma press_traced:
  assumes t: "traced s" and f: "fresh \<notin> x_key ` set (m_made s)"
  shows "traced (submit_pressed today tplId i fresh responses readable s)"
proof -
  define e where "e = submitPayload today tplId i fresh responses (if readable then Some (q_store (m_queue s)) else None)"
  define x where "x = \<lparr>x_key = q_key e, x_template = tplId, x_period = today\<rparr>"
  have s': "submit_pressed today tplId i fresh responses readable s = s\<lparr>m_posts := m_posts s @ [e], m_made := m_made s @ [x]\<rparr>"
    by (simp add: submit_pressed_def Let_def e_def x_def)
  have tpl: "q_template e = tplId" by (simp add: e_def payload_fields)
  have same: "x_template y = tplId \<and> x_period y = today" if y: "y \<in> set (m_made s)" "x_key y = q_key e" for y
  proof -
    have "x_key y \<in> x_key ` set (m_made s)" using y(1) by (rule imageI)
    then have "q_key e \<noteq> fresh" using f y(2) by metis
    then obtain d where d: "d \<in> set (q_store (m_queue s))" "q_template d = tplId" "q_period d = Some today" "q_key e = q_key d"
      using payload_fields(2) [of today tplId i fresh responses "if readable then Some (q_store (m_queue s)) else None"] unfolding e_def by (auto split: if_splits)
    then have "\<lparr>x_key = q_key d, x_template = tplId, x_period = today\<rparr> \<in> set (m_made s)" using traced_waiting [OF t d(1)] by (auto simp: pressed_as_def)
    then show ?thesis using traced_key [OF t y(1)] y(2) d(4) by fastforce
  qed
  have more: "pressed_as s d day \<Longrightarrow> pressed_as (s\<lparr>m_posts := m_posts s @ [e], m_made := m_made s @ [x]\<rparr>) d day" for d day by (simp add: pressed_as_def)
  have own: "pressed_as (s\<lparr>m_posts := m_posts s @ [e], m_made := m_made s @ [x]\<rparr>) e today" by (simp add: pressed_as_def x_def tpl)
  show ?thesis unfolding s'
  proof (rule tracedI)
    show "\<exists>day. pressed_as (s\<lparr>m_posts := m_posts s @ [e], m_made := m_made s @ [x]\<rparr>) d day"
      if "d \<in> set (m_posts (s\<lparr>m_posts := m_posts s @ [e], m_made := m_made s @ [x]\<rparr>))" for d
    proof (cases "d = e")
      case False
      then have "d \<in> set (m_posts s)" using that by simp
      then show ?thesis using traced_post [OF t] more by blast
    qed (use own in blast)
    show "\<exists>day. q_period d = Some day \<and> pressed_as (s\<lparr>m_posts := m_posts s @ [e], m_made := m_made s @ [x]\<rparr>) d day"
      if "d \<in> set (q_store (m_queue (s\<lparr>m_posts := m_posts s @ [e], m_made := m_made s @ [x]\<rparr>)))" for d
    proof -
      have "d \<in> set (q_store (m_queue s))" using that by simp
      then show ?thesis using traced_waiting [OF t] more by blast
    qed
    show "x_template y = x_template z \<and> x_period y = x_period z"
      if "y \<in> set (m_made (s\<lparr>m_posts := m_posts s @ [e], m_made := m_made s @ [x]\<rparr>))" "z \<in> set (m_made (s\<lparr>m_posts := m_posts s @ [e], m_made := m_made s @ [x]\<rparr>))"
        "x_key y = x_key z" for y z
    proof -
      have "y = x \<or> y \<in> set (m_made s)" "z = x \<or> z \<in> set (m_made s)" using that(1,2) by simp_all
      moreover have "x_key x = q_key e" "x_template x = tplId" "x_period x = today" by (simp_all add: x_def)
      ultimately show ?thesis using that(3) same traced_key [OF t] by metis
    qed
  qed
qed

lemma pressed_as_same: "m_made s' = m_made s \<Longrightarrow> pressed_as s' e day \<longleftrightarrow> pressed_as s e day"
  by (simp add: pressed_as_def)

text \<open>Fewer posts, and a queue whose entries are old ones or presses of their period.\<close>

lemma traced_fewer:
  assumes t: "traced s" and made: "m_made s' = m_made s" and posts: "set (m_posts s') \<subseteq> set (m_posts s)"
    and queue: "\<And>e. e \<in> set (q_store (m_queue s')) \<Longrightarrow> e \<in> set (q_store (m_queue s)) \<or> (\<exists>day. q_period e = Some day \<and> pressed_as s e day)"
  shows "traced s'"
proof (rule tracedI)
  show "\<exists>day. pressed_as s' e day" if "e \<in> set (m_posts s')" for e
    using traced_post [OF t] posts that unfolding pressed_as_same [OF made] by blast
  show "\<exists>day. q_period e = Some day \<and> pressed_as s' e day" if "e \<in> set (q_store (m_queue s'))" for e
    using queue [OF that] traced_waiting [OF t] unfolding pressed_as_same [OF made] by blast
  show "x_template x = x_template y \<and> x_period x = x_period y" if "x \<in> set (m_made s')" "y \<in> set (m_made s')" "x_key x = x_key y" for x y
    using traced_key [OF t] that unfolding made by blast
qed

lemma traced_queue: "traced s \<Longrightarrow> set (q_store q) \<subseteq> set (q_store (m_queue s)) \<Longrightarrow> traced (s\<lparr>m_queue := q\<rparr>)"
  by (erule traced_fewer) auto

lemma answer_traced:
  assumes t: "traced s" and d: "k < length (m_posts s) \<Longrightarrow> pressed_as s (m_posts s ! k) today"
  shows "traced (submit_answered k r online now today s)"
proof (cases "k < length (m_posts s)")
  case True
  define ps where "ps = take k (m_posts s) @ drop (Suc k) (m_posts s)"
  have ps: "set ps \<subseteq> set (m_posts s)" by (auto simp: ps_def dest: in_set_takeD in_set_dropD)
  have t1: "traced (s\<lparr>m_posts := ps\<rparr>)" using t by (rule traced_fewer) (simp_all add: ps)
  define e where "e = (m_posts s ! k)\<lparr>q_queuedAt := Some now, q_period := Some today\<rparr>"
  have q: "q_store (enqueueSubmission now today (m_posts s ! k) (m_queue s)) = idb_put e (q_store (m_queue s))"
    by (simp add: enqueueSubmission_def e_def)
  have p: "q_period e = Some today" "pressed_as s e today" using d [OF True] by (simp_all add: pressed_as_def e_def)
  have t2: "traced (s\<lparr>m_posts := ps, m_queue := enqueueSubmission now today (m_posts s ! k) (m_queue s)\<rparr>)" using t
  proof (rule traced_fewer)
    fix x assume "x \<in> set (q_store (m_queue (s\<lparr>m_posts := ps, m_queue := enqueueSubmission now today (m_posts s ! k) (m_queue s)\<rparr>)))"
    then have "x \<in> set (idb_put e (q_store (m_queue s)))" by (simp add: q)
    then have "x = e \<or> x \<in> set (q_store (m_queue s))" using idb_put_sub by blast
    then show "x \<in> set (q_store (m_queue s)) \<or> (\<exists>day. q_period x = Some day \<and> pressed_as s x day)" using p by blast
  qed (simp_all add: ps)
  show ?thesis
    using t1 t2 True by (cases "api r") (simp_all add: submit_answered_def Let_def ps_def)
qed (simp add: submit_answered_def t)

lemma step_traced: "traced s \<Longrightarrow> same_day s ev \<Longrightarrow> traced (submit_step s ev)"
  by (cases ev)
    (simp_all add: submit_step_def same_day_def press_traced answer_traced traced_queue drain_shrinks del: queue_step.simps)

lemma run_traced: "traced s \<Longrightarrow> runs_same_day s evs \<Longrightarrow> traced (submit_run s evs)"
proof (induction evs arbitrary: s)
  case (Cons e es)
  then show ?case using step_traced [of s e] by (simp add: submit_run_def)
qed (simp add: submit_run_def)

lemma init_traced: "traced submitter_init"
  by (simp add: traced_def submitter_init_def empty_queue_def)

text \<open>C20: no key joins two checklists or two days. In any run where minted keys are new and no answer comes on another day than its press, two
  presses under one key, which the server merges into one row, are of the same checklist on the same day; and while a
  submission of a checklist waits in the queue from today, any further press of it today has one of the waiting keys.\<close>
theorem key_joins_one_day:
  assumes "runs_same_day submitter_init evs" and "s = submit_run submitter_init evs" and "x \<in> set (m_made s)" and "y \<in> set (m_made s)"
  shows "(x_key x = x_key y \<longrightarrow> x_template x = x_template y \<and> x_period x = x_period y)
    \<and> ((\<exists>e \<in> set (q_store (m_queue s)). q_template e = tplId \<and> q_key e \<noteq> [] \<and> q_period e = Some today) \<longrightarrow>
       (\<exists>e \<in> set (q_store (m_queue s)). q_template e = tplId \<and> q_period e = Some today
          \<and> q_key (last (m_posts (submit_pressed today tplId i fresh responses True s))) = q_key e))"
proof -
  have t: "traced s" unfolding assms(2) by (rule run_traced [OF init_traced assms(1)])
  have "\<exists>e \<in> set (q_store (m_queue s)). q_template e = tplId \<and> q_period e = Some today
      \<and> q_key (last (m_posts (submit_pressed today tplId i fresh responses True s))) = q_key e"
    if w: "\<exists>e \<in> set (q_store (m_queue s)). q_template e = tplId \<and> q_key e \<noteq> [] \<and> q_period e = Some today"
  proof -
    obtain e where e: "findQueuedSubmission today tplId (Some (q_store (m_queue s))) = Some e"
      using w by (fastforce simp: findQueuedSubmission_def isCurrentPeriodEntry_def find_None_iff intro: option.exhaust
          [of "List.find (\<lambda>e. q_template e = tplId \<and> q_key e \<noteq> [] \<and> isCurrentPeriodEntry today e) (q_store (m_queue s))"])
    then have m: "e \<in> set (q_store (m_queue s))" "q_template e = tplId" "q_period e = Some today"
      using find_some by (fastforce simp: findQueuedSubmission_def isCurrentPeriodEntry_def)+
    have "q_key (last (m_posts (submit_pressed today tplId i fresh responses True s))) = q_key e"
      by (simp add: submit_pressed_def submitPayload_def e Let_def)
    then show ?thesis using m by blast
  qed
  then show ?thesis using t assms(3,4) unfolding traced_def by blast
qed

section \<open>At midnight\<close>

text \<open>A press that is answered after midnight carries yesterday's key into today. If a submission queued yesterday is pressed again just
  before midnight and that post fails offline after it, the second entry has yesterday's key and today's period, and a
  press of the checklist today is posted under the key of yesterday's row.\<close>
theorem midnight_carries_key:
  assumes "findQueuedSubmission monday tplId (Some (q_store (m_queue s))) = Some e" and "m_posts s = []" and "e \<in> set (q_store (m_queue s))"
    and "\<forall>d \<in> set (q_store (m_queue s)). q_period d \<noteq> Some tuesday \<and> q_id d \<noteq> i" and "q_key e \<noteq> []"
    and "t = submit_run s [Pressed monday tplId i k1 r1 True, Post_Answered 0 None False now tuesday, Pressed tuesday tplId j k2 r2 True]"
  shows "map q_key (m_posts t) = [q_key e] \<and> x_key (last (m_made t)) = q_key e \<and> x_period (last (m_made t)) = tuesday"
proof -
  define p where "p = submitPayload monday tplId i k1 r1 (Some (q_store (m_queue s)))"
  define d where "d = p\<lparr>q_queuedAt := Some now, q_period := Some tuesday\<rparr>"
  have d: "q_key d = q_key e" "q_template d = tplId" "q_period d = Some tuesday" "q_id d = i" using assms(1) by (simp_all add: d_def p_def submitPayload_def)
  define st where "st = idb_put d (q_store (m_queue s))"
  have new: "List.find (\<lambda>x. q_template x = tplId \<and> q_key x \<noteq> [] \<and> isCurrentPeriodEntry tuesday x) (idb_put d xs) = Some d"
    if "\<forall>x \<in> set xs. q_period x \<noteq> Some tuesday \<and> q_id x \<noteq> i" for xs
    using that d assms(5) by (induction xs) (auto simp: isCurrentPeriodEntry_def)
  have f: "findQueuedSubmission tuesday tplId (Some st) = Some d" unfolding findQueuedSubmission_def st_def using new assms(4) by simp
  define u where "u = submit_run s [Pressed monday tplId i k1 r1 True, Post_Answered 0 None False now tuesday]"
  have u: "q_store (m_queue u) = st" "m_posts u = []"
    by (simp_all add: u_def assms(2) submit_run_def submit_step_def submit_pressed_def [of monday] submit_answered_def api_def enqueueSubmission_def Let_def
        p_def [symmetric] d_def [symmetric] st_def)
  have "t = submit_pressed tuesday tplId j k2 r2 True u" unfolding assms(6) u_def by (simp add: submit_run_def submit_step_def)
  then show ?thesis using f d(1) u by (simp add: submit_pressed_def submitPayload_def Let_def)
qed

definition queued_monday :: submitter where
  "queued_monday = submit_run submitter_init [Pressed ''mon'' ''t'' ''i1'' ''key1'' (JArr []) True, Post_Answered 0 None False ''10:00'' ''mon'']"

lemma monday_store: "q_store (m_queue queued_monday) = [\<lparr>q_id = ''i1'', q_template = ''t'', q_key = ''key1'', q_responses = JArr [], q_queuedAt = Some ''10:00'', q_period = Some ''mon''\<rparr>]"
    "m_posts queued_monday = []" "m_made queued_monday = [\<lparr>x_key = ''key1'', x_template = ''t'', x_period = ''mon''\<rparr>]"
  by (simp_all add: queued_monday_def submit_run_def submit_step_def submit_pressed_def submitPayload_def findQueuedSubmission_def submit_answered_def
      api_def enqueueSubmission_def submitter_init_def empty_queue_def Let_def)

theorem key_joins_one_day_witness:
  "q_key (last (m_posts (submit_pressed ''mon'' ''t'' ''i2'' ''key2'' (JArr []) True queued_monday))) = ''key1''"
proof -
  have r: "runs_same_day submitter_init [Pressed ''mon'' ''t'' ''i1'' ''key1'' (JArr []) True, Post_Answered 0 None False ''10:00'' ''mon'']"
    by (simp add: same_day_def submit_step_def submit_pressed_def submitPayload_def findQueuedSubmission_def submitter_init_def empty_queue_def Let_def pressed_as_def)
  have m: "\<lparr>x_key = ''key1'', x_template = ''t'', x_period = ''mon''\<rparr> \<in> set (m_made queued_monday)" by (simp add: monday_store)
  from key_joins_one_day [OF r queued_monday_def m m, of "''t''" "''mon''" "''i2''" "''key2''" "JArr []"] show ?thesis by (simp add: monday_store)
qed

theorem midnight_carries_key_witness:
  "x_key (last (m_made (submit_run queued_monday [Pressed ''mon'' ''t'' ''i2'' ''key2'' (JArr []) True, Post_Answered 0 None False ''00:01'' ''tue'',
     Pressed ''tue'' ''t'' ''i3'' ''key3'' (JArr []) True]))) = ''key1''"
  using midnight_carries_key [of "''mon''" "''t''" queued_monday "hd (q_store (m_queue queued_monday))" "''tue''" "''i2''" _ "''key2''" "JArr []" "''00:01''" "''i3''" "''key3''" "JArr []"]
  by (simp add: monday_store findQueuedSubmission_def isCurrentPeriodEntry_def)

end
