(* ===== verification/Spec2Isabelle.thy ===== *)
theory Spec2Isabelle
  imports ReferenceMachine ConflictProps PushLiveness Replicas SubmitView SyncScopeProps SnapshotProps ConflictSheetRuns
    SyncClientProps BootstrapProps OpStore OpJournalProps OpQueueProps OpSocket OpApplyProps
    ApiCacheProps SwBuildProps ScanPageProps PageHelpersProps FillViewProps FillSaveProps TemplateSaveProps FillSyncProps
    SerialEnqueueProps SubmitKeysProps
begin

text \<open>
  A verification development for the Yumyums HQ operations console. The program is a set of static pages that work offline.
  Its own logic is in JavaScript under \<^verbatim>\<open>src/\<close> and falls into five parts.

  \<^item> The scanner (\<^verbatim>\<open>marketing/\<close>): a crew member scans a customer's code, the page resolves it against local replicas, and
    redeems it online or queues it for later. A statechart says what the screen may do; two replications carry rows down
    and attempts up; a stored procedure decides who won a code.
  \<^item> The checklist replication (\<^verbatim>\<open>sync-rxdb/\<close>, \<^verbatim>\<open>sync-schema/\<close>): four collections replicated within a scope, a field by field
    merge where two people edited one row, and a notice screen from which a losing value can be restored.
  \<^item> The operations sync (\<^verbatim>\<open>sync.js\<close>): the older channel of the same checklists. Every save is an operation with a Lamport
    timestamp, pushed to the server and broadcast over a socket; a submission made offline waits in a queue.
  \<^item> The checklists on the page (\<^verbatim>\<open>workflows.html\<close>): the runner, its autosaves, and the builder of templates.
  \<^item> What every page shares: a service worker that answers the API from a cache partitioned by the identity on the device
    (\<^verbatim>\<open>build-sw.js\<close>, \<^verbatim>\<open>index.html\<close>, \<^verbatim>\<open>login.html\<close>) and precaches the program, and small scripts for names, banners, tabs and logs.

  The parts meet in the data: the pages write through the operations sync and read, behind a flag, from the replicated
  collections; the scanner only shares the client door and the server.
\<close>

section \<open>Theories and code\<close>

text \<open>
  \<^item> \<open>Prelude\<close>: collections of simplification rules and lemmas on lists, options and maps that the components share.

  The scanner.
  \<^item> \<open>SubmitMachine\<close>, \<open>SubmitMachineFacts\<close>: \<^verbatim>\<open>marketing/submit-machine.js\<close>, its declarations, their compiler and the macrostep the
    vendored state machine engine runs on charts of this shape. \<open>ScannerInvariants\<close>, \<open>ScannerProps\<close>: the reachable snapshots
    and what follows for effects, prompts and gates. \<open>ReferenceMachine\<close>: the hand-rolled machine of the test suite
    (\<^verbatim>\<open>machine-handrolled.mjs\<close>) and its agreement with the chart after every event.
  \<^item> \<open>Scanner\<close>: \<^verbatim>\<open>marketing/scanner.js\<close>, of which \<open>SerialEnqueue\<close>, \<open>SerialEnqueueProps\<close> have \<open>makeSerializedEnqueue\<close> around the two awaits of
    \<open>enqueueAttempt\<close>; \<open>Sha256\<close>: \<^verbatim>\<open>marketing/sync/sha256.js\<close> and the standard it must equal; \<open>SubmitSupport\<close>:
    \<^verbatim>\<open>marketing/submit-support.js\<close>; \<open>SubmitFlow\<close>, \<open>SubmitView\<close>, \<open>SubmitFlowProps\<close>: \<^verbatim>\<open>marketing/submit-flow.js\<close>, its state, handlers
    and views, and the page over any interleaving of scans, results, answers and typing.
  \<^item> \<open>SyncClock\<close>, \<open>PullReplication\<close>, \<open>Replicas\<close>: \<^verbatim>\<open>marketing/sync/clock.js\<close>, \<^verbatim>\<open>pull-replication.js\<close> and \<^verbatim>\<open>replicas.js\<close>.
  \<^item> \<open>PushReplication\<close>: the queue of attempts and the push handler (\<^verbatim>\<open>marketing/sync/push-replication.js\<close>); \<open>MarketingServer\<close>: the
    procedure and constraints in \<^verbatim>\<open>supabase/migrations\<close>; \<open>PushProtocol\<close>: a device, the network and the server together;
    \<open>PushRefinement\<close>: that protocol implements one of burned codes and settled verdicts; \<open>PushInvariants\<close>, \<open>PushProps\<close>,
    \<open>PushLiveness\<close>: what holds in every history. \<open>RxCollection\<close>: the laws of the local collection as a locale,
    interpreted on the queue.

  The checklist replication.
  \<^item> \<open>JsonValues\<close>: values, objects as ordered fields. \<open>ConflictHandler\<close>: \<^verbatim>\<open>sync-rxdb/conflict-handler.js\<close>; \<open>ConflictSpec\<close>: the merge as
    a rule per field; \<open>ConflictProps\<close>: the code refines the rule.
  \<^item> \<open>ConflictNotice\<close>, \<open>ConflictSheet\<close>: \<^verbatim>\<open>sync-rxdb/conflict-notice.js\<close> and \<^verbatim>\<open>conflict-notice-ui.js\<close>; \<open>ConflictNoticeProps\<close>,
    \<open>ConflictStoreProps\<close>, \<open>SnapshotProps\<close>, \<open>ConflictSheetProps\<close>, \<open>ConflictSheetRuns\<close>: grouping and counting, the store of records,
    the walk for labels, and the screen over any taps and answers.
  \<^item> \<open>SyncCollections\<close>: \<^verbatim>\<open>sync-schema/collections.js\<close>. \<open>SyncScope\<close>, \<open>SyncClient\<close>: \<^verbatim>\<open>sync-rxdb/client.js\<close>, the scope of a replication
    and its filter, and the rest of the file (request rewriting, the realtime shim, database and replication start).
    \<open>SyncScopeProps\<close>, \<open>SyncClientProps\<close>: the filter is the scope, as the server reads it, and every replication starts with it.
  \<^item> \<open>Bootstrap\<close>, \<open>BootstrapProps\<close>: \<^verbatim>\<open>sync-rxdb/bootstrap.js\<close>, the read flag and the registry of open scopes.

  The operations sync, all \<^verbatim>\<open>sync.js\<close>.
  \<^item> \<open>OpStore\<close>: the store and its batches. \<open>OpJournal\<close>, \<open>OpJournalProps\<close>: the Lamport clock, saving and catching up, against the
    journal of \<^verbatim>\<open>backend/internal/sync/ops.go\<close>. \<open>OpQueue\<close>, \<open>OpQueueProps\<close>: the API wrapper and the offline queue. \<open>OpSocket\<close>: the
    socket and its reconnects. \<open>OpApply\<close>, \<open>OpApplyProps\<close>: what an operation does to the page (\<open>applyOp\<close> with the two functions
    of \<^verbatim>\<open>workflows.html\<close> it relies on), toasts and the save status.

  The checklists on the page, all \<^verbatim>\<open>workflows.html\<close>.
  \<^item> \<open>FillView\<close>, \<open>FillViewProps\<close>: the runner: what is visible and counted, how the answers are rebuilt from drafts, submissions and
    replicated rows, what a submit asks for and sends. \<open>FillSave\<close>, \<open>FillSaveProps\<close>: the autosaves, their answers in any order, the
    unsaved marks and the retries, with \<open>applyOp\<close> where an answer lost. \<open>FillSync\<close>, \<open>FillSyncProps\<close>: the live scope of an open
    checklist over the registry of \<open>Bootstrap\<close>, and the overlay it feeds. \<open>TemplateSave\<close>, \<open>TemplateSaveProps\<close>: what the builder
    sends and reads back, and which saves must be confirmed. \<open>SubmitKeys\<close>, \<open>SubmitKeysProps\<close>: \<open>submitChecklistToAPI\<close> and the
    keys it reuses, over \<open>OpQueue\<close>: no key joins two days unless an answer comes after midnight.

  What the pages share.
  \<^item> \<open>ApiCache\<close>, \<open>ApiCacheProps\<close>: the hooks of \<^verbatim>\<open>build-sw.js\<close> in the network-first strategy of the library beside it, with what the
    launcher and the login do to the cache and the identity: who is served what.
  \<^item> \<open>SwBuild\<close>, \<open>SwBuildProps\<close>: the guards of the build in \<^verbatim>\<open>build-sw.js\<close>, their expressions and paths: what is shipped is closed
    under reference.
  \<^item> \<open>ScanPage\<close>, \<open>ScanPageProps\<close>: \<^verbatim>\<open>marketing/scan-page.js\<close>, arming the replications, the camera and the scans in flight.
  \<^item> \<open>PageHelpers\<close>, \<open>PageHelpersProps\<close>: \<^verbatim>\<open>item-name.js\<close>, \<^verbatim>\<open>health-banner.js\<close>, \<^verbatim>\<open>tab.js\<close>, \<^verbatim>\<open>ptr.js\<close>, \<^verbatim>\<open>log.js\<close>, \<^verbatim>\<open>marketing/boot-failure.js\<close>.
\<close>

section \<open>How the code is modelled\<close>

text \<open>
  A definition has the name of the function it translates. JavaScript values are \<open>json\<close>, with \<open>undefined\<close> as a value; thrown
  errors are the left side of a sum or \<open>None\<close>; module variables and page globals are records. Asynchronous code is cut at its
  awaits: a step is one synchronous stretch, and the properties quantify over the order of the steps.

  \<^item> The macrostep of the chart has fuel 4: at most three raised events follow one another, and no snapshot reachable over
    the alphabet runs out.
  \<^item> A pull walk has as much fuel as there are rows to deliver and one more; with it the walk ends.
  \<^item> The pushes of a device follow a schedule of fates, one per await; the queue and the server are otherwise unbounded.
  \<^item> The parser of the server's filter grammar recurses on the weight of what is left to read.
  \<^item> The digest is for messages below two gigabytes, the range of its length field as the code writes it.
  \<^item> The walk for labels stops at depth 8 and after 20000 nodes, and values unwrap at most 8 times: the code's own bounds.
  \<^item> A handler of a page runs in one step. The answer to a redeem and the write of a restore are steps of their own; the
    store calls of the notice screen settle within the handler.
  \<^item> A drain of the offline queue takes a step per answer. The writes of the clock settle in the order they were made. A
    handle of the scope registry waits for a numbered promise.
  \<^item> Subscribers of the store subscribe and unsubscribe; they write no collection.
  \<^item> The reconnects are a step relation: what the browser and the network may do in each state.
  \<^item> What waits for a handle runs, when it has settled, at the end of the task and in the order it was registered.
  \<^item> A run of the autosaves interleaves the user, the timers and the answers at will; a save is answered once, in any order.
  \<^item> A request of the API route is cut where the worker awaits: its timer, the network's answer, the key of the write and the
    write. An answer carries the session whose cookie asked for it, for the statements only.
  \<^item> Regular expressions match by backtracking in the order of the language, on the place in the text; both recursions end.
\<close>

section \<open>What the lemmas show\<close>

text \<open>
  The scanner: the reachable snapshots satisfy a well-formedness invariant, from which follow the gating of effects, the
  preservation of progress by prompts and the protection of a submit in flight; the two machines agree after every
  event; what the resolver answers is borne out by the replicas; at most one redeem is in flight; every posted order
  number is valid. The protocol of pushes refines one of burned codes, so verdicts are true and no code is burned twice.

  The checklists: the merge refines the rule per field, a clash is described as it was decided, and no losing value is lost; the
  filter read back is the scope, identifiers separate scopes, the replications of a scope all start with it or none does;
  one replication per key while no handle is cancelled twice.

  The operations: a stamp exceeds what was seen before it, a submission is not lost before an answer, drains and reconnects end, an
  answer given before a rejection never lifts it, and an operation applied twice is applied once.

  The checklists on the page: a bounced field stays open however the page is rebuilt, replicated rows answer only their own checklist, what
  is submitted was visible and is explained; the last answer given is held as long as answers and retries come in turn, and
  the orders in which an older one returns; the checklists the page calls open are the ones replicated; a template survives a save, and no save discards answers unasked.

  The pages: while sessions change between requests, an answer from the cache goes to the session that fetched it; a build that
  succeeds ships every file its pages reach; the replications are armed once; one code is read at a time; one tab is open.

  Theorems of kind error state behaviour the code has and, by its comments, does not mean to have: what to reproduce,
  from which states, with which result.
\<close>

section \<open>Not modelled\<close>

text \<open>
  \<^item> The vendored engines: RxDB, supabase-js, the state machine library, the QR decoder, charts, the service worker library.
    They appear as parameters, as laws of a locale or as the calls made to them.
  \<^item> The markup: HTML text, escaping, caret and animation. Views are structured values.
  \<^item> The rest of the pages' inline scripts (other views, forms and handlers over the HTTP API) and the Go backend, except the journal of operations: other components in other
    languages, reached over HTTP.
  \<^item> The globbing, hashing and writing of the service worker build; the decoder of the camera library.
  \<^item> Harnesses, spikes, tests and configuration.
\<close>

end
